(* ===== verification/Nachos_Prelude.thy ===== *)
theory Nachos_Prelude
  imports Main "HOL-Library.Word" "HOL-Library.Signed_Division"
begin

text \<open>
  Prelude of the Nachos development: what the C++ of the kernel and of the machine
  simulation does when it stops abnormally, as values (\<open>fault\<close>, \<open>'a result\<close>); checked
  array accesses; the arithmetic macros of \<^verbatim>\<open>lib/utility.h\<close>; the generic lemmas on lists and
  words that the component theories share.

  C++ \<^verbatim>\<open>int\<close> is modelled as \<^typ>\<open>int\<close> where the code only counts and indexes with it and as
  \<open>32 word\<close> where it computes with machine words (registers, memory, bit maps); the target
  is the 32-bit build of \<^verbatim>\<open>build.linux/Makefile\<close> (\<^verbatim>\<open>-m32\<close>).
\<close>

unbundle bit_operations_syntax

named_theorems result_simps \<open>rewrite rules of the result monad\<close>
named_theorems bitmap_simps \<open>behaviour of the bitmap operations over the abstract bits\<close>

section \<open>Abnormal termination\<close>

text \<open>
  \<^item> \<open>AssertFail\<close>: a failed \<^verbatim>\<open>ASSERT\<close> or \<^verbatim>\<open>ASSERTNOTREACHED\<close>, which calls \<^verbatim>\<open>Abort()\<close>;
  \<^item> \<open>OutOfBounds\<close>: an access outside an array (undefined behaviour in the source);
  \<^item> \<open>NullDeref\<close>: a dereference of \<^verbatim>\<open>NULL\<close> or of a pointer to no live object;
  \<^item> \<open>HostTrap\<close>: the host processor traps the operation (integer division overflow);
  \<^item> \<open>Overflow\<close>: a signed sum outside the range of \<^verbatim>\<open>int\<close> (undefined behaviour in the source);
  \<^item> \<open>Diverges\<close>: a pointer walk that never ends (a cyclic list);
  \<^item> \<open>Deadlock\<close>: a wait that no pending event can end;
  \<^item> \<open>Shutdown\<close>: \<^verbatim>\<open>Interrupt::Halt\<close>, which ends the simulation and does not return.
\<close>

datatype fault = AssertFail | OutOfBounds | NullDeref | HostTrap | Overflow | Diverges | Deadlock | Shutdown

type_synonym 'a result = "fault + 'a"

definition rbind :: "'a result \<Rightarrow> ('a \<Rightarrow> 'b result) \<Rightarrow> 'b result" where
  "rbind r f = (case r of Inl e \<Rightarrow> Inl e | Inr x \<Rightarrow> f x)"

definition ASSERT :: "bool \<Rightarrow> unit result" where
  "ASSERT c = (if c then Inr () else Inl AssertFail)"

text \<open>An \<^verbatim>\<open>int\<close> that fits its 32 bits, and a sum of two of them.\<close>

definition int32 :: "int \<Rightarrow> bool" where
  "int32 i \<longleftrightarrow> - (2 ^ 31) \<le> i \<and> i < 2 ^ 31"

definition add_int :: "int \<Rightarrow> int \<Rightarrow> int result" where
  "add_int a b = (if int32 (a + b) then Inr (a + b) else Inl Overflow)"

lemma rbind_Inr [simp, result_simps]: "rbind (Inr x) f = f x"
  by (simp add: rbind_def)

lemma rbind_Inl [simp, result_simps]: "rbind (Inl e) f = Inl e"
  by (simp add: rbind_def)

lemma add_int_nonneg [simp]: "0 \<le> a \<Longrightarrow> 0 \<le> b \<Longrightarrow> a + b < 2 ^ 31 \<Longrightarrow> add_int a b = Inr (a + b)"
  by (simp add: add_int_def int32_def)

lemma rbind_Inr_right [simp, result_simps]: "rbind r Inr = r"
  by (cases r) simp_all

lemma rbind_assoc: "rbind (rbind r f) g = rbind r (\<lambda>x. rbind (f x) g)"
  by (simp add: rbind_def split: sum.splits)

lemma rbind_eq_Inr_iff: "rbind r f = Inr y \<longleftrightarrow> (\<exists>x. r = Inr x \<and> f x = Inr y)"
  by (cases r) simp_all

lemma rbind_eq_Inl_iff:
  "rbind r f = Inl e \<longleftrightarrow> r = Inl e \<or> (\<exists>x. r = Inr x \<and> f x = Inl e)"
  by (cases r) simp_all

lemma rbind_InrE [elim]:
  assumes "rbind r f = Inr y"
  obtains x where "r = Inr x" and "f x = Inr y"
  using assms by (auto simp: rbind_eq_Inr_iff)

lemma rbind_cong [fundef_cong]:
  "r = r' \<Longrightarrow> (\<And>x. r' = Inr x \<Longrightarrow> f x = g x) \<Longrightarrow> rbind r f = rbind r' g"
  by (cases r') simp_all

lemma rbind_if: "rbind (if c then r else s) f = (if c then rbind r f else rbind s f)"
  by simp

lemma ASSERT_True [simp, result_simps]: "ASSERT True = Inr ()"
  by (simp add: ASSERT_def)

lemma ASSERT_False [simp, result_simps]: "ASSERT False = Inl AssertFail"
  by (simp add: ASSERT_def)

lemma ASSERT_Inr_iff [simp]: "ASSERT c = Inr u \<longleftrightarrow> c"
  by (simp add: ASSERT_def)

lemma ASSERT_Inl_iff [simp]: "ASSERT c = Inl e \<longleftrightarrow> \<not> c \<and> e = AssertFail"
  by (auto simp: ASSERT_def)

lemma rbind_ASSERT: "rbind (ASSERT c) f = (if c then f () else Inl AssertFail)"
  by (simp add: ASSERT_def)

section \<open>Checked arrays\<close>

definition arr_get :: "'a list \<Rightarrow> int \<Rightarrow> 'a result" where
  "arr_get xs i = (if 0 \<le> i \<and> i < int (length xs) then Inr (xs ! nat i) else Inl OutOfBounds)"

definition arr_set :: "'a list \<Rightarrow> int \<Rightarrow> 'a \<Rightarrow> 'a list result" where
  "arr_set xs i v =
     (if 0 \<le> i \<and> i < int (length xs) then Inr (xs[nat i := v]) else Inl OutOfBounds)"

lemma arr_get_int [simp]: "k < length xs \<Longrightarrow> arr_get xs (int k) = Inr (xs ! k)"
  by (simp add: arr_get_def)

lemma arr_set_int [simp]: "k < length xs \<Longrightarrow> arr_set xs (int k) v = Inr (xs[k := v])"
  by (simp add: arr_set_def)

lemma arr_get_Inr_iff: "arr_get xs i = Inr x \<longleftrightarrow> 0 \<le> i \<and> i < int (length xs) \<and> x = xs ! nat i"
  by (auto simp: arr_get_def)

lemma arr_set_Inr_iff:
  "arr_set xs i v = Inr ys \<longleftrightarrow> 0 \<le> i \<and> i < int (length xs) \<and> ys = xs[nat i := v]"
  by (auto simp: arr_set_def)

section \<open>The macros of \<^verbatim>\<open>lib/utility.h\<close>\<close>

text \<open>C++ division and remainder truncate towards zero: \<open>sdiv\<close> and \<open>smod\<close>.\<close>

definition divRoundDown :: "int \<Rightarrow> int \<Rightarrow> int" where
  "divRoundDown n s = n sdiv s"

definition divRoundUp :: "int \<Rightarrow> int \<Rightarrow> int" where
  "divRoundUp n s = n sdiv s + (if n smod s > 0 then 1 else 0)"

lemma sdiv_nonneg: "0 \<le> (a::int) \<Longrightarrow> 0 < b \<Longrightarrow> a sdiv b = a div b"
  by (cases "a = 0") (simp_all add: signed_divide_int_def sgn_if)

lemma smod_nonneg: "0 \<le> (a::int) \<Longrightarrow> 0 < b \<Longrightarrow> a smod b = a mod b"
  by (cases "a = 0") (auto simp: signed_modulo_int_def sgn_if)

lemma divRoundDown_nonneg: "0 \<le> n \<Longrightarrow> 0 < s \<Longrightarrow> divRoundDown n s = n div s"
  by (simp add: divRoundDown_def sdiv_nonneg)

lemma divRoundUp_nonneg:
  "0 \<le> n \<Longrightarrow> 0 < s \<Longrightarrow> divRoundUp n s = n div s + (if n mod s > 0 then 1 else 0)"
  by (simp add: divRoundUp_def sdiv_nonneg smod_nonneg)

text \<open>\<open>divRoundUp\<close> is the least number of units of size \<open>s\<close> that hold \<open>n\<close> items.\<close>

lemma divRoundUp_least:
  assumes "0 \<le> n" and "0 < s"
  shows "divRoundUp n s \<le> k \<longleftrightarrow> n \<le> k * s"
proof -
  have n: "n = n div s * s + n mod s"
    by simp
  have r: "0 \<le> n mod s" "n mod s < s"
    using assms by simp_all
  show ?thesis
  proof (cases "n mod s > 0")
    case True
    have "n div s + 1 \<le> k \<longleftrightarrow> n div s < k"
      by (rule add1_zle_eq)
    also have "\<dots> \<longleftrightarrow> n \<le> k * s"
    proof
      assume "n div s < k"
      then have "(n div s + 1) * s \<le> k * s"
        using assms by (intro mult_right_mono) auto
      moreover have "(n div s + 1) * s = n div s * s + s"
        by (simp add: algebra_simps)
      ultimately show "n \<le> k * s"
        using n r by linarith
    next
      assume *: "n \<le> k * s"
      show "n div s < k"
      proof (rule ccontr)
        assume "\<not> n div s < k"
        then have "k * s \<le> n div s * s"
          using assms by (intro mult_right_mono) auto
        then show False
          using * n True by linarith
      qed
    qed
    finally show ?thesis
      using True assms by (simp add: divRoundUp_nonneg)
  next
    case False
    then have "n = n div s * s"
      using n r by linarith
    then have "n \<le> k * s \<longleftrightarrow> n div s * s \<le> k * s"
      by simp
    then show ?thesis
      using False assms by (simp add: divRoundUp_nonneg)
  qed
qed

section \<open>Loops that call an operation a fixed number of times\<close>

text \<open>
  \<open>iterate_r n f s\<close> is \<^verbatim>\<open>for (i = 0; i < n; i++) s = f(i, s)\<close>, stopping at the first fault.
\<close>

fun iterate_r :: "nat \<Rightarrow> nat \<Rightarrow> (nat \<Rightarrow> 's \<Rightarrow> 's result) \<Rightarrow> 's \<Rightarrow> 's result" where
  "iterate_r i 0 f s = Inr s"
| "iterate_r i (Suc n) f s = rbind (f i s) (iterate_r (Suc i) n f)"

text \<open>Invariant rule: the body keeps \<open>P\<close> from index to index and never faults.\<close>

lemma iterate_r_rule:
  assumes "P i s"
    and "\<And>k t. i \<le> k \<Longrightarrow> k < i + n \<Longrightarrow> P k t \<Longrightarrow> \<exists>u. f k t = Inr u \<and> P (Suc k) u"
  shows "\<exists>t. iterate_r i n f s = Inr t \<and> P (i + n) t"
  using assms
proof (induction n arbitrary: i s)
  case 0
  then show ?case by simp
next
  case (Suc n)
  obtain u where u: "f i s = Inr u" "P (Suc i) u"
    using Suc.prems(2) [of i s] Suc.prems(1) by auto
  have "\<exists>t. iterate_r (Suc i) n f u = Inr t \<and> P (Suc i + n) t"
    by (rule Suc.IH [OF u(2)]) (use Suc.prems(2) in auto)
  then show ?case
    using u by simp
qed

section \<open>Lists\<close>

lemma nth_map_upt_eq: "i < n \<Longrightarrow> map f [0..<n] ! i = f i"
  by simp

lemma map_upt_update:
  "k < n \<Longrightarrow> (map f [0..<n])[k := v] = map (f(k := v)) [0..<n]"
  by (rule nth_equalityI) (auto simp: nth_list_update)

lemma length_filter_list_update:
  "k < length xs \<Longrightarrow>
   length (filter P (xs[k := v])) + (if P (xs ! k) then 1 else 0) =
   length (filter P xs) + (if P v then 1 else 0)"
proof (induction xs arbitrary: k)
  case Nil
  then show ?case by simp
next
  case (Cons x xs)
  then show ?case by (cases k) auto
qed

text \<open>The indices at which a list of booleans is true: the allocated items of a bit map.\<close>

definition true_at :: "bool list \<Rightarrow> nat set" where
  "true_at bs = {i. i < length bs \<and> bs ! i}"

lemma true_at_finite [simp]: "finite (true_at bs)"
  by (rule finite_subset [of _ "{..<length bs}"]) (auto simp: true_at_def)

lemma true_at_set: "i < length bs \<Longrightarrow> true_at (bs[i := True]) = insert i (true_at bs)"
  by (auto simp: true_at_def nth_list_update)

lemma true_at_clear: "i < length bs \<Longrightarrow> true_at (bs[i := False]) = true_at bs - {i}"
  by (auto simp: true_at_def nth_list_update split: if_splits)

lemma true_at_replicate [simp]: "true_at (replicate n False) = {}"
  by (auto simp: true_at_def)

lemma card_true_at: "card (true_at bs) = length (filter id bs)"
  by (simp add: true_at_def length_filter_conv_card)

lemma filter_Not_true_at: "length (filter Not bs) = length bs - card (true_at bs)"
  using sum_length_filter_compl [of id bs] by (simp add: card_true_at comp_def id_def)

lemma true_at_less: "i \<in> true_at bs \<Longrightarrow> i < length bs"
  by (simp add: true_at_def)

section \<open>Words\<close>

lemma unat_less_iff_uint: "unat (w :: 32 word) < n \<longleftrightarrow> uint w < int n"
  by (simp flip: of_nat_less_iff [where 'a = int])

lemma sint_eq_uint32:
  assumes "uint (w :: 32 word) < 2 ^ 31"
  shows "sint w = uint w"
proof -
  have "- (2 ^ 31) \<le> uint w"
    using order_trans [OF _ uint_ge_0 [of w]] by simp
  then show ?thesis
    using signed_take_bit_int_eq_self [of 31 "uint w"] assms by (simp add: sint_uint)
qed

lemma uint_word_of_small_int: "0 \<le> m \<Longrightarrow> m < 2 ^ 31 \<Longrightarrow> uint (word_of_int m :: 32 word) = m"
  by (simp add: uint_word_of_int take_bit_int_eq_self)

section \<open>Sequences of operations and simulation\<close>

text \<open>
  \<open>run_ops step s ps\<close> does the operations \<open>ps\<close> one after the other and collects the values
  they return; the first fault ends the run.
\<close>

fun run_ops :: "('s \<Rightarrow> 'o \<Rightarrow> ('v option \<times> 's) result) \<Rightarrow> 's \<Rightarrow> 'o list \<Rightarrow> ('v list \<times> 's) result" where
  "run_ops step s [] = Inr ([], s)"
| "run_ops step s (p # ps) =
     rbind (step s p) (\<lambda>(v, t). rbind (run_ops step t ps) (\<lambda>(vs, u).
     Inr (case v of None \<Rightarrow> vs | Some y \<Rightarrow> y # vs, u)))"

text \<open>\<open>rsim R r q\<close>: both fault alike, or both return the same value and states related by \<open>R\<close>.\<close>

definition rsim :: "('s \<Rightarrow> 't \<Rightarrow> bool) \<Rightarrow> ('v \<times> 's) result \<Rightarrow> ('v \<times> 't) result \<Rightarrow> bool" where
  "rsim R r q = (case (r, q) of (Inl e, Inl f) \<Rightarrow> e = f
     | (Inr (v, s), Inr (w, t)) \<Rightarrow> v = w \<and> R s t | _ \<Rightarrow> False)"

lemma rsim_Inl [simp]: "rsim R (Inl e) (Inl f) \<longleftrightarrow> e = f"
  by (simp add: rsim_def)

lemma rsim_Inr [simp]: "rsim R (Inr (v, s)) (Inr (w, t)) \<longleftrightarrow> v = w \<and> R s t"
  by (simp add: rsim_def)

lemma rsim_Inl_Inr [simp]: "\<not> rsim R (Inl e) (Inr b)" "\<not> rsim R (Inr c) (Inl f)"
  by (auto simp: rsim_def split: prod.splits)

lemma rsim_cases:
  assumes "rsim R r q"
  obtains (fault) e where "r = Inl e" "q = Inl e"
  | (ok) v s t where "r = Inr (v, s)" "q = Inr (v, t)" "R s t"
proof (cases r; cases q)
  fix e f
  assume "r = Inl e" "q = Inl f"
  then show thesis using assms fault by simp
next
  fix b c
  assume "r = Inr b" "q = Inr c"
  then show thesis using assms ok by (cases b; cases c) simp
qed (use assms in \<open>auto simp: rsim_def split: prod.splits\<close>)

lemma run_ops_rsim:
  assumes "R s t" and "\<And>s t p. R s t \<Longrightarrow> rsim R (f s p) (g t p)"
  shows "rsim R (run_ops f s ps) (run_ops g t ps)"
  using assms(1)
proof (induction ps arbitrary: s t)
  case Nil
  then show ?case by simp
next
  case (Cons p ps)
  from assms(2) [OF Cons.prems, of p] show ?case
  proof (cases rule: rsim_cases)
    case (fault e)
    then show ?thesis by simp
  next
    case (ok v s1 t1)
    from Cons.IH [OF ok(3)] show ?thesis
      by (cases rule: rsim_cases) (use ok in auto)
  qed
qed

end
