(* ===== verification/Bitmap.thy ===== *)
theory Bitmap
  imports Nachos_Prelude
begin

text \<open>
  \<^verbatim>\<open>lib/bitmap.h\<close> and \<^verbatim>\<open>lib/bitmap.cc\<close>: an array of bits packed into 32-bit words, the
  allocator behind disk sectors, physical pages, process slots and user semaphores.
  The record mirrors the class; every method is one definition. \<open>bits\<close> is the abstract
  value, a list of booleans, and the lemmas say what each method does to it. The locale
  \<open>bit_allocator\<close> is the contract the clients rely on (allocation of a fresh index).
\<close>

section \<open>The class\<close>

definition BitsInByte :: int where
  "BitsInByte = 8"

definition BitsInWord :: int where
  "BitsInWord = 4 * BitsInByte"

record Bitmap =
  numBits :: int
  numWords :: int
  bm_map :: "32 word list"

definition Bitmap_Test :: "Bitmap \<Rightarrow> int \<Rightarrow> bool result" where
  "Bitmap_Test b which =
     rbind (ASSERT (which \<ge> 0 \<and> which < numBits b)) (\<lambda>_.
     rbind (arr_get (bm_map b) (which sdiv BitsInWord)) (\<lambda>w.
     Inr (w AND push_bit (nat (which smod BitsInWord)) 1 \<noteq> 0)))"

definition Bitmap_Mark :: "Bitmap \<Rightarrow> int \<Rightarrow> Bitmap result" where
  "Bitmap_Mark b which =
     rbind (ASSERT (which \<ge> 0 \<and> which < numBits b)) (\<lambda>_.
     rbind (arr_get (bm_map b) (which sdiv BitsInWord)) (\<lambda>w.
     rbind (arr_set (bm_map b) (which sdiv BitsInWord)
              (w OR push_bit (nat (which smod BitsInWord)) 1)) (\<lambda>m.
     let b' = b\<lparr>bm_map := m\<rparr> in
     rbind (Bitmap_Test b' which) (\<lambda>t.
     rbind (ASSERT t) (\<lambda>_. Inr b')))))"

definition Bitmap_Clear :: "Bitmap \<Rightarrow> int \<Rightarrow> Bitmap result" where
  "Bitmap_Clear b which =
     rbind (ASSERT (which \<ge> 0 \<and> which < numBits b)) (\<lambda>_.
     rbind (arr_get (bm_map b) (which sdiv BitsInWord)) (\<lambda>w.
     rbind (arr_set (bm_map b) (which sdiv BitsInWord)
              (w AND NOT (push_bit (nat (which smod BitsInWord)) 1))) (\<lambda>m.
     let b' = b\<lparr>bm_map := m\<rparr> in
     rbind (Bitmap_Test b' which) (\<lambda>t.
     rbind (ASSERT (\<not> t)) (\<lambda>_. Inr b')))))"

text \<open>The constructor clears every bit again after zeroing the words.\<close>

definition Bitmap_new :: "int \<Rightarrow> Bitmap result" where
  "Bitmap_new numItems =
     rbind (ASSERT (numItems > 0)) (\<lambda>_.
     let nw = divRoundUp numItems BitsInWord;
         b = \<lparr>numBits = numItems, numWords = nw, bm_map = replicate (nat nw) 0\<rparr>
     in iterate_r 0 (nat numItems) (\<lambda>i b. Bitmap_Clear b (int i)) b)"

function Bitmap_FindAndSet_from :: "int \<Rightarrow> Bitmap \<Rightarrow> (int \<times> Bitmap) result" where
  "Bitmap_FindAndSet_from i b =
     (if i < numBits b then
        rbind (Bitmap_Test b i) (\<lambda>t.
        if \<not> t then rbind (Bitmap_Mark b i) (\<lambda>b'. Inr (i, b'))
        else Bitmap_FindAndSet_from (i + 1) b)
      else Inr (- 1, b))"
  by pat_completeness auto
termination
  by (relation "measure (\<lambda>(i, b). nat (numBits b - i))") auto

declare Bitmap_FindAndSet_from.simps [simp del]

definition Bitmap_FindAndSet :: "Bitmap \<Rightarrow> (int \<times> Bitmap) result" where
  "Bitmap_FindAndSet b = Bitmap_FindAndSet_from 0 b"

definition Bitmap_NumClear :: "Bitmap \<Rightarrow> int result" where
  "Bitmap_NumClear b =
     iterate_r 0 (nat (numBits b))
       (\<lambda>i count. rbind (Bitmap_Test b (int i)) (\<lambda>t. Inr (if \<not> t then count + 1 else count))) 0"

text \<open>\<^verbatim>\<open>Print\<close>: the numbers it writes, in order.\<close>

definition Bitmap_Print :: "Bitmap \<Rightarrow> int list result" where
  "Bitmap_Print b =
     iterate_r 0 (nat (numBits b))
       (\<lambda>i out. rbind (Bitmap_Test b (int i)) (\<lambda>t. Inr (if t then out @ [int i] else out))) []"

definition Bitmap_SelfTest :: "Bitmap \<Rightarrow> Bitmap result" where
  "Bitmap_SelfTest b0 =
     rbind (ASSERT (numBits b0 \<ge> BitsInWord)) (\<lambda>_.
     rbind (Bitmap_NumClear b0) (\<lambda>n. rbind (ASSERT (n = numBits b0)) (\<lambda>_.
     rbind (Bitmap_FindAndSet b0) (\<lambda>(k0, b1). rbind (ASSERT (k0 = 0)) (\<lambda>_.
     rbind (Bitmap_Mark b1 31) (\<lambda>b2.
     rbind (Bitmap_Test b2 0) (\<lambda>t0.
     rbind (if t0 then Bitmap_Test b2 31 else Inr False) (\<lambda>t1. rbind (ASSERT t1) (\<lambda>_.
     rbind (Bitmap_FindAndSet b2) (\<lambda>(k1, b3). rbind (ASSERT (k1 = 1)) (\<lambda>_.
     rbind (Bitmap_Clear b3 0) (\<lambda>b4.
     rbind (Bitmap_Clear b4 1) (\<lambda>b5.
     rbind (Bitmap_Clear b5 31) (\<lambda>b6.
     rbind (iterate_r 0 (nat (numBits b6)) (\<lambda>i b. Bitmap_Mark b (int i)) b6) (\<lambda>b7.
     rbind (Bitmap_FindAndSet b7) (\<lambda>(k2, b8). rbind (ASSERT (k2 = - 1)) (\<lambda>_.
     iterate_r 0 (nat (numBits b8)) (\<lambda>i b. Bitmap_Clear b (int i)) b8)))))))))))))))))"

section \<open>Abstract value and invariant\<close>

definition bm_wf :: "Bitmap \<Rightarrow> bool" where
  "bm_wf b \<longleftrightarrow> numBits b > 0 \<and> numWords b = divRoundUp (numBits b) BitsInWord
     \<and> int (length (bm_map b)) = numWords b"

definition bm_bit :: "Bitmap \<Rightarrow> nat \<Rightarrow> bool" where
  "bm_bit b i = bit (bm_map b ! (i div 32)) (i mod 32)"

definition bits :: "Bitmap \<Rightarrow> bool list" where
  "bits b = map (bm_bit b) [0..<nat (numBits b)]"

lemma BitsInWord_eq [simp]: "BitsInWord = 32"
  by (simp add: BitsInWord_def BitsInByte_def)

lemma length_bits [simp]: "length (bits b) = nat (numBits b)"
  by (simp add: bits_def)

lemma nth_bits: "i < nat (numBits b) \<Longrightarrow> bits b ! i = bm_bit b i"
  by (simp add: bits_def)

lemma bm_word_index:
  assumes "bm_wf b" and "i < nat (numBits b)"
  shows "i div 32 < length (bm_map b)"
proof -
  have "numBits b \<le> divRoundUp (numBits b) 32 * 32"
    using assms(1) divRoundUp_least [of "numBits b" 32 "divRoundUp (numBits b) 32"]
    by (simp add: bm_wf_def)
  then have "numBits b \<le> int (length (bm_map b)) * 32"
    using assms(1) by (simp add: bm_wf_def)
  then show ?thesis
    using assms(2) by linarith
qed

lemma word_and_power2_neq_0: "(w AND 2 ^ n = (0::32 word)) \<longleftrightarrow> \<not> bit w n"
  by (rule and_exp_eq_0_iff_not_bit)

lemma sdiv_int_32 [simp]: "int i sdiv 32 = int (i div 32)"
  by (simp add: sdiv_nonneg zdiv_int)

lemma smod_int_32 [simp]: "int i smod 32 = int (i mod 32)"
  by (simp add: smod_nonneg zmod_int)

text \<open>Each method against the abstract bits.\<close>

lemma Bitmap_Test_bits [bitmap_simps]:
  assumes "bm_wf b" and "i < nat (numBits b)"
  shows "Bitmap_Test b (int i) = Inr (bits b ! i)"
proof -
  have "int i < numBits b"
    using assms(2) by linarith
  then show ?thesis
    using assms bm_word_index [OF assms]
    by (simp add: Bitmap_Test_def word_and_power2_neq_0 nth_bits bm_bit_def)
qed

lemma Bitmap_Test_range: "Bitmap_Test b w = Inl AssertFail" if "w < 0 \<or> w \<ge> numBits b"
  using that by (auto simp: Bitmap_Test_def rbind_ASSERT)

lemma bm_bit_update:
  assumes "i div 32 < length (bm_map b)" and "j div 32 < length (bm_map b)"
  shows "bm_bit (b\<lparr>bm_map := (bm_map b)[i div 32 := w]\<rparr>) j =
         (if j div 32 = i div 32 then bit w (j mod 32) else bm_bit b j)"
  using assms by (simp add: bm_bit_def nth_list_update)

lemma div_mod_32_eq: "(j::nat) div 32 = i div 32 \<Longrightarrow> j mod 32 = i mod 32 \<longleftrightarrow> j = i"
  by (metis div_mult_mod_eq)

lemma bits_update:
  assumes "bm_wf b" and "i < nat (numBits b)"
    and w: "\<And>k. k < 32 \<Longrightarrow> bit w k = (if k = i mod 32 then v else bit (bm_map b ! (i div 32)) k)"
  shows "bits (b\<lparr>bm_map := (bm_map b)[i div 32 := w]\<rparr>) = (bits b)[i := v]"
proof (rule nth_equalityI)
  fix j assume "j < length (bits (b\<lparr>bm_map := (bm_map b)[i div 32 := w]\<rparr>))"
  then have j: "j < nat (numBits b)" by simp
  then show "bits (b\<lparr>bm_map := (bm_map b)[i div 32 := w]\<rparr>) ! j = (bits b)[i := v] ! j"
    using bm_bit_update [OF bm_word_index [OF assms(1,2)] bm_word_index [OF assms(1) j], of w]
      div_mod_32_eq [of j i] assms(2)
    by (auto simp: nth_bits nth_list_update w) (auto simp: bm_bit_def)
qed simp

lemma bm_wf_update: "bm_wf b \<Longrightarrow> bm_wf (b\<lparr>bm_map := (bm_map b)[k := w]\<rparr>)"
  by (simp add: bm_wf_def)

lemma Bitmap_Mark_bits [bitmap_simps]:
  assumes "bm_wf b" and "i < nat (numBits b)"
  shows "\<exists>b'. Bitmap_Mark b (int i) = Inr b' \<and> bm_wf b' \<and> numBits b' = numBits b
     \<and> bits b' = (bits b)[i := True]"
proof -
  let ?w = "(bm_map b ! (i div 32)) OR push_bit (i mod 32) 1"
  let ?b = "b\<lparr>bm_map := (bm_map b)[i div 32 := ?w]\<rparr>"
  have wf: "bm_wf ?b"
    using assms(1) by (rule bm_wf_update)
  have bits: "bits ?b = (bits b)[i := True]"
    by (rule bits_update [OF assms]) (auto simp: bit_simps)
  have "int i < numBits b"
    using assms(2) by linarith
  moreover have "Bitmap_Test ?b (int i) = Inr True"
    using Bitmap_Test_bits [OF wf, of i] assms(2) unfolding bits by simp
  ultimately have "Bitmap_Mark b (int i) = Inr ?b"
    using bm_word_index [OF assms] by (simp add: Bitmap_Mark_def rbind_ASSERT)
  with wf bits show ?thesis by auto
qed

lemma Bitmap_Clear_bits [bitmap_simps]:
  assumes "bm_wf b" and "i < nat (numBits b)"
  shows "\<exists>b'. Bitmap_Clear b (int i) = Inr b' \<and> bm_wf b' \<and> numBits b' = numBits b
     \<and> bits b' = (bits b)[i := False]"
proof -
  let ?w = "(bm_map b ! (i div 32)) AND NOT (push_bit (i mod 32) 1)"
  let ?b = "b\<lparr>bm_map := (bm_map b)[i div 32 := ?w]\<rparr>"
  have wf: "bm_wf ?b"
    using assms(1) by (rule bm_wf_update)
  have bits: "bits ?b = (bits b)[i := False]"
    by (rule bits_update [OF assms]) (auto simp: bit_simps)
  have "int i < numBits b"
    using assms(2) by linarith
  moreover have "Bitmap_Test ?b (int i) = Inr False"
    using Bitmap_Test_bits [OF wf, of i] assms(2) unfolding bits by simp
  ultimately have "Bitmap_Clear b (int i) = Inr ?b"
    using bm_word_index [OF assms] by (simp add: Bitmap_Clear_def rbind_ASSERT)
  with wf bits show ?thesis by auto
qed

lemma Bitmap_Clear_range: "Bitmap_Clear b w = Inl AssertFail" if "w < 0 \<or> w \<ge> numBits b"
  using that by (auto simp: Bitmap_Clear_def rbind_ASSERT)

lemma Bitmap_Mark_range: "Bitmap_Mark b w = Inl AssertFail" if "w < 0 \<or> w \<ge> numBits b"
  using that by (auto simp: Bitmap_Mark_def rbind_ASSERT)

text \<open>Loops that mark or clear every bit.\<close>

definition bm_prefix :: "nat \<Rightarrow> bool \<Rightarrow> bool list \<Rightarrow> bool list" where
  "bm_prefix k v bs = replicate k v @ drop k bs"

lemma bm_prefix_Suc: "k < length bs \<Longrightarrow> (bm_prefix k v bs)[k := v] = bm_prefix (Suc k) v bs"
  by (simp add: bm_prefix_def list_update_append Cons_nth_drop_Suc [symmetric]
      replicate_app_Cons_same)

lemma Bitmap_fill_loop:
  assumes "bm_wf b"
    and op: "\<And>b i. bm_wf b \<Longrightarrow> i < nat (numBits b) \<Longrightarrow>
      \<exists>b'. f b (int i) = Inr b' \<and> bm_wf b' \<and> numBits b' = numBits b \<and> bits b' = (bits b)[i := v]"
  shows "\<exists>b'. iterate_r 0 (nat (numBits b)) (\<lambda>i b. f b (int i)) b = Inr b' \<and> bm_wf b'
     \<and> numBits b' = numBits b \<and> bits b' = replicate (nat (numBits b)) v"
proof -
  let ?P = "\<lambda>k c. bm_wf c \<and> numBits c = numBits b \<and> bits c = bm_prefix k v (bits b)"
  have "\<exists>c. iterate_r 0 (nat (numBits b)) (\<lambda>i b. f b (int i)) b = Inr c \<and> ?P (0 + nat (numBits b)) c"
  proof (rule iterate_r_rule)
    show "?P 0 b"
      using assms(1) by (simp add: bm_prefix_def)
    fix k c assume "k < 0 + nat (numBits b)" and "?P k c"
    then show "\<exists>u. f c (int k) = Inr u \<and> ?P (Suc k) u"
      using op [of c k] bm_prefix_Suc [of k "bits b" v] by auto
  qed
  then show ?thesis by (auto simp: bm_prefix_def)
qed

lemma Bitmap_new_bits:
  assumes "n > 0"
  shows "\<exists>b. Bitmap_new n = Inr b \<and> bm_wf b \<and> numBits b = n \<and> bits b = replicate (nat n) False"
proof -
  let ?b = "\<lparr>numBits = n, numWords = divRoundUp n 32, bm_map = replicate (nat (divRoundUp n 32)) 0\<rparr>"
  have "bm_wf ?b"
    using assms by (simp add: bm_wf_def divRoundUp_nonneg pos_imp_zdiv_nonneg_iff)
  then have "\<exists>b'. iterate_r 0 (nat (numBits ?b)) (\<lambda>i b. Bitmap_Clear b (int i)) ?b = Inr b' \<and> bm_wf b'
     \<and> numBits b' = numBits ?b \<and> bits b' = replicate (nat (numBits ?b)) False"
    by (rule Bitmap_fill_loop) (rule Bitmap_Clear_bits)
  then show ?thesis
    using assms by (simp add: Bitmap_new_def Let_def)
qed

lemma Bitmap_new_nonpos: "n \<le> 0 \<Longrightarrow> Bitmap_new n = Inl AssertFail"
  by (simp add: Bitmap_new_def rbind_ASSERT)

section \<open>Searching\<close>

text \<open>The first clear bit is the length of the longest all-set prefix.\<close>

definition first_clear :: "bool list \<Rightarrow> nat" where
  "first_clear bs = length (takeWhile id bs)"

lemma first_clear_le: "first_clear bs \<le> length bs"
  by (simp add: first_clear_def length_takeWhile_le)

lemma first_clear_is_clear: "first_clear bs < length bs \<Longrightarrow> \<not> bs ! first_clear bs"
  using nth_length_takeWhile [of id bs] by (simp add: first_clear_def)

lemma first_clear_prefix: "j < first_clear bs \<Longrightarrow> bs ! j"
  unfolding first_clear_def by (metis nth_mem set_takeWhileD takeWhile_nth id_apply)

lemma first_clear_eqI: "k \<le> length bs \<Longrightarrow> \<forall>j<k. bs ! j \<Longrightarrow> (k < length bs \<Longrightarrow> \<not> bs ! k) \<Longrightarrow> first_clear bs = k"
  by (metis first_clear_le first_clear_is_clear first_clear_prefix le_neq_implies_less
      linorder_neqE_nat order_less_le_trans)

lemma first_clear_full: "first_clear bs = length bs \<longleftrightarrow> False \<notin> set bs"
  by (metis (full_types) first_clear_def id_apply takeWhile_eq_all_conv length_takeWhile_le
      takeWhile_eq_take take_all_iff)

lemma Bitmap_FindAndSet_from_bits:
  assumes "bm_wf b" and "k \<le> nat (numBits b)" and "\<forall>j<k. bits b ! j"
  shows "if first_clear (bits b) < nat (numBits b)
     then \<exists>b'. Bitmap_FindAndSet_from (int k) b = Inr (int (first_clear (bits b)), b') \<and> bm_wf b'
        \<and> numBits b' = numBits b \<and> bits b' = (bits b)[first_clear (bits b) := True]
     else Bitmap_FindAndSet_from (int k) b = Inr (- 1, b)"
  using assms
proof (induction "nat (numBits b) - k" arbitrary: k)
  case 0
  then have "first_clear (bits b) = k"
    by (intro first_clear_eqI) auto
  with 0 show ?case
    by (auto simp: Bitmap_FindAndSet_from.simps [of "int k"])
next
  case (Suc d)
  then have k: "k < nat (numBits b)" "int k < numBits b" by linarith+
  have test: "Bitmap_Test b (int k) = Inr (bits b ! k)"
    by (rule Bitmap_Test_bits) fact+
  show ?case
  proof (cases "bits b ! k")
    case True
    have "Bitmap_FindAndSet_from (int k) b = Bitmap_FindAndSet_from (int (Suc k)) b"
      using k True by (subst Bitmap_FindAndSet_from.simps) (simp add: test add.commute)
    moreover have "\<forall>j<Suc k. bits b ! j"
      using Suc.prems(3) True by (auto simp: less_Suc_eq)
    ultimately show ?thesis
      using Suc.hyps(1) [of "Suc k"] Suc.hyps(2) Suc.prems(1) k by (simp del: of_nat_Suc)
  next
    case False
    then have "first_clear (bits b) = k"
      using Suc.prems k by (intro first_clear_eqI) auto
    then show ?thesis
      using Bitmap_Mark_bits [OF Suc.prems(1) k(1)] k False
      by (auto simp: Bitmap_FindAndSet_from.simps [of "int k"] test)
  qed
qed

lemma Bitmap_FindAndSet_bits:
  assumes "bm_wf b" and "first_clear (bits b) < nat (numBits b)"
  shows "\<exists>b'. Bitmap_FindAndSet b = Inr (int (first_clear (bits b)), b') \<and> bm_wf b'
        \<and> numBits b' = numBits b \<and> bits b' = (bits b)[first_clear (bits b) := True]"
  using Bitmap_FindAndSet_from_bits [of b 0] assms by (simp add: Bitmap_FindAndSet_def)

lemma Bitmap_FindAndSet_full:
  assumes "bm_wf b" and "\<not> first_clear (bits b) < nat (numBits b)"
  shows "Bitmap_FindAndSet b = Inr (- 1, b)"
  using Bitmap_FindAndSet_from_bits [of b 0] assms by (simp add: Bitmap_FindAndSet_def)

lemma Bitmap_NumClear_bits:
  assumes "bm_wf b"
  shows "Bitmap_NumClear b = Inr (int (length (filter Not (bits b))))"
proof -
  let ?f = "\<lambda>i count. rbind (Bitmap_Test b (int i)) (\<lambda>t. Inr (if \<not> t then count + 1 else count))"
  let ?P = "\<lambda>k c. c = int (length (filter Not (take k (bits b))))"
  have "\<exists>c. iterate_r 0 (nat (numBits b)) ?f 0 = Inr c \<and> ?P (0 + nat (numBits b)) c"
  proof (rule iterate_r_rule)
    show "?P 0 0" by simp
    fix k c assume "k < 0 + nat (numBits b)" and "?P k c"
    then show "\<exists>u. ?f k c = Inr u \<and> ?P (Suc k) u"
      using Bitmap_Test_bits [OF assms, of k] by (simp add: take_Suc_conv_app_nth)
  qed
  then show ?thesis by (simp add: Bitmap_NumClear_def)
qed

lemma Bitmap_Print_bits:
  assumes "bm_wf b"
  shows "Bitmap_Print b = Inr (map int (filter (\<lambda>i. bits b ! i) [0..<nat (numBits b)]))"
proof -
  let ?f = "\<lambda>i out. rbind (Bitmap_Test b (int i)) (\<lambda>t. Inr (if t then out @ [int i] else out))"
  let ?P = "\<lambda>k out. out = map int (filter (\<lambda>i. bits b ! i) [0..<k])"
  have "\<exists>c. iterate_r 0 (nat (numBits b)) ?f [] = Inr c \<and> ?P (0 + nat (numBits b)) c"
  proof (rule iterate_r_rule)
    show "?P 0 []" by simp
    fix k c assume "k < 0 + nat (numBits b)" and "?P k c"
    then show "\<exists>u. ?f k c = Inr u \<and> ?P (Suc k) u"
      using Bitmap_Test_bits [OF assms, of k] by simp
  qed
  then show ?thesis by (simp add: Bitmap_Print_def)
qed

section \<open>The module's self test\<close>

lemma Bitmap_SelfTest_clear:
  assumes wf: "bm_wf b" and big: "numBits b \<ge> 32"
    and clr: "bits b = replicate (nat (numBits b)) False"
  shows "\<exists>b'. Bitmap_SelfTest b = Inr b' \<and> bm_wf b' \<and> numBits b' = numBits b
     \<and> bits b' = replicate (nat (numBits b)) False"
proof -
  let ?n = "nat (numBits b)"
  have n: "31 < ?n" using big by linarith
  have cnt: "Bitmap_NumClear b = Inr (numBits b)"
    using Bitmap_NumClear_bits [OF wf] big by (simp add: clr)
  have fc0: "first_clear (bits b) = 0"
    using n by (intro first_clear_eqI) (auto simp: clr)
  obtain b1 where b1: "Bitmap_FindAndSet b = Inr (0, b1)" "bm_wf b1" "numBits b1 = numBits b"
      "bits b1 = (bits b)[0 := True]"
    using Bitmap_FindAndSet_bits [OF wf] big fc0 by auto
  obtain b2 where b2: "Bitmap_Mark b1 31 = Inr b2" "bm_wf b2" "numBits b2 = numBits b"
      "bits b2 = (bits b1)[31 := True]"
    using Bitmap_Mark_bits [of b1 31] b1 n by auto
  have t0: "Bitmap_Test b2 0 = Inr True" and t31: "Bitmap_Test b2 31 = Inr True"
    using Bitmap_Test_bits [of b2 0] Bitmap_Test_bits [of b2 31] b1 b2 n by (simp_all add: clr)
  have fc1: "first_clear (bits b2) = 1"
    using n by (intro first_clear_eqI) (auto simp: b2 b1 clr nth_list_update)
  obtain b3 where b3: "Bitmap_FindAndSet b2 = Inr (1, b3)" "bm_wf b3" "numBits b3 = numBits b"
    using Bitmap_FindAndSet_bits [of b2] b2 big fc1 by auto
  obtain b4 where b4: "Bitmap_Clear b3 0 = Inr b4" "bm_wf b4" "numBits b4 = numBits b"
    using Bitmap_Clear_bits [of b3 0] b3 n big by auto
  obtain b5 where b5: "Bitmap_Clear b4 1 = Inr b5" "bm_wf b5" "numBits b5 = numBits b"
    using Bitmap_Clear_bits [of b4 1] b4 n big by auto
  obtain b6 where b6: "Bitmap_Clear b5 31 = Inr b6" "bm_wf b6" "numBits b6 = numBits b"
    using Bitmap_Clear_bits [of b5 31] b5 n big by auto
  obtain b7 where b7: "iterate_r 0 ?n (\<lambda>i b. Bitmap_Mark b (int i)) b6 = Inr b7" "bm_wf b7"
      "numBits b7 = numBits b" "bits b7 = replicate ?n True"
    using Bitmap_fill_loop [OF b6(2), of Bitmap_Mark True] Bitmap_Mark_bits b6(3) by auto
  have "first_clear (bits b7) = ?n"
    by (rule first_clear_eqI) (auto simp: b7)
  then have full: "Bitmap_FindAndSet b7 = Inr (- 1, b7)"
    using Bitmap_FindAndSet_full [OF b7(2)] b7(3) by simp
  obtain b8 where b8: "iterate_r 0 ?n (\<lambda>i b. Bitmap_Clear b (int i)) b7 = Inr b8" "bm_wf b8"
      "numBits b8 = numBits b" "bits b8 = replicate ?n False"
    using Bitmap_fill_loop [OF b7(2), of Bitmap_Clear False] Bitmap_Clear_bits b7(3) by auto
  show ?thesis
    using big cnt b1 b2 t0 t31 b3 b4 b5 b6 b7 full b8 by (simp add: Bitmap_SelfTest_def)
qed

section \<open>The allocator contract\<close>

text \<open>
  What the clients of a bit map rely on. A client that asks for several items gets
  \<open>alloc_seq\<close>: the results of successive calls.
\<close>

fun alloc_seq :: "('b \<Rightarrow> (int \<times> 'b) result) \<Rightarrow> 'b \<Rightarrow> int list \<Rightarrow> 'b \<Rightarrow> bool" where
  "alloc_seq fnd b [] b' \<longleftrightarrow> b' = b"
| "alloc_seq fnd b (k # ks) b' \<longleftrightarrow> (\<exists>b1. fnd b = Inr (k, b1) \<and> alloc_seq fnd b1 ks b')"

locale bit_allocator =
  fixes wf :: "'b \<Rightarrow> bool"
    and abits :: "'b \<Rightarrow> bool list"
    and test_bit :: "'b \<Rightarrow> int \<Rightarrow> bool result"
    and find_and_set :: "'b \<Rightarrow> (int \<times> 'b) result"
    and clear_bit :: "'b \<Rightarrow> int \<Rightarrow> 'b result"
    and num_clear :: "'b \<Rightarrow> int result"
  assumes test_law: "wf b \<Longrightarrow> i < length (abits b) \<Longrightarrow> test_bit b (int i) = Inr (abits b ! i)"
    and find_law: "wf b \<Longrightarrow> False \<in> set (abits b) \<Longrightarrow>
      \<exists>i b'. find_and_set b = Inr (int i, b') \<and> i < length (abits b) \<and> \<not> abits b ! i \<and> wf b'
        \<and> abits b' = (abits b)[i := True]"
    and full_law: "wf b \<Longrightarrow> False \<notin> set (abits b) \<Longrightarrow> find_and_set b = Inr (- 1, b)"
    and clear_law: "wf b \<Longrightarrow> i < length (abits b) \<Longrightarrow>
      \<exists>b'. clear_bit b (int i) = Inr b' \<and> wf b' \<and> abits b' = (abits b)[i := False]"
    and count_law: "wf b \<Longrightarrow> num_clear b = Inr (int (length (filter Not (abits b))))"
begin

definition used :: "'b \<Rightarrow> nat set" where
  "used b = true_at (abits b)"

lemma num_clear_card: "wf b \<Longrightarrow> num_clear b = Inr (int (length (abits b) - card (used b)))"
  by (simp add: count_law used_def filter_Not_true_at)

lemma find_used:
  assumes "wf b" and "card (used b) < length (abits b)"
  shows "\<exists>i b'. find_and_set b = Inr (int i, b') \<and> i < length (abits b) \<and> i \<notin> used b \<and> wf b'
     \<and> length (abits b') = length (abits b) \<and> used b' = insert i (used b)"
proof -
  have "False \<in> set (abits b)"
  proof (rule ccontr)
    assume "False \<notin> set (abits b)"
    then have "filter id (abits b) = abits b"
      by (metis (full_types) filter_True id_apply)
    with assms(2) show False
      by (simp add: used_def card_true_at)
  qed
  then obtain i b' where "find_and_set b = Inr (int i, b')" "i < length (abits b)" "\<not> abits b ! i"
      "wf b'" "abits b' = (abits b)[i := True]"
    using find_law [OF assms(1)] by blast
  then show ?thesis
    by (intro exI [of _ i] exI [of _ b']) (simp add: used_def true_at_set, simp add: true_at_def)
qed

lemma clear_used:
  assumes "wf b" and "i \<in> used b"
  shows "\<exists>b'. clear_bit b (int i) = Inr b' \<and> wf b' \<and> length (abits b') = length (abits b)
     \<and> used b' = used b - {i}"
  using clear_law [OF assms(1), of i] true_at_less [of i "abits b"] assms(2)
  by (force simp: used_def true_at_clear)

text \<open>Enough clear bits: \<open>n\<close> calls return \<open>n\<close> distinct, previously free, in-range indices.\<close>

lemma alloc_seq_fresh:
  assumes "wf b" and "card (used b) + n \<le> length (abits b)"
  shows "\<exists>is b'. alloc_seq find_and_set b (map int is) b' \<and> length is = n \<and> distinct is \<and> wf b'
     \<and> length (abits b') = length (abits b) \<and> set is \<subseteq> {..<length (abits b)}
     \<and> set is \<inter> used b = {} \<and> used b' = used b \<union> set is"
  using assms
proof (induction n arbitrary: b)
  case 0
  then show ?case by (intro exI [of _ "[]"] exI [of _ b]) simp
next
  case (Suc n)
  obtain i b1 where i: "find_and_set b = Inr (int i, b1)" "i < length (abits b)" "i \<notin> used b"
      "wf b1" "length (abits b1) = length (abits b)" "used b1 = insert i (used b)"
    using find_used [OF Suc.prems(1)] Suc.prems(2) by auto
  have "card (used b1) + n \<le> length (abits b1)"
    using Suc.prems(2) i by (simp add: used_def)
  then obtain js b2 where js: "alloc_seq find_and_set b1 (map int js) b2" "length js = n"
      "distinct js" "wf b2" "length (abits b2) = length (abits b1)"
      "set js \<subseteq> {..<length (abits b1)}" "set js \<inter> used b1 = {}" "used b2 = used b1 \<union> set js"
    using Suc.IH [OF i(4)] by auto
  then show ?case
    using i by (intro exI [of _ "i # js"] exI [of _ b2]) auto
qed

end

interpretation bm: bit_allocator bm_wf bits Bitmap_Test Bitmap_FindAndSet Bitmap_Clear Bitmap_NumClear
proof unfold_locales
  fix b assume "bm_wf b" "False \<in> set (bits b)"
  then have "first_clear (bits b) < nat (numBits b)"
    using first_clear_full [of "bits b"] first_clear_le [of "bits b"] by (metis le_neq_implies_less length_bits)
  then show "\<exists>i b'. Bitmap_FindAndSet b = Inr (int i, b') \<and> i < length (bits b) \<and> \<not> bits b ! i
      \<and> bm_wf b' \<and> bits b' = (bits b)[i := True]"
    using Bitmap_FindAndSet_bits [OF \<open>bm_wf b\<close>] first_clear_is_clear [of "bits b"] by auto
next
  fix b assume "bm_wf b" "False \<notin> set (bits b)"
  then show "Bitmap_FindAndSet b = Inr (- 1, b)"
    using Bitmap_FindAndSet_full first_clear_full [of "bits b"] by simp
next
  fix b i assume "bm_wf b" "i < length (bits b)"
  then show "\<exists>b'. Bitmap_Clear b (int i) = Inr b' \<and> bm_wf b' \<and> bits b' = (bits b)[i := False]"
    using Bitmap_Clear_bits [of b i] by auto
qed (simp_all add: Bitmap_Test_bits Bitmap_NumClear_bits)

section \<open>Properties\<close>

text \<open>\<^verbatim>\<open>Bitmap::FindAndSet\<close> on a well-formed bit map returns the number of the lowest clear
  bit and sets exactly that bit, or returns -1 and changes nothing when every bit is set; it
  never fails an assertion and never reads outside the word array.\<close>

theorem Bitmap_FindAndSet_spec:
  assumes "bm_wf b"
  shows "if False \<in> set (bits b)
     then \<exists>i b'. Bitmap_FindAndSet b = Inr (int i, b') \<and> i < nat (numBits b) \<and> \<not> bits b ! i
        \<and> (\<forall>j<i. bits b ! j) \<and> bm_wf b' \<and> numBits b' = numBits b \<and> bits b' = (bits b)[i := True]
     else Bitmap_FindAndSet b = Inr (- 1, b)"
proof (cases "False \<in> set (bits b)")
  case True
  then have lt: "first_clear (bits b) < nat (numBits b)"
    using first_clear_full [of "bits b"] first_clear_le [of "bits b"] by (metis le_neq_implies_less length_bits)
  then show ?thesis
    using Bitmap_FindAndSet_bits [OF assms lt] first_clear_is_clear [of "bits b"]
      first_clear_prefix [of _ "bits b"] True by auto
next
  case False
  then show ?thesis
    using bm.full_law [OF assms] by simp
qed

definition sample_bitmap :: Bitmap where
  "sample_bitmap = \<lparr>numBits = 3, numWords = 1, bm_map = [5]\<rparr>"

lemma sample_bitmap_facts:
  "bm_wf sample_bitmap" "bits sample_bitmap = [True, False, True]"
  by (simp_all add: sample_bitmap_def bm_wf_def bits_def bm_bit_def divRoundUp_nonneg upt_rec)

theorem Bitmap_FindAndSet_spec_witness:
  "bm_wf sample_bitmap \<and> (\<exists>b'. Bitmap_FindAndSet sample_bitmap = Inr (1, b') \<and> bits b' = [True, True, True])"
proof -
  obtain i b' where i: "Bitmap_FindAndSet sample_bitmap = Inr (int i, b')" "i < 3"
      "\<not> [True, False, True] ! i" "bits b' = [True, False, True][i := True]"
    using Bitmap_FindAndSet_spec [OF sample_bitmap_facts(1)]
    by (auto simp: sample_bitmap_facts) (simp add: sample_bitmap_def)
  then have "i = 1"
    by (auto simp: less_Suc_eq numeral_3_eq_3 numeral_2_eq_2)
  with i show ?thesis by (simp add: sample_bitmap_facts)
qed

text \<open>A bit map that the constructor built with at least 32 bits passes
  \<^verbatim>\<open>Bitmap::SelfTest\<close> (no assertion of it fails) and is all clear again afterwards.\<close>

theorem Bitmap_SelfTest_passes:
  assumes "n \<ge> 32"
  shows "\<exists>b b'. Bitmap_new n = Inr b \<and> Bitmap_SelfTest b = Inr b' \<and> numBits b' = n
     \<and> bits b' = replicate (nat n) False"
proof -
  obtain b where b: "Bitmap_new n = Inr b" "bm_wf b" "numBits b = n" "bits b = replicate (nat n) False"
    using Bitmap_new_bits [of n] assms by auto
  then show ?thesis
    using Bitmap_SelfTest_clear [of b] assms by auto
qed

theorem Bitmap_SelfTest_passes_witness:
  "\<exists>b b'. Bitmap_new 200 = Inr b \<and> Bitmap_SelfTest b = Inr b' \<and> bits b' = replicate 200 False"
  using Bitmap_SelfTest_passes [of 200] by force

end
