(* ===== verification/NachosList.thy ===== *)
theory NachosList
  imports Nachos_Prelude "HOL-Library.Multiset"
begin

text \<open>
  \<^verbatim>\<open>lib/list.h\<close> and \<^verbatim>\<open>lib/list.cc\<close>: the singly linked list and the sorted list, at the level
  of the code: \<open>ListElement\<close> cells in an explicit store, a list object with its
  \<open>first\<close>, \<open>last\<close> and \<open>numInList\<close>. Pointers are addresses or NULL (\<open>None\<close>). The last
  section gives the operations \<open>absl_\<dots>\<close> on HOL lists, which the other components use;
  \<open>ListRefinement\<close> shows that the pointer operations implement them.

  A pointer walk gets as fuel one more than the number of addresses ever allocated; a walk
  that exhausts it has met a cell twice and would never end in the source (\<open>Diverges\<close>).
\<close>

section \<open>Cells and the store\<close>

type_synonym addr = nat

record 'a ListElement =
  le_item :: 'a
  le_next :: "addr option"

record 'a store =
  cells :: "addr \<rightharpoonup> 'a ListElement"
  brk :: addr

definition empty_store :: "'a store" where
  "empty_store = \<lparr>cells = Map.empty, brk = 0\<rparr>"

record NList =
  l_first :: "addr option"
  l_last :: "addr option"
  numInList :: int

definition ListElement_new :: "'a store \<Rightarrow> 'a \<Rightarrow> addr \<times> 'a store" where
  "ListElement_new h itm =
     (brk h, h\<lparr>cells := (cells h)(brk h \<mapsto> \<lparr>le_item = itm, le_next = None\<rparr>), brk := Suc (brk h)\<rparr>)"

definition deref :: "'a store \<Rightarrow> addr option \<Rightarrow> 'a ListElement result" where
  "deref h p = (case p of None \<Rightarrow> Inl NullDeref
     | Some a \<Rightarrow> (case cells h a of None \<Rightarrow> Inl NullDeref | Some e \<Rightarrow> Inr e))"

definition set_next :: "'a store \<Rightarrow> addr option \<Rightarrow> addr option \<Rightarrow> 'a store result" where
  "set_next h p q = rbind (deref h p) (\<lambda>e. Inr (h\<lparr>cells := (cells h)(the p \<mapsto> e\<lparr>le_next := q\<rparr>)\<rparr>))"

definition free_cell :: "'a store \<Rightarrow> addr option \<Rightarrow> 'a store result" where
  "free_cell h p = rbind (deref h p) (\<lambda>e. Inr (h\<lparr>cells := (cells h)(the p := None)\<rparr>))"

section \<open>List\<close>

definition List_new :: NList where
  "List_new = \<lparr>l_first = None, l_last = None, numInList = 0\<rparr>"

definition List_IsEmpty :: "NList \<Rightarrow> bool" where
  "List_IsEmpty l \<longleftrightarrow> numInList l = 0"

definition List_Front :: "'a store \<Rightarrow> NList \<Rightarrow> 'a result" where
  "List_Front h l = rbind (deref h (l_first l)) (\<lambda>e. Inr (le_item e))"

fun find_walk :: "nat \<Rightarrow> 'a store \<Rightarrow> addr option \<Rightarrow> 'a \<Rightarrow> bool result" where
  "find_walk 0 h p x = Inl Diverges"
| "find_walk (Suc n) h None x = Inr False"
| "find_walk (Suc n) h (Some a) x =
     rbind (deref h (Some a)) (\<lambda>e. if x = le_item e then Inr True else find_walk n h (le_next e) x)"

definition List_IsInList :: "'a store \<Rightarrow> NList \<Rightarrow> 'a \<Rightarrow> bool result" where
  "List_IsInList h l x = find_walk (Suc (brk h)) h (l_first l) x"

definition List_Append :: "'a store \<Rightarrow> NList \<Rightarrow> 'a \<Rightarrow> ('a store \<times> NList) result" where
  "List_Append h l x =
     (let (a, h1) = ListElement_new h x in
      rbind (List_IsInList h1 l x) (\<lambda>t. rbind (ASSERT (\<not> t)) (\<lambda>_.
      rbind (if List_IsEmpty l then Inr (h1, l\<lparr>l_first := Some a, l_last := Some a\<rparr>)
             else rbind (set_next h1 (l_last l) (Some a)) (\<lambda>h2. Inr (h2, l\<lparr>l_last := Some a\<rparr>)))
        (\<lambda>(h2, l2).
      let l3 = l2\<lparr>numInList := numInList l2 + 1\<rparr> in
      rbind (List_IsInList h2 l3 x) (\<lambda>t. rbind (ASSERT t) (\<lambda>_. Inr (h2, l3)))))))"

definition List_Prepend :: "'a store \<Rightarrow> NList \<Rightarrow> 'a \<Rightarrow> ('a store \<times> NList) result" where
  "List_Prepend h l x =
     (let (a, h1) = ListElement_new h x in
      rbind (List_IsInList h1 l x) (\<lambda>t. rbind (ASSERT (\<not> t)) (\<lambda>_.
      rbind (if List_IsEmpty l then Inr (h1, l\<lparr>l_first := Some a, l_last := Some a\<rparr>)
             else rbind (set_next h1 (Some a) (l_first l)) (\<lambda>h2. Inr (h2, l\<lparr>l_first := Some a\<rparr>)))
        (\<lambda>(h2, l2).
      let l3 = l2\<lparr>numInList := numInList l2 + 1\<rparr> in
      rbind (List_IsInList h2 l3 x) (\<lambda>t. rbind (ASSERT t) (\<lambda>_. Inr (h2, l3)))))))"

definition List_RemoveFront :: "'a store \<Rightarrow> NList \<Rightarrow> ('a \<times> 'a store \<times> NList) result" where
  "List_RemoveFront h l =
     rbind (ASSERT (\<not> List_IsEmpty l)) (\<lambda>_.
     rbind (deref h (l_first l)) (\<lambda>e.
     let l1 = (if l_first l = l_last l then l\<lparr>l_first := None, l_last := None\<rparr>
               else l\<lparr>l_first := le_next e\<rparr>);
         l2 = l1\<lparr>numInList := numInList l1 - 1\<rparr> in
     rbind (free_cell h (l_first l)) (\<lambda>h'. Inr (le_item e, h', l2))))"

text \<open>The search loop of \<^verbatim>\<open>Remove\<close>: it returns whether it left the loop with \<^verbatim>\<open>ptr != NULL\<close>.\<close>

fun remove_walk :: "nat \<Rightarrow> 'a store \<Rightarrow> NList \<Rightarrow> addr option \<Rightarrow> addr option \<Rightarrow> 'a
    \<Rightarrow> (bool \<times> 'a store \<times> NList) result" where
  "remove_walk 0 h l prev p x = Inl Diverges"
| "remove_walk (Suc n) h l prev None x = Inr (False, h, l)"
| "remove_walk (Suc n) h l prev (Some a) x =
     rbind (deref h (Some a)) (\<lambda>e.
     if x = le_item e then
       rbind (set_next h prev (le_next e)) (\<lambda>h1.
       let l1 = (if le_next e = None then l\<lparr>l_last := prev\<rparr> else l) in
       rbind (free_cell h1 (Some a)) (\<lambda>h2. Inr (True, h2, l1\<lparr>numInList := numInList l1 - 1\<rparr>)))
     else remove_walk n h l (Some a) (le_next e) x)"

definition List_Remove :: "'a store \<Rightarrow> NList \<Rightarrow> 'a \<Rightarrow> ('a store \<times> NList) result" where
  "List_Remove h l x =
     rbind (List_IsInList h l x) (\<lambda>t. rbind (ASSERT t) (\<lambda>_.
     rbind (deref h (l_first l)) (\<lambda>e.
     rbind (if x = le_item e then
              rbind (List_RemoveFront h l) (\<lambda>(removed, h1, l1).
              rbind (ASSERT (x = removed)) (\<lambda>_. Inr (h1, l1)))
            else
              rbind (remove_walk (Suc (brk h)) h l (l_first l) (le_next e) x) (\<lambda>(found, h1, l1).
              rbind (ASSERT found) (\<lambda>_. Inr (h1, l1)))) (\<lambda>(h1, l1).
     rbind (List_IsInList h1 l1 x) (\<lambda>t. rbind (ASSERT (\<not> t)) (\<lambda>_. Inr (h1, l1)))))))"

text \<open>\<^verbatim>\<open>Apply\<close>: the items the function is called on, in order.\<close>

fun items_walk :: "nat \<Rightarrow> 'a store \<Rightarrow> addr option \<Rightarrow> 'a list result" where
  "items_walk 0 h p = Inl Diverges"
| "items_walk (Suc n) h None = Inr []"
| "items_walk (Suc n) h (Some a) =
     rbind (deref h (Some a)) (\<lambda>e. rbind (items_walk n h (le_next e)) (\<lambda>xs. Inr (le_item e # xs)))"

definition List_Apply :: "'a store \<Rightarrow> NList \<Rightarrow> 'a list result" where
  "List_Apply h l = items_walk (Suc (brk h)) h (l_first l)"

function count_walk :: "'a store \<Rightarrow> NList \<Rightarrow> int \<Rightarrow> addr option \<Rightarrow> int result" where
  "count_walk h l numFound p =
     (if p = l_last l then Inr numFound
      else if \<not> numFound + 1 \<le> numInList l then Inl AssertFail
      else rbind (deref h p) (\<lambda>e. count_walk h l (numFound + 1) (le_next e)))"
  by pat_completeness auto
termination
  by (relation "measure (\<lambda>(h, l, n, p). nat (numInList l - n))") auto

declare count_walk.simps [simp del]

definition List_SanityCheck :: "'a store \<Rightarrow> NList \<Rightarrow> unit result" where
  "List_SanityCheck h l =
     (if l_first l = None then ASSERT (numInList l = 0 \<and> l_last l = None)
      else if l_first l = l_last l then
        rbind (ASSERT (numInList l = 1)) (\<lambda>_.
        rbind (deref h (l_last l)) (\<lambda>e. ASSERT (le_next e = None)))
      else
        rbind (count_walk h l 1 (l_first l)) (\<lambda>numFound.
        rbind (ASSERT (numFound = numInList l)) (\<lambda>_.
        rbind (deref h (l_last l)) (\<lambda>e. ASSERT (le_next e = None)))))"

section \<open>ListIterator\<close>

type_synonym ListIterator = "addr option"

definition ListIterator_new :: "NList \<Rightarrow> ListIterator" where
  "ListIterator_new l = l_first l"

definition ListIterator_IsDone :: "ListIterator \<Rightarrow> bool" where
  "ListIterator_IsDone it \<longleftrightarrow> it = None"

definition ListIterator_Item :: "'a store \<Rightarrow> ListIterator \<Rightarrow> 'a result" where
  "ListIterator_Item h it =
     rbind (ASSERT (\<not> ListIterator_IsDone it)) (\<lambda>_. rbind (deref h it) (\<lambda>e. Inr (le_item e)))"

definition ListIterator_Next :: "'a store \<Rightarrow> ListIterator \<Rightarrow> ListIterator result" where
  "ListIterator_Next h it = rbind (deref h it) (\<lambda>e. Inr (le_next e))"

section \<open>SortedList\<close>

text \<open>\<^verbatim>\<open>compare\<close> is the comparison function the list was built with.\<close>

fun insert_walk :: "('a \<Rightarrow> 'a \<Rightarrow> int) \<Rightarrow> nat \<Rightarrow> 'a store \<Rightarrow> NList \<Rightarrow> addr \<Rightarrow> addr option \<Rightarrow> 'a
    \<Rightarrow> (bool \<times> 'a store \<times> NList) result" where
  "insert_walk cmp 0 h l a p x = Inl Diverges"
| "insert_walk cmp (Suc n) h l a p x =
     rbind (deref h p) (\<lambda>e.
     if le_next e = None then Inr (False, h, l)
     else rbind (deref h (le_next e)) (\<lambda>e2.
       if cmp x (le_item e2) < 0 then
         rbind (set_next h (Some a) (le_next e)) (\<lambda>h1.
         rbind (set_next h1 p (Some a)) (\<lambda>h2.
         Inr (True, h2, l\<lparr>numInList := numInList l + 1\<rparr>)))
       else insert_walk cmp n h l a (le_next e) x))"

definition SortedList_Insert ::
    "('a \<Rightarrow> 'a \<Rightarrow> int) \<Rightarrow> 'a store \<Rightarrow> NList \<Rightarrow> 'a \<Rightarrow> ('a store \<times> NList) result" where
  "SortedList_Insert cmp h l x =
     (let (a, h1) = ListElement_new h x;
          finish = (\<lambda>(h2, l2). let l3 = l2\<lparr>numInList := numInList l2 + 1\<rparr> in
             rbind (List_IsInList h2 l3 x) (\<lambda>t. rbind (ASSERT t) (\<lambda>_. Inr (h2, l3)))) in
      rbind (List_IsInList h1 l x) (\<lambda>t. rbind (ASSERT (\<not> t)) (\<lambda>_.
      if List_IsEmpty l then finish (h1, l\<lparr>l_first := Some a, l_last := Some a\<rparr>)
      else rbind (deref h1 (l_first l)) (\<lambda>e.
        if cmp x (le_item e) < 0 then
          rbind (set_next h1 (Some a) (l_first l)) (\<lambda>h2. finish (h2, l\<lparr>l_first := Some a\<rparr>))
        else
          rbind (insert_walk cmp (Suc (brk h1)) h1 l a (l_first l) x) (\<lambda>(placed, h2, l2).
          if placed then Inr (h2, l2)
          else rbind (set_next h2 (l_last l2) (Some a)) (\<lambda>h3. finish (h3, l2\<lparr>l_last := Some a\<rparr>)))))))"

fun sorted_walk :: "('a \<Rightarrow> 'a \<Rightarrow> int) \<Rightarrow> nat \<Rightarrow> 'a store \<Rightarrow> addr option \<Rightarrow> addr option \<Rightarrow> unit result" where
  "sorted_walk cmp 0 h prev p = Inl Diverges"
| "sorted_walk cmp (Suc n) h prev None = Inr ()"
| "sorted_walk cmp (Suc n) h prev (Some a) =
     rbind (deref h prev) (\<lambda>e1. rbind (deref h (Some a)) (\<lambda>e2.
     rbind (ASSERT (cmp (le_item e1) (le_item e2) \<le> 0)) (\<lambda>_.
     sorted_walk cmp n h (Some a) (le_next e2))))"

definition SortedList_SanityCheck :: "('a \<Rightarrow> 'a \<Rightarrow> int) \<Rightarrow> 'a store \<Rightarrow> NList \<Rightarrow> unit result" where
  "SortedList_SanityCheck cmp h l =
     rbind (List_SanityCheck h l) (\<lambda>_.
     if l_first l \<noteq> l_last l then
       rbind (deref h (l_first l)) (\<lambda>e. sorted_walk cmp (Suc (brk h)) h (l_first l) (le_next e))
     else Inr ())"

section \<open>The self tests\<close>

text \<open>
  \<^verbatim>\<open>List::SelfTest\<close> calls the virtual methods \<^verbatim>\<open>Append\<close> and \<^verbatim>\<open>SanityCheck\<close>, so both are
  arguments here: a \<^verbatim>\<open>SortedList\<close> object runs it with \<^verbatim>\<open>Insert\<close> and its own check.
\<close>

type_synonym 'a lstate = "'a store \<times> NList"

fun append_all :: "('a store \<Rightarrow> NList \<Rightarrow> 'a \<Rightarrow> 'a lstate result) \<Rightarrow> 'a list \<Rightarrow> 'a lstate \<Rightarrow> 'a lstate result" where
  "append_all add [] s = Inr s"
| "append_all add (x # xs) (h, l) =
     rbind (add h l x) (\<lambda>(h1, l1).
     rbind (List_IsInList h1 l1 x) (\<lambda>t. rbind (ASSERT t) (\<lambda>_.
     rbind (ASSERT (\<not> List_IsEmpty l1)) (\<lambda>_. append_all add xs (h1, l1)))))"

fun remove_all :: "'a list \<Rightarrow> 'a lstate \<Rightarrow> 'a lstate result" where
  "remove_all [] s = Inr s"
| "remove_all (x # xs) (h, l) =
     rbind (List_Remove h l x) (\<lambda>(h1, l1).
     rbind (List_IsInList h1 l1 x) (\<lambda>t. rbind (ASSERT (\<not> t)) (\<lambda>_. remove_all xs (h1, l1))))"

definition List_SelfTest_with ::
    "('a store \<Rightarrow> NList \<Rightarrow> 'a \<Rightarrow> 'a lstate result) \<Rightarrow> ('a store \<Rightarrow> NList \<Rightarrow> unit result)
     \<Rightarrow> 'a list \<Rightarrow> 'a lstate \<Rightarrow> 'a lstate result" where
  "List_SelfTest_with add check p = (\<lambda>(h, l).
     let iterator = ListIterator_new l in
     rbind (check h l) (\<lambda>_.
     rbind (ASSERT (List_IsEmpty l \<and> l_first l = None)) (\<lambda>_.
     rbind (ASSERT (ListIterator_IsDone iterator)) (\<lambda>_.
     rbind (append_all add p (h, l)) (\<lambda>(h1, l1).
     rbind (check h1 l1) (\<lambda>_.
     rbind (remove_all p (h1, l1)) (\<lambda>(h2, l2).
     rbind (ASSERT (List_IsEmpty l2)) (\<lambda>_.
     rbind (check h2 l2) (\<lambda>_. Inr (h2, l2))))))))))"

definition List_SelfTest :: "'a list \<Rightarrow> 'a lstate \<Rightarrow> 'a lstate result" where
  "List_SelfTest = List_SelfTest_with List_Append List_SanityCheck"

fun insert_all :: "('a \<Rightarrow> 'a \<Rightarrow> int) \<Rightarrow> 'a list \<Rightarrow> 'a lstate \<Rightarrow> 'a lstate result" where
  "insert_all cmp [] s = Inr s"
| "insert_all cmp (x # xs) (h, l) =
     rbind (SortedList_Insert cmp h l x) (\<lambda>(h1, l1).
     rbind (List_IsInList h1 l1 x) (\<lambda>t. rbind (ASSERT t) (\<lambda>_. insert_all cmp xs (h1, l1))))"

fun drain :: "nat \<Rightarrow> 'a lstate \<Rightarrow> ('a list \<times> 'a store \<times> NList) result" where
  "drain 0 (h, l) = Inr ([], h, l)"
| "drain (Suc n) (h, l) =
     rbind (List_RemoveFront h l) (\<lambda>(q, h1, l1).
     rbind (List_IsInList h1 l1 q) (\<lambda>t. rbind (ASSERT (\<not> t)) (\<lambda>_.
     rbind (drain n (h1, l1)) (\<lambda>(qs, h2, l2). Inr (q # qs, h2, l2)))))"

fun all_ordered :: "('a \<Rightarrow> 'a \<Rightarrow> int) \<Rightarrow> 'a list \<Rightarrow> bool" where
  "all_ordered cmp (x # y # zs) \<longleftrightarrow> cmp x y \<le> 0 \<and> all_ordered cmp (y # zs)"
| "all_ordered cmp _ \<longleftrightarrow> True"

definition SortedList_SelfTest :: "('a \<Rightarrow> 'a \<Rightarrow> int) \<Rightarrow> 'a list \<Rightarrow> 'a lstate \<Rightarrow> 'a lstate result" where
  "SortedList_SelfTest cmp p s =
     rbind (List_SelfTest_with (SortedList_Insert cmp) (SortedList_SanityCheck cmp) p s) (\<lambda>s1.
     rbind (insert_all cmp p s1) (\<lambda>(h2, l2).
     rbind (SortedList_SanityCheck cmp h2 l2) (\<lambda>_.
     rbind (drain (length p) (h2, l2)) (\<lambda>(q, h3, l3).
     rbind (ASSERT (List_IsEmpty l3)) (\<lambda>_.
     rbind (ASSERT (all_ordered cmp q)) (\<lambda>_.
     rbind (SortedList_SanityCheck cmp h3 l3) (\<lambda>_. Inr (h3, l3))))))))"

section \<open>The abstract operations\<close>

text \<open>The same operations on the list of items, assertions included.\<close>

definition absl_Append :: "'a list \<Rightarrow> 'a \<Rightarrow> 'a list result" where
  "absl_Append xs x = (if x \<in> set xs then Inl AssertFail else Inr (xs @ [x]))"

definition absl_Prepend :: "'a list \<Rightarrow> 'a \<Rightarrow> 'a list result" where
  "absl_Prepend xs x = (if x \<in> set xs then Inl AssertFail else Inr (x # xs))"

definition absl_RemoveFront :: "'a list \<Rightarrow> ('a \<times> 'a list) result" where
  "absl_RemoveFront xs = (case xs of [] \<Rightarrow> Inl AssertFail | y # ys \<Rightarrow> Inr (y, ys))"

text \<open>After removing the first occurrence the code asserts that no other is left.\<close>

definition absl_Remove :: "'a list \<Rightarrow> 'a \<Rightarrow> 'a list result" where
  "absl_Remove xs x =
     (if x \<notin> set xs \<or> x \<in> set (remove1 x xs) then Inl AssertFail else Inr (remove1 x xs))"

fun sorted_place :: "('a \<Rightarrow> 'a \<Rightarrow> int) \<Rightarrow> 'a \<Rightarrow> 'a list \<Rightarrow> 'a list" where
  "sorted_place cmp x [] = [x]"
| "sorted_place cmp x (y # ys) = (if cmp x y < 0 then x # y # ys else y # sorted_place cmp x ys)"

definition absl_Insert :: "('a \<Rightarrow> 'a \<Rightarrow> int) \<Rightarrow> 'a list \<Rightarrow> 'a \<Rightarrow> 'a list result" where
  "absl_Insert cmp xs x = (if x \<in> set xs then Inl AssertFail else Inr (sorted_place cmp x xs))"

lemma mset_sorted_place [simp]: "mset (sorted_place cmp x xs) = add_mset x (mset xs)"
  by (induction xs) auto

lemma set_sorted_place [simp]: "set (sorted_place cmp x xs) = insert x (set xs)"
  by (induction xs) auto

lemma length_sorted_place [simp]: "length (sorted_place cmp x xs) = Suc (length xs)"
  by (induction xs) auto

lemma distinct_sorted_place: "distinct (sorted_place cmp x xs) \<longleftrightarrow> x \<notin> set xs \<and> distinct xs"
  by (induction xs) auto

section \<open>Order and stability of \<open>sorted_place\<close>\<close>

text \<open>A comparison function that is a total preorder, as \<^verbatim>\<open>compare\<close> has to be.\<close>

definition cmp_order :: "('a \<Rightarrow> 'a \<Rightarrow> int) \<Rightarrow> bool" where
  "cmp_order cmp \<longleftrightarrow> (\<forall>x y. cmp x y < 0 \<longleftrightarrow> cmp y x > 0)
     \<and> (\<forall>x y z. cmp x y \<le> 0 \<longrightarrow> cmp y z \<le> 0 \<longrightarrow> cmp x z \<le> 0)"

abbreviation cmp_le :: "('a \<Rightarrow> 'a \<Rightarrow> int) \<Rightarrow> 'a \<Rightarrow> 'a \<Rightarrow> bool" where
  "cmp_le cmp x y \<equiv> cmp x y \<le> 0"

lemma cmp_order_swap: "cmp_order cmp \<Longrightarrow> cmp x y < 0 \<longleftrightarrow> cmp y x > 0"
  by (simp add: cmp_order_def)

lemma cmp_order_trans: "cmp_order cmp \<Longrightarrow> cmp x y \<le> 0 \<Longrightarrow> cmp y z \<le> 0 \<Longrightarrow> cmp x z \<le> 0"
  unfolding cmp_order_def by blast

lemma cmp_order_less_le_trans: "cmp_order cmp \<Longrightarrow> cmp x y < 0 \<Longrightarrow> cmp y z \<le> 0 \<Longrightarrow> cmp x z < 0"
  using cmp_order_trans [of cmp y z x] cmp_order_trans [of cmp x y z]
    cmp_order_swap [of cmp x y] cmp_order_swap [of cmp z x] cmp_order_swap [of cmp x z]
  by linarith

lemma cmp_order_eq_less_trans: "cmp_order cmp \<Longrightarrow> cmp k x = 0 \<Longrightarrow> cmp x z < 0 \<Longrightarrow> cmp k z < 0"
  using cmp_order_trans [of cmp z k x] cmp_order_trans [of cmp k x z]
    cmp_order_swap [of cmp x z] cmp_order_swap [of cmp z k] cmp_order_swap [of cmp k z]
  by linarith

lemma sorted_wrt_sorted_place:
  assumes "cmp_order cmp"
  shows "sorted_wrt (cmp_le cmp) xs \<Longrightarrow> sorted_wrt (cmp_le cmp) (sorted_place cmp x xs)"
proof (induction xs)
  case Nil
  then show ?case by simp
next
  case (Cons y ys)
  have "cmp y x \<le> 0" if "\<not> cmp x y < 0"
    using that cmp_order_swap [OF assms, of y x] cmp_order_swap [OF assms, of x y] by linarith
  moreover have "cmp x z \<le> 0" if "cmp x y < 0" "z \<in> set ys" for z
    using Cons.prems that cmp_order_less_le_trans [OF assms, of x y z] by auto
  ultimately show ?case
    using Cons by auto
qed

text \<open>Items that compare equal stay in the order of their insertion.\<close>

lemma filter_sorted_place:
  assumes "cmp_order cmp"
  shows "sorted_wrt (cmp_le cmp) xs \<Longrightarrow>
    filter (\<lambda>y. cmp k y = 0) (sorted_place cmp x xs) = filter (\<lambda>y. cmp k y = 0) (xs @ [x])"
proof (induction xs)
  case Nil
  then show ?case by simp
next
  case (Cons y ys)
  show ?case
  proof (cases "cmp x y < 0 \<and> cmp k x = 0")
    case True
    have "cmp k z \<noteq> 0" if "z \<in> set (y # ys)" for z
    proof -
      have "cmp x z < 0"
        using True that Cons.prems cmp_order_less_le_trans [OF assms, of x y z] by auto
      then show ?thesis
        using cmp_order_eq_less_trans [OF assms, of k x z] True by simp
    qed
    then have "filter (\<lambda>y. cmp k y = 0) (y # ys) = []"
      unfolding filter_empty_conv by blast
    then show ?thesis
      using True by (simp split: if_splits)
  next
    case False
    then show ?thesis
      using Cons by auto
  qed
qed

lemma foldl_sorted_place:
  assumes "cmp_order cmp" and "sorted_wrt (cmp_le cmp) xs"
  shows "sorted_wrt (cmp_le cmp) (foldl (\<lambda>zs x. sorted_place cmp x zs) xs ys)
    \<and> mset (foldl (\<lambda>zs x. sorted_place cmp x zs) xs ys) = mset xs + mset ys
    \<and> filter (\<lambda>y. cmp k y = 0) (foldl (\<lambda>zs x. sorted_place cmp x zs) xs ys) = filter (\<lambda>y. cmp k y = 0) (xs @ ys)"
  using assms(2)
proof (induction ys arbitrary: xs)
  case Nil
  then show ?case by simp
next
  case (Cons y ys)
  then show ?case
    using Cons.IH [of "sorted_place cmp y xs"] sorted_wrt_sorted_place [OF assms(1)]
      filter_sorted_place [OF assms(1), of xs k y] by auto
qed

end
