(* ===== verification/ListRefinement.thy ===== *)
theory ListRefinement
  imports NachosList
begin

text \<open>
  The pointer operations of \<open>NachosList\<close> implement the operations \<open>absl_\<dots>\<close> on HOL lists:
  the representation relation \<open>lrep\<close> between a list object with its cells and the list of
  (address, item) pairs; the effect of each operation on it and what it leaves alone in the
  store; the interface \<open>list_ops\<close> (a locale) the operations promise, its interpretation on
  the pointer operations, and the self tests.
\<close>

section \<open>Representation\<close>

text \<open>\<open>path m p ns q\<close>: from pointer \<open>p\<close> the cells \<open>ns\<close> (address and item) lead to pointer \<open>q\<close>.\<close>

fun path :: "(addr \<rightharpoonup> 'a ListElement) \<Rightarrow> addr option \<Rightarrow> (addr \<times> 'a) list \<Rightarrow> addr option \<Rightarrow> bool" where
  "path m p [] q \<longleftrightarrow> p = q"
| "path m p ((a, x) # ns) q \<longleftrightarrow>
     p = Some a \<and> (\<exists>r. m a = Some \<lparr>le_item = x, le_next = r\<rparr> \<and> path m r ns q)"

definition last_ptr :: "(addr \<times> 'a) list \<Rightarrow> addr option" where
  "last_ptr ns = (if ns = [] then None else Some (fst (last ns)))"

definition lrep :: "'a store \<Rightarrow> NList \<Rightarrow> (addr \<times> 'a) list \<Rightarrow> bool" where
  "lrep h l ns \<longleftrightarrow> path (cells h) (l_first l) ns None \<and> distinct (map fst ns)
     \<and> l_last l = last_ptr ns \<and> numInList l = int (length ns)
     \<and> (\<forall>a\<in>dom (cells h). a < brk h)"

text \<open>Cells outside the list that an operation leaves alone.\<close>

definition unchanged_outside :: "(addr \<times> 'a) list \<Rightarrow> 'a store \<Rightarrow> 'a store \<Rightarrow> bool" where
  "unchanged_outside ns h h' \<longleftrightarrow> (\<forall>a. a < brk h \<longrightarrow> a \<notin> fst ` set ns \<longrightarrow> cells h' a = cells h a)"

lemma path_append [simp]: "path m p (ns @ ms) q \<longleftrightarrow> (\<exists>r. path m p ns r \<and> path m r ms q)"
proof (induction ns arbitrary: p)
  case Nil
  then show ?case by simp
next
  case (Cons b ns)
  then show ?case by (cases b) auto
qed

lemma path_update: "a \<notin> fst ` set ns \<Longrightarrow> path (m(a := v)) p ns q = path m p ns q"
proof (induction ns arbitrary: p)
  case Nil
  then show ?case by simp
next
  case (Cons b ns)
  then show ?case by (cases b) auto
qed

lemma path_dom: "path m p ns q \<Longrightarrow> fst ` set ns \<subseteq> dom m"
proof (induction ns arbitrary: p)
  case Nil
  then show ?case by simp
next
  case (Cons b ns)
  then show ?case by (cases b) auto
qed

lemma path_first: "path m p ns None \<Longrightarrow> p = None \<longleftrightarrow> ns = []"
  by (cases ns) auto

lemma lrep_below: "lrep h l ns \<Longrightarrow> a \<in> fst ` set ns \<Longrightarrow> a < brk h"
  using path_dom unfolding lrep_def by blast

lemma lrep_length: "lrep h l ns \<Longrightarrow> length ns \<le> brk h"
proof -
  assume r: "lrep h l ns"
  have "set (map fst ns) \<subseteq> {..<brk h}"
    using lrep_below [OF r] by auto
  then have "card (set (map fst ns)) \<le> brk h"
    by (metis card_lessThan card_mono finite_lessThan)
  then show ?thesis
    using r by (simp add: lrep_def distinct_card [of "map fst ns"] del: set_map)
qed

lemma lrep_empty: "lrep h l ns \<Longrightarrow> List_IsEmpty l \<longleftrightarrow> ns = []"
  by (simp add: lrep_def List_IsEmpty_def)

lemma deref_Some [simp]: "cells h a = Some e \<Longrightarrow> deref h (Some a) = Inr e"
  by (simp add: deref_def)

lemma find_walk_path:
  "path (cells h) p ns None \<Longrightarrow> length ns < n \<Longrightarrow> find_walk n h p x = Inr (x \<in> snd ` set ns)"
proof (induction ns arbitrary: n p)
  case Nil
  then show ?case by (cases n) auto
next
  case (Cons b ns)
  then show ?case by (cases n; cases b) auto
qed

lemma items_walk_path:
  "path (cells h) p ns None \<Longrightarrow> length ns < n \<Longrightarrow> items_walk n h p = Inr (map snd ns)"
proof (induction ns arbitrary: n p)
  case Nil
  then show ?case by (cases n) auto
next
  case (Cons b ns)
  then show ?case by (cases n; cases b) auto
qed

lemma IsInList_rep:
  "lrep h l ns \<Longrightarrow> List_IsInList h l x = Inr (x \<in> snd ` set ns)"
  using lrep_length [of h l ns] by (simp add: List_IsInList_def lrep_def find_walk_path)

text \<open>A fresh cell does not disturb the list.\<close>

lemma ListElement_new_rep:
  assumes "lrep h l ns" and "ListElement_new h x = (a, h1)"
  shows "lrep h1 l ns" "a = brk h" "brk h1 = Suc (brk h)"
    "cells h1 = (cells h)(brk h \<mapsto> \<lparr>le_item = x, le_next = None\<rparr>)" "a \<notin> fst ` set ns"
proof -
  show a: "a = brk h" and b: "brk h1 = Suc (brk h)"
    and c: "cells h1 = (cells h)(brk h \<mapsto> \<lparr>le_item = x, le_next = None\<rparr>)"
    using assms(2) by (auto simp: ListElement_new_def)
  show d: "a \<notin> fst ` set ns"
    using lrep_below [OF assms(1), of a] a by auto
  show "lrep h1 l ns"
    using assms(1) a b c d by (auto simp: lrep_def path_update less_Suc_eq)
qed

section \<open>Each operation on the represented list\<close>

text \<open>
  \<open>lstep\<close>: the operation leaves a list of cells \<open>ns'\<close> and has touched no cell that existed
  before outside the cells \<open>ns\<close> of the list itself.
\<close>

definition lstep :: "'a store \<Rightarrow> (addr \<times> 'a) list \<Rightarrow> 'a store \<Rightarrow> NList \<Rightarrow> (addr \<times> 'a) list \<Rightarrow> bool" where
  "lstep h ns h' l' ns' \<longleftrightarrow> lrep h' l' ns' \<and> unchanged_outside ns h h' \<and> brk h \<le> brk h'
     \<and> fst ` set ns' \<subseteq> fst ` set ns \<union> {brk h..}"

lemma path_frame:
  "path m p ns q \<Longrightarrow> (\<And>a. a \<in> fst ` set ns \<Longrightarrow> m' a = m a) \<Longrightarrow> path m' p ns q"
proof (induction ns arbitrary: p)
  case Nil
  then show ?case by simp
next
  case (Cons b ns)
  then show ?case by (cases b) auto
qed

lemma lstep_IsInList: "lstep h ns h' l' ns' \<Longrightarrow> List_IsInList h' l' x = Inr (x \<in> snd ` set ns')"
  by (simp add: lstep_def IsInList_rep)

text \<open>Another list in the same store survives.\<close>

lemma lstep_frame:
  assumes s: "lstep h ns h' l' ns'" and k: "lrep h k ms" and d: "fst ` set ms \<inter> fst ` set ns = {}"
  shows "lrep h' k ms" "fst ` set ms \<inter> fst ` set ns' = {}"
proof -
  have below: "a \<in> fst ` set ms \<Longrightarrow> a < brk h" for a
    by (rule lrep_below [OF k])
  have "cells h' a = cells h a" if a: "a \<in> fst ` set ms" for a
  proof -
    have "a \<notin> fst ` set ns"
      using d a by blast
    then show ?thesis
      using s below [OF a] by (simp add: lstep_def unchanged_outside_def)
  qed
  then have "path (cells h') (l_first k) ms None"
    using k path_frame [of "cells h" "l_first k" ms None "cells h'"] by (simp add: lrep_def)
  then show "lrep h' k ms"
    using k s by (simp add: lrep_def lstep_def)
  show "fst ` set ms \<inter> fst ` set ns' = {}"
  proof (rule Int_emptyI)
    fix c
    assume c: "c \<in> fst ` set ms" and "c \<in> fst ` set ns'"
    then have "c \<in> fst ` set ns \<or> brk h \<le> c"
      using s unfolding lstep_def by blast
    then show False
      using d c below [OF c] by (meson disjoint_iff not_less)
  qed
qed

lemma last_ptr_snoc [simp]: "last_ptr (ns @ [b]) = Some (fst b)"
  by (simp add: last_ptr_def)

lemma last_ptr_append_Cons [simp]: "last_ptr (ms @ b # ns) = last_ptr (b # ns)"
  by (simp add: last_ptr_def)

lemma last_ptr_Cons_Cons [simp]: "last_ptr (b # c # ns) = last_ptr (c # ns)"
  by (simp add: last_ptr_def)

lemma last_ptr_single [simp]: "last_ptr [b] = Some (fst b)"
  by (simp add: last_ptr_def)

lemma last_ptr_Nil [simp]: "last_ptr [] = None"
  by (simp add: last_ptr_def)

text \<open>Linking a cell \<open>a\<close> that is in the store but not in the list: at the end, at the front, inside.\<close>

definition linked :: "'a store \<Rightarrow> (addr \<times> 'a) list \<Rightarrow> addr \<Rightarrow> 'a store \<Rightarrow> NList \<Rightarrow> (addr \<times> 'a) list \<Rightarrow> bool" where
  "linked h ns a h' l' ns' \<longleftrightarrow> lrep h' l' ns' \<and> brk h' = brk h
     \<and> (\<forall>b. b \<notin> fst ` set ns \<longrightarrow> b \<noteq> a \<longrightarrow> cells h' b = cells h b) \<and> fst ` set ns' = insert a (fst ` set ns)"

lemma link_first:
  assumes "lrep h l []" and "cells h a = Some \<lparr>le_item = x, le_next = None\<rparr>"
  shows "linked h [] a h (l\<lparr>l_first := Some a, l_last := Some a, numInList := numInList l + 1\<rparr>) [(a, x)]"
  using assms by (simp add: linked_def lrep_def)

lemma link_last:
  assumes r: "lrep h l (ms @ [(a0, y)])" and c: "cells h a = Some \<lparr>le_item = x, le_next = None\<rparr>"
    and a: "a \<notin> fst ` set (ms @ [(a0, y)])"
  shows "\<exists>h'. set_next h (l_last l) (Some a) = Inr h'
    \<and> linked h (ms @ [(a0, y)]) a h' (l\<lparr>l_last := Some a, numInList := numInList l + 1\<rparr>) (ms @ [(a0, y), (a, x)])"
proof -
  let ?h = "h\<lparr>cells := (cells h)(a0 \<mapsto> \<lparr>le_item = y, le_next = Some a\<rparr>)\<rparr>"
  have e: "cells h a0 = Some \<lparr>le_item = y, le_next = None\<rparr>" "a0 \<notin> fst ` set ms" "a \<noteq> a0"
    "l_last l = Some a0" and p: "path (cells h) (l_first l) ms (Some a0)"
    using r a by (auto simp: lrep_def)
  have "lrep ?h (l\<lparr>l_last := Some a, numInList := numInList l + 1\<rparr>) (ms @ [(a0, y), (a, x)])"
    using r a c e p unfolding lrep_def by (auto simp: path_update)
  then have "linked h (ms @ [(a0, y)]) a ?h (l\<lparr>l_last := Some a, numInList := numInList l + 1\<rparr>)
      (ms @ [(a0, y), (a, x)])"
    by (auto simp: linked_def)
  then show ?thesis
    using e by (simp add: set_next_def)
qed

lemma link_front:
  assumes r: "lrep h l ns" and ne: "ns \<noteq> []" and c: "cells h a = Some \<lparr>le_item = x, le_next = q\<rparr>"
    and a: "a \<notin> fst ` set ns"
  shows "\<exists>h'. set_next h (Some a) (l_first l) = Inr h'
    \<and> linked h ns a h' (l\<lparr>l_first := Some a, numInList := numInList l + 1\<rparr>) ((a, x) # ns)"
proof -
  let ?h = "h\<lparr>cells := (cells h)(a \<mapsto> \<lparr>le_item = x, le_next = l_first l\<rparr>)\<rparr>"
  have "lrep ?h (l\<lparr>l_first := Some a, numInList := numInList l + 1\<rparr>) ((a, x) # ns)"
    using r a c ne unfolding lrep_def by (cases ns) (auto simp: path_update)
  then have "linked h ns a ?h (l\<lparr>l_first := Some a, numInList := numInList l + 1\<rparr>) ((a, x) # ns)"
    by (auto simp: linked_def)
  then show ?thesis
    using c by (simp add: set_next_def)
qed

lemma link_after:
  assumes r: "lrep h l (ms @ (pa, py) # k # ks)" and c: "cells h a = Some \<lparr>le_item = x, le_next = q0\<rparr>"
    and a: "a \<notin> fst ` set (ms @ (pa, py) # k # ks)"
    and q: "cells h pa = Some \<lparr>le_item = py, le_next = q\<rparr>"
  shows "\<exists>h1 h2. set_next h (Some a) q = Inr h1 \<and> set_next h1 (Some pa) (Some a) = Inr h2
    \<and> linked h (ms @ (pa, py) # k # ks) a h2 (l\<lparr>numInList := numInList l + 1\<rparr>) (ms @ (pa, py) # (a, x) # k # ks)"
proof -
  let ?m = "(cells h)(a \<mapsto> \<lparr>le_item = x, le_next = q\<rparr>, pa \<mapsto> \<lparr>le_item = py, le_next = Some a\<rparr>)"
  have d: "pa \<noteq> a" "pa \<notin> fst ` set ms" "a \<notin> fst ` set ms" "pa \<notin> fst ` set (k # ks)"
    "a \<notin> fst ` set (k # ks)" and k: "path (cells h) q (k # ks) None"
    and m: "path (cells h) (l_first l) ms (Some pa)"
    using r a q by (auto simp: lrep_def)
  have "path ?m (l_first l) ms (Some pa)" "path ?m q (k # ks) None"
    using k m d by (simp_all add: path_update del: path.simps)
  then have "path ?m (l_first l) (ms @ (pa, py) # (a, x) # k # ks) None"
    using d(1) by (simp del: path.simps(2) add: path.simps(2) [of _ _ pa] path.simps(2) [of _ _ a])
  then have "lrep (h\<lparr>cells := ?m\<rparr>) (l\<lparr>numInList := numInList l + 1\<rparr>) (ms @ (pa, py) # (a, x) # k # ks)"
    using r a c q unfolding lrep_def by (auto simp del: path.simps path_append)
  then have "linked h (ms @ (pa, py) # k # ks) a (h\<lparr>cells := ?m\<rparr>) (l\<lparr>numInList := numInList l + 1\<rparr>)
      (ms @ (pa, py) # (a, x) # k # ks)"
    by (auto simp: linked_def)
  then show ?thesis
    using c q d(1) by (simp add: set_next_def)
qed

text \<open>A fresh cell that has been linked.\<close>

lemma linked_lstep:
  assumes r: "lrep h l ns" and n: "ListElement_new h x = (a, h1)" and k: "linked h1 ns a h' l' ns'"
  shows "lstep h ns h' l' ns'" "a \<in> fst ` set ns'"
proof -
  note new = ListElement_new_rep [OF r n]
  have "cells h' b = cells h b" if "b < brk h" "b \<notin> fst ` set ns" for b
    using that k new(2,4) by (auto simp: linked_def)
  then show "lstep h ns h' l' ns'" "a \<in> fst ` set ns'"
    using k new(2,3) by (auto simp: lstep_def linked_def unchanged_outside_def)
qed

lemma Append_rep:
  assumes r: "lrep h l ns" and x: "x \<notin> snd ` set ns"
  shows "\<exists>h' l'. List_Append h l x = Inr (h', l') \<and> lstep h ns h' l' (ns @ [(brk h, x)])"
proof -
  obtain a h1 where n: "ListElement_new h x = (a, h1)"
    by fastforce
  note new = ListElement_new_rep [OF r n]
  have c: "cells h1 a = Some \<lparr>le_item = x, le_next = None\<rparr>" "List_IsInList h1 l x = Inr False"
    using new(2,4) x IsInList_rep [OF new(1), of x] by simp_all
  show ?thesis
  proof (cases ns rule: rev_cases)
    case Nil
    let ?l = "l\<lparr>l_first := Some a, l_last := Some a, numInList := numInList l + 1\<rparr>"
    have s: "lstep h ns h1 ?l (ns @ [(brk h, x)])"
      using linked_lstep(1) [OF r n] link_first [of h1 l a x] new(1,2) c Nil by simp
    then show ?thesis
      using n c lstep_IsInList [OF s, of x] lrep_empty [OF r] Nil
      by (simp add: List_Append_def Let_def)
  next
    case (snoc ms b)
    obtain a0 y where ns: "ns = ms @ [(a0, y)]" using snoc by (cases b) simp
    let ?l = "l\<lparr>l_last := Some a, numInList := numInList l + 1\<rparr>"
    obtain h' where h': "set_next h1 (l_last l) (Some a) = Inr h'"
      and k: "linked h1 ns a h' ?l (ms @ [(a0, y), (a, x)])"
      using link_last [of h1 l ms a0 y a x] new(1,5) c ns by auto
    have s: "lstep h ns h' ?l (ns @ [(brk h, x)])"
      using linked_lstep(1) [OF r n k] ns new(2) by simp
    then show ?thesis
      using n c h' lstep_IsInList [OF s, of x] lrep_empty [OF r] ns
      by (simp add: List_Append_def Let_def)
  qed
qed

lemma Append_dup:
  "lrep h l ns \<Longrightarrow> x \<in> snd ` set ns \<Longrightarrow> List_Append h l x = Inl AssertFail"
  using ListElement_new_rep(1) [of h l ns x] IsInList_rep [of _ l ns x]
  by (auto simp: List_Append_def split: prod.split)

lemma Prepend_rep:
  assumes r: "lrep h l ns" and x: "x \<notin> snd ` set ns"
  shows "\<exists>h' l'. List_Prepend h l x = Inr (h', l') \<and> lstep h ns h' l' ((brk h, x) # ns)"
proof -
  obtain a h1 where n: "ListElement_new h x = (a, h1)"
    by fastforce
  note new = ListElement_new_rep [OF r n]
  have c: "cells h1 a = Some \<lparr>le_item = x, le_next = None\<rparr>" "List_IsInList h1 l x = Inr False"
    using new(2,4) x IsInList_rep [OF new(1), of x] by simp_all
  show ?thesis
  proof (cases "ns = []")
    case True
    let ?l = "l\<lparr>l_first := Some a, l_last := Some a, numInList := numInList l + 1\<rparr>"
    have s: "lstep h ns h1 ?l ((brk h, x) # ns)"
      using linked_lstep(1) [OF r n] link_first [of h1 l a x] new(1,2) c True by simp
    then show ?thesis
      using n c lstep_IsInList [OF s, of x] lrep_empty [OF r] True
      by (simp add: List_Prepend_def Let_def)
  next
    case False
    let ?l = "l\<lparr>l_first := Some a, numInList := numInList l + 1\<rparr>"
    obtain h' where h': "set_next h1 (Some a) (l_first l) = Inr h'" and k: "linked h1 ns a h' ?l ((a, x) # ns)"
      using link_front [OF new(1) False c(1) new(5)] by blast
    have s: "lstep h ns h' ?l ((brk h, x) # ns)"
      using linked_lstep(1) [OF r n k] new(2) by simp
    then show ?thesis
      using n c h' lstep_IsInList [OF s, of x] lrep_empty [OF r] False
      by (simp add: List_Prepend_def Let_def)
  qed
qed

lemma Prepend_dup:
  "lrep h l ns \<Longrightarrow> x \<in> snd ` set ns \<Longrightarrow> List_Prepend h l x = Inl AssertFail"
  using ListElement_new_rep(1) [of h l ns x] IsInList_rep [of _ l ns x]
  by (auto simp: List_Prepend_def split: prod.split)

lemma RemoveFront_rep:
  assumes r: "lrep h l ((a, x) # ns)"
  shows "\<exists>h' l'. List_RemoveFront h l = Inr (x, h', l') \<and> lstep h ((a, x) # ns) h' l' ns"
proof -
  let ?h = "h\<lparr>cells := (cells h)(a := None)\<rparr>"
  obtain q where q: "cells h a = Some \<lparr>le_item = x, le_next = q\<rparr>" "path (cells h) q ns None"
    and f: "l_first l = Some a" and d: "a \<notin> fst ` set ns"
    using r by (auto simp: lrep_def)
  have e: "l_first l = l_last l \<longleftrightarrow> ns = []"
    using r f d by (cases ns rule: rev_cases) (auto simp: lrep_def last_ptr_def)
  let ?l = "(if l_first l = l_last l then l\<lparr>l_first := None, l_last := None\<rparr>
             else l\<lparr>l_first := q\<rparr>)\<lparr>numInList := numInList l - 1\<rparr>"
  have "lrep ?h ?l ns"
    using r q d e by (cases ns) (auto simp: lrep_def path_update)
  then have "lstep h ((a, x) # ns) ?h ?l ns"
    by (auto simp: lstep_def unchanged_outside_def)
  then show ?thesis
    using q f e lrep_empty [OF r] by (auto simp: List_RemoveFront_def free_cell_def Let_def)
qed

lemma RemoveFront_empty: "lrep h l [] \<Longrightarrow> List_RemoveFront h l = Inl AssertFail"
  using lrep_empty [of h l "[]"] by (simp add: List_RemoveFront_def)

text \<open>Unlinking the cell behind \<open>prev\<close>.\<close>

lemma unlink_rep:
  assumes r: "lrep h l (ms @ (pa, py) # (a, x) # ks)"
    and e: "cells h a = Some \<lparr>le_item = x, le_next = q\<rparr>"
  shows "\<exists>h1 h2. set_next h (Some pa) q = Inr h1 \<and> free_cell h1 (Some a) = Inr h2
    \<and> lstep h (ms @ (pa, py) # (a, x) # ks) h2
         ((if q = None then l\<lparr>l_last := Some pa\<rparr> else l)\<lparr>numInList := numInList l - 1\<rparr>)
         (ms @ (pa, py) # ks)"
proof -
  let ?h1 = "h\<lparr>cells := (cells h)(pa \<mapsto> \<lparr>le_item = py, le_next = q\<rparr>)\<rparr>"
  let ?h2 = "h\<lparr>cells := (cells h)(pa \<mapsto> \<lparr>le_item = py, le_next = q\<rparr>, a := None)\<rparr>"
  have c: "cells h pa = Some \<lparr>le_item = py, le_next = Some a\<rparr>" and k: "path (cells h) q ks None"
    and m: "path (cells h) (l_first l) ms (Some pa)"
    and d: "pa \<noteq> a" "pa \<notin> fst ` set ms" "a \<notin> fst ` set ms" "pa \<notin> fst ` set ks" "a \<notin> fst ` set ks"
    using r e by (auto simp: lrep_def)
  have q: "q = None \<longleftrightarrow> ks = []"
    by (rule path_first [OF k])
  have p: "path (cells ?h2) (l_first l) (ms @ (pa, py) # ks) None"
    using c k m d by (auto simp: path_update fun_upd_twist [OF d(1)])
  have "lrep ?h2 ((if q = None then l\<lparr>l_last := Some pa\<rparr> else l)\<lparr>numInList := numInList l - 1\<rparr>)
         (ms @ (pa, py) # ks)"
    unfolding lrep_def
  proof (intro conjI)
    show "path (cells ?h2) (l_first ((if q = None then l\<lparr>l_last := Some pa\<rparr> else l)\<lparr>numInList := numInList l - 1\<rparr>))
      (ms @ (pa, py) # ks) None"
      using p by (cases "q = None") auto
    show "\<forall>b\<in>dom (cells ?h2). b < brk ?h2"
      using r c unfolding lrep_def by auto
  qed (use r q in \<open>cases ks; auto simp: lrep_def\<close>)+
  then have "lstep h (ms @ (pa, py) # (a, x) # ks) ?h2
         ((if q = None then l\<lparr>l_last := Some pa\<rparr> else l)\<lparr>numInList := numInList l - 1\<rparr>)
         (ms @ (pa, py) # ks)"
    by (auto simp: lstep_def unchanged_outside_def)
  then show ?thesis
    using c e d(1) by (auto simp: set_next_def free_cell_def deref_def)
qed

lemma remove_walk_rep:
  assumes "lrep h l (ms @ (pa, py) # ks)" and "path (cells h) p ks None"
    and "length ks < n" and "x \<in> snd ` set ks"
  shows "\<exists>h' l' k1 a k2. ks = k1 @ (a, x) # k2 \<and> x \<notin> snd ` set k1
    \<and> remove_walk n h l (Some pa) p x = Inr (True, h', l')
    \<and> lstep h (ms @ (pa, py) # ks) h' l' (ms @ (pa, py) # k1 @ k2)"
  using assms
proof (induction ks arbitrary: ms pa py p n)
  case Nil
  then show ?case by simp
next
  case (Cons b ks)
  obtain a y where b: "b = (a, y)" by fastforce
  obtain q where q: "cells h a = Some \<lparr>le_item = y, le_next = q\<rparr>" "path (cells h) q ks None"
    and p: "p = Some a"
    using Cons.prems(2) b by auto
  obtain m where n: "n = Suc m" and m: "length ks < m"
    using Cons.prems(3) by (cases n) auto
  show ?case
  proof (cases "x = y")
    case True
    have "lrep h l (ms @ (pa, py) # (a, x) # ks)"
      using Cons.prems(1) b True by simp
    from unlink_rep [OF this q(1) [folded True]] obtain h1 h2 where
      u: "set_next h (Some pa) q = Inr h1" "free_cell h1 (Some a) = Inr h2"
      and s: "lstep h (ms @ (pa, py) # (a, x) # ks) h2
         ((if q = None then l\<lparr>l_last := Some pa\<rparr> else l)\<lparr>numInList := numInList l - 1\<rparr>)
         (ms @ (pa, py) # ks)"
      by blast
    have "remove_walk n h l (Some pa) p x =
      Inr (True, h2, (if q = None then l\<lparr>l_last := Some pa\<rparr> else l)\<lparr>numInList := numInList l - 1\<rparr>)"
      using True n p q(1) u by (simp add: Let_def)
    moreover have "b # ks = [] @ (a, x) # ks" "x \<notin> snd ` set []"
      using b True by auto
    ultimately show ?thesis
      using s by (metis append_Cons append_Nil)
  next
    case False
    have r: "lrep h l ((ms @ [(pa, py)]) @ (a, y) # ks)"
      using Cons.prems(1) b by simp
    have "x \<in> snd ` set ks"
      using Cons.prems(4) b False by auto
    from Cons.IH [OF r q(2) m this] obtain h' l' k1 c k2 where
      k: "ks = k1 @ (c, x) # k2" "x \<notin> snd ` set k1"
      and w: "remove_walk m h l (Some a) q x = Inr (True, h', l')"
      and s: "lstep h ((ms @ [(pa, py)]) @ (a, y) # ks) h' l' ((ms @ [(pa, py)]) @ (a, y) # k1 @ k2)"
      by blast
    have "b # ks = ((a, y) # k1) @ (c, x) # k2" "x \<notin> snd ` set ((a, y) # k1)"
      using k b False by auto
    moreover have "remove_walk n h l (Some pa) p x = Inr (True, h', l')"
      using w n p q(1) False by simp
    moreover have "lstep h (ms @ (pa, py) # b # ks) h' l' (ms @ (pa, py) # ((a, y) # k1) @ k2)"
      using s b by simp
    ultimately show ?thesis
      by blast
  qed
qed

text \<open>\<^verbatim>\<open>Remove\<close> takes out the first cell of the item; another one left makes its last assertion fail.\<close>

lemma Remove_core:
  assumes r: "lrep h l ns" and x: "x \<in> snd ` set ns"
  shows "\<exists>h' l' k1 a k2. ns = k1 @ (a, x) # k2 \<and> x \<notin> snd ` set k1 \<and> lstep h ns h' l' (k1 @ k2)
    \<and> List_Remove h l x = (if x \<in> snd ` set k2 then Inl AssertFail else Inr (h', l'))"
proof -
  have isin: "List_IsInList h l x = Inr True"
    using IsInList_rep [OF r, of x] x by simp
  obtain a y ms where ns: "ns = (a, y) # ms"
    using x by (cases ns) auto
  obtain q where q: "cells h a = Some \<lparr>le_item = y, le_next = q\<rparr>" "path (cells h) q ms None"
    and f: "l_first l = Some a"
    using r ns by (auto simp: lrep_def)
  show ?thesis
  proof (cases "x = y")
    case True
    obtain h' l' where rf: "List_RemoveFront h l = Inr (x, h', l')" and s: "lstep h ns h' l' ms"
      using RemoveFront_rep [of h l a y ms] r ns True by auto
    have "List_IsInList h' l' x = Inr (x \<in> snd ` set ms)"
      by (rule lstep_IsInList [OF s])
    then have "List_Remove h l x = (if x \<in> snd ` set ms then Inl AssertFail else Inr (h', l'))"
      using isin f q(1) True rf by (simp add: List_Remove_def)
    then show ?thesis
      using s ns True by (intro exI [of _ h'] exI [of _ l'] exI [of _ "[]"]) auto
  next
    case False
    have "lrep h l ([] @ (a, y) # ms)" "x \<in> snd ` set ms" "length ms < Suc (brk h)"
      using r ns False x lrep_length [OF r] by auto
    from remove_walk_rep [OF this(1) q(2) this(3,2)] obtain h' l' k1 c k2 where
      k: "ms = k1 @ (c, x) # k2" "x \<notin> snd ` set k1"
      and w: "remove_walk (Suc (brk h)) h l (Some a) q x = Inr (True, h', l')"
      and s: "lstep h ns h' l' ((a, y) # k1 @ k2)"
      using ns by auto
    have "List_IsInList h' l' x = Inr (x \<in> snd ` set ((a, y) # k1 @ k2))"
      by (rule lstep_IsInList [OF s])
    then have "List_Remove h l x = (if x \<in> snd ` set k2 then Inl AssertFail else Inr (h', l'))"
      using isin f q(1) False w k(2)
      by (auto simp: List_Remove_def rbind_ASSERT image_Un)
    then show ?thesis
      using s ns k False
      by (intro exI [of _ h'] exI [of _ l'] exI [of _ "(a, y) # k1"]) auto
  qed
qed

lemma Remove_absent: "lrep h l ns \<Longrightarrow> x \<notin> snd ` set ns \<Longrightarrow> List_Remove h l x = Inl AssertFail"
  using IsInList_rep [of h l ns x] by (simp add: List_Remove_def)

lemma sorted_place_end:
  "(\<forall>y\<in>set xs. \<not> cmp x y < 0) \<Longrightarrow> sorted_place cmp x xs = xs @ [x]"
  by (induction xs) auto

lemma sorted_place_append:
  "(\<forall>y\<in>set xs. \<not> cmp x y < 0) \<Longrightarrow> sorted_place cmp x (xs @ ys) = xs @ sorted_place cmp x ys"
  by (induction xs) auto

lemma insert_walk_rep:
  assumes "lrep h l (ms @ (pa, py) # ks)" and "cells h a = Some \<lparr>le_item = x, le_next = None\<rparr>"
    and "a \<notin> fst ` set (ms @ (pa, py) # ks)" and "length ks < n"
  shows "if \<forall>k\<in>set ks. \<not> cmp x (snd k) < 0 then insert_walk cmp n h l a (Some pa) x = Inr (False, h, l)
    else \<exists>h' k1 k2. ks = k1 @ k2 \<and> map snd (k1 @ (a, x) # k2) = sorted_place cmp x (map snd ks)
      \<and> insert_walk cmp n h l a (Some pa) x = Inr (True, h', l\<lparr>numInList := numInList l + 1\<rparr>)
      \<and> linked h (ms @ (pa, py) # ks) a h' (l\<lparr>numInList := numInList l + 1\<rparr>) (ms @ (pa, py) # k1 @ (a, x) # k2)"
  using assms
proof (induction ks arbitrary: ms pa py n)
  case Nil
  then show ?case by (cases n) (auto simp: lrep_def)
next
  case (Cons b ks)
  obtain c y where b: "b = (c, y)" by fastforce
  obtain q where q: "cells h pa = Some \<lparr>le_item = py, le_next = Some c\<rparr>"
    "cells h c = Some \<lparr>le_item = y, le_next = q\<rparr>"
    using Cons.prems(1) b by (auto simp: lrep_def)
  obtain m where n: "n = Suc m" and m: "length ks < m"
    using Cons.prems(4) by (cases n) auto
  show ?case
  proof (cases "cmp x y < 0")
    case True
    obtain h1 h2 where "set_next h (Some a) (Some c) = Inr h1" "set_next h1 (Some pa) (Some a) = Inr h2"
      "linked h (ms @ (pa, py) # b # ks) a h2 (l\<lparr>numInList := numInList l + 1\<rparr>)
         (ms @ (pa, py) # (a, x) # b # ks)"
      using link_after [OF Cons.prems(1-3) q(1)] by blast
    then have "b # ks = [] @ (b # ks) \<and> map snd ([] @ (a, x) # b # ks) = sorted_place cmp x (map snd (b # ks))
      \<and> insert_walk cmp n h l a (Some pa) x = Inr (True, h2, l\<lparr>numInList := numInList l + 1\<rparr>)
      \<and> linked h (ms @ (pa, py) # b # ks) a h2 (l\<lparr>numInList := numInList l + 1\<rparr>)
         (ms @ (pa, py) # [] @ (a, x) # b # ks)"
      using True b n q by simp
    moreover have "\<not> (\<forall>k\<in>set (b # ks). \<not> cmp x (snd k) < 0)"
      using True b by simp
    ultimately show ?thesis
      unfolding if_not_P [OF \<open>\<not> (\<forall>k\<in>set (b # ks). \<not> cmp x (snd k) < 0)\<close>] by blast
  next
    case False
    have r: "lrep h l ((ms @ [(pa, py)]) @ (c, y) # ks)" "a \<notin> fst ` set ((ms @ [(pa, py)]) @ (c, y) # ks)"
      using Cons.prems(1,3) b by auto
    have w: "insert_walk cmp n h l a (Some pa) x = insert_walk cmp m h l a (Some c) x"
      using n q False by simp
    note ih = Cons.IH [OF r(1) Cons.prems(2) r(2) m]
    show ?thesis
    proof (cases "\<forall>k\<in>set ks. \<not> cmp x (snd k) < 0")
      case True
      then show ?thesis
        using ih w b False by simp
    next
      case later: False
      obtain h' k1 k2 where k: "ks = k1 @ k2" "map snd (k1 @ (a, x) # k2) = sorted_place cmp x (map snd ks)"
        "insert_walk cmp m h l a (Some c) x = Inr (True, h', l\<lparr>numInList := numInList l + 1\<rparr>)"
        "linked h ((ms @ [(pa, py)]) @ (c, y) # ks) a h' (l\<lparr>numInList := numInList l + 1\<rparr>)
           ((ms @ [(pa, py)]) @ (c, y) # k1 @ (a, x) # k2)"
        using ih later by auto
      have "b # ks = (b # k1) @ k2 \<and> map snd ((b # k1) @ (a, x) # k2) = sorted_place cmp x (map snd (b # ks))
        \<and> insert_walk cmp n h l a (Some pa) x = Inr (True, h', l\<lparr>numInList := numInList l + 1\<rparr>)
        \<and> linked h (ms @ (pa, py) # b # ks) a h' (l\<lparr>numInList := numInList l + 1\<rparr>)
           (ms @ (pa, py) # (b # k1) @ (a, x) # k2)"
        using k w b False by simp
      moreover have "\<not> (\<forall>k\<in>set (b # ks). \<not> cmp x (snd k) < 0)"
        using later by simp
      ultimately show ?thesis
        unfolding if_not_P [OF \<open>\<not> (\<forall>k\<in>set (b # ks). \<not> cmp x (snd k) < 0)\<close>] by blast
    qed
  qed
qed

lemma Insert_rep:
  assumes r: "lrep h l ns" and x: "x \<notin> snd ` set ns"
  shows "\<exists>h' l' ns'. SortedList_Insert cmp h l x = Inr (h', l') \<and> lstep h ns h' l' ns'
    \<and> map snd ns' = sorted_place cmp x (map snd ns)"
proof -
  obtain a h1 where n: "ListElement_new h x = (a, h1)"
    by fastforce
  note new = ListElement_new_rep [OF r n]
  have c: "cells h1 a = Some \<lparr>le_item = x, le_next = None\<rparr>" "List_IsInList h1 l x = Inr False"
    using new(2,4) x IsInList_rep [OF new(1), of x] by simp_all
  note unfold = SortedList_Insert_def Let_def n c(2) lrep_empty [OF r]
  show ?thesis
  proof (cases ns)
    case Nil
    let ?l = "l\<lparr>l_first := Some a, l_last := Some a, numInList := numInList l + 1\<rparr>"
    have s: "lstep h ns h1 ?l [(a, x)]"
      using linked_lstep(1) [OF r n] link_first [of h1 l a x] new(1) c Nil by simp
    then show ?thesis
      using lstep_IsInList [OF s, of x] Nil by (auto simp: unfold)
  next
    case (Cons b ms)
    obtain c0 y where b: "b = (c0, y)" by fastforce
    have f: "l_first l = Some c0" "\<exists>q. cells h1 c0 = Some \<lparr>le_item = y, le_next = q\<rparr>"
      using new(1) Cons b by (auto simp: lrep_def)
    have r1: "lrep h1 l ([] @ (c0, y) # ms)" "a \<notin> fst ` set ([] @ (c0, y) # ms)" "length ms < Suc (brk h1)"
      using new Cons b lrep_length [OF new(1)] by auto
    note walk = insert_walk_rep [OF r1(1) c(1) r1(2,3), of cmp]
    consider (front) "cmp x y < 0" | (inside) "\<not> cmp x y < 0" "\<not> (\<forall>k\<in>set ms. \<not> cmp x (snd k) < 0)"
      | (last) "\<not> cmp x y < 0" "\<forall>k\<in>set ms. \<not> cmp x (snd k) < 0"
      by blast
    then show ?thesis
    proof cases
      case front
      let ?l = "l\<lparr>l_first := Some a, numInList := numInList l + 1\<rparr>"
      obtain h' where h': "set_next h1 (Some a) (l_first l) = Inr h'" and k: "linked h1 ns a h' ?l ((a, x) # ns)"
        using link_front [OF new(1) _ c(1) new(5)] Cons by blast
      note s = linked_lstep(1) [OF r n k]
      have "SortedList_Insert cmp h l x = Inr (h', ?l)"
        using h' f front lstep_IsInList [OF s, of x] Cons b by (auto simp: unfold)
      moreover have "map snd ((a, x) # ns) = sorted_place cmp x (map snd ns)"
        using front Cons b by simp
      ultimately show ?thesis
        using s by blast
    next
      case inside
      obtain h' k1 k2 where k: "ms = k1 @ k2" "map snd (k1 @ (a, x) # k2) = sorted_place cmp x (map snd ms)"
        and w: "insert_walk cmp (Suc (brk h1)) h1 l a (Some c0) x = Inr (True, h', l\<lparr>numInList := numInList l + 1\<rparr>)"
        and lk: "linked h1 ns a h' (l\<lparr>numInList := numInList l + 1\<rparr>) ((c0, y) # k1 @ (a, x) # k2)"
        using walk unfolding if_not_P [OF inside(2)] append_Nil Cons b by blast
      have "SortedList_Insert cmp h l x = Inr (h', l\<lparr>numInList := numInList l + 1\<rparr>)"
        using w f inside(1) Cons by (auto simp: unfold simp del: insert_walk.simps)
      moreover have "map snd ((c0, y) # k1 @ (a, x) # k2) = sorted_place cmp x (map snd ns)"
        using k inside(1) Cons b by simp
      ultimately show ?thesis
        using linked_lstep(1) [OF r n lk] by blast
    next
      case last
      let ?l = "l\<lparr>l_last := Some a, numInList := numInList l + 1\<rparr>"
      have w: "insert_walk cmp (Suc (brk h1)) h1 l a (Some c0) x = Inr (False, h1, l)"
        using walk last(2) by simp
      obtain ks a0 z where ns: "ns = ks @ [(a0, z)]"
        using Cons by (metis list.distinct(1) rev_exhaust surj_pair)
      obtain h' where h': "set_next h1 (l_last l) (Some a) = Inr h'"
        and lk: "linked h1 ns a h' ?l (ks @ [(a0, z), (a, x)])"
        using link_last [of h1 l ks a0 z a x] new(1,5) c ns by auto
      note s = linked_lstep(1) [OF r n lk]
      have "SortedList_Insert cmp h l x = Inr (h', ?l)"
        using w h' f last(1) Cons lstep_IsInList [OF s, of x]
        by (auto simp: unfold simp del: insert_walk.simps)
      moreover have "map snd (ks @ [(a0, z), (a, x)]) = sorted_place cmp x (map snd ns)"
      proof -
        have "\<forall>k\<in>set (map snd ns). \<not> cmp x k < 0"
          using last Cons b by auto
        from sorted_place_end [of "map snd ns" cmp x, OF this] show ?thesis
          using ns by simp
      qed
      ultimately show ?thesis
        using s by blast
    qed
  qed
qed

lemma Insert_dup:
  "lrep h l ns \<Longrightarrow> x \<in> snd ` set ns \<Longrightarrow> SortedList_Insert cmp h l x = Inl AssertFail"
  using ListElement_new_rep(1) [of h l ns x] IsInList_rep [of _ l ns x]
  by (auto simp: SortedList_Insert_def Let_def split: prod.split)

lemma count_walk_path:
  assumes "path (cells h) p ns (l_last l)" and "l_last l \<notin> Some ` fst ` set ns"
    and "numFound + int (length ns) \<le> numInList l"
  shows "count_walk h l numFound p = Inr (numFound + int (length ns))"
  using assms
proof (induction ns arbitrary: p numFound)
  case Nil
  then show ?case by (simp add: count_walk.simps)
next
  case (Cons b ns)
  obtain a x where b: "b = (a, x)" by fastforce
  obtain q where q: "p = Some a" "cells h a = Some \<lparr>le_item = x, le_next = q\<rparr>" "path (cells h) q ns (l_last l)"
    using Cons.prems(1) b by auto
  have "count_walk h l (numFound + 1) q = Inr (numFound + 1 + int (length ns))"
    using Cons.IH [OF q(3), of "numFound + 1"] Cons.prems(2,3) by simp
  moreover have "p \<noteq> l_last l"
    using Cons.prems(2) q(1) b by auto
  ultimately show ?case
    using q Cons.prems(3) by (subst count_walk.simps) simp
qed

lemma SanityCheck_rep:
  assumes r: "lrep h l ns"
  shows "List_SanityCheck h l = Inr ()"
proof (cases ns rule: rev_cases)
  case Nil
  then show ?thesis
    using r by (simp add: List_SanityCheck_def lrep_def)
next
  case (snoc ms b)
  obtain a x where b: "b = (a, x)" by fastforce
  have e: "cells h a = Some \<lparr>le_item = x, le_next = None\<rparr>" "l_last l = Some a" "a \<notin> fst ` set ms"
    and p: "path (cells h) (l_first l) ms (l_last l)" and n: "numInList l = 1 + int (length ms)"
    using r snoc b by (auto simp: lrep_def)
  have "l_last l \<notin> Some ` fst ` set ms"
    using e by auto
  then have "count_walk h l 1 (l_first l) = Inr (numInList l)"
    using count_walk_path [OF p, of 1] n by simp
  moreover have "l_first l \<noteq> None" "l_first l = l_last l \<longleftrightarrow> ms = []"
    using p e by (cases ms; auto)+
  ultimately show ?thesis
    using e n by (simp add: List_SanityCheck_def)
qed

lemma Apply_rep: "lrep h l ns \<Longrightarrow> List_Apply h l = Inr (map snd ns)"
  using lrep_length [of h l ns] by (simp add: List_Apply_def lrep_def items_walk_path)

lemma sorted_walk_path:
  assumes "path (cells h) p ((pa, py) # ns) None" and "length ns < n"
  shows "sorted_walk cmp n h (Some pa) (case ns of [] \<Rightarrow> None | b # _ \<Rightarrow> Some (fst b)) =
    ASSERT (all_ordered cmp (py # map snd ns))"
  using assms
proof (induction ns arbitrary: p pa py n)
  case Nil
  then show ?case by (cases n) auto
next
  case (Cons b ns)
  obtain a x where b: "b = (a, x)" by fastforce
  obtain m where n: "n = Suc m" and m: "length ns < m"
    using Cons.prems(2) by (cases n) auto
  obtain q where q: "cells h pa = Some \<lparr>le_item = py, le_next = Some a\<rparr>"
    "cells h a = Some \<lparr>le_item = x, le_next = q\<rparr>" "path (cells h) q ns None"
    using Cons.prems(1) b by auto
  have "q = (case ns of [] \<Rightarrow> None | b # _ \<Rightarrow> Some (fst b))"
    using q(3) by (cases ns) auto
  then show ?case
    using Cons.IH [OF _ m, of "Some a" a x] q b n by (simp add: rbind_ASSERT)
qed

lemma SortedList_SanityCheck_rep:
  assumes r: "lrep h l ns"
  shows "SortedList_SanityCheck cmp h l = ASSERT (all_ordered cmp (map snd ns))"
proof (cases ns)
  case Nil
  then show ?thesis
    using r SanityCheck_rep [OF r] by (simp add: SortedList_SanityCheck_def lrep_def)
next
  case (Cons b ms)
  obtain a x where b: "b = (a, x)" by fastforce
  obtain q where q: "l_first l = Some a" "cells h a = Some \<lparr>le_item = x, le_next = q\<rparr>" "path (cells h) q ms None"
    using r Cons b by (auto simp: lrep_def)
  have "q = (case ms of [] \<Rightarrow> None | b # _ \<Rightarrow> Some (fst b))"
    using q(3) by (cases ms) auto
  moreover have "length ms < Suc (brk h)"
    using lrep_length [OF r] Cons by simp
  moreover have "path (cells h) (Some a) ((a, x) # ms) None"
    using q by simp
  ultimately have w: "sorted_walk cmp (Suc (brk h)) h (l_first l) q = ASSERT (all_ordered cmp (map snd ns))"
    using sorted_walk_path q(1) Cons b by fastforce
  have "l_first l = l_last l \<longleftrightarrow> ms = []"
    using r Cons b q(1) by (cases ms rule: rev_cases) (auto simp: lrep_def last_ptr_def)
  then show ?thesis
    using w q SanityCheck_rep [OF r] Cons b
    by (auto simp: SortedList_SanityCheck_def simp del: sorted_walk.simps)
qed

section \<open>The interface of a list and its refinement\<close>

datatype 'a lop = LAppend 'a | LPrepend 'a | LInsert 'a | LRemove 'a | LRemoveFront

text \<open>One operation on the abstract list and on the pointer list; the value \<^verbatim>\<open>RemoveFront\<close> returns.\<close>

fun absl_step :: "('a \<Rightarrow> 'a \<Rightarrow> int) \<Rightarrow> 'a list \<Rightarrow> 'a lop \<Rightarrow> ('a option \<times> 'a list) result" where
  "absl_step cmp xs (LAppend x) = rbind (absl_Append xs x) (\<lambda>ys. Inr (None, ys))"
| "absl_step cmp xs (LPrepend x) = rbind (absl_Prepend xs x) (\<lambda>ys. Inr (None, ys))"
| "absl_step cmp xs (LInsert x) = rbind (absl_Insert cmp xs x) (\<lambda>ys. Inr (None, ys))"
| "absl_step cmp xs (LRemove x) = rbind (absl_Remove xs x) (\<lambda>ys. Inr (None, ys))"
| "absl_step cmp xs LRemoveFront = rbind (absl_RemoveFront xs) (\<lambda>(y, ys). Inr (Some y, ys))"

fun List_step :: "('a \<Rightarrow> 'a \<Rightarrow> int) \<Rightarrow> 'a lstate \<Rightarrow> 'a lop \<Rightarrow> ('a option \<times> 'a lstate) result" where
  "List_step cmp (h, l) (LAppend x) = rbind (List_Append h l x) (\<lambda>s. Inr (None, s))"
| "List_step cmp (h, l) (LPrepend x) = rbind (List_Prepend h l x) (\<lambda>s. Inr (None, s))"
| "List_step cmp (h, l) (LInsert x) = rbind (SortedList_Insert cmp h l x) (\<lambda>s. Inr (None, s))"
| "List_step cmp (h, l) (LRemove x) = rbind (List_Remove h l x) (\<lambda>s. Inr (None, s))"
| "List_step cmp (h, l) LRemoveFront = rbind (List_RemoveFront h l) (\<lambda>(y, s). Inr (Some y, s))"

text \<open>
  What a list promises its clients: related states take related steps, faults included, and
  \<open>items\<close> reads the contents.
\<close>

locale list_impl =
  fixes rep :: "'s \<Rightarrow> 'a list \<Rightarrow> bool"
    and cmp :: "'a \<Rightarrow> 'a \<Rightarrow> int"
    and step :: "'s \<Rightarrow> 'a lop \<Rightarrow> ('a option \<times> 's) result"
    and items :: "'s \<Rightarrow> 'a list result"
  assumes step_refines: "rep s xs \<Longrightarrow> rsim rep (step s p) (absl_step cmp xs p)"
    and items_rep: "rep s xs \<Longrightarrow> items s = Inr xs"
begin

lemma run_refines: "rep s xs \<Longrightarrow> rsim rep (run_ops step s ps) (run_ops (absl_step cmp) xs ps)"
  by (rule run_ops_rsim) (use step_refines in blast)+

text \<open>A list that starts without duplicates never has any, whatever is done to it.\<close>

lemma absl_step_distinct: "distinct xs \<Longrightarrow> absl_step cmp xs p = Inr (v, ys) \<Longrightarrow> distinct ys"
  by (cases p)
    (auto simp: absl_Append_def absl_Prepend_def absl_Insert_def absl_Remove_def absl_RemoveFront_def
       distinct_sorted_place split: if_splits list.splits)

lemma run_distinct:
  "distinct xs \<Longrightarrow> run_ops (absl_step cmp) xs ps = Inr (vs, ys) \<Longrightarrow> distinct ys"
proof (induction ps arbitrary: xs vs)
  case Nil
  then show ?case by simp
next
  case (Cons p ps)
  then show ?case
    by (auto elim!: rbind_InrE dest: absl_step_distinct)
qed

text \<open>Appending and then taking from the front is a queue: first in, first out.\<close>

lemma absl_appends:
  "distinct (xs @ ys) \<Longrightarrow> run_ops (absl_step cmp) xs (map LAppend ys @ ps) = run_ops (absl_step cmp) (xs @ ys) ps"
proof (induction ys arbitrary: xs)
  case Nil
  then show ?case by simp
next
  case (Cons y ys)
  then show ?case
    using Cons.IH [of "xs @ [y]"]
    by (cases "run_ops (absl_step cmp) (xs @ y # ys) ps") (auto simp: absl_Append_def)
qed

lemma absl_removes:
  "run_ops (absl_step cmp) (xs @ ys) (replicate (length xs) LRemoveFront) = Inr (xs, ys)"
  by (induction xs) (simp_all add: absl_RemoveFront_def)

lemma fifo:
  assumes "rep s []" and "distinct xs"
  shows "\<exists>t. run_ops step s (map LAppend xs @ replicate (length xs) LRemoveFront) = Inr (xs, t) \<and> rep t []"
proof -
  have "run_ops (absl_step cmp) [] (map LAppend xs @ replicate (length xs) LRemoveFront) = Inr (xs, [])"
    using absl_appends [of "[]" xs] absl_removes [of xs "[]"] assms(2) by simp
  moreover note run_refines [OF assms(1)]
  ultimately have "rsim rep (run_ops step s (map LAppend xs @ replicate (length xs) LRemoveFront)) (Inr (xs, []))"
    by metis
  then show ?thesis
    by (cases rule: rsim_cases) auto
qed

end

section \<open>The pointer lists implement the interface\<close>

definition list_rep :: "'a lstate \<Rightarrow> 'a list \<Rightarrow> bool" where
  "list_rep s xs \<longleftrightarrow> (\<exists>ns. lrep (fst s) (snd s) ns \<and> xs = map snd ns)"

lemma lstep_list_rep: "lstep h ns h' l' ns' \<Longrightarrow> list_rep (h', l') (map snd ns')"
  by (auto simp: list_rep_def lstep_def)

lemma Remove_list_rep:
  assumes "lrep h l ns"
  shows "case absl_Remove (map snd ns) x of Inl e \<Rightarrow> List_Remove h l x = Inl e
    | Inr ys \<Rightarrow> \<exists>h' l' ns'. List_Remove h l x = Inr (h', l') \<and> lstep h ns h' l' ns' \<and> ys = map snd ns'"
proof (cases "x \<in> snd ` set ns")
  case True
  obtain h' l' k1 a k2 where k: "ns = k1 @ (a, x) # k2" "x \<notin> snd ` set k1" "lstep h ns h' l' (k1 @ k2)"
    and rm: "List_Remove h l x = (if x \<in> snd ` set k2 then Inl AssertFail else Inr (h', l'))"
    using Remove_core [OF assms True] by blast
  have "remove1 x (map snd ns) = map snd (k1 @ k2)"
    using k(1,2) by (simp add: remove1_append)
  then show ?thesis
    using k rm by (auto simp: absl_Remove_def image_Un)
next
  case False
  then show ?thesis
    using Remove_absent [OF assms False] by (simp add: absl_Remove_def)
qed

lemma List_step_refines:
  assumes "list_rep s xs"
  shows "rsim list_rep (List_step cmp s p) (absl_step cmp xs p)"
proof -
  obtain h l ns where s: "s = (h, l)" and r: "lrep h l ns" and xs: "xs = map snd ns"
    using assms by (cases s) (auto simp: list_rep_def)
  show ?thesis
  proof (cases p)
    case (LAppend x)
    then show ?thesis
      using Append_rep [OF r, of x] Append_dup [OF r, of x] s xs
      by (cases "x \<in> snd ` set ns") (auto dest!: lstep_list_rep simp: absl_Append_def)
  next
    case (LPrepend x)
    then show ?thesis
      using Prepend_rep [OF r, of x] Prepend_dup [OF r, of x] s xs
      by (cases "x \<in> snd ` set ns") (auto dest!: lstep_list_rep simp: absl_Prepend_def)
  next
    case (LInsert x)
    then show ?thesis
      using Insert_rep [OF r, of x cmp] Insert_dup [OF r, of x cmp] s xs
      by (cases "x \<in> snd ` set ns") (auto dest!: lstep_list_rep simp: absl_Insert_def)
  next
    case (LRemove x)
    then show ?thesis
      using Remove_list_rep [OF r, of x] s xs
      by (cases "absl_Remove (map snd ns) x") (auto dest!: lstep_list_rep)
  next
    case LRemoveFront
    then show ?thesis
      using RemoveFront_rep [of h l "fst (hd ns)" "snd (hd ns)" "tl ns"] RemoveFront_empty [of h l] r s xs
      by (cases ns) (auto dest!: lstep_list_rep simp: absl_RemoveFront_def)
  qed
qed

interpretation pl: list_impl list_rep cmp "List_step cmp" "\<lambda>(h, l). List_Apply h l" for cmp
  by unfold_locales (auto simp: List_step_refines list_rep_def Apply_rep)

lemma list_rep_new: "(\<And>a. a \<in> dom (cells h) \<Longrightarrow> a < brk h) \<Longrightarrow> list_rep (h, List_new) []"
  by (auto simp: list_rep_def lrep_def List_new_def)

section \<open>The self tests\<close>

lemma list_rep_IsInList: "list_rep (h, l) xs \<Longrightarrow> List_IsInList h l x = Inr (x \<in> set xs)"
  by (auto simp: list_rep_def IsInList_rep)

lemma list_rep_IsEmpty: "list_rep (h, l) xs \<Longrightarrow> List_IsEmpty l \<longleftrightarrow> xs = []"
  by (auto simp: list_rep_def lrep_empty)

lemma list_rep_first: "list_rep (h, l) xs \<Longrightarrow> l_first l = None \<longleftrightarrow> xs = []"
  using path_first by (fastforce simp: list_rep_def lrep_def)

lemma list_rep_SanityCheck: "list_rep (h, l) xs \<Longrightarrow> List_SanityCheck h l = Inr ()"
  by (auto simp: list_rep_def SanityCheck_rep)

lemma list_rep_SortedSanityCheck:
  "list_rep (h, l) xs \<Longrightarrow> SortedList_SanityCheck cmp h l = ASSERT (all_ordered cmp xs)"
  by (auto simp: list_rep_def SortedList_SanityCheck_rep)

lemma Append_list_rep:
  "list_rep (h, l) xs \<Longrightarrow> x \<notin> set xs \<Longrightarrow> \<exists>t. List_Append h l x = Inr t \<and> list_rep t (xs @ [x])"
  using List_step_refines [of "(h, l)" xs _ "LAppend x"] by (cases "List_Append h l x") (auto simp: absl_Append_def)

lemma Insert_list_rep:
  "list_rep (h, l) xs \<Longrightarrow> x \<notin> set xs \<Longrightarrow>
   \<exists>t. SortedList_Insert cmp h l x = Inr t \<and> list_rep t (sorted_place cmp x xs)"
  using List_step_refines [of "(h, l)" xs cmp "LInsert x"]
  by (cases "SortedList_Insert cmp h l x") (auto simp: absl_Insert_def)

lemma Remove_distinct_list_rep:
  "list_rep (h, l) xs \<Longrightarrow> distinct xs \<Longrightarrow> x \<in> set xs \<Longrightarrow>
   \<exists>t. List_Remove h l x = Inr t \<and> list_rep t (remove1 x xs)"
  using List_step_refines [of "(h, l)" xs _ "LRemove x"]
  by (cases "List_Remove h l x") (auto simp: absl_Remove_def)

lemma RemoveFront_list_rep:
  "list_rep (h, l) (x # xs) \<Longrightarrow> \<exists>t. List_RemoveFront h l = Inr (x, t) \<and> list_rep t xs"
  using List_step_refines [of "(h, l)" "x # xs" _ LRemoveFront]
  by (cases "List_RemoveFront h l") (auto simp: absl_RemoveFront_def)

text \<open>The two ways of adding, \<open>place\<close> being where the item goes.\<close>

lemma append_all_rep:
  assumes add: "\<And>h l xs x. list_rep (h, l) xs \<Longrightarrow> x \<notin> set xs \<Longrightarrow> \<exists>t. add h l x = Inr t \<and> list_rep t (place x xs)"
    and place: "\<And>x xs. set (place x xs) = insert x (set xs)"
  shows "list_rep s xs \<Longrightarrow> distinct ys \<Longrightarrow> set xs \<inter> set ys = {} \<Longrightarrow>
    \<exists>t. append_all add ys s = Inr t \<and> list_rep t (foldl (\<lambda>zs y. place y zs) xs ys)"
proof (induction ys arbitrary: s xs)
  case Nil
  then show ?case by simp
next
  case (Cons y ys)
  obtain h l where s: "s = (h, l)" by fastforce
  obtain h1 l1 where t: "add h l y = Inr (h1, l1)" "list_rep (h1, l1) (place y xs)"
    using add [of h l xs y] Cons.prems s by auto
  have "\<exists>u. append_all add ys (h1, l1) = Inr u \<and> list_rep u (foldl (\<lambda>zs y. place y zs) (place y xs) ys)"
    using Cons.IH [OF t(2)] Cons.prems place [of y xs] by auto
  moreover have "List_IsInList h1 l1 y = Inr True" "\<not> List_IsEmpty l1"
    using list_rep_IsInList [OF t(2), of y] list_rep_IsEmpty [OF t(2)] place [of y xs] by auto
  ultimately show ?case
    using s t(1) by simp
qed

lemma remove_all_rep:
  "list_rep s xs \<Longrightarrow> distinct xs \<Longrightarrow> distinct ys \<Longrightarrow> set ys \<subseteq> set xs \<Longrightarrow>
   \<exists>t zs. remove_all ys s = Inr t \<and> list_rep t zs \<and> distinct zs \<and> set zs = set xs - set ys"
proof (induction ys arbitrary: s xs)
  case Nil
  then show ?case by auto
next
  case (Cons y ys)
  obtain h l where s: "s = (h, l)" by fastforce
  obtain h1 l1 where t: "List_Remove h l y = Inr (h1, l1)" "list_rep (h1, l1) (remove1 y xs)"
    using Remove_distinct_list_rep [of h l xs y] Cons.prems s by auto
  have "List_IsInList h1 l1 y = Inr False"
    using list_rep_IsInList [OF t(2), of y] Cons.prems by simp
  moreover have "set ys \<subseteq> set (remove1 y xs)" "distinct (remove1 y xs)" "distinct ys"
    using Cons.prems by auto
  then obtain u zs where "remove_all ys (h1, l1) = Inr u" "list_rep u zs" "distinct zs"
    "set zs = set (remove1 y xs) - set ys"
    using Cons.IH [OF t(2)] by blast
  ultimately show ?case
    using Cons.prems(2) s t(1) by (intro exI [of _ u] exI [of _ zs]) auto
qed

lemma SelfTest_with_rep:
  assumes add: "\<And>h l xs x. list_rep (h, l) xs \<Longrightarrow> x \<notin> set xs \<Longrightarrow> \<exists>t. add h l x = Inr t \<and> list_rep t (place x xs)"
    and place: "\<And>x xs. set (place x xs) = insert x (set xs)"
      "\<And>x xs. length (place x xs) = Suc (length xs)"
    and chk: "\<And>h l xs. list_rep (h, l) xs \<Longrightarrow> Q xs \<Longrightarrow> chk h l = Inr ()"
    and Q: "Q []" "\<And>x xs. Q xs \<Longrightarrow> Q (place x xs)"
    and p: "distinct p" and s: "list_rep s []"
  shows "\<exists>t. List_SelfTest_with add chk p s = Inr t \<and> list_rep t []"
proof -
  obtain h l where hl: "s = (h, l)" by fastforce
  define zs where "zs = foldl (\<lambda>zs y. place y zs) [] p"
  have zs_gen: "Q xs \<Longrightarrow> Q (foldl (\<lambda>zs y. place y zs) xs p)
    \<and> set (foldl (\<lambda>zs y. place y zs) xs p) = set xs \<union> set p
    \<and> length (foldl (\<lambda>zs y. place y zs) xs p) = length xs + length p" for xs
    by (induction p arbitrary: xs) (auto simp: place Q)
  then have zs: "Q zs" "set zs = set p" "length zs = length p"
    unfolding zs_def using Q(1) by force+
  have d: "distinct zs"
    using zs p by (metis card_distinct distinct_card)
  obtain h1 l1 where 1: "append_all add p s = Inr (h1, l1)" "list_rep (h1, l1) zs"
    using append_all_rep [of add place, OF add place(1) s p] unfolding zs_def by auto
  obtain h2 l2 where 2: "remove_all p (h1, l1) = Inr (h2, l2)" "list_rep (h2, l2) []"
    using remove_all_rep [OF 1(2) d p] zs(2) by auto
  have "List_IsEmpty l" "l_first l = None" "List_IsEmpty l2"
    using list_rep_IsEmpty list_rep_first s hl 2(2) by blast+
  then have "List_SelfTest_with add chk p s = Inr (h2, l2)"
    using 1 2 hl chk [of h l "[]"] chk [OF 1(2) zs(1)] chk [OF 2(2) Q(1)] s Q(1)
    by (simp add: List_SelfTest_with_def ListIterator_new_def ListIterator_IsDone_def)
  then show ?thesis
    using 2(2) by blast
qed

lemma all_ordered_sorted_place:
  assumes "\<And>x y. \<not> cmp x y < 0 \<Longrightarrow> cmp y x \<le> 0"
  shows "all_ordered cmp xs \<Longrightarrow> all_ordered cmp (sorted_place cmp x xs)"
  using assms
proof (induction cmp xs rule: all_ordered.induct)
  case (1 cmp y z zs)
  then show ?case by auto
qed auto

lemma insert_all_rep:
  "list_rep s xs \<Longrightarrow> distinct ys \<Longrightarrow> set xs \<inter> set ys = {} \<Longrightarrow>
   \<exists>t. insert_all cmp ys s = Inr t \<and> list_rep t (foldl (\<lambda>zs y. sorted_place cmp y zs) xs ys)"
proof (induction ys arbitrary: s xs)
  case Nil
  then show ?case by simp
next
  case (Cons y ys)
  obtain h l where s: "s = (h, l)" by fastforce
  obtain h1 l1 where t: "SortedList_Insert cmp h l y = Inr (h1, l1)" "list_rep (h1, l1) (sorted_place cmp y xs)"
    using Insert_list_rep [of h l xs y cmp] Cons.prems s by auto
  then have "List_IsInList h1 l1 y = Inr True"
    using list_rep_IsInList by fastforce
  then show ?case
    using Cons.IH [OF t(2)] Cons.prems s t(1) by auto
qed

lemma drain_rep:
  "list_rep s xs \<Longrightarrow> distinct xs \<Longrightarrow> \<exists>t. drain (length xs) s = Inr (xs, t) \<and> list_rep t []"
proof (induction xs arbitrary: s)
  case Nil
  then show ?case by (cases s) simp
next
  case (Cons x xs)
  obtain h l where s: "s = (h, l)" by fastforce
  obtain h1 l1 where t: "List_RemoveFront h l = Inr (x, h1, l1)" "list_rep (h1, l1) xs"
    using RemoveFront_list_rep [of h l x xs] Cons.prems s by auto
  moreover have "List_IsInList h1 l1 x = Inr False"
    using list_rep_IsInList [OF t(2), of x] Cons.prems by simp
  ultimately show ?case
    using Cons.IH [OF t(2)] Cons.prems s by auto
qed

lemma SortedList_SelfTest_rep:
  assumes tot: "\<And>x y. \<not> cmp x y < 0 \<Longrightarrow> cmp y x \<le> 0" and p: "distinct p" and s: "list_rep s []"
  shows "\<exists>t. SortedList_SelfTest cmp p s = Inr t \<and> list_rep t []"
proof -
  define zs where "zs = foldl (\<lambda>zs y. sorted_place cmp y zs) [] p"
  have "all_ordered cmp xs \<Longrightarrow> all_ordered cmp (foldl (\<lambda>zs y. sorted_place cmp y zs) xs p)
    \<and> mset (foldl (\<lambda>zs y. sorted_place cmp y zs) xs p) = mset xs + mset p" for xs
    by (induction p arbitrary: xs) (simp_all add: all_ordered_sorted_place [OF tot])
  then have zs: "all_ordered cmp zs" "mset zs = mset p"
    unfolding zs_def by force+
  have d: "distinct zs" "length zs = length p"
    using zs(2) p by (metis mset_eq_imp_distinct_iff, metis size_mset)
  obtain s1 where 1: "List_SelfTest_with (SortedList_Insert cmp) (SortedList_SanityCheck cmp) p s = Inr s1"
    "list_rep s1 []"
    using SelfTest_with_rep [of "SortedList_Insert cmp" "sorted_place cmp" "all_ordered cmp" "SortedList_SanityCheck cmp",
        OF Insert_list_rep set_sorted_place length_sorted_place _ _ _ p s]
    by (auto simp: list_rep_SortedSanityCheck all_ordered_sorted_place [OF tot])
  obtain h2 l2 where 2: "insert_all cmp p s1 = Inr (h2, l2)" "list_rep (h2, l2) zs"
    using insert_all_rep [OF 1(2) p, of cmp] unfolding zs_def by auto
  obtain h3 l3 where 3: "drain (length zs) (h2, l2) = Inr (zs, h3, l3)" "list_rep (h3, l3) []"
    using drain_rep [OF 2(2) d(1)] by auto
  then show ?thesis
    using 1 2 d(2) zs(1) list_rep_IsEmpty [OF 3(2)]
    by (simp add: SortedList_SelfTest_def list_rep_SortedSanityCheck [OF 2(2)] list_rep_SortedSanityCheck [OF 3(2)])
qed

lemma List_SelfTest_rep:
  assumes "distinct p" and "list_rep s []"
  shows "\<exists>t. List_SelfTest p s = Inr t \<and> list_rep t []"
  unfolding List_SelfTest_def
  by (rule SelfTest_with_rep [where place = "\<lambda>x xs. xs @ [x]" and Q = "\<lambda>_. True", OF Append_list_rep])
    (use assms in \<open>auto simp: list_rep_SanityCheck\<close>)

lemma list_rep_empty [simp]: "list_rep (empty_store, List_new) []"
  by (rule list_rep_new) (simp add: empty_store_def)

lemma List_step_lstep:
  assumes r: "lrep h l ns" and s: "List_step cmp (h, l) p = Inr (v, h', l')"
  shows "\<exists>ns'. lstep h ns h' l' ns'"
proof (cases p)
  case (LAppend x)
  then show ?thesis
    using s Append_rep [OF r, of x] Append_dup [OF r, of x] by (cases "x \<in> snd ` set ns") auto
next
  case (LPrepend x)
  then show ?thesis
    using s Prepend_rep [OF r, of x] Prepend_dup [OF r, of x] by (cases "x \<in> snd ` set ns") auto
next
  case (LInsert x)
  then show ?thesis
    using s Insert_rep [OF r, of x cmp] Insert_dup [OF r, of x cmp] by (cases "x \<in> snd ` set ns") auto
next
  case (LRemove x)
  then show ?thesis
    using s Remove_list_rep [OF r, of x] by (cases "absl_Remove (map snd ns) x") auto
next
  case LRemoveFront
  then show ?thesis
    using s r RemoveFront_rep [of h l "fst (hd ns)" "snd (hd ns)" "tl ns"] RemoveFront_empty [of h l]
    by (cases ns) auto
qed

section \<open>Properties\<close>

text \<open>C29: whatever sequence of operations is done to a list, the pointer implementation and the
  operations on the abstract list agree: the same values returned, the same contents at the
  end, and an assertion fails in one exactly where it fails in the other; no operation
  dereferences NULL or walks for ever.\<close>

theorem list_ops_refine:
  assumes "list_rep s xs"
  shows "rsim list_rep (run_ops (List_step cmp) s ps) (run_ops (absl_step cmp) xs ps)"
  by (rule pl.run_refines [OF assms])

theorem list_ops_refine_witness:
  "rsim list_rep (run_ops (List_step (-)) (empty_store, List_new) [LAppend 3, LInsert (1::int), LPrepend 7, LRemove 1, LRemoveFront])
     (Inr ([7], [3]))
   \<and> rsim list_rep (run_ops (List_step (-)) (empty_store, List_new) [LAppend (3::int), LAppend 3]) (Inl AssertFail)"
  using list_ops_refine [of "(empty_store, List_new)" "[]" "(-)" "[LAppend 3, LInsert (1::int), LPrepend 7, LRemove 1, LRemoveFront]"]
    list_ops_refine [of "(empty_store, List_new)" "[]" "(-)" "[LAppend (3::int), LAppend 3]"]
  by (simp add: absl_Append_def absl_Prepend_def absl_Insert_def absl_Remove_def absl_RemoveFront_def)

text \<open>C30: an operation on one list leaves every other list of the same store as it was, and the
  two lists still share no cell.\<close>

theorem list_op_frame:
  assumes "lrep h l ns" and "lrep h k ms" and "fst ` set ms \<inter> fst ` set ns = {}"
    and "List_step cmp (h, l) p = Inr (v, h', l')"
  shows "lrep h' k ms \<and> (\<exists>ns'. lrep h' l' ns' \<and> fst ` set ms \<inter> fst ` set ns' = {})"
proof -
  obtain ns' where s: "lstep h ns h' l' ns'"
    using List_step_lstep [OF assms(1,4)] by blast
  moreover have "lrep h' l' ns'"
    using s by (simp add: lstep_def)
  ultimately show ?thesis
    using lstep_frame [OF s assms(2,3)] by blast
qed

definition frame_store :: "nat store" where
  "frame_store = \<lparr>cells = [0 \<mapsto> \<lparr>le_item = 5, le_next = None\<rparr>, 1 \<mapsto> \<lparr>le_item = 9, le_next = None\<rparr>], brk = 2\<rparr>"

definition frame_list :: "addr \<Rightarrow> NList" where
  "frame_list a = \<lparr>l_first = Some a, l_last = Some a, numInList = 1\<rparr>"

lemma frame_rep: "lrep frame_store (frame_list 0) [(0, 5)]" "lrep frame_store (frame_list 1) [(1, 9)]"
  by (auto simp: lrep_def frame_store_def frame_list_def)

theorem list_op_frame_witness:
  "\<exists>h' l'. List_step (\<lambda>_ _. 0) (frame_store, frame_list 0) (LAppend 9) = Inr (None, h', l')
     \<and> lrep h' (frame_list 1) [(1, 9)]"
proof -
  obtain h' l' where "List_step (\<lambda>_ _. 0) (frame_store, frame_list 0) (LAppend 9) = Inr (None, h', l')"
    using Append_rep [OF frame_rep(1), of 9] by auto
  with list_op_frame [OF frame_rep(1,2) _ this] show ?thesis
    by auto
qed

text \<open>Inserting distinct items one by one into an empty sorted list gives the items in
  ascending order, all of them, and items that compare equal in the order in which they
  were inserted.\<close>

theorem SortedList_Insert_sorts:
  assumes "cmp_order cmp" and "distinct p" and "list_rep s []"
  shows "\<exists>t xs. insert_all cmp p s = Inr t \<and> list_rep t xs \<and> sorted_wrt (cmp_le cmp) xs \<and> mset xs = mset p
    \<and> (\<forall>k. filter (\<lambda>y. cmp k y = 0) xs = filter (\<lambda>y. cmp k y = 0) p)"
  using insert_all_rep [OF assms(3,2), of cmp] foldl_sorted_place [OF assms(1), of "[]" p] by auto

definition pair_cmp :: "int \<times> int \<Rightarrow> int \<times> int \<Rightarrow> int" where
  "pair_cmp x y = fst x - fst y"

theorem SortedList_Insert_sorts_witness:
  "\<exists>t xs. insert_all pair_cmp [(2, 1), (1, 2), (2, 0), (1, 1)] (empty_store, List_new) = Inr t
    \<and> list_rep t xs \<and> sorted_wrt (cmp_le pair_cmp) xs \<and> filter (\<lambda>y. pair_cmp (2, 7) y = 0) xs = [(2, 1), (2, 0)]"
proof -
  have "cmp_order pair_cmp"
    by (auto simp: cmp_order_def pair_cmp_def)
  from SortedList_Insert_sorts [OF this, of "[(2, 1), (1, 2), (2, 0), (1, 1)]" "(empty_store, List_new)"]
  obtain t xs where t: "insert_all pair_cmp [(2, 1), (1, 2), (2, 0), (1, 1)] (empty_store, List_new) = Inr t"
    "list_rep t xs" "sorted_wrt (cmp_le pair_cmp) xs"
    and k: "\<forall>k. filter (\<lambda>y. pair_cmp k y = 0) xs = filter (\<lambda>y. pair_cmp k y = 0) [(2, 1), (1, 2), (2, 0), (1, 1)]"
    by fastforce
  from spec [OF k, of "(2, 7)"] have "filter (\<lambda>y. pair_cmp (2, 7) y = 0) xs = [(2, 1), (2, 0)]"
    by (simp add: pair_cmp_def)
  with t show ?thesis
    by blast
qed

text \<open>Both self tests pass on every array of distinct items: no assertion fails and the list
  is empty again at the end.\<close>

theorem list_SelfTests_pass:
  assumes "distinct p" and "list_rep s []" and "\<forall>x y. \<not> cmp x y < 0 \<longrightarrow> cmp y x \<le> 0"
  shows "(\<exists>t. List_SelfTest p s = Inr t \<and> list_rep t [])
    \<and> (\<exists>t. SortedList_SelfTest cmp p s = Inr t \<and> list_rep t [])"
  using List_SelfTest_rep [OF assms(1,2)] SortedList_SelfTest_rep [OF _ assms(1,2), of cmp] assms(3) by blast

theorem list_SelfTests_pass_witness:
  "(\<exists>t. List_SelfTest [9, 5, 7::int] (empty_store, List_new) = Inr t \<and> list_rep t [])
   \<and> (\<exists>t. SortedList_SelfTest (-) [9, 5, 7::int] (empty_store, List_new) = Inr t \<and> list_rep t [])"
  by (rule list_SelfTests_pass) auto

end
