(* ===== verification/HashTable.thy ===== *)
theory HashTable
  imports NachosList
begin

text \<open>
  \<^verbatim>\<open>lib/hash.h\<close> and \<^verbatim>\<open>lib/hash.cc\<close>: the hash table with one list per bucket, which grows four
  times when it holds three items per bucket. The buckets are lists with the operations
  \<open>absl_\<dots>\<close> of \<open>NachosList\<close>. The table is shown to implement a finite map from keys to items:
  \<open>key_table\<close> is the interface, and \<open>ht\<close> its interpretation on the hash table.
\<close>

section \<open>The table\<close>

definition InitialBuckets :: int where "InitialBuckets = 4"
definition ResizeRatio :: int where "ResizeRatio = 3"
definition IncreaseSizeBy :: int where "IncreaseSizeBy = 4"

record ('k, 'a) HashTable =
  buckets :: "'a list list"
  numBuckets :: int
  numItems :: int
  getKey :: "'a \<Rightarrow> 'k"
  hash :: "'k \<Rightarrow> 32 word"

definition HashTable_InitBuckets :: "('k, 'a) HashTable \<Rightarrow> int \<Rightarrow> ('k, 'a) HashTable" where
  "HashTable_InitBuckets t sz = t\<lparr>numBuckets := sz, buckets := replicate (nat sz) []\<rparr>"

definition HashTable_new :: "('a \<Rightarrow> 'k) \<Rightarrow> ('k \<Rightarrow> 32 word) \<Rightarrow> ('k, 'a) HashTable" where
  "HashTable_new gk hFunc =
     HashTable_InitBuckets \<lparr>buckets = [], numBuckets = 0, numItems = 0, getKey = gk, hash = hFunc\<rparr> InitialBuckets"

definition HashTable_IsEmpty :: "('k, 'a) HashTable \<Rightarrow> bool" where
  "HashTable_IsEmpty t \<longleftrightarrow> numItems t = 0"

text \<open>\<^verbatim>\<open>numBuckets\<close> is converted to \<^verbatim>\<open>unsigned\<close> for the remainder and the result back to \<^verbatim>\<open>int\<close>.\<close>

definition HashTable_HashValue :: "('k, 'a) HashTable \<Rightarrow> 'k \<Rightarrow> int result" where
  "HashTable_HashValue t key =
     (if word_of_int (numBuckets t) = (0::32 word) then Inl HostTrap
      else let result = sint (hash t key mod word_of_int (numBuckets t)) in
        rbind (ASSERT (0 \<le> result \<and> result < numBuckets t)) (\<lambda>_. Inr result))"

definition HashTable_FindInBucket :: "('k, 'a) HashTable \<Rightarrow> int \<Rightarrow> 'k \<Rightarrow> 'a option result" where
  "HashTable_FindInBucket t bucket key =
     rbind (arr_get (buckets t) bucket) (\<lambda>b. Inr (List.find (\<lambda>x. key = getKey t x) b))"

definition HashTable_Find :: "('k, 'a) HashTable \<Rightarrow> 'k \<Rightarrow> 'a option result" where
  "HashTable_Find t key =
     rbind (HashTable_HashValue t key) (\<lambda>bucket. HashTable_FindInBucket t bucket key)"

definition HashTable_IsInTable :: "('k, 'a) HashTable \<Rightarrow> 'k \<Rightarrow> bool result" where
  "HashTable_IsInTable t key = rbind (HashTable_Find t key) (\<lambda>r. Inr (r \<noteq> None))"

fun check_bucket :: "('k, 'a) HashTable \<Rightarrow> int \<Rightarrow> 'a list \<Rightarrow> unit result" where
  "check_bucket t i [] = Inr ()"
| "check_bucket t i (x # xs) =
     rbind (HashTable_HashValue t (getKey t x)) (\<lambda>v. rbind (ASSERT (i = v)) (\<lambda>_. check_bucket t i xs))"

fun check_buckets :: "('k, 'a) HashTable \<Rightarrow> int \<Rightarrow> 'a list list \<Rightarrow> int \<Rightarrow> int result" where
  "check_buckets t i [] numFound = Inr numFound"
| "check_buckets t i (b # bs) numFound =
     rbind (check_bucket t i b) (\<lambda>_. check_buckets t (i + 1) bs (numFound + int (length b)))"

definition HashTable_SanityCheck :: "('k, 'a) HashTable \<Rightarrow> unit result" where
  "HashTable_SanityCheck t =
     rbind (check_buckets t 0 (buckets t) 0) (\<lambda>numFound. ASSERT (numItems t = numFound))"

text \<open>\<^verbatim>\<open>buckets[HashValue(key)]->Append(item)\<close>.\<close>

definition append_item :: "('k, 'a) HashTable \<Rightarrow> 'a \<Rightarrow> ('k, 'a) HashTable result" where
  "append_item t x =
     rbind (HashTable_HashValue t (getKey t x)) (\<lambda>v.
     rbind (arr_get (buckets t) v) (\<lambda>b.
     rbind (absl_Append b x) (\<lambda>b'.
     rbind (arr_set (buckets t) v b') (\<lambda>bs. Inr (t\<lparr>buckets := bs\<rparr>)))))"

fun move_bucket :: "('k, 'a) HashTable \<Rightarrow> 'a list \<Rightarrow> ('k, 'a) HashTable result" where
  "move_bucket t [] = Inr t"
| "move_bucket t (x # xs) = rbind (append_item t x) (\<lambda>t1. move_bucket t1 xs)"

fun move_buckets :: "('k, 'a) HashTable \<Rightarrow> 'a list list \<Rightarrow> ('k, 'a) HashTable result" where
  "move_buckets t [] = Inr t"
| "move_buckets t (b # bs) = rbind (move_bucket t b) (\<lambda>t1. move_buckets t1 bs)"

definition HashTable_ReHash :: "('k, 'a) HashTable \<Rightarrow> ('k, 'a) HashTable result" where
  "HashTable_ReHash t =
     rbind (HashTable_SanityCheck t) (\<lambda>_.
     rbind (move_buckets (HashTable_InitBuckets t (numBuckets t * IncreaseSizeBy)) (buckets t)) (\<lambda>t1.
     rbind (HashTable_SanityCheck t1) (\<lambda>_. Inr t1)))"

definition HashTable_Insert :: "('k, 'a) HashTable \<Rightarrow> 'a \<Rightarrow> ('k, 'a) HashTable result" where
  "HashTable_Insert t item =
     (let key = getKey t item in
      rbind (HashTable_IsInTable t key) (\<lambda>b. rbind (ASSERT (\<not> b)) (\<lambda>_.
      rbind (if numBuckets t = 0 then Inl HostTrap
             else if numItems t sdiv numBuckets t \<ge> ResizeRatio then HashTable_ReHash t else Inr t) (\<lambda>t1.
      rbind (append_item t1 item) (\<lambda>t2.
      let t3 = t2\<lparr>numItems := numItems t2 + 1\<rparr> in
      rbind (HashTable_IsInTable t3 key) (\<lambda>b. rbind (ASSERT b) (\<lambda>_. Inr t3)))))))"

definition HashTable_Remove :: "('k, 'a) HashTable \<Rightarrow> 'k \<Rightarrow> ('a \<times> ('k, 'a) HashTable) result" where
  "HashTable_Remove t key =
     rbind (HashTable_HashValue t key) (\<lambda>bucket.
     rbind (HashTable_FindInBucket t bucket key) (\<lambda>found.
     (case found of None \<Rightarrow> Inl AssertFail
      | Some item \<Rightarrow>
          rbind (arr_get (buckets t) bucket) (\<lambda>b.
          rbind (absl_Remove b item) (\<lambda>b'.
          rbind (arr_set (buckets t) bucket b') (\<lambda>bs.
          let t1 = t\<lparr>buckets := bs, numItems := numItems t - 1\<rparr> in
          rbind (HashTable_IsInTable t1 key) (\<lambda>b. rbind (ASSERT (\<not> b)) (\<lambda>_. Inr (item, t1)))))))))"

text \<open>\<^verbatim>\<open>Apply\<close>: the items the function is called on, in order.\<close>

definition HashTable_Apply :: "('k, 'a) HashTable \<Rightarrow> 'a list" where
  "HashTable_Apply t = concat (buckets t)"

text \<open>The destructor asserts that the table is empty.\<close>

definition HashTable_delete :: "('k, 'a) HashTable \<Rightarrow> unit result" where
  "HashTable_delete t = ASSERT (HashTable_IsEmpty t)"

section \<open>HashIterator\<close>

fun skip_empty :: "int \<Rightarrow> 'a list list \<Rightarrow> int" where
  "skip_empty i [] = i"
| "skip_empty i (b # bs) = (if b \<noteq> [] then i else skip_empty (i + 1) bs)"

definition HashTable_FindNextFullBucket :: "('k, 'a) HashTable \<Rightarrow> int \<Rightarrow> int" where
  "HashTable_FindNextFullBucket t bucket = skip_empty bucket (drop (nat bucket) (buckets t))"

text \<open>\<open>hi_bucketIter\<close> is NULL or the items of the current bucket from the current one on.\<close>

record 'a HashIterator =
  hi_bucket :: int
  hi_bucketIter :: "'a list option"

definition enter_bucket :: "('k, 'a) HashTable \<Rightarrow> int \<Rightarrow> 'a HashIterator result" where
  "enter_bucket t bucket =
     (if bucket < numBuckets t
      then rbind (arr_get (buckets t) bucket) (\<lambda>b. Inr \<lparr>hi_bucket = bucket, hi_bucketIter = Some b\<rparr>)
      else Inr \<lparr>hi_bucket = bucket, hi_bucketIter = None\<rparr>)"

definition HashIterator_new :: "('k, 'a) HashTable \<Rightarrow> 'a HashIterator result" where
  "HashIterator_new t = enter_bucket t (HashTable_FindNextFullBucket t 0)"

definition HashIterator_IsDone :: "('k, 'a) HashTable \<Rightarrow> 'a HashIterator \<Rightarrow> bool" where
  "HashIterator_IsDone t it \<longleftrightarrow> hi_bucket it = numBuckets t"

definition HashIterator_Item :: "('k, 'a) HashTable \<Rightarrow> 'a HashIterator \<Rightarrow> 'a result" where
  "HashIterator_Item t it =
     rbind (ASSERT (\<not> HashIterator_IsDone t it)) (\<lambda>_.
     (case hi_bucketIter it of None \<Rightarrow> Inl NullDeref
      | Some [] \<Rightarrow> Inl AssertFail | Some (x # xs) \<Rightarrow> Inr x))"

definition HashIterator_Next :: "('k, 'a) HashTable \<Rightarrow> 'a HashIterator \<Rightarrow> 'a HashIterator result" where
  "HashIterator_Next t it =
     (case hi_bucketIter it of None \<Rightarrow> Inl NullDeref
      | Some [] \<Rightarrow> Inl NullDeref
      | Some (x # xs) \<Rightarrow>
          if xs = [] then enter_bucket t (HashTable_FindNextFullBucket t (hi_bucket it + 1))
          else Inr (it\<lparr>hi_bucketIter := Some xs\<rparr>))"

text \<open>\<^verbatim>\<open>for (; !iter->IsDone(); iter->Next())\<close>: the items visited, with fuel.\<close>

fun hash_iterate :: "nat \<Rightarrow> ('k, 'a) HashTable \<Rightarrow> 'a HashIterator \<Rightarrow> 'a list result" where
  "hash_iterate 0 t it = Inl Diverges"
| "hash_iterate (Suc n) t it =
     (if HashIterator_IsDone t it then Inr []
      else rbind (HashIterator_Item t it) (\<lambda>x.
        rbind (HashIterator_Next t it) (\<lambda>it1.
        rbind (hash_iterate n t it1) (\<lambda>xs. Inr (x # xs)))))"

section \<open>The self test\<close>

fun insert_items :: "('k, 'a) HashTable \<Rightarrow> 'a list \<Rightarrow> ('k, 'a) HashTable result" where
  "insert_items t [] = Inr t"
| "insert_items t (x # xs) =
     rbind (HashTable_Insert t x) (\<lambda>t1.
     rbind (HashTable_IsInTable t1 (getKey t1 x)) (\<lambda>b. rbind (ASSERT b) (\<lambda>_.
     rbind (ASSERT (\<not> HashTable_IsEmpty t1)) (\<lambda>_. insert_items t1 xs))))"

fun remove_items :: "('k, 'a) HashTable \<Rightarrow> 'a list \<Rightarrow> ('k, 'a) HashTable result" where
  "remove_items t [] = Inr t"
| "remove_items t (x # xs) =
     rbind (HashTable_Remove t (getKey t x)) (\<lambda>(y, t1).
     rbind (ASSERT (y = x)) (\<lambda>_. remove_items t1 xs))"

definition HashTable_SelfTest :: "('k, 'a) HashTable \<Rightarrow> 'a list \<Rightarrow> ('k, 'a) HashTable result" where
  "HashTable_SelfTest t p =
     rbind (HashIterator_new t) (\<lambda>iterator.
     rbind (HashTable_SanityCheck t) (\<lambda>_.
     rbind (ASSERT (HashTable_IsEmpty t)) (\<lambda>_.
     rbind (ASSERT (HashIterator_IsDone t iterator)) (\<lambda>_.
     rbind (insert_items t p) (\<lambda>t1.
     rbind (remove_items t1 p) (\<lambda>t2.
     rbind (ASSERT (HashTable_IsEmpty t2)) (\<lambda>_.
     rbind (HashTable_SanityCheck t2) (\<lambda>_. Inr t2))))))))"

section \<open>Invariant and the map the table stands for\<close>

definition bucket_of :: "('k, 'a) HashTable \<Rightarrow> 'k \<Rightarrow> nat" where
  "bucket_of t k = unat (hash t k) mod length (buckets t)"

definition ht_items :: "('k, 'a) HashTable \<Rightarrow> 'a list" where
  "ht_items t = concat (buckets t)"

definition ht_placed :: "('k, 'a) HashTable \<Rightarrow> bool" where
  "ht_placed t \<longleftrightarrow> numBuckets t = int (length (buckets t)) \<and> buckets t \<noteq> [] \<and> numBuckets t < 2 ^ 31
     \<and> (\<forall>i<length (buckets t). \<forall>x\<in>set (buckets t ! i). bucket_of t (getKey t x) = i)"

definition ht_wf :: "('k, 'a) HashTable \<Rightarrow> bool" where
  "ht_wf t \<longleftrightarrow> ht_placed t \<and> numItems t = int (length (ht_items t)) \<and> distinct (map (getKey t) (ht_items t))"

definition ht_map :: "('k, 'a) HashTable \<Rightarrow> 'k \<rightharpoonup> 'a" where
  "ht_map t = map_of (map (\<lambda>x. (getKey t x, x)) (ht_items t))"

lemma bucket_of_less: "ht_placed t \<Longrightarrow> bucket_of t k < length (buckets t)"
  by (simp add: ht_placed_def bucket_of_def)

lemma HashValue_placed:
  assumes "ht_placed t"
  shows "HashTable_HashValue t k = Inr (int (bucket_of t k))"
proof -
  let ?n = "word_of_int (numBuckets t) :: 32 word"
  have n: "0 < length (buckets t)" "int (length (buckets t)) < 2 ^ 31" "numBuckets t = int (length (buckets t))"
    using assms by (auto simp: ht_placed_def)
  have u: "uint ?n = numBuckets t"
    by (rule uint_word_of_small_int) (use n in auto)
  have "uint (hash t k mod ?n) = int (bucket_of t k)"
    using n u by (simp add: uint_mod bucket_of_def zmod_int)
  moreover have "bucket_of t k < length (buckets t)"
    by (rule bucket_of_less [OF assms])
  moreover have "?n \<noteq> 0"
    using u n by auto
  ultimately show ?thesis
    using n by (simp add: HashTable_HashValue_def sint_uint signed_take_bit_int_eq_self)
qed

lemma ht_items_split:
  "b < length (buckets t) \<Longrightarrow>
   ht_items t = concat (take b (buckets t)) @ buckets t ! b @ concat (drop (Suc b) (buckets t))"
  unfolding ht_items_def by (subst id_take_nth_drop [of b]) simp_all

lemma in_ht_items: "x \<in> set (ht_items t) \<longleftrightarrow> (\<exists>i<length (buckets t). x \<in> set (buckets t ! i))"
  unfolding ht_items_def by (auto simp: in_set_conv_nth) (metis nth_mem)+

lemma ht_placed_mem:
  "ht_placed t \<Longrightarrow> x \<in> set (ht_items t) \<longleftrightarrow> x \<in> set (buckets t ! bucket_of t (getKey t x))"
  using bucket_of_less [of t] unfolding in_ht_items by (auto simp: ht_placed_def)

lemma ht_map_Some_iff:
  "ht_wf t \<Longrightarrow> ht_map t k = Some x \<longleftrightarrow> x \<in> set (ht_items t) \<and> getKey t x = k"
  by (auto simp: ht_wf_def ht_map_def map_of_eq_Some_iff comp_def)

lemma ht_map_None_iff: "ht_map t k = None \<longleftrightarrow> k \<notin> getKey t ` set (ht_items t)"
  by (auto simp: ht_map_def map_of_eq_None_iff image_image)

lemma find_bucket:
  assumes "ht_wf t"
  shows "List.find (\<lambda>x. k = getKey t x) (buckets t ! bucket_of t k) = ht_map t k"
proof (cases "List.find (\<lambda>x. k = getKey t x) (buckets t ! bucket_of t k)")
  case None
  have "getKey t x \<noteq> k" if "x \<in> set (ht_items t)" for x
    using None that ht_placed_mem [of t x] assms by (auto simp: find_None_iff ht_wf_def)
  then have "ht_map t k = None"
    by (auto simp: ht_map_None_iff)
  with None show ?thesis by simp
next
  case (Some x)
  then have "x \<in> set (buckets t ! bucket_of t k)" "getKey t x = k"
    by (auto simp: find_Some_iff)
  then have "ht_map t k = Some x"
    using assms ht_placed_mem [of t x] by (auto simp: ht_map_Some_iff ht_wf_def)
  with Some show ?thesis by simp
qed

lemma FindInBucket_wf: "ht_wf t \<Longrightarrow> HashTable_FindInBucket t (int (bucket_of t k)) k = Inr (ht_map t k)"
  using bucket_of_less [of t k] by (simp add: HashTable_FindInBucket_def find_bucket ht_wf_def)

lemma Find_wf: "ht_wf t \<Longrightarrow> HashTable_Find t k = Inr (ht_map t k)"
  by (simp add: HashTable_Find_def FindInBucket_wf HashValue_placed ht_wf_def)

lemma IsInTable_wf: "ht_wf t \<Longrightarrow> HashTable_IsInTable t k = Inr (ht_map t k \<noteq> None)"
  by (simp add: HashTable_IsInTable_def Find_wf)

subsection \<open>The sanity check\<close>

lemma check_bucket_placed:
  "ht_placed t \<Longrightarrow> \<forall>x\<in>set xs. int (bucket_of t (getKey t x)) = i \<Longrightarrow> check_bucket t i xs = Inr ()"
  by (induction xs) (auto simp: HashValue_placed)

lemma check_buckets_placed:
  "ht_placed t \<Longrightarrow> \<forall>j<length bs. \<forall>x\<in>set (bs ! j). int (bucket_of t (getKey t x)) = i + int j \<Longrightarrow>
   check_buckets t i bs n = Inr (n + int (length (concat bs)))"
proof (induction bs arbitrary: i n)
  case Nil
  then show ?case by simp
next
  case (Cons b bs)
  have "check_bucket t i b = Inr ()"
    using Cons.prems(2) by (intro check_bucket_placed [OF Cons.prems(1)]) force
  moreover have "\<forall>j<length bs. \<forall>x\<in>set (bs ! j). int (bucket_of t (getKey t x)) = i + 1 + int j"
  proof (intro allI impI ballI)
    fix j x
    assume "j < length bs" "x \<in> set (bs ! j)"
    then show "int (bucket_of t (getKey t x)) = i + 1 + int j"
      using Cons.prems(2) [rule_format, of "Suc j" x] by simp
  qed
  ultimately show ?case
    using Cons.IH [OF Cons.prems(1), of "i + 1"] by simp
qed

lemma SanityCheck_wf:
  "ht_placed t \<Longrightarrow> numItems t = int (length (ht_items t)) \<Longrightarrow> HashTable_SanityCheck t = Inr ()"
  using check_buckets_placed [of t "buckets t" 0 0]
  by (simp add: HashTable_SanityCheck_def ht_placed_def ht_items_def)

subsection \<open>Appending an item to its bucket, rehashing\<close>

text \<open>\<open>same_conf\<close>: two tables with the same functions and the same number of buckets.\<close>

definition same_conf :: "('k, 'a) HashTable \<Rightarrow> ('k, 'a) HashTable \<Rightarrow> bool" where
  "same_conf t t' \<longleftrightarrow> getKey t' = getKey t \<and> hash t' = hash t \<and> numBuckets t' = numBuckets t
     \<and> length (buckets t') = length (buckets t)"

lemma same_conf_bucket_of: "same_conf t t' \<Longrightarrow> bucket_of t' k = bucket_of t k"
  by (simp add: same_conf_def bucket_of_def)

lemma placed_update:
  assumes "ht_placed t" and "b < length (buckets t)" and "\<forall>x\<in>set ys. bucket_of t (getKey t x) = b"
    and "t' = t\<lparr>buckets := (buckets t)[b := ys], numItems := n\<rparr>"
  shows "ht_placed t'" "same_conf t t'"
    "mset (ht_items t') + mset (buckets t ! b) = mset (ht_items t) + mset ys"
proof -
  show c: "same_conf t t'"
    by (simp add: same_conf_def assms(4))
  show "ht_placed t'"
    using assms same_conf_bucket_of [OF c] by (auto simp: ht_placed_def nth_list_update)
  have "ht_items t' = concat (take b (buckets t)) @ ys @ concat (drop (Suc b) (buckets t))"
    using assms(2,4) by (simp add: ht_items_def upd_conv_take_nth_drop)
  then show "mset (ht_items t') + mset (buckets t ! b) = mset (ht_items t) + mset ys"
    using ht_items_split [OF assms(2)] by simp
qed

lemma append_item_placed:
  assumes p: "ht_placed t" and x: "x \<notin> set (ht_items t)"
  shows "\<exists>t'. append_item t x = Inr t' \<and> ht_placed t' \<and> same_conf t t' \<and> numItems t' = numItems t
    \<and> mset (ht_items t') = add_mset x (mset (ht_items t))"
proof -
  let ?b = "bucket_of t (getKey t x)"
  let ?t = "t\<lparr>buckets := (buckets t)[?b := buckets t ! ?b @ [x]], numItems := numItems t\<rparr>"
  have b: "?b < length (buckets t)"
    by (rule bucket_of_less [OF p])
  have new: "\<forall>y\<in>set (buckets t ! ?b @ [x]). bucket_of t (getKey t y) = ?b"
    using p b by (auto simp: ht_placed_def)
  have "x \<notin> set (buckets t ! ?b)"
    using x ht_placed_mem [OF p] by blast
  then have "append_item t x = Inr ?t"
    using b by (simp add: append_item_def HashValue_placed [OF p] absl_Append_def)
  then show ?thesis
    using placed_update [OF p b new refl, of "numItems t"] by auto
qed

lemma move_bucket_placed:
  "ht_placed t \<Longrightarrow> distinct (ht_items t @ xs) \<Longrightarrow>
   \<exists>t'. move_bucket t xs = Inr t' \<and> ht_placed t' \<and> same_conf t t' \<and> numItems t' = numItems t
     \<and> mset (ht_items t') = mset (ht_items t) + mset xs"
proof (induction xs arbitrary: t)
  case Nil
  then show ?case by (auto simp: same_conf_def)
next
  case (Cons x xs)
  obtain t1 where t1: "append_item t x = Inr t1" "ht_placed t1" "same_conf t t1" "numItems t1 = numItems t"
    "mset (ht_items t1) = add_mset x (mset (ht_items t))"
    using append_item_placed [of t x] Cons.prems by auto
  have "mset (ht_items t1 @ xs) = mset (ht_items t @ x # xs)"
    using t1(5) by simp
  then have "distinct (ht_items t1 @ xs)"
    using Cons.prems(2) mset_eq_imp_distinct_iff by blast
  from Cons.IH [OF t1(2) this] show ?case
    using t1 by (auto simp: same_conf_def)
qed

lemma move_bucket_append: "move_bucket t (xs @ ys) = rbind (move_bucket t xs) (\<lambda>u. move_bucket u ys)"
  by (induction xs arbitrary: t) (simp_all add: rbind_assoc)

lemma move_buckets_eq: "move_buckets t bs = move_bucket t (concat bs)"
  by (induction bs arbitrary: t) (simp_all add: move_bucket_append)

lemma ht_wf_distinct: "ht_wf t \<Longrightarrow> distinct (ht_items t)"
  by (simp add: ht_wf_def distinct_map)

lemma ReHash_wf:
  assumes w: "ht_wf t" and small: "numBuckets t < 2 ^ 29"
  shows "\<exists>t'. HashTable_ReHash t = Inr t' \<and> ht_wf t' \<and> mset (ht_items t') = mset (ht_items t)
    \<and> getKey t' = getKey t \<and> hash t' = hash t \<and> numBuckets t' = 4 * numBuckets t"
proof -
  define t0 where "t0 = HashTable_InitBuckets t (numBuckets t * IncreaseSizeBy)"
  have t0: "ht_placed t0" "ht_items t0 = []" "getKey t0 = getKey t" "hash t0 = hash t"
    "numItems t0 = numItems t" "numBuckets t0 = 4 * numBuckets t"
    using w small by (auto simp: t0_def HashTable_InitBuckets_def IncreaseSizeBy_def ht_wf_def ht_placed_def ht_items_def)
  obtain t1 where t1: "move_buckets t0 (buckets t) = Inr t1" "ht_placed t1" "same_conf t0 t1"
    "numItems t1 = numItems t" "mset (ht_items t1) = mset (ht_items t)"
    using move_bucket_placed [OF t0(1), of "ht_items t"] t0(2,5) ht_wf_distinct [OF w]
    by (auto simp: move_buckets_eq simp flip: ht_items_def)
  have "mset (map (getKey t) (ht_items t1)) = mset (map (getKey t) (ht_items t))" "length (ht_items t1) = length (ht_items t)"
    using t1(5) by (simp, metis size_mset)
  then have "ht_wf t1"
    using w t0 t1 mset_eq_imp_distinct_iff by (fastforce simp: ht_wf_def same_conf_def)
  then show ?thesis
    using w t0 t1 SanityCheck_wf [of t] SanityCheck_wf [of t1]
    by (simp add: HashTable_ReHash_def ht_wf_def same_conf_def flip: t0_def)
qed

lemma ht_map_mset:
  assumes "ht_wf t" and "ht_wf t'" and "getKey t' = getKey t" and "set (ht_items t') = set (ht_items t)"
  shows "ht_map t' = ht_map t"
proof
  fix k
  show "ht_map t' k = ht_map t k"
    using assms by (metis ht_map_Some_iff not_Some_eq)
qed

lemma ht_map_insert:
  assumes "ht_wf t" and "ht_wf t'" and "getKey t' = getKey t" and "set (ht_items t') = insert x (set (ht_items t))"
    and "ht_map t (getKey t x) = None"
  shows "ht_map t' = (ht_map t)(getKey t x \<mapsto> x)"
proof
  fix k
  show "ht_map t' k = ((ht_map t)(getKey t x \<mapsto> x)) k"
  proof (cases "k = getKey t x")
    case True
    then show ?thesis
      using assms ht_map_Some_iff [OF assms(2), of k x] by simp
  next
    case False
    then have "ht_map t' k = Some y \<longleftrightarrow> ht_map t k = Some y" for y
      using assms(3,4) by (auto simp: ht_map_Some_iff [OF assms(1)] ht_map_Some_iff [OF assms(2)])
    then show ?thesis
      using False by (metis fun_upd_other option.exhaust)
  qed
qed

subsection \<open>Insert and Remove\<close>

lemma Insert_wf:
  assumes w: "ht_wf t" and new: "ht_map t (getKey t x) = None" and small: "numBuckets t < 2 ^ 29"
  shows "\<exists>t'. HashTable_Insert t x = Inr t' \<and> ht_wf t' \<and> ht_map t' = (ht_map t)(getKey t x \<mapsto> x)
    \<and> getKey t' = getKey t \<and> numItems t' = numItems t + 1
    \<and> numBuckets t' = (if numItems t sdiv numBuckets t \<ge> ResizeRatio then 4 * numBuckets t else numBuckets t)"
proof -
  define r where "r = (if numBuckets t = 0 then Inl HostTrap
      else if numItems t sdiv numBuckets t \<ge> ResizeRatio then HashTable_ReHash t else Inr t)"
  have nb: "numBuckets t \<noteq> 0"
    using w by (simp add: ht_wf_def ht_placed_def)
  obtain t1 where t1: "r = Inr t1" "ht_wf t1" "mset (ht_items t1) = mset (ht_items t)" "getKey t1 = getKey t"
    "numBuckets t1 = (if numItems t sdiv numBuckets t \<ge> ResizeRatio then 4 * numBuckets t else numBuckets t)"
    using ReHash_wf [OF w small] w nb by (cases "numItems t sdiv numBuckets t \<ge> ResizeRatio") (auto simp: r_def)
  have set1: "set (ht_items t1) = set (ht_items t)"
    using t1(3) by (rule mset_eq_setD)
  have k: "getKey t x \<notin> getKey t ` set (ht_items t1)"
    using new by (simp add: ht_map_None_iff set1)
  then have "x \<notin> set (ht_items t1)" by blast
  then obtain t2 where t2: "append_item t1 x = Inr t2" "ht_placed t2" "same_conf t1 t2" "numItems t2 = numItems t1"
    "mset (ht_items t2) = add_mset x (mset (ht_items t1))"
    using append_item_placed [of t1 x] t1(2) by (auto simp: ht_wf_def)
  define t3 where "t3 = t2\<lparr>numItems := numItems t2 + 1\<rparr>"
  have it: "ht_items t3 = ht_items t2" "getKey t3 = getKey t" "numItems t3 = numItems t1 + 1" "numBuckets t3 = numBuckets t1"
    "ht_placed t3"
    using t1(4) t2 by (auto simp: t3_def ht_items_def same_conf_def ht_placed_def bucket_of_def)
  have "size (mset (ht_items t2)) = Suc (size (mset (ht_items t1)))"
    unfolding t2(5) by simp
  moreover have "mset (map (getKey t) (ht_items t3)) = mset (map (getKey t) (x # ht_items t1))"
    using t2(5) it(1) by simp
  moreover have "distinct (map (getKey t) (x # ht_items t1))"
    using k t1(2,4) by (simp add: ht_wf_def)
  ultimately have w3: "ht_wf t3"
    using it t1(2) mset_eq_imp_distinct_iff unfolding ht_wf_def by fastforce
  have "set (ht_items t3) = insert x (set (ht_items t1))"
    using t2(5) it(1) by (metis set_mset_add_mset_insert set_mset_mset)
  then have m: "ht_map t3 = (ht_map t)(getKey t x \<mapsto> x)"
    using ht_map_insert [OF w w3 it(2)] set1 new by simp
  have "numItems t1 = numItems t"
    using w t1(2,3) unfolding ht_wf_def by (metis size_mset)
  moreover have "HashTable_Insert t x = Inr t3"
    using t1(1,4) t2(1) new IsInTable_wf [OF w] IsInTable_wf [OF w3] m
    by (simp add: HashTable_Insert_def Let_def t3_def flip: r_def)
  ultimately show ?thesis
    using w3 m it t1(5) by simp
qed

lemma HT_Insert_dup:
  "ht_wf t \<Longrightarrow> ht_map t (getKey t x) \<noteq> None \<Longrightarrow> HashTable_Insert t x = Inl AssertFail"
  using IsInTable_wf [of t "getKey t x"]
  by (cases "ht_map t (getKey t x)") (simp_all add: HashTable_Insert_def Let_def)

lemma HT_Remove_absent: "ht_wf t \<Longrightarrow> ht_map t k = None \<Longrightarrow> HashTable_Remove t k = Inl AssertFail"
  using FindInBucket_wf [of t k] HashValue_placed [of t k] by (simp add: HashTable_Remove_def ht_wf_def)

lemma ht_map_delete:
  assumes "ht_wf t" and "ht_wf t'" and "getKey t' = getKey t" and "x \<in> set (ht_items t)"
    and "set (ht_items t') = set (ht_items t) - {x}"
  shows "ht_map t' = (ht_map t)(getKey t x := None)"
proof
  fix k
  have inj: "y = x" if "y \<in> set (ht_items t)" "getKey t y = getKey t x" for y
    using assms(1,4) that by (auto simp: ht_wf_def distinct_map dest: inj_onD)
  show "ht_map t' k = ((ht_map t)(getKey t x := None)) k"
  proof (cases "k = getKey t x")
    case True
    have "getKey t x \<notin> getKey t ` (set (ht_items t) - {x})"
      using inj by auto
    then have "ht_map t' k = None"
      using assms(3,5) True by (simp add: ht_map_None_iff)
    then show ?thesis
      using True by simp
  next
    case False
    then have "ht_map t' k = Some y \<longleftrightarrow> ht_map t k = Some y" for y
      using assms(3,5) by (auto simp: ht_map_Some_iff [OF assms(1)] ht_map_Some_iff [OF assms(2)])
    then show ?thesis
      using False by (metis fun_upd_other option.exhaust)
  qed
qed

lemma Remove_wf:
  assumes w: "ht_wf t" and k: "ht_map t k = Some x"
  shows "\<exists>t'. HashTable_Remove t k = Inr (x, t') \<and> ht_wf t' \<and> ht_map t' = (ht_map t)(k := None)
    \<and> getKey t' = getKey t \<and> numItems t' = numItems t - 1 \<and> numBuckets t' = numBuckets t"
proof -
  let ?b = "bucket_of t k"
  define t1 where "t1 = t\<lparr>buckets := (buckets t)[?b := remove1 x (buckets t ! ?b)], numItems := numItems t - 1\<rparr>"
  have p: "ht_placed t" and key: "getKey t x = k" "x \<in> set (ht_items t)"
    using w k by (auto simp: ht_wf_def ht_map_Some_iff [OF w])
  have b: "?b < length (buckets t)"
    by (rule bucket_of_less [OF p])
  have xb: "x \<in> set (buckets t ! ?b)"
    using key ht_placed_mem [OF p, of x] by simp
  have db: "distinct (buckets t ! ?b)"
    using ht_wf_distinct [OF w] ht_items_split [OF b] by simp
  have "\<forall>y\<in>set (remove1 x (buckets t ! ?b)). bucket_of t (getKey t y) = ?b"
    using p b by (auto simp: ht_placed_def dest!: notin_set_remove1 [rotated])
  note u = placed_update [OF p b this t1_def]
  have "mset (buckets t ! ?b) = add_mset x (mset (remove1 x (buckets t ! ?b)))"
    using xb by simp
  then have "mset (ht_items t1) + add_mset x (mset (remove1 x (buckets t ! ?b))) =
      mset (ht_items t) + mset (remove1 x (buckets t ! ?b))"
    using u(3) by metis
  then have ms: "add_mset x (mset (ht_items t1)) = mset (ht_items t)"
    by (simp del: mset_remove1)
  then have "mset (ht_items t1) = mset (remove1 x (ht_items t))"
    by (metis add_mset_remove_trivial mset_remove1)
  then have st: "set (ht_items t1) = set (ht_items t) - {x}"
    using ht_wf_distinct [OF w] mset_eq_setD set_remove1_eq by metis
  have "size (mset (ht_items t)) = Suc (size (mset (ht_items t1)))"
    unfolding ms [symmetric] by simp
  moreover have "mset (map (getKey t) (x # ht_items t1)) = mset (map (getKey t) (ht_items t))"
    using ms by (metis image_mset_add_mset list.simps(9) mset.simps(2) mset_map)
  then have "distinct (map (getKey t) (x # ht_items t1))"
    using w mset_eq_imp_distinct_iff unfolding ht_wf_def by blast
  ultimately have w1: "ht_wf t1"
    using u(1) w by (simp add: ht_wf_def t1_def)
  have m: "ht_map t1 = (ht_map t)(k := None)"
    using ht_map_delete [OF w w1 _ key(2) st] key(1) by (simp add: t1_def)
  have "HashTable_Remove t k = Inr (x, t1)"
    using FindInBucket_wf [OF w, of k] HashValue_placed [OF p, of k] k b xb db IsInTable_wf [OF w1, of k] m
    by (simp add: HashTable_Remove_def absl_Remove_def Let_def t1_def)
  then show ?thesis
    using w1 m by (simp add: t1_def)
qed

subsection \<open>The iterator visits every item once\<close>

definition iter_rest :: "('k, 'a) HashTable \<Rightarrow> 'a HashIterator \<Rightarrow> 'a list" where
  "iter_rest t it = (case hi_bucketIter it of None \<Rightarrow> []
     | Some xs \<Rightarrow> xs @ concat (drop (Suc (nat (hi_bucket it))) (buckets t)))"

definition iter_ok :: "('k, 'a) HashTable \<Rightarrow> 'a HashIterator \<Rightarrow> bool" where
  "iter_ok t it \<longleftrightarrow> (hi_bucket it = numBuckets t \<and> hi_bucketIter it = None)
     \<or> (0 \<le> hi_bucket it \<and> hi_bucket it < numBuckets t \<and> (\<exists>x xs. hi_bucketIter it = Some (x # xs)))"

lemma skip_empty_spec:
  "\<exists>j\<le>length bs. skip_empty i bs = i + int j \<and> concat bs = concat (drop j bs)
     \<and> (j < length bs \<longrightarrow> bs ! j \<noteq> [])"
proof (induction bs arbitrary: i)
  case Nil
  then show ?case by simp
next
  case (Cons b bs)
  show ?case
  proof (cases "b = []")
    case True
    from Cons.IH [of "i + 1"] obtain j where "j \<le> length bs" "skip_empty (i + 1) bs = i + 1 + int j"
      "concat bs = concat (drop j bs)" "j < length bs \<longrightarrow> bs ! j \<noteq> []"
      by blast
    then show ?thesis
      using True by (intro exI [of _ "Suc j"]) auto
  qed (auto intro: exI [of _ 0])
qed

lemma enter_bucket_spec:
  assumes n: "numBuckets t = int (length (buckets t))" and i: "i \<le> length (buckets t)"
  shows "\<exists>it. enter_bucket t (HashTable_FindNextFullBucket t (int i)) = Inr it \<and> iter_ok t it
    \<and> iter_rest t it = concat (drop i (buckets t))"
proof -
  from skip_empty_spec [of "drop i (buckets t)" "int i"] obtain j where
    j: "j \<le> length (buckets t) - i" "skip_empty (int i) (drop i (buckets t)) = int i + int j"
      "concat (drop i (buckets t)) = concat (drop (j + i) (buckets t))"
      "j < length (buckets t) - i \<longrightarrow> buckets t ! (i + j) \<noteq> []"
    using i by (auto simp: add.commute)
  have e: "HashTable_FindNextFullBucket t (int i) = int (i + j)"
    using j(2) by (simp add: HashTable_FindNextFullBucket_def)
  show ?thesis
  proof (cases "i + j < length (buckets t)")
    case True
    have "enter_bucket t (int (i + j)) = Inr \<lparr>hi_bucket = int (i + j), hi_bucketIter = Some (buckets t ! (i + j))\<rparr>"
      using True n by (simp add: enter_bucket_def del: of_nat_add)
    moreover have "concat (drop i (buckets t)) = buckets t ! (i + j) @ concat (drop (Suc (i + j)) (buckets t))"
      using True j(3) Cons_nth_drop_Suc [of "i + j" "buckets t"] by (metis add.commute concat.simps(2))
    moreover have "\<exists>x xs. buckets t ! (i + j) = x # xs"
      using True j(4) i by (cases "buckets t ! (i + j)") auto
    ultimately show ?thesis
      unfolding e using True n by (auto simp: iter_ok_def iter_rest_def nat_add_distrib)
  next
    case False
    then show ?thesis
      unfolding e using j(1,3) i n by (auto simp: enter_bucket_def iter_ok_def iter_rest_def add.commute)
  qed
qed

lemma hash_iterate_spec:
  assumes n: "numBuckets t = int (length (buckets t))"
  shows "iter_ok t it \<Longrightarrow> length (iter_rest t it) < fuel \<Longrightarrow> hash_iterate fuel t it = Inr (iter_rest t it)"
proof (induction fuel arbitrary: it)
  case 0
  then show ?case by simp
next
  case (Suc fuel)
  show ?case
  proof (cases "hi_bucket it = numBuckets t")
    case True
    then show ?thesis
      using Suc.prems by (auto simp: HashIterator_IsDone_def iter_ok_def iter_rest_def)
  next
    case False
    then obtain x xs where it: "hi_bucketIter it = Some (x # xs)" "0 \<le> hi_bucket it" "hi_bucket it < numBuckets t"
      using Suc.prems(1) by (auto simp: iter_ok_def)
    let ?i = "Suc (nat (hi_bucket it))"
    have i: "?i \<le> length (buckets t)" "int ?i = hi_bucket it + 1"
      using it n by auto
    have "\<exists>it1. HashIterator_Next t it = Inr it1 \<and> iter_ok t it1 \<and> iter_rest t it = x # iter_rest t it1"
    proof (cases "xs = []")
      case True
      then show ?thesis
        using enter_bucket_spec [OF n i(1), unfolded i(2)] it
        by (auto simp: HashIterator_Next_def iter_rest_def [of t it])
    next
      case False
      then show ?thesis
        using it by (auto simp: HashIterator_Next_def iter_rest_def iter_ok_def neq_Nil_conv)
    qed
    then show ?thesis
      using Suc.IH Suc.prems(2) it False by (auto simp: HashIterator_IsDone_def HashIterator_Item_def)
  qed
qed

section \<open>The interface: a finite map\<close>

datatype ('k, 'v) tabop = TInsert 'v | TRemove 'k | TFind 'k

text \<open>The operations on a map from keys to items; \<open>Find\<close> and \<open>Remove\<close> return an item, if any.\<close>

fun map_step :: "('v \<Rightarrow> 'k) \<Rightarrow> ('k \<rightharpoonup> 'v) \<Rightarrow> ('k, 'v) tabop \<Rightarrow> ('v option option \<times> ('k \<rightharpoonup> 'v)) result" where
  "map_step key m (TInsert x) = (if m (key x) = None then Inr (None, m(key x \<mapsto> x)) else Inl AssertFail)"
| "map_step key m (TRemove k) =
     (case m k of None \<Rightarrow> Inl AssertFail | Some x \<Rightarrow> Inr (Some (Some x), m(k := None)))"
| "map_step key m (TFind k) = Inr (Some (m k), m)"

fun ht_step :: "('k, 'a) HashTable \<Rightarrow> ('k, 'a) tabop \<Rightarrow> ('a option option \<times> ('k, 'a) HashTable) result" where
  "ht_step t (TInsert x) = rbind (HashTable_Insert t x) (\<lambda>t1. Inr (None, t1))"
| "ht_step t (TRemove k) = rbind (HashTable_Remove t k) (\<lambda>(x, t1). Inr (Some (Some x), t1))"
| "ht_step t (TFind k) = rbind (HashTable_Find t k) (\<lambda>r. Inr (Some r, t))"

text \<open>
  \<open>cap t n\<close>: \<open>n\<close> more operations cannot make the table outgrow the host's integers.
\<close>

locale key_table =
  fixes wf :: "'t \<Rightarrow> bool"
    and lookup :: "'t \<Rightarrow> 'k \<rightharpoonup> 'v"
    and key :: "'v \<Rightarrow> 'k"
    and cap :: "'t \<Rightarrow> nat \<Rightarrow> bool"
    and step :: "'t \<Rightarrow> ('k, 'v) tabop \<Rightarrow> ('v option option \<times> 't) result"
  assumes step_refines: "wf t \<Longrightarrow> cap t (Suc n) \<Longrightarrow>
    rsim (\<lambda>t m. wf t \<and> lookup t = m \<and> cap t n) (step t p) (map_step key (lookup t) p)"
begin

lemma run_refines:
  "wf t \<Longrightarrow> cap t (length ps) \<Longrightarrow>
   rsim (\<lambda>t m. wf t \<and> lookup t = m \<and> cap t 0) (run_ops step t ps) (run_ops (map_step key) (lookup t) ps)"
proof (induction ps arbitrary: t)
  case Nil
  then show ?case by simp
next
  case (Cons p ps)
  from step_refines [of t "length ps" p] Cons.prems have
    "rsim (\<lambda>t m. wf t \<and> lookup t = m \<and> cap t (length ps)) (step t p) (map_step key (lookup t) p)"
    by simp
  then show ?case
  proof (cases rule: rsim_cases)
    case (fault e)
    then show ?thesis by simp
  next
    case (ok v t1 m1)
    from Cons.IH [of t1] ok(3) have
      "rsim (\<lambda>t m. wf t \<and> lookup t = m \<and> cap t 0) (run_ops step t1 ps) (run_ops (map_step key) (lookup t1) ps)"
      by simp
    then show ?thesis
      by (cases rule: rsim_cases) (use ok in auto)
  qed
qed

lemma key_neq: "distinct (map key (x # xs)) \<Longrightarrow> y \<in> set xs \<Longrightarrow> key y \<noteq> key x"
  by (metis distinct.simps(2) image_eqI list.simps(9) set_map)

lemma map_inserts:
  "distinct (map key xs) \<Longrightarrow> \<forall>x\<in>set xs. m (key x) = None \<Longrightarrow>
   run_ops (map_step key) m (map TInsert xs @ ps) = run_ops (map_step key) (m ++ map_of (map (\<lambda>x. (key x, x)) xs)) ps"
proof (induction xs arbitrary: m)
  case Nil
  then show ?case by simp
next
  case (Cons x xs)
  have "key x \<notin> dom (map_of (map (\<lambda>x. (key x, x)) xs))"
    using Cons.prems(1) by (simp add: dom_map_of_conv_image_fst image_image)
  then have e: "m(key x \<mapsto> x) ++ map_of (map (\<lambda>x. (key x, x)) xs) = m ++ map_of (map (\<lambda>x. (key x, x)) (x # xs))"
    by (simp add: map_add_upd_left)
  have d: "distinct (map key xs)" and x: "m (key x) = None"
    using Cons.prems by simp_all
  have "\<forall>y\<in>set xs. (m(key x \<mapsto> x)) (key y) = None"
    using Cons.prems(2) key_neq [OF Cons.prems(1)] by simp
  then have ih: "run_ops (map_step key) (m(key x \<mapsto> x)) (map TInsert xs @ ps) =
      run_ops (map_step key) (m(key x \<mapsto> x) ++ map_of (map (\<lambda>x. (key x, x)) xs)) ps"
    by (rule Cons.IH [OF d])
  have "run_ops (map_step key) m (map TInsert (x # xs) @ ps) =
      run_ops (map_step key) (m(key x \<mapsto> x)) (map TInsert xs @ ps)"
    using x by simp
  then show ?case
    by (simp only: ih e)
qed

lemma map_removes:
  "distinct (map key xs) \<Longrightarrow> \<forall>x\<in>set xs. m (key x) = Some x \<Longrightarrow>
   \<exists>m'. run_ops (map_step key) m (map (\<lambda>x. TRemove (key x)) xs) = Inr (map Some xs, m')"
proof (induction xs arbitrary: m)
  case Nil
  then show ?case by simp
next
  case (Cons x xs)
  have d: "distinct (map key xs)" and x: "m (key x) = Some x"
    using Cons.prems by simp_all
  have "\<forall>y\<in>set xs. (m(key x := None)) (key y) = Some y"
    using Cons.prems(2) key_neq [OF Cons.prems(1)] by simp
  from Cons.IH [OF d this] obtain m' where
    "run_ops (map_step key) (m(key x := None)) (map (\<lambda>x. TRemove (key x)) xs) = Inr (map Some xs, m')"
    by blast
  with x show ?case
    by simp
qed

text \<open>Every item put in can be taken out again by its key, whatever the order of the keys.\<close>

lemma insert_remove_all:
  assumes "wf t" and "lookup t = Map.empty" and "cap t (length xs + length ys)"
    and "distinct (map key xs)" and "mset ys = mset xs"
  shows "\<exists>t'. run_ops step t (map TInsert xs @ map (\<lambda>x. TRemove (key x)) ys) = Inr (map Some ys, t')"
proof -
  have y: "distinct (map key ys)" "set ys = set xs"
    using assms(4,5) mset_eq_setD by (metis mset_eq_imp_distinct_iff mset_map, blast)
  let ?m = "map_of (map (\<lambda>x. (key x, x)) xs)"
  have "\<forall>x\<in>set ys. ?m (key x) = Some x"
    using y(2) assms(4) by (auto simp: map_of_eq_Some_iff comp_def)
  from map_removes [OF y(1) this] obtain m' where
    "run_ops (map_step key) Map.empty (map TInsert xs @ map (\<lambda>x. TRemove (key x)) ys) = Inr (map Some ys, m')"
    using map_inserts [of xs Map.empty] assms(4) by auto
  moreover have "cap t (length (map TInsert xs @ map (\<lambda>x. TRemove (key x)) ys))"
    using assms(3) by simp
  from run_refines [OF assms(1) this] assms(2) have
    "rsim (\<lambda>t m. wf t \<and> lookup t = m \<and> cap t 0) (run_ops step t (map TInsert xs @ map (\<lambda>x. TRemove (key x)) ys))
       (run_ops (map_step key) Map.empty (map TInsert xs @ map (\<lambda>x. TRemove (key x)) ys))"
    by simp
  ultimately show ?thesis
    by (auto elim: rsim_cases)
qed

end

definition ht_cap :: "('k, 'a) HashTable \<Rightarrow> nat \<Rightarrow> bool" where
  "ht_cap t n \<longleftrightarrow> numBuckets t < 2 ^ 29 \<and> numItems t + int n \<le> 3 * 2 ^ 27"

lemma ht_cap_insert:
  assumes w: "ht_wf t" and c: "ht_cap t (Suc n)" and n: "numItems t' = numItems t + 1"
    and b: "numBuckets t' = (if numItems t sdiv numBuckets t \<ge> ResizeRatio then 4 * numBuckets t else numBuckets t)"
  shows "ht_cap t' n"
proof -
  have p: "0 < numBuckets t" "0 \<le> numItems t"
    using w by (auto simp: ht_wf_def ht_placed_def)
  have "3 * numBuckets t \<le> numItems t" if "numItems t sdiv numBuckets t \<ge> ResizeRatio"
  proof -
    have "3 \<le> numItems t div numBuckets t"
      using that p by (simp add: ResizeRatio_def sdiv_nonneg)
    then have "3 * numBuckets t \<le> numItems t div numBuckets t * numBuckets t"
      using p by simp
    also have "\<dots> \<le> numItems t"
      using p pos_mod_sign [of "numBuckets t" "numItems t"] minus_mod_eq_div_mult [of "numItems t" "numBuckets t"]
      by linarith
    finally show ?thesis .
  qed
  then show ?thesis
    using c n b unfolding ht_cap_def by (cases "numItems t sdiv numBuckets t \<ge> ResizeRatio") auto
qed

lemma ht_step_refines:
  assumes w: "ht_wf t" and g: "getKey t = gk" and c: "ht_cap t (Suc n)"
  shows "rsim (\<lambda>t m. (ht_wf t \<and> getKey t = gk) \<and> ht_map t = m \<and> ht_cap t n) (ht_step t p) (map_step gk (ht_map t) p)"
proof (cases p)
  case (TInsert x)
  show ?thesis
  proof (cases "ht_map t (gk x)")
    case None
    from Insert_wf [OF w, of x] None g c obtain t' where
      "HashTable_Insert t x = Inr t'" "ht_wf t'" "ht_map t' = (ht_map t)(gk x \<mapsto> x)" "getKey t' = gk"
      "numItems t' = numItems t + 1"
      "numBuckets t' = (if numItems t sdiv numBuckets t \<ge> ResizeRatio then 4 * numBuckets t else numBuckets t)"
      unfolding ht_cap_def by auto
    then show ?thesis
      using TInsert None ht_cap_insert [OF w c] by simp
  next
    case (Some y)
    then show ?thesis
      using TInsert HT_Insert_dup [OF w, of x] g by simp
  qed
next
  case (TRemove k)
  then show ?thesis
    using Remove_wf [OF w, of k] HT_Remove_absent [OF w, of k] g c
    by (cases "ht_map t k") (auto simp: ht_cap_def)
next
  case (TFind k)
  then show ?thesis
    using Find_wf [OF w, of k] w g c by (simp add: ht_cap_def)
qed

interpretation ht: key_table "\<lambda>t. ht_wf t \<and> getKey t = gk" ht_map gk ht_cap ht_step for gk
  by unfold_locales (use ht_step_refines in blast)

section \<open>The self test\<close>

lemma insert_items_wf:
  "ht_wf t \<Longrightarrow> ht_cap t (length xs) \<Longrightarrow> distinct (map (getKey t) xs) \<Longrightarrow>
   \<forall>x\<in>set xs. ht_map t (getKey t x) = None \<Longrightarrow>
   \<exists>t'. insert_items t xs = Inr t' \<and> ht_wf t' \<and> getKey t' = getKey t \<and> numItems t' = numItems t + int (length xs)
     \<and> (\<forall>x\<in>set xs. ht_map t' (getKey t x) = Some x) \<and> (\<forall>k. k \<notin> getKey t ` set xs \<longrightarrow> ht_map t' k = ht_map t k)"
proof (induction xs arbitrary: t)
  case Nil
  then show ?case by simp
next
  case (Cons x xs)
  have "ht_map t (getKey t x) = None" "numBuckets t < 2 ^ 29"
    using Cons.prems(2,4) by (auto simp: ht_cap_def)
  from Insert_wf [OF Cons.prems(1) this] obtain t1 where t1: "HashTable_Insert t x = Inr t1" "ht_wf t1"
    "ht_map t1 = (ht_map t)(getKey t x \<mapsto> x)" "getKey t1 = getKey t" "numItems t1 = numItems t + 1"
    "numBuckets t1 = (if numItems t sdiv numBuckets t \<ge> ResizeRatio then 4 * numBuckets t else numBuckets t)"
    by blast
  have c: "ht_cap t1 (length xs)"
    using ht_cap_insert [OF Cons.prems(1) _ t1(5,6)] Cons.prems(2) by simp
  have k: "getKey t y \<noteq> getKey t x" if "y \<in> set xs" for y
    using Cons.prems(3) that by (metis distinct.simps(2) image_eqI list.simps(9) set_map)
  have "distinct (map (getKey t1) xs)" "\<forall>y\<in>set xs. ht_map t1 (getKey t1 y) = None"
    using Cons.prems(3,4) t1(3,4) k by simp_all
  from Cons.IH [OF t1(2) c this] obtain t2 where t2: "insert_items t1 xs = Inr t2" "ht_wf t2" "getKey t2 = getKey t"
    "numItems t2 = numItems t + 1 + int (length xs)" "\<forall>y\<in>set xs. ht_map t2 (getKey t y) = Some y"
    "\<forall>k. k \<notin> getKey t ` set xs \<longrightarrow> ht_map t2 k = ht_map t1 k"
    using t1(4,5) by auto
  have "0 \<le> numItems t"
    using Cons.prems(1) by (simp add: ht_wf_def)
  then have "insert_items t (x # xs) = Inr t2"
    using t1 t2(1) IsInTable_wf [OF t1(2), of "getKey t x"] by (simp add: HashTable_IsEmpty_def)
  moreover have "ht_map t2 (getKey t x) = Some x"
    using t2(6) k t1(3) by (metis fun_upd_same imageE)
  ultimately show ?case
    using t2 t1(3) by auto
qed

lemma remove_items_wf:
  "ht_wf t \<Longrightarrow> distinct (map (getKey t) xs) \<Longrightarrow> \<forall>x\<in>set xs. ht_map t (getKey t x) = Some x \<Longrightarrow>
   \<exists>t'. remove_items t xs = Inr t' \<and> ht_wf t' \<and> numItems t' = numItems t - int (length xs)"
proof (induction xs arbitrary: t)
  case Nil
  then show ?case by simp
next
  case (Cons x xs)
  have "ht_map t (getKey t x) = Some x"
    using Cons.prems(3) by simp
  from Remove_wf [OF Cons.prems(1) this] obtain t1 where t1: "HashTable_Remove t (getKey t x) = Inr (x, t1)" "ht_wf t1"
    "ht_map t1 = (ht_map t)(getKey t x := None)" "getKey t1 = getKey t" "numItems t1 = numItems t - 1"
    by blast
  have k: "getKey t y \<noteq> getKey t x" if "y \<in> set xs" for y
    using Cons.prems(2) that by (metis distinct.simps(2) image_eqI list.simps(9) set_map)
  have "distinct (map (getKey t1) xs)" "\<forall>y\<in>set xs. ht_map t1 (getKey t1 y) = Some y"
    using Cons.prems(2,3) t1(3,4) k by simp_all
  from Cons.IH [OF t1(2) this] show ?case
    using t1 by auto
qed

lemma SelfTest_wf:
  assumes w: "ht_wf t" and e: "numItems t = 0" and c: "ht_cap t (length p)" and d: "distinct (map (getKey t) p)"
  shows "\<exists>t'. HashTable_SelfTest t p = Inr t' \<and> ht_wf t' \<and> numItems t' = 0"
proof -
  have it: "ht_items t = []" and n: "numBuckets t = int (length (buckets t))"
    using w e by (auto simp: ht_wf_def ht_placed_def)
  have m: "ht_map t = Map.empty"
    by (simp add: ht_map_def it)
  obtain iter where iter: "HashIterator_new t = Inr iter" "iter_ok t iter" "iter_rest t iter = ht_items t"
    using enter_bucket_spec [OF n, of 0] by (auto simp: HashIterator_new_def ht_items_def)
  then have "HashIterator_IsDone t iter"
    using it by (auto simp: HashIterator_IsDone_def iter_ok_def iter_rest_def)
  moreover obtain t1 where t1: "insert_items t p = Inr t1" "ht_wf t1" "getKey t1 = getKey t"
    "numItems t1 = int (length p)" "\<forall>x\<in>set p. ht_map t1 (getKey t x) = Some x"
    using insert_items_wf [OF w c d] m e by auto
  moreover obtain t2 where t2: "remove_items t1 p = Inr t2" "ht_wf t2" "numItems t2 = 0"
    using remove_items_wf [OF t1(2), of p] t1 d by auto
  moreover have "HashTable_SanityCheck t = Inr ()" "HashTable_SanityCheck t2 = Inr ()"
    using SanityCheck_wf w t2(2) by (auto simp: ht_wf_def)
  ultimately show ?thesis
    using iter(1) e by (simp add: HashTable_SelfTest_def HashTable_IsEmpty_def)
qed

lemma HashTable_new_wf [simp]:
  "ht_wf (HashTable_new gk f)" "ht_map (HashTable_new gk f) = Map.empty"
  "getKey (HashTable_new gk f) = gk" "numItems (HashTable_new gk f) = 0" "numBuckets (HashTable_new gk f) = 4"
  by (auto simp: HashTable_new_def HashTable_InitBuckets_def InitialBuckets_def ht_wf_def ht_placed_def
      ht_items_def ht_map_def)

section \<open>Properties\<close>

text \<open>C31: a hash table implements a finite map from keys to items: over any sequence of insertions,
  removals and searches, growing included, it returns what the map returns and an assertion
  fails exactly where a key is inserted twice or a missing key is removed.\<close>

theorem hash_table_refines_map:
  assumes "ht_wf t" and "ht_cap t (length ps)"
  shows "rsim (\<lambda>t' m. ht_wf t' \<and> ht_map t' = m) (run_ops ht_step t ps) (run_ops (map_step (getKey t)) (ht_map t) ps)"
proof -
  have "rsim (\<lambda>t' m. (ht_wf t' \<and> getKey t' = getKey t) \<and> ht_map t' = m \<and> ht_cap t' 0)
      (run_ops ht_step t ps) (run_ops (map_step (getKey t)) (ht_map t) ps)"
    using ht.run_refines [of t "getKey t" ps] assms by blast
  then show ?thesis
    by (cases rule: rsim_cases) auto
qed

theorem hash_table_refines_map_witness:
  "rsim (\<lambda>t' m. ht_wf t' \<and> ht_map t' = m)
     (run_ops ht_step (HashTable_new id (\<lambda>k. word_of_int k)) [TInsert (3::int), TInsert 7, TFind 3, TRemove 3, TFind 3])
     (Inr ([Some 3, Some 3, None], [7 \<mapsto> 7]))"
  using hash_table_refines_map [of "HashTable_new id (\<lambda>k. word_of_int k)" "[TInsert (3::int), TInsert 7, TFind 3, TRemove 3, TFind 3]"]
  by (simp add: ht_cap_def fun_upd_twist)

text \<open>Iterating over a table visits every item exactly once and then stops.\<close>

theorem hash_iterator_complete:
  assumes "ht_wf t"
  shows "\<exists>it. HashIterator_new t = Inr it \<and> hash_iterate (Suc (length (HashTable_Apply t))) t it = Inr (HashTable_Apply t)
    \<and> distinct (HashTable_Apply t) \<and> (\<forall>x. x \<in> set (HashTable_Apply t) \<longleftrightarrow> ht_map t (getKey t x) = Some x)"
proof -
  have n: "numBuckets t = int (length (buckets t))"
    using assms by (simp add: ht_wf_def ht_placed_def)
  obtain it where it: "HashIterator_new t = Inr it" "iter_ok t it" "iter_rest t it = ht_items t"
    using enter_bucket_spec [OF n, of 0] by (auto simp: HashIterator_new_def ht_items_def)
  show ?thesis
    using it hash_iterate_spec [OF n it(2)] ht_wf_distinct [OF assms] ht_map_Some_iff [OF assms]
    by (auto simp: HashTable_Apply_def ht_items_def simp del: hash_iterate.simps)
qed

definition sample_table :: "(int, int) HashTable" where
  "sample_table = \<lparr>buckets = [[4, 8], [], [2], []], numBuckets = 4, numItems = 3, getKey = id, hash = word_of_int\<rparr>"

lemma sample_table_wf: "ht_wf sample_table"
  by code_simp

theorem hash_iterator_complete_witness:
  "\<exists>it. HashIterator_new sample_table = Inr it \<and> hash_iterate 4 sample_table it = Inr [4, 8, 2]"
proof -
  have "HashTable_Apply sample_table = [4, 8, 2]"
    by (simp add: HashTable_Apply_def sample_table_def)
  with hash_iterator_complete [OF sample_table_wf] show ?thesis
    by (auto simp: eval_nat_numeral simp del: hash_iterate.simps)
qed

text \<open>The self test passes on every array of items with different keys: what was put in comes
  out again by its key, across the growing of the table, and the table ends empty.\<close>

theorem hash_SelfTest_passes:
  assumes "ht_wf t" and "numItems t = 0" and "ht_cap t (length p)" and "distinct (map (getKey t) p)"
  shows "\<exists>t'. HashTable_SelfTest t p = Inr t' \<and> HashTable_delete t' = Inr ()"
  using SelfTest_wf [OF assms] by (auto simp: HashTable_delete_def HashTable_IsEmpty_def)

theorem hash_SelfTest_passes_witness:
  "\<exists>t'. HashTable_SelfTest (HashTable_new id (\<lambda>k. word_of_int k)) [0..14] = Inr t' \<and> HashTable_delete t' = Inr ()"
  by (rule hash_SelfTest_passes) (simp_all add: ht_cap_def)

end
