(* ===== verification/LibTest.thy ===== *)
theory LibTest
  imports Bitmap ListRefinement HashTable
begin

text \<open>
  \<^verbatim>\<open>lib/libtest.cc\<close>: the self test of the library that the kernel runs with \<^verbatim>\<open>-K\<close>, over the
  bit map, the pointer lists and the hash table. The items of the hash table are the string
  literals of \<^verbatim>\<open>hashTestVector\<close>, which are pairwise different.
\<close>

definition IntCompare :: "int \<Rightarrow> int \<Rightarrow> int" where
  "IntCompare x y = (if x < y then - 1 else if x = y then 0 else 1)"

definition HashInt :: "int \<Rightarrow> 32 word" where
  "HashInt key = word_of_int key"

text \<open>\<^verbatim>\<open>atoi\<close>: blanks, an optional sign, then the digits up to the first other character.\<close>

definition char_code :: "char \<Rightarrow> int" where
  "char_code c = int (of_char c)"

fun atoi_digits :: "int \<Rightarrow> string \<Rightarrow> int" where
  "atoi_digits acc [] = acc"
| "atoi_digits acc (c # cs) =
     (if 48 \<le> char_code c \<and> char_code c \<le> 57 then atoi_digits (10 * acc + (char_code c - 48)) cs else acc)"

fun atoi :: "string \<Rightarrow> int" where
  "atoi [] = 0"
| "atoi (c # cs) =
     (if c = CHR '' '' \<or> (9 \<le> char_code c \<and> char_code c \<le> 13) then atoi cs
      else if c = CHR ''-'' then - atoi_digits 0 cs
      else if c = CHR ''+'' then atoi_digits 0 cs
      else atoi_digits 0 (c # cs))"

definition HashKey :: "string \<Rightarrow> int" where
  "HashKey str = atoi str"

definition listTestVector :: "int list" where
  "listTestVector = [9, 5, 7]"

definition hashTestVector :: "string list" where
  "hashTestVector = [''0'', ''1'', ''2'', ''3'', ''4'', ''5'', ''6'',
     ''7'', ''8'', ''9'', ''10'', ''11'', ''12'', ''13'', ''14'']"

definition LibSelfTest :: "unit result" where
  "LibSelfTest =
     rbind (Bitmap_new 200) (\<lambda>map0.
     rbind (Bitmap_SelfTest map0) (\<lambda>_.
     rbind (List_SelfTest listTestVector (empty_store, List_new)) (\<lambda>_.
     rbind (SortedList_SelfTest IntCompare listTestVector (empty_store, List_new)) (\<lambda>_.
     rbind (HashTable_SelfTest (HashTable_new HashKey HashInt) hashTestVector) (\<lambda>hashTable.
     HashTable_delete hashTable)))))"

lemma hashTestVector_keys: "map HashKey hashTestVector = [0..14]"
  by code_simp

lemma IntCompare_total: "\<not> IntCompare x y < 0 \<Longrightarrow> IntCompare y x \<le> 0"
  by (auto simp: IntCompare_def split: if_splits)

lemma listTestVector_tests:
  "\<exists>t. List_SelfTest listTestVector (empty_store, List_new) = Inr t"
  "\<exists>t. SortedList_SelfTest IntCompare listTestVector (empty_store, List_new) = Inr t"
  using List_SelfTest_rep [of listTestVector "(empty_store, List_new)"]
    SortedList_SelfTest_rep [of IntCompare listTestVector "(empty_store, List_new)", OF IntCompare_total]
  by (auto simp: listTestVector_def)

text \<open>the library's self test, as the kernel runs it at start-up, finishes with no assertion
  failure, no access outside an array and no NULL dereference.\<close>

theorem LibSelfTest_passes: "LibSelfTest = Inr ()"
proof -
  obtain b where "Bitmap_new 200 = Inr b" "bm_wf b" "numBits b = 200" "bits b = replicate 200 False"
    using Bitmap_new_bits [of 200] by auto
  then have "\<exists>b b'. Bitmap_new 200 = Inr b \<and> Bitmap_SelfTest b = Inr b'"
    using Bitmap_SelfTest_clear [of b] by auto
  moreover have "distinct (map HashKey hashTestVector)" "length hashTestVector = 15"
    by (simp_all add: hashTestVector_keys) (simp add: hashTestVector_def)
  then have "\<exists>t. HashTable_SelfTest (HashTable_new HashKey HashInt) hashTestVector = Inr t \<and> numItems t = 0"
    using SelfTest_wf [of "HashTable_new HashKey HashInt" hashTestVector] by (auto simp: ht_cap_def)
  ultimately show ?thesis
    using listTestVector_tests by (auto simp: LibSelfTest_def HashTable_delete_def HashTable_IsEmpty_def)
qed

end
