(* ===== verification/Disk.thy ===== *)
theory Disk
  imports Nachos_Prelude
begin

text \<open>
  \<^verbatim>\<open>machine/disk.h\<close>, \<^verbatim>\<open>machine/disk.cc\<close> and \<^verbatim>\<open>filesys/synchdisk.cc\<close>: the simulated disk with
  its latency model and track buffer, and the synchronous disk on top of it.

  The disk is a UNIX file (\<open>d_file\<close>, byte by byte, after a magic number). A request does the
  transfer at once and schedules an interrupt \<^verbatim>\<open>ticks\<close> later; the values scheduled are part of
  the result. \<^verbatim>\<open>SynchDisk\<close> waits for that interrupt on a semaphore: here the clock advances
  to the time of the interrupt and \<^verbatim>\<open>CallBack\<close> runs; nothing else happens on the disk in
  between, since \<^verbatim>\<open>SynchDisk\<close> holds its lock.
\<close>

type_synonym byte = "8 word"

definition SectorSize :: int where "SectorSize = 128"
definition SectorsPerTrack :: int where "SectorsPerTrack = 32"
definition NumTracks :: int where "NumTracks = 32"
definition NumSectors :: int where "NumSectors = SectorsPerTrack * NumTracks"
definition MagicNumber :: "32 word" where "MagicNumber = 0x456789ab"
definition MagicSize :: int where "MagicSize = 4"
definition DiskSize :: int where "DiskSize = MagicSize + NumSectors * SectorSize"
definition RotationTime :: int where "RotationTime = 500"
definition SeekTime :: int where "SeekTime = 500"

record disk =
  d_file :: "nat \<Rightarrow> byte"
  active :: bool
  lastSector :: int
  bufferInit :: int
  totalTicks :: int
  numDiskReads :: int
  numDiskWrites :: int

text \<open>
  \<^verbatim>\<open>unix\<close> is the UNIX file as \<^verbatim>\<open>OpenForReadWrite\<close> finds it, \<open>None\<close> if there is none; a new file
  reads as zero where it has not been written.
\<close>

definition word_byte :: "32 word \<Rightarrow> nat \<Rightarrow> byte" where
  "word_byte w k = ucast (drop_bit (8 * k) w)"

definition Disk_new :: "(nat \<Rightarrow> byte) option \<Rightarrow> int \<Rightarrow> disk result" where
  "Disk_new unix now =
     (let d = (\<lambda>f. \<lparr>d_file = f, active = False, lastSector = 0, bufferInit = 0, totalTicks = now,
                    numDiskReads = 0, numDiskWrites = 0\<rparr>) in
      case unix of
        Some f \<Rightarrow> rbind (ASSERT (\<forall>k\<in>{0,1,2,3}. f k = word_byte MagicNumber k)) (\<lambda>_. Inr (d f))
      | None \<Rightarrow> Inr (d (\<lambda>k. if k < 4 then word_byte MagicNumber k else 0)))"

section \<open>Latency\<close>

definition TimeToSeek :: "disk \<Rightarrow> int \<Rightarrow> int \<times> int" where
  "TimeToSeek d newSector =
     (let newTrack = newSector sdiv SectorsPerTrack;
          oldTrack = lastSector d sdiv SectorsPerTrack;
          seek = abs (newTrack - oldTrack) * SeekTime;
          over = (totalTicks d + seek) smod RotationTime in
      (seek, if over > 0 then RotationTime - over else 0))"

definition ModuloDiff :: "int \<Rightarrow> int \<Rightarrow> int" where
  "ModuloDiff to frm =
     (let toOffset = to smod SectorsPerTrack; fromOffset = frm smod SectorsPerTrack in
      ((toOffset - fromOffset) + SectorsPerTrack) smod SectorsPerTrack)"

definition ComputeLatency :: "disk \<Rightarrow> int \<Rightarrow> bool \<Rightarrow> int" where
  "ComputeLatency d newSector writing =
     (let (seek, rotation) = TimeToSeek d newSector;
          timeAfter = totalTicks d + seek + rotation in
      if \<not> writing \<and> seek = 0
         \<and> (timeAfter - bufferInit d) sdiv RotationTime > ModuloDiff newSector (bufferInit d sdiv RotationTime)
      then RotationTime
      else seek + (rotation + ModuloDiff newSector (timeAfter sdiv RotationTime) * RotationTime) + RotationTime)"

definition UpdateLast :: "disk \<Rightarrow> int \<Rightarrow> disk" where
  "UpdateLast d newSector =
     (let (seek, rotate) = TimeToSeek d newSector;
          d1 = (if seek \<noteq> 0 then d\<lparr>bufferInit := totalTicks d + seek + rotate\<rparr> else d) in
      d1\<lparr>lastSector := newSector\<rparr>)"

section \<open>Requests\<close>

definition sector_pos :: "int \<Rightarrow> nat" where
  "sector_pos n = nat (SectorSize * n + MagicSize)"

definition read_file :: "(nat \<Rightarrow> byte) \<Rightarrow> nat \<Rightarrow> nat \<Rightarrow> byte list" where
  "read_file f pos n = map f [pos..<pos + n]"

definition write_file :: "(nat \<Rightarrow> byte) \<Rightarrow> nat \<Rightarrow> byte list \<Rightarrow> nat \<Rightarrow> byte" where
  "write_file f pos bs k = (if pos \<le> k \<and> k < pos + length bs then bs ! (k - pos) else f k)"

text \<open>The data read, the disk and the delay after which the disk interrupt is scheduled.\<close>

definition Disk_ReadRequest :: "disk \<Rightarrow> int \<Rightarrow> (byte list \<times> disk \<times> int) result" where
  "Disk_ReadRequest d sectorNumber =
     (let ticks = ComputeLatency d sectorNumber False in
      rbind (ASSERT (\<not> active d)) (\<lambda>_.
      rbind (ASSERT (0 \<le> sectorNumber \<and> sectorNumber < NumSectors)) (\<lambda>_.
      let data = read_file (d_file d) (sector_pos sectorNumber) (nat SectorSize);
          d1 = UpdateLast (d\<lparr>active := True\<rparr>) sectorNumber in
      Inr (data, d1\<lparr>numDiskReads := numDiskReads d1 + 1\<rparr>, ticks))))"

text \<open>\<open>WriteFile\<close> writes \<^verbatim>\<open>SectorSize\<close> bytes from \<^verbatim>\<open>data\<close>; a shorter buffer is read past its end.\<close>

definition Disk_WriteRequest :: "disk \<Rightarrow> int \<Rightarrow> byte list \<Rightarrow> (disk \<times> int) result" where
  "Disk_WriteRequest d sectorNumber data =
     (let ticks = ComputeLatency d sectorNumber True in
      rbind (ASSERT (\<not> active d)) (\<lambda>_.
      rbind (ASSERT (0 \<le> sectorNumber \<and> sectorNumber < NumSectors)) (\<lambda>_.
      if length data < nat SectorSize then Inl OutOfBounds
      else let d1 = UpdateLast (d\<lparr>d_file := write_file (d_file d) (sector_pos sectorNumber) (take (nat SectorSize) data),
                                  active := True\<rparr>) sectorNumber in
      Inr (d1\<lparr>numDiskWrites := numDiskWrites d1 + 1\<rparr>, ticks))))"

section \<open>The synchronous disk\<close>

text \<open>
  \<^verbatim>\<open>semaphore\<close> is the value of the semaphore and \<^verbatim>\<open>lock\<close> whether the lock is held. A lock held
  when a request starts is never released in a sequential run. \<^verbatim>\<open>P\<close> returns at once if the
  semaphore is positive and waits for the disk interrupt, \<open>ticks\<close> later, otherwise.
\<close>

record SynchDisk =
  sd_disk :: disk
  semaphore :: int
  lock :: bool

definition SynchDisk_new :: "disk \<Rightarrow> SynchDisk" where
  "SynchDisk_new d = \<lparr>sd_disk = d, semaphore = 0, lock = False\<rparr>"

definition SynchDisk_CallBack :: "SynchDisk \<Rightarrow> SynchDisk" where
  "SynchDisk_CallBack sd = sd\<lparr>semaphore := semaphore sd + 1\<rparr>"

definition Disk_CallBack :: "SynchDisk \<Rightarrow> SynchDisk" where
  "Disk_CallBack sd = SynchDisk_CallBack (sd\<lparr>sd_disk := (sd_disk sd)\<lparr>active := False\<rparr>\<rparr>)"

definition wait_for_interrupt :: "int \<Rightarrow> SynchDisk \<Rightarrow> SynchDisk" where
  "wait_for_interrupt ticks sd =
     (let sd1 = (if semaphore sd > 0 then sd
                 else Disk_CallBack (sd\<lparr>sd_disk := (sd_disk sd)\<lparr>totalTicks := totalTicks (sd_disk sd) + ticks\<rparr>\<rparr>)) in
      sd1\<lparr>semaphore := semaphore sd1 - 1\<rparr>)"

definition SynchDisk_ReadSector :: "SynchDisk \<Rightarrow> int \<Rightarrow> (byte list \<times> SynchDisk) result" where
  "SynchDisk_ReadSector sd sectorNumber =
     (if lock sd then Inl Deadlock
      else let sd1 = sd\<lparr>lock := True\<rparr> in
      rbind (Disk_ReadRequest (sd_disk sd1) sectorNumber) (\<lambda>(data, d1, ticks).
      let sd2 = wait_for_interrupt ticks (sd1\<lparr>sd_disk := d1\<rparr>) in
      Inr (data, sd2\<lparr>lock := False\<rparr>)))"

definition SynchDisk_WriteSector :: "SynchDisk \<Rightarrow> int \<Rightarrow> byte list \<Rightarrow> SynchDisk result" where
  "SynchDisk_WriteSector sd sectorNumber data =
     (if lock sd then Inl Deadlock
      else let sd1 = sd\<lparr>lock := True\<rparr> in
      rbind (Disk_WriteRequest (sd_disk sd1) sectorNumber data) (\<lambda>(d1, ticks).
      let sd2 = wait_for_interrupt ticks (sd1\<lparr>sd_disk := d1\<rparr>) in
      Inr (sd2\<lparr>lock := False\<rparr>)))"

section \<open>Sectors\<close>

definition sector :: "SynchDisk \<Rightarrow> nat \<Rightarrow> byte list" where
  "sector sd n = read_file (d_file (sd_disk sd)) (sector_pos (int n)) 128"

text \<open>Between requests no request is pending, the semaphore is 0 and the lock is free.\<close>

definition idle :: "SynchDisk \<Rightarrow> bool" where
  "idle sd \<longleftrightarrow> \<not> active (sd_disk sd) \<and> semaphore sd = 0 \<and> \<not> lock sd"

lemma length_sector [simp]: "length (sector d n) = 128"
  by (simp add: sector_def read_file_def)

lemma sector_pos_int: "sector_pos (int n) = 128 * n + 4"
  by (simp add: sector_pos_def SectorSize_def MagicSize_def nat_add_distrib nat_mult_distrib)

lemma sector_eqI: "d_file (sd_disk sd') = d_file (sd_disk sd) \<Longrightarrow> sector sd' = sector sd"
  by (rule ext) (simp add: sector_def)

lemma wait_for_interrupt_idle: "semaphore sd = 0 \<Longrightarrow> lock (wait_for_interrupt t sd) = lock sd
    \<and> semaphore (wait_for_interrupt t sd) = 0 \<and> \<not> active (sd_disk (wait_for_interrupt t sd))
    \<and> d_file (sd_disk (wait_for_interrupt t sd)) = d_file (sd_disk sd)
    \<and> totalTicks (sd_disk (wait_for_interrupt t sd)) = totalTicks (sd_disk sd) + t"
  by (simp add: wait_for_interrupt_def Disk_CallBack_def SynchDisk_CallBack_def)

lemma UpdateLast_simps [simp]: "d_file (UpdateLast d n) = d_file d" "active (UpdateLast d n) = active d"
  "totalTicks (UpdateLast d n) = totalTicks d"
  by (auto simp: UpdateLast_def Let_def split: prod.splits)

lemma read_write_same: "length bs = n \<Longrightarrow> read_file (write_file f pos bs) pos n = bs"
  by (rule nth_equalityI) (simp_all add: read_file_def write_file_def)

lemma read_write_other:
  assumes "pos + n \<le> pos' \<or> pos' + length bs \<le> pos"
  shows "read_file (write_file f pos' bs) pos n = read_file f pos n"
  using assms unfolding read_file_def by (intro map_cong) (auto simp: write_file_def)

lemmas disk_consts = NumSectors_def SectorsPerTrack_def NumTracks_def SectorSize_def

lemma ReadSector_ok:
  assumes "idle sd" and "n < 1024"
  obtains sd' where "SynchDisk_ReadSector sd (int n) = Inr (sector sd n, sd')" "idle sd'" "sector sd' = sector sd"
proof -
  obtain sd' where "SynchDisk_ReadSector sd (int n) = Inr (sector sd n, sd')" "idle sd'"
    "d_file (sd_disk sd') = d_file (sd_disk sd)"
    using assms by (simp add: SynchDisk_ReadSector_def Disk_ReadRequest_def Let_def disk_consts idle_def sector_def
        wait_for_interrupt_idle)
  then show thesis
    using that sector_eqI by blast
qed

lemma WriteSector_ok:
  assumes "idle sd" and "n < 1024" and "length bs = 128"
  obtains sd' where "SynchDisk_WriteSector sd (int n) bs = Inr sd'" "idle sd'" "sector sd' = (sector sd)(n := bs)"
proof -
  obtain sd' where sd': "SynchDisk_WriteSector sd (int n) bs = Inr sd'" "idle sd'"
    "d_file (sd_disk sd') = write_file (d_file (sd_disk sd)) (128 * n + 4) bs"
    using assms by (simp add: SynchDisk_WriteSector_def Disk_WriteRequest_def Let_def disk_consts idle_def
        wait_for_interrupt_idle sector_pos_int)
  have "sector sd' = (sector sd)(n := bs)"
  proof
    fix k
    have "k \<noteq> n \<Longrightarrow> 128 * k + 4 + 128 \<le> 128 * n + 4 \<or> 128 * n + 4 + 128 \<le> 128 * k + (4::nat)"
      by linarith
    then show "sector sd' k = ((sector sd)(n := bs)) k"
      using sd'(3) assms(3) by (cases "k = n") (simp_all add: sector_def sector_pos_int read_write_same read_write_other)
  qed
  then show thesis
    using that sd' by blast
qed

lemma ReadSector_range: "idle sd \<Longrightarrow> \<not> (0 \<le> n \<and> n < 1024) \<Longrightarrow> SynchDisk_ReadSector sd n = Inl AssertFail"
  by (auto simp: SynchDisk_ReadSector_def Disk_ReadRequest_def Let_def disk_consts rbind_ASSERT idle_def)

section \<open>Where the head is when a request completes\<close>

lemma ModuloDiff_nonneg:
  assumes "0 \<le> to" and "0 \<le> frm"
  shows "ModuloDiff to frm = (to - frm) mod 32" "0 \<le> ModuloDiff to frm" "ModuloDiff to frm < 32"
proof -
  have "0 \<le> to mod 32 - frm mod 32 + 32"
    using pos_mod_bound [of 32 frm] pos_mod_sign [of 32 to] by linarith
  then have "ModuloDiff to frm = (to mod 32 - frm mod 32 + 32) mod 32"
    using assms by (simp add: ModuloDiff_def SectorsPerTrack_def smod_nonneg)
  also have "\<dots> = (to - frm) mod 32"
    by (simp add: mod_diff_eq)
  finally show "ModuloDiff to frm = (to - frm) mod 32" .
  then show "0 \<le> ModuloDiff to frm" "ModuloDiff to frm < 32"
    by simp_all
qed

lemma TimeToSeek_aligned:
  assumes "0 \<le> totalTicks d" and "TimeToSeek d n = (seek, rot)"
  shows "0 \<le> seek" "0 \<le> rot" "rot < 500" "500 dvd totalTicks d + seek + rot"
proof -
  define over where "over = (totalTicks d + seek) mod 500"
  have s: "seek = abs (n sdiv 32 - lastSector d sdiv 32) * 500" and "0 \<le> seek"
    using assms(2) by (auto simp: TimeToSeek_def Let_def SectorsPerTrack_def SeekTime_def)
  then have r: "rot = (if over > 0 then 500 - over else 0)"
    using assms by (auto simp: TimeToSeek_def Let_def SectorsPerTrack_def SeekTime_def RotationTime_def over_def smod_nonneg)
  have o: "0 \<le> over" "over < 500"
    by (simp_all add: over_def)
  show "0 \<le> seek" "0 \<le> rot" "rot < 500"
    using \<open>0 \<le> seek\<close> r o by auto
  show "500 dvd totalTicks d + seek + rot"
  proof (cases "over = 0")
    case True
    then show ?thesis using r by (simp add: over_def mod_eq_0_iff_dvd)
  next
    case False
    then have "rot = 500 - over" using r o by simp
    then have "totalTicks d + seek + rot = 500 * ((totalTicks d + seek) div 500) + 500"
      using mult_div_mod_eq [of 500 "totalTicks d + seek"] unfolding over_def by linarith
    then show ?thesis by simp
  qed
qed

text \<open>The sector numbers and times that the disk starts with and keeps: the track buffer begins at a sector boundary.\<close>

definition head_ok :: "disk \<Rightarrow> bool" where
  "head_ok d \<longleftrightarrow> 0 \<le> totalTicks d \<and> 0 \<le> lastSector d \<and> lastSector d < NumSectors \<and> 0 \<le> bufferInit d \<and> RotationTime dvd bufferInit d"

lemma Disk_new_head: "Disk_new unix now = Inr d \<Longrightarrow> 0 \<le> now \<Longrightarrow> head_ok d"
  by (auto simp: Disk_new_def head_ok_def disk_consts Let_def rbind_ASSERT split: option.splits if_splits)

lemma UpdateLast_head:
  assumes "head_ok d" and "0 \<le> n" and "n < NumSectors"
  shows "head_ok (UpdateLast d n)"
proof -
  obtain seek rot where ts: "TimeToSeek d n = (seek, rot)"
    by fastforce
  have "0 \<le> totalTicks d"
    using assms(1) by (simp add: head_ok_def)
  note al = TimeToSeek_aligned [OF this ts]
  have "head_ok (d\<lparr>bufferInit := totalTicks d + seek + rot, lastSector := n\<rparr>)" "head_ok (d\<lparr>lastSector := n\<rparr>)"
    using assms al by (simp_all add: head_ok_def RotationTime_def)
  then show ?thesis
    by (simp add: UpdateLast_def ts)
qed

text \<open>The track buffer holds the sector: it is on the current track and has begun to pass under the head since the buffer began.\<close>

definition in_track_buffer :: "disk \<Rightarrow> int \<Rightarrow> bool" where
  "in_track_buffer d n \<longleftrightarrow> n div SectorsPerTrack = lastSector d div SectorsPerTrack
     \<and> (\<exists>k. bufferInit d \<le> k * RotationTime \<and> k * RotationTime < totalTicks d \<and> k mod SectorsPerTrack = n mod SectorsPerTrack)"

lemma passed_since:
  fixes b T n :: int
  shows "(n - b) mod 32 < T - b \<longleftrightarrow> (\<exists>k. b \<le> k \<and> k < T \<and> k mod 32 = n mod 32)"
proof
  assume a: "(n - b) mod 32 < T - b"
  have "(b + (n - b) mod 32) mod 32 = n mod 32"
    by (simp add: mod_add_right_eq)
  moreover have "0 \<le> (n - b) mod 32"
    by simp
  ultimately show "\<exists>k. b \<le> k \<and> k < T \<and> k mod 32 = n mod 32"
    using a by (intro exI [of _ "b + (n - b) mod 32"]) simp
next
  assume "\<exists>k. b \<le> k \<and> k < T \<and> k mod 32 = n mod 32"
  then obtain k where k: "b \<le> k" "k < T" "k mod 32 = n mod 32"
    by blast
  then have "(n - b) mod 32 = (k - b) mod 32"
    by (metis mod_diff_left_eq)
  also have "\<dots> \<le> k - b"
    using k(1) by (intro zmod_le_nonneg_dividend) simp
  finally show "(n - b) mod 32 < T - b"
    using k(2) by simp
qed

lemma TimeToSeek_tracks:
  assumes "TimeToSeek d n = (seek, rot)" and "0 \<le> n" and "0 \<le> lastSector d"
  shows "seek = abs (n div 32 - lastSector d div 32) * 500"
  using assms by (auto simp: TimeToSeek_def Let_def SectorsPerTrack_def SeekTime_def sdiv_nonneg)

lemma tracks_bound:
  assumes "0 \<le> n" "n < 1024" "0 \<le> m" "m < (1024 :: int)"
  shows "abs (n div 32 - m div 32) \<le> 31"
proof -
  have "0 \<le> n div 32" "n div 32 \<le> 31" "0 \<le> m div 32" "m div 32 \<le> 31"
    using assms by (auto simp: pos_imp_zdiv_nonneg_iff)
  then show ?thesis
    by linarith
qed

text \<open>The test of \<^verbatim>\<open>ComputeLatency\<close> for the track buffer is the right one.\<close>

lemma track_buffer_test:
  assumes "head_ok d" and "0 \<le> n" and ts: "TimeToSeek d n = (seek, rot)" and k: "totalTicks d + seek + rot = 500 * k"
  shows "seek = 0 \<and> (totalTicks d + seek + rot - bufferInit d) sdiv 500 > ModuloDiff n (bufferInit d sdiv 500) \<longleftrightarrow> in_track_buffer d n"
proof -
  have h: "0 \<le> totalTicks d" "0 \<le> lastSector d" "0 \<le> bufferInit d"
    using assms(1) by (simp_all add: head_ok_def)
  obtain b where b: "bufferInit d = 500 * b"
    using assms(1) by (auto simp: head_ok_def RotationTime_def elim: dvdE)
  then have b0: "0 \<le> b" "bufferInit d sdiv 500 = b"
    using h(3) by (simp_all add: sdiv_nonneg)
  have "(500 * x) sdiv 500 = x" for x :: int
    by (simp add: signed_divide_int_def sgn_mult abs_mult mult_sgn_abs)
  from this [of "k - b"] have q: "(500 * k - 500 * b) sdiv 500 = k - b"
    by (simp add: right_diff_distrib)
  have s: "seek = 0 \<longleftrightarrow> n div 32 = lastSector d div 32"
    using TimeToSeek_tracks [OF ts assms(2) h(2)] by simp
  have r: "0 \<le> rot" "rot < 500"
    using TimeToSeek_aligned [OF h(1) ts] by simp_all
  have "x < k \<longleftrightarrow> x * 500 < totalTicks d" if "seek = 0" for x
    using k r that by auto
  then show ?thesis
    unfolding k b b0(2) [unfolded b] q ModuloDiff_nonneg(1) [OF assms(2) b0(1)]
    using s passed_since [of n b k] b by (auto simp: in_track_buffer_def SectorsPerTrack_def RotationTime_def)
qed

lemma ComputeLatency_cases:
  assumes "head_ok d" and "0 \<le> n" and ts: "TimeToSeek d n = (seek, rot)" and k: "totalTicks d + seek + rot = 500 * k"
  shows "ComputeLatency d n w =
    (if \<not> w \<and> in_track_buffer d n then 500 else seek + rot + ModuloDiff n k * 500 + 500)"
proof -
  have "0 \<le> k"
    using k TimeToSeek_aligned [OF _ ts] assms(1) by (simp add: head_ok_def)
  then have "(totalTicks d + seek + rot) sdiv 500 = k"
    by (simp add: k sdiv_nonneg)
  then show ?thesis
    using track_buffer_test [OF assms] ts by (auto simp: ComputeLatency_def RotationTime_def Let_def)
qed

text \<open>C28: Disk latency. A read of a sector that the track buffer holds takes the time of one sector. Every other request, and every
  write, completes at a sector boundary, exactly when the requested sector has passed under the head, and at the first such
  time after the seek: it takes the seek over the tracks between, at most the rest of the sector under the head, less than one
  rotation, and the sector itself. The clock is to be at least 32000 ticks below \<^verbatim>\<open>INT_MAX\<close>; the time of completion is then
  an \<^verbatim>\<open>int\<close>.\<close>
theorem disk_latency:
  assumes "head_ok d" and "totalTicks d + 32000 < 2 ^ 31" and "0 \<le> n" "n < NumSectors"
    and "seek = abs (n div SectorsPerTrack - lastSector d div SectorsPerTrack) * SeekTime" and "t = totalTicks d + ComputeLatency d n w"
  shows "t < 2 ^ 31 \<and> (if \<not> w \<and> in_track_buffer d n then ComputeLatency d n w = RotationTime
    else RotationTime dvd t \<and> (t div RotationTime - 1) mod SectorsPerTrack = n mod SectorsPerTrack
      \<and> seek + RotationTime \<le> ComputeLatency d n w \<and> ComputeLatency d n w < seek + (SectorsPerTrack + 1) * RotationTime)"
proof -
  obtain sk rot where ts: "TimeToSeek d n = (sk, rot)"
    by fastforce
  have h: "0 \<le> totalTicks d" "0 \<le> lastSector d" "lastSector d < 1024" "n < 1024"
    using assms(1,4) by (simp_all add: head_ok_def disk_consts)
  have seek: "sk = seek" "seek \<le> 31 * 500"
    using TimeToSeek_tracks [OF ts assms(3) h(2)] tracks_bound [OF assms(3) h(4,2,3)] assms(5)
    by (simp_all add: SectorsPerTrack_def SeekTime_def)
  note al = TimeToSeek_aligned [OF h(1) ts, unfolded seek(1)]
  obtain k where k: "totalTicks d + seek + rot = 500 * k"
    using al(4) by (elim dvdE)
  have "0 \<le> k"
    using k h(1) al(1,2) by linarith
  note md = ModuloDiff_nonneg [OF assms(3) this]
  have lat: "ComputeLatency d n w = (if \<not> w \<and> in_track_buffer d n then 500 else seek + rot + ModuloDiff n k * 500 + 500)"
    by (rule ComputeLatency_cases [OF assms(1,3) ts [unfolded seek(1)] k])
  have "t < 2 ^ 31"
    using lat seek(2) al(1-3) md(2,3) assms(2,6) by (auto split: if_splits)
  moreover have "500 dvd t \<and> (t div 500 - 1) mod 32 = n mod 32 \<and> seek + 500 \<le> ComputeLatency d n w \<and> ComputeLatency d n w < seek + 33 * 500"
    if "\<not> (\<not> w \<and> in_track_buffer d n)"
  proof -
    have l: "ComputeLatency d n w = seek + rot + ModuloDiff n k * 500 + 500"
      unfolding lat if_not_P [OF that] ..
    then have total: "t = 500 * (k + ModuloDiff n k + 1)"
      using k assms(6) by simp
    have "(k + (n - k) mod 32) mod 32 = n mod 32"
      by (simp add: mod_add_right_eq)
    then have "(t div 500 - 1) mod 32 = n mod 32"
      unfolding total md(1) by simp
    then show ?thesis
      using l al(2,3) md(2,3) unfolding total by auto
  qed
  ultimately show ?thesis
    using lat by (cases w; cases "in_track_buffer d n") (simp_all add: RotationTime_def SectorsPerTrack_def)
qed

definition blank_disk :: SynchDisk where
  "blank_disk = SynchDisk_new \<lparr>d_file = (\<lambda>k. 0), active = False, lastSector = 0, bufferInit = 0, totalTicks = 7,
     numDiskReads = 0, numDiskWrites = 0\<rparr>"

lemma blank_latency: "ComputeLatency (sd_disk blank_disk) 70 False = 3493"
  by code_simp

theorem disk_latency_witness:
  "RotationTime dvd 7 + ComputeLatency (sd_disk blank_disk) 70 False \<and> ComputeLatency (sd_disk blank_disk) 70 False = 3493
    \<and> ComputeLatency (sd_disk blank_disk) 0 False = RotationTime"
proof -
  let ?d = "sd_disk blank_disk"
  have d: "totalTicks ?d = 7" "lastSector ?d = 0" "bufferInit ?d = 0"
    by (simp_all add: blank_disk_def SynchDisk_new_def)
  then have h: "head_ok ?d" "totalTicks ?d + 32000 < 2 ^ 31"
    by (simp_all add: head_ok_def disk_consts)
  have "\<not> in_track_buffer ?d 70"
    by (simp add: in_track_buffer_def d SectorsPerTrack_def)
  moreover have "in_track_buffer ?d 0"
    unfolding in_track_buffer_def d by (intro conjI exI [of _ 0]) simp_all
  ultimately show ?thesis
    using disk_latency [OF h, where n = 70 and w = False] disk_latency [OF h, where n = 0 and w = False] blank_latency d(1)
    by (simp add: disk_consts)
qed

text \<open>On an idle synchronous disk, a sector written is read back; every other sector keeps its contents;
  reading changes no sector, and the disk is idle again after each call.\<close>
theorem SynchDisk_write_read:
  assumes "idle sd" and "n < 1024" and "length bs = 128" and "m < 1024"
  shows "\<exists>sd1 sd2. SynchDisk_WriteSector sd (int n) bs = Inr sd1 \<and> idle sd1
    \<and> SynchDisk_ReadSector sd1 (int m) = Inr (if m = n then bs else sector sd m, sd2)
    \<and> idle sd2 \<and> sector sd2 = (sector sd)(n := bs)"
proof -
  obtain sd1 where w: "SynchDisk_WriteSector sd (int n) bs = Inr sd1" "idle sd1" "sector sd1 = (sector sd)(n := bs)"
    using WriteSector_ok [OF assms(1-3)] .
  obtain sd2 where "SynchDisk_ReadSector sd1 (int m) = Inr (sector sd1 m, sd2)" "idle sd2" "sector sd2 = sector sd1"
    using ReadSector_ok [OF w(2) assms(4)] .
  then show ?thesis
    using w by (intro exI [of _ sd1] exI [of _ sd2]) simp
qed

theorem SynchDisk_write_read_witness:
  "\<exists>sd1 sd2. SynchDisk_WriteSector blank_disk (int 5) (replicate 128 1) = Inr sd1 \<and> idle sd1
    \<and> SynchDisk_ReadSector sd1 (int 5) = Inr (replicate 128 1, sd2)"
  using SynchDisk_write_read [of blank_disk 5 "replicate 128 1" 5]
  by (auto simp: idle_def blank_disk_def SynchDisk_new_def)

end
