(* ===== verification/Encoding.thy ===== *)
theory Encoding
  imports Disk
begin

text \<open>
  How the objects that the file system casts to \<^verbatim>\<open>char *\<close> lie in memory and on disk: 32-bit integers in
  the little-endian order of the host, arrays of them, and the interface \<open>flat_object\<close> of an object
  with an image of fixed size. C strings (\<open>strncmp\<close>, \<open>strncpy\<close>) are here too.
\<close>

definition word_bytes :: "32 word \<Rightarrow> byte list" where
  "word_bytes w = [ucast w, ucast (drop_bit 8 w), ucast (drop_bit 16 w), ucast (drop_bit 24 w)]"

definition bytes_word :: "byte \<Rightarrow> byte \<Rightarrow> byte \<Rightarrow> byte \<Rightarrow> 32 word" where
  "bytes_word a b c d = ucast a OR push_bit 8 (ucast b) OR push_bit 16 (ucast c) OR push_bit 24 (ucast d)"

definition words_bytes :: "32 word list \<Rightarrow> byte list" where
  "words_bytes ws = concat (map word_bytes ws)"

fun bytes_words :: "byte list \<Rightarrow> 32 word list" where
  "bytes_words (a # b # c # d # bs) = bytes_word a b c d # bytes_words bs"
| "bytes_words _ = []"

lemma bit_byte_less: "bit (w :: 8 word) n \<Longrightarrow> n < 8"
  using bit_imp_le_length [of w n] by simp

lemma length_word_bytes [simp]: "length (word_bytes w) = 4"
  by (simp add: word_bytes_def)

lemma bytes_word_bytes [simp]:
  "bytes_word (ucast w) (ucast (drop_bit 8 w)) (ucast (drop_bit 16 w)) (ucast (drop_bit 24 w)) = w"
proof (rule bit_word_eqI)
  fix n assume n: "n < LENGTH(32)"
  consider "n < 8" | "8 \<le> n" "n < 16" | "16 \<le> n" "n < 24" | "24 \<le> n"
    by linarith
  then show "bit (bytes_word (ucast w) (ucast (drop_bit 8 w)) (ucast (drop_bit 16 w)) (ucast (drop_bit 24 w))) n = bit w n"
    using n by cases (auto simp: bytes_word_def bit_simps dest: bit_byte_less)
qed

lemma bit_bytes_word:
  "bit (bytes_word a b c d) n \<longleftrightarrow> n < 32 \<and>
     (bit a n \<or> 8 \<le> n \<and> bit b (n - 8) \<or> 16 \<le> n \<and> bit c (n - 16) \<or> 24 \<le> n \<and> bit d (n - 24))"
  by (auto simp: bytes_word_def bit_simps dest: bit_byte_less bit_imp_le_length)

lemma word_bytes_word: "word_bytes (bytes_word a b c d) = [a, b, c, d]"
proof -
  have "ucast (bytes_word a b c d) = a"
    by (rule bit_word_eqI) (auto simp: bit_simps bit_bytes_word dest: bit_byte_less)
  moreover have "ucast (drop_bit 8 (bytes_word a b c d)) = b"
    by (rule bit_word_eqI) (auto simp: bit_simps bit_bytes_word dest: bit_byte_less)
  moreover have "ucast (drop_bit 16 (bytes_word a b c d)) = c"
    by (rule bit_word_eqI) (auto simp: bit_simps bit_bytes_word dest: bit_byte_less)
  moreover have "ucast (drop_bit 24 (bytes_word a b c d)) = d"
    by (rule bit_word_eqI) (auto simp: bit_simps bit_bytes_word dest: bit_byte_less)
  ultimately show ?thesis
    by (simp add: word_bytes_def)
qed

lemma words_bytes_Nil [simp]: "words_bytes [] = []"
  and words_bytes_Cons [simp]: "words_bytes (w # ws) = word_bytes w @ words_bytes ws"
  and words_bytes_append: "words_bytes (vs @ ws) = words_bytes vs @ words_bytes ws"
  by (simp_all add: words_bytes_def)

lemma length_words_bytes [simp]: "length (words_bytes ws) = 4 * length ws"
  by (induction ws) (simp_all add: word_bytes_def)

lemma bytes_words_bytes [simp]: "bytes_words (words_bytes ws) = ws"
  by (induction ws) (simp_all add: word_bytes_def)

lemma length_bytes_words [simp]: "length (bytes_words bs) = length bs div 4"
  by (induction bs rule: bytes_words.induct) simp_all

lemma words_bytes_words: "4 dvd length bs \<Longrightarrow> words_bytes (bytes_words bs) = bs"
proof (induction bs rule: bytes_words.induct)
  case (1 a b c d bs)
  then have "4 dvd length bs"
    by simp presburger
  then show ?case using 1 by (simp add: word_bytes_word)
qed (auto simp: dvd_def, presburger+)

lemma sint_word_of_int32: "int32 i \<Longrightarrow> sint (word_of_int i :: 32 word) = i"
  using signed_take_bit_int_eq_self [of 31 i] by (simp add: int32_def sint_sbintrunc')

lemma int32_sint [simp]: "int32 (sint (w :: 32 word))"
  using sint_greater_eq [of w] sint_less [of w] by (simp add: int32_def)

lemma int32_nat: "n < 2 ^ 31 \<Longrightarrow> int32 (int n)"
  by (simp add: int32_def)

lemma map_sint_words: "list_all int32 is \<Longrightarrow> map (\<lambda>i. sint (word_of_int i :: 32 word)) is = is"
  by (induction "is") (simp_all add: sint_word_of_int32)

section \<open>Objects with an image of fixed size\<close>

locale flat_object =
  fixes owf :: "'o \<Rightarrow> bool" and enc :: "'o \<Rightarrow> byte list" and dec :: "byte list \<Rightarrow> 'o" and size_of :: nat
  assumes enc_length: "owf x \<Longrightarrow> length (enc x) = size_of"
    and dec_enc: "owf x \<Longrightarrow> dec (enc x) = x"
begin

lemma enc_inject: "owf x \<Longrightarrow> owf y \<Longrightarrow> enc x = enc y \<Longrightarrow> x = y"
  by (metis dec_enc)

lemma dec_prefix: "owf x \<Longrightarrow> take size_of bs = enc x \<Longrightarrow> dec (take size_of bs) = x"
  by (simp add: dec_enc)

end

section \<open>Buffers\<close>

text \<open>\<^verbatim>\<open>bcopy(&buf[i], into, n)\<close> and \<^verbatim>\<open>bcopy(from, &buf[i], n)\<close>.\<close>

definition copy_out :: "byte list \<Rightarrow> int \<Rightarrow> int \<Rightarrow> byte list result" where
  "copy_out buf i n =
     (if i < 0 \<or> n < 0 \<or> i + n > int (length buf) then Inl OutOfBounds
      else Inr (take (nat n) (drop (nat i) buf)))"

definition copy_in :: "byte list \<Rightarrow> int \<Rightarrow> byte list \<Rightarrow> byte list result" where
  "copy_in buf i bs =
     (if i < 0 \<or> i + int (length bs) > int (length buf) then Inl OutOfBounds
      else Inr (take (nat i) buf @ bs @ drop (nat i + length bs) buf))"

lemma copy_in_ok:
  assumes "i + length bs \<le> length buf"
  obtains buf' where "copy_in buf (int i) bs = Inr buf'" "length buf' = length buf"
    "\<And>j. j < length buf \<Longrightarrow> buf' ! j = (if i \<le> j \<and> j < i + length bs then bs ! (j - i) else buf ! j)"
proof
  show "copy_in buf (int i) bs = Inr (take i buf @ bs @ drop (i + length bs) buf)"
    using assms by (simp add: copy_in_def)
qed (use assms in \<open>auto simp: nth_append\<close>)

section \<open>C strings\<close>

text \<open>
  A string is the bytes before its terminating zero. \<open>strncmp_eq\<close> is \<^verbatim>\<open>!strncmp(a, s, n)\<close> for an array
  \<open>a\<close> of at least \<open>n\<close> bytes, \<open>strncpy\<close> the first \<open>n\<close> bytes of the target of \<^verbatim>\<open>strncpy(a, s, n)\<close>.
\<close>

fun strncmp_eq :: "byte list \<Rightarrow> byte list \<Rightarrow> nat \<Rightarrow> bool" where
  "strncmp_eq as bs 0 = True"
| "strncmp_eq as bs (Suc n) =
     (case (as, bs) of
        ([], []) \<Rightarrow> True
      | ([], b # _) \<Rightarrow> b = 0
      | (a # _, []) \<Rightarrow> a = 0
      | (a # as', b # bs') \<Rightarrow> a = b \<and> (a = 0 \<or> strncmp_eq as' bs' n))"

definition strncpy :: "byte list \<Rightarrow> nat \<Rightarrow> byte list" where
  "strncpy s n = take n (s @ replicate n 0)"

lemma length_strncpy [simp]: "length (strncpy s n) = n"
  by (simp add: strncpy_def)

lemma strncmp_eq_replicate: "0 \<notin> set t \<Longrightarrow> n \<le> m \<Longrightarrow> strncmp_eq (replicate m 0 @ ys) t n \<longleftrightarrow> take n t = []"
  by (cases n; cases m; cases t) auto

text \<open>An array filled by \<open>strncpy\<close> compares equal to \<open>t\<close> iff the strings agree on their first \<open>n\<close> bytes.\<close>

lemma strncmp_strncpy:
  "0 \<notin> set s \<Longrightarrow> 0 \<notin> set t \<Longrightarrow> strncmp_eq (strncpy s n @ ys) t n \<longleftrightarrow> take n s = take n t"
proof (induction n arbitrary: s t ys)
  case 0
  then show ?case by simp
next
  case (Suc n)
  show ?case
  proof (cases s)
    case Nil
    then show ?thesis
      using strncmp_eq_replicate [OF Suc.prems(2), of "Suc n" "Suc n" ys] by (auto simp: strncpy_def)
  next
    case (Cons a s')
    have "strncpy (a # s') (Suc n) = a # strncpy s' n"
      by (simp add: strncpy_def replicate_append_same [symmetric] flip: append_assoc)
    moreover have "a \<noteq> 0"
      using Cons Suc.prems by auto
    ultimately show ?thesis
      using Suc.IH [of s' "tl t" ys] Suc.prems Cons by (cases t) auto
  qed
qed

end
