(* ===== verification/FileHdr.thy ===== *)
theory FileHdr
  imports Encoding Bitmap
begin

text \<open>
  \<^verbatim>\<open>filesys/filehdr.cc\<close>: the header (i-node) of a file, 30 direct sector numbers, its disk image of one
  sector, and the allocation of the data sectors of a file from the free map. A header that has just been
  created holds whatever was in memory: \<open>junk\<close>.
\<close>

definition NumDirect :: int where "NumDirect = (SectorSize - 2 * 4) sdiv 4"
definition MaxFileSize :: int where "MaxFileSize = NumDirect * SectorSize"

record FileHeader =
  numBytes :: int
  numSectors :: int
  dataSectors :: "int list"

text \<open>\<^verbatim>\<open>(char *) this\<close>.\<close>

definition header_bytes :: "FileHeader \<Rightarrow> byte list" where
  "header_bytes h = words_bytes (map word_of_int (numBytes h # numSectors h # dataSectors h))"

definition bytes_header :: "byte list \<Rightarrow> FileHeader" where
  "bytes_header bs =
     (let is = map sint (bytes_words bs) in
      \<lparr>numBytes = is ! 0, numSectors = is ! 1, dataSectors = drop 2 is\<rparr>)"

definition FileHeader_new :: "(nat \<Rightarrow> byte) \<Rightarrow> FileHeader" where
  "FileHeader_new junk = bytes_header (map junk [0..<nat SectorSize])"

definition FileHeader_Allocate ::
    "FileHeader \<Rightarrow> Bitmap \<Rightarrow> int \<Rightarrow> (bool \<times> FileHeader \<times> Bitmap) result" where
  "FileHeader_Allocate h freeMap fileSize =
     (let h1 = h\<lparr>numBytes := fileSize, numSectors := divRoundUp fileSize SectorSize\<rparr> in
      rbind (Bitmap_NumClear freeMap) (\<lambda>n.
      if n < numSectors h1 then Inr (False, h1, freeMap)
      else rbind (iterate_r 0 (nat (numSectors h1)) (\<lambda>i (h, b).
             rbind (Bitmap_FindAndSet b) (\<lambda>(s, b1).
             rbind (arr_set (dataSectors h) (int i) s) (\<lambda>ds.
             rbind (ASSERT (ds ! i \<ge> 0)) (\<lambda>_.
             Inr (h\<lparr>dataSectors := ds\<rparr>, b1))))) (h1, freeMap)) (\<lambda>(h2, b2).
           Inr (True, h2, b2))))"

definition FileHeader_Deallocate :: "FileHeader \<Rightarrow> Bitmap \<Rightarrow> Bitmap result" where
  "FileHeader_Deallocate h freeMap =
     iterate_r 0 (nat (numSectors h)) (\<lambda>i b.
       rbind (arr_get (dataSectors h) (int i)) (\<lambda>s.
       rbind (Bitmap_Test b s) (\<lambda>t.
       rbind (ASSERT t) (\<lambda>_. Bitmap_Clear b s)))) freeMap"

definition FileHeader_FetchFrom :: "SynchDisk \<Rightarrow> int \<Rightarrow> (FileHeader \<times> SynchDisk) result" where
  "FileHeader_FetchFrom sd n =
     rbind (SynchDisk_ReadSector sd n) (\<lambda>(data, sd1). Inr (bytes_header data, sd1))"

definition FileHeader_WriteBack :: "FileHeader \<Rightarrow> SynchDisk \<Rightarrow> int \<Rightarrow> SynchDisk result" where
  "FileHeader_WriteBack h sd n = SynchDisk_WriteSector sd n (header_bytes h)"

definition FileHeader_ByteToSector :: "FileHeader \<Rightarrow> int \<Rightarrow> int result" where
  "FileHeader_ByteToSector h offset = arr_get (dataSectors h) (offset sdiv SectorSize)"

definition FileHeader_FileLength :: "FileHeader \<Rightarrow> int" where
  "FileHeader_FileLength h = numBytes h"

text \<open>What \<^verbatim>\<open>printf\<close> writes, item by item.\<close>

datatype printed = PStr string | PInt int | PChar byte | PHex byte

fun print_bytes :: "byte list \<Rightarrow> int \<Rightarrow> int \<Rightarrow> printed list \<times> int" where
  "print_bytes [] k n = ([], k)"
| "print_bytes (b # bs) k n =
     (if k < n
      then let (out, k') = print_bytes bs (k + 1) n in
           ((if 32 \<le> b \<and> b \<le> 126 then PChar b else PHex b) # out, k')
      else ([], k))"

definition FileHeader_Print :: "FileHeader \<Rightarrow> SynchDisk \<Rightarrow> (printed list \<times> SynchDisk) result" where
  "FileHeader_Print h sd =
     rbind (iterate_r 0 (nat (numSectors h)) (\<lambda>i out.
       rbind (arr_get (dataSectors h) (int i)) (\<lambda>s. Inr (out @ [PInt s, PStr '' '']))) []) (\<lambda>blocks.
     rbind (iterate_r 0 (nat (numSectors h)) (\<lambda>i (out, k, sd).
       rbind (arr_get (dataSectors h) (int i)) (\<lambda>s.
       rbind (SynchDisk_ReadSector sd s) (\<lambda>(data, sd1).
       let (line, k1) = print_bytes data k (numBytes h) in
       Inr (out @ line @ [PStr ''\<newline>''], k1, sd1)))) ([], 0, sd)) (\<lambda>(contents, _, sd2).
     Inr (PStr ''FileHeader contents.  File size: '' # PInt (numBytes h) # PStr ''.  File blocks:\<newline>'' # blocks
            @ PStr ''\<newline>File contents:\<newline>'' # contents, sd2)))"

section \<open>Well-formed headers\<close>

lemma NumDirect_eq: "NumDirect = 30"
  by (simp add: NumDirect_def SectorSize_def)

definition hdr_wf :: "FileHeader \<Rightarrow> bool" where
  "hdr_wf h \<longleftrightarrow> length (dataSectors h) = 30 \<and> list_all int32 (numBytes h # numSectors h # dataSectors h)"

interpretation fh: flat_object hdr_wf header_bytes bytes_header 128
proof unfold_locales
  fix h assume h: "hdr_wf h"
  show "length (header_bytes h) = 128"
    using h by (simp add: header_bytes_def hdr_wf_def)
  show "bytes_header (header_bytes h) = h"
    using h map_sint_words [of "numBytes h # numSectors h # dataSectors h"]
    unfolding bytes_header_def header_bytes_def bytes_words_bytes by (simp add: hdr_wf_def comp_def)
qed

lemma bytes_header_wf: "length bs = 128 \<Longrightarrow> hdr_wf (bytes_header bs)"
  by (auto simp: bytes_header_def hdr_wf_def list_all_iff Let_def dest!: in_set_dropD)

lemma FileHeader_new_wf: "hdr_wf (FileHeader_new junk)"
  by (simp add: FileHeader_new_def bytes_header_wf SectorSize_def)

text \<open>The data sectors of a header, and a header that describes a file on the disk.\<close>

definition data_sectors :: "FileHeader \<Rightarrow> nat list" where
  "data_sectors h = map nat (take (nat (numSectors h)) (dataSectors h))"

definition hdr_ok :: "FileHeader \<Rightarrow> bool" where
  "hdr_ok h \<longleftrightarrow> hdr_wf h \<and> 0 \<le> numBytes h \<and> numSectors h = divRoundUp (numBytes h) SectorSize
     \<and> numSectors h \<le> NumDirect
     \<and> (\<forall>i < nat (numSectors h). 0 \<le> dataSectors h ! i \<and> dataSectors h ! i < NumSectors)
     \<and> distinct (data_sectors h)"

lemma hdr_ok_iff: "hdr_ok h \<longleftrightarrow> hdr_wf h \<and> 0 \<le> numBytes h \<and> numSectors h = divRoundUp (numBytes h) 128
     \<and> numSectors h \<le> 30 \<and> (\<forall>i < nat (numSectors h). 0 \<le> dataSectors h ! i \<and> dataSectors h ! i < 1024)
     \<and> distinct (data_sectors h)"
  by (simp add: hdr_ok_def NumDirect_eq disk_consts)

lemma length_data_sectors: "hdr_ok h \<Longrightarrow> length (data_sectors h) = nat (numSectors h)"
  by (auto simp: data_sectors_def hdr_ok_iff hdr_wf_def)

lemma nth_data_sectors:
  "hdr_ok h \<Longrightarrow> i < nat (numSectors h) \<Longrightarrow> dataSectors h ! i = int (data_sectors h ! i) \<and> data_sectors h ! i < 1024"
  by (auto simp: data_sectors_def hdr_ok_iff hdr_wf_def)

lemma data_sectors_less: "hdr_ok h \<Longrightarrow> s \<in> set (data_sectors h) \<Longrightarrow> s < 1024"
  using nth_data_sectors [of h] by (auto simp: in_set_conv_nth length_data_sectors)

lemma sector_index:
  assumes "hdr_ok h" and "j < nat (numBytes h)"
  shows "j div 128 < nat (numSectors h)" "j div 128 < 30"
proof -
  have "numBytes h \<le> numSectors h * 128"
    using divRoundUp_least [of "numBytes h" 128 "numSectors h"] assms by (simp add: hdr_ok_iff)
  then show "j div 128 < nat (numSectors h)"
    using assms(2) by linarith
  moreover have "nat (numSectors h) \<le> 30"
    using assms by (auto simp: hdr_ok_iff)
  ultimately show "j div 128 < 30"
    by linarith
qed

section \<open>Allocation\<close>

abbreviation used_bits :: "Bitmap \<Rightarrow> nat set" where
  "used_bits b \<equiv> bm.used b"

text \<open>A free map of the whole disk.\<close>

definition free_map :: "Bitmap \<Rightarrow> bool" where
  "free_map b \<longleftrightarrow> bm_wf b \<and> numBits b = NumSectors"

lemma free_map_iff: "free_map b \<longleftrightarrow> bm_wf b \<and> length (bits b) = 1024"
  by (auto simp: free_map_def disk_consts)

lemma used_bits_bound: "free_map b \<Longrightarrow> s \<in> used_bits b \<Longrightarrow> s < 1024"
  using true_at_less [of s "bits b"] unfolding bm.used_def free_map_iff by simp

lemma card_used_bits: "free_map b \<Longrightarrow> card (used_bits b) \<le> 1024"
  using card_mono [of "{..<1024}" "used_bits b"] used_bits_bound by force

text \<open>After \<open>k\<close> rounds of the loop of \<^verbatim>\<open>Allocate\<close>: \<open>k\<close> new sectors are in the header.\<close>

definition allocating :: "FileHeader \<Rightarrow> Bitmap \<Rightarrow> nat \<Rightarrow> FileHeader \<times> Bitmap \<Rightarrow> bool" where
  "allocating h0 b0 k = (\<lambda>(h, b). free_map b \<and> (\<exists>ss. length ss = k \<and> distinct ss \<and> set ss \<subseteq> {..<1024}
     \<and> set ss \<inter> used_bits b0 = {} \<and> used_bits b = used_bits b0 \<union> set ss
     \<and> h = h0\<lparr>dataSectors := map int ss @ drop k (dataSectors h0)\<rparr>))"

lemma allocating_find:
  assumes "allocating h0 b0 k (h, b)" and "card (used_bits b0) + k < 1024"
  obtains i b1 where "Bitmap_FindAndSet b = Inr (int i, b1)" "i < 1024" "i \<notin> used_bits b" "free_map b1"
    "used_bits b1 = insert i (used_bits b)"
proof -
  obtain ss where ss: "length ss = k" "distinct ss" "set ss \<inter> used_bits b0 = {}" "used_bits b = used_bits b0 \<union> set ss"
    and fm: "free_map b"
    using assms(1) by (auto simp: allocating_def)
  have "card (used_bits b) \<le> card (used_bits b0) + card (set ss)"
    unfolding ss(4) by (rule card_Un_le)
  then have "card (used_bits b) < length (bits b)"
    using assms(2) fm distinct_card [OF ss(2)] ss(1) by (simp add: free_map_iff)
  with fm that show thesis
    using bm.find_used [of b] unfolding free_map_iff by metis
qed

lemma allocating_step:
  assumes "allocating h0 b0 k (h, b)" and "k < length (dataSectors h0)"
    and "i < 1024" "i \<notin> used_bits b" "free_map b1" "used_bits b1 = insert i (used_bits b)"
  shows "allocating h0 b0 (Suc k) (h\<lparr>dataSectors := (dataSectors h)[k := int i]\<rparr>, b1)"
proof -
  obtain ss where ss: "length ss = k" "distinct ss" "set ss \<subseteq> {..<1024}" "set ss \<inter> used_bits b0 = {}"
    "used_bits b = used_bits b0 \<union> set ss" "h = h0\<lparr>dataSectors := map int ss @ drop k (dataSectors h0)\<rparr>"
    using assms(1) by (auto simp: allocating_def)
  have "(map int ss @ drop k (dataSectors h0))[k := int i] = map int (ss @ [i]) @ drop (Suc k) (dataSectors h0)"
    using ss(1) assms(2) by (simp add: list_update_append flip: Cons_nth_drop_Suc)
  then show ?thesis
    using ss assms(3-6) unfolding allocating_def by (auto intro!: exI [of _ "ss @ [i]"])
qed

lemma allocate_loop:
  assumes "free_map b" and "length (dataSectors h) = 30" and "n \<le> 30" and "card (used_bits b) + n \<le> 1024"
  shows "\<exists>t. iterate_r 0 n (\<lambda>i (h, b). rbind (Bitmap_FindAndSet b) (\<lambda>(s, b1).
             rbind (arr_set (dataSectors h) (int i) s) (\<lambda>ds.
             rbind (ASSERT (ds ! i \<ge> 0)) (\<lambda>_. Inr (h\<lparr>dataSectors := ds\<rparr>, b1))))) (h, b) = Inr t
     \<and> allocating h b (0 + n) t"
proof (rule iterate_r_rule)
  show "allocating h b 0 (h, b)"
    using assms(1) by (simp add: allocating_def)
next
  fix k t
  assume k: "k < 0 + n" and a: "allocating h b k t"
  obtain h1 b1 where t: "t = (h1, b1)"
    by fastforce
  have "card (used_bits b) + k < 1024"
    using k assms(4) by simp
  then obtain i b2 where i: "Bitmap_FindAndSet b1 = Inr (int i, b2)" "i < 1024" "i \<notin> used_bits b1" "free_map b2"
    "used_bits b2 = insert i (used_bits b1)"
    using allocating_find [OF a [unfolded t]] by blast
  have len: "length (dataSectors h1) = 30"
    using a k assms(2,3) by (auto simp: t allocating_def)
  then have "allocating h b (Suc k) (h1\<lparr>dataSectors := (dataSectors h1)[k := int i]\<rparr>, b2)"
    using allocating_step [OF a [unfolded t] _ i(2-5)] k assms(2,3) by simp
  then show "\<exists>u. (case t of (h, b) \<Rightarrow> rbind (Bitmap_FindAndSet b) (\<lambda>(s, b1).
             rbind (arr_set (dataSectors h) (int k) s) (\<lambda>ds.
             rbind (ASSERT (ds ! k \<ge> 0)) (\<lambda>_. Inr (h\<lparr>dataSectors := ds\<rparr>, b1))))) = Inr u
      \<and> allocating h b (Suc k) u"
    using k assms(3) len by (simp add: t i(1))
qed

lemma Allocate_full:
  assumes "free_map b" and "1024 < int (card (used_bits b)) + divRoundUp n SectorSize"
  shows "\<exists>h'. FileHeader_Allocate h b n = Inr (False, h', b)"
  using assms card_used_bits [OF assms(1)] bm.num_clear_card [of b]
  by (simp add: FileHeader_Allocate_def Let_def free_map_iff of_nat_diff)

lemma Allocate_ok:
  assumes "free_map b" and "hdr_wf h" and "0 \<le> n" "n \<le> MaxFileSize"
    and "int (card (used_bits b)) + divRoundUp n SectorSize \<le> 1024"
  obtains h' b' where "FileHeader_Allocate h b n = Inr (True, h', b')" "hdr_ok h'" "numBytes h' = n" "free_map b'"
    "set (data_sectors h') \<inter> used_bits b = {}" "used_bits b' = used_bits b \<union> set (data_sectors h')"
proof -
  define k where "k = divRoundUp n SectorSize"
  have k: "0 \<le> k" "k \<le> 30"
    using assms(3,4) divRoundUp_least [of n 128 30]
    by (auto simp: k_def MaxFileSize_def NumDirect_eq SectorSize_def divRoundUp_nonneg pos_imp_zdiv_nonneg_iff)
  define h1 where "h1 = h\<lparr>numBytes := n, numSectors := k\<rparr>"
  have "length (dataSectors h1) = 30"
    using assms(2) by (simp add: h1_def hdr_wf_def)
  moreover have "nat k \<le> 30" "card (used_bits b) + nat k \<le> 1024"
    using k assms(5) by (simp_all add: k_def)
  ultimately obtain h2 b2 where loop: "allocating h1 b (nat k) (h2, b2)"
    and it: "iterate_r 0 (nat k) (\<lambda>i (h, b). rbind (Bitmap_FindAndSet b) (\<lambda>(s, b1).
             rbind (arr_set (dataSectors h) (int i) s) (\<lambda>ds.
             rbind (ASSERT (ds ! i \<ge> 0)) (\<lambda>_. Inr (h\<lparr>dataSectors := ds\<rparr>, b1))))) (h1, b) = Inr (h2, b2)"
    using allocate_loop [OF assms(1), of h1 "nat k"] by auto
  obtain ss where ss: "length ss = nat k" "distinct ss" "set ss \<subseteq> {..<1024}" "set ss \<inter> used_bits b = {}"
    "used_bits b2 = used_bits b \<union> set ss" "h2 = h1\<lparr>dataSectors := map int ss @ drop (nat k) (dataSectors h1)\<rparr>"
    "free_map b2"
    using loop by (auto simp: allocating_def)
  have ds: "data_sectors h2 = ss"
    using ss(1) by (simp add: data_sectors_def ss(6) h1_def comp_def)
  have ints: "list_all int32 (map int ss)"
    using ss(3) by (auto simp: list_all_iff int32_def)
  have "hdr_wf h2"
    using assms(2-4) k ints \<open>nat k \<le> 30\<close> ss(1)
    by (auto simp: hdr_wf_def ss(6) h1_def list_all_iff int32_def MaxFileSize_def NumDirect_eq SectorSize_def dest: in_set_dropD)
  then have "hdr_ok h2"
    using assms(3) k ss(1-3) ds unfolding hdr_ok_iff
    by (auto simp: ss(6) h1_def k_def SectorSize_def nth_append subset_iff)
  moreover have "FileHeader_Allocate h b n = Inr (True, h2, b2)"
    using bm.num_clear_card [of b] assms(1,5) card_used_bits [OF assms(1)] it
    by (simp add: FileHeader_Allocate_def Let_def free_map_iff of_nat_diff h1_def k_def)
  ultimately show thesis
    using that ss ds by (simp add: h1_def)
qed

lemma iterate_r_add: "iterate_r i (m + n) f s = rbind (iterate_r i m f s) (iterate_r (i + m) n f)"
proof (induction m arbitrary: i s)
  case (Suc m)
  then have "iterate_r (Suc i) (m + n) f = (\<lambda>x. rbind (iterate_r (Suc i) m f x) (iterate_r (Suc i + m) n f))"
    by (rule ext)
  then show ?case by (simp add: rbind_assoc)
qed simp

lemma Deallocate_ok:
  assumes "free_map b" and "hdr_ok h" and "set (data_sectors h) \<subseteq> used_bits b"
  obtains b' where "FileHeader_Deallocate h b = Inr b'" "free_map b'"
    "used_bits b' = used_bits b - set (data_sectors h)"
proof -
  define P where "P k c \<longleftrightarrow> free_map c \<and> used_bits c = used_bits b - set (take k (data_sectors h))" for k c
  note len = length_data_sectors [OF assms(2)]
  have "\<exists>t. FileHeader_Deallocate h b = Inr t \<and> P (0 + nat (numSectors h)) t"
    unfolding FileHeader_Deallocate_def
  proof (rule iterate_r_rule)
    show "P 0 b"
      using assms(1) by (simp add: P_def)
  next
    fix k c
    assume k: "k < 0 + nat (numSectors h)" and P: "P k c"
    define s where "s = data_sectors h ! k"
    have s: "dataSectors h ! k = int s" "k < 30" "s < 1024"
      using nth_data_sectors [OF assms(2), of k] k assms(2) by (auto simp: s_def hdr_ok_iff)
    have "s \<notin> set (take k (data_sectors h))"
      using assms(2) k len unfolding hdr_ok_def s_def by (metis add_0 distinct_take id_take_nth_drop distinct.simps(2)
          distinct_append disjoint_iff list.set_intros(1))
    then have su: "s \<in> used_bits c"
      using P assms(3) k len by (auto simp: P_def s_def)
    then obtain c' where c': "Bitmap_Clear c (int s) = Inr c'" "free_map c'" "used_bits c' = used_bits c - {s}"
      using bm.clear_used [of c s] P unfolding P_def free_map_iff by metis
    have "Bitmap_Test c (int s) = Inr True"
      using bm.test_law [of c s] su P true_at_less unfolding bm.used_def P_def free_map_iff true_at_def by auto
    moreover have "arr_get (dataSectors h) (int k) = Inr (int s)"
      using s assms(2) by (simp add: hdr_ok_iff hdr_wf_def)
    moreover have "P (Suc k) c'"
      using c' P k len by (auto simp: P_def s_def take_Suc_conv_app_nth)
    ultimately show "\<exists>u. rbind (arr_get (dataSectors h) (int k)) (\<lambda>s. rbind (Bitmap_Test c s) (\<lambda>t.
        rbind (ASSERT t) (\<lambda>_. Bitmap_Clear c s))) = Inr u \<and> P (Suc k) u"
      using c' by simp
  qed
  then show thesis
    using that len by (auto simp: P_def)
qed

lemma FetchFrom_ok:
  assumes "idle sd" and "n < 1024"
  obtains sd' where "FileHeader_FetchFrom sd (int n) = Inr (bytes_header (sector sd n), sd')" "idle sd'" "sector sd' = sector sd"
proof -
  obtain sd' where "SynchDisk_ReadSector sd (int n) = Inr (sector sd n, sd')" "idle sd'" "sector sd' = sector sd"
    using ReadSector_ok [OF assms] .
  then show thesis
    using that by (simp add: FileHeader_FetchFrom_def)
qed

lemma WriteBack_ok:
  assumes "idle sd" and "n < 1024" and "hdr_wf h"
  obtains sd' where "FileHeader_WriteBack h sd (int n) = Inr sd'" "idle sd'" "sector sd' = (sector sd)(n := header_bytes h)"
  using WriteSector_ok [OF assms(1,2) fh.enc_length [OF assms(3)]] unfolding FileHeader_WriteBack_def .

section \<open>Properties of the header\<close>

text \<open>C26: With enough free sectors for a file of at most \<^verbatim>\<open>MaxFileSize\<close> bytes, \<^verbatim>\<open>Allocate\<close> gives the file the
  least number of sectors that hold it, all different, all free before and marked now; \<^verbatim>\<open>Deallocate\<close> gives
  exactly these back; and a header written to a sector is the header fetched from it.\<close>
theorem Allocate_Deallocate:
  assumes "free_map b" and "hdr_wf h" and "idle sd" and "s < 1024" and "0 \<le> n" "n \<le> MaxFileSize"
    and "int (card (used_bits b)) + divRoundUp n SectorSize \<le> NumSectors"
  shows "\<exists>h' b' b'' sd' sd''. FileHeader_Allocate h b n = Inr (True, h', b') \<and> FileHeader_FileLength h' = n
    \<and> distinct (data_sectors h') \<and> int (length (data_sectors h')) = divRoundUp n SectorSize
    \<and> set (data_sectors h') \<inter> used_bits b = {} \<and> used_bits b' = used_bits b \<union> set (data_sectors h')
    \<and> FileHeader_Deallocate h' b' = Inr b'' \<and> used_bits b'' = used_bits b
    \<and> FileHeader_WriteBack h' sd (int s) = Inr sd' \<and> FileHeader_FetchFrom sd' (int s) = Inr (h', sd'')"
proof -
  obtain h' b' where a: "FileHeader_Allocate h b n = Inr (True, h', b')" "hdr_ok h'" "numBytes h' = n" "free_map b'"
    "set (data_sectors h') \<inter> used_bits b = {}" "used_bits b' = used_bits b \<union> set (data_sectors h')"
    by (rule Allocate_ok [OF assms(1,2,5,6)]) (use assms(7) in \<open>simp_all add: disk_consts\<close>)
  obtain b'' where d: "FileHeader_Deallocate h' b' = Inr b''" "used_bits b'' = used_bits b' - set (data_sectors h')"
    using Deallocate_ok [OF a(4,2)] a(6) by blast
  have wf: "hdr_wf h'"
    using a(2) by (simp add: hdr_ok_def)
  obtain sd' where w: "FileHeader_WriteBack h' sd (int s) = Inr sd'" "idle sd'" "sector sd' = (sector sd)(s := header_bytes h')"
    using WriteBack_ok [OF assms(3,4) wf] .
  obtain sd'' where "FileHeader_FetchFrom sd' (int s) = Inr (bytes_header (sector sd' s), sd'')"
    using FetchFrom_ok [OF w(2) assms(4)] by blast
  then have "FileHeader_FetchFrom sd' (int s) = Inr (h', sd'')"
    using w(3) fh.dec_enc [OF wf] by simp
  moreover have "used_bits b'' = used_bits b"
    using a(5,6) d(2) by blast
  moreover have "int (length (data_sectors h')) = divRoundUp n SectorSize"
    using length_data_sectors [OF a(2)] a(2,3) divRoundUp_nonneg [of n 128] assms(5)
    by (auto simp: hdr_ok_def SectorSize_def pos_imp_zdiv_nonneg_iff)
  moreover have "distinct (data_sectors h')"
    using a(2) by (simp add: hdr_ok_def)
  ultimately show ?thesis
    using a d(1) w(1) unfolding FileHeader_FileLength_def by blast
qed

lemma fresh_bitmap: "Bitmap_new NumSectors = Inr b \<Longrightarrow> free_map b \<and> used_bits b = {}"
  using Bitmap_new_bits [of NumSectors] by (auto simp: free_map_def disk_consts bm.used_def)

theorem Allocate_Deallocate_witness:
  "\<exists>b h' b' b''. FileHeader_Allocate (FileHeader_new (\<lambda>k. 0)) b 300 = Inr (True, h', b')
    \<and> used_bits b = {} \<and> FileHeader_Deallocate h' b' = Inr b'' \<and> used_bits b'' = {}"
proof -
  obtain b where "Bitmap_new NumSectors = Inr b"
    using Bitmap_new_bits [of NumSectors] by (auto simp: disk_consts)
  then have b: "free_map b" "used_bits b = {}"
    using fresh_bitmap by blast+
  show ?thesis
    using Allocate_Deallocate [OF b(1) FileHeader_new_wf, of blank_disk 0 300 "\<lambda>k. 0"] b(2)
    by (auto simp: idle_def blank_disk_def SynchDisk_new_def MaxFileSize_def NumDirect_eq disk_consts divRoundUp_nonneg)
qed

text \<open>\<^verbatim>\<open>Allocate\<close> does not compare the size with \<^verbatim>\<open>MaxFileSize\<close>: for a larger file, and a disk with room for
  it, it stores sector numbers past the end of \<^verbatim>\<open>dataSectors\<close>.\<close>
theorem Allocate_overruns:
  assumes "free_map b" and "hdr_wf h" and "MaxFileSize < n"
    and "int (card (used_bits b)) + divRoundUp n SectorSize \<le> NumSectors"
  shows "FileHeader_Allocate h b n = Inl OutOfBounds"
proof -
  define k where "k = divRoundUp n SectorSize"
  define body where "body i = (\<lambda>(h :: FileHeader, b). rbind (Bitmap_FindAndSet b) (\<lambda>(s, b1).
             rbind (arr_set (dataSectors h) (int i) s) (\<lambda>ds.
             rbind (ASSERT (ds ! i \<ge> 0)) (\<lambda>_. Inr (h\<lparr>dataSectors := ds\<rparr>, b1)))))" for i :: nat
  define h1 where "h1 = h\<lparr>numBytes := n, numSectors := k\<rparr>"
  have "30 < k"
    using assms(3) divRoundUp_least [of n 128 30] by (simp add: k_def MaxFileSize_def NumDirect_eq SectorSize_def)
  then have "nat k = 30 + Suc (nat k - 31)"
    by linarith
  then obtain m where m: "nat k = 30 + Suc m" ..
  have len: "length (dataSectors h1) = 30"
    using assms(2) by (simp add: h1_def hdr_wf_def)
  have room: "card (used_bits b) + 30 < 1024"
    using assms(4) \<open>30 < k\<close> by (simp add: disk_consts k_def)
  obtain h2 b2 where loop: "allocating h1 b 30 (h2, b2)" and it: "iterate_r 0 30 body (h1, b) = Inr (h2, b2)"
    using allocate_loop [OF assms(1) len, of 30] room unfolding body_def by auto
  obtain i b3 where "Bitmap_FindAndSet b2 = Inr (int i, b3)"
    using allocating_find [OF loop room] .
  moreover have "length (dataSectors h2) = 30"
    using loop len by (auto simp: allocating_def)
  ultimately have "iterate_r 0 (nat k) body (h1, b) = Inl OutOfBounds"
    unfolding m iterate_r_add it by (simp add: body_def arr_set_def)
  then show ?thesis
    using bm.num_clear_card [of b] assms(1,4) card_used_bits [OF assms(1)]
    by (simp add: FileHeader_Allocate_def Let_def free_map_iff of_nat_diff h1_def k_def body_def [abs_def] disk_consts)
qed

theorem Allocate_overruns_witness:
  "\<exists>b. Bitmap_new NumSectors = Inr b \<and> FileHeader_Allocate (FileHeader_new (\<lambda>k. 0)) b 3841 = Inl OutOfBounds"
proof -
  obtain b where new: "Bitmap_new NumSectors = Inr b"
    using Bitmap_new_bits [of NumSectors] by (auto simp: disk_consts)
  then have b: "free_map b" "used_bits b = {}"
    using fresh_bitmap by blast+
  show ?thesis
    using Allocate_overruns [OF b(1) FileHeader_new_wf, of 3841 "\<lambda>k. 0"] b(2) new
    by (simp add: MaxFileSize_def NumDirect_eq disk_consts divRoundUp_nonneg)
qed

end
