(* ===== verification/OpenFile.thy ===== *)
theory OpenFile
  imports FileHdr
begin

text \<open>
  \<^verbatim>\<open>filesys/openfile.cc\<close> and \<^verbatim>\<open>filesys/pbitmap.cc\<close>: reading and writing any range of bytes of a file, in
  whole sectors, and the bit map kept in a file. \<open>junk\<close> is what the buffer allocated by \<^verbatim>\<open>WriteAt\<close> holds
  before it is filled.

  The bytes read are returned as a list; the number returned by the code is its length. The theorems
  compare them with \<open>file_content\<close>, the bytes of the file in the order of its sectors.
\<close>

record OpenFile =
  hdr :: FileHeader
  seekPosition :: int

definition OpenFile_new :: "SynchDisk \<Rightarrow> int \<Rightarrow> (OpenFile \<times> SynchDisk) result" where
  "OpenFile_new sd n =
     rbind (FileHeader_FetchFrom sd n) (\<lambda>(h, sd1). Inr (\<lparr>hdr = h, seekPosition = 0\<rparr>, sd1))"

definition OpenFile_Seek :: "OpenFile \<Rightarrow> int \<Rightarrow> OpenFile" where
  "OpenFile_Seek f position = f\<lparr>seekPosition := position\<rparr>"

text \<open>The loop of \<^verbatim>\<open>ReadAt\<close> over the sectors \<open>first\<close>, \<open>first + 1\<close>, \dots\ fills the buffer from its start.\<close>

definition read_sectors :: "FileHeader \<Rightarrow> SynchDisk \<Rightarrow> int \<Rightarrow> nat \<Rightarrow> (byte list \<times> SynchDisk) result" where
  "read_sectors h sd firstSector n =
     iterate_r 0 n (\<lambda>i (buf, sd).
       rbind (FileHeader_ByteToSector h ((firstSector + int i) * SectorSize)) (\<lambda>s.
       rbind (SynchDisk_ReadSector sd s) (\<lambda>(data, sd1).
       Inr (buf @ data, sd1)))) ([], sd)"

definition OpenFile_ReadAt :: "OpenFile \<Rightarrow> SynchDisk \<Rightarrow> int \<Rightarrow> int \<Rightarrow> (byte list \<times> SynchDisk) result" where
  "OpenFile_ReadAt f sd numBytes0 position =
     (let fileLength = FileHeader_FileLength (hdr f) in
      if numBytes0 \<le> 0 \<or> position \<ge> fileLength then Inr ([], sd)
      else rbind (add_int position numBytes0) (\<lambda>upto.
           let n = (if upto > fileLength then fileLength - position else numBytes0);
               firstSector = divRoundDown position SectorSize;
               lastSector = divRoundDown (position + n - 1) SectorSize;
               numSectors = 1 + lastSector - firstSector in
      rbind (read_sectors (hdr f) sd firstSector (nat numSectors)) (\<lambda>(buf, sd1).
      rbind (copy_out buf (position - firstSector * SectorSize) n) (\<lambda>into.
      Inr (into, sd1)))))"

definition write_sectors :: "FileHeader \<Rightarrow> SynchDisk \<Rightarrow> int \<Rightarrow> nat \<Rightarrow> byte list \<Rightarrow> SynchDisk result" where
  "write_sectors h sd firstSector n buf =
     iterate_r 0 n (\<lambda>i sd.
       rbind (FileHeader_ByteToSector h ((firstSector + int i) * SectorSize)) (\<lambda>s.
       SynchDisk_WriteSector sd s (take (nat SectorSize) (drop (i * nat SectorSize) buf)))) sd"

text \<open>\<^verbatim>\<open>WriteAt\<close> fills sector \<open>i\<close> of its buffer with the bytes the file has in its sector \<open>q\<close>.\<close>

definition preread :: "OpenFile \<Rightarrow> SynchDisk \<Rightarrow> byte list \<Rightarrow> int \<Rightarrow> int \<Rightarrow> (byte list \<times> SynchDisk) result" where
  "preread f sd buf i q =
     rbind (OpenFile_ReadAt f sd SectorSize (q * SectorSize)) (\<lambda>(bs, sd1).
     rbind (copy_in buf (i * SectorSize) bs) (\<lambda>buf'. Inr (buf', sd1)))"

definition OpenFile_WriteAt ::
    "(nat \<Rightarrow> byte) \<Rightarrow> OpenFile \<Rightarrow> SynchDisk \<Rightarrow> byte list \<Rightarrow> int \<Rightarrow> int \<Rightarrow> (int \<times> SynchDisk) result" where
  "OpenFile_WriteAt junk f sd data numBytes0 position =
     (let fileLength = FileHeader_FileLength (hdr f) in
      if numBytes0 \<le> 0 \<or> position \<ge> fileLength then Inr (0, sd)
      else rbind (add_int position numBytes0) (\<lambda>upto.
           let n = (if upto > fileLength then fileLength - position else numBytes0);
               firstSector = divRoundDown position SectorSize;
               lastSector = divRoundDown (position + n - 1) SectorSize;
               numSectors = 1 + lastSector - firstSector;
               buf0 = map junk [0..<nat (numSectors * SectorSize)];
               firstAligned = (position = firstSector * SectorSize);
               lastAligned = (position + n = (lastSector + 1) * SectorSize) in
      rbind (if \<not> firstAligned then preread f sd buf0 0 firstSector else Inr (buf0, sd)) (\<lambda>(buf1, sd1).
      rbind (if \<not> lastAligned \<and> (firstSector \<noteq> lastSector \<or> firstAligned)
             then preread f sd1 buf1 (lastSector - firstSector) lastSector else Inr (buf1, sd1)) (\<lambda>(buf2, sd2).
      rbind (copy_out data 0 n) (\<lambda>bs.
      rbind (copy_in buf2 (position - firstSector * SectorSize) bs) (\<lambda>buf3.
      rbind (write_sectors (hdr f) sd2 firstSector (nat numSectors) buf3) (\<lambda>sd3.
      Inr (n, sd3))))))))"

definition OpenFile_Read :: "OpenFile \<Rightarrow> SynchDisk \<Rightarrow> int \<Rightarrow> (byte list \<times> OpenFile \<times> SynchDisk) result" where
  "OpenFile_Read f sd n =
     rbind (OpenFile_ReadAt f sd n (seekPosition f)) (\<lambda>(into, sd1).
     Inr (into, f\<lparr>seekPosition := seekPosition f + int (length into)\<rparr>, sd1))"

definition OpenFile_Write ::
    "(nat \<Rightarrow> byte) \<Rightarrow> OpenFile \<Rightarrow> SynchDisk \<Rightarrow> byte list \<Rightarrow> int \<Rightarrow> (int \<times> OpenFile \<times> SynchDisk) result" where
  "OpenFile_Write junk f sd data n =
     rbind (OpenFile_WriteAt junk f sd data n (seekPosition f)) (\<lambda>(r, sd1).
     Inr (r, f\<lparr>seekPosition := seekPosition f + r\<rparr>, sd1))"

definition OpenFile_Length :: "OpenFile \<Rightarrow> int" where
  "OpenFile_Length f = FileHeader_FileLength (hdr f)"

section \<open>Bit maps in files\<close>

text \<open>\<^verbatim>\<open>(char *) map\<close>; \<^verbatim>\<open>ReadAt\<close> overwrites the bytes it reads and leaves the rest of the map.\<close>

definition map_bytes :: "Bitmap \<Rightarrow> byte list" where
  "map_bytes b = words_bytes (bm_map b)"

definition bytes_map :: "Bitmap \<Rightarrow> byte list \<Rightarrow> Bitmap" where
  "bytes_map b bs = b\<lparr>bm_map := bytes_words (bs @ drop (length bs) (map_bytes b))\<rparr>"

definition PersistentBitmap_FetchFrom :: "Bitmap \<Rightarrow> OpenFile \<Rightarrow> SynchDisk \<Rightarrow> (Bitmap \<times> SynchDisk) result" where
  "PersistentBitmap_FetchFrom b f sd =
     rbind (OpenFile_ReadAt f sd (numWords b * 4) 0) (\<lambda>(bs, sd1). Inr (bytes_map b bs, sd1))"

definition PersistentBitmap_new :: "OpenFile \<Rightarrow> SynchDisk \<Rightarrow> int \<Rightarrow> (Bitmap \<times> SynchDisk) result" where
  "PersistentBitmap_new f sd numItems =
     rbind (Bitmap_new numItems) (\<lambda>b.
     rbind (OpenFile_ReadAt f sd (numWords b * 4) 0) (\<lambda>(bs, sd1). Inr (bytes_map b bs, sd1)))"

definition PersistentBitmap_WriteBack ::
    "(nat \<Rightarrow> byte) \<Rightarrow> Bitmap \<Rightarrow> OpenFile \<Rightarrow> SynchDisk \<Rightarrow> SynchDisk result" where
  "PersistentBitmap_WriteBack junk b f sd =
     rbind (OpenFile_WriteAt junk f sd (map_bytes b) (numWords b * 4) 0) (\<lambda>(_, sd1). Inr sd1)"

section \<open>Contents of a file\<close>

definition file_byte :: "(nat \<Rightarrow> byte list) \<Rightarrow> FileHeader \<Rightarrow> nat \<Rightarrow> byte" where
  "file_byte S h j = S (data_sectors h ! (j div 128)) ! (j mod 128)"

definition file_content :: "(nat \<Rightarrow> byte list) \<Rightarrow> FileHeader \<Rightarrow> byte list" where
  "file_content S h = map (file_byte S h) [0..<nat (numBytes h)]"

lemma length_file_content [simp]: "length (file_content S h) = nat (numBytes h)"
  by (simp add: file_content_def)

lemma file_content_cong:
  assumes "hdr_ok h" and "\<And>s. s \<in> set (data_sectors h) \<Longrightarrow> S s = S' s"
  shows "file_content S h = file_content S' h"
proof -
  have "S (data_sectors h ! (j div 128)) = S' (data_sectors h ! (j div 128))" if "j < nat (numBytes h)" for j
    using assms(2) sector_index(1) [OF assms(1) that] length_data_sectors [OF assms(1)] by simp
  then show ?thesis
    by (simp add: file_content_def file_byte_def)
qed

section \<open>Reading\<close>

lemma ByteToSector_ok:
  assumes "hdr_ok h" and "q < nat (numSectors h)"
  shows "FileHeader_ByteToSector h (int q * SectorSize) = Inr (int (data_sectors h ! q))"
proof -
  have "q < length (dataSectors h)"
    using assms by (auto simp: hdr_ok_iff hdr_wf_def)
  moreover have "int q * 128 sdiv 128 = int q"
    by (simp add: sdiv_nonneg)
  ultimately show ?thesis
    using nth_data_sectors [OF assms] by (simp add: FileHeader_ByteToSector_def SectorSize_def)
qed

lemma file_byte_sector: "r < 128 \<Longrightarrow> file_byte S h (128 * q + r) = S (data_sectors h ! q) ! r"
  by (simp add: file_byte_def)

lemma read_sectors_ok:
  assumes "hdr_ok h" and "idle sd" and "q + n \<le> nat (numSectors h)"
  obtains buf sd' where "read_sectors h sd (int q) n = Inr (buf, sd')" "length buf = 128 * n"
    "\<And>j. j < 128 * n \<Longrightarrow> buf ! j = file_byte (sector sd) h (128 * q + j)" "idle sd'" "sector sd' = sector sd"
proof -
  define P where "P k = (\<lambda>(buf, sd'). idle sd' \<and> sector sd' = sector sd \<and> length buf = 128 * k
      \<and> (\<forall>j < 128 * k. buf ! j = file_byte (sector sd) h (128 * q + j)))" for k
  have "\<exists>t. read_sectors h sd (int q) n = Inr t \<and> P (0 + n) t"
    unfolding read_sectors_def
  proof (rule iterate_r_rule)
    show "P 0 ([], sd)"
      using assms(2) by (simp add: P_def)
  next
    fix k t
    assume k: "k < 0 + n" and P: "P k t"
    obtain buf sd1 where t: "t = (buf, sd1)"
      by fastforce
    have qk: "q + k < nat (numSectors h)"
      using k assms(3) by simp
    obtain sd2 where rd: "SynchDisk_ReadSector sd1 (int (data_sectors h ! (q + k))) = Inr (sector sd1 (data_sectors h ! (q + k)), sd2)"
      "idle sd2" "sector sd2 = sector sd1"
      using ReadSector_ok [of sd1 "data_sectors h ! (q + k)"] P nth_data_sectors [OF assms(1) qk] by (auto simp: P_def t)
    have "(buf @ sector sd1 (data_sectors h ! (q + k))) ! j = file_byte (sector sd) h (128 * q + j)" if "j < 128 * Suc k" for j
    proof (cases "j < 128 * k")
      case True
      then show ?thesis using P by (simp add: P_def t nth_append)
    next
      case False
      define r where "r = j - 128 * k"
      have r: "j = 128 * k + r" "r < 128"
        using False that by (simp_all add: r_def)
      then have "128 * q + j = 128 * (q + k) + r"
        by simp
      then show ?thesis
        using r P file_byte_sector [OF r(2), of "sector sd" h "q + k"] by (simp add: P_def t nth_append add.assoc)
    qed
    then have "P (Suc k) (buf @ sector sd1 (data_sectors h ! (q + k)), sd2)"
      using P rd by (simp add: P_def t)
    then show "\<exists>u. (case t of (buf, sd) \<Rightarrow> rbind (FileHeader_ByteToSector h ((int q + int k) * SectorSize)) (\<lambda>s.
        rbind (SynchDisk_ReadSector sd s) (\<lambda>(data, sd1). Inr (buf @ data, sd1)))) = Inr u \<and> P (Suc k) u"
      using ByteToSector_ok [OF assms(1) qk] rd by (simp add: t)
  qed
  then show thesis
    using that by (auto simp: P_def)
qed

text \<open>The sectors of a non-empty range of bytes of the file.\<close>

lemma range_sectors:
  assumes "hdr_ok h" and "0 < m" and "p + m \<le> nat (numBytes h)"
  shows "divRoundDown (int p) SectorSize = int (p div 128)"
    and "divRoundDown (int p + int m - 1) SectorSize = int ((p + m - 1) div 128)"
    and "p div 128 \<le> (p + m - 1) div 128"
    and "p div 128 + (Suc ((p + m - 1) div 128) - p div 128) \<le> nat (numSectors h)"
    and "p + m \<le> 128 * Suc ((p + m - 1) div 128)"
proof -
  have gen: "divRoundDown (int x) SectorSize = int (x div 128)" for x
    by (simp add: divRoundDown_nonneg SectorSize_def zdiv_int)
  have eq: "int p + int m - 1 = int (p + m - 1)"
    using assms(2) by simp
  show "divRoundDown (int p) SectorSize = int (p div 128)"
    by (rule gen)
  show "divRoundDown (int p + int m - 1) SectorSize = int ((p + m - 1) div 128)"
    unfolding eq by (rule gen)
  show *: "p div 128 \<le> (p + m - 1) div 128"
    using assms(2) by (intro div_le_mono) simp
  have "(p + m - 1) div 128 < nat (numSectors h)"
    using assms by (intro sector_index) auto
  then show "p div 128 + (Suc ((p + m - 1) div 128) - p div 128) \<le> nat (numSectors h)"
    using * by (simp del: One_nat_def)
  show "p + m \<le> 128 * Suc ((p + m - 1) div 128)"
  proof -
    obtain x where x: "p + m = Suc x"
      using assms(2) gr0_conv_Suc by auto
    have "x < 128 * Suc (x div 128)"
      using dividend_less_times_div [of 128 x] by simp
    then show ?thesis
      by (simp add: x Suc_le_eq)
  qed
qed

lemma ReadAt_inside:
  assumes "hdr_ok (hdr f)" and "idle sd" and "0 < m" and "p + m \<le> nat (numBytes (hdr f))"
    and "n = int m \<or> (int p + n > numBytes (hdr f) \<and> p + m = nat (numBytes (hdr f)))" and "0 < n"
    and "int p + n < 2 ^ 31"
  obtains sd' where "OpenFile_ReadAt f sd n (int p) = Inr (take m (drop p (file_content (sector sd) (hdr f))), sd')"
    "idle sd'" "sector sd' = sector sd"
proof -
  let ?h = "hdr f" and ?q = "p div 128" and ?l = "(p + m - 1) div 128"
  note rs = range_sectors [OF assms(1,3,4)]
  obtain buf sd' where rd: "read_sectors ?h sd (int ?q) (Suc ?l - ?q) = Inr (buf, sd')" "length buf = 128 * (Suc ?l - ?q)"
    "\<And>j. j < 128 * (Suc ?l - ?q) \<Longrightarrow> buf ! j = file_byte (sector sd) ?h (128 * ?q + j)" "idle sd'" "sector sd' = sector sd"
    using read_sectors_ok [OF assms(1,2) rs(4)] by blast
  have clip: "(if int p + n > numBytes ?h then numBytes ?h - int p else n) = int m"
    using assms(3-5) by auto
  have p: "p = 128 * ?q + p mod 128"
    by simp
  have fits: "p mod 128 + m \<le> 128 * (Suc ?l - ?q)"
  proof -
    have "128 * (Suc ?l - ?q) = 128 * Suc ?l - 128 * ?q"
      by (rule diff_mult_distrib2)
    then show ?thesis
      using rs(5) p by linarith
  qed
  have "take m (drop (p mod 128) buf) = take m (drop p (file_content (sector sd) ?h))"
  proof (rule nth_equalityI)
    show "length (take m (drop (p mod 128) buf)) = length (take m (drop p (file_content (sector sd) ?h)))"
      using add_le_imp_le_diff [OF fits [unfolded add.commute [of "p mod 128"]]] assms(4) rd(2)
      by (simp add: min_absorb2 add_le_imp_le_diff add.commute)
  next
    fix j assume "j < length (take m (drop (p mod 128) buf))"
    then have j: "j < m" "p mod 128 + j < 128 * (Suc ?l - ?q)"
      using fits by auto
    then have "buf ! (p mod 128 + j) = file_byte (sector sd) ?h (p + j)"
      using rd(3) [OF j(2)] by (simp add: add.assoc [symmetric])
    then show "take m (drop (p mod 128) buf) ! j = take m (drop p (file_content (sector sd) ?h)) ! j"
      using j fits rd(2) assms(4) by (simp add: file_content_def)
  qed
  moreover have "int p - int ?q * 128 = int (p mod 128)"
    by (simp add: zdiv_int zmod_int minus_div_mult_eq_mod)
  then have "copy_out buf (int p - int ?q * 128) (int m) = Inr (take m (drop (p mod 128) buf))"
    using fits unfolding rd(2) [symmetric] by (simp add: copy_out_def flip: of_nat_add)
  moreover have "nat (1 + int ?l - int ?q) = Suc ?l - ?q" "\<not> numBytes ?h \<le> int p"
    using assms(3,4) by simp_all
  moreover have add: "add_int (int p) n = Inr (int p + n)"
    using assms(6,7) by simp
  ultimately have "OpenFile_ReadAt f sd n (int p) = Inr (take m (drop p (file_content (sector sd) ?h)), sd')"
    using assms(3,4,6) rd(1) rs(1,2) clip
    unfolding OpenFile_ReadAt_def FileHeader_FileLength_def add rbind_Inr Let_def clip
    by (simp add: SectorSize_def)
  then show thesis
    using that rd(4,5) by blast
qed

text \<open>The sum \<^verbatim>\<open>position + numBytes\<close> is computed only when \<^verbatim>\<open>position\<close> lies inside the file; there it must
  be in the range of \<^verbatim>\<open>int\<close>, or the comparison with the length of the file is undefined.\<close>

definition range_fits :: "OpenFile \<Rightarrow> int \<Rightarrow> int \<Rightarrow> bool" where
  "range_fits f pos n \<longleftrightarrow> pos < OpenFile_Length f \<longrightarrow> pos + n < 2 ^ 31"

lemma range_fits_sum: "pos + n < 2 ^ 31 \<Longrightarrow> range_fits f pos n"
  by (simp add: range_fits_def)

lemma hdr_ok_length: "hdr_ok h \<Longrightarrow> numBytes h \<le> 3840"
  using divRoundUp_least [of "numBytes h" 128 30] by (simp add: hdr_ok_iff)

lemma range_fits_small: "hdr_ok (hdr f) \<Longrightarrow> n \<le> 2 ^ 30 \<Longrightarrow> range_fits f pos n"
  using hdr_ok_length [of "hdr f"] by (simp add: range_fits_def OpenFile_Length_def FileHeader_FileLength_def)

lemma ReadAt_ok:
  assumes "hdr_ok (hdr f)" and "idle sd" and "0 \<le> pos" and "range_fits f pos n"
  obtains sd' where "OpenFile_ReadAt f sd n pos = Inr (take (nat n) (drop (nat pos) (file_content (sector sd) (hdr f))), sd')"
    "idle sd'" "sector sd' = sector sd"
proof (cases "n \<le> 0 \<or> pos \<ge> numBytes (hdr f)")
  case True
  then show thesis
    using that [of sd] assms by (cases "n \<le> 0") (simp_all add: OpenFile_ReadAt_def FileHeader_FileLength_def nat_le_iff)
next
  case False
  define m where "m = min (nat n) (nat (numBytes (hdr f)) - nat pos)"
  have "0 < m" "nat pos + m \<le> nat (numBytes (hdr f))" "0 < n"
    "n = int m \<or> (int (nat pos) + n > numBytes (hdr f) \<and> nat pos + m = nat (numBytes (hdr f)))"
    using False assms(3) by (auto simp: m_def min_def)
  moreover have "int (nat pos) + n < 2 ^ 31"
    using False assms(3,4) by (simp add: range_fits_def OpenFile_Length_def FileHeader_FileLength_def)
  ultimately obtain sd' where "OpenFile_ReadAt f sd n (int (nat pos)) = Inr (take m (drop (nat pos) (file_content (sector sd) (hdr f))), sd')"
    "idle sd'" "sector sd' = sector sd"
    using ReadAt_inside [OF assms(1,2)] by blast
  moreover have "take m (drop (nat pos) (file_content (sector sd) (hdr f))) = take (nat n) (drop (nat pos) (file_content (sector sd) (hdr f)))"
    by (simp add: m_def take_all_iff min_def)
  ultimately show thesis
    using that assms(3) by simp
qed

section \<open>Writing\<close>

lemma write_sectors_ok:
  assumes "hdr_ok h" and "idle sd" and "q + n \<le> nat (numSectors h)" and "length buf = 128 * n"
  obtains sd' where "write_sectors h sd (int q) n buf = Inr sd'" "idle sd'"
    "\<And>k. k < n \<Longrightarrow> sector sd' (data_sectors h ! (q + k)) = take 128 (drop (128 * k) buf)"
    "\<And>s. s \<notin> (\<lambda>k. data_sectors h ! (q + k)) ` {..<n} \<Longrightarrow> sector sd' s = sector sd s"
proof -
  let ?ds = "\<lambda>k. data_sectors h ! (q + k)"
  define P where "P k sd' \<longleftrightarrow> idle sd' \<and> (\<forall>i < k. sector sd' (?ds i) = take 128 (drop (128 * i) buf))
      \<and> (\<forall>s. s \<notin> ?ds ` {..<k} \<longrightarrow> sector sd' s = sector sd s)" for k sd'
  have "\<exists>t. write_sectors h sd (int q) n buf = Inr t \<and> P (0 + n) t"
    unfolding write_sectors_def
  proof (rule iterate_r_rule)
    show "P 0 sd"
      using assms(2) by (simp add: P_def)
  next
    fix k sd1
    assume k: "k < 0 + n" and P: "P k sd1"
    have qk: "q + k < nat (numSectors h)"
      using k assms(3) by simp
    have "length (take 128 (drop (128 * k) buf)) = 128"
      using k assms(4) by simp
    then obtain sd2 where w: "SynchDisk_WriteSector sd1 (int (?ds k)) (take 128 (drop (128 * k) buf)) = Inr sd2"
      "idle sd2" "sector sd2 = (sector sd1)(?ds k := take 128 (drop (128 * k) buf))"
      using WriteSector_ok [of sd1 "?ds k"] P nth_data_sectors [OF assms(1) qk] unfolding P_def by blast
    have "?ds i \<noteq> ?ds k" if "i < k" for i
      using that qk assms(1) length_data_sectors [OF assms(1)] by (simp add: hdr_ok_def nth_eq_iff_index_eq)
    then have "P (Suc k) sd2"
      using P w by (auto simp: P_def less_Suc_eq lessThan_Suc)
    then show "\<exists>u. rbind (FileHeader_ByteToSector h ((int q + int k) * SectorSize)) (\<lambda>s.
        SynchDisk_WriteSector sd1 s (take (nat SectorSize) (drop (k * nat SectorSize) buf))) = Inr u \<and> P (Suc k) u"
      using ByteToSector_ok [OF assms(1) qk] w(1) by (simp add: SectorSize_def mult.commute)
  qed
  then show thesis
    using that by (auto simp: P_def)
qed

lemma write_sectors_bytes:
  assumes "hdr_ok h" and "idle sd" and "q + n \<le> nat (numSectors h)" and "length buf = 128 * n"
  obtains sd' where "write_sectors h sd (int q) n buf = Inr sd'" "idle sd'"
    "\<And>j. j < nat (numBytes h) \<Longrightarrow> file_byte (sector sd') h j =
       (if 128 * q \<le> j \<and> j < 128 * (q + n) then buf ! (j - 128 * q) else file_byte (sector sd) h j)"
    "\<And>s. s \<notin> set (data_sectors h) \<Longrightarrow> sector sd' s = sector sd s"
proof -
  obtain sd' where w: "write_sectors h sd (int q) n buf = Inr sd'" "idle sd'"
    "\<And>k. k < n \<Longrightarrow> sector sd' (data_sectors h ! (q + k)) = take 128 (drop (128 * k) buf)"
    "\<And>s. s \<notin> (\<lambda>k. data_sectors h ! (q + k)) ` {..<n} \<Longrightarrow> sector sd' s = sector sd s"
    using write_sectors_ok [OF assms] by blast
  note len = length_data_sectors [OF assms(1)]
  have "file_byte (sector sd') h j =
       (if 128 * q \<le> j \<and> j < 128 * (q + n) then buf ! (j - 128 * q) else file_byte (sector sd) h j)"
    if j: "j < nat (numBytes h)" for j
  proof -
    define d r where "d = j div 128" and "r = j mod 128"
    have jd: "j = 128 * d + r" and r: "r < 128" and d: "d < nat (numSectors h)"
      using sector_index(1) [OF assms(1) j] by (simp_all add: d_def r_def)
    show ?thesis
    proof (cases "q \<le> d \<and> d < q + n")
      case True
      then obtain k where k: "d = q + k" "k < n"
        by (metis le_Suc_ex add_less_cancel_left)
      have "128 * k + r < length buf"
        using k r assms(4) by simp
      then have "file_byte (sector sd') h j = buf ! (128 * k + r)"
        using w(3) [OF k(2)] r file_byte_sector [OF r, of "sector sd'" h d] by (simp add: jd k(1))
      then show ?thesis
        using k r by (simp add: jd)
    next
      case False
      have "data_sectors h ! d \<notin> (\<lambda>k. data_sectors h ! (q + k)) ` {..<n}"
      proof
        assume "data_sectors h ! d \<in> (\<lambda>k. data_sectors h ! (q + k)) ` {..<n}"
        then obtain k where k: "k < n" "data_sectors h ! d = data_sectors h ! (q + k)"
          by auto
        then have "d = q + k"
          using assms(1,3) d len by (simp add: hdr_ok_def nth_eq_iff_index_eq)
        then show False using False k by simp
      qed
      then have "file_byte (sector sd') h j = file_byte (sector sd) h j"
        using w(4) by (simp add: file_byte_def d_def)
      then show ?thesis
        using False r by (auto simp: jd)
    qed
  qed
  moreover have "sector sd' s = sector sd s" if "s \<notin> set (data_sectors h)" for s
    using that assms(3) len by (intro w(4)) auto
  ultimately show thesis
    using that w(1,2) by blast
qed

lemma preread_ok:
  assumes "hdr_ok (hdr f)" and "idle sd" and "length buf = 128 * c" and "i < c"
  obtains buf' sd' where "preread f sd buf (int i) (int (q + i)) = Inr (buf', sd')" "length buf' = 128 * c"
    "idle sd'" "sector sd' = sector sd"
    "\<And>j. j < 128 * c \<Longrightarrow> buf' ! j =
       (if 128 * i \<le> j \<and> j < 128 * Suc i \<and> 128 * q + j < nat (numBytes (hdr f))
        then file_byte (sector sd) (hdr f) (128 * q + j) else buf ! j)"
proof -
  let ?c = "file_content (sector sd) (hdr f)" and ?p = "128 * (q + i)"
  define bs where "bs = take 128 (drop ?p ?c)"
  have lb: "length bs = min (nat (numBytes (hdr f)) - ?p) 128"
    by (simp add: bs_def)
  have fits: "range_fits f (int ?p) 128"
    by (intro range_fits_small assms(1)) simp
  obtain sd' where rd: "OpenFile_ReadAt f sd 128 (int ?p) = Inr (bs, sd')" "idle sd'" "sector sd' = sector sd"
    using ReadAt_ok [OF assms(1,2) of_nat_0_le_iff fits] unfolding bs_def nat_int nat_numeral .
  have "128 * i + length bs \<le> length buf"
    using lb assms(3,4) by simp
  then obtain buf' where cp: "copy_in buf (int (128 * i)) bs = Inr buf'" "length buf' = length buf"
    "\<And>j. j < length buf \<Longrightarrow> buf' ! j = (if 128 * i \<le> j \<and> j < 128 * i + length bs then bs ! (j - 128 * i) else buf ! j)"
    using copy_in_ok by blast
  have "buf' ! j = (if 128 * i \<le> j \<and> j < 128 * Suc i \<and> 128 * q + j < nat (numBytes (hdr f))
        then file_byte (sector sd) (hdr f) (128 * q + j) else buf ! j)" if j: "j < 128 * c" for j
  proof (cases "128 * i \<le> j \<and> j < 128 * Suc i \<and> 128 * q + j < nat (numBytes (hdr f))")
    case True
    then have "?p + (j - 128 * i) = 128 * q + j" "j - 128 * i < length bs"
      using lb by auto
    then have "bs ! (j - 128 * i) = file_byte (sector sd) (hdr f) (128 * q + j)"
      using True by (simp add: bs_def file_content_def)
    then show ?thesis
      using cp(3) [of j] True j assms(3) lb by auto
  next
    case False
    then have "\<not> (128 * i \<le> j \<and> j < 128 * i + length bs)"
      using lb by auto
    then show ?thesis
      using cp(3) [of j] False j assms(3) by auto
  qed
  moreover have "preread f sd buf (int i) (int (q + i)) = Inr (buf', sd')"
  proof -
    have e: "int (q + i) * 128 = int ?p" "int i * 128 = int (128 * i)"
      by simp_all
    show ?thesis
      unfolding preread_def SectorSize_def e rd(1) using cp(1) by simp
  qed
  ultimately show thesis
    using that rd(2,3) cp(2) assms(3) by simp
qed

text \<open>The buffer of \<^verbatim>\<open>WriteAt\<close> when it is written: outside the new bytes it holds what the file holds.\<close>

lemma WriteAt_buffer:
  assumes ok: "hdr_ok (hdr f)" and "idle sd" and m: "0 < m" and "p + m \<le> nat (numBytes (hdr f))"
    and q: "q = p div 128" and l: "l = (p + m - 1) div 128" and "length buf0 = 128 * (Suc l - q)"
  obtains buf1 sd1 buf2 sd2 where
    "(if p \<noteq> 128 * q then preread f sd buf0 0 (int q) else Inr (buf0, sd)) = Inr (buf1, sd1)"
    "(if p + m \<noteq> 128 * Suc l \<and> (q \<noteq> l \<or> p = 128 * q) then preread f sd1 buf1 (int (l - q)) (int l)
      else Inr (buf1, sd1)) = Inr (buf2, sd2)"
    "length buf2 = 128 * (Suc l - q)" "idle sd2" "sector sd2 = sector sd"
    "\<And>j. j < 128 * (Suc l - q) \<Longrightarrow> 128 * q + j < nat (numBytes (hdr f)) \<Longrightarrow> 128 * q + j < p \<or> p + m \<le> 128 * q + j \<Longrightarrow>
       buf2 ! j = file_byte (sector sd) (hdr f) (128 * q + j)"
proof -
  let ?fb = "file_byte (sector sd) (hdr f)" and ?L = "nat (numBytes (hdr f))" and ?c = "Suc l - q"
  have ql: "q \<le> l" and pq: "128 * q \<le> p" "p < 128 * Suc q" and pl: "128 * l < p + m" "p + m \<le> 128 * Suc l"
  proof -
    obtain x where x: "p + m = Suc x"
      using m gr0_conv_Suc by auto
    show "q \<le> l"
      unfolding q l using m by (intro div_le_mono) simp
    show "128 * q \<le> p" "p < 128 * Suc q"
      using dividend_less_times_div [of 128 p] by (simp_all add: q)
    show "128 * l < p + m" "p + m \<le> 128 * Suc l"
      using dividend_less_times_div [of 128 x] by (simp_all add: l x less_Suc_eq_le Suc_le_eq)
  qed
  obtain buf1 sd1 where s1: "(if p \<noteq> 128 * q then preread f sd buf0 0 (int q) else Inr (buf0, sd)) = Inr (buf1, sd1)"
    "length buf1 = 128 * ?c" "idle sd1" "sector sd1 = sector sd"
    "\<And>j. j < 128 * ?c \<Longrightarrow> p \<noteq> 128 * q \<Longrightarrow> j < 128 \<Longrightarrow> 128 * q + j < ?L \<Longrightarrow> buf1 ! j = ?fb (128 * q + j)"
  proof (cases "p = 128 * q")
    case True
    then show thesis using that [of buf0 sd] assms(2,7) by simp
  next
    case False
    obtain b s where "preread f sd buf0 (int 0) (int (q + 0)) = Inr (b, s)" "length b = 128 * ?c" "idle s" "sector s = sector sd"
      "\<And>j. j < 128 * ?c \<Longrightarrow> b ! j = (if 128 * 0 \<le> j \<and> j < 128 * Suc 0 \<and> 128 * q + j < ?L then ?fb (128 * q + j) else buf0 ! j)"
      using preread_ok [OF ok assms(2,7), of 0 q] ql by auto
    then show thesis using that [of b s] False by simp
  qed
  let ?last = "p + m \<noteq> 128 * Suc l \<and> (q \<noteq> l \<or> p = 128 * q)"
  obtain buf2 sd2 where s2: "(if ?last then preread f sd1 buf1 (int (l - q)) (int l) else Inr (buf1, sd1)) = Inr (buf2, sd2)"
    "length buf2 = 128 * ?c" "idle sd2" "sector sd2 = sector sd"
    "\<And>j. j < 128 * ?c \<Longrightarrow> ?last \<Longrightarrow> 128 * (l - q) \<le> j \<Longrightarrow> 128 * q + j < ?L \<Longrightarrow> buf2 ! j = ?fb (128 * q + j)"
    "\<And>j. j < 128 * ?c \<Longrightarrow> buf2 ! j = buf1 ! j \<or> buf2 ! j = ?fb (128 * q + j)"
  proof (cases ?last)
    case False
    show thesis
      by (rule that [of buf1 sd1]) (use s1(2-4) False in auto)
  next
    case True
    have lq: "l - q < ?c"
      using ql by simp
    obtain b s where "preread f sd1 buf1 (int (l - q)) (int (q + (l - q))) = Inr (b, s)" "length b = 128 * ?c" "idle s"
      "sector s = sector sd1"
      "\<And>j. j < 128 * ?c \<Longrightarrow> b ! j = (if 128 * (l - q) \<le> j \<and> j < 128 * Suc (l - q) \<and> 128 * q + j < ?L
         then file_byte (sector sd1) (hdr f) (128 * q + j) else buf1 ! j)"
      using preread_ok [OF ok s1(3,2) lq, of q] by blast
    then show thesis using that [of b s] True ql s1(4) by (simp add: Suc_diff_le)
  qed
  have "buf2 ! j = ?fb (128 * q + j)"
    if j: "j < 128 * ?c" "128 * q + j < ?L" "128 * q + j < p \<or> p + m \<le> 128 * q + j" for j
  proof (cases "128 * q + j < p")
    case True
    then have "buf1 ! j = ?fb (128 * q + j)"
      using j pq by (intro s1(5)) auto
    then show ?thesis using s2(6) [OF j(1)] by auto
  next
    case False
    then have ge: "p + m \<le> 128 * q + j" using j by simp
    have "128 * q + j < 128 * Suc l"
      using j(1) ql by (simp add: diff_mult_distrib2)
    then have nl: "p + m \<noteq> 128 * Suc l" and jl: "128 * (l - q) \<le> j"
      using ge pl by (auto simp: diff_mult_distrib2)
    show ?thesis
    proof (cases ?last)
      case True
      then show ?thesis using s2(5) [OF j(1) _ jl j(2)] by simp
    next
      case False
      then have "q = l" "p \<noteq> 128 * q" using nl by auto
      then have "buf1 ! j = ?fb (128 * q + j)"
        using j by (intro s1(5)) auto
      then show ?thesis using s2(6) [OF j(1)] by auto
    qed
  qed
  then show thesis
    using that s1(1) s2(1-4) by blast
qed

definition overwrite :: "byte list \<Rightarrow> nat \<Rightarrow> byte list \<Rightarrow> byte list" where
  "overwrite c p bs = take p c @ take (length c - p) bs @ drop (p + length bs) c"

lemma length_overwrite [simp]: "length (overwrite c p bs) = length c"
  by (auto simp: overwrite_def min_def)

lemma nth_overwrite:
  "j < length c \<Longrightarrow> overwrite c p bs ! j = (if p \<le> j \<and> j < p + length bs then bs ! (j - p) else c ! j)"
  by (auto simp: overwrite_def nth_append min_def)

lemma WriteAt_inside:
  assumes "hdr_ok (hdr f)" and "idle sd" and "0 < m" and "p + m \<le> nat (numBytes (hdr f))" and "m \<le> length data"
    and "n = int m \<or> (int p + n > numBytes (hdr f) \<and> p + m = nat (numBytes (hdr f)))" and "0 < n"
    and "int p + n < 2 ^ 31"
  obtains sd' where "OpenFile_WriteAt junk f sd data n (int p) = Inr (int m, sd')" "idle sd'"
    "file_content (sector sd') (hdr f) = overwrite (file_content (sector sd) (hdr f)) p (take m data)"
    "\<And>s. s \<notin> set (data_sectors (hdr f)) \<Longrightarrow> sector sd' s = sector sd s"
proof -
  let ?h = "hdr f" and ?L = "nat (numBytes (hdr f))"
  define q l where "q = p div 128" and "l = (p + m - 1) div 128"
  define c where "c = Suc l - q"
  note rs = range_sectors [OF assms(1,3,4), folded q_def l_def, folded c_def]
  have pq: "p = 128 * q + p mod 128"
    by (simp add: q_def)
  have pc: "p + m \<le> 128 * q + 128 * c"
    using rs(3,5) by (simp add: c_def diff_mult_distrib2)
  define buf0 where "buf0 = map junk [0..<128 * c]"
  have lb: "length buf0 = 128 * (Suc l - q)"
    by (simp add: buf0_def c_def)
  obtain buf1 sd1 buf2 sd2 where b:
    "(if p \<noteq> 128 * q then preread f sd buf0 0 (int q) else Inr (buf0, sd)) = Inr (buf1, sd1)"
    "(if p + m \<noteq> 128 * Suc l \<and> (q \<noteq> l \<or> p = 128 * q) then preread f sd1 buf1 (int (l - q)) (int l)
      else Inr (buf1, sd1)) = Inr (buf2, sd2)"
    "length buf2 = 128 * c" "idle sd2" "sector sd2 = sector sd"
    "\<And>j. j < 128 * c \<Longrightarrow> 128 * q + j < ?L \<Longrightarrow> 128 * q + j < p \<or> p + m \<le> 128 * q + j \<Longrightarrow>
       buf2 ! j = file_byte (sector sd) ?h (128 * q + j)"
    using WriteAt_buffer [OF assms(1-4) q_def l_def lb] unfolding c_def by blast
  have "p mod 128 + length (take m data) \<le> length buf2"
    using pc pq assms(5) b(3) by simp
  then obtain buf3 where b3: "copy_in buf2 (int (p mod 128)) (take m data) = Inr buf3" "length buf3 = length buf2"
    "\<And>j. j < length buf2 \<Longrightarrow> buf3 ! j = (if p mod 128 \<le> j \<and> j < p mod 128 + length (take m data)
       then take m data ! (j - p mod 128) else buf2 ! j)"
    using copy_in_ok by blast
  obtain sd3 where w: "write_sectors ?h sd2 (int q) c buf3 = Inr sd3" "idle sd3"
    "\<And>j. j < ?L \<Longrightarrow> file_byte (sector sd3) ?h j =
       (if 128 * q \<le> j \<and> j < 128 * (q + c) then buf3 ! (j - 128 * q) else file_byte (sector sd2) ?h j)"
    "\<And>s. s \<notin> set (data_sectors ?h) \<Longrightarrow> sector sd3 s = sector sd2 s"
    using write_sectors_bytes [OF assms(1) b(4) rs(4)] b(3) b3(2) by metis
  have "file_content (sector sd3) ?h = overwrite (file_content (sector sd) ?h) p (take m data)"
  proof (rule nth_equalityI)
    fix j assume "j < length (file_content (sector sd3) ?h)"
    then have j: "j < ?L" by simp
    have "file_byte (sector sd3) ?h j = (if p \<le> j \<and> j < p + m then data ! (j - p) else file_byte (sector sd) ?h j)"
    proof (cases "128 * q \<le> j \<and> j < 128 * (q + c)")
      case True
      define i where "i = j - 128 * q"
      have i: "j = 128 * q + i" "i < 128 * c"
        using True by (auto simp: i_def)
      define r where "r = p mod 128"
      have "p = 128 * q + r"
        using pq by (simp add: r_def)
      then have pj: "p \<le> j \<longleftrightarrow> p mod 128 \<le> i" "j < p + m \<longleftrightarrow> i < p mod 128 + m" "j - p = i - p mod 128"
        using i(1) unfolding r_def [symmetric] by simp_all
      have b3i: "buf3 ! i = (if p \<le> j \<and> j < p + m then data ! (j - p) else buf2 ! i)"
        using b3(3) [of i] i(2) b(3) assms(5) unfolding pj by (auto simp: less_diff_conv2 add.commute)
      have "file_byte (sector sd3) ?h j = buf3 ! i"
        using w(3) [OF j] True by (simp add: i_def)
      then show ?thesis
        using b3i b(6) [OF i(2)] j unfolding i(1) [symmetric] by auto
    next
      case False
      then show ?thesis
        using w(3) [OF j] pc pq b(5) by auto
    qed
    then show "file_content (sector sd3) ?h ! j = overwrite (file_content (sector sd) ?h) p (take m data) ! j"
      using j assms(5) by (auto simp: nth_overwrite file_content_def less_diff_conv2 add.commute)
  qed simp
  moreover have "OpenFile_WriteAt junk f sd data n (int p) = Inr (int m, sd3)"
  proof -
    have clip: "(if int p + n > numBytes ?h then numBytes ?h - int p else n) = int m"
      using assms(3,4,6) by auto
    have first: "int p = int q * SectorSize \<longleftrightarrow> p = 128 * q" and off: "int p - int q * SectorSize = int (p mod 128)"
      using pq by (simp_all add: SectorSize_def) linarith+
    have lasts: "int p + int m = (int l + 1) * SectorSize \<longleftrightarrow> p + m = 128 * Suc l" "int q \<noteq> int l \<longleftrightarrow> q \<noteq> l"
      "int l - int q = int (l - q)" "nat (1 + int l - int q) = c" "nat ((1 + int l - int q) * SectorSize) = 128 * c"
      using rs(3) by (auto simp: SectorSize_def c_def)
    have ns: "\<not> (n \<le> 0 \<or> numBytes ?h \<le> int p)"
      using assms(3,4,7) by auto
    have cp: "copy_out data 0 (int m) = Inr (take m data)"
      using assms(5) by (simp add: copy_out_def)
    have add: "add_int (int p) n = Inr (int p + n)"
      using assms(7,8) by simp
    show ?thesis
      unfolding OpenFile_WriteAt_def FileHeader_FileLength_def add rbind_Inr Let_def clip rs(1,2) first lasts off
        buf0_def [symmetric] if_not_P [OF ns] b(1) cp
      using b(2) b3(1) w(1) by simp
  qed
  ultimately show thesis
    using that w(2,4) b(5) by simp
qed

lemma overwrite_nothing: "n = 0 \<or> length c \<le> p \<Longrightarrow> overwrite c p (take n bs) = c"
  by (auto simp: overwrite_def)

lemma overwrite_clip: "overwrite c p (take (min n (length c - p)) bs) = overwrite c p (take n bs)"
  by (rule nth_equalityI) (auto simp: nth_overwrite min_def split: if_splits)

lemma WriteAt_ok:
  assumes "hdr_ok (hdr f)" and "idle sd" and "0 \<le> pos" and "range_fits f pos n" and "nat n \<le> length data"
  obtains sd' where
    "OpenFile_WriteAt junk f sd data n pos = Inr (int (min (nat n) (nat (numBytes (hdr f)) - nat pos)), sd')" "idle sd'"
    "file_content (sector sd') (hdr f) = overwrite (file_content (sector sd) (hdr f)) (nat pos) (take (nat n) data)"
    "\<And>s. s \<notin> set (data_sectors (hdr f)) \<Longrightarrow> sector sd' s = sector sd s"
proof (cases "n \<le> 0 \<or> pos \<ge> numBytes (hdr f)")
  case True
  then have "nat n = 0 \<or> nat (numBytes (hdr f)) \<le> nat pos"
    by (auto simp: nat_le_iff)
  then show thesis
    using that [of sd] True assms(2) overwrite_nothing [of "nat n" "file_content (sector sd) (hdr f)" "nat pos" data]
    by (auto simp: OpenFile_WriteAt_def FileHeader_FileLength_def)
next
  case False
  define m where "m = min (nat n) (nat (numBytes (hdr f)) - nat pos)"
  have m: "0 < m" "nat pos + m \<le> nat (numBytes (hdr f))" "0 < n" "m \<le> length data"
    "n = int m \<or> (int (nat pos) + n > numBytes (hdr f) \<and> nat pos + m = nat (numBytes (hdr f)))"
    using False assms(3,5) by (auto simp: m_def min_def)
  have fits: "int (nat pos) + n < 2 ^ 31"
    using False assms(3,4) by (simp add: range_fits_def OpenFile_Length_def FileHeader_FileLength_def)
  obtain sd' where "OpenFile_WriteAt junk f sd data n (int (nat pos)) = Inr (int m, sd')" "idle sd'"
    "file_content (sector sd') (hdr f) = overwrite (file_content (sector sd) (hdr f)) (nat pos) (take m data)"
    "\<And>s. s \<notin> set (data_sectors (hdr f)) \<Longrightarrow> sector sd' s = sector sd s"
    using WriteAt_inside [OF assms(1,2) m(1,2,4,5,3) fits] by blast
  then show thesis
    using that assms(3) overwrite_clip [of "file_content (sector sd) (hdr f)" "nat pos" "nat n" data]
    by (simp add: m_def)
qed

section \<open>Bit maps in files\<close>

lemma bm_wf_words: "free_map b \<Longrightarrow> numWords b = 32 \<and> length (bm_map b) = 32"
  by (auto simp: free_map_def bm_wf_def disk_consts divRoundUp_nonneg)

interpretation pbm: flat_object "\<lambda>b. free_map b" map_bytes
    "\<lambda>bs. \<lparr>numBits = NumSectors, numWords = 32, bm_map = bytes_words bs\<rparr>" 128
proof unfold_locales
  fix b assume b: "free_map b"
  show "length (map_bytes b) = 128"
    using bm_wf_words [OF b] by (simp add: map_bytes_def)
  show "\<lparr>numBits = NumSectors, numWords = 32, bm_map = bytes_words (map_bytes b)\<rparr> = b"
    using bm_wf_words [OF b] b by (simp add: map_bytes_def free_map_def)
qed

lemma bytes_map_full: "free_map b \<Longrightarrow> free_map c \<Longrightarrow> bytes_map b (map_bytes c) = c"
  using bm_wf_words [of b] bm_wf_words [of c] by (simp add: bytes_map_def free_map_def map_bytes_def)

text \<open>A file of 128 bytes holds the free map of the disk.\<close>

definition stores_map :: "(nat \<Rightarrow> byte list) \<Rightarrow> FileHeader \<Rightarrow> Bitmap \<Rightarrow> bool" where
  "stores_map S h b \<longleftrightarrow> hdr_ok h \<and> numBytes h = 128 \<and> free_map b \<and> file_content S h = map_bytes b"

lemma PersistentBitmap_new_ok:
  assumes "stores_map (sector sd) (hdr f) b" and "idle sd"
  obtains sd' where "PersistentBitmap_new f sd NumSectors = Inr (b, sd')" "idle sd'" "sector sd' = sector sd"
proof -
  have f: "hdr_ok (hdr f)" "free_map b" "file_content (sector sd) (hdr f) = map_bytes b"
    using assms(1) by (auto simp: stores_map_def)
  obtain b0 where b0: "Bitmap_new NumSectors = Inr b0" "free_map b0"
    using Bitmap_new_bits [of NumSectors] fresh_bitmap by (auto simp: disk_consts)
  obtain sd' where rd: "OpenFile_ReadAt f sd 128 0 = Inr (take (nat 128) (drop (nat 0) (file_content (sector sd) (hdr f))), sd')"
    "idle sd'" "sector sd' = sector sd"
    using ReadAt_ok [OF f(1) assms(2) order_refl range_fits_small [OF f(1)], of 128] by auto
  then have "PersistentBitmap_new f sd NumSectors = Inr (b, sd')"
    using b0 f(2,3) pbm.enc_length [OF f(2)] bytes_map_full [OF b0(2) f(2)] bm_wf_words [OF b0(2)]
    by (simp add: PersistentBitmap_new_def)
  then show thesis
    using that rd(2,3) by blast
qed

lemma PersistentBitmap_FetchFrom_ok:
  assumes "stores_map (sector sd) (hdr f) b" and "idle sd" and "free_map b0"
  obtains sd' where "PersistentBitmap_FetchFrom b0 f sd = Inr (b, sd')" "idle sd'" "sector sd' = sector sd"
proof -
  have f: "hdr_ok (hdr f)" "free_map b" "file_content (sector sd) (hdr f) = map_bytes b"
    using assms(1) by (auto simp: stores_map_def)
  obtain sd' where rd: "OpenFile_ReadAt f sd 128 0 = Inr (take (nat 128) (drop (nat 0) (file_content (sector sd) (hdr f))), sd')"
    "idle sd'" "sector sd' = sector sd"
    using ReadAt_ok [OF f(1) assms(2) order_refl range_fits_small [OF f(1)], of 128] by auto
  then have "PersistentBitmap_FetchFrom b0 f sd = Inr (b, sd')"
    using f(2,3) pbm.enc_length [OF f(2)] bytes_map_full [OF assms(3) f(2)] bm_wf_words [OF assms(3)]
    by (simp add: PersistentBitmap_FetchFrom_def)
  then show thesis
    using that rd(2,3) by blast
qed

lemma overwrite_all: "length bs = length c \<Longrightarrow> overwrite c 0 bs = bs"
  by (simp add: overwrite_def)

lemma PersistentBitmap_WriteBack_ok:
  assumes "hdr_ok (hdr f)" and "numBytes (hdr f) = 128" and "idle sd" and "free_map b"
  obtains sd' where "PersistentBitmap_WriteBack junk b f sd = Inr sd'" "idle sd'" "stores_map (sector sd') (hdr f) b"
    "\<And>s. s \<notin> set (data_sectors (hdr f)) \<Longrightarrow> sector sd' s = sector sd s"
proof -
  have n: "nat (numWords b * 4) = 128" "length (map_bytes b) = 128"
    using bm_wf_words [OF assms(4)] pbm.enc_length [OF assms(4)] by simp_all
  have fits: "range_fits f 0 (numWords b * 4)"
    using bm_wf_words [OF assms(4)] by (intro range_fits_small assms(1)) simp
  obtain v sd' where w: "OpenFile_WriteAt junk f sd (map_bytes b) (numWords b * 4) 0 = Inr (v, sd')" "idle sd'"
    "file_content (sector sd') (hdr f) = overwrite (file_content (sector sd) (hdr f)) (nat 0) (take 128 (map_bytes b))"
    "\<And>s. s \<notin> set (data_sectors (hdr f)) \<Longrightarrow> sector sd' s = sector sd s"
    using WriteAt_ok [OF assms(1,3) order_refl fits, of "map_bytes b" junk] n by (metis order_refl)
  then have "stores_map (sector sd') (hdr f) b"
    using assms n(2) by (simp add: stores_map_def overwrite_all)
  moreover have "PersistentBitmap_WriteBack junk b f sd = Inr sd'"
    using w(1) by (simp add: PersistentBitmap_WriteBack_def)
  ultimately show thesis
    using that w(2,4) by blast
qed

section \<open>Properties of open files\<close>

text \<open>C25: On a file with a well-formed header, \<^verbatim>\<open>WriteAt\<close> replaces exactly the bytes of the file in the given
  range, clipped to the length of the file, whatever its buffer held before, changes no sector of any
  other file, and returns the number of bytes replaced; \<^verbatim>\<open>ReadAt\<close> then returns exactly the bytes of its
  range and changes nothing. This holds for ranges that start beyond the file or whose end
  \<^verbatim>\<open>position + numBytes\<close> is an \<^verbatim>\<open>int\<close> (\<open>range_fits\<close>).\<close>
theorem WriteAt_ReadAt:
  assumes "hdr_ok (hdr f)" and "idle sd" and "0 \<le> pos" and "range_fits f pos n" and "nat n \<le> length data"
    and "0 \<le> pos'" and "range_fits f pos' n'"
  shows "\<exists>k sd1 sd2 c. OpenFile_WriteAt junk f sd data n pos = Inr (k, sd1)
    \<and> k = int (min (nat n) (nat (OpenFile_Length f) - nat pos))
    \<and> c = overwrite (file_content (sector sd) (hdr f)) (nat pos) (take (nat n) data)
    \<and> file_content (sector sd1) (hdr f) = c
    \<and> (\<forall>s. s \<notin> set (data_sectors (hdr f)) \<longrightarrow> sector sd1 s = sector sd s)
    \<and> OpenFile_ReadAt f sd1 n' pos' = Inr (take (nat n') (drop (nat pos') c), sd2) \<and> sector sd2 = sector sd1 \<and> idle sd2"
proof -
  obtain sd1 where w:
    "OpenFile_WriteAt junk f sd data n pos = Inr (int (min (nat n) (nat (numBytes (hdr f)) - nat pos)), sd1)" "idle sd1"
    "file_content (sector sd1) (hdr f) = overwrite (file_content (sector sd) (hdr f)) (nat pos) (take (nat n) data)"
    "\<And>s. s \<notin> set (data_sectors (hdr f)) \<Longrightarrow> sector sd1 s = sector sd s"
    using WriteAt_ok [OF assms(1-5)] by blast
  obtain sd2 where "OpenFile_ReadAt f sd1 n' pos' = Inr (take (nat n') (drop (nat pos') (file_content (sector sd1) (hdr f))), sd2)"
    "idle sd2" "sector sd2 = sector sd1"
    using ReadAt_ok [OF assms(1) w(2) assms(6,7)] .
  then show ?thesis
    using w unfolding OpenFile_Length_def FileHeader_FileLength_def by auto
qed

definition sample_header :: FileHeader where
  "sample_header = \<lparr>numBytes = 200, numSectors = 2, dataSectors = 9 # 4 # replicate 28 0\<rparr>"

lemma sample_header_ok: "hdr_ok sample_header"
  by (simp add: hdr_ok_iff hdr_wf_def sample_header_def data_sectors_def divRoundUp_nonneg int32_def list_all_iff
      nth_Cons' numeral_eq_Suc)

theorem WriteAt_ReadAt_witness:
  "\<exists>k sd1 sd2. OpenFile_WriteAt (\<lambda>i. 0xCC) \<lparr>hdr = sample_header, seekPosition = 0\<rparr> blank_disk [1, 2, 3] 3 198 = Inr (k, sd1)
     \<and> k = 2 \<and> OpenFile_ReadAt \<lparr>hdr = sample_header, seekPosition = 0\<rparr> sd1 10 198 = Inr ([1, 2], sd2)"
proof -
  have "idle blank_disk"
    by (simp add: idle_def blank_disk_def SynchDisk_new_def)
  then show ?thesis
    using WriteAt_ReadAt [of "\<lparr>hdr = sample_header, seekPosition = 0\<rparr>" blank_disk 198 3 "[1, 2, 3]" 198 10 "\<lambda>i. 0xCC"] sample_header_ok
    by (auto simp: OpenFile_Length_def FileHeader_FileLength_def sample_header_def overwrite_def range_fits_def)
qed

text \<open>Otherwise \<^verbatim>\<open>position + numBytes\<close> overflows: a user who asks for \<^verbatim>\<open>INT_MAX\<close> bytes at position 1 does not
  get the rest of the file.\<close>

lemma ReadAt_WriteAt_overflow:
  assumes "0 \<le> pos" and "0 < n" and "\<not> range_fits f pos n"
  shows "OpenFile_ReadAt f sd n pos = Inl Overflow" and "OpenFile_WriteAt junk f sd data n pos = Inl Overflow"
  using assms by (auto simp: range_fits_def OpenFile_Length_def OpenFile_ReadAt_def OpenFile_WriteAt_def add_int_def int32_def)

end
