(* ===== verification/Directory.thy ===== *)
theory Directory
  imports OpenFile
begin

text \<open>
  \<^verbatim>\<open>filesys/directory.cc\<close>: the table of file names. An entry is 20 bytes long: \<^verbatim>\<open>inUse\<close>, three bytes of
  padding, the sector of the file header, the ten bytes of \<^verbatim>\<open>name\<close> and two bytes of padding. Names are
  compared and stored up to nine bytes, so the directory is a finite map on \<open>take 9 name\<close>. A name passed to
  an operation is the bytes before its terminating zero.
\<close>

definition FileNameMaxLen :: nat where "FileNameMaxLen = 9"

record DirectoryEntry =
  inUse :: bool
  de_pad1 :: "byte list"
  de_sector :: int
  de_name :: "byte list"
  de_pad2 :: "byte list"

definition entry_bytes :: "DirectoryEntry \<Rightarrow> byte list" where
  "entry_bytes e = (if inUse e then 1 else 0) # de_pad1 e @ word_bytes (word_of_int (de_sector e)) @ de_name e @ de_pad2 e"

definition bytes_entry :: "byte list \<Rightarrow> DirectoryEntry" where
  "bytes_entry bs = \<lparr>inUse = (bs ! 0 \<noteq> 0), de_pad1 = take 3 (drop 1 bs),
     de_sector = sint (bytes_word (bs ! 4) (bs ! 5) (bs ! 6) (bs ! 7)),
     de_name = take 10 (drop 8 bs), de_pad2 = take 2 (drop 18 bs)\<rparr>"

record Directory =
  tableSize :: int
  table :: "DirectoryEntry list"

definition table_bytes :: "DirectoryEntry list \<Rightarrow> byte list" where
  "table_bytes es = concat (map entry_bytes es)"

fun bytes_table :: "nat \<Rightarrow> byte list \<Rightarrow> DirectoryEntry list" where
  "bytes_table 0 bs = []"
| "bytes_table (Suc n) bs = bytes_entry (take 20 bs) # bytes_table n (drop 20 bs)"

definition Directory_new :: "(nat \<Rightarrow> byte) \<Rightarrow> int \<Rightarrow> Directory" where
  "Directory_new junk sz =
     \<lparr>tableSize = sz,
      table = map (\<lambda>e. e\<lparr>inUse := False\<rparr>) (bytes_table (nat sz) (map junk [0..<20 * nat sz]))\<rparr>"

definition Directory_FetchFrom :: "Directory \<Rightarrow> OpenFile \<Rightarrow> SynchDisk \<Rightarrow> (Directory \<times> SynchDisk) result" where
  "Directory_FetchFrom d f sd =
     rbind (OpenFile_ReadAt f sd (tableSize d * 20) 0) (\<lambda>(bs, sd1).
     Inr (d\<lparr>table := bytes_table (nat (tableSize d)) (bs @ drop (length bs) (table_bytes (table d)))\<rparr>, sd1))"

definition Directory_WriteBack ::
    "(nat \<Rightarrow> byte) \<Rightarrow> Directory \<Rightarrow> OpenFile \<Rightarrow> SynchDisk \<Rightarrow> SynchDisk result" where
  "Directory_WriteBack junk d f sd =
     rbind (OpenFile_WriteAt junk f sd (table_bytes (table d)) (tableSize d * 20) 0) (\<lambda>(_, sd1). Inr sd1)"

fun find_index_from :: "int \<Rightarrow> DirectoryEntry list \<Rightarrow> byte list \<Rightarrow> int" where
  "find_index_from i [] name = - 1"
| "find_index_from i (e # es) name =
     (if inUse e \<and> strncmp_eq (de_name e) name FileNameMaxLen then i else find_index_from (i + 1) es name)"

definition Directory_FindIndex :: "Directory \<Rightarrow> byte list \<Rightarrow> int" where
  "Directory_FindIndex d name = find_index_from 0 (table d) name"

definition Directory_Find :: "Directory \<Rightarrow> byte list \<Rightarrow> int" where
  "Directory_Find d name =
     (let i = Directory_FindIndex d name in
      if i \<noteq> - 1 then de_sector (table d ! nat i) else - 1)"

text \<open>\<^verbatim>\<open>strncpy\<close> leaves the tenth byte of \<^verbatim>\<open>name\<close> as it is.\<close>

fun add_entry :: "DirectoryEntry list \<Rightarrow> byte list \<Rightarrow> int \<Rightarrow> DirectoryEntry list option" where
  "add_entry [] name newSector = None"
| "add_entry (e # es) name newSector =
     (if \<not> inUse e
      then Some (e\<lparr>inUse := True, de_name := strncpy name FileNameMaxLen @ drop FileNameMaxLen (de_name e),
                   de_sector := newSector\<rparr> # es)
      else map_option (\<lambda>es'. e # es') (add_entry es name newSector))"

definition Directory_Add :: "Directory \<Rightarrow> byte list \<Rightarrow> int \<Rightarrow> bool \<times> Directory" where
  "Directory_Add d name newSector =
     (if Directory_FindIndex d name \<noteq> - 1 then (False, d)
      else case add_entry (table d) name newSector of
             Some es \<Rightarrow> (True, d\<lparr>table := es\<rparr>)
           | None \<Rightarrow> (False, d))"

definition Directory_Remove :: "Directory \<Rightarrow> byte list \<Rightarrow> bool \<times> Directory" where
  "Directory_Remove d name =
     (let i = Directory_FindIndex d name in
      if i = - 1 then (False, d)
      else (True, d\<lparr>table := (table d)[nat i := (table d ! nat i)\<lparr>inUse := False\<rparr>]\<rparr>))"

text \<open>\<^verbatim>\<open>printf("%s", table[i].name)\<close> prints memory up to the next zero byte, past the end of \<^verbatim>\<open>name\<close> if needed.\<close>

definition c_string_at :: "byte list \<Rightarrow> nat \<Rightarrow> byte list result" where
  "c_string_at mem p =
     (if 0 \<in> set (drop p mem) then Inr (takeWhile (\<lambda>b. b \<noteq> 0) (drop p mem)) else Inl OutOfBounds)"

definition Directory_List :: "Directory \<Rightarrow> printed list result" where
  "Directory_List d =
     iterate_r 0 (nat (tableSize d)) (\<lambda>i out.
       if inUse (table d ! i)
       then rbind (c_string_at (table_bytes (table d)) (20 * i + 8)) (\<lambda>s.
            Inr (out @ map PChar s @ [PStr ''\<newline>'']))
       else Inr out) []"

definition Directory_Print :: "Directory \<Rightarrow> SynchDisk \<Rightarrow> (printed list \<times> SynchDisk) result" where
  "Directory_Print d sd =
     rbind (iterate_r 0 (nat (tableSize d)) (\<lambda>i (out, sd).
       if inUse (table d ! i)
       then rbind (c_string_at (table_bytes (table d)) (20 * i + 8)) (\<lambda>s.
            rbind (FileHeader_FetchFrom sd (de_sector (table d ! i))) (\<lambda>(h, sd1).
            rbind (FileHeader_Print h sd1) (\<lambda>(p, sd2).
            Inr (out @ PStr ''Name: '' # map PChar s @ PStr '', Sector: '' # PInt (de_sector (table d ! i))
                   # PStr ''\<newline>'' # p, sd2))))
       else Inr (out, sd)) ([PStr ''Directory contents:\<newline>''], sd)) (\<lambda>(out, sd1).
     Inr (out @ [PStr ''\<newline>''], sd1))"

section \<open>The image of the table\<close>

definition entry_wf :: "DirectoryEntry \<Rightarrow> bool" where
  "entry_wf e \<longleftrightarrow> length (de_pad1 e) = 3 \<and> int32 (de_sector e) \<and> length (de_name e) = 10 \<and> length (de_pad2 e) = 2"

interpretation de: flat_object entry_wf entry_bytes bytes_entry 20
proof unfold_locales
  fix e assume e: "entry_wf e"
  show "length (entry_bytes e) = 20"
    using e by (simp add: entry_bytes_def entry_wf_def)
  show "bytes_entry (entry_bytes e) = e"
  proof -
    obtain a b c where "de_pad1 e = [a, b, c]"
      using e by (auto simp: entry_wf_def length_Suc_conv numeral_3_eq_3)
    then show ?thesis
      using e sint_word_of_int32 [of "de_sector e"]
      by (cases e) (simp add: bytes_entry_def entry_bytes_def entry_wf_def word_bytes_def)
  qed
qed

lemma bytes_entry_wf: "length bs = 20 \<Longrightarrow> entry_wf (bytes_entry bs)"
  by (simp add: entry_wf_def bytes_entry_def)

lemma length_table_bytes: "list_all entry_wf es \<Longrightarrow> length (table_bytes es) = 20 * length es"
  by (induction es) (simp_all add: table_bytes_def de.enc_length)

lemma bytes_table_bytes: "list_all entry_wf es \<Longrightarrow> length es = n \<Longrightarrow> bytes_table n (table_bytes es @ bs) = es"
  by (induction es arbitrary: n) (auto simp: table_bytes_def de.enc_length de.dec_enc)

lemma bytes_table_wf: "20 * n \<le> length bs \<Longrightarrow> list_all entry_wf (bytes_table n bs) \<and> length (bytes_table n bs) = n"
  by (induction n arbitrary: bs) (simp_all add: bytes_entry_wf)

section \<open>The directory as a finite map\<close>

abbreviation dkey :: "byte list \<Rightarrow> byte list" where
  "dkey name \<equiv> take 9 name"

definition entry_key :: "DirectoryEntry \<Rightarrow> byte list" where
  "entry_key e = takeWhile (\<lambda>b. b \<noteq> 0) (take 9 (de_name e))"

lemma strncmp_eq_key:
  "0 \<notin> set t \<Longrightarrow> n \<le> length as \<Longrightarrow> strncmp_eq as t n \<longleftrightarrow> takeWhile (\<lambda>b. b \<noteq> 0) (take n as) = take n t"
proof (induction n arbitrary: "as" t)
  case (Suc n)
  then obtain a as' where "as = a # as'"
    by (cases "as") auto
  then show ?case
    using Suc by (cases t) auto
qed simp

lemma key_strncpy: "0 \<notin> set s \<Longrightarrow> takeWhile (\<lambda>b. b \<noteq> 0) (strncpy s n) = take n s"
proof -
  assume "0 \<notin> set s"
  then have "\<forall>b \<in> set (take n s). b \<noteq> 0"
    by (auto dest: in_set_takeD)
  then have "takeWhile (\<lambda>b. b \<noteq> 0) (take n s @ take (n - length s) (replicate n 0))
    = take n s @ takeWhile (\<lambda>b. b \<noteq> 0) (take (n - length s) (replicate n 0))"
    by (simp add: takeWhile_append2)
  then show ?thesis
    by (simp add: strncpy_def)
qed

fun entry_map :: "DirectoryEntry list \<Rightarrow> byte list \<Rightarrow> int option" where
  "entry_map [] = Map.empty"
| "entry_map (e # es) = (if inUse e then (entry_map es)(entry_key e \<mapsto> de_sector e) else entry_map es)"

definition dir_map :: "Directory \<Rightarrow> byte list \<Rightarrow> int option" where
  "dir_map d = entry_map (table d)"

text \<open>Well-formed: no key is in use twice, and no sector number is -1, the value that means not found.\<close>

fun keys_distinct :: "DirectoryEntry list \<Rightarrow> bool" where
  "keys_distinct [] = True"
| "keys_distinct (e # es) = ((inUse e \<longrightarrow> entry_key e \<notin> dom (entry_map es)) \<and> keys_distinct es)"

definition dir_wf :: "Directory \<Rightarrow> bool" where
  "dir_wf d \<longleftrightarrow> tableSize d = 10 \<and> length (table d) = 10 \<and> list_all entry_wf (table d) \<and> keys_distinct (table d)"

definition dir_full :: "Directory \<Rightarrow> bool" where
  "dir_full d \<longleftrightarrow> list_all inUse (table d)"

definition name_ok :: "byte list \<Rightarrow> bool" where
  "name_ok name \<longleftrightarrow> 0 \<notin> set name"

lemma entry_match: "entry_wf e \<Longrightarrow> name_ok name \<Longrightarrow> strncmp_eq (de_name e) name FileNameMaxLen \<longleftrightarrow> entry_key e = dkey name"
  by (simp add: FileNameMaxLen_def strncmp_eq_key name_ok_def entry_wf_def entry_key_def)

lemma find_index_none:
  "list_all entry_wf es \<Longrightarrow> name_ok name \<Longrightarrow> 0 \<le> i \<Longrightarrow>
     find_index_from i es name = - 1 \<longleftrightarrow> entry_map es (dkey name) = None"
  by (induction es arbitrary: i) (auto simp: entry_match)

lemma find_index_some:
  "list_all entry_wf es \<Longrightarrow> name_ok name \<Longrightarrow> keys_distinct es \<Longrightarrow> entry_map es (dkey name) = Some s \<Longrightarrow>
     \<exists>k < length es. find_index_from i es name = i + int k \<and> inUse (es ! k) \<and> entry_key (es ! k) = dkey name
       \<and> de_sector (es ! k) = s"
proof (induction es arbitrary: i)
  case (Cons e es)
  show ?case
  proof (cases "inUse e \<and> entry_key e = dkey name")
    case True
    then show ?thesis using Cons.prems by (intro exI [of _ 0]) (simp add: entry_match)
  next
    case False
    then have "\<exists>k < length es. find_index_from (i + 1) es name = i + 1 + int k \<and> inUse (es ! k)
        \<and> entry_key (es ! k) = dkey name \<and> de_sector (es ! k) = s"
      using Cons.prems by (intro Cons.IH) (auto split: if_splits)
    then obtain k where "k < length es" "find_index_from (i + 1) es name = i + 1 + int k" "inUse (es ! k)"
      "entry_key (es ! k) = dkey name" "de_sector (es ! k) = s"
      by blast
    then show ?thesis
      using False Cons.prems by (intro exI [of _ "Suc k"]) (auto simp: entry_match)
  qed
qed simp

lemma entry_map_new_key:
  assumes "add_entry es name s = Some es'" and "list_all entry_wf es" and "name_ok name" and "int32 s"
    and "entry_map es (dkey name) = None" and "keys_distinct es"
  shows "entry_map es' = (entry_map es)(dkey name \<mapsto> s) \<and> list_all entry_wf es' \<and> length es' = length es \<and> keys_distinct es'"
  using assms
proof (induction es arbitrary: es')
  case (Cons e es)
  show ?case
  proof (cases "inUse e")
    case False
    define e' where "e' = e\<lparr>inUse := True, de_name := strncpy name FileNameMaxLen @ drop FileNameMaxLen (de_name e), de_sector := s\<rparr>"
    have "entry_wf e'" "entry_key e' = dkey name"
      using Cons.prems key_strncpy [of name 9]
      by (auto simp: e'_def entry_wf_def entry_key_def FileNameMaxLen_def name_ok_def)
    moreover have "es' = e' # es"
      using Cons.prems(1) False by (simp add: e'_def)
    ultimately show ?thesis
      using Cons.prems False by (auto simp: e'_def)
  next
    case True
    then obtain es1 where es1: "add_entry es name s = Some es1" "es' = e # es1"
      using Cons.prems(1) by auto
    have ne: "entry_key e \<noteq> dkey name"
      using Cons.prems(5) True by auto
    then have "entry_map es1 = (entry_map es)(dkey name \<mapsto> s) \<and> list_all entry_wf es1 \<and> length es1 = length es \<and> keys_distinct es1"
      using Cons.prems es1 True by (intro Cons.IH) auto
    then show ?thesis
      using es1(2) ne True Cons.prems(2,6) by (auto simp: fun_upd_twist)
  qed
qed simp

lemma add_entry_None: "add_entry es name s = None \<longleftrightarrow> list_all inUse es"
  by (induction es) auto

lemma entry_map_used: "k < length es \<Longrightarrow> inUse (es ! k) \<Longrightarrow> entry_map es (entry_key (es ! k)) \<noteq> None"
proof (induction es arbitrary: k)
  case (Cons e es)
  then show ?case by (cases k) auto
qed simp

lemma entry_map_free:
  "k < length es \<Longrightarrow> inUse (es ! k) \<Longrightarrow> keys_distinct es \<Longrightarrow> list_all entry_wf es \<Longrightarrow>
     entry_map (es[k := (es ! k)\<lparr>inUse := False\<rparr>]) = (entry_map es)(entry_key (es ! k) := None)
     \<and> keys_distinct (es[k := (es ! k)\<lparr>inUse := False\<rparr>]) \<and> list_all entry_wf (es[k := (es ! k)\<lparr>inUse := False\<rparr>])"
proof (induction es arbitrary: k)
  case (Cons e es)
  show ?case
  proof (cases k)
    case 0
    then show ?thesis
      using Cons.prems by (auto simp: entry_wf_def fun_upd_idem_iff domIff)
  next
    case (Suc j)
    then have IH: "entry_map (es[j := (es ! j)\<lparr>inUse := False\<rparr>]) = (entry_map es)(entry_key (es ! j) := None)
     \<and> keys_distinct (es[j := (es ! j)\<lparr>inUse := False\<rparr>]) \<and> list_all entry_wf (es[j := (es ! j)\<lparr>inUse := False\<rparr>])"
      using Cons.prems by (intro Cons.IH) auto
    have "entry_map es (entry_key (es ! j)) \<noteq> None"
      using Cons.prems(1,2) Suc by (auto simp: entry_map_used)
    then show ?thesis
      using IH Cons.prems Suc by (cases "inUse e") (auto simp: fun_eq_iff domIff)
  qed
qed simp

text \<open>
  What the file system relies on: a table of names keyed by \<open>dkey\<close>, with room for finitely many.
\<close>

locale name_table =
  fixes twf :: "'d \<Rightarrow> bool" and tmap :: "'d \<Rightarrow> byte list \<Rightarrow> int option" and tfull :: "'d \<Rightarrow> bool"
    and tfind :: "'d \<Rightarrow> byte list \<Rightarrow> int"
    and tadd :: "'d \<Rightarrow> byte list \<Rightarrow> int \<Rightarrow> bool \<times> 'd"
    and tremove :: "'d \<Rightarrow> byte list \<Rightarrow> bool \<times> 'd"
  assumes find_law: "twf d \<Longrightarrow> name_ok x \<Longrightarrow> tfind d x = (case tmap d (dkey x) of None \<Rightarrow> - 1 | Some s \<Rightarrow> s)"
    and add_present: "twf d \<Longrightarrow> name_ok x \<Longrightarrow> tmap d (dkey x) \<noteq> None \<or> tfull d \<Longrightarrow> tadd d x s = (False, d)"
    and add_absent: "twf d \<Longrightarrow> name_ok x \<Longrightarrow> int32 s \<Longrightarrow> tmap d (dkey x) = None \<Longrightarrow> \<not> tfull d \<Longrightarrow>
      \<exists>d'. tadd d x s = (True, d') \<and> twf d' \<and> tmap d' = (tmap d)(dkey x \<mapsto> s)"
    and remove_absent: "twf d \<Longrightarrow> name_ok x \<Longrightarrow> tmap d (dkey x) = None \<Longrightarrow> tremove d x = (False, d)"
    and remove_present: "twf d \<Longrightarrow> name_ok x \<Longrightarrow> tmap d (dkey x) \<noteq> None \<Longrightarrow>
      \<exists>d'. tremove d x = (True, d') \<and> twf d' \<and> \<not> tfull d' \<and> tmap d' = (tmap d)(dkey x := None)"
begin

lemma find_added:
  assumes "twf d" and "name_ok x" "name_ok y" and "int32 s" and "tadd d x s = (True, d')"
  shows "tfind d' y = (if dkey y = dkey x then s else tfind d y)"
proof -
  have "tmap d (dkey x) = None" "\<not> tfull d"
    using assms add_present [of d x s] by (metis Pair_inject)+
  then have "twf d'" "tmap d' = (tmap d)(dkey x \<mapsto> s)"
    using add_absent [of d x s] assms by auto
  then show ?thesis
    using assms find_law by simp
qed

lemma find_removed:
  assumes "twf d" and "name_ok x" "name_ok y" and "tremove d x = (True, d')"
  shows "tfind d' y = (if dkey y = dkey x then - 1 else tfind d y)"
proof -
  have "tmap d (dkey x) \<noteq> None"
    using assms remove_absent [of d x] by auto
  then have "twf d'" "tmap d' = (tmap d)(dkey x := None)"
    using remove_present [of d x] assms by auto
  then show ?thesis
    using assms find_law by simp
qed

lemma add_remove:
  assumes "twf d" and "name_ok x" and "int32 s" and "tmap d (dkey x) = None" and "\<not> tfull d"
  shows "\<exists>d' d''. tadd d x s = (True, d') \<and> tremove d' x = (True, d'') \<and> tmap d'' = tmap d \<and> twf d''"
proof -
  obtain d' where d': "tadd d x s = (True, d')" "twf d'" "tmap d' = (tmap d)(dkey x \<mapsto> s)"
    using add_absent [OF assms] by blast
  then have "\<exists>d''. tremove d' x = (True, d'') \<and> twf d'' \<and> \<not> tfull d'' \<and> tmap d'' = (tmap d')(dkey x := None)"
    using assms by (intro remove_present) auto
  then show ?thesis
    using d' assms(4) by (auto simp: fun_upd_idem)
qed

end

lemma FindIndex_Some:
  assumes "dir_wf d" and "name_ok x" and "dir_map d (dkey x) = Some s"
  obtains k where "k < length (table d)" "Directory_FindIndex d x = int k" "inUse (table d ! k)"
    "entry_key (table d ! k) = dkey x" "de_sector (table d ! k) = s"
  using find_index_some [of "table d" x s 0] assms by (auto simp: dir_wf_def dir_map_def Directory_FindIndex_def)

lemma FindIndex_None: "dir_wf d \<Longrightarrow> name_ok x \<Longrightarrow> Directory_FindIndex d x = - 1 \<longleftrightarrow> dir_map d (dkey x) = None"
  using find_index_none [of "table d" x 0] by (simp add: dir_wf_def dir_map_def Directory_FindIndex_def)

interpretation dir: name_table dir_wf dir_map dir_full Directory_Find Directory_Add Directory_Remove
proof unfold_locales
  fix d x
  assume d: "dir_wf d" and x: "name_ok x"
  show "Directory_Find d x = (case dir_map d (dkey x) of None \<Rightarrow> - 1 | Some s \<Rightarrow> s)"
  proof (cases "dir_map d (dkey x)")
    case None
    then show ?thesis using FindIndex_None [OF d x] by (simp add: Directory_Find_def)
  next
    case (Some s)
    then obtain k where "Directory_FindIndex d x = int k" "de_sector (table d ! k) = s"
      using FindIndex_Some [OF d x Some] by blast
    then show ?thesis using Some by (simp add: Directory_Find_def)
  qed
  show "Directory_Add d x s = (False, d)" if "dir_map d (dkey x) \<noteq> None \<or> dir_full d" for s
    using that FindIndex_None [OF d x] add_entry_None [of "table d" x s] by (auto simp: Directory_Add_def dir_full_def)
  show "\<exists>d'. Directory_Add d x s = (True, d') \<and> dir_wf d' \<and> dir_map d' = (dir_map d)(dkey x \<mapsto> s)"
    if s: "int32 s" and n: "dir_map d (dkey x) = None" and f: "\<not> dir_full d" for s
  proof -
    obtain es where es: "add_entry (table d) x s = Some es"
      using f add_entry_None [of "table d" x s] by (auto simp: dir_full_def)
    then show ?thesis
      using entry_map_new_key [OF es _ x s] d n FindIndex_None [OF d x]
      by (auto simp: Directory_Add_def dir_wf_def dir_map_def)
  qed
  show "Directory_Remove d x = (False, d)" if "dir_map d (dkey x) = None"
    using that FindIndex_None [OF d x] by (simp add: Directory_Remove_def)
  show "\<exists>d'. Directory_Remove d x = (True, d') \<and> dir_wf d' \<and> \<not> dir_full d' \<and> dir_map d' = (dir_map d)(dkey x := None)"
    if p: "dir_map d (dkey x) \<noteq> None"
  proof -
    obtain s where "dir_map d (dkey x) = Some s"
      using p by auto
    then obtain k where k: "k < length (table d)" "Directory_FindIndex d x = int k" "inUse (table d ! k)"
      "entry_key (table d ! k) = dkey x"
      using FindIndex_Some [OF d x] by blast
    then show ?thesis
      using entry_map_free [OF k(1,3)] d
      by (auto simp: Directory_Remove_def dir_wf_def dir_map_def dir_full_def list_all_length intro!: exI [of _ k])
  qed
qed

section \<open>Directories in files\<close>

definition stores_dir :: "(nat \<Rightarrow> byte list) \<Rightarrow> FileHeader \<Rightarrow> Directory \<Rightarrow> bool" where
  "stores_dir S h d \<longleftrightarrow> hdr_ok h \<and> numBytes h = 200 \<and> dir_wf d \<and> file_content S h = table_bytes (table d)"

lemma Directory_new_wf: "dir_wf (Directory_new junk 10) \<and> dir_map (Directory_new junk 10) = Map.empty \<and> \<not> dir_full (Directory_new junk 10)"
proof -
  have "list_all entry_wf (bytes_table 10 bs) \<and> length (bytes_table 10 bs) = 10" if "length bs = 200" for bs
    using that bytes_table_wf [of 10 bs] by simp
  moreover have "entry_map (map (\<lambda>e. e\<lparr>inUse := False\<rparr>) es) = Map.empty" "keys_distinct (map (\<lambda>e. e\<lparr>inUse := False\<rparr>) es)" for es
    by (induction es) auto
  ultimately show ?thesis
    by (auto simp: Directory_new_def dir_wf_def dir_map_def dir_full_def list_all_length entry_wf_def intro!: exI [of _ 0])
qed

lemma Directory_FetchFrom_ok:
  assumes "stores_dir (sector sd) (hdr f) d" and "idle sd" and "dir_wf d0"
  obtains sd' where "Directory_FetchFrom d0 f sd = Inr (d, sd')" "idle sd'" "sector sd' = sector sd"
proof -
  have f: "hdr_ok (hdr f)" "dir_wf d" "file_content (sector sd) (hdr f) = table_bytes (table d)"
    using assms(1) by (auto simp: stores_dir_def)
  have len: "length (table_bytes (table d)) = 200"
    using f(2) length_table_bytes [of "table d"] by (simp add: dir_wf_def)
  obtain sd' where rd: "OpenFile_ReadAt f sd 200 0 = Inr (take (nat 200) (drop (nat 0) (file_content (sector sd) (hdr f))), sd')"
    "idle sd'" "sector sd' = sector sd"
    using ReadAt_ok [OF f(1) assms(2) order_refl range_fits_small [OF f(1)], of 200] by auto
  have "Directory_FetchFrom d0 f sd = Inr (d0\<lparr>table := table d\<rparr>, sd')"
    using rd(1) assms(3) f(2,3) len bytes_table_bytes [of "table d" 10] by (simp add: Directory_FetchFrom_def dir_wf_def)
  moreover have "d0\<lparr>table := table d\<rparr> = d"
    using assms(3) f(2) by (simp add: dir_wf_def)
  ultimately show thesis
    using that rd(2,3) by simp
qed

lemma Directory_WriteBack_ok:
  assumes "hdr_ok (hdr f)" and "numBytes (hdr f) = 200" and "idle sd" and "dir_wf d"
  obtains sd' where "Directory_WriteBack junk d f sd = Inr sd'" "idle sd'" "stores_dir (sector sd') (hdr f) d"
    "\<And>s. s \<notin> set (data_sectors (hdr f)) \<Longrightarrow> sector sd' s = sector sd s"
proof -
  have n: "nat (tableSize d * 20) = 200" "length (table_bytes (table d)) = 200"
    using assms(4) length_table_bytes [of "table d"] by (simp_all add: dir_wf_def)
  have fits: "range_fits f 0 (tableSize d * 20)"
    using assms(4) by (intro range_fits_small assms(1)) (simp add: dir_wf_def)
  obtain v sd' where w: "OpenFile_WriteAt junk f sd (table_bytes (table d)) (tableSize d * 20) 0 = Inr (v, sd')" "idle sd'"
    "file_content (sector sd') (hdr f) = overwrite (file_content (sector sd) (hdr f)) (nat 0) (take 200 (table_bytes (table d)))"
    "\<And>s. s \<notin> set (data_sectors (hdr f)) \<Longrightarrow> sector sd' s = sector sd s"
    using WriteAt_ok [OF assms(1,3) order_refl fits, of "table_bytes (table d)" junk] n by (metis order_refl)
  then have "stores_dir (sector sd') (hdr f) d"
    using assms n(2) by (simp add: stores_dir_def overwrite_all)
  moreover have "Directory_WriteBack junk d f sd = Inr sd'"
    using w(1) by (simp add: Directory_WriteBack_def)
  ultimately show thesis
    using that w(2,4) by blast
qed

section \<open>Properties of directories\<close>

text \<open>C27: A directory is a finite map from the first nine bytes of a name to a sector: \<^verbatim>\<open>Find\<close> returns what the last
  successful \<^verbatim>\<open>Add\<close> of that name stored and -1 after \<^verbatim>\<open>Remove\<close>; \<^verbatim>\<open>Add\<close> fails exactly if the name is present or
  all ten entries are in use, \<^verbatim>\<open>Remove\<close> exactly if the name is absent, and a failure changes nothing.\<close>
theorem directory_is_map:
  assumes "dir_wf d" and "name_ok x" "name_ok y" and "int32 s"
  shows "(case Directory_Add d x s of (ok, d') \<Rightarrow>
      dir_wf d' \<and> ok = (Directory_FindIndex d x = - 1 \<and> \<not> dir_full d)
      \<and> (if ok then Directory_Find d' y = (if take 9 y = take 9 x then s else Directory_Find d y) else d' = d))
    \<and> (case Directory_Remove d x of (ok, d') \<Rightarrow>
      dir_wf d' \<and> ok = (Directory_FindIndex d x \<noteq> - 1)
      \<and> (if ok then Directory_Find d' y = (if take 9 y = take 9 x then - 1 else Directory_Find d y) else d' = d))"
proof (intro conjI)
  obtain ok d' where a: "Directory_Add d x s = (ok, d')"
    by fastforce
  have "dir_wf d' \<and> ok = (dir_map d (dkey x) = None \<and> \<not> dir_full d) \<and> (\<not> ok \<longrightarrow> d' = d)"
    using dir.add_present [OF assms(1,2), of s] dir.add_absent [OF assms(1,2,4)] a assms(1)
    by (cases "dir_map d (dkey x) = None \<and> \<not> dir_full d") auto
  then show "case Directory_Add d x s of (ok, d') \<Rightarrow>
      dir_wf d' \<and> ok = (Directory_FindIndex d x = - 1 \<and> \<not> dir_full d)
      \<and> (if ok then Directory_Find d' y = (if take 9 y = take 9 x then s else Directory_Find d y) else d' = d)"
    using a FindIndex_None [OF assms(1,2)] dir.find_added [OF assms, of d'] by auto
next
  obtain ok d' where r: "Directory_Remove d x = (ok, d')"
    by fastforce
  have "dir_wf d' \<and> ok = (dir_map d (dkey x) \<noteq> None) \<and> (\<not> ok \<longrightarrow> d' = d)"
    using dir.remove_present [OF assms(1,2)] dir.remove_absent [OF assms(1,2)] r assms(1)
    by (cases "dir_map d (dkey x) = None") auto
  then show "case Directory_Remove d x of (ok, d') \<Rightarrow>
      dir_wf d' \<and> ok = (Directory_FindIndex d x \<noteq> - 1)
      \<and> (if ok then Directory_Find d' y = (if take 9 y = take 9 x then - 1 else Directory_Find d y) else d' = d)"
    using r FindIndex_None [OF assms(1,2)] dir.find_removed [OF assms(1-3), of d'] by auto
qed

theorem directory_is_map_witness:
  "case Directory_Add (Directory_new (\<lambda>k. 0xCC) 10) [97, 98] 7 of (ok, d') \<Rightarrow> ok \<and> Directory_Find d' [97, 98] = 7"
  using directory_is_map [of "Directory_new (\<lambda>k. 0xCC) 10" "[97, 98]" "[97, 98]" 7] Directory_new_wf [of "\<lambda>k. 0xCC"]
    FindIndex_None [of "Directory_new (\<lambda>k. 0xCC) 10" "[97, 98]"]
  by (auto simp: name_ok_def int32_def)

text \<open>\<^verbatim>\<open>Add\<close> does not terminate a name of nine bytes or more: \<^verbatim>\<open>List\<close> prints the tenth byte of the entry, which
  nothing ever set, after the name, if it is not zero.\<close>
theorem directory_name_unterminated:
  assumes "junk 17 \<noteq> 0" and "name_ok x" and "length x = 9"
  shows "c_string_at (table_bytes (table (snd (Directory_Add (Directory_new junk 1) x s)))) 8
    = (if junk 18 = 0 then Inr (x @ [junk 17]) else if junk 19 = 0 then Inr (x @ [junk 17, junk 18]) else Inl OutOfBounds)"
proof -
  have d: "table (Directory_new junk 1) = [\<lparr>inUse = False, de_pad1 = map junk [1, 2, 3],
      de_sector = sint (bytes_word (junk 4) (junk 5) (junk 6) (junk 7)), de_name = map junk [8..<18], de_pad2 = map junk [18, 19]\<rparr>]"
    by (simp add: Directory_new_def bytes_entry_def upt_rec numeral_eq_Suc)
  have "strncpy x 9 = x"
    using assms(3) by (simp add: strncpy_def)
  then have "drop 8 (table_bytes (table (snd (Directory_Add (Directory_new junk 1) x s)))) = x @ map junk [17, 18, 19]"
    by (simp add: Directory_Add_def Directory_FindIndex_def d table_bytes_def entry_bytes_def FileNameMaxLen_def word_bytes_def
        upt_rec numeral_eq_Suc)
  moreover have "takeWhile (\<lambda>b. b \<noteq> 0) (x @ ys) = x @ takeWhile (\<lambda>b. b \<noteq> 0) ys" for ys
    using assms(2) by (intro takeWhile_append2) (auto simp: name_ok_def)
  ultimately show ?thesis
    using assms(1,2) by (auto simp: c_string_at_def name_ok_def)
qed

theorem directory_name_unterminated_witness:
  "c_string_at (table_bytes (table (snd (Directory_Add (Directory_new (\<lambda>k. 255) 1) (replicate 9 97) 3)))) 8 = Inl OutOfBounds"
  using directory_name_unterminated [of "\<lambda>k. 255" "replicate 9 97" 3] by (simp add: name_ok_def)

end
