(* ===== verification/FileSystem.thy ===== *)
theory FileSystem
  imports Directory
begin

text \<open>
  \<^verbatim>\<open>filesys/filesys.cc\<close>: the file system proper (the code compiled without \<^verbatim>\<open>FILESYS_STUB\<close>): a free map and a
  root directory, both kept in files whose headers are in sectors 0 and 1.

  \<open>mem i\<close> is what the memory of the \<open>i\<close>-th allocation of a call holds before it is initialised. The invariant
  \<open>fs_ok\<close> says that the headers on disk describe disjoint files, that the free map marks exactly the sectors
  they use, and that both are on disk; \<open>fs_files\<close> is the abstract file system, a finite map from names (their
  first nine bytes) to contents.
\<close>

definition FreeMapSector :: int where "FreeMapSector = 0"
definition DirectorySector :: int where "DirectorySector = 1"
definition FreeMapFileSize :: int where "FreeMapFileSize = NumSectors sdiv BitsInByte"
definition NumDirEntries :: int where "NumDirEntries = 10"
definition DirectoryFileSize :: int where "DirectoryFileSize = 20 * NumDirEntries"

record FileSystem =
  freeMapFile :: OpenFile
  directoryFile :: OpenFile

definition FileSystem_new :: "(nat \<Rightarrow> nat \<Rightarrow> byte) \<Rightarrow> bool \<Rightarrow> SynchDisk \<Rightarrow> (FileSystem \<times> SynchDisk) result" where
  "FileSystem_new mem format sd =
     (if format then
        rbind (Bitmap_new NumSectors) (\<lambda>freeMap0.
        let directory = Directory_new (mem 0) NumDirEntries;
            mapHdr0 = FileHeader_new (mem 1);
            dirHdr0 = FileHeader_new (mem 2) in
        rbind (Bitmap_Mark freeMap0 FreeMapSector) (\<lambda>freeMap1.
        rbind (Bitmap_Mark freeMap1 DirectorySector) (\<lambda>freeMap2.
        rbind (FileHeader_Allocate mapHdr0 freeMap2 FreeMapFileSize) (\<lambda>(ok1, mapHdr, freeMap3).
        rbind (ASSERT ok1) (\<lambda>_.
        rbind (FileHeader_Allocate dirHdr0 freeMap3 DirectoryFileSize) (\<lambda>(ok2, dirHdr, freeMap).
        rbind (ASSERT ok2) (\<lambda>_.
        rbind (FileHeader_WriteBack mapHdr sd FreeMapSector) (\<lambda>sd1.
        rbind (FileHeader_WriteBack dirHdr sd1 DirectorySector) (\<lambda>sd2.
        rbind (OpenFile_new sd2 FreeMapSector) (\<lambda>(mapFile, sd3).
        rbind (OpenFile_new sd3 DirectorySector) (\<lambda>(dirFile, sd4).
        rbind (PersistentBitmap_WriteBack (mem 3) freeMap mapFile sd4) (\<lambda>sd5.
        rbind (Directory_WriteBack (mem 4) directory dirFile sd5) (\<lambda>sd6.
        Inr (\<lparr>freeMapFile = mapFile, directoryFile = dirFile\<rparr>, sd6))))))))))))))
      else
        rbind (OpenFile_new sd FreeMapSector) (\<lambda>(mapFile, sd1).
        rbind (OpenFile_new sd1 DirectorySector) (\<lambda>(dirFile, sd2).
        Inr (\<lparr>freeMapFile = mapFile, directoryFile = dirFile\<rparr>, sd2))))"

definition FileSystem_Create ::
    "(nat \<Rightarrow> nat \<Rightarrow> byte) \<Rightarrow> FileSystem \<Rightarrow> SynchDisk \<Rightarrow> byte list \<Rightarrow> int \<Rightarrow> (bool \<times> SynchDisk) result" where
  "FileSystem_Create mem fs sd name initialSize =
     rbind (Directory_FetchFrom (Directory_new (mem 0) NumDirEntries) (directoryFile fs) sd) (\<lambda>(directory, sd1).
     if Directory_Find directory name \<noteq> - 1 then Inr (False, sd1)
     else rbind (PersistentBitmap_new (freeMapFile fs) sd1 NumSectors) (\<lambda>(freeMap, sd2).
     rbind (Bitmap_FindAndSet freeMap) (\<lambda>(sectr, freeMap1).
     if sectr = - 1 then Inr (False, sd2)
     else case Directory_Add directory name sectr of (added, directory1) \<Rightarrow>
     if \<not> added then Inr (False, sd2)
     else rbind (FileHeader_Allocate (FileHeader_new (mem 1)) freeMap1 initialSize) (\<lambda>(ok, h, freeMap2).
     if \<not> ok then Inr (False, sd2)
     else rbind (FileHeader_WriteBack h sd2 sectr) (\<lambda>sd3.
     rbind (Directory_WriteBack (mem 2) directory1 (directoryFile fs) sd3) (\<lambda>sd4.
     rbind (PersistentBitmap_WriteBack (mem 3) freeMap2 (freeMapFile fs) sd4) (\<lambda>sd5.
     Inr (True, sd5))))))))"

definition FileSystem_Open ::
    "(nat \<Rightarrow> nat \<Rightarrow> byte) \<Rightarrow> FileSystem \<Rightarrow> SynchDisk \<Rightarrow> byte list \<Rightarrow> (OpenFile option \<times> SynchDisk) result" where
  "FileSystem_Open mem fs sd name =
     rbind (Directory_FetchFrom (Directory_new (mem 0) NumDirEntries) (directoryFile fs) sd) (\<lambda>(directory, sd1).
     let sectr = Directory_Find directory name in
     if sectr < 0 then Inr (None, sd1)
     else rbind (OpenFile_new sd1 sectr) (\<lambda>(f, sd2). Inr (Some f, sd2)))"

definition FileSystem_Remove ::
    "(nat \<Rightarrow> nat \<Rightarrow> byte) \<Rightarrow> FileSystem \<Rightarrow> SynchDisk \<Rightarrow> byte list \<Rightarrow> (bool \<times> SynchDisk) result" where
  "FileSystem_Remove mem fs sd name =
     rbind (Directory_FetchFrom (Directory_new (mem 0) NumDirEntries) (directoryFile fs) sd) (\<lambda>(directory, sd1).
     let sectr = Directory_Find directory name in
     if sectr = - 1 then Inr (False, sd1)
     else rbind (FileHeader_FetchFrom sd1 sectr) (\<lambda>(fileHdr, sd2).
     rbind (PersistentBitmap_new (freeMapFile fs) sd2 NumSectors) (\<lambda>(freeMap, sd3).
     rbind (FileHeader_Deallocate fileHdr freeMap) (\<lambda>freeMap1.
     rbind (Bitmap_Clear freeMap1 sectr) (\<lambda>freeMap2.
     case Directory_Remove directory name of (_, directory1) \<Rightarrow>
     rbind (PersistentBitmap_WriteBack (mem 1) freeMap2 (freeMapFile fs) sd3) (\<lambda>sd4.
     rbind (Directory_WriteBack (mem 2) directory1 (directoryFile fs) sd4) (\<lambda>sd5.
     Inr (True, sd5))))))))"

definition FileSystem_List ::
    "(nat \<Rightarrow> nat \<Rightarrow> byte) \<Rightarrow> FileSystem \<Rightarrow> SynchDisk \<Rightarrow> (printed list \<times> SynchDisk) result" where
  "FileSystem_List mem fs sd =
     rbind (Directory_FetchFrom (Directory_new (mem 0) NumDirEntries) (directoryFile fs) sd) (\<lambda>(directory, sd1).
     rbind (Directory_List directory) (\<lambda>out. Inr (out, sd1)))"

definition FileSystem_Print ::
    "(nat \<Rightarrow> nat \<Rightarrow> byte) \<Rightarrow> FileSystem \<Rightarrow> SynchDisk \<Rightarrow> (printed list \<times> SynchDisk) result" where
  "FileSystem_Print mem fs sd =
     rbind (PersistentBitmap_new (freeMapFile fs) sd NumSectors) (\<lambda>(freeMap, sd1).
     rbind (FileHeader_FetchFrom sd1 FreeMapSector) (\<lambda>(bitHdr, sd2).
     rbind (FileHeader_Print bitHdr sd2) (\<lambda>(out1, sd3).
     rbind (FileHeader_FetchFrom sd3 DirectorySector) (\<lambda>(dirHdr, sd4).
     rbind (FileHeader_Print dirHdr sd4) (\<lambda>(out2, sd5).
     rbind (Bitmap_Print freeMap) (\<lambda>marked.
     rbind (Directory_FetchFrom (Directory_new (mem 0) NumDirEntries) (directoryFile fs) sd5) (\<lambda>(directory, sd6).
     rbind (Directory_Print directory sd6) (\<lambda>(out3, sd7).
     Inr (PStr ''Bit map file header:\<newline>'' # out1 @ PStr ''Directory file header:\<newline>'' # out2
            @ PStr ''Bitmap set:\<newline>'' # concat (map (\<lambda>i. [PInt i, PStr '', '']) marked) @ [PStr ''\<newline>''] @ out3, sd7)))))))))"

lemmas fs_consts = FreeMapSector_def DirectorySector_def FreeMapFileSize_def NumDirEntries_def DirectoryFileSize_def
  BitsInByte_def

section \<open>Invariant\<close>

definition hdr_at :: "(nat \<Rightarrow> byte list) \<Rightarrow> nat \<Rightarrow> FileHeader" where
  "hdr_at S s = bytes_header (S s)"

definition owned :: "(nat \<Rightarrow> byte list) \<Rightarrow> nat \<Rightarrow> nat set" where
  "owned S s = insert s (set (data_sectors (hdr_at S s)))"

text \<open>The files named by \<open>m\<close> are well formed, and use sectors that no other file and not the system uses.\<close>

definition files_ok :: "(nat \<Rightarrow> byte list) \<Rightarrow> nat set \<Rightarrow> (byte list \<Rightarrow> int option) \<Rightarrow> bool" where
  "files_ok S sys m \<longleftrightarrow>
     (\<forall>k s. m k = Some s \<longrightarrow> 0 \<le> s \<and> s < 1024 \<and> hdr_ok (hdr_at S (nat s))
        \<and> nat s \<notin> set (data_sectors (hdr_at S (nat s))) \<and> owned S (nat s) \<inter> sys = {})
   \<and> (\<forall>k k' s s'. k \<noteq> k' \<longrightarrow> m k = Some s \<longrightarrow> m k' = Some s' \<longrightarrow> owned S (nat s) \<inter> owned S (nat s') = {})"

definition all_owned :: "(nat \<Rightarrow> byte list) \<Rightarrow> (byte list \<Rightarrow> int option) \<Rightarrow> nat set" where
  "all_owned S m = (\<Union>s \<in> ran m. owned S (nat s))"

definition sys_sectors :: "FileSystem \<Rightarrow> nat set" where
  "sys_sectors fs = {0, 1} \<union> set (data_sectors (hdr (freeMapFile fs))) \<union> set (data_sectors (hdr (directoryFile fs)))"

definition sys_ok :: "FileSystem \<Rightarrow> (nat \<Rightarrow> byte list) \<Rightarrow> bool" where
  "sys_ok fs S \<longleftrightarrow> hdr_at S 0 = hdr (freeMapFile fs) \<and> hdr_at S 1 = hdr (directoryFile fs)
     \<and> {0, 1} \<inter> (set (data_sectors (hdr (freeMapFile fs))) \<union> set (data_sectors (hdr (directoryFile fs)))) = {}
     \<and> set (data_sectors (hdr (freeMapFile fs))) \<inter> set (data_sectors (hdr (directoryFile fs))) = {}"

definition fs_ok :: "FileSystem \<Rightarrow> SynchDisk \<Rightarrow> Bitmap \<Rightarrow> Directory \<Rightarrow> bool" where
  "fs_ok fs sd b d \<longleftrightarrow> idle sd \<and> sys_ok fs (sector sd) \<and> stores_map (sector sd) (hdr (freeMapFile fs)) b
     \<and> stores_dir (sector sd) (hdr (directoryFile fs)) d \<and> files_ok (sector sd) (sys_sectors fs) (dir_map d)
     \<and> used_bits b = sys_sectors fs \<union> all_owned (sector sd) (dir_map d)"

definition fs_files :: "SynchDisk \<Rightarrow> Directory \<Rightarrow> byte list \<Rightarrow> byte list option" where
  "fs_files sd d k = map_option (\<lambda>s. file_content (sector sd) (hdr_at (sector sd) (nat s))) (dir_map d k)"

section \<open>Frames\<close>

lemma owned_cong: "S' s = S s \<Longrightarrow> owned S' s = owned S s"
  by (simp add: owned_def hdr_at_def)

lemma files_ok_heads:
  assumes "files_ok S sys m" and "\<And>k s. m k = Some s \<Longrightarrow> S' (nat s) = S (nat s)"
  shows "files_ok S' sys m" "all_owned S' m = all_owned S m"
proof -
  have "owned S' (nat s) = owned S (nat s)" "hdr_at S' (nat s) = hdr_at S (nat s)" if "m k = Some s" for k s
    using assms(2) [OF that] by (simp_all add: owned_def hdr_at_def)
  then show "files_ok S' sys m" "all_owned S' m = all_owned S m"
    using assms(1) unfolding files_ok_def all_owned_def by (simp_all add: ran_def) blast+
qed

lemma files_ok_cong:
  assumes "files_ok S sys m" and "\<And>x. x \<in> all_owned S m \<Longrightarrow> S' x = S x"
  shows "files_ok S' sys m" "all_owned S' m = all_owned S m"
  using files_ok_heads [OF assms(1), of S'] assms(2) by (auto simp: all_owned_def owned_def intro: ranI)

lemma fs_files_cong:
  assumes "files_ok (sector sd) sys (dir_map d)" and "\<And>x. x \<in> all_owned (sector sd) (dir_map d) \<Longrightarrow> sector sd' x = sector sd x"
  shows "fs_files sd' d = fs_files sd d"
proof
  fix k
  show "fs_files sd' d k = fs_files sd d k"
  proof (cases "dir_map d k")
    case (Some s)
    let ?h = "hdr_at (sector sd) (nat s)"
    have in_all: "x \<in> all_owned (sector sd) (dir_map d)" if "x \<in> owned (sector sd) (nat s)" for x
      using that Some by (auto simp: all_owned_def intro: ranI)
    have "hdr_at (sector sd') (nat s) = ?h"
      using assms(2) [OF in_all] by (simp add: hdr_at_def owned_def)
    moreover have "file_content (sector sd') ?h = file_content (sector sd) ?h"
      using assms Some in_all by (intro file_content_cong) (auto simp: files_ok_def owned_def)
    ultimately show ?thesis
      by (simp add: fs_files_def Some)
  qed (simp add: fs_files_def)
qed

lemma fs_ok_sectors: "fs_ok fs sd b d \<Longrightarrow> idle sd' \<Longrightarrow> sector sd' = sector sd \<Longrightarrow> fs_ok fs sd' b d \<and> fs_files sd' d = fs_files sd d"
  by (simp add: fs_ok_def fs_files_def [abs_def])

lemma OpenFile_new_ok:
  assumes "idle sd" and "n < 1024"
  obtains sd' where "OpenFile_new sd (int n) = Inr (\<lparr>hdr = hdr_at (sector sd) n, seekPosition = 0\<rparr>, sd')" "idle sd'"
    "sector sd' = sector sd"
proof -
  obtain sd' where "FileHeader_FetchFrom sd (int n) = Inr (bytes_header (sector sd n), sd')" "idle sd'" "sector sd' = sector sd"
    using FetchFrom_ok [OF assms] .
  then show thesis
    using that by (simp add: OpenFile_new_def hdr_at_def)
qed

lemma fs_fetch_dir:
  assumes "fs_ok fs sd b d"
  obtains sd' where "Directory_FetchFrom (Directory_new junk NumDirEntries) (directoryFile fs) sd = Inr (d, sd')" "idle sd'"
    "sector sd' = sector sd" "fs_ok fs sd' b d" "fs_files sd' d = fs_files sd d"
proof -
  have "stores_dir (sector sd) (hdr (directoryFile fs)) d" "idle sd" "dir_wf (Directory_new junk NumDirEntries)"
    using assms Directory_new_wf by (simp_all add: fs_ok_def NumDirEntries_def)
  then obtain sd' where "Directory_FetchFrom (Directory_new junk NumDirEntries) (directoryFile fs) sd = Inr (d, sd')" "idle sd'"
    "sector sd' = sector sd"
    using Directory_FetchFrom_ok by blast
  then show thesis
    using that fs_ok_sectors [OF assms] by blast
qed

lemma fs_fetch_map:
  assumes "fs_ok fs sd b d"
  obtains sd' where "PersistentBitmap_new (freeMapFile fs) sd NumSectors = Inr (b, sd')" "idle sd'"
    "sector sd' = sector sd" "fs_ok fs sd' b d" "fs_files sd' d = fs_files sd d"
proof -
  have "stores_map (sector sd) (hdr (freeMapFile fs)) b" "idle sd"
    using assms by (simp_all add: fs_ok_def)
  then obtain sd' where "PersistentBitmap_new (freeMapFile fs) sd NumSectors = Inr (b, sd')" "idle sd'" "sector sd' = sector sd"
    using PersistentBitmap_new_ok by blast
  then show thesis
    using that fs_ok_sectors [OF assms] by blast
qed

section \<open>Formatting and mounting\<close>

lemma Mark_ok:
  assumes "free_map b" and "i < 1024"
  obtains b' where "Bitmap_Mark b (int i) = Inr b'" "free_map b'" "used_bits b' = insert i (used_bits b)"
proof -
  have "i < nat (numBits b)" "bm_wf b"
    using assms by (auto simp: free_map_def disk_consts)
  then obtain b' where b': "Bitmap_Mark b (int i) = Inr b'" "bm_wf b'" "bits b' = (bits b)[i := True]"
    using Bitmap_Mark_bits [of b i] by blast
  then have "free_map b'" "used_bits b' = insert i (used_bits b)"
    using assms arg_cong [OF b'(3), of length] unfolding free_map_iff bm.used_def by (simp_all add: true_at_set)
  then show thesis
    using that b'(1) by blast
qed

lemma small_file_sectors: "divRoundUp 128 SectorSize = 1" "divRoundUp 200 SectorSize = 2"
  by (simp_all add: SectorSize_def divRoundUp_nonneg)

lemma hdr_at_written: "hdr_wf h \<Longrightarrow> hdr_at (S(s := header_bytes h)) s = h"
  by (simp add: hdr_at_def fh.dec_enc)

lemma hdr_at_other: "s' \<noteq> s \<Longrightarrow> hdr_at (S(s := bs)) s' = hdr_at S s'"
  by (simp add: hdr_at_def)

text \<open>The two headers that formatting creates.\<close>

lemma format_headers:
  obtains b1 b2 b3 mapHdr dirHdr b where
    "Bitmap_new NumSectors = Inr b1" "Bitmap_Mark b1 FreeMapSector = Inr b2" "Bitmap_Mark b2 DirectorySector = Inr b3"
    "\<exists>b4. FileHeader_Allocate (FileHeader_new j1) b3 FreeMapFileSize = Inr (True, mapHdr, b4)
       \<and> FileHeader_Allocate (FileHeader_new j2) b4 DirectoryFileSize = Inr (True, dirHdr, b)"
    "hdr_ok mapHdr" "numBytes mapHdr = 128" "hdr_ok dirHdr" "numBytes dirHdr = 200" "free_map b"
    "{0, 1} \<inter> (set (data_sectors mapHdr) \<union> set (data_sectors dirHdr)) = {}"
    "set (data_sectors mapHdr) \<inter> set (data_sectors dirHdr) = {}"
    "used_bits b = {0, 1} \<union> set (data_sectors mapHdr) \<union> set (data_sectors dirHdr)"
proof -
  obtain b1 where b1: "Bitmap_new NumSectors = Inr b1"
    using Bitmap_new_bits [of NumSectors] by (auto simp: disk_consts)
  then have f1: "free_map b1" "used_bits b1 = {}"
    using fresh_bitmap by blast+
  obtain b2 where b2: "Bitmap_Mark b1 (int 0) = Inr b2" "free_map b2" "used_bits b2 = {0}"
    using Mark_ok [OF f1(1), of 0] f1(2) by auto
  obtain b3 where b3: "Bitmap_Mark b2 (int 1) = Inr b3" "free_map b3" "used_bits b3 = {0, 1}"
    using Mark_ok [OF b2(2), of 1] b2(3) by (metis insert_commute one_less_numeral_iff semiring_norm(76))
  have max: "MaxFileSize = 3840"
    by (simp add: MaxFileSize_def NumDirect_eq SectorSize_def)
  obtain h1 b4 where a1: "FileHeader_Allocate (FileHeader_new j1) b3 128 = Inr (True, h1, b4)" "hdr_ok h1" "numBytes h1 = 128"
    "free_map b4" "set (data_sectors h1) \<inter> used_bits b3 = {}" "used_bits b4 = used_bits b3 \<union> set (data_sectors h1)"
    by (rule Allocate_ok [OF b3(2) FileHeader_new_wf, of 128 j1]) (simp_all add: max b3(3) small_file_sectors)
  have "length (data_sectors h1) = 1"
    using length_data_sectors [OF a1(2)] a1(2,3) small_file_sectors by (simp add: hdr_ok_def)
  then have "card (set (data_sectors h1)) \<le> 1"
    using card_length [of "data_sectors h1"] by simp
  then have "card (used_bits b4) \<le> 3"
    using card_Un_le [of "{0, 1 :: nat}" "set (data_sectors h1)"] b3(3) a1(6) by simp
  then have room: "int (card (used_bits b4)) + divRoundUp 200 SectorSize \<le> 1024"
    by (simp add: small_file_sectors)
  obtain h2 b where a2: "FileHeader_Allocate (FileHeader_new j2) b4 200 = Inr (True, h2, b)" "hdr_ok h2" "numBytes h2 = 200"
    "free_map b" "set (data_sectors h2) \<inter> used_bits b4 = {}" "used_bits b = used_bits b4 \<union> set (data_sectors h2)"
    by (rule Allocate_ok [OF a1(4) FileHeader_new_wf, of 200 j2]) (simp_all add: max room)
  show thesis
  proof (rule that [of b1 b2 b3 h1 h2 b])
    show "Bitmap_Mark b1 FreeMapSector = Inr b2" "Bitmap_Mark b2 DirectorySector = Inr b3"
      using b2(1) b3(1) by (simp_all add: fs_consts)
    show "\<exists>b4. FileHeader_Allocate (FileHeader_new j1) b3 FreeMapFileSize = Inr (True, h1, b4)
       \<and> FileHeader_Allocate (FileHeader_new j2) b4 DirectoryFileSize = Inr (True, h2, b)"
      using a1(1) a2(1) by (simp add: fs_consts disk_consts)
  qed (use b1 a1 a2 b3(3) in auto)
qed

lemma format_ok:
  assumes "idle sd"
  obtains fs sd' b d where "FileSystem_new mem True sd = Inr (fs, sd')" "fs_ok fs sd' b d" "dir_map d = Map.empty"
    "\<not> dir_full d" "card (used_bits b) \<le> 5"
proof -
  define d where "d = Directory_new (mem 0) NumDirEntries"
  have d: "dir_wf d" "dir_map d = Map.empty" "\<not> dir_full d"
    using Directory_new_wf [of "mem 0"] by (simp_all add: d_def NumDirEntries_def)
  obtain b1 b2 b3 h1 h2 b where f: "Bitmap_new NumSectors = Inr b1" "Bitmap_Mark b1 FreeMapSector = Inr b2"
    "Bitmap_Mark b2 DirectorySector = Inr b3"
    "\<exists>b4. FileHeader_Allocate (FileHeader_new (mem 1)) b3 FreeMapFileSize = Inr (True, h1, b4)
       \<and> FileHeader_Allocate (FileHeader_new (mem 2)) b4 DirectoryFileSize = Inr (True, h2, b)"
    "hdr_ok h1" "numBytes h1 = 128" "hdr_ok h2" "numBytes h2 = 200" "free_map b"
    "{0, 1} \<inter> (set (data_sectors h1) \<union> set (data_sectors h2)) = {}"
    "set (data_sectors h1) \<inter> set (data_sectors h2) = {}"
    "used_bits b = {0, 1} \<union> set (data_sectors h1) \<union> set (data_sectors h2)"
    using format_headers by blast
  have wf: "hdr_wf h1" "hdr_wf h2"
    using f(5,7) by (simp_all add: hdr_ok_def)
  obtain sd1 where w1: "FileHeader_WriteBack h1 sd (int 0) = Inr sd1" "idle sd1" "sector sd1 = (sector sd)(0 := header_bytes h1)"
    by (rule WriteBack_ok [OF assms _ wf(1), of 0]) simp_all
  obtain sd2 where w2: "FileHeader_WriteBack h2 sd1 (int 1) = Inr sd2" "idle sd2" "sector sd2 = (sector sd1)(1 := header_bytes h2)"
    by (rule WriteBack_ok [OF w1(2) _ wf(2), of 1]) simp_all
  have h: "hdr_at (sector sd2) 0 = h1" "hdr_at (sector sd2) 1 = h2"
    using wf by (simp_all add: w1(3) w2(3) hdr_at_def fh.dec_enc)
  define mf where "mf = \<lparr>hdr = h1, seekPosition = 0\<rparr>"
  define df where "df = \<lparr>hdr = h2, seekPosition = 0\<rparr>"
  obtain sd3 where o1: "OpenFile_new sd2 (int 0) = Inr (mf, sd3)" "idle sd3" "sector sd3 = sector sd2"
    using OpenFile_new_ok [OF w2(2), of 0] h(1) unfolding mf_def by auto
  obtain sd4 where o2: "OpenFile_new sd3 (int 1) = Inr (df, sd4)" "idle sd4" "sector sd4 = sector sd2"
    using OpenFile_new_ok [OF o1(2), of 1] h(2) o1(3) unfolding df_def by auto
  obtain sd5 where p: "PersistentBitmap_WriteBack (mem 3) b mf sd4 = Inr sd5" "idle sd5" "stores_map (sector sd5) h1 b"
    "\<And>s. s \<notin> set (data_sectors h1) \<Longrightarrow> sector sd5 s = sector sd2 s"
    using PersistentBitmap_WriteBack_ok [of mf sd4 b "mem 3"] f(5,6,9) o2(2,3) by (auto simp: mf_def)
  obtain sd6 where q: "Directory_WriteBack (mem 4) d df sd5 = Inr sd6" "idle sd6" "stores_dir (sector sd6) h2 d"
    "\<And>s. s \<notin> set (data_sectors h2) \<Longrightarrow> sector sd6 s = sector sd5 s"
    using Directory_WriteBack_ok [of df sd5 d "mem 4"] f(7,8) d(1) p(2) by (auto simp: df_def)
  let ?fs = "\<lparr>freeMapFile = mf, directoryFile = df\<rparr>"
  have keep: "sector sd6 s = sector sd2 s" if "s \<in> {0, 1}" for s
    using that f(10) p(4) [of s] q(4) [of s] by auto
  have "sys_ok ?fs (sector sd6)"
    using h keep f(10,11) by (simp add: sys_ok_def mf_def df_def hdr_at_def)
  moreover have "stores_map (sector sd6) h1 b"
    using p(3) f(11) q(4) file_content_cong [OF f(5), of "sector sd6" "sector sd5"] by (auto simp: stores_map_def)
  ultimately have "fs_ok ?fs sd6 b d"
    using q(2,3) d f(12) by (simp add: fs_ok_def mf_def df_def files_ok_def all_owned_def sys_sectors_def)
  moreover have "FileSystem_new mem True sd = Inr (?fs, sd6)"
    using f(1-4) w1(1) w2(1) o1(1) o2(1) p(1) q(1) by (auto simp: FileSystem_new_def Let_def d_def fs_consts)
  moreover have "card (used_bits b) \<le> 5"
  proof -
    have "length (data_sectors h1) = 1" "length (data_sectors h2) = 2"
      using length_data_sectors f(5-8) small_file_sectors by (auto simp: hdr_ok_def)
    then show ?thesis
      using card_Un_le [of "{0, 1} \<union> set (data_sectors h1)" "set (data_sectors h2)"]
        card_Un_le [of "{0, 1}" "set (data_sectors h1)"] card_length [of "data_sectors h1"] card_length [of "data_sectors h2"]
      by (simp add: f(12))
  qed
  ultimately show thesis
    using that d by blast
qed

lemma mount_ok:
  assumes "fs_ok fs sd b d"
  obtains fs' sd' where "FileSystem_new mem False sd = Inr (fs', sd')" "fs_ok fs' sd' b d" "fs_files sd' d = fs_files sd d"
    "sector sd' = sector sd"
proof -
  have sd: "idle sd" "hdr_at (sector sd) 0 = hdr (freeMapFile fs)" "hdr_at (sector sd) 1 = hdr (directoryFile fs)"
    using assms by (simp_all add: fs_ok_def sys_ok_def)
  define mf where "mf = \<lparr>hdr = hdr (freeMapFile fs), seekPosition = 0\<rparr>"
  define df where "df = \<lparr>hdr = hdr (directoryFile fs), seekPosition = 0\<rparr>"
  obtain sd1 where o1: "OpenFile_new sd (int 0) = Inr (mf, sd1)" "idle sd1" "sector sd1 = sector sd"
    using OpenFile_new_ok [OF sd(1), of 0] sd(2) unfolding mf_def by auto
  obtain sd2 where o2: "OpenFile_new sd1 (int 1) = Inr (df, sd2)" "idle sd2" "sector sd2 = sector sd"
    using OpenFile_new_ok [OF o1(2), of 1] sd(3) o1(3) unfolding df_def by auto
  let ?fs = "\<lparr>freeMapFile = mf, directoryFile = df\<rparr>"
  have "fs_ok ?fs sd b d"
    using assms by (simp add: fs_ok_def sys_ok_def sys_sectors_def mf_def df_def)
  moreover have "FileSystem_new mem False sd = Inr (?fs, sd2)"
    using o1(1) o2(1) by (simp add: FileSystem_new_def fs_consts)
  ultimately show thesis
    using that fs_ok_sectors [OF _ o2(2,3)] o2(3) by blast
qed

section \<open>Creating and removing files\<close>

lemma all_owned_sys: "files_ok S sys m \<Longrightarrow> all_owned S m \<inter> sys = {}"
  by (auto simp: files_ok_def all_owned_def ran_def)

lemma files_ok_add:
  assumes "files_ok S sys m" and "m k = None" and "s < 1024" and "hdr_ok (hdr_at S s)"
    and "s \<notin> set (data_sectors (hdr_at S s))" and "owned S s \<inter> (sys \<union> all_owned S m) = {}"
  shows "files_ok S sys (m(k \<mapsto> int s))" "all_owned S (m(k \<mapsto> int s)) = owned S s \<union> all_owned S m"
proof -
  have disj: "owned S s \<inter> owned S (nat s') = {}" if "m k' = Some s'" for k' s'
    using that assms(6) by (auto simp: all_owned_def intro: ranI)
  show "files_ok S sys (m(k \<mapsto> int s))"
    using assms disj unfolding files_ok_def by (auto split: if_splits)
  show "all_owned S (m(k \<mapsto> int s)) = owned S s \<union> all_owned S m"
    using assms(2) by (simp add: all_owned_def)
qed

lemma files_ok_remove:
  assumes "files_ok S sys m" and "m k = Some s"
  shows "files_ok S sys (m(k := None))" "all_owned S (m(k := None)) = all_owned S m - owned S (nat s)"
proof -
  show "files_ok S sys (m(k := None))"
    using assms(1) unfolding files_ok_def by auto
  have "owned S (nat s) \<inter> owned S (nat s') = {}" if "m k' = Some s'" "k' \<noteq> k" for k' s'
    using assms that unfolding files_ok_def by metis
  then have "owned S (nat s) \<inter> all_owned S (m(k := None)) = {}"
    by (auto simp: all_owned_def ran_def split: if_splits)
  moreover have "ran m = insert s (ran (m(k := None)))"
    using assms(2) by (auto simp: ran_def) (metis option.inject)
  then have "all_owned S m = owned S (nat s) \<union> all_owned S (m(k := None))"
    by (simp add: all_owned_def)
  ultimately show "all_owned S (m(k := None)) = all_owned S m - owned S (nat s)"
    by blast
qed

lemma fs_install:
  assumes ok: "fs_ok fs sd b d" and "idle sd'" and h: "hdr_at (sector sd') s = h" "hdr_ok h" and s: "s < 1024" "s \<notin> used_bits b"
    and data: "set (data_sectors h) \<inter> insert s (used_bits b) = {}"
    and stores: "stores_map (sector sd') (hdr (freeMapFile fs)) b'" "stores_dir (sector sd') (hdr (directoryFile fs)) d'"
    and d': "dir_map d k = None" "dir_map d' = (dir_map d)(k \<mapsto> int s)"
    and b': "used_bits b' = used_bits b \<union> insert s (set (data_sectors h))"
    and same: "\<And>x. x \<in> {0, 1} \<union> all_owned (sector sd) (dir_map d) \<Longrightarrow> sector sd' x = sector sd x"
  shows "fs_ok fs sd' b' d'" "fs_files sd' d' = (fs_files sd d)(k \<mapsto> file_content (sector sd') h)"
proof -
  let ?S = "sector sd'" and ?sys = "sys_sectors fs"
  have old: "files_ok (sector sd) ?sys (dir_map d)" "used_bits b = ?sys \<union> all_owned (sector sd) (dir_map d)"
    using ok by (simp_all add: fs_ok_def)
  have keep: "files_ok ?S ?sys (dir_map d)" "all_owned ?S (dir_map d) = all_owned (sector sd) (dir_map d)"
    using files_ok_cong [OF old(1), of ?S] same by auto
  have own: "owned ?S s = insert s (set (data_sectors h))"
    by (simp add: owned_def h)
  have new: "files_ok ?S ?sys (dir_map d')" "all_owned ?S (dir_map d') = owned ?S s \<union> all_owned ?S (dir_map d)"
    using files_ok_add [OF keep(1) d'(1) s(1)] h data s(2) old(2) keep(2) own d'(2) by auto
  have "sys_ok fs ?S"
    using ok same by (simp add: fs_ok_def sys_ok_def hdr_at_def)
  then show "fs_ok fs sd' b' d'"
    using assms(2) stores new own b' old(2) keep(2) by (auto simp: fs_ok_def)
  have "fs_files sd' d = fs_files sd d"
    using fs_files_cong [OF old(1)] same by blast
  then show "fs_files sd' d' = (fs_files sd d)(k \<mapsto> file_content ?S h)"
    by (auto simp: fun_eq_iff fs_files_def d'(2) h)
qed

lemma fs_uninstall:
  assumes ok: "fs_ok fs sd b d" and "idle sd'"
    and stores: "stores_map (sector sd') (hdr (freeMapFile fs)) b'" "stores_dir (sector sd') (hdr (directoryFile fs)) d'"
    and d': "dir_map d k = Some s" "dir_map d' = (dir_map d)(k := None)"
    and b': "used_bits b' = used_bits b - owned (sector sd) (nat s)"
    and same: "\<And>x. x \<in> {0, 1} \<union> all_owned (sector sd) (dir_map d) \<Longrightarrow> sector sd' x = sector sd x"
  shows "fs_ok fs sd' b' d'" "fs_files sd' d' = (fs_files sd d)(k := None)"
proof -
  let ?S = "sector sd'" and ?sys = "sys_sectors fs"
  have old: "files_ok (sector sd) ?sys (dir_map d)" "used_bits b = ?sys \<union> all_owned (sector sd) (dir_map d)"
    using ok by (simp_all add: fs_ok_def)
  have keep: "files_ok ?S ?sys (dir_map d)" "all_owned ?S (dir_map d) = all_owned (sector sd) (dir_map d)"
    using files_ok_cong [OF old(1), of ?S] same by auto
  have "sector sd' (nat s) = sector sd (nat s)"
    using same d'(1) by (auto simp: all_owned_def owned_def intro: ranI)
  then have own: "owned ?S (nat s) = owned (sector sd) (nat s)"
    by (rule owned_cong)
  have "owned (sector sd) (nat s) \<inter> ?sys = {}"
    using old(1) d'(1) unfolding files_ok_def by metis
  then have "used_bits b' = ?sys \<union> all_owned ?S (dir_map d')"
    using b' old(2) keep(2) own files_ok_remove(2) [OF keep(1) d'(1)] d'(2) by auto
  moreover have "sys_ok fs ?S"
    using ok same by (simp add: fs_ok_def sys_ok_def hdr_at_def)
  ultimately show "fs_ok fs sd' b' d'"
    using assms(2) stores files_ok_remove(1) [OF keep(1) d'(1)] d'(2) by (simp add: fs_ok_def)
  have "fs_files sd' d = fs_files sd d"
    using fs_files_cong [OF old(1)] same by blast
  then show "fs_files sd' d' = (fs_files sd d)(k := None)"
    by (auto simp: fun_eq_iff fs_files_def d'(2))
qed

text \<open>There is room for a new file of \<open>n\<close> bytes: a name, a sector for its header and sectors for its data.\<close>

definition can_create :: "Bitmap \<Rightarrow> Directory \<Rightarrow> byte list \<Rightarrow> int \<Rightarrow> bool" where
  "can_create b d k n \<longleftrightarrow> dir_map d k = None \<and> \<not> dir_full d
     \<and> int (card (used_bits b)) + 1 + divRoundUp n SectorSize \<le> NumSectors"

lemma fs_sys_facts:
  assumes "fs_ok fs sd b d"
  shows "hdr_ok (hdr (freeMapFile fs))" "numBytes (hdr (freeMapFile fs)) = 128"
    "hdr_ok (hdr (directoryFile fs))" "numBytes (hdr (directoryFile fs)) = 200" "free_map b" "dir_wf d"
    "set (data_sectors (hdr (freeMapFile fs))) \<inter> set (data_sectors (hdr (directoryFile fs))) = {}"
    "{0, 1} \<inter> (set (data_sectors (hdr (freeMapFile fs))) \<union> set (data_sectors (hdr (directoryFile fs)))) = {}"
    "used_bits b = sys_sectors fs \<union> all_owned (sector sd) (dir_map d)"
    "all_owned (sector sd) (dir_map d) \<inter> sys_sectors fs = {}"
  using assms all_owned_sys by (simp_all add: fs_ok_def stores_map_def stores_dir_def sys_ok_def)

text \<open>Both orders of flushing the directory and the free map leave every sector but their own alone.\<close>

lemma flush_dir_map:
  assumes ok: "fs_ok fs sd0 b0 d0" and "idle sd" and "dir_wf d" and "free_map b"
  obtains sd1 sd2 where "Directory_WriteBack j1 d (directoryFile fs) sd = Inr sd1"
    "PersistentBitmap_WriteBack j2 b (freeMapFile fs) sd1 = Inr sd2" "idle sd2"
    "stores_map (sector sd2) (hdr (freeMapFile fs)) b" "stores_dir (sector sd2) (hdr (directoryFile fs)) d"
    "\<And>y. y \<notin> sys_sectors fs - {0, 1} \<Longrightarrow> sector sd2 y = sector sd y"
proof -
  note sf = fs_sys_facts [OF ok]
  obtain sd1 where w1: "Directory_WriteBack j1 d (directoryFile fs) sd = Inr sd1" "idle sd1"
    "stores_dir (sector sd1) (hdr (directoryFile fs)) d"
    "\<And>y. y \<notin> set (data_sectors (hdr (directoryFile fs))) \<Longrightarrow> sector sd1 y = sector sd y"
    using Directory_WriteBack_ok [OF sf(3,4) assms(2,3)] by blast
  obtain sd2 where w2: "PersistentBitmap_WriteBack j2 b (freeMapFile fs) sd1 = Inr sd2" "idle sd2"
    "stores_map (sector sd2) (hdr (freeMapFile fs)) b"
    "\<And>y. y \<notin> set (data_sectors (hdr (freeMapFile fs))) \<Longrightarrow> sector sd2 y = sector sd1 y"
    using PersistentBitmap_WriteBack_ok [OF sf(1,2) w1(2) assms(4)] by blast
  have "stores_dir (sector sd2) (hdr (directoryFile fs)) d"
    using w1(3) w2(4) sf(7) file_content_cong [OF sf(3), of "sector sd2" "sector sd1"] by (auto simp: stores_dir_def)
  moreover have "sector sd2 y = sector sd y" if "y \<notin> sys_sectors fs - {0, 1}" for y
    using that w1(4) [of y] w2(4) [of y] sf(8) by (auto simp: sys_sectors_def)
  ultimately show thesis
    using that w1(1) w2(1-3) by blast
qed

lemma flush_map_dir:
  assumes ok: "fs_ok fs sd0 b0 d0" and "idle sd" and "dir_wf d" and "free_map b"
  obtains sd1 sd2 where "PersistentBitmap_WriteBack j1 b (freeMapFile fs) sd = Inr sd1"
    "Directory_WriteBack j2 d (directoryFile fs) sd1 = Inr sd2" "idle sd2"
    "stores_map (sector sd2) (hdr (freeMapFile fs)) b" "stores_dir (sector sd2) (hdr (directoryFile fs)) d"
    "\<And>y. y \<notin> sys_sectors fs - {0, 1} \<Longrightarrow> sector sd2 y = sector sd y"
proof -
  note sf = fs_sys_facts [OF ok]
  obtain sd1 where w1: "PersistentBitmap_WriteBack j1 b (freeMapFile fs) sd = Inr sd1" "idle sd1"
    "stores_map (sector sd1) (hdr (freeMapFile fs)) b"
    "\<And>y. y \<notin> set (data_sectors (hdr (freeMapFile fs))) \<Longrightarrow> sector sd1 y = sector sd y"
    using PersistentBitmap_WriteBack_ok [OF sf(1,2) assms(2,4)] by blast
  obtain sd2 where w2: "Directory_WriteBack j2 d (directoryFile fs) sd1 = Inr sd2" "idle sd2"
    "stores_dir (sector sd2) (hdr (directoryFile fs)) d"
    "\<And>y. y \<notin> set (data_sectors (hdr (directoryFile fs))) \<Longrightarrow> sector sd2 y = sector sd1 y"
    using Directory_WriteBack_ok [OF sf(3,4) w1(2) assms(3)] by blast
  have "stores_map (sector sd2) (hdr (freeMapFile fs)) b"
    using w1(3) w2(4) sf(7) file_content_cong [OF sf(1), of "sector sd2" "sector sd1"] by (auto simp: stores_map_def)
  moreover have "sector sd2 y = sector sd y" if "y \<notin> sys_sectors fs - {0, 1}" for y
    using that w1(4) [of y] w2(4) [of y] sf(8) by (auto simp: sys_sectors_def)
  ultimately show thesis
    using that w1(1) w2(1-3) by blast
qed

text \<open>The sectors that a creation takes: one for the header and those of the data.\<close>

lemma create_alloc:
  assumes "free_map b" and n: "0 \<le> n" "n \<le> MaxFileSize"
    and room: "int (card (used_bits b)) + 1 + divRoundUp n SectorSize \<le> 1024"
  obtains s b1 h b2 where "Bitmap_FindAndSet b = Inr (int s, b1)" "s < 1024" "s \<notin> used_bits b"
    "FileHeader_Allocate (FileHeader_new junk) b1 n = Inr (True, h, b2)" "hdr_ok h" "numBytes h = n" "free_map b2"
    "set (data_sectors h) \<inter> insert s (used_bits b) = {}" "used_bits b2 = used_bits b \<union> insert s (set (data_sectors h))"
    "int (card (used_bits b2)) = int (card (used_bits b)) + 1 + divRoundUp n SectorSize"
proof -
  have pos: "0 \<le> divRoundUp n SectorSize"
    using n(1) by (simp add: SectorSize_def divRoundUp_nonneg pos_imp_zdiv_nonneg_iff)
  have "card (used_bits b) < length (bits b)"
    using room pos assms(1) by (simp add: free_map_iff)
  then obtain s b1 where b1: "Bitmap_FindAndSet b = Inr (int s, b1)" "s < 1024" "s \<notin> used_bits b" "free_map b1"
    "used_bits b1 = insert s (used_bits b)"
    using bm.find_used [of b] assms(1) unfolding free_map_iff by metis
  have card1: "card (used_bits b1) = Suc (card (used_bits b))"
    using b1(3,5) by (simp add: bm.used_def)
  obtain h b2 where a: "FileHeader_Allocate (FileHeader_new junk) b1 n = Inr (True, h, b2)" "hdr_ok h" "numBytes h = n"
    "free_map b2" "set (data_sectors h) \<inter> used_bits b1 = {}" "used_bits b2 = used_bits b1 \<union> set (data_sectors h)"
    by (rule Allocate_ok [OF b1(4) FileHeader_new_wf n, of junk]) (use room card1 in simp_all)
  have "card (used_bits b2) = card (used_bits b1) + card (set (data_sectors h))"
    unfolding a(6) using a(5) by (intro card_Un_disjoint) (auto simp: bm.used_def)
  moreover have "int (card (set (data_sectors h))) = divRoundUp n SectorSize"
    using a(2,3) length_data_sectors [OF a(2)] pos by (simp add: hdr_ok_def distinct_card)
  ultimately show thesis
    using that [OF b1(1-3) a(1-4)] a(5,6) b1(5) card1 by auto
qed

lemma Create_ok:
  assumes ok: "fs_ok fs sd b d" and x: "name_ok x" and n: "0 \<le> n" "n \<le> MaxFileSize" and can: "can_create b d (dkey x) n"
  obtains sd' b' d' c where "FileSystem_Create mem fs sd x n = Inr (True, sd')" "fs_ok fs sd' b' d'"
    "fs_files sd' d' = (fs_files sd d)(dkey x \<mapsto> c)" "int (length c) = n"
    "int (card (used_bits b')) = int (card (used_bits b)) + 1 + divRoundUp n SectorSize"
proof -
  obtain sd1 where f1: "Directory_FetchFrom (Directory_new (mem 0) NumDirEntries) (directoryFile fs) sd = Inr (d, sd1)"
    "fs_ok fs sd1 b d" "fs_files sd1 d = fs_files sd d"
    using fs_fetch_dir [OF ok] by metis
  obtain sd2 where f2: "PersistentBitmap_new (freeMapFile fs) sd1 NumSectors = Inr (b, sd2)" "idle sd2" "fs_ok fs sd2 b d"
    "fs_files sd2 d = fs_files sd d"
    using fs_fetch_map [OF f1(2)] f1(3) by metis
  note sf = fs_sys_facts [OF f2(3)]
  have absent: "dir_map d (dkey x) = None" and notfull: "\<not> dir_full d"
    and room: "int (card (used_bits b)) + 1 + divRoundUp n SectorSize \<le> 1024"
    using can by (simp_all add: can_create_def disk_consts)
  obtain s b1 h b2 where a: "Bitmap_FindAndSet b = Inr (int s, b1)" "s < 1024" "s \<notin> used_bits b"
    "FileHeader_Allocate (FileHeader_new (mem 1)) b1 n = Inr (True, h, b2)" "hdr_ok h" "numBytes h = n" "free_map b2"
    "set (data_sectors h) \<inter> insert s (used_bits b) = {}" "used_bits b2 = used_bits b \<union> insert s (set (data_sectors h))"
    "int (card (used_bits b2)) = int (card (used_bits b)) + 1 + divRoundUp n SectorSize"
    using create_alloc [OF sf(5) n room] by blast
  obtain d1 where d1: "Directory_Add d x (int s) = (True, d1)" "dir_wf d1" "dir_map d1 = (dir_map d)(dkey x \<mapsto> int s)"
    using dir.add_absent [OF sf(6) x _ absent notfull] int32_nat [of s] a(2) by force
  have wf: "hdr_wf h"
    using a(5) by (simp add: hdr_ok_def)
  obtain sd3 where w3: "FileHeader_WriteBack h sd2 (int s) = Inr sd3" "idle sd3" "sector sd3 = (sector sd2)(s := header_bytes h)"
    using WriteBack_ok [OF f2(2) a(2) wf] .
  obtain sd4 sd5 where w: "Directory_WriteBack (mem 2) d1 (directoryFile fs) sd3 = Inr sd4"
    "PersistentBitmap_WriteBack (mem 3) b2 (freeMapFile fs) sd4 = Inr sd5" "idle sd5"
    "stores_map (sector sd5) (hdr (freeMapFile fs)) b2" "stores_dir (sector sd5) (hdr (directoryFile fs)) d1"
    "\<And>y. y \<notin> sys_sectors fs - {0, 1} \<Longrightarrow> sector sd5 y = sector sd3 y"
    using flush_dir_map [OF ok w3(2) d1(2) a(7)] by blast
  have fresh: "s \<notin> sys_sectors fs" "s \<notin> all_owned (sector sd2) (dir_map d)"
    using a(3) sf(9) by auto
  have "hdr_at (sector sd5) s = h"
    using w(6) [of s] fresh(1) fh.dec_enc [OF wf] w3(3) by (simp add: hdr_at_def)
  moreover have "sector sd5 y = sector sd2 y" if "y \<in> {0, 1} \<union> all_owned (sector sd2) (dir_map d)" for y
  proof -
    have "y \<notin> sys_sectors fs - {0, 1}" "y \<noteq> s"
      using that sf(10) fresh by (auto simp: sys_sectors_def)
    then show ?thesis
      using w(6) w3(3) by simp
  qed
  ultimately have "fs_ok fs sd5 b2 d1" "fs_files sd5 d1 = (fs_files sd2 d)(dkey x \<mapsto> file_content (sector sd5) h)"
    using fs_install [OF f2(3) w(3) _ a(5,2,3,8) w(4,5) absent d1(3) a(9)] by blast+
  moreover have "FileSystem_Create mem fs sd x n = Inr (True, sd5)"
    using f1(1) f2(1) a(1,4) d1(1) w3(1) w(1,2) dir.find_law [OF sf(6) x] absent by (simp add: FileSystem_Create_def)
  ultimately show thesis
    using that f2(4) a(6,10) n(1) by simp
qed

lemma Create_fails:
  assumes ok: "fs_ok fs sd b d" and x: "name_ok x" and n: "0 \<le> n" and can: "\<not> can_create b d (dkey x) n"
  obtains sd' where "FileSystem_Create mem fs sd x n = Inr (False, sd')" "sector sd' = sector sd" "fs_ok fs sd' b d"
    "fs_files sd' d = fs_files sd d"
proof -
  obtain sd1 where f1: "Directory_FetchFrom (Directory_new (mem 0) NumDirEntries) (directoryFile fs) sd = Inr (d, sd1)"
    "fs_ok fs sd1 b d" "sector sd1 = sector sd" "fs_files sd1 d = fs_files sd d"
    using fs_fetch_dir [OF ok] by metis
  obtain sd2 where f2: "PersistentBitmap_new (freeMapFile fs) sd1 NumSectors = Inr (b, sd2)" "idle sd2" "fs_ok fs sd2 b d"
    "sector sd2 = sector sd" "fs_files sd2 d = fs_files sd d"
    using fs_fetch_map [OF f1(2)] f1(3,4) by metis
  note sf = fs_sys_facts [OF ok]
  have find_nn: "0 \<le> s" if "dir_map d (dkey x) = Some s" for s
    using ok that unfolding fs_ok_def files_ok_def by metis
  show thesis
  proof (cases "dir_map d (dkey x)")
    case (Some s)
    then have "Directory_Find d x \<noteq> - 1"
      using dir.find_law [OF sf(6) x] find_nn [OF Some] by auto
    then show thesis
      using that [OF _ f1(3,2,4)] f1(1) by (simp add: FileSystem_Create_def)
  next
    case None
    then have find: "Directory_Find d x = - 1"
      using dir.find_law [OF sf(6) x] by simp
    have "FileSystem_Create mem fs sd x n = Inr (False, sd2)"
    proof (cases "card (used_bits b) < length (bits b)")
      case False
      then have "False \<notin> set (bits b)"
        using length_filter_less [of False "bits b" id] by (auto simp: bm.used_def card_true_at)
      then have "Bitmap_FindAndSet b = Inr (- 1, b)"
        using bm.full_law [of b] sf(5) by (simp add: free_map_iff)
      then show ?thesis
        using f1(1) f2(1) find by (simp add: FileSystem_Create_def)
    next
      case True
      then obtain s b1 where b1: "Bitmap_FindAndSet b = Inr (int s, b1)" "s \<notin> used_bits b" "free_map b1"
        "used_bits b1 = insert s (used_bits b)" "s < 1024"
        using bm.find_used [of b] sf(5) unfolding free_map_iff by metis
      show ?thesis
      proof (cases "dir_full d")
        case True
        then show ?thesis
          using f1(1) f2(1) find b1(1) dir.add_present [OF sf(6) x, of "int s"] by (simp add: FileSystem_Create_def)
      next
        case False
        then obtain d1 where d1: "Directory_Add d x (int s) = (True, d1)"
          using dir.add_absent [OF sf(6) x _ None] int32_nat [of s] b1(5) by force
        have "card (used_bits b1) = Suc (card (used_bits b))"
          using b1(2,4) by (simp add: bm.used_def)
        then have "1024 < int (card (used_bits b1)) + divRoundUp n SectorSize"
          using can None False by (simp add: can_create_def disk_consts)
        then obtain h where "FileHeader_Allocate (FileHeader_new (mem 1)) b1 n = Inr (False, h, b1)"
          using Allocate_full [OF b1(3)] by blast
        then show ?thesis
          using f1(1) f2(1) find b1(1) d1 by (simp add: FileSystem_Create_def)
      qed
    qed
    then show thesis
      using that f2 by blast
  qed
qed

lemma FS_Remove_absent:
  assumes ok: "fs_ok fs sd b d" and x: "name_ok x" and "dir_map d (dkey x) = None"
  obtains sd' where "FileSystem_Remove mem fs sd x = Inr (False, sd')" "sector sd' = sector sd" "fs_ok fs sd' b d"
    "fs_files sd' d = fs_files sd d"
proof -
  obtain sd1 where f1: "Directory_FetchFrom (Directory_new (mem 0) NumDirEntries) (directoryFile fs) sd = Inr (d, sd1)"
    "sector sd1 = sector sd" "fs_ok fs sd1 b d" "fs_files sd1 d = fs_files sd d"
    using fs_fetch_dir [OF ok] by metis
  then show thesis
    using that dir.find_law [OF fs_sys_facts(6) [OF ok] x] assms(3) by (simp add: FileSystem_Remove_def)
qed

lemma fs_file_header:
  assumes ok: "fs_ok fs sd b d" and "dir_map d k = Some s"
  obtains n where "s = int n" "n < 1024" "hdr_ok (hdr_at (sector sd) n)" "n \<notin> set (data_sectors (hdr_at (sector sd) n))"
    "owned (sector sd) n \<subseteq> used_bits b" "n \<notin> sys_sectors fs" "set (data_sectors (hdr_at (sector sd) n)) \<inter> sys_sectors fs = {}"
proof -
  have "0 \<le> s \<and> s < 1024 \<and> hdr_ok (hdr_at (sector sd) (nat s)) \<and> nat s \<notin> set (data_sectors (hdr_at (sector sd) (nat s)))
      \<and> owned (sector sd) (nat s) \<inter> sys_sectors fs = {}"
    using assms unfolding fs_ok_def files_ok_def by metis
  moreover have "owned (sector sd) (nat s) \<subseteq> used_bits b"
    using fs_sys_facts(9) [OF ok] assms(2) by (auto simp: all_owned_def intro: ranI)
  ultimately show thesis
    using that [of "nat s"] by (auto simp: owned_def)
qed

lemma Remove_ok:
  assumes ok: "fs_ok fs sd b d" and x: "name_ok x" and s: "dir_map d (dkey x) = Some s"
  obtains sd' b' d' where "FileSystem_Remove mem fs sd x = Inr (True, sd')" "fs_ok fs sd' b' d'"
    "fs_files sd' d' = (fs_files sd d)(dkey x := None)" "used_bits b' \<subset> used_bits b"
proof -
  obtain n where n: "s = int n" "n < 1024" "hdr_ok (hdr_at (sector sd) n)" "n \<notin> set (data_sectors (hdr_at (sector sd) n))"
    "owned (sector sd) n \<subseteq> used_bits b"
    using fs_file_header [OF ok s] by metis
  let ?h = "hdr_at (sector sd) n"
  note sf = fs_sys_facts [OF ok]
  obtain sd1 where f1: "Directory_FetchFrom (Directory_new (mem 0) NumDirEntries) (directoryFile fs) sd = Inr (d, sd1)"
    "idle sd1" "sector sd1 = sector sd" "fs_ok fs sd1 b d" "fs_files sd1 d = fs_files sd d"
    using fs_fetch_dir [OF ok] by metis
  obtain sd2 where f2: "FileHeader_FetchFrom sd1 (int n) = Inr (?h, sd2)" "idle sd2" "sector sd2 = sector sd"
    using FetchFrom_ok [OF f1(2) n(2)] f1(3) by (metis hdr_at_def)
  have "fs_ok fs sd2 b d"
    using fs_ok_sectors [OF ok f2(2,3)] by simp
  then obtain sd3 where f3: "PersistentBitmap_new (freeMapFile fs) sd2 NumSectors = Inr (b, sd3)" "idle sd3"
    "sector sd3 = sector sd" "fs_ok fs sd3 b d" "fs_files sd3 d = fs_files sd d"
    using fs_fetch_map f2(3) fs_ok_sectors [OF ok f2(2,3)] by metis
  obtain b1 where b1: "FileHeader_Deallocate ?h b = Inr b1" "free_map b1" "used_bits b1 = used_bits b - set (data_sectors ?h)"
    using Deallocate_ok [OF sf(5) n(3)] n(5) by (auto simp: owned_def)
  have "n \<in> used_bits b1"
    using b1(3) n(4,5) by (auto simp: owned_def)
  then obtain b2 where b2: "Bitmap_Clear b1 (int n) = Inr b2" "free_map b2" "used_bits b2 = used_bits b - owned (sector sd) n"
    using bm.clear_used [of b1 n] b1(2,3) unfolding free_map_iff owned_def by (metis Diff_insert)
  obtain d1 where d1: "Directory_Remove d x = (True, d1)" "dir_wf d1" "dir_map d1 = (dir_map d)(dkey x := None)"
    using dir.remove_present [OF sf(6) x] s by auto
  obtain sd4 sd5 where w: "PersistentBitmap_WriteBack (mem 1) b2 (freeMapFile fs) sd3 = Inr sd4"
    "Directory_WriteBack (mem 2) d1 (directoryFile fs) sd4 = Inr sd5" "idle sd5"
    "stores_map (sector sd5) (hdr (freeMapFile fs)) b2" "stores_dir (sector sd5) (hdr (directoryFile fs)) d1"
    "\<And>y. y \<notin> sys_sectors fs - {0, 1} \<Longrightarrow> sector sd5 y = sector sd3 y"
    using flush_map_dir [OF ok f3(2) d1(2) b2(2)] by blast
  have "sector sd5 y = sector sd3 y" if "y \<in> {0, 1} \<union> all_owned (sector sd3) (dir_map d)" for y
    using that sf(10) f3(3) by (intro w(6)) auto
  then have "fs_ok fs sd5 b2 d1" "fs_files sd5 d1 = (fs_files sd3 d)(dkey x := None)"
    using fs_uninstall [OF f3(4) w(3-5) s d1(3)] b2(3) n(1) f3(3) by simp_all
  moreover have "FileSystem_Remove mem fs sd x = Inr (True, sd5)"
    using f1(1) f2(1) f3(1) b1(1) b2(1) d1(1) w(1,2) dir.find_law [OF sf(6) x] s n(1) by (simp add: FileSystem_Remove_def)
  moreover have "used_bits b2 \<subset> used_bits b"
    using b2(3) n(5) by (auto simp: owned_def)
  ultimately show thesis
    using that f3(5) by simp
qed

section \<open>Opening, reading and writing files\<close>

lemma Open_ok:
  assumes ok: "fs_ok fs sd b d" and x: "name_ok x"
  obtains sd' where "FileSystem_Open mem fs sd x =
      Inr (map_option (\<lambda>s. \<lparr>hdr = hdr_at (sector sd) (nat s), seekPosition = 0\<rparr>) (dir_map d (dkey x)), sd')"
    "idle sd'" "sector sd' = sector sd"
proof -
  obtain sd1 where f1: "Directory_FetchFrom (Directory_new (mem 0) NumDirEntries) (directoryFile fs) sd = Inr (d, sd1)"
    "idle sd1" "sector sd1 = sector sd"
    using fs_fetch_dir [OF ok] by metis
  note find = dir.find_law [OF fs_sys_facts(6) [OF ok] x]
  show thesis
  proof (cases "dir_map d (dkey x)")
    case None
    then show thesis
      using that [of sd1] f1 find by (simp add: FileSystem_Open_def)
  next
    case (Some s)
    then obtain n where n: "s = int n" "n < 1024"
      using fs_file_header [OF ok] by blast
    obtain sd2 where "OpenFile_new sd1 (int n) = Inr (\<lparr>hdr = hdr_at (sector sd1) n, seekPosition = 0\<rparr>, sd2)" "idle sd2"
      "sector sd2 = sector sd1"
      using OpenFile_new_ok [OF f1(2) n(2)] .
    then show thesis
      using that [of sd2] f1 find Some n by (simp add: FileSystem_Open_def)
  qed
qed

lemma fs_write:
  assumes ok: "fs_ok fs sd b d" and k: "dir_map d k = Some s" and f: "hdr f = hdr_at (sector sd) (nat s)"
    and "0 \<le> pos" and "range_fits f pos len" and "nat len \<le> length data"
  obtains sd' where
    "OpenFile_WriteAt junk f sd data len pos = Inr (int (min (nat len) (nat (numBytes (hdr f)) - nat pos)), sd')"
    "fs_ok fs sd' b d"
    "fs_files sd' d = (fs_files sd d)(k \<mapsto> overwrite (file_content (sector sd) (hdr f)) (nat pos) (take (nat len) data))"
proof -
  obtain n where n: "s = int n" "n < 1024" "hdr_ok (hdr f)" "n \<notin> set (data_sectors (hdr f))" "owned (sector sd) n \<subseteq> used_bits b"
    "set (data_sectors (hdr f)) \<inter> sys_sectors fs = {}"
    using fs_file_header [OF ok k] f by (metis nat_int)
  have "idle sd"
    using ok by (simp add: fs_ok_def)
  then obtain sd' where w:
    "OpenFile_WriteAt junk f sd data len pos = Inr (int (min (nat len) (nat (numBytes (hdr f)) - nat pos)), sd')" "idle sd'"
    "file_content (sector sd') (hdr f) = overwrite (file_content (sector sd) (hdr f)) (nat pos) (take (nat len) data)"
    "\<And>y. y \<notin> set (data_sectors (hdr f)) \<Longrightarrow> sector sd' y = sector sd y"
    using WriteAt_ok [OF n(3) _ assms(4-6)] by blast
  have files: "files_ok (sector sd) (sys_sectors fs) (dir_map d)"
    using ok by (simp add: fs_ok_def)
  have other: "owned (sector sd) (nat s') \<inter> set (data_sectors (hdr f)) = {}" if "dir_map d k' = Some s'" "k' \<noteq> k" for k' s'
  proof -
    have "owned (sector sd) (nat s') \<inter> owned (sector sd) (nat s) = {}"
      using files that k unfolding files_ok_def by metis
    then show ?thesis
      by (auto simp: owned_def f)
  qed
  have heads: "sector sd' (nat s') = sector sd (nat s')" if "dir_map d k' = Some s'" for k' s'
    using other [OF that] that k n(1,4) by (cases "k' = k") (auto intro!: w(4) simp: owned_def)
  have sys: "sector sd' y = sector sd y" if "y \<in> sys_sectors fs" for y
    using that n(6) by (intro w(4)) auto
  note sf = fs_sys_facts [OF ok]
  have "file_content (sector sd') (hdr (freeMapFile fs)) = file_content (sector sd) (hdr (freeMapFile fs))"
    "file_content (sector sd') (hdr (directoryFile fs)) = file_content (sector sd) (hdr (directoryFile fs))"
    using sys by (auto intro!: file_content_cong sf simp: sys_sectors_def)
  moreover have "sys_ok fs (sector sd')"
    using ok sys [of 0] sys [of 1] by (simp add: fs_ok_def sys_ok_def hdr_at_def sys_sectors_def)
  ultimately have "fs_ok fs sd' b d"
    using ok w(2) files_ok_heads [OF files heads] by (simp add: fs_ok_def stores_map_def stores_dir_def)
  moreover have "fs_files sd' d k' = ((fs_files sd d)(k \<mapsto> overwrite (file_content (sector sd) (hdr f)) (nat pos) (take (nat len) data))) k'" for k'
  proof (cases "dir_map d k'")
    case (Some s')
    have h: "hdr_at (sector sd') (nat s') = hdr_at (sector sd) (nat s')"
      using heads [OF Some] by (simp add: hdr_at_def)
    show ?thesis
    proof (cases "k' = k")
      case True
      then show ?thesis using Some k h w(3) f by (simp add: fs_files_def)
    next
      case False
      have "hdr_ok (hdr_at (sector sd) (nat s'))"
        using files Some unfolding files_ok_def by metis
      then have "file_content (sector sd') (hdr_at (sector sd) (nat s')) = file_content (sector sd) (hdr_at (sector sd) (nat s'))"
        by (rule file_content_cong) (use other [OF Some False] in \<open>auto intro!: w(4) simp: owned_def\<close>)
      then show ?thesis
        using Some h False by (simp add: fs_files_def)
    qed
  qed (use k in \<open>auto simp: fs_files_def\<close>)
  ultimately show thesis
    using that w(1) by blast
qed

end
