(* ===== verification/FileSystemSpec.thy ===== *)
theory FileSystemSpec
  imports FileSystem
begin

text \<open>
  The abstract specification of the file system and its properties. Abstractly a file system is a finite map
  from keys (the first nine bytes of a name) to contents; \<open>spec_step\<close> says what each request may answer and do.
  The concrete requests run the operations of \<^verbatim>\<open>FileSystem\<close> and \<^verbatim>\<open>OpenFile\<close> on the simulated disk; reading and
  writing open the file first, as the system calls do.
\<close>

type_synonym content = "byte list"

datatype fs_request =
    RCreate "byte list" int
  | RRemove "byte list"
  | RWrite "byte list" int content
  | RRead "byte list" int int

datatype fs_answer = ABool bool | ACount int | ABytes content | ANull

text \<open>Names have no zero byte, positions are not negative, sizes are at most \<^verbatim>\<open>MaxFileSize\<close>, and the end of a range is
  an \<^verbatim>\<open>int\<close> (none of this is checked by the code).\<close>

fun request_ok :: "fs_request \<Rightarrow> bool" where
  "request_ok (RCreate x n) = (name_ok x \<and> 0 \<le> n \<and> n \<le> MaxFileSize)"
| "request_ok (RRemove x) = name_ok x"
| "request_ok (RWrite x pos data) = (name_ok x \<and> 0 \<le> pos \<and> pos + int (length data) < 2 ^ 31)"
| "request_ok (RRead x pos n) = (name_ok x \<and> 0 \<le> pos \<and> pos + n < 2 ^ 31)"

fun fs_do :: "(nat \<Rightarrow> nat \<Rightarrow> byte) \<Rightarrow> FileSystem \<Rightarrow> SynchDisk \<Rightarrow> fs_request \<Rightarrow> (fs_answer \<times> SynchDisk) result" where
  "fs_do mem fs sd (RCreate x n) = rbind (FileSystem_Create mem fs sd x n) (\<lambda>(r, sd'). Inr (ABool r, sd'))"
| "fs_do mem fs sd (RRemove x) = rbind (FileSystem_Remove mem fs sd x) (\<lambda>(r, sd'). Inr (ABool r, sd'))"
| "fs_do mem fs sd (RWrite x pos data) =
     rbind (FileSystem_Open mem fs sd x) (\<lambda>(f, sd1). case f of None \<Rightarrow> Inr (ANull, sd1)
     | Some f \<Rightarrow> rbind (OpenFile_Write (mem 9) (OpenFile_Seek f pos) sd1 data (int (length data))) (\<lambda>(r, _, sd2).
         Inr (ACount r, sd2)))"
| "fs_do mem fs sd (RRead x pos n) =
     rbind (FileSystem_Open mem fs sd x) (\<lambda>(f, sd1). case f of None \<Rightarrow> Inr (ANull, sd1)
     | Some f \<Rightarrow> rbind (OpenFile_Read (OpenFile_Seek f pos) sd1 n) (\<lambda>(bs, _, sd2). Inr (ABytes bs, sd2)))"

fun fs_run :: "(nat \<Rightarrow> nat \<Rightarrow> nat \<Rightarrow> byte) \<Rightarrow> FileSystem \<Rightarrow> SynchDisk \<Rightarrow> fs_request list \<Rightarrow> (fs_answer list \<times> SynchDisk) result" where
  "fs_run mems fs sd [] = Inr ([], sd)"
| "fs_run mems fs sd (r # rs) =
     rbind (fs_do (mems (length rs)) fs sd r) (\<lambda>(a, sd1).
     rbind (fs_run mems fs sd1 rs) (\<lambda>(as, sd2). Inr (a # as, sd2)))"

section \<open>Specification\<close>

text \<open>The disk has 1024 sectors; the system takes five (two headers, the free map, two for the directory), a
  file takes one for its header and one for each 128 bytes begun. The directory has ten entries.\<close>

definition file_cost :: "content \<Rightarrow> nat" where
  "file_cost c = Suc (nat (divRoundUp (int (length c)) SectorSize))"

definition disk_usage :: "(byte list \<Rightarrow> content option) \<Rightarrow> nat" where
  "disk_usage F = 5 + (\<Sum>k \<in> dom F. file_cost (the (F k)))"

definition has_room :: "(byte list \<Rightarrow> content option) \<Rightarrow> int \<Rightarrow> bool" where
  "has_room F n \<longleftrightarrow> card (dom F) < 10 \<and> int (disk_usage F) + 1 + divRoundUp n SectorSize \<le> NumSectors"

inductive spec_step :: "(byte list \<Rightarrow> content option) \<Rightarrow> fs_request \<Rightarrow> fs_answer \<Rightarrow> (byte list \<Rightarrow> content option) \<Rightarrow> bool" where
  create: "F (take 9 x) = None \<Longrightarrow> has_room F n \<Longrightarrow> int (length c) = n \<Longrightarrow> spec_step F (RCreate x n) (ABool True) (F(take 9 x \<mapsto> c))"
| create_refused: "F (take 9 x) \<noteq> None \<or> \<not> has_room F n \<Longrightarrow> spec_step F (RCreate x n) (ABool False) F"
| remove: "F (take 9 x) \<noteq> None \<Longrightarrow> spec_step F (RRemove x) (ABool True) (F(take 9 x := None))"
| remove_absent: "F (take 9 x) = None \<Longrightarrow> spec_step F (RRemove x) (ABool False) F"
| put: "F (take 9 x) = Some c \<Longrightarrow>
    spec_step F (RWrite x pos data) (ACount (int (min (length data) (length c - nat pos)))) (F(take 9 x \<mapsto> overwrite c (nat pos) data))"
| write_absent: "F (take 9 x) = None \<Longrightarrow> spec_step F (RWrite x pos data) ANull F"
| read: "F (take 9 x) = Some c \<Longrightarrow> spec_step F (RRead x pos n) (ABytes (take (nat n) (drop (nat pos) c))) F"
| read_absent: "F (take 9 x) = None \<Longrightarrow> spec_step F (RRead x pos n) ANull F"

inductive spec_run :: "(byte list \<Rightarrow> content option) \<Rightarrow> fs_request list \<Rightarrow> fs_answer list \<Rightarrow> (byte list \<Rightarrow> content option) \<Rightarrow> bool" where
  nil: "spec_run F [] [] F"
| cons: "spec_step F r a F' \<Longrightarrow> spec_run F' rs as F'' \<Longrightarrow> spec_run F (r # rs) (a # as) F''"

section \<open>Simulation\<close>

definition fs_sim :: "FileSystem \<Rightarrow> SynchDisk \<Rightarrow> (byte list \<Rightarrow> content option) \<Rightarrow> bool" where
  "fs_sim fs sd F \<longleftrightarrow> (\<exists>b d. fs_ok fs sd b d \<and> fs_files sd d = F)"

lemma fs_files_None: "fs_files sd d k = None \<longleftrightarrow> dir_map d k = None"
  by (simp add: fs_files_def)

lemma entry_map_card: "keys_distinct es \<Longrightarrow> finite (dom (entry_map es)) \<and> card (dom (entry_map es)) = length (filter inUse es)"
  by (induction es) auto

lemma dir_full_card:
  assumes "dir_wf d"
  shows "finite (dom (dir_map d))" and "dir_full d \<longleftrightarrow> \<not> card (dom (dir_map d)) < 10"
proof -
  have l: "length (table d) = 10" and c: "finite (dom (dir_map d))" "card (dom (dir_map d)) = length (filter inUse (table d))"
    using assms entry_map_card [of "table d"] by (simp_all add: dir_wf_def dir_map_def)
  show "finite (dom (dir_map d))"
    by (rule c(1))
  have "length (filter inUse (table d)) < 10 \<longleftrightarrow> \<not> list_all inUse (table d)"
    using l length_filter_less [of _ "table d" inUse] filter_True [of "table d" inUse]
    by (metis list_all_iff less_irrefl)
  then show "dir_full d \<longleftrightarrow> \<not> card (dom (dir_map d)) < 10"
    using c(2) by (simp add: dir_full_def)
qed

lemma sys_sectors_card:
  assumes "fs_ok fs sd b d"
  shows "card (sys_sectors fs) = 5"
proof -
  note s = fs_sys_facts [OF assms]
  have "card (set (data_sectors h)) = nat (divRoundUp (numBytes h) SectorSize)" if "hdr_ok h" for h
    using that length_data_sectors [OF that] by (simp add: distinct_card hdr_ok_def)
  then have c: "card (set (data_sectors (hdr (freeMapFile fs)))) = 1" "card (set (data_sectors (hdr (directoryFile fs)))) = 2"
    using s(1-4) by (simp_all add: small_file_sectors)
  have "card {0, 1 :: nat} = 2"
    by simp
  then show ?thesis
    unfolding sys_sectors_def Un_assoc using s(7,8) c by (subst card_Un_disjoint; simp add: card_Un_disjoint)
qed

lemma file_cost_owned:
  assumes "fs_ok fs sd b d" and "dir_map d k = Some s"
  shows "card (owned (sector sd) (nat s)) = file_cost (the (fs_files sd d k))"
proof -
  obtain n where n: "s = int n" "hdr_ok (hdr_at (sector sd) n)" "n \<notin> set (data_sectors (hdr_at (sector sd) n))"
    using fs_file_header [OF assms] by metis
  then have "distinct (data_sectors (hdr_at (sector sd) n))" "0 \<le> numBytes (hdr_at (sector sd) n)"
      "numSectors (hdr_at (sector sd) n) = divRoundUp (numBytes (hdr_at (sector sd) n)) SectorSize"
    by (simp_all add: hdr_ok_def)
  then show ?thesis
    using n length_data_sectors [OF n(2)] assms(2) by (simp add: owned_def file_cost_def fs_files_def distinct_card)
qed

text \<open>The free map has exactly the sectors in use that the abstract files need.\<close>

lemma disk_usage_card:
  assumes ok: "fs_ok fs sd b d"
  shows "card (used_bits b) = disk_usage (fs_files sd d)"
proof -
  note s = fs_sys_facts [OF ok]
  let ?m = "dir_map d" and ?S = "sector sd"
  have fin: "finite (dom ?m)"
    by (rule dir_full_card(1) [OF s(6)])
  have un: "all_owned ?S ?m = (\<Union>k \<in> dom ?m. owned ?S (nat (the (?m k))))"
    by (force simp: all_owned_def ran_def dom_def)
  have "files_ok ?S (sys_sectors fs) ?m"
    using ok by (simp add: fs_ok_def)
  then have dis: "owned ?S (nat (the (?m k))) \<inter> owned ?S (nat (the (?m k'))) = {}" if "k \<in> dom ?m" "k' \<in> dom ?m" "k \<noteq> k'" for k k'
    using that by (force simp: files_ok_def)
  have "card (all_owned ?S ?m) = (\<Sum>k \<in> dom ?m. card (owned ?S (nat (the (?m k)))))"
    unfolding un using fin dis by (intro card_UN_disjoint) (simp_all add: owned_def)
  also have "\<dots> = (\<Sum>k \<in> dom ?m. file_cost (the (fs_files sd d k)))"
    using file_cost_owned [OF ok] by (intro sum.cong) auto
  also have "dom ?m = dom (fs_files sd d)"
    by (auto simp: dom_def fs_files_def)
  finally have "card (all_owned ?S ?m) = (\<Sum>k \<in> dom (fs_files sd d). file_cost (the (fs_files sd d k)))" .
  moreover have "finite (sys_sectors fs)" "finite (all_owned ?S ?m)"
    using fin by (simp_all add: sys_sectors_def un owned_def)
  ultimately show ?thesis
    using s(9,10) sys_sectors_card [OF ok] by (simp add: disk_usage_def card_Un_disjoint Int_commute)
qed

lemma can_create_abstract:
  assumes "fs_ok fs sd b d"
  shows "can_create b d k n \<longleftrightarrow> fs_files sd d k = None \<and> has_room (fs_files sd d) n"
proof -
  have "dom (fs_files sd d) = dom (dir_map d)"
    by (auto simp: dom_def fs_files_def)
  then show ?thesis
    using dir_full_card(2) [of d] fs_sys_facts(6) [OF assms] disk_usage_card [OF assms]
    by (simp add: can_create_def has_room_def fs_files_None)
qed

lemma fs_create_sim:
  assumes ok: "fs_ok fs sd b d" and r: "request_ok (RCreate x n)"
  shows "\<exists>a sd' F'. fs_do mem fs sd (RCreate x n) = Inr (a, sd') \<and> spec_step (fs_files sd d) (RCreate x n) a F' \<and> fs_sim fs sd' F'"
proof (cases "can_create b d (dkey x) n")
  case True
  obtain sd' b' d' c where "FileSystem_Create mem fs sd x n = Inr (True, sd')" "fs_ok fs sd' b' d'"
    "fs_files sd' d' = (fs_files sd d)(dkey x \<mapsto> c)" "int (length c) = n"
    using Create_ok [OF ok _ _ _ True] r by (metis request_ok.simps(1))
  moreover have "fs_files sd d (dkey x) = None" "has_room (fs_files sd d) n"
    using True can_create_abstract [OF ok] by auto
  ultimately show ?thesis
    using spec_step.create [of "fs_files sd d" x n c] unfolding fs_sim_def by auto
next
  case False
  obtain sd' where "FileSystem_Create mem fs sd x n = Inr (False, sd')" "fs_ok fs sd' b d" "fs_files sd' d = fs_files sd d"
    using Create_fails [OF ok _ _ False] r by (metis request_ok.simps(1))
  moreover have "spec_step (fs_files sd d) (RCreate x n) (ABool False) (fs_files sd d)"
    using False can_create_abstract [OF ok] by (intro spec_step.create_refused) auto
  ultimately show ?thesis
    unfolding fs_sim_def by (intro exI [of _ "ABool False"] exI [of _ sd'] exI [of _ "fs_files sd d"]) auto
qed

lemma fs_remove_sim:
  assumes ok: "fs_ok fs sd b d" and x: "name_ok x"
  shows "\<exists>a sd' F'. fs_do mem fs sd (RRemove x) = Inr (a, sd') \<and> spec_step (fs_files sd d) (RRemove x) a F' \<and> fs_sim fs sd' F'"
proof (cases "dir_map d (dkey x)")
  case None
  obtain sd' where "FileSystem_Remove mem fs sd x = Inr (False, sd')" "fs_ok fs sd' b d" "fs_files sd' d = fs_files sd d"
    using FS_Remove_absent [OF ok x None] by metis
  moreover have "spec_step (fs_files sd d) (RRemove x) (ABool False) (fs_files sd d)"
    using None by (intro spec_step.remove_absent) (simp add: fs_files_None)
  ultimately show ?thesis
    unfolding fs_sim_def by (intro exI [of _ "ABool False"] exI [of _ sd'] exI [of _ "fs_files sd d"]) auto
next
  case (Some s)
  obtain sd' b' d' where "FileSystem_Remove mem fs sd x = Inr (True, sd')" "fs_ok fs sd' b' d'"
    "fs_files sd' d' = (fs_files sd d)(dkey x := None)"
    using Remove_ok [OF ok x Some] by metis
  moreover have "spec_step (fs_files sd d) (RRemove x) (ABool True) ((fs_files sd d)(dkey x := None))"
    using Some by (intro spec_step.remove) (simp add: fs_files_None)
  ultimately show ?thesis
    unfolding fs_sim_def by (intro exI [of _ "ABool True"] exI [of _ sd'] exI) auto
qed

lemma fs_open_file:
  assumes ok: "fs_ok fs sd b d" and x: "name_ok x" and s: "dir_map d (dkey x) = Some s"
  obtains f sd1 where "FileSystem_Open mem fs sd x = Inr (Some f, sd1)" "fs_ok fs sd1 b d" "fs_files sd1 d = fs_files sd d"
    "hdr f = hdr_at (sector sd1) (nat s)" "hdr_ok (hdr f)" "fs_files sd d (dkey x) = Some (file_content (sector sd1) (hdr f))"
proof -
  obtain sd1 where o: "FileSystem_Open mem fs sd x = Inr (map_option (\<lambda>s. \<lparr>hdr = hdr_at (sector sd) (nat s), seekPosition = 0\<rparr>)
      (dir_map d (dkey x)), sd1)" "idle sd1" "sector sd1 = sector sd"
    using Open_ok [OF ok x] .
  obtain n where n: "s = int n" "hdr_ok (hdr_at (sector sd) n)"
    using fs_file_header [OF ok s] by metis
  then show thesis
    using that [of "\<lparr>hdr = hdr_at (sector sd) (nat s), seekPosition = 0\<rparr>" sd1] o s fs_ok_sectors [OF ok o(2,3)]
    by (simp add: fs_files_def)
qed

lemma fs_open_absent:
  assumes ok: "fs_ok fs sd b d" and x: "name_ok x" and s: "dir_map d (dkey x) = None"
  obtains sd1 where "FileSystem_Open mem fs sd x = Inr (None, sd1)" "fs_ok fs sd1 b d" "fs_files sd1 d = fs_files sd d"
  using Open_ok [OF ok x] fs_ok_sectors [OF ok] s by (metis option.map(1))

lemma fs_write_sim:
  assumes ok: "fs_ok fs sd b d" and r: "request_ok (RWrite x pos data)"
  shows "\<exists>a sd' F'. fs_do mem fs sd (RWrite x pos data) = Inr (a, sd') \<and> spec_step (fs_files sd d) (RWrite x pos data) a F'
    \<and> fs_sim fs sd' F'"
proof (cases "dir_map d (dkey x)")
  case None
  obtain sd1 where "FileSystem_Open mem fs sd x = Inr (None, sd1)" "fs_ok fs sd1 b d" "fs_files sd1 d = fs_files sd d"
    using fs_open_absent [OF ok _ None] r by (metis request_ok.simps(3))
  moreover have "spec_step (fs_files sd d) (RWrite x pos data) ANull (fs_files sd d)"
    using None by (intro spec_step.write_absent) (simp add: fs_files_None)
  ultimately show ?thesis
    unfolding fs_sim_def by (intro exI [of _ ANull] exI [of _ sd1] exI [of _ "fs_files sd d"]) auto
next
  case (Some s)
  obtain f sd1 where f: "FileSystem_Open mem fs sd x = Inr (Some f, sd1)" "fs_ok fs sd1 b d" "fs_files sd1 d = fs_files sd d"
    "hdr f = hdr_at (sector sd1) (nat s)" "hdr_ok (hdr f)" "fs_files sd d (dkey x) = Some (file_content (sector sd1) (hdr f))"
    using fs_open_file [OF ok _ Some] r by (metis request_ok.simps(3))
  define c where "c = file_content (sector sd1) (hdr f)"
  obtain sd2 where w: "OpenFile_WriteAt (mem 9) (OpenFile_Seek f pos) sd1 data (int (length data)) pos
      = Inr (int (min (length data) (nat (numBytes (hdr f)) - nat pos)), sd2)" "fs_ok fs sd2 b d"
    "fs_files sd2 d = (fs_files sd d)(dkey x \<mapsto> overwrite c (nat pos) data)"
    using fs_write [OF f(2) Some, of "OpenFile_Seek f pos" pos "int (length data)" data "mem 9"] f(3,4) r range_fits_sum [of pos "int (length data)"]
    by (auto simp: OpenFile_Seek_def c_def)
  have "spec_step (fs_files sd d) (RWrite x pos data) (ACount (int (min (length data) (length c - nat pos))))
      ((fs_files sd d)(dkey x \<mapsto> overwrite c (nat pos) data))"
    using f(6) by (intro spec_step.put) (simp add: c_def)
  moreover have "fs_do mem fs sd (RWrite x pos data) = Inr (ACount (int (min (length data) (length c - nat pos))), sd2)"
    using f(1) w(1) by (simp add: OpenFile_Write_def c_def) (simp add: OpenFile_Seek_def)
  ultimately show ?thesis
    using w(2,3) unfolding fs_sim_def by blast
qed

lemma fs_read_sim:
  assumes ok: "fs_ok fs sd b d" and r: "request_ok (RRead x pos n)"
  shows "\<exists>a sd' F'. fs_do mem fs sd (RRead x pos n) = Inr (a, sd') \<and> spec_step (fs_files sd d) (RRead x pos n) a F'
    \<and> fs_sim fs sd' F'"
proof (cases "dir_map d (dkey x)")
  case None
  obtain sd1 where "FileSystem_Open mem fs sd x = Inr (None, sd1)" "fs_ok fs sd1 b d" "fs_files sd1 d = fs_files sd d"
    using fs_open_absent [OF ok _ None] r by (metis request_ok.simps(4))
  moreover have "spec_step (fs_files sd d) (RRead x pos n) ANull (fs_files sd d)"
    using None by (intro spec_step.read_absent) (simp add: fs_files_None)
  ultimately show ?thesis
    unfolding fs_sim_def by (intro exI [of _ ANull] exI [of _ sd1] exI [of _ "fs_files sd d"]) auto
next
  case (Some s)
  obtain f sd1 where f: "FileSystem_Open mem fs sd x = Inr (Some f, sd1)" "fs_ok fs sd1 b d" "fs_files sd1 d = fs_files sd d"
    "hdr f = hdr_at (sector sd1) (nat s)" "hdr_ok (hdr f)" "fs_files sd d (dkey x) = Some (file_content (sector sd1) (hdr f))"
    using fs_open_file [OF ok _ Some] r by (metis request_ok.simps(4))
  have "idle sd1" "hdr_ok (hdr (OpenFile_Seek f pos))" "0 \<le> pos" "range_fits (OpenFile_Seek f pos) pos n"
    using f(2,5) r by (simp_all add: fs_ok_def OpenFile_Seek_def range_fits_sum)
  then obtain sd2 where w: "OpenFile_ReadAt (OpenFile_Seek f pos) sd1 n pos
      = Inr (take (nat n) (drop (nat pos) (file_content (sector sd1) (hdr (OpenFile_Seek f pos)))), sd2)" "idle sd2" "sector sd2 = sector sd1"
    using ReadAt_ok by blast
  have "spec_step (fs_files sd d) (RRead x pos n) (ABytes (take (nat n) (drop (nat pos) (file_content (sector sd1) (hdr f))))) (fs_files sd d)"
    using f(6) by (intro spec_step.read) simp
  moreover have "fs_do mem fs sd (RRead x pos n) = Inr (ABytes (take (nat n) (drop (nat pos) (file_content (sector sd1) (hdr f)))), sd2)"
    using f(1) w(1) by (simp add: OpenFile_Read_def OpenFile_Seek_def)
  moreover have "fs_sim fs sd2 (fs_files sd d)"
    using fs_ok_sectors [OF f(2) w(2,3)] f(3) unfolding fs_sim_def by auto
  ultimately show ?thesis
    by blast
qed

lemma fs_do_sim:
  assumes "fs_sim fs sd F" and "request_ok r"
  obtains a sd' F' where "fs_do mem fs sd r = Inr (a, sd')" "spec_step F r a F'" "fs_sim fs sd' F'"
proof -
  obtain b d where ok: "fs_ok fs sd b d" and F: "F = fs_files sd d"
    using assms(1) by (auto simp: fs_sim_def)
  have "\<exists>a sd' F'. fs_do mem fs sd r = Inr (a, sd') \<and> spec_step F r a F' \<and> fs_sim fs sd' F'"
    unfolding F using assms(2) fs_create_sim [OF ok] fs_remove_sim [OF ok] fs_write_sim [OF ok] fs_read_sim [OF ok]
    by (cases r) (simp_all only: request_ok.simps)
  then show thesis
    using that by blast
qed

lemma fs_run_sim:
  assumes "fs_sim fs sd F" and "list_all request_ok rs"
  shows "\<exists>as sd' F'. fs_run mems fs sd rs = Inr (as, sd') \<and> spec_run F rs as F' \<and> fs_sim fs sd' F'"
  using assms
proof (induction rs arbitrary: sd F)
  case Nil
  then show ?case by (auto intro: spec_run.nil)
next
  case (Cons r rs)
  have "request_ok r"
    using Cons.prems(2) by simp
  then obtain a sd1 F1 where s: "fs_do (mems (length rs)) fs sd r = Inr (a, sd1)" "spec_step F r a F1" "fs_sim fs sd1 F1"
    using fs_do_sim [OF Cons.prems(1)] by blast
  then obtain as sd2 F2 where "fs_run mems fs sd1 rs = Inr (as, sd2)" "spec_run F1 rs as F2" "fs_sim fs sd2 F2"
    using Cons.IH [OF s(3)] Cons.prems(2) by auto
  then show ?case
    using s by (auto intro: spec_run.cons)
qed

section \<open>Properties of the file system\<close>

fun request_key :: "fs_request \<Rightarrow> byte list" where
  "request_key (RCreate x n) = take 9 x"
| "request_key (RRemove x) = take 9 x"
| "request_key (RWrite x pos data) = take 9 x"
| "request_key (RRead x pos n) = take 9 x"

lemma spec_step_frame: "spec_step F r a F' \<Longrightarrow> k \<noteq> request_key r \<Longrightarrow> F' k = F k"
  by (induction rule: spec_step.induct) auto

lemma spec_run_frame: "spec_run F rs as F' \<Longrightarrow> k \<notin> request_key ` set rs \<Longrightarrow> F' k = F k"
  by (induction rule: spec_run.induct) (auto dest: spec_step_frame)

text \<open>C4: The file system refines its specification: after formatting any disk, every sequence of well-formed requests
  runs to its end with no assertion failure and no access out of bounds, and its answers and final files are
  those of a run of the specification from no files; the invariant of the disk holds at the end. In the specification
  a file is created exactly if its name is new, fewer than ten files exist and the disk has sectors for it. A request is
  well formed if its size is at most \<^verbatim>\<open>MaxFileSize\<close> and the end of its range is an \<^verbatim>\<open>int\<close>.\<close>
theorem file_system_refines:
  assumes "idle sd" and "list_all request_ok rs"
  shows "\<exists>fs sd0 as sd' F b d. FileSystem_new mem True sd = Inr (fs, sd0) \<and> fs_run mems fs sd0 rs = Inr (as, sd')
    \<and> spec_run Map.empty rs as F \<and> fs_ok fs sd' b d \<and> fs_files sd' d = F"
proof -
  obtain fs sd0 b d where f: "FileSystem_new mem True sd = Inr (fs, sd0)" "fs_ok fs sd0 b d" "dir_map d = Map.empty"
    using format_ok [OF assms(1)] by metis
  then have "fs_ok fs sd0 b d \<and> fs_files sd0 d = Map.empty"
    by (simp add: fs_files_def [abs_def])
  then have "fs_sim fs sd0 Map.empty"
    unfolding fs_sim_def by blast
  then obtain as sd' F where "fs_run mems fs sd0 rs = Inr (as, sd')" "spec_run Map.empty rs as F" "fs_sim fs sd' F"
    using fs_run_sim assms(2) by blast
  then show ?thesis
    using f(1) unfolding fs_sim_def by blast
qed

lemma blank_disk_idle: "idle blank_disk"
  by (simp add: idle_def blank_disk_def SynchDisk_new_def)

lemma sample_requests_ok: "list_all request_ok [RCreate [97] 300, RWrite [97] 290 [1, 2, 3], RRead [97] 291 2, RRemove [98]]"
  by (simp add: name_ok_def MaxFileSize_def NumDirect_eq SectorSize_def)

theorem file_system_refines_witness:
  "\<exists>fs sd0 as sd' F b d. FileSystem_new (\<lambda>i k. 7) True blank_disk = Inr (fs, sd0)
    \<and> fs_run (\<lambda>t i k. 7) fs sd0 [RCreate [97] 300, RWrite [97] 290 [1, 2, 3], RRead [97] 291 2, RRemove [98]] = Inr (as, sd')
    \<and> spec_run Map.empty [RCreate [97] 300, RWrite [97] 290 [1, 2, 3], RRead [97] 291 2, RRemove [98]] as F
    \<and> fs_ok fs sd' b d \<and> fs_files sd' d = F"
  by (rule file_system_refines [OF blank_disk_idle sample_requests_ok])

text \<open>C5: \<^verbatim>\<open>Create\<close> of a file of at most \<^verbatim>\<open>MaxFileSize\<close> bytes succeeds exactly if the name is new, a directory entry is
  free and there are sectors for the header and the data; then the file has the requested size, no other file
  changes and exactly those sectors are taken. When it fails, no sector of the disk has changed.\<close>
theorem Create_exact:
  assumes "fs_ok fs sd b d" and "name_ok x" and "0 \<le> n" and "n \<le> MaxFileSize"
  shows "\<exists>ok sd' b' d'. FileSystem_Create mem fs sd x n = Inr (ok, sd') \<and> ok = can_create b d (take 9 x) n \<and> fs_ok fs sd' b' d'
    \<and> (if ok then (\<exists>c. int (length c) = n \<and> fs_files sd' d' = (fs_files sd d)(take 9 x \<mapsto> c))
          \<and> int (card (used_bits b')) = int (card (used_bits b)) + 1 + divRoundUp n SectorSize
       else sector sd' = sector sd \<and> b' = b \<and> d' = d)"
proof (cases "can_create b d (take 9 x) n")
  case True
  obtain sd' b' d' c where "FileSystem_Create mem fs sd x n = Inr (True, sd')" "fs_ok fs sd' b' d'"
    "fs_files sd' d' = (fs_files sd d)(dkey x \<mapsto> c)" "int (length c) = n"
    "int (card (used_bits b')) = int (card (used_bits b)) + 1 + divRoundUp n SectorSize"
    using Create_ok [OF assms True] .
  then show ?thesis
    using True by (intro exI [of _ True] exI [of _ sd'] exI [of _ b'] exI [of _ d']) auto
next
  case False
  obtain sd' where "FileSystem_Create mem fs sd x n = Inr (False, sd')" "sector sd' = sector sd" "fs_ok fs sd' b d"
    using Create_fails [OF assms(1-3) False] .
  then show ?thesis
    using False by (intro exI [of _ False] exI [of _ sd'] exI [of _ b] exI [of _ d]) auto
qed

theorem Create_exact_witness:
  "\<exists>fs sd b d ok sd' b' d'. fs_ok fs sd b d \<and> FileSystem_Create (\<lambda>i k. 7) fs sd [97] 300 = Inr (ok, sd') \<and> ok \<and> fs_ok fs sd' b' d'"
proof -
  obtain fs sd b d where f: "FileSystem_new (\<lambda>i k. 7) True blank_disk = Inr (fs, sd)" "fs_ok fs sd b d" "dir_map d = Map.empty"
    "\<not> dir_full d" "card (used_bits b) \<le> 5"
    using format_ok [OF blank_disk_idle] .
  have "name_ok [97]" "(0 :: int) \<le> 300" "300 \<le> MaxFileSize" "can_create b d (take 9 [97]) 300"
    using f(3-5) by (simp_all add: name_ok_def MaxFileSize_def NumDirect_eq SectorSize_def can_create_def disk_consts divRoundUp_nonneg)
  then show ?thesis
    using Create_exact [OF f(2), of "[97]" 300 "\<lambda>i k. 7"] f(2) by blast
qed

text \<open>C6: \<^verbatim>\<open>Remove\<close> succeeds exactly if the name is present; then the file is gone, every other file is as before and
  exactly the sectors of its header and data are free again, so nothing leaks.\<close>
theorem Remove_exact:
  assumes "fs_ok fs sd b d" and "name_ok x"
  shows "\<exists>ok sd' b' d'. FileSystem_Remove mem fs sd x = Inr (ok, sd') \<and> ok = (fs_files sd d (take 9 x) \<noteq> None) \<and> fs_ok fs sd' b' d'
    \<and> fs_files sd' d' = (fs_files sd d)(take 9 x := None) \<and> (\<not> ok \<longrightarrow> sector sd' = sector sd) \<and> (ok \<longrightarrow> used_bits b' \<subset> used_bits b)"
proof (cases "dir_map d (dkey x)")
  case None
  obtain sd' where r: "FileSystem_Remove mem fs sd x = Inr (False, sd')" "sector sd' = sector sd" "fs_ok fs sd' b d"
    "fs_files sd' d = fs_files sd d"
    using FS_Remove_absent [OF assms None] .
  have "fs_files sd d (take 9 x) = None"
    using None by (simp add: fs_files_None)
  then show ?thesis
    using r by (intro exI [of _ False] exI [of _ sd'] exI [of _ b] exI [of _ d]) (simp add: fun_upd_idem)
next
  case (Some s)
  obtain sd' b' d' where r: "FileSystem_Remove mem fs sd x = Inr (True, sd')" "fs_ok fs sd' b' d'"
    "fs_files sd' d' = (fs_files sd d)(dkey x := None)" "used_bits b' \<subset> used_bits b"
    using Remove_ok [OF assms Some] .
  have "fs_files sd d (take 9 x) \<noteq> None"
    using Some by (simp add: fs_files_None)
  then show ?thesis
    using r by (intro exI [of _ True] exI [of _ sd'] exI [of _ b'] exI [of _ d']) simp
qed

theorem Remove_exact_witness:
  "\<exists>fs sd b d ok sd'. fs_ok fs sd b d \<and> FileSystem_Remove (\<lambda>i k. 7) fs sd [97] = Inr (ok, sd') \<and> \<not> ok \<and> sector sd' = sector sd"
proof -
  obtain fs sd b d where f: "FileSystem_new (\<lambda>i k. 7) True blank_disk = Inr (fs, sd)" "fs_ok fs sd b d" "dir_map d = Map.empty"
    using format_ok [OF blank_disk_idle] by metis
  have "fs_files sd d (take 9 [97]) = None"
    using f(3) by (simp add: fs_files_def)
  moreover have "name_ok [97]"
    by (simp add: name_ok_def)
  ultimately show ?thesis
    using Remove_exact [OF f(2), of "[97]" "\<lambda>i k. 7"] f(2) by blast
qed

text \<open>C7: Files persist: opening the file system again without formatting, after any sequence of well-formed requests, finds
  exactly the files it had, and a file that no request names keeps its contents.\<close>
theorem files_persist:
  assumes "fs_ok fs sd b d" and "list_all request_ok rs"
  shows "\<exists>as sd' fs' sd'' b' d'. fs_run mems fs sd rs = Inr (as, sd') \<and> FileSystem_new mem False sd' = Inr (fs', sd'')
    \<and> fs_ok fs' sd'' b' d' \<and> spec_run (fs_files sd d) rs as (fs_files sd'' d')
    \<and> (\<forall>k. k \<notin> request_key ` set rs \<longrightarrow> fs_files sd'' d' k = fs_files sd d k)"
proof -
  have "fs_sim fs sd (fs_files sd d)"
    using assms(1) by (auto simp: fs_sim_def)
  then obtain as sd' F where r: "fs_run mems fs sd rs = Inr (as, sd')" "spec_run (fs_files sd d) rs as F" "fs_sim fs sd' F"
    using fs_run_sim assms(2) by blast
  then obtain b' d' where ok: "fs_ok fs sd' b' d'" "fs_files sd' d' = F"
    by (auto simp: fs_sim_def)
  obtain fs' sd'' where "FileSystem_new mem False sd' = Inr (fs', sd'')" "fs_ok fs' sd'' b' d'" "fs_files sd'' d' = fs_files sd' d'"
    using mount_ok [OF ok(1)] by metis
  then show ?thesis
    using r ok(2) spec_run_frame [OF r(2)] by (intro exI [of _ as] exI [of _ sd'] exI [of _ fs'] exI [of _ sd''] exI [of _ b'] exI [of _ d']) simp
qed

theorem files_persist_witness:
  "\<exists>fs sd b d as sd' fs' sd''. fs_ok fs sd b d
    \<and> fs_run (\<lambda>t i k. 7) fs sd [RCreate [97] 300, RWrite [97] 290 [1, 2, 3], RRead [97] 291 2, RRemove [98]] = Inr (as, sd')
    \<and> FileSystem_new (\<lambda>i k. 7) False sd' = Inr (fs', sd'')"
proof -
  obtain fs sd b d where f: "FileSystem_new (\<lambda>i k. 7) True blank_disk = Inr (fs, sd)" "fs_ok fs sd b d"
    using format_ok [OF blank_disk_idle] by metis
  show ?thesis
    using files_persist [OF f(2) sample_requests_ok, of "\<lambda>t i k. 7" "\<lambda>i k. 7"] f(2) by blast
qed

end
