(* ===== verification/Machine.thy ===== *)
theory Machine
  imports Nachos_Prelude
begin

text \<open>
  \<^verbatim>\<open>machine/machine.h\<close>, \<^verbatim>\<open>machine/machine.cc\<close> and \<^verbatim>\<open>machine/translate.cc\<close>: the simulated
  workstation as user programs see it: registers, main memory, address translation through
  a page table or a TLB, reading and writing of 1, 2 or 4 bytes, traps to the kernel.

  The machine record is extended by the kernel's own state (\<open>'a machine_scheme\<close>): the
  kernel's \<^verbatim>\<open>ExceptionHandler\<close> is an argument \<open>eh\<close> of the operations that trap and may
  change all of it. The host is little endian (\<^verbatim>\<open>HOST_IS_BIG_ENDIAN\<close> is not set on Linux).
\<close>

section \<open>Constants and data\<close>

definition PageSize :: int where "PageSize = 128"
definition NumPhysPages :: int where "NumPhysPages = 128"
definition MemorySize :: int where "MemorySize = NumPhysPages * PageSize"
definition TLBSize :: nat where "TLBSize = 4"

datatype ExceptionType = NoException | SyscallException | PageFaultException | ReadOnlyException
  | BusErrorException | AddressErrorException | OverflowException | IllegalInstrException
  | NumExceptionTypes

datatype MachineStatus = IdleMode | SystemMode | UserMode

abbreviation (input) StackReg :: nat where "StackReg \<equiv> 29"
abbreviation (input) RetAddrReg :: nat where "RetAddrReg \<equiv> 31"
abbreviation (input) NumGPRegs :: nat where "NumGPRegs \<equiv> 32"
abbreviation (input) HiReg :: nat where "HiReg \<equiv> 32"
abbreviation (input) LoReg :: nat where "LoReg \<equiv> 33"
abbreviation (input) PCReg :: nat where "PCReg \<equiv> 34"
abbreviation (input) NextPCReg :: nat where "NextPCReg \<equiv> 35"
abbreviation (input) PrevPCReg :: nat where "PrevPCReg \<equiv> 36"
abbreviation (input) LoadReg :: nat where "LoadReg \<equiv> 37"
abbreviation (input) LoadValueReg :: nat where "LoadValueReg \<equiv> 38"
abbreviation (input) BadVAddrReg :: nat where "BadVAddrReg \<equiv> 39"
abbreviation (input) NumTotalRegs :: nat where "NumTotalRegs \<equiv> 40"

record TranslationEntry =
  virtualPage :: "32 word"
  physicalPage :: "32 word"
  valid :: bool
  readOnly :: bool
  use :: bool
  dirty :: bool

record machine =
  registers :: "nat \<Rightarrow> 32 word"
  mainMemory :: "nat \<Rightarrow> 8 word"
  tlb :: "TranslationEntry list option"
  pageTable :: "TranslationEntry list option"
  pageTableSize :: "32 word"
  singleStep :: bool
  runUntilTime :: int
  status :: MachineStatus

type_synonym 'a handler = "ExceptionType \<Rightarrow> 'a machine_scheme \<Rightarrow> 'a machine_scheme result"

definition set_reg :: "nat \<Rightarrow> 32 word \<Rightarrow> 'a machine_scheme \<Rightarrow> 'a machine_scheme" where
  "set_reg r v m = m\<lparr>registers := (registers m)(r := v)\<rparr>"

text \<open>
  The constructor leaves \<^verbatim>\<open>pageTableSize\<close> and \<^verbatim>\<open>runUntilTime\<close> uninitialised: what the
  allocation holds there are arguments. \<^verbatim>\<open>USE_TLB\<close> is not set in the build.
\<close>

definition Machine_new :: "bool \<Rightarrow> 32 word \<Rightarrow> int \<Rightarrow> MachineStatus \<Rightarrow> machine" where
  "Machine_new dbg pts rut st = \<lparr>registers = (\<lambda>_. 0), mainMemory = (\<lambda>_. 0), tlb = None, pageTable = None,
     pageTableSize = pts, singleStep = dbg, runUntilTime = rut, status = st\<rparr>"

definition Machine_ReadRegister :: "'a machine_scheme \<Rightarrow> int \<Rightarrow> (32 word) result" where
  "Machine_ReadRegister m num =
     rbind (ASSERT (0 \<le> num \<and> num < int NumTotalRegs)) (\<lambda>_. Inr (registers m (nat num)))"

definition Machine_WriteRegister :: "'a machine_scheme \<Rightarrow> int \<Rightarrow> 32 word \<Rightarrow> 'a machine_scheme result" where
  "Machine_WriteRegister m num v =
     rbind (ASSERT (0 \<le> num \<and> num < int NumTotalRegs)) (\<lambda>_. Inr (set_reg (nat num) v m))"

section \<open>Delayed loads and traps\<close>

text \<open>\<^verbatim>\<open>registers[registers[LoadReg]] = registers[LoadValueReg]\<close> indexes with a register's value.\<close>

definition Machine_DelayedLoad :: "nat \<Rightarrow> 32 word \<Rightarrow> 'a machine_scheme \<Rightarrow> 'a machine_scheme result" where
  "Machine_DelayedLoad nextReg nextValue m =
     (let i = sint (registers m LoadReg) in
      if 0 \<le> i \<and> i < int NumTotalRegs then
        Inr (set_reg 0 0 (set_reg LoadValueReg nextValue (set_reg LoadReg (of_nat nextReg)
          (set_reg (nat i) (registers m LoadValueReg) m))))
      else Inl OutOfBounds)"

definition Machine_RaiseException ::
    "'a handler \<Rightarrow> ExceptionType \<Rightarrow> 32 word \<Rightarrow> 'a machine_scheme \<Rightarrow> 'a machine_scheme result" where
  "Machine_RaiseException eh which badVAddr m =
     rbind (Machine_DelayedLoad 0 0 (set_reg BadVAddrReg badVAddr m)) (\<lambda>m1.
     rbind (eh which (m1\<lparr>status := SystemMode\<rparr>)) (\<lambda>m2. Inr (m2\<lparr>status := UserMode\<rparr>)))"

section \<open>Address translation\<close>

fun tlb_search :: "TranslationEntry list \<Rightarrow> 32 word \<Rightarrow> nat \<Rightarrow> nat \<Rightarrow> nat option result" where
  "tlb_search t vpn i 0 = Inr None"
| "tlb_search t vpn i (Suc n) =
     rbind (arr_get t (int i)) (\<lambda>e.
     if valid e \<and> virtualPage e = vpn then Inr (Some i) else tlb_search t vpn (Suc i) n)"

text \<open>The entry for a virtual page: an exception, or its index and the entry.\<close>

definition lookup_entry :: "'a machine_scheme \<Rightarrow> 32 word \<Rightarrow> (ExceptionType + nat \<times> TranslationEntry) result" where
  "lookup_entry m vpn =
     (case tlb m of
        None \<Rightarrow>
          if vpn \<ge> pageTableSize m then Inr (Inl AddressErrorException)
          else rbind (arr_get (the (pageTable m)) (uint vpn)) (\<lambda>e.
            Inr (if \<not> valid e then Inl PageFaultException else Inr (unat vpn, e)))
      | Some t \<Rightarrow>
          rbind (tlb_search t vpn 0 TLBSize) (\<lambda>r.
          (case r of None \<Rightarrow> Inr (Inl PageFaultException)
           | Some i \<Rightarrow> rbind (arr_get t (int i)) (\<lambda>e. Inr (Inr (i, e))))))"

definition touch :: "bool \<Rightarrow> TranslationEntry \<Rightarrow> TranslationEntry" where
  "touch writing e = e\<lparr>use := True, dirty := (dirty e \<or> writing)\<rparr>"

definition update_entry :: "nat \<Rightarrow> TranslationEntry \<Rightarrow> 'a machine_scheme \<Rightarrow> 'a machine_scheme" where
  "update_entry i e m =
     (case tlb m of None \<Rightarrow> m\<lparr>pageTable := map_option (\<lambda>t. t[i := e]) (pageTable m)\<rparr>
      | Some t \<Rightarrow> m\<lparr>tlb := Some (t[i := e])\<rparr>)"

definition misaligned :: "32 word \<Rightarrow> int \<Rightarrow> bool" where
  "misaligned virtAddr sz \<longleftrightarrow> (sz = 4 \<and> virtAddr AND 3 \<noteq> 0) \<or> (sz = 2 \<and> virtAddr AND 1 \<noteq> 0)"

definition Machine_Translate :: "'a machine_scheme \<Rightarrow> 32 word \<Rightarrow> int \<Rightarrow> bool
    \<Rightarrow> ((ExceptionType + 32 word) \<times> 'a machine_scheme) result" where
  "Machine_Translate m virtAddr sz writing =
     (if misaligned virtAddr sz then Inr (Inl AddressErrorException, m)
      else rbind (ASSERT (tlb m = None \<or> pageTable m = None)) (\<lambda>_.
       rbind (ASSERT (tlb m \<noteq> None \<or> pageTable m \<noteq> None)) (\<lambda>_.
       let vpn = virtAddr div word_of_int PageSize;
           offset = virtAddr mod word_of_int PageSize in
       rbind (lookup_entry m vpn) (\<lambda>r.
       (case r of Inl ex \<Rightarrow> Inr (Inl ex, m)
        | Inr (i, entry) \<Rightarrow>
            if readOnly entry \<and> writing then Inr (Inl ReadOnlyException, m)
            else let pageFrame = physicalPage entry in
              if pageFrame \<ge> word_of_int NumPhysPages then Inr (Inl BusErrorException, m)
              else let m1 = update_entry i (touch writing entry) m;
                       physAddr = pageFrame * word_of_int PageSize + offset in
                rbind (ASSERT (0 \<le> sint physAddr \<and> sint physAddr + sz \<le> MemorySize)) (\<lambda>_.
                Inr (Inr physAddr, m1)))))))"

section \<open>Memory\<close>

definition WordToHost :: "32 word \<Rightarrow> 32 word" where "WordToHost w = w"
definition ShortToHost :: "16 word \<Rightarrow> 16 word" where "ShortToHost w = w"
definition WordToMachine :: "32 word \<Rightarrow> 32 word" where "WordToMachine w = WordToHost w"
definition ShortToMachine :: "16 word \<Rightarrow> 16 word" where "ShortToMachine w = ShortToHost w"

text \<open>Accesses through an \<^verbatim>\<open>unsigned short *\<close> and an \<^verbatim>\<open>unsigned int *\<close> on a little endian host.\<close>

definition load16 :: "(nat \<Rightarrow> 8 word) \<Rightarrow> nat \<Rightarrow> 16 word" where
  "load16 mem p = ucast (mem p) OR push_bit 8 (ucast (mem (p + 1)))"

definition load32 :: "(nat \<Rightarrow> 8 word) \<Rightarrow> nat \<Rightarrow> 32 word" where
  "load32 mem p = ucast (mem p) OR push_bit 8 (ucast (mem (p + 1)))
     OR push_bit 16 (ucast (mem (p + 2))) OR push_bit 24 (ucast (mem (p + 3)))"

definition store16 :: "(nat \<Rightarrow> 8 word) \<Rightarrow> nat \<Rightarrow> 16 word \<Rightarrow> nat \<Rightarrow> 8 word" where
  "store16 mem p v = mem(p := ucast v, p + 1 := ucast (drop_bit 8 v))"

definition store32 :: "(nat \<Rightarrow> 8 word) \<Rightarrow> nat \<Rightarrow> 32 word \<Rightarrow> nat \<Rightarrow> 8 word" where
  "store32 mem p v = mem(p := ucast v, p + 1 := ucast (drop_bit 8 v),
     p + 2 := ucast (drop_bit 16 v), p + 3 := ucast (drop_bit 24 v))"

text \<open>\<^verbatim>\<open>ReadMem\<close> returns FALSE as \<open>None\<close>, after the kernel has handled the exception.\<close>

definition Machine_ReadMem :: "'a handler \<Rightarrow> 'a machine_scheme \<Rightarrow> 32 word \<Rightarrow> int
    \<Rightarrow> ((32 word) option \<times> 'a machine_scheme) result" where
  "Machine_ReadMem eh m addr sz =
     rbind (Machine_Translate m addr sz False) (\<lambda>(t, m1).
     (case t of
        Inl ex \<Rightarrow> rbind (Machine_RaiseException eh ex addr m1) (\<lambda>m2. Inr (None, m2))
      | Inr pa \<Rightarrow>
          let p = unat pa; mem = mainMemory m1 in
          if sz = 1 then Inr (Some (scast (mem p)), m1)
          else if sz = 2 then Inr (Some (ucast (ShortToHost (load16 mem p))), m1)
          else if sz = 4 then Inr (Some (WordToHost (load32 mem p)), m1)
          else Inl AssertFail))"

definition Machine_WriteMem :: "'a handler \<Rightarrow> 'a machine_scheme \<Rightarrow> 32 word \<Rightarrow> int \<Rightarrow> 32 word
    \<Rightarrow> (bool \<times> 'a machine_scheme) result" where
  "Machine_WriteMem eh m addr sz v =
     rbind (Machine_Translate m addr sz True) (\<lambda>(t, m1).
     (case t of
        Inl ex \<Rightarrow> rbind (Machine_RaiseException eh ex addr m1) (\<lambda>m2. Inr (False, m2))
      | Inr pa \<Rightarrow>
          let p = unat pa; mem = mainMemory m1 in
          if sz = 1 then Inr (True, m1\<lparr>mainMemory := mem(p := ucast (v AND 0xff))\<rparr>)
          else if sz = 2 then Inr (True, m1\<lparr>mainMemory := store16 mem p (ShortToMachine (ucast (v AND 0xffff)))\<rparr>)
          else if sz = 4 then Inr (True, m1\<lparr>mainMemory := store32 mem p (WordToMachine v)\<rparr>)
          else Inl AssertFail))"

section \<open>Bytes\<close>

lemma bit_word8: "bit (w :: 8 word) k \<Longrightarrow> k < 8"
  using bit_imp_le_length [of w k] by simp

lemma load32_store32 [simp]: "load32 (store32 mem p v) p = v"
proof (rule bit_word_eqI)
  fix n
  assume "n < LENGTH(32)"
  then consider "n < 8" | "8 \<le> n" "n < 16" | "16 \<le> n" "n < 24" | "24 \<le> n" "n < 32"
    by fastforce
  then show "bit (load32 (store32 mem p v) p) n = bit v n"
    by cases (auto simp: load32_def store32_def bit_simps dest: bit_word8)
qed

lemma load16_store16 [simp]: "load16 (store16 mem p v) p = v"
proof (rule bit_word_eqI)
  fix n
  assume "n < LENGTH(16)"
  then consider "n < 8" | "8 \<le> n" "n < 16"
    by fastforce
  then show "bit (load16 (store16 mem p v) p) n = bit v n"
    by cases (auto simp: load16_def store16_def bit_simps dest: bit_word8)
qed

lemma store32_other: "q < p \<or> p + 4 \<le> q \<Longrightarrow> store32 mem p v q = mem q"
  by (auto simp: store32_def)

lemma store16_other: "q < p \<or> p + 2 \<le> q \<Longrightarrow> store16 mem p v q = mem q"
  by (auto simp: store16_def)

section \<open>Translation is safe\<close>

text \<open>The machine has a page table or a TLB, not both, and the table is as long as it says.\<close>

definition mmu_wf :: "'a machine_scheme \<Rightarrow> bool" where
  "mmu_wf m \<longleftrightarrow> (case tlb m of
     None \<Rightarrow> (case pageTable m of None \<Rightarrow> False | Some t \<Rightarrow> uint (pageTableSize m) \<le> int (length t))
   | Some t \<Rightarrow> pageTable m = None \<and> length t = TLBSize)"

text \<open>\<open>maps m vpn i e\<close>: the translation finds entry \<open>e\<close>, the \<open>i\<close>-th, for page \<open>vpn\<close>.\<close>

definition maps :: "'a machine_scheme \<Rightarrow> 32 word \<Rightarrow> nat \<Rightarrow> TranslationEntry \<Rightarrow> bool" where
  "maps m vpn i e \<longleftrightarrow> lookup_entry m vpn = Inr (Inr (i, e))"

lemma tlb_search_total:
  "i + n = length t \<Longrightarrow> \<exists>r. tlb_search t vpn i n = Inr r \<and> (\<forall>j. r = Some j \<longrightarrow> j < length t \<and> valid (t ! j) \<and> virtualPage (t ! j) = vpn)"
proof (induction n arbitrary: i)
  case 0
  then show ?case by simp
next
  case (Suc n)
  then show ?case
    using Suc.IH [of "Suc i"] by auto
qed

lemma lookup_entry_total:
  assumes "mmu_wf m"
  shows "(\<exists>ex. lookup_entry m vpn = Inr (Inl ex) \<and> ex \<noteq> NoException) \<or> (\<exists>i e. maps m vpn i e \<and> valid e)"
proof (cases "tlb m")
  case None
  then obtain t where t: "pageTable m = Some t" "uint (pageTableSize m) \<le> int (length t)"
    using assms by (auto simp: mmu_wf_def split: option.splits)
  show ?thesis
  proof (cases "pageTableSize m \<le> vpn")
    case True
    then show ?thesis using None by (simp add: lookup_entry_def)
  next
    case False
    then have "uint vpn < int (length t)"
      using t(2) by (simp add: word_less_def not_le)
    then show ?thesis
      using None t(1) False by (simp add: lookup_entry_def maps_def arr_get_def)
  qed
next
  case (Some t)
  then have t: "length t = TLBSize"
    using assms by (simp add: mmu_wf_def)
  from tlb_search_total [of 0 TLBSize t vpn] t obtain r where
    r: "tlb_search t vpn 0 TLBSize = Inr r" "\<forall>j. r = Some j \<longrightarrow> j < length t \<and> valid (t ! j)"
    by auto
  then show ?thesis
    using Some by (cases r) (auto simp: lookup_entry_def maps_def)
qed

lemma aligned_end:
  assumes "sz = 1 \<or> sz = 2 \<or> sz = 4" and "\<not> misaligned va sz"
  shows "uint va mod 128 + sz \<le> 128" "sz dvd uint va"
proof -
  have m: "uint (va AND 3) = uint va mod 4" "uint (va AND 1) = uint va mod 2"
    using take_bit_eq_mod [of 2 "uint va"] take_bit_eq_mod [of 1 "uint va"]
    by (simp_all add: uint_and take_bit_eq_mask mask_eq_exp_minus_1)
  have d: "sz dvd uint va"
    using assms m by (auto simp: misaligned_def word_uint_eq_iff mod_eq_0_iff_dvd)
  then have "sz dvd uint va mod 128"
    using assms(1) by (auto simp: dvd_mod)
  then obtain k where k: "uint va mod 128 = sz * k" by blast
  have "uint va mod 128 < 128" by simp
  then show "uint va mod 128 + sz \<le> 128"
    using assms(1) k by auto
  show "sz dvd uint va" by (rule d)
qed

lemma frame_address:
  assumes "(pf :: 32 word) < 128"
  shows "uint (pf * 128 + va mod 128) = uint pf * 128 + uint va mod 128"
proof -
  have pf: "uint pf < 128"
    using assms by (simp add: word_less_def)
  have off: "uint (va mod 128) = uint va mod 128" "uint va mod 128 < 128" "0 \<le> uint va mod 128"
    by (simp_all add: uint_mod)
  have "uint (pf * 128) = uint pf * 128"
    using pf by (simp add: uint_word_ariths)
  then show ?thesis
    using pf off by (simp add: uint_word_ariths)
qed

lemma update_entry_simps [simp]:
  "registers (update_entry i e m) = registers m" "mainMemory (update_entry i e m) = mainMemory m"
  "status (update_entry i e m) = status m" "pageTableSize (update_entry i e m) = pageTableSize m"
  "machine.more (update_entry i e m) = machine.more m" "singleStep (update_entry i e m) = singleStep m"
  "mmu_wf (update_entry i e m) = mmu_wf m"
  by (auto simp: update_entry_def mmu_wf_def split: option.splits)

lemma set_reg_simps [simp]:
  "registers (set_reg r v m) = (registers m)(r := v)" "mainMemory (set_reg r v m) = mainMemory m"
  "status (set_reg r v m) = status m" "tlb (set_reg r v m) = tlb m" "pageTable (set_reg r v m) = pageTable m"
  "pageTableSize (set_reg r v m) = pageTableSize m" "mmu_wf (set_reg r v m) = mmu_wf m"
  "machine.more (set_reg r v m) = machine.more m" "singleStep (set_reg r v m) = singleStep m"
  by (auto simp: set_reg_def mmu_wf_def split: option.splits)

lemma Translate_unfold:
  assumes "mmu_wf m"
  shows "Machine_Translate m va sz w =
    (if misaligned va sz then Inr (Inl AddressErrorException, m)
     else rbind (lookup_entry m (va div 128)) (\<lambda>r.
       (case r of Inl ex \<Rightarrow> Inr (Inl ex, m)
        | Inr (i, entry) \<Rightarrow>
            if readOnly entry \<and> w then Inr (Inl ReadOnlyException, m)
            else if physicalPage entry \<ge> 128 then Inr (Inl BusErrorException, m)
            else let pa = physicalPage entry * 128 + va mod 128 in
              rbind (ASSERT (0 \<le> sint pa \<and> sint pa + sz \<le> 16384)) (\<lambda>_.
              Inr (Inr pa, update_entry i (touch w entry) m)))))"
proof (cases "tlb m")
  case None
  then obtain t where "pageTable m = Some t"
    using assms by (auto simp: mmu_wf_def split: option.splits)
  then show ?thesis
    using None by (cases "lookup_entry m (va div 128)")
      (auto simp: Machine_Translate_def PageSize_def NumPhysPages_def MemorySize_def Let_def split: sum.splits prod.splits)
next
  case (Some t)
  then have "pageTable m = None"
    using assms by (simp add: mmu_wf_def)
  then show ?thesis
    using Some by (cases "lookup_entry m (va div 128)")
      (auto simp: Machine_Translate_def PageSize_def NumPhysPages_def MemorySize_def Let_def split: sum.splits prod.splits)
qed

text \<open>What a translation gives: an exception with nothing changed, or the entry and the address.\<close>

definition translated :: "'a machine_scheme \<Rightarrow> 32 word \<Rightarrow> int \<Rightarrow> bool \<Rightarrow> nat \<Rightarrow> TranslationEntry \<Rightarrow> 32 word \<Rightarrow> bool" where
  "translated m va sz w i e pa \<longleftrightarrow> maps m (va div 128) i e \<and> valid e \<and> \<not> (readOnly e \<and> w)
     \<and> uint (physicalPage e) < 128 \<and> uint pa = uint (physicalPage e) * 128 + uint va mod 128
     \<and> uint va mod 128 + sz \<le> 128 \<and> sz dvd uint pa \<and> \<not> misaligned va sz"

lemma Translate_total:
  assumes wf: "mmu_wf m" and sz: "sz = 1 \<or> sz = 2 \<or> sz = 4"
  shows "(\<exists>ex. Machine_Translate m va sz w = Inr (Inl ex, m) \<and> ex \<noteq> NoException)
    \<or> (\<exists>i e pa. translated m va sz w i e pa
         \<and> Machine_Translate m va sz w = Inr (Inr pa, update_entry i (touch w e) m))"
proof (cases "misaligned va sz")
  case True
  then show ?thesis by (simp add: Translate_unfold [OF wf])
next
  case al: False
  note unfold = Translate_unfold [OF wf] al Let_def
  from lookup_entry_total [OF wf, of "va div 128"] show ?thesis
  proof
    assume "\<exists>ex. lookup_entry m (va div 128) = Inr (Inl ex) \<and> ex \<noteq> NoException"
    then show ?thesis by (auto simp: unfold)
  next
    assume "\<exists>i e. maps m (va div 128) i e \<and> valid e"
    then obtain i e where m: "maps m (va div 128) i e" "valid e" by blast
    show ?thesis
    proof (cases "(readOnly e \<and> w) \<or> physicalPage e \<ge> 128")
      case True
      then show ?thesis using m by (auto simp: unfold maps_def)
    next
      case False
      let ?pa = "physicalPage e * 128 + va mod 128"
      have pf: "physicalPage e < 128" "uint (physicalPage e) < 128"
        using False by (auto simp: word_less_def word_le_def not_le)
      note pa = frame_address [OF pf(1), of va] and off = aligned_end [OF sz al]
      have "sz dvd uint va mod 128"
        using off(2) sz by (auto simp: dvd_mod)
      then have d: "sz dvd uint ?pa"
        unfolding pa using sz by auto
      have "0 \<le> uint (physicalPage e)" "0 \<le> uint va mod 128" by simp_all
      then have b: "0 \<le> uint ?pa" "uint ?pa + sz \<le> 16384" "uint ?pa < 2 ^ 31"
        unfolding pa using pf off sz by auto
      then have s: "sint ?pa = uint ?pa"
        by (intro sint_eq_uint32)
      have "Machine_Translate m va sz w = Inr (Inr ?pa, update_entry i (touch w e) m)"
        using m False s b by (simp add: unfold maps_def)
      moreover have "translated m va sz w i e ?pa"
        using m False pf pa off d al by (simp add: translated_def)
      ultimately show ?thesis by blast
    qed
  qed
qed

text \<open>Setting the use and dirty bits changes no translation.\<close>

lemma touch_simps [simp]: "valid (touch w e) = valid e" "virtualPage (touch w e) = virtualPage e"
  "physicalPage (touch w e) = physicalPage e" "readOnly (touch w e) = readOnly e"
  by (simp_all add: touch_def)

lemma tlb_search_touch:
  assumes "i < length t"
  shows "tlb_search (t[i := touch w (t ! i)]) vpn j n = tlb_search t vpn j n"
proof (induction n arbitrary: j)
  case 0
  then show ?case by simp
next
  case (Suc n)
  have "arr_get (t[i := touch w (t ! i)]) (int j) = (if j = i then Inr (touch w (t ! i)) else arr_get t (int j))"
    using assms by (auto simp: arr_get_def)
  then show ?case
    using Suc assms by (cases "arr_get t (int j)") auto
qed

lemma maps_index:
  assumes "mmu_wf m" and "maps m vpn i e"
  shows "case tlb m of None \<Rightarrow> i = unat vpn \<and> i < length (the (pageTable m)) \<and> e = the (pageTable m) ! i \<and> vpn < pageTableSize m
    | Some t \<Rightarrow> i < length t \<and> e = t ! i"
  using assms
  by (auto simp: mmu_wf_def maps_def lookup_entry_def arr_get_def rbind_eq_Inr_iff
      unat_less_iff_uint split: option.splits if_splits)

lemma lookup_entry_touch:
  assumes wf: "mmu_wf m" and m: "maps m vpn i e"
  shows "lookup_entry (update_entry i (touch w e) m) v =
    (case lookup_entry m v of Inr (Inr (j, e')) \<Rightarrow> Inr (Inr (j, if j = i then touch w e' else e')) | r \<Rightarrow> r)"
proof (cases "tlb m")
  case None
  then obtain t where t: "pageTable m = Some t" "uint (pageTableSize m) \<le> int (length t)"
    using wf by (auto simp: mmu_wf_def split: option.splits)
  have i: "i < length t" "e = t ! i"
    using maps_index [OF wf m] None t(1) by simp_all
  show ?thesis
  proof (cases "pageTableSize m \<le> v")
    case True
    then show ?thesis using None by (simp add: lookup_entry_def update_entry_def)
  next
    case False
    then have "uint v < int (length t)"
      using t(2) by (simp add: word_less_def not_le)
    then show ?thesis
      using None t(1) False i by (auto simp: lookup_entry_def update_entry_def arr_get_def nth_list_update)
  qed
next
  case (Some t)
  have i: "i < length t" "e = t ! i" and l: "length t = TLBSize"
    using maps_index [OF wf m] Some wf by (simp_all add: mmu_wf_def)
  from tlb_search_total [of 0 TLBSize t v] l obtain r where
    r: "tlb_search t v 0 TLBSize = Inr r" "\<forall>j. r = Some j \<longrightarrow> j < length t"
    by auto
  then show ?thesis
    using Some i tlb_search_touch [OF i(1), of w v 0 TLBSize]
    by (cases r) (auto simp: lookup_entry_def update_entry_def nth_list_update)
qed

lemma translated_touch:
  assumes "mmu_wf m" and "translated m va sz w i e pa" and "w' \<Longrightarrow> \<not> readOnly e"
  shows "translated (update_entry i (touch w e) m) va sz w' i (touch w e) pa"
  using assms lookup_entry_touch [OF assms(1), of "va div 128" i e w "va div 128"]
  by (auto simp: translated_def maps_def)

lemma translated_fun: "translated m va sz w i e pa \<Longrightarrow> translated m va sz w' j f pb \<Longrightarrow> j = i \<and> f = e \<and> pb = pa"
  by (auto simp: translated_def maps_def word_uint_eq_iff)

text \<open>If a translation exists, \<open>Translate\<close> finds it.\<close>

lemma Translate_translated:
  assumes wf: "mmu_wf m" and sz: "sz = 1 \<or> sz = 2 \<or> sz = 4" and t: "translated m va sz w i e pa"
  shows "Machine_Translate m va sz w = Inr (Inr pa, update_entry i (touch w e) m)"
proof -
  have "\<not> (\<exists>ex. Machine_Translate m va sz w = Inr (Inl ex, m))"
  proof
    assume "\<exists>ex. Machine_Translate m va sz w = Inr (Inl ex, m)"
    then obtain ex where "Machine_Translate m va sz w = Inr (Inl ex, m)" by blast
    moreover have "\<not> 128 \<le> physicalPage e"
      using t by (simp add: translated_def word_le_def)
    ultimately show False
      using t by (auto simp: Translate_unfold [OF wf] translated_def maps_def Let_def
          rbind_ASSERT split: if_splits)
  qed
  then show ?thesis
    using Translate_total [OF wf sz, of va w] translated_fun [OF t] by fastforce
qed

section \<open>Reading and writing\<close>

text \<open>What \<^verbatim>\<open>ReadMem\<close> gives back of a value written with the same size.\<close>

definition extend_value :: "int \<Rightarrow> 32 word \<Rightarrow> 32 word" where
  "extend_value sz v = (if sz = 1 then scast (ucast v :: 8 word) else if sz = 2 then ucast (ucast v :: 16 word) else v)"

definition store_value :: "int \<Rightarrow> (nat \<Rightarrow> 8 word) \<Rightarrow> nat \<Rightarrow> 32 word \<Rightarrow> nat \<Rightarrow> 8 word" where
  "store_value sz mem p v = (if sz = 1 then mem(p := ucast (v AND 0xff))
     else if sz = 2 then store16 mem p (ShortToMachine (ucast (v AND 0xffff))) else store32 mem p (WordToMachine v))"

definition load_value :: "int \<Rightarrow> (nat \<Rightarrow> 8 word) \<Rightarrow> nat \<Rightarrow> 32 word" where
  "load_value sz mem p = (if sz = 1 then scast (mem p) else if sz = 2 then ucast (ShortToHost (load16 mem p))
     else WordToHost (load32 mem p))"

lemma ucast_mask_simps [simp]: "(ucast (v AND 0xff :: 32 word) :: 8 word) = ucast v"
  "(ucast (v AND 0xffff :: 32 word) :: 16 word) = ucast v"
proof -
  have m: "(0xff :: 32 word) = mask 8" "(0xffff :: 32 word) = mask 16"
    by (simp_all add: mask_eq_exp_minus_1)
  show "(ucast (v AND 0xff :: 32 word) :: 8 word) = ucast v"
    unfolding m by (rule bit_word_eqI) (simp add: bit_simps)
  show "(ucast (v AND 0xffff :: 32 word) :: 16 word) = ucast v"
    unfolding m by (rule bit_word_eqI) (simp add: bit_simps)
qed

lemma load_store_value [simp]: "load_value sz (store_value sz mem p v) p = extend_value sz v"
  by (simp add: load_value_def store_value_def extend_value_def ShortToHost_def ShortToMachine_def
      WordToHost_def WordToMachine_def)

lemma store_value_other:
  "sz = 1 \<or> sz = 2 \<or> sz = 4 \<Longrightarrow> int q < int p \<or> int p + sz \<le> int q \<Longrightarrow> store_value sz mem p v q = mem q"
  by (auto simp: store_value_def store16_other store32_other)

lemma WriteMem_translated:
  assumes "mmu_wf m" and "sz = 1 \<or> sz = 2 \<or> sz = 4" and "translated m va sz True i e pa"
  shows "Machine_WriteMem eh m va sz v =
    Inr (True, (update_entry i (touch True e) m)\<lparr>mainMemory := store_value sz (mainMemory m) (unat pa) v\<rparr>)"
  using Translate_translated [OF assms] assms(2) by (auto simp: Machine_WriteMem_def store_value_def Let_def)

lemma ReadMem_translated:
  assumes "mmu_wf m" and "sz = 1 \<or> sz = 2 \<or> sz = 4" and "translated m va sz False i e pa"
  shows "Machine_ReadMem eh m va sz =
    Inr (Some (load_value sz (mainMemory m) (unat pa)), update_entry i (touch False e) m)"
  using Translate_translated [OF assms] assms(2) by (auto simp: Machine_ReadMem_def load_value_def Let_def)

lemma WriteMem_cases:
  assumes "mmu_wf m" and "sz = 1 \<or> sz = 2 \<or> sz = 4"
  obtains (trap) ex where "ex \<noteq> NoException"
      "Machine_WriteMem eh m va sz v = rbind (Machine_RaiseException eh ex va m) (\<lambda>m2. Inr (False, m2))"
  | (ok) i e pa where "translated m va sz True i e pa"
      "Machine_WriteMem eh m va sz v =
        Inr (True, (update_entry i (touch True e) m)\<lparr>mainMemory := store_value sz (mainMemory m) (unat pa) v\<rparr>)"
  using Translate_total [OF assms, of va True] WriteMem_translated [OF assms, of va]
  by (fastforce simp: Machine_WriteMem_def)

lemma ReadMem_cases:
  assumes "mmu_wf m" and "sz = 1 \<or> sz = 2 \<or> sz = 4"
  obtains (trap) ex where "ex \<noteq> NoException"
      "Machine_ReadMem eh m va sz = rbind (Machine_RaiseException eh ex va m) (\<lambda>m2. Inr (None, m2))"
  | (ok) i e pa where "translated m va sz False i e pa"
      "Machine_ReadMem eh m va sz = Inr (Some (load_value sz (mainMemory m) (unat pa)), update_entry i (touch False e) m)"
  using Translate_total [OF assms, of va False] ReadMem_translated [OF assms, of va]
  by (fastforce simp: Machine_ReadMem_def)

lemma maps_mainMemory [simp]: "maps (m\<lparr>mainMemory := x\<rparr>) = maps m" "mmu_wf (m\<lparr>mainMemory := x\<rparr>) = mmu_wf m"
  by (auto simp: fun_eq_iff maps_def lookup_entry_def mmu_wf_def cong: option.case_cong)

lemma translated_mainMemory [simp]: "translated (m\<lparr>mainMemory := x\<rparr>) = translated m"
  by (simp add: fun_eq_iff translated_def)

text \<open>Two pages, the second read-only, in frames 5 and 3.\<close>

definition sample_machine :: machine where
  "sample_machine = (Machine_new False 2 0 UserMode)\<lparr>pageTable := Some
     [\<lparr>virtualPage = 0, physicalPage = 5, valid = True, readOnly = False, use = False, dirty = False\<rparr>,
      \<lparr>virtualPage = 1, physicalPage = 3, valid = True, readOnly = True, use = False, dirty = False\<rparr>]\<rparr>"

definition no_handler :: "'a handler" where
  "no_handler which m = Inl AssertFail"

lemma sample_machine_wf: "mmu_wf sample_machine"
  by (simp add: mmu_wf_def sample_machine_def Machine_new_def)

lemma sample_translated: "translated sample_machine 8 sz True 0 (the (pageTable sample_machine) ! 0) 648"
  if "sz = 1 \<or> sz = 4"
  using that
  by (auto simp: translated_def maps_def lookup_entry_def arr_get_def misaligned_def sample_machine_def Machine_new_def)

lemma sample_readonly: "Machine_Translate sample_machine 136 4 True = Inr (Inl ReadOnlyException, sample_machine)"
proof -
  have "lookup_entry sample_machine 1 = Inr (Inr (1, the (pageTable sample_machine) ! 1))"
    "readOnly (the (pageTable sample_machine) ! 1)"
    by (simp_all add: lookup_entry_def arr_get_def sample_machine_def Machine_new_def word_le_nat_alt)
  then show ?thesis
    by (simp add: Translate_unfold [OF sample_machine_wf] misaligned_def)
qed

lemma WriteMem_True:
  assumes "mmu_wf m" and "sz = 1 \<or> sz = 2 \<or> sz = 4" and "Machine_WriteMem eh m va sz v = Inr (True, m')"
  shows "\<exists>i e pa. translated m va sz True i e pa
    \<and> m' = (update_entry i (touch True e) m)\<lparr>mainMemory := store_value sz (mainMemory m) (unat pa) v\<rparr>"
  using assms(1,2)
proof (cases rule: WriteMem_cases [where eh = eh and va = va and v = v])
  case (trap ex)
  then show ?thesis using assms(3) by (cases "Machine_RaiseException eh ex va m") auto
next
  case (ok i e pa)
  then show ?thesis using assms(3) by auto
qed

section \<open>Properties\<close>

text \<open>C32: translating an address of 1, 2 or 4 bytes never fails an assertion and never reads outside
  the table: it reports an exception and changes nothing, or it returns the address inside the
  page frame of a valid entry (writable, for a write), with the same offset, aligned, and with
  all bytes inside main memory.\<close>

theorem Translate_safe:
  assumes "mmu_wf m" and "sz = 1 \<or> sz = 2 \<or> sz = 4"
  shows "\<exists>r m'. Machine_Translate m va sz w = Inr (r, m') \<and> registers m' = registers m \<and> mainMemory m' = mainMemory m
    \<and> (case r of Inl ex \<Rightarrow> ex \<noteq> NoException \<and> m' = m
       | Inr pa \<Rightarrow> \<exists>i e. maps m (va div 128) i e \<and> valid e \<and> \<not> (readOnly e \<and> w)
           \<and> uint pa = uint (physicalPage e) * PageSize + uint va mod PageSize
           \<and> uint pa + sz \<le> MemorySize \<and> sz dvd uint pa)"
proof -
  from Translate_total [OF assms, of va w] show ?thesis
  proof (elim disjE exE conjE)
    fix ex
    assume "Machine_Translate m va sz w = Inr (Inl ex, m)" "ex \<noteq> NoException"
    then show ?thesis by simp
  next
    fix i e pa
    assume t: "translated m va sz w i e pa"
      and r: "Machine_Translate m va sz w = Inr (Inr pa, update_entry i (touch w e) m)"
    have "uint pa + sz \<le> MemorySize" "uint pa = uint (physicalPage e) * PageSize + uint va mod PageSize"
      using t by (simp_all add: translated_def MemorySize_def NumPhysPages_def PageSize_def)
    then have "\<exists>i e. maps m (va div 128) i e \<and> valid e \<and> \<not> (readOnly e \<and> w)
        \<and> uint pa = uint (physicalPage e) * PageSize + uint va mod PageSize
        \<and> uint pa + sz \<le> MemorySize \<and> sz dvd uint pa"
      using t unfolding translated_def by blast
    with r show ?thesis
      by simp
  qed
qed

theorem Translate_safe_witness:
  "\<exists>m'. Machine_Translate sample_machine 8 4 True = Inr (Inr 648, m')
   \<and> Machine_Translate sample_machine 136 4 True = Inr (Inl ReadOnlyException, sample_machine)"
proof -
  have "\<exists>m'. Machine_Translate sample_machine 8 4 True = Inr (Inr 648, m')"
    using Translate_safe [OF sample_machine_wf, of 4 8 True]
      Translate_translated [OF sample_machine_wf _ sample_translated] by auto
  then show ?thesis
    using sample_readonly by blast
qed

text \<open>C33: what was written can be read back: a read of the same size at the address just written
  returns the value, sign-extended from one byte, zero-extended from two.\<close>

theorem WriteMem_ReadMem:
  assumes "mmu_wf m" and "sz = 1 \<or> sz = 2 \<or> sz = 4" and "Machine_WriteMem eh m va sz v = Inr (True, m')"
  shows "\<exists>m''. Machine_ReadMem eh m' va sz = Inr (Some (extend_value sz v), m'') \<and> mainMemory m'' = mainMemory m'"
proof -
  obtain i e pa where ok: "translated m va sz True i e pa"
    "m' = (update_entry i (touch True e) m)\<lparr>mainMemory := store_value sz (mainMemory m) (unat pa) v\<rparr>"
    using WriteMem_True [OF assms] by blast
  have t: "translated m' va sz False i (touch True e) pa"
    using ok assms(3) translated_touch [OF assms(1) ok(1), of False] by auto
  have m': "mainMemory m' = store_value sz (mainMemory m) (unat pa) v" "mmu_wf m'"
    using ok assms(1,3) by auto
  show ?thesis
    using ReadMem_translated [OF m'(2) assms(2) t] m'(1) by simp
qed

lemma sample_write: "\<exists>m'. Machine_WriteMem no_handler sample_machine 8 1 0x1FF = Inr (True, m')"
  using WriteMem_translated [OF sample_machine_wf _ sample_translated, of 1] by auto

theorem WriteMem_ReadMem_witness:
  "\<exists>m' m''. Machine_WriteMem no_handler sample_machine 8 1 0x1FF = Inr (True, m')
     \<and> Machine_ReadMem no_handler m' 8 1 = Inr (Some (- 1), m'')"
proof -
  obtain m' where m': "Machine_WriteMem no_handler sample_machine 8 1 0x1FF = Inr (True, m')"
    using sample_write by blast
  moreover have "extend_value 1 0x1FF = - 1"
    by (simp add: extend_value_def)
  ultimately show ?thesis
    using WriteMem_ReadMem [OF sample_machine_wf _ m'] by auto
qed

text \<open>a user program cannot reach beyond its pages: a successful write changes memory only inside
  the frame of a valid, writable page of the current table, and no register.\<close>

theorem WriteMem_isolated:
  assumes "mmu_wf m" and "sz = 1 \<or> sz = 2 \<or> sz = 4" and "Machine_WriteMem eh m va sz v = Inr (True, m')"
  shows "\<exists>i e. maps m (va div 128) i e \<and> valid e \<and> \<not> readOnly e \<and> registers m' = registers m
    \<and> (\<forall>q. mainMemory m' q \<noteq> mainMemory m q \<longrightarrow> int q div PageSize = uint (physicalPage e) \<and> int q < MemorySize)"
proof -
  obtain i e pa where ok: "translated m va sz True i e pa"
    "m' = (update_entry i (touch True e) m)\<lparr>mainMemory := store_value sz (mainMemory m) (unat pa) v\<rparr>"
    using WriteMem_True [OF assms] by blast
  have m': "mainMemory m' = store_value sz (mainMemory m) (unat pa) v" "registers m' = registers m"
    using ok assms(3) by auto
  have "int q div 128 = uint (physicalPage e) \<and> int q < 16384" if "mainMemory m' q \<noteq> mainMemory m q" for q
  proof -
    have "uint pa \<le> int q" "int q < uint pa + sz"
      using that m'(1) store_value_other [OF assms(2), of q "unat pa" "mainMemory m" v] by (force, force)
    moreover have "0 \<le> uint va mod 128" by simp
    ultimately have "int q = uint (physicalPage e) * 128 + (int q - uint (physicalPage e) * 128)"
      "0 \<le> int q - uint (physicalPage e) * 128" "int q - uint (physicalPage e) * 128 < 128"
      using ok(1) by (auto simp: translated_def)
    then show ?thesis
      using ok(1) unfolding translated_def by linarith
  qed
  then show ?thesis
    using ok(1) m'(2) by (auto simp: translated_def PageSize_def MemorySize_def NumPhysPages_def)
qed

theorem WriteMem_isolated_witness:
  "\<exists>m'. Machine_WriteMem no_handler sample_machine 8 1 0x1FF = Inr (True, m')
     \<and> (\<forall>q. mainMemory m' q \<noteq> mainMemory sample_machine q \<longrightarrow> int q div PageSize = 5)"
proof -
  obtain m' where m': "Machine_WriteMem no_handler sample_machine 8 1 0x1FF = Inr (True, m')"
    using sample_write by blast
  moreover have "maps sample_machine (8 div 128) i e \<Longrightarrow> uint (physicalPage e) = 5" for i e
    by (auto simp: maps_def lookup_entry_def arr_get_def sample_machine_def Machine_new_def)
  ultimately show ?thesis
    using WriteMem_isolated [OF sample_machine_wf _ m'] by auto
qed

end
