(* ===== verification/Threads.thy ===== *)
theory Threads
  imports Machine NachosList
begin

text \<open>
  \<^verbatim>\<open>machine/interrupt.cc\<close>, \<^verbatim>\<open>machine/timer.cc\<close>, \<^verbatim>\<open>threads/alarm.cc\<close>, \<^verbatim>\<open>threads/scheduler.cc\<close>,
  \<^verbatim>\<open>threads/thread.cc\<close> and \<^verbatim>\<open>threads/synch.cc\<close>: interrupts, context switches and synchronisation.

  Kernel code runs without preemption except inside \<^verbatim>\<open>OneTick\<close>, so a kernel routine is a function on the
  kernel state up to the point where it calls \<^verbatim>\<open>SWITCH\<close>. What a thread still has to do is kept on its stack:
  a list of frames, one per point of a routine at which control can come back (\<open>frame\<close>). \<^verbatim>\<open>SWITCH\<close> makes
  another thread current, and \<open>kstep\<close> runs the top frame of the current thread. \<open>FOps\<close> is the body of the
  function given to \<^verbatim>\<open>Fork\<close>: a sequence of calls of the thread interface (\<open>op\<close>).

  Lists of the kernel are the abstract lists of the theory of lists, which assert as \<^verbatim>\<open>List\<close> does. Threads,
  semaphores, locks and conditions are named by numbers that stand for their addresses.

  Ticks are counted without a bound where the code has \<^verbatim>\<open>int\<close>s; what is proved of the interrupt loop asks that
  they are in range and shows that they stay so. Stacks have no size: no routine changes the fence of a
  stack, so the assertion of \<^verbatim>\<open>CheckOverflow\<close> can fail only for a thread that starts with a wrong fence.
\<close>

datatype IntStatus = IntOff | IntOn
datatype IntType = TimerInt | DiskInt | ConsoleWriteInt | ConsoleReadInt | NetworkSendInt | NetworkRecvInt
datatype ThreadStatus = JUST_CREATED | RUNNING | READY | BLOCKED

text \<open>
  Semaphores: those of the kernel's clients, the one inside each lock, and the one that each call of
  \<^verbatim>\<open>Condition::Wait\<close> creates. \<open>DSem n\<close> is a device whose handler calls \<^verbatim>\<open>V\<close> on semaphore \<open>n\<close> (disk, console).
\<close>

datatype sid = Sem nat | LockSem nat | Waiter nat

datatype device = DTimer | DSem nat

record PendingInterrupt =
  pi_id :: nat
  callOnInterrupt :: device
  pi_when :: int
  int_type :: IntType

datatype op =
    OpP sid | OpV sid | OpYield | OpFork "op list"
  | OpAcquire nat | OpRelease nat | OpWait nat nat | OpSignal nat nat | OpBroadcast nat nat
  | OpDevice nat int IntType
  | OpHalt | OpSpace nat | OpUser "nat \<Rightarrow> 32 word"

text \<open>
  \<^item> \<open>FBegin\<close>, \<open>FOps\<close>, \<open>FFinish\<close>: the parts of \<^verbatim>\<open>ThreadRoot\<close>;
  \<^item> \<open>FSetLevel l\<close>: the final \<^verbatim>\<open>SetLevel(oldLevel)\<close> of a routine;
  \<^item> \<open>FSleep finishing\<close>: the loop of \<^verbatim>\<open>Sleep\<close>; \<open>FRunBack\<close>: \<^verbatim>\<open>Run\<close> after \<^verbatim>\<open>SWITCH\<close>;
  \<^item> \<open>FP s l\<close>: the loop of \<^verbatim>\<open>P\<close>; \<open>FAcquired n\<close>: \<^verbatim>\<open>Acquire\<close> after \<^verbatim>\<open>P\<close>;
  \<^item> \<open>FStatus st\<close>: the end of \<^verbatim>\<open>OneTick\<close> after \<^verbatim>\<open>Yield\<close>.
\<close>

datatype frame = FBegin | FOps "op list" | FFinish | FSetLevel IntStatus | FSleep bool | FRunBack
  | FP sid IntStatus | FAcquired nat | FStatus MachineStatus

record thread =
  t_status :: ThreadStatus
  fence :: "32 word option"
  frames :: "frame list"
  userRegisters :: "nat \<Rightarrow> 32 word"
  space :: "nat option"

record Semaphore =
  sem_value :: int
  sem_queue :: "nat list"

record kernel = machine +
  level :: IntStatus
  pending :: "PendingInterrupt list"
  inHandler :: bool
  yieldOnReturn :: bool
  totalTicks :: int
  idleTicks :: int
  systemTicks :: int
  userTicks :: int
  halted :: bool
  timer_randomize :: bool
  timer_disable :: bool
  randoms :: "nat \<Rightarrow> int"
  currentThread :: nat
  readyList :: "nat list"
  toBeDestroyed :: "nat option"
  threads :: "nat \<Rightarrow> thread option"
  sems :: "sid \<Rightarrow> Semaphore"
  lockHolder :: "nat \<Rightarrow> nat option"
  waitQueue :: "nat \<Rightarrow> nat list"
  installed :: "nat option"
  heap_junk :: "nat \<Rightarrow> 32 word"
  next_id :: nat

definition UserTick :: int where "UserTick = 1"
definition SystemTick :: int where "SystemTick = 10"
definition TimerTicks :: int where "TimerTicks = 100"
definition STACK_FENCEPOST :: "32 word" where "STACK_FENCEPOST = 0xdedbeef"

definition get_thread :: "kernel \<Rightarrow> nat \<Rightarrow> thread result" where
  "get_thread K t = (case threads K t of None \<Rightarrow> Inl NullDeref | Some th \<Rightarrow> Inr th)"

definition put_thread :: "nat \<Rightarrow> thread \<Rightarrow> kernel \<Rightarrow> kernel" where
  "put_thread t th K = K\<lparr>threads := (threads K)(t \<mapsto> th)\<rparr>"

definition upd_thread :: "nat \<Rightarrow> (thread \<Rightarrow> thread) \<Rightarrow> kernel \<Rightarrow> kernel result" where
  "upd_thread t f K = rbind (get_thread K t) (\<lambda>th. Inr (put_thread t (f th) K))"

definition push_frames :: "frame list \<Rightarrow> kernel \<Rightarrow> kernel result" where
  "push_frames fs K = upd_thread (currentThread K) (\<lambda>th. th\<lparr>frames := fs @ frames th\<rparr>) K"

definition set_sem :: "sid \<Rightarrow> Semaphore \<Rightarrow> kernel \<Rightarrow> kernel" where
  "set_sem s v K = K\<lparr>sems := (sems K)(s := v)\<rparr>"

section \<open>Scheduler\<close>

definition Scheduler_ReadyToRun :: "nat \<Rightarrow> kernel \<Rightarrow> kernel result" where
  "Scheduler_ReadyToRun t K =
     rbind (ASSERT (level K = IntOff)) (\<lambda>_.
     rbind (upd_thread t (\<lambda>th. th\<lparr>t_status := READY\<rparr>) K) (\<lambda>K1.
     rbind (absl_Append (readyList K1) t) (\<lambda>l. Inr (K1\<lparr>readyList := l\<rparr>))))"

definition Scheduler_FindNextToRun :: "kernel \<Rightarrow> (nat option \<times> kernel) result" where
  "Scheduler_FindNextToRun K =
     rbind (ASSERT (level K = IntOff)) (\<lambda>_.
     if readyList K = [] then Inr (None, K)
     else rbind (absl_RemoveFront (readyList K)) (\<lambda>(t, l). Inr (Some t, K\<lparr>readyList := l\<rparr>)))"

definition Thread_SaveUserState :: "kernel \<Rightarrow> thread \<Rightarrow> thread" where
  "Thread_SaveUserState K th =
     th\<lparr>userRegisters := (\<lambda>i. if i < NumTotalRegs then registers K i else userRegisters th i)\<rparr>"

definition Thread_RestoreUserState :: "thread \<Rightarrow> kernel \<Rightarrow> kernel" where
  "Thread_RestoreUserState th K =
     K\<lparr>registers := (\<lambda>i. if i < NumTotalRegs then userRegisters th i else registers K i)\<rparr>"

definition Thread_CheckOverflow :: "thread \<Rightarrow> unit result" where
  "Thread_CheckOverflow th =
     (case fence th of None \<Rightarrow> Inr () | Some w \<Rightarrow> ASSERT (w = STACK_FENCEPOST))"

text \<open>\<^verbatim>\<open>Run\<close> up to \<^verbatim>\<open>SWITCH\<close>; the rest is \<open>Scheduler_Run_back\<close>. \<^verbatim>\<open>AddrSpace::SaveState\<close> does nothing.\<close>

definition Scheduler_Run :: "nat \<Rightarrow> bool \<Rightarrow> kernel \<Rightarrow> kernel result" where
  "Scheduler_Run nextThread finishing K =
     (let oldThread = currentThread K in
      rbind (ASSERT (level K = IntOff)) (\<lambda>_.
      rbind (if finishing then rbind (ASSERT (toBeDestroyed K = None)) (\<lambda>_. Inr (K\<lparr>toBeDestroyed := Some oldThread\<rparr>))
             else Inr K) (\<lambda>K1.
      rbind (get_thread K1 oldThread) (\<lambda>th.
      let K2 = (if space th \<noteq> None then put_thread oldThread (Thread_SaveUserState K1 th) K1 else K1) in
      rbind (Thread_CheckOverflow th) (\<lambda>_.
      upd_thread nextThread (\<lambda>th. th\<lparr>t_status := RUNNING\<rparr>) (K2\<lparr>currentThread := nextThread\<rparr>))))))"

definition Thread_delete :: "nat \<Rightarrow> kernel \<Rightarrow> kernel result" where
  "Thread_delete t K =
     rbind (ASSERT (t \<noteq> currentThread K)) (\<lambda>_. Inr (K\<lparr>threads := (threads K)(t := None)\<rparr>))"

definition Scheduler_CheckToBeDestroyed :: "kernel \<Rightarrow> kernel result" where
  "Scheduler_CheckToBeDestroyed K =
     (case toBeDestroyed K of None \<Rightarrow> Inr K
      | Some t \<Rightarrow> rbind (Thread_delete t K) (\<lambda>K1. Inr (K1\<lparr>toBeDestroyed := None\<rparr>)))"

definition Scheduler_Run_back :: "kernel \<Rightarrow> kernel result" where
  "Scheduler_Run_back K =
     rbind (ASSERT (level K = IntOff)) (\<lambda>_.
     rbind (Scheduler_CheckToBeDestroyed K) (\<lambda>K1.
     rbind (get_thread K1 (currentThread K1)) (\<lambda>th.
     Inr (if space th \<noteq> None then (Thread_RestoreUserState th K1)\<lparr>installed := space th\<rparr> else K1))))"

section \<open>Interrupts\<close>

definition PendingCompare :: "PendingInterrupt \<Rightarrow> PendingInterrupt \<Rightarrow> int" where
  "PendingCompare x y = (if pi_when x < pi_when y then - 1 else if pi_when x > pi_when y then 1 else 0)"

definition Interrupt_ChangeLevel :: "IntStatus \<Rightarrow> kernel \<Rightarrow> kernel" where
  "Interrupt_ChangeLevel now K = K\<lparr>level := now\<rparr>"

definition Interrupt_Schedule :: "device \<Rightarrow> int \<Rightarrow> IntType \<Rightarrow> kernel \<Rightarrow> kernel result" where
  "Interrupt_Schedule toCall fromNow ty K =
     (let toOccur = \<lparr>pi_id = next_id K, callOnInterrupt = toCall, pi_when = totalTicks K + fromNow, int_type = ty\<rparr> in
      rbind (ASSERT (fromNow > 0)) (\<lambda>_.
      rbind (absl_Insert PendingCompare (pending K) toOccur) (\<lambda>l.
      Inr (K\<lparr>pending := l, next_id := Suc (next_id K)\<rparr>))))"

definition Interrupt_YieldOnReturn :: "kernel \<Rightarrow> kernel result" where
  "Interrupt_YieldOnReturn K = rbind (ASSERT (inHandler K)) (\<lambda>_. Inr (K\<lparr>yieldOnReturn := True\<rparr>))"

text \<open>The part of \<^verbatim>\<open>V\<close> between the two calls of \<^verbatim>\<open>SetLevel\<close>.\<close>

definition V_body :: "sid \<Rightarrow> kernel \<Rightarrow> kernel result" where
  "V_body s K =
     rbind (if sem_queue (sems K s) \<noteq> []
            then rbind (absl_RemoveFront (sem_queue (sems K s))) (\<lambda>(t, q).
                 Scheduler_ReadyToRun t (set_sem s ((sems K s)\<lparr>sem_queue := q\<rparr>) K))
            else Inr K) (\<lambda>K1.
     Inr (set_sem s ((sems K1 s)\<lparr>sem_value := sem_value (sems K1 s) + 1\<rparr>) K1))"

definition Alarm_CallBack :: "kernel \<Rightarrow> kernel result" where
  "Alarm_CallBack K = (if status K \<noteq> IdleMode then Interrupt_YieldOnReturn K else Inr K)"

definition Timer_SetInterrupt :: "kernel \<Rightarrow> kernel result" where
  "Timer_SetInterrupt K =
     (if \<not> timer_disable K
      then let delay = (if timer_randomize K then 1 + (randoms K (next_id K) smod (TimerTicks * 2)) else TimerTicks) in
           Interrupt_Schedule DTimer delay TimerInt K
      else Inr K)"

definition Timer_CallBack :: "kernel \<Rightarrow> kernel result" where
  "Timer_CallBack K = rbind (Alarm_CallBack K) Timer_SetInterrupt"

text \<open>Handlers run with interrupts off, so the calls of \<^verbatim>\<open>SetLevel\<close> in \<^verbatim>\<open>V\<close> do nothing there.\<close>

definition CallBack :: "device \<Rightarrow> kernel \<Rightarrow> kernel result" where
  "CallBack dev K = (case dev of DTimer \<Rightarrow> Timer_CallBack K | DSem n \<Rightarrow> V_body (Sem n) K)"

fun fire_due :: "nat \<Rightarrow> kernel \<Rightarrow> kernel result" where
  "fire_due 0 K = Inl Diverges"
| "fire_due (Suc n) K =
     rbind (absl_RemoveFront (pending K)) (\<lambda>(next, l).
     rbind (CallBack (callOnInterrupt next) (K\<lparr>pending := l\<rparr>)) (\<lambda>K1.
     if pending K1 \<noteq> [] \<and> pi_when (hd (pending K1)) \<le> totalTicks K1 then fire_due n K1 else Inr K1))"

definition Interrupt_CheckIfDue :: "bool \<Rightarrow> kernel \<Rightarrow> (bool \<times> kernel) result" where
  "Interrupt_CheckIfDue advanceClock K =
     rbind (ASSERT (level K = IntOff)) (\<lambda>_.
     case pending K of [] \<Rightarrow> Inr (False, K)
     | next # _ \<Rightarrow>
       if pi_when next > totalTicks K \<and> \<not> advanceClock then Inr (False, K)
       else let K1 = (if pi_when next > totalTicks K
                      then K\<lparr>idleTicks := idleTicks K + (pi_when next - totalTicks K), totalTicks := pi_when next\<rparr> else K) in
       rbind (Machine_DelayedLoad 0 0 K1) (\<lambda>K2.
       rbind (fire_due (length (pending K2)) (K2\<lparr>inHandler := True\<rparr>)) (\<lambda>K3.
       Inr (True, K3\<lparr>inHandler := False\<rparr>))))"

text \<open>\<^verbatim>\<open>Halt\<close> deletes the kernel and does not return.\<close>

definition Interrupt_Halt :: "kernel \<Rightarrow> kernel" where
  "Interrupt_Halt K = K\<lparr>halted := True\<rparr>"

definition Interrupt_Idle :: "kernel \<Rightarrow> kernel result" where
  "Interrupt_Idle K =
     rbind (Interrupt_CheckIfDue True (K\<lparr>status := IdleMode\<rparr>)) (\<lambda>(due, K1).
     Inr (if due then K1\<lparr>status := SystemMode\<rparr> else Interrupt_Halt K1))"

section \<open>Threads\<close>

text \<open>\<^verbatim>\<open>SetLevel(IntOff)\<close> neither asserts nor ticks.\<close>

definition Thread_Yield :: "kernel \<Rightarrow> kernel result" where
  "Thread_Yield K =
     (let oldLevel = level K; K0 = Interrupt_ChangeLevel IntOff K in
      rbind (Scheduler_FindNextToRun K0) (\<lambda>(next, K1).
      case next of
        None \<Rightarrow> push_frames [FSetLevel oldLevel] K1
      | Some t \<Rightarrow>
          rbind (Scheduler_ReadyToRun (currentThread K1) K1) (\<lambda>K2.
          rbind (push_frames [FRunBack, FSetLevel oldLevel] K2) (\<lambda>K3.
          Scheduler_Run t False K3))))"

definition Interrupt_OneTick :: "kernel \<Rightarrow> kernel result" where
  "Interrupt_OneTick K =
     (let oldStatus = status K;
          K1 = (if status K = SystemMode
                then K\<lparr>totalTicks := totalTicks K + SystemTick, systemTicks := systemTicks K + SystemTick\<rparr>
                else K\<lparr>totalTicks := totalTicks K + UserTick, userTicks := userTicks K + UserTick\<rparr>) in
      rbind (Interrupt_CheckIfDue False (Interrupt_ChangeLevel IntOff K1)) (\<lambda>(_, K2).
      let K3 = Interrupt_ChangeLevel IntOn K2 in
      if yieldOnReturn K3
      then rbind (push_frames [FStatus oldStatus] (K3\<lparr>yieldOnReturn := False, status := SystemMode\<rparr>)) Thread_Yield
      else Inr K3))"

definition Interrupt_SetLevel :: "IntStatus \<Rightarrow> kernel \<Rightarrow> kernel result" where
  "Interrupt_SetLevel now K =
     rbind (ASSERT (now = IntOff \<or> \<not> inHandler K)) (\<lambda>_.
     let old = level K; K1 = Interrupt_ChangeLevel now K in
     if now = IntOn \<and> old = IntOff then Interrupt_OneTick K1 else Inr K1)"

definition Thread_Sleep :: "bool \<Rightarrow> kernel \<Rightarrow> kernel result" where
  "Thread_Sleep finishing K =
     rbind (ASSERT (level K = IntOff)) (\<lambda>_.
     rbind (upd_thread (currentThread K) (\<lambda>th. th\<lparr>t_status := BLOCKED\<rparr>) K) (\<lambda>K1.
     push_frames [FSleep finishing] K1))"

text \<open>One round of the loop of \<^verbatim>\<open>Sleep\<close>; the frame of the loop has been taken off the stack.\<close>

definition Thread_Sleep_loop :: "bool \<Rightarrow> kernel \<Rightarrow> kernel result" where
  "Thread_Sleep_loop finishing K =
     rbind (Scheduler_FindNextToRun K) (\<lambda>(next, K1).
     case next of
       None \<Rightarrow> rbind (push_frames [FSleep finishing] K1) Interrupt_Idle
     | Some t \<Rightarrow> rbind (push_frames [FRunBack] K1) (Scheduler_Run t finishing))"

definition Thread_Begin :: "kernel \<Rightarrow> kernel result" where
  "Thread_Begin K = rbind (Scheduler_CheckToBeDestroyed K) (Interrupt_SetLevel IntOn)"

definition Thread_Finish :: "kernel \<Rightarrow> kernel result" where
  "Thread_Finish K = Thread_Sleep True (Interrupt_ChangeLevel IntOff K)"

text \<open>A new thread with its stack: \<^verbatim>\<open>Thread\<close> and \<^verbatim>\<open>StackAllocate\<close>. \<^verbatim>\<open>userRegisters\<close> is not initialised.\<close>

definition Thread_new :: "op list \<Rightarrow> (nat \<Rightarrow> 32 word) \<Rightarrow> thread" where
  "Thread_new func junk = \<lparr>t_status = JUST_CREATED, fence = Some STACK_FENCEPOST, frames = [FBegin, FOps func, FFinish],
     userRegisters = junk, space = None\<rparr>"

definition Thread_Fork :: "op list \<Rightarrow> kernel \<Rightarrow> kernel result" where
  "Thread_Fork func K =
     (let t = next_id K; oldLevel = level K;
          K1 = put_thread t (Thread_new func (heap_junk K)) (K\<lparr>next_id := Suc t\<rparr>) in
      rbind (Scheduler_ReadyToRun t (Interrupt_ChangeLevel IntOff K1)) (push_frames [FSetLevel oldLevel]))"

section \<open>Synchronisation\<close>

definition Semaphore_P :: "sid \<Rightarrow> kernel \<Rightarrow> kernel result" where
  "Semaphore_P s K = push_frames [FP s (level K)] (Interrupt_ChangeLevel IntOff K)"

text \<open>The test and body of the loop of \<^verbatim>\<open>P\<close> and what follows it; the frame has been taken off the stack.\<close>

definition Semaphore_P_loop :: "sid \<Rightarrow> IntStatus \<Rightarrow> kernel \<Rightarrow> kernel result" where
  "Semaphore_P_loop s oldLevel K =
     (if sem_value (sems K s) = 0
      then rbind (absl_Append (sem_queue (sems K s)) (currentThread K)) (\<lambda>q.
           rbind (push_frames [FP s oldLevel] (set_sem s ((sems K s)\<lparr>sem_queue := q\<rparr>) K)) (Thread_Sleep False))
      else push_frames [FSetLevel oldLevel] (set_sem s ((sems K s)\<lparr>sem_value := sem_value (sems K s) - 1\<rparr>) K))"

definition Semaphore_V :: "sid \<Rightarrow> kernel \<Rightarrow> kernel result" where
  "Semaphore_V s K =
     (let oldLevel = level K in
      rbind (V_body s (Interrupt_ChangeLevel IntOff K)) (push_frames [FSetLevel oldLevel]))"

definition Lock_IsHeldByCurrentThread :: "nat \<Rightarrow> kernel \<Rightarrow> bool" where
  "Lock_IsHeldByCurrentThread n K \<longleftrightarrow> lockHolder K n = Some (currentThread K)"

definition Lock_Acquire :: "nat \<Rightarrow> kernel \<Rightarrow> kernel result" where
  "Lock_Acquire n K = rbind (push_frames [FAcquired n] K) (Semaphore_P (LockSem n))"

definition Lock_Acquired :: "nat \<Rightarrow> kernel \<Rightarrow> kernel" where
  "Lock_Acquired n K = K\<lparr>lockHolder := (lockHolder K)(n := Some (currentThread K))\<rparr>"

definition Lock_Release :: "nat \<Rightarrow> kernel \<Rightarrow> kernel result" where
  "Lock_Release n K =
     rbind (ASSERT (Lock_IsHeldByCurrentThread n K)) (\<lambda>_.
     Semaphore_V (LockSem n) (K\<lparr>lockHolder := (lockHolder K)(n := None)\<rparr>))"

text \<open>\<^verbatim>\<open>Wait\<close> after creating and queueing the waiter's semaphore: the four calls that follow.\<close>

definition Condition_Wait :: "nat \<Rightarrow> nat \<Rightarrow> kernel \<Rightarrow> kernel result" where
  "Condition_Wait c n K =
     rbind (ASSERT (Lock_IsHeldByCurrentThread n K)) (\<lambda>_.
     let w = next_id K;
         K1 = set_sem (Waiter w) \<lparr>sem_value = 0, sem_queue = []\<rparr> (K\<lparr>next_id := Suc w\<rparr>) in
     rbind (absl_Append (waitQueue K1 c) w) (\<lambda>q.
     push_frames [FOps [OpRelease n, OpP (Waiter w), OpAcquire n]] (K1\<lparr>waitQueue := (waitQueue K1)(c := q)\<rparr>)))"

definition Condition_Signal :: "nat \<Rightarrow> nat \<Rightarrow> kernel \<Rightarrow> kernel result" where
  "Condition_Signal c n K =
     rbind (ASSERT (Lock_IsHeldByCurrentThread n K)) (\<lambda>_.
     if waitQueue K c \<noteq> []
     then rbind (absl_RemoveFront (waitQueue K c)) (\<lambda>(w, q).
          Semaphore_V (Waiter w) (K\<lparr>waitQueue := (waitQueue K)(c := q)\<rparr>))
     else Inr K)"

definition Condition_Broadcast :: "nat \<Rightarrow> nat \<Rightarrow> kernel \<Rightarrow> kernel result" where
  "Condition_Broadcast c n K =
     (if waitQueue K c \<noteq> [] then push_frames [FOps [OpSignal c n, OpBroadcast c n]] K else Inr K)"

section \<open>Running the current thread\<close>

fun do_op :: "op \<Rightarrow> kernel \<Rightarrow> kernel result" where
  "do_op (OpP s) K = Semaphore_P s K"
| "do_op (OpV s) K = Semaphore_V s K"
| "do_op OpYield K = Thread_Yield K"
| "do_op (OpFork func) K = Thread_Fork func K"
| "do_op (OpAcquire n) K = Lock_Acquire n K"
| "do_op (OpRelease n) K = Lock_Release n K"
| "do_op (OpWait c n) K = Condition_Wait c n K"
| "do_op (OpSignal c n) K = Condition_Signal c n K"
| "do_op (OpBroadcast c n) K = Condition_Broadcast c n K"
| "do_op (OpDevice n fromNow ty) K = Interrupt_Schedule (DSem n) fromNow ty K"
| "do_op OpHalt K = Inr (Interrupt_Halt K)"
| "do_op (OpSpace a) K =
     rbind (upd_thread (currentThread K) (\<lambda>th. th\<lparr>space := Some a\<rparr>) K) (\<lambda>K1. Inr (K1\<lparr>installed := Some a\<rparr>))"
| "do_op (OpUser regs) K = Inr (K\<lparr>registers := regs\<rparr>)"

fun run_frame :: "frame \<Rightarrow> kernel \<Rightarrow> kernel result" where
  "run_frame FBegin K = Thread_Begin K"
| "run_frame (FOps []) K = Inr K"
| "run_frame (FOps (p # ps)) K = rbind (push_frames [FOps ps] K) (do_op p)"
| "run_frame FFinish K = Thread_Finish K"
| "run_frame (FSetLevel l) K = Interrupt_SetLevel l K"
| "run_frame (FSleep finishing) K = Thread_Sleep_loop finishing K"
| "run_frame FRunBack K = Scheduler_Run_back K"
| "run_frame (FP s l) K = Semaphore_P_loop s l K"
| "run_frame (FAcquired n) K = Inr (Lock_Acquired n K)"
| "run_frame (FStatus st) K = Inr (K\<lparr>status := st\<rparr>)"

definition kstep :: "kernel \<Rightarrow> kernel result" where
  "kstep K =
     rbind (get_thread K (currentThread K)) (\<lambda>th.
     case frames th of [] \<Rightarrow> Inl NullDeref
     | f # fs \<Rightarrow> rbind (upd_thread (currentThread K) (\<lambda>th. th\<lparr>frames := fs\<rparr>) K) (run_frame f))"

text \<open>The states that the kernel goes through until it halts.\<close>

inductive ksteps :: "kernel \<Rightarrow> kernel \<Rightarrow> bool" where
  refl: "ksteps K K"
| step: "ksteps K K1 \<Longrightarrow> \<not> halted K1 \<Longrightarrow> kstep K1 = Inr K2 \<Longrightarrow> ksteps K K2"

section \<open>Start\<close>

definition Semaphore_new :: "int \<Rightarrow> Semaphore" where
  "Semaphore_new initialValue = \<lparr>sem_value = initialValue, sem_queue = []\<rparr>"

text \<open>
  The part of \<^verbatim>\<open>Kernel::Initialize\<close> that sets up threads, interrupts and the alarm. \<open>init\<close> are the initial values
  of the client's semaphores; the semaphore of a lock starts at 1. The first thread runs on the stack of the host,
  which has no fence. It still has to enable interrupts, to run \<open>main_ops\<close> and to halt the machine.
\<close>

definition Kernel_Initialize :: "bool \<Rightarrow> (nat \<Rightarrow> int) \<Rightarrow> (nat \<Rightarrow> 32 word) \<Rightarrow> (nat \<Rightarrow> int) \<Rightarrow> op list \<Rightarrow> kernel result" where
  "Kernel_Initialize randomSlice rnd junk init main_ops =
     Timer_SetInterrupt \<lparr>registers = (\<lambda>_. 0), mainMemory = (\<lambda>_. 0), tlb = None, pageTable = None, pageTableSize = 0,
       singleStep = False, runUntilTime = 0, status = SystemMode, level = IntOff, pending = [], inHandler = False,
       yieldOnReturn = False, totalTicks = 0, idleTicks = 0, systemTicks = 0, userTicks = 0, halted = False,
       timer_randomize = randomSlice, timer_disable = False, randoms = rnd, currentThread = 0, readyList = [],
       toBeDestroyed = None,
       threads = [0 \<mapsto> \<lparr>t_status = RUNNING, fence = None, frames = [FSetLevel IntOn, FOps main_ops, FOps [OpHalt], FFinish],
         userRegisters = junk, space = None\<rparr>],
       sems = (\<lambda>s. case s of Sem n \<Rightarrow> Semaphore_new (init n) | LockSem _ \<Rightarrow> Semaphore_new 1 | Waiter _ \<Rightarrow> Semaphore_new 0),
       lockHolder = (\<lambda>_. None), waitQueue = (\<lambda>_. []), installed = None, heap_junk = junk, next_id = 1\<rparr>"

section \<open>Self tests\<close>

text \<open>The programs of \<^verbatim>\<open>Thread::SelfTest\<close> and \<^verbatim>\<open>Semaphore::SelfTest\<close>; \<open>ping\<close> and \<open>pong\<close> are semaphores that start at 0.\<close>

definition SimpleThread :: "op list" where
  "SimpleThread = replicate 5 OpYield"

definition Thread_SelfTest :: "op list" where
  "Thread_SelfTest = [OpFork SimpleThread, OpYield] @ SimpleThread"

definition Semaphore_SelfTestHelper :: "nat \<Rightarrow> nat \<Rightarrow> op list" where
  "Semaphore_SelfTestHelper ping pong = concat (replicate 10 [OpP (Sem ping), OpV (Sem pong)])"

definition Semaphore_SelfTest :: "nat \<Rightarrow> nat \<Rightarrow> op list" where
  "Semaphore_SelfTest ping pong =
     OpFork (Semaphore_SelfTestHelper ping pong) # concat (replicate 10 [OpV (Sem ping), OpP (Sem pong)])"

text \<open>The thread and semaphore tests of \<^verbatim>\<open>Kernel::ThreadSelfTest\<close>, between the library test and the test of synchronised lists.\<close>

definition Kernel_ThreadSelfTest :: "op list" where
  "Kernel_ThreadSelfTest = Thread_SelfTest @ Semaphore_SelfTest 0 1"

end
