(* ===== verification/ThreadsProofs.thy ===== *)
theory ThreadsProofs
  imports Threads
begin

text \<open>
  The invariant of the thread system and what follows from it: no thread is ever lost, no assertion of the
  scheduler, the interrupt simulation or the semaphores fails, wake-ups are not lost, and a lock has one holder.
\<close>

section \<open>Invariant\<close>

definition load_ok :: "(nat \<Rightarrow> 32 word) \<Rightarrow> bool" where
  "load_ok r \<longleftrightarrow> 0 \<le> sint (r LoadReg) \<and> sint (r LoadReg) < int NumTotalRegs"

text \<open>What the client's calls may mention: semaphores that exist, positive delays, sane registers.\<close>

fun op_ok :: "nat \<Rightarrow> op \<Rightarrow> bool" where
  "op_ok N (OpP s) = (\<forall>w. s = Waiter w \<longrightarrow> w < N)"
| "op_ok N (OpFork ps) = list_all (op_ok N) ps"
| "op_ok N (OpDevice n fromNow ty) = (fromNow > 0)"
| "op_ok N (OpUser r) = load_ok r"
| "op_ok N _ = True"

text \<open>\<open>stack_ok N l fs\<close>: the frames \<open>fs\<close> can run when the interrupt level is \<open>l\<close>.\<close>

fun stack_ok :: "nat \<Rightarrow> IntStatus \<Rightarrow> frame list \<Rightarrow> bool" where
  "stack_ok N l [] = False"
| "stack_ok N l (FBegin # fs) = (l = IntOff \<and> stack_ok N IntOn fs)"
| "stack_ok N l (FOps ps # fs) = (l = IntOn \<and> list_all (op_ok N) ps \<and> stack_ok N IntOn fs)"
| "stack_ok N l (FFinish # fs) = (l = IntOn)"
| "stack_ok N l (FSetLevel l' # fs) = (l = IntOff \<and> l' = IntOn \<and> stack_ok N IntOn fs)"
| "stack_ok N l (FSleep fin # fs) = (l = IntOff \<and> (\<not> fin \<longrightarrow> stack_ok N IntOff fs))"
| "stack_ok N l (FRunBack # fs) = (l = IntOff \<and> (\<forall>b. hd fs \<noteq> FSleep b) \<and> hd fs \<noteq> FRunBack \<and> stack_ok N IntOff fs)"
| "stack_ok N l (FP s l' # fs) = (l = IntOff \<and> l' = IntOn \<and> (\<forall>w. s = Waiter w \<longrightarrow> w < N) \<and> stack_ok N IntOn fs)"
| "stack_ok N l (FAcquired n # fs) = (l = IntOn \<and> stack_ok N IntOn fs)"
| "stack_ok N l (FStatus st # fs) = (l = IntOn \<and> stack_ok N IntOn fs)"

definition queue :: "kernel \<Rightarrow> sid \<Rightarrow> nat list" where
  "queue K s = sem_queue (sems K s)"

definition placed :: "kernel \<Rightarrow> nat \<Rightarrow> bool" where
  "placed K t \<longleftrightarrow> t \<in> set (readyList K) \<or> (\<exists>s. t \<in> set (queue K s))"

text \<open>Each thread is in at most one list, once; a finished thread is in none.\<close>

definition places_ok :: "kernel \<Rightarrow> bool" where
  "places_ok K \<longleftrightarrow> distinct (readyList K) \<and> (\<forall>s. distinct (queue K s))
     \<and> (\<forall>s s'. s \<noteq> s' \<longrightarrow> set (queue K s) \<inter> set (queue K s') = {})
     \<and> (\<forall>s. set (queue K s) \<inter> set (readyList K) = {})
     \<and> (\<forall>t. placed K t \<longrightarrow> threads K t \<noteq> None)
     \<and> (\<forall>t. toBeDestroyed K = Some t \<longrightarrow> \<not> placed K t \<and> t \<noteq> currentThread K)"

definition thread_ok :: "thread \<Rightarrow> bool" where
  "thread_ok th \<longleftrightarrow> (\<forall>w. fence th = Some w \<longrightarrow> w = STACK_FENCEPOST)"

text \<open>A thread that is not running, \<open>X\<close> excepted, is in a list and ready to continue from there.\<close>

definition others_ok :: "nat set \<Rightarrow> kernel \<Rightarrow> bool" where
  "others_ok X K \<longleftrightarrow> (\<forall>t th. threads K t = Some th \<longrightarrow> thread_ok th \<and> t < next_id K \<and>
     (t \<noteq> currentThread K \<longrightarrow> toBeDestroyed K \<noteq> Some t \<longrightarrow>
        stack_ok (next_id K) IntOff (frames th) \<and> hd (frames th) \<in> {FRunBack, FBegin}
        \<and> (space th \<noteq> None \<longrightarrow> load_ok (userRegisters th)) \<and> (t \<notin> X \<longrightarrow> placed K t)
        \<and> (\<forall>s. t \<in> set (queue K s) \<longrightarrow> (\<exists>fs. frames th = FRunBack # FP s IntOn # fs))))"

definition pending_ok :: "kernel \<Rightarrow> bool" where
  "pending_ok K \<longleftrightarrow> sorted_wrt (\<lambda>x y. pi_when x \<le> pi_when y) (pending K) \<and> (\<forall>p \<in> set (pending K). pi_id p < next_id K)"

definition env_ok :: "kernel \<Rightarrow> bool" where
  "env_ok K \<longleftrightarrow> pending_ok K \<and> load_ok (registers K) \<and> (\<forall>n. 0 \<le> randoms K n)
     \<and> (\<forall>w. next_id K \<le> w \<longrightarrow> queue K (Waiter w) = []) \<and> (\<forall>s. 0 \<le> sem_value (sems K s))
     \<and> (\<forall>c. \<forall>w \<in> set (waitQueue K c). w < next_id K)"

definition base :: "nat set \<Rightarrow> kernel \<Rightarrow> bool" where
  "base X K \<longleftrightarrow> places_ok K \<and> others_ok X K \<and> env_ok K \<and> threads K (currentThread K) \<noteq> None"

text \<open>The running thread is in no list, unless it is in the loop of \<^verbatim>\<open>Sleep\<close>.\<close>

definition asleep :: "kernel \<Rightarrow> sid \<Rightarrow> bool" where
  "asleep K s \<longleftrightarrow> (currentThread K \<in> set (readyList K) \<or> currentThread K \<in> set (queue K s))
     \<and> (\<forall>s'. s' \<noteq> s \<longrightarrow> currentThread K \<notin> set (queue K s'))"

definition cur_ok :: "kernel \<Rightarrow> frame list \<Rightarrow> bool" where
  "cur_ok K fs \<longleftrightarrow> stack_ok (next_id K) (level K) fs \<and> (toBeDestroyed K \<noteq> None \<longrightarrow> hd fs \<in> {FRunBack, FBegin})
     \<and> (if hd fs = FSleep False then \<exists>s fs'. fs = FSleep False # FP s IntOn # fs' \<and> asleep K s else \<not> placed K (currentThread K))"

definition cur_frames :: "kernel \<Rightarrow> frame list" where
  "cur_frames K = frames (the (threads K (currentThread K)))"

text \<open>A thread that comes back from \<^verbatim>\<open>SWITCH\<close> has user registers that can be restored.\<close>

definition resume_ok :: "kernel \<Rightarrow> bool" where
  "resume_ok K \<longleftrightarrow> (\<forall>th. threads K (currentThread K) = Some th \<longrightarrow> hd (frames th) = FRunBack \<longrightarrow> space th \<noteq> None
     \<longrightarrow> load_ok (userRegisters th))"

definition kinv :: "kernel \<Rightarrow> bool" where
  "kinv K \<longleftrightarrow> base {} K \<and> \<not> inHandler K \<and> \<not> yieldOnReturn K \<and> cur_ok K (cur_frames K) \<and> resume_ok K"

section \<open>Monotonicity and frames\<close>

lemma op_ok_mono: "op_ok N p \<Longrightarrow> N \<le> N' \<Longrightarrow> op_ok N' p"
  by (induction p) (auto simp: list_all_iff)

lemma ops_ok_mono: "list_all (op_ok N) ps \<Longrightarrow> N \<le> N' \<Longrightarrow> list_all (op_ok N') ps"
  by (auto simp: list_all_iff intro: op_ok_mono)

lemma stack_ok_mono: "stack_ok N l fs \<Longrightarrow> N \<le> N' \<Longrightarrow> stack_ok N' l fs"
  by (induction N l fs rule: stack_ok.induct) (auto intro: ops_ok_mono)

lemma stack_ok_Suc: "stack_ok N l fs \<Longrightarrow> stack_ok (Suc N) l fs"
  by (erule stack_ok_mono) simp

lemma stack_ok_IntOn: "stack_ok N IntOn fs \<Longrightarrow> hd fs \<noteq> FSleep b \<and> hd fs \<notin> {FRunBack, FBegin}"
  by (induction N IntOn fs rule: stack_ok.induct) auto

lemma queue_set_sem [simp]: "queue (set_sem s v K) s' = (if s' = s then sem_queue v else queue K s')"
  by (simp add: queue_def set_sem_def)

lemma set_sem_simps [simp]: "threads (set_sem s v K) = threads K" "currentThread (set_sem s v K) = currentThread K"
  "readyList (set_sem s v K) = readyList K" "level (set_sem s v K) = level K" "sems (set_sem s v K) s = v"
  by (simp_all add: set_sem_def)

lemma upd_thread_Some: "threads K t = Some th \<Longrightarrow> upd_thread t f K = Inr (put_thread t (f th) K)"
  by (simp add: upd_thread_def get_thread_def)

text \<open>The state of the current thread matters to \<open>base\<close> only in that it exists.\<close>

lemma put_thread_simps [simp]: "queue (put_thread t th K) s = queue K s" "placed (put_thread t th K) t' = placed K t'"
  "readyList (put_thread t th K) = readyList K" "level (put_thread t th K) = level K"
  "currentThread (put_thread t th K) = currentThread K" "next_id (put_thread t th K) = next_id K"
  "threads (put_thread t th K) = (threads K)(t \<mapsto> th)" "toBeDestroyed (put_thread t th K) = toBeDestroyed K"
  "inHandler (put_thread t th K) = inHandler K" "yieldOnReturn (put_thread t th K) = yieldOnReturn K"
  "sems (put_thread t th K) = sems K" "pending (put_thread t th K) = pending K" "totalTicks (put_thread t th K) = totalTicks K"
  "halted (put_thread t th K) = halted K" "status (put_thread t th K) = status K" "registers (put_thread t th K) = registers K"
  "lockHolder (put_thread t th K) = lockHolder K" "waitQueue (put_thread t th K) = waitQueue K"
  "randoms (put_thread t th K) = randoms K"
  by (simp_all add: put_thread_def queue_def placed_def)

lemma base_put_cur:
  assumes "base X K" and "thread_ok th"
  shows "base X (put_thread (currentThread K) th K)"
  using assms unfolding base_def places_ok_def others_ok_def env_ok_def pending_ok_def by auto

lemma cur_thread:
  assumes "base X K"
  obtains th where "threads K (currentThread K) = Some th" "thread_ok th" "currentThread K < next_id K"
  using assms unfolding base_def others_ok_def by blast

lemma push_frames_ok:
  assumes "base X K"
  obtains K' where "push_frames fs K = Inr K'" "base X K'" "cur_frames K' = fs @ cur_frames K"
    "\<exists>th. K' = put_thread (currentThread K) th K"
proof -
  obtain th where th: "threads K (currentThread K) = Some th" "thread_ok th"
    using cur_thread [OF assms] .
  let ?th = "th\<lparr>frames := fs @ frames th\<rparr>"
  have "thread_ok ?th"
    using th(2) by (simp add: thread_ok_def)
  then show thesis
    using that [of "put_thread (currentThread K) ?th K"] th base_put_cur [OF assms]
    by (auto simp: push_frames_def upd_thread_Some cur_frames_def)
qed

lemma base_mono: "base X K \<Longrightarrow> X \<subseteq> Y \<Longrightarrow> base Y K"
  unfolding base_def others_ok_def by blast

lemma toBeDestroyed_not_placed: "base X K \<Longrightarrow> placed K t \<Longrightarrow> toBeDestroyed K \<noteq> Some t \<and> threads K t \<noteq> None"
  unfolding base_def places_ok_def by blast

section \<open>Making threads ready\<close>

lemma placed_ready: "placed (K\<lparr>readyList := l\<rparr>) t \<longleftrightarrow> t \<in> set l \<or> (\<exists>s. t \<in> set (queue K s))"
  by (simp add: placed_def queue_def)

lemma ready_simps [simp]: "queue (K\<lparr>readyList := l\<rparr>) s = queue K s"
  by (simp add: queue_def)

lemma ReadyToRun_ok:
  assumes "base X K" and "level K = IntOff" and "threads K t = Some th" and "\<not> placed K t" and "toBeDestroyed K \<noteq> Some t"
  obtains K' where "Scheduler_ReadyToRun t K = Inr K'" "base (X - {t}) K'"
    "K' = (put_thread t (th\<lparr>t_status := READY\<rparr>) K)\<lparr>readyList := readyList K @ [t]\<rparr>"
proof -
  let ?th = "th\<lparr>t_status := READY\<rparr>"
  let ?K = "(put_thread t ?th K)\<lparr>readyList := readyList K @ [t]\<rparr>"
  have t: "t \<notin> set (readyList K)" "\<And>s. t \<notin> set (queue K s)"
    using assms(4) by (auto simp: placed_def)
  have "places_ok ?K"
    using assms(1,3,5) t unfolding base_def places_ok_def placed_ready by (auto simp: placed_def)
  moreover have "others_ok (X - {t}) ?K"
  proof -
    have o: "others_ok X K"
      using assms(1) by (simp add: base_def)
    show ?thesis
      unfolding others_ok_def
    proof (intro allI impI)
      fix u uh
      assume "threads ?K u = Some uh"
      then obtain vh where v: "threads K u = Some vh" "frames uh = frames vh" "fence uh = fence vh" "space uh = space vh"
        "userRegisters uh = userRegisters vh"
        using assms(3) by (cases "u = t") auto
      have pl: "placed K u \<longrightarrow> placed ?K u" "u = t \<longrightarrow> placed ?K u"
        by (auto simp: placed_def queue_def)
      show "thread_ok uh \<and> u < next_id ?K \<and> (u \<noteq> currentThread ?K \<longrightarrow> toBeDestroyed ?K \<noteq> Some u \<longrightarrow>
          stack_ok (next_id ?K) IntOff (frames uh) \<and> hd (frames uh) \<in> {FRunBack, FBegin}
          \<and> (space uh \<noteq> None \<longrightarrow> load_ok (userRegisters uh)) \<and> (u \<notin> X - {t} \<longrightarrow> placed ?K u)
          \<and> (\<forall>s. u \<in> set (queue ?K s) \<longrightarrow> (\<exists>fs. frames uh = FRunBack # FP s IntOn # fs)))"
        using o [unfolded others_ok_def, rule_format, OF v(1)] v pl by (auto simp: thread_ok_def)
    qed
  qed
  moreover have "env_ok ?K" "threads ?K (currentThread ?K) \<noteq> None"
    using assms(1,3) by (auto simp: base_def env_ok_def pending_ok_def)
  moreover have "Scheduler_ReadyToRun t K = Inr ?K"
    using assms(2,3) t(1) by (simp add: Scheduler_ReadyToRun_def upd_thread_Some absl_Append_def)
  ultimately show thesis
    using that by (simp add: base_def)
qed

text \<open>What handlers may change: nothing that the running thread relies on.\<close>

definition quiet :: "kernel \<Rightarrow> kernel \<Rightarrow> bool" where
  "quiet K K' \<longleftrightarrow> currentThread K' = currentThread K \<and> level K' = level K \<and> toBeDestroyed K' = toBeDestroyed K
     \<and> next_id K \<le> next_id K' \<and> (\<forall>t. map_option frames (threads K' t) = map_option frames (threads K t))
     \<and> (\<forall>s. asleep K s \<longrightarrow> asleep K' s) \<and> (\<not> placed K (currentThread K) \<longrightarrow> \<not> placed K' (currentThread K'))
     \<and> halted K' = halted K \<and> inHandler K' = inHandler K \<and> status K' = status K"

lemma quiet_trans: "quiet K K1 \<Longrightarrow> quiet K1 K2 \<Longrightarrow> quiet K K2"
  unfolding quiet_def by auto

lemma quiet_cur_frames: "quiet K K' \<Longrightarrow> threads K (currentThread K) \<noteq> None \<Longrightarrow> cur_frames K' = cur_frames K"
proof -
  assume q: "quiet K K'" and "threads K (currentThread K) \<noteq> None"
  then have "map_option frames (threads K' (currentThread K)) = map_option frames (threads K (currentThread K))"
    "currentThread K' = currentThread K"
    by (simp_all add: quiet_def)
  then show ?thesis
    using \<open>threads K (currentThread K) \<noteq> None\<close> by (auto simp: cur_frames_def)
qed

lemma base_set_value:
  assumes "base X K" and "0 \<le> v"
  shows "base X (set_sem s ((sems K s)\<lparr>sem_value := v\<rparr>) K)" "quiet K (set_sem s ((sems K s)\<lparr>sem_value := v\<rparr>) K)"
proof -
  let ?K = "set_sem s ((sems K s)\<lparr>sem_value := v\<rparr>) K"
  have q: "queue ?K = queue K"
    by (rule ext) (simp add: queue_def set_sem_def)
  then have "placed ?K = placed K"
    by (rule_tac ext) (simp add: placed_def set_sem_def)
  with q assms show "base X ?K"
    by (simp add: base_def places_ok_def others_ok_def env_ok_def pending_ok_def set_sem_def)
  show "quiet K ?K"
    using q \<open>placed ?K = placed K\<close> by (simp add: quiet_def asleep_def set_sem_def)
qed

lemma places_ok_shrink:
  assumes "places_ok K" and "readyList K' = readyList K" and "\<And>s. set (queue K' s) \<subseteq> set (queue K s)"
    and "\<And>s. distinct (queue K' s)" and "threads K' = threads K" "currentThread K' = currentThread K"
    "toBeDestroyed K' = toBeDestroyed K"
  shows "places_ok K'"
proof -
  have "placed K' t \<Longrightarrow> placed K t" for t
    using assms(2,3) by (auto simp: placed_def)
  moreover have "set (queue K' s) \<inter> set (queue K' s') = {}" if "s \<noteq> s'" for s s'
    using assms(1) that assms(3) [of s] assms(3) [of s'] unfolding places_ok_def by fast
  moreover have "set (queue K' s) \<inter> set (readyList K) = {}" for s
    using assms(1) assms(3) [of s] unfolding places_ok_def by fast
  ultimately show ?thesis
    using assms unfolding places_ok_def by auto
qed

lemma V_wake:
  assumes "base X K" and "queue K s = t # q"
  shows "base (insert t X) (set_sem s ((sems K s)\<lparr>sem_queue := q\<rparr>) K)"
    and "\<not> placed (set_sem s ((sems K s)\<lparr>sem_queue := q\<rparr>) K) t"
proof -
  let ?K = "set_sem s ((sems K s)\<lparr>sem_queue := q\<rparr>) K"
  have p: "places_ok K" and o: "others_ok X K" and e: "env_ok K"
    using assms(1) by (simp_all add: base_def)
  have sub: "set (queue ?K s') \<subseteq> set (queue K s')" for s'
    using assms(2) by auto
  have dist: "distinct (t # q)" "\<And>s'. s' \<noteq> s \<Longrightarrow> t \<notin> set (queue K s')" "t \<notin> set (readyList K)"
    using p assms(2) unfolding places_ok_def by (metis, (metis assms(2) disjoint_iff list.set_intros(1))+)
  have "u \<in> set (queue ?K s') \<longleftrightarrow> u \<in> set (queue K s') \<and> u \<noteq> t" for u s'
    using dist assms(2) by (cases "s' = s") auto
  then have pl: "placed ?K u \<longleftrightarrow> placed K u \<and> u \<noteq> t" for u
    using dist(3) by (auto simp: placed_def)
  then show "\<not> placed ?K t"
    by simp
  have "places_ok ?K"
    using p dist(1) assms(2) by (intro places_ok_shrink [OF p]) (auto simp: places_ok_def set_sem_def queue_def)
  moreover have "others_ok (insert t X) ?K"
    using o pl sub unfolding others_ok_def by (auto simp: set_sem_def dest!: subsetD) blast+
  moreover have "env_ok ?K"
    using e assms(2) unfolding env_ok_def pending_ok_def by (auto simp: set_sem_def queue_def)
  ultimately show "base (insert t X) ?K"
    using assms(1) by (simp add: base_def)
qed

lemma V_body_ok:
  assumes "base X K" and "level K = IntOff"
  obtains K' where "V_body s K = Inr K'" "base X K'" "quiet K K'" "pending K' = pending K" "totalTicks K' = totalTicks K"
    "next_id K' = next_id K" "yieldOnReturn K' = yieldOnReturn K"
proof (cases "queue K s")
  case Nil
  let ?K = "set_sem s ((sems K s)\<lparr>sem_value := sem_value (sems K s) + 1\<rparr>) K"
  have "0 \<le> sem_value (sems K s) + 1"
    using assms(1) unfolding base_def env_ok_def by (metis add_nonneg_nonneg zero_le_one)
  note bv = base_set_value [OF assms(1) this, of s]
  show thesis
    by (rule that [of ?K]) (use Nil bv in \<open>simp_all add: V_body_def queue_def set_sem_def\<close>)
next
  case (Cons t q)
  let ?K1 = "set_sem s ((sems K s)\<lparr>sem_queue := q\<rparr>) K"
  note w = V_wake [OF assms(1) Cons]
  have "placed K t"
    using Cons by (auto simp: placed_def) (metis list.set_intros(1))
  then obtain th where th: "threads K t = Some th" "toBeDestroyed K \<noteq> Some t"
    using toBeDestroyed_not_placed [OF assms(1)] by blast
  have tbd: "toBeDestroyed ?K1 \<noteq> Some t"
    using th(2) by (simp add: set_sem_def)
  obtain K2 where K2: "Scheduler_ReadyToRun t ?K1 = Inr K2" "base (insert t X - {t}) K2"
    "K2 = (put_thread t (th\<lparr>t_status := READY\<rparr>) ?K1)\<lparr>readyList := readyList ?K1 @ [t]\<rparr>"
    using ReadyToRun_ok [OF w(1) _ _ w(2) tbd, of th] th(1) assms(2) by auto
  have b2: "base X K2"
    using K2(2) by (rule base_mono) auto
  let ?K = "set_sem s ((sems K2 s)\<lparr>sem_value := sem_value (sems K2 s) + 1\<rparr>) K2"
  have "0 \<le> sem_value (sems K2 s) + 1"
    using b2 unfolding base_def env_ok_def by (metis add_nonneg_nonneg zero_le_one)
  note bv = base_set_value [OF b2 this, of s]
  have ready: "readyList K2 = readyList K @ [t]" and q: "queue K2 s' = (if s' = s then q else queue K s')" for s'
    by (simp_all add: K2(3) set_sem_def queue_def)
  have dist: "t \<notin> set q" "s' \<noteq> s \<Longrightarrow> t \<notin> set (queue K s')" for s'
    using assms(1) Cons unfolding base_def places_ok_def by (metis distinct.simps(2), metis disjoint_iff list.set_intros(1))
  have curq: "asleep K s' \<Longrightarrow> s \<noteq> s' \<Longrightarrow> currentThread K \<notin> set (t # q)" for s'
    using Cons by (metis asleep_def)
  have cur2: "currentThread K2 = currentThread K"
    by (simp add: K2(3) set_sem_def)
  have "asleep K s' \<longrightarrow> asleep K2 s'" for s'
  proof
    assume a: "asleep K s'"
    then have "currentThread K \<in> set (readyList K) \<or> currentThread K \<in> set (queue K s')"
      by (simp add: asleep_def)
    then have "currentThread K \<in> set (readyList K2) \<or> currentThread K \<in> set (queue K2 s')"
      using Cons by (auto simp: ready q)
    moreover have "currentThread K \<notin> set (queue K2 u)" if "u \<noteq> s'" for u
      using a that Cons curq [OF a] unfolding q by (auto simp: asleep_def)
    ultimately show "asleep K2 s'"
      unfolding asleep_def cur2 by blast
  qed
  moreover have sub: "set (queue K2 s') \<subseteq> set (queue K s')" for s'
    using Cons by (auto simp: q)
  have "placed K2 u \<longrightarrow> placed K u" for u
  proof
    assume "placed K2 u"
    then have "u \<in> set (readyList K) \<or> u = t \<or> (\<exists>s'. u \<in> set (queue K s'))"
      using sub by (auto simp: placed_def ready)
    then show "placed K u"
      using \<open>placed K t\<close> by (auto simp: placed_def)
  qed
  moreover have "map_option frames (threads K2 u) = map_option frames (threads K u)" for u
    using th(1) by (simp add: K2(3) set_sem_def)
  ultimately have "quiet K K2"
    by (auto simp: quiet_def K2(3) set_sem_def)
  then have "quiet K ?K"
    using bv(2) by (rule quiet_trans)
  moreover have "V_body s K = Inr ?K"
    using Cons K2(1) by (simp add: V_body_def queue_def absl_RemoveFront_def)
  ultimately show thesis
    by (rule_tac that [of ?K]) (use bv(1) in \<open>simp_all add: K2(3) set_sem_def\<close>)
qed

section \<open>Interrupts\<close>

lemma pending_insert:
  assumes "pending_ok K" and "p = \<lparr>pi_id = next_id K, callOnInterrupt = dev, pi_when = w, int_type = ty\<rparr>"
  shows "absl_Insert PendingCompare (pending K) p = Inr (sorted_place PendingCompare p (pending K))"
    and "sorted_wrt (\<lambda>x y. pi_when x \<le> pi_when y) (sorted_place PendingCompare p (pending K))"
proof -
  have "p \<notin> set (pending K)"
    using assms by (auto simp: pending_ok_def)
  then show "absl_Insert PendingCompare (pending K) p = Inr (sorted_place PendingCompare p (pending K))"
    by (simp add: absl_Insert_def)
  have "sorted_wrt (\<lambda>x y. pi_when x \<le> pi_when y) (sorted_place PendingCompare p xs)"
    if "sorted_wrt (\<lambda>x y. pi_when x \<le> pi_when y) xs" for xs
    using that by (induction xs) (auto simp: PendingCompare_def split: if_splits)
  then show "sorted_wrt (\<lambda>x y. pi_when x \<le> pi_when y) (sorted_place PendingCompare p (pending K))"
    using assms(1) by (simp add: pending_ok_def)
qed

lemma others_ok_next: "others_ok X K \<Longrightarrow> next_id K \<le> n \<Longrightarrow> others_ok X (K\<lparr>pending := l, next_id := n\<rparr>)"
  unfolding others_ok_def placed_def queue_def by (auto intro: stack_ok_mono less_le_trans)

lemma Schedule_ok:
  assumes "base X K" and "0 < fromNow"
  obtains K' where "Interrupt_Schedule dev fromNow ty K = Inr K'" "base X K'" "quiet K K'"
    "yieldOnReturn K' = yieldOnReturn K" "totalTicks K' = totalTicks K"
    "\<exists>p. pending K' = sorted_place PendingCompare p (pending K) \<and> pi_when p = totalTicks K + fromNow"
proof -
  define p where "p = \<lparr>pi_id = next_id K, callOnInterrupt = dev, pi_when = totalTicks K + fromNow, int_type = ty\<rparr>"
  have po: "pending_ok K"
    using assms(1) by (simp add: base_def env_ok_def)
  note pin = pending_insert [OF po p_def]
  let ?K = "K\<lparr>pending := sorted_place PendingCompare p (pending K), next_id := Suc (next_id K)\<rparr>"
  have same: "queue ?K = queue K" "placed ?K = placed K"
    by (rule_tac ext, simp add: placed_def queue_def)+
  have "env_ok ?K"
    using assms(1) pin(2) same unfolding base_def env_ok_def pending_ok_def by (auto simp: p_def intro: less_SucI)
  moreover have "others_ok X ?K"
    using assms(1) by (auto simp: base_def intro: others_ok_next)
  moreover have "places_ok ?K"
    using assms(1) same by (simp add: base_def places_ok_def)
  ultimately have "base X ?K"
    using assms(1) by (simp add: base_def)
  moreover have "quiet K ?K"
    using same by (simp add: quiet_def asleep_def)
  moreover have "Interrupt_Schedule dev fromNow ty K = Inr ?K"
    using assms(2) pin(1) by (simp add: Interrupt_Schedule_def p_def)
  ultimately show thesis
    by (rule_tac that [of ?K]) (auto simp: p_def)
qed

text \<open>Pending interrupts whose time has come.\<close>

definition due :: "kernel \<Rightarrow> PendingInterrupt list" where
  "due K = filter (\<lambda>p. pi_when p \<le> totalTicks K) (pending K)"

lemma filter_sorted_place_not: "\<not> P x \<Longrightarrow> filter P (sorted_place cmp x xs) = filter P xs"
  by (induction xs) auto

lemma Timer_SetInterrupt_ok:
  assumes "base X K"
  obtains K' where "Timer_SetInterrupt K = Inr K'" "base X K'" "quiet K K'" "due K' = due K" "totalTicks K' = totalTicks K"
    "yieldOnReturn K' = yieldOnReturn K"
proof (cases "timer_disable K")
  case True
  then show thesis
    using that [of K] assms by (simp add: Timer_SetInterrupt_def quiet_def)
next
  case False
  define delay where "delay = (if timer_randomize K then 1 + (randoms K (next_id K) smod (TimerTicks * 2)) else TimerTicks)"
  have "0 \<le> randoms K (next_id K)"
    using assms by (simp add: base_def env_ok_def)
  then have "0 < delay"
    by (simp add: delay_def TimerTicks_def smod_nonneg add_pos_nonneg)
  then obtain K' where K': "Interrupt_Schedule DTimer delay TimerInt K = Inr K'" "base X K'" "quiet K K'"
    "yieldOnReturn K' = yieldOnReturn K" "totalTicks K' = totalTicks K"
    "\<exists>p. pending K' = sorted_place PendingCompare p (pending K) \<and> pi_when p = totalTicks K + delay"
    using Schedule_ok [OF assms] by blast
  have "due K' = due K"
    using K'(5,6) \<open>0 < delay\<close> by (auto simp: due_def filter_sorted_place_not)
  moreover have "Timer_SetInterrupt K = Inr K'"
    using K'(1) False by (simp add: Timer_SetInterrupt_def delay_def)
  ultimately show thesis
    using that K' by blast
qed

lemma base_yield: "base X (K\<lparr>yieldOnReturn := b\<rparr>) = base X K" "quiet K (K\<lparr>yieldOnReturn := b\<rparr>)"
  by (simp_all add: base_def places_ok_def others_ok_def env_ok_def pending_ok_def placed_def queue_def quiet_def asleep_def)

lemma CallBack_ok:
  assumes "base X K" and "level K = IntOff" and "inHandler K"
  obtains K' where "CallBack dev K = Inr K'" "base X K'" "quiet K K'" "due K' = due K" "totalTicks K' = totalTicks K"
    "status K = IdleMode \<longrightarrow> yieldOnReturn K' = yieldOnReturn K"
proof (cases dev)
  case DTimer
  define K1 where "K1 = (if status K \<noteq> IdleMode then K\<lparr>yieldOnReturn := True\<rparr> else K)"
  have K1: "Alarm_CallBack K = Inr K1" "base X K1" "quiet K K1" "due K1 = due K" "totalTicks K1 = totalTicks K"
    using assms base_yield by (simp_all add: K1_def Alarm_CallBack_def Interrupt_YieldOnReturn_def due_def quiet_def)
  obtain K' where K': "Timer_SetInterrupt K1 = Inr K'" "base X K'" "quiet K1 K'" "due K' = due K1" "totalTicks K' = totalTicks K1"
    "yieldOnReturn K' = yieldOnReturn K1"
    using Timer_SetInterrupt_ok [OF K1(2)] .
  show thesis
    by (rule that [of K']) (use DTimer K1 K' quiet_trans [OF K1(3) K'(3)] in \<open>simp_all add: CallBack_def Timer_CallBack_def K1_def\<close>)
next
  case (DSem n)
  obtain K' where "V_body (Sem n) K = Inr K'" "base X K'" "quiet K K'" "pending K' = pending K" "totalTicks K' = totalTicks K"
    "yieldOnReturn K' = yieldOnReturn K"
    using V_body_ok [OF assms(1,2)] by metis
  then show thesis
    using that [of K'] DSem by (simp add: CallBack_def due_def)
qed

lemma base_pending:
  assumes "base X K" and "pending K = p # l"
  shows "base X (K\<lparr>pending := l\<rparr>)" "quiet K (K\<lparr>pending := l\<rparr>)"
  using assms by (auto simp: base_def places_ok_def others_ok_def env_ok_def pending_ok_def placed_def queue_def quiet_def asleep_def)

lemma due_empty_iff:
  assumes "pending_ok K"
  shows "due K \<noteq> [] \<longleftrightarrow> pending K \<noteq> [] \<and> pi_when (hd (pending K)) \<le> totalTicks K"
proof (cases "pending K")
  case (Cons p l)
  then have "\<forall>x \<in> set l. pi_when p \<le> pi_when x"
    using assms by (simp add: pending_ok_def)
  then show ?thesis
    using Cons by (auto simp: due_def filter_empty_conv)
qed (simp add: due_def)

lemma fire_due_ok:
  assumes "base X K" and "level K = IntOff" and "inHandler K" and "due K \<noteq> []" and "length (due K) \<le> n"
  shows "\<exists>K'. fire_due n K = Inr K' \<and> base X K' \<and> quiet K K' \<and> due K' = [] \<and> totalTicks K' = totalTicks K
    \<and> (status K = IdleMode \<longrightarrow> yieldOnReturn K' = yieldOnReturn K)"
  using assms
proof (induction n arbitrary: K)
  case 0
  then show ?case by simp
next
  case (Suc n)
  have po: "pending_ok K" if "base X K" for K
    using that by (simp add: base_def env_ok_def)
  obtain p l where p: "pending K = p # l" "pi_when p \<le> totalTicks K"
    using due_empty_iff [OF po [OF Suc.prems(1)]] Suc.prems(4) by (cases "pending K") auto
  let ?K1 = "K\<lparr>pending := l\<rparr>"
  note b1 = base_pending [OF Suc.prems(1) p(1)]
  have d1: "due K = p # due ?K1"
    using p by (simp add: due_def)
  obtain K2 where K2: "CallBack (callOnInterrupt p) ?K1 = Inr K2" "base X K2" "quiet ?K1 K2" "due K2 = due ?K1"
    "totalTicks K2 = totalTicks ?K1" "status ?K1 = IdleMode \<longrightarrow> yieldOnReturn K2 = yieldOnReturn ?K1"
    using CallBack_ok [OF b1(1)] Suc.prems(2,3) by (metis kernel.select_convs(1,3) kernel.surjective kernel.update_convs(2))
  have q2: "quiet K K2"
    using b1(2) K2(3) by (rule quiet_trans)
  show ?case
  proof (cases "due K2 = []")
    case True
    then have "\<not> (pending K2 \<noteq> [] \<and> pi_when (hd (pending K2)) \<le> totalTicks K2)"
      using due_empty_iff [OF po [OF K2(2)]] by simp
    then have "fire_due (Suc n) K = Inr K2"
      using p(1) K2(1) by (auto simp: absl_RemoveFront_def)
    then show ?thesis
      using K2 q2 True by auto
  next
    case False
    have "level K2 = IntOff" "inHandler K2" "length (due K2) \<le> n" "status K2 = status K"
      using q2 Suc.prems(2,3,5) K2(4) d1 by (simp_all add: quiet_def)
    then obtain K' where K': "fire_due n K2 = Inr K'" "base X K'" "quiet K2 K'" "due K' = []" "totalTicks K' = totalTicks K2"
      "status K = IdleMode \<longrightarrow> yieldOnReturn K' = yieldOnReturn K2"
      using Suc.IH [OF K2(2) _ _ False] by auto
    have "pending K2 \<noteq> [] \<and> pi_when (hd (pending K2)) \<le> totalTicks K2"
      using due_empty_iff [OF po [OF K2(2)]] False by simp
    then have "fire_due (Suc n) K = Inr K'"
      using p(1) K2(1) K'(1) by (simp add: absl_RemoveFront_def)
    then show ?thesis
      using K' K2(5,6) quiet_trans [OF q2 K'(3)] by auto
  qed
qed

lemma place_simps [simp]:
  "queue (K\<lparr>inHandler := b\<rparr>) = queue K" "placed (K\<lparr>inHandler := b\<rparr>) = placed K" "asleep (K\<lparr>inHandler := b\<rparr>) = asleep K"
  "queue (K\<lparr>registers := r\<rparr>) = queue K" "placed (K\<lparr>registers := r\<rparr>) = placed K" "asleep (K\<lparr>registers := r\<rparr>) = asleep K"
  "queue (K\<lparr>status := st\<rparr>) = queue K" "placed (K\<lparr>status := st\<rparr>) = placed K" "asleep (K\<lparr>status := st\<rparr>) = asleep K"
  "queue (K\<lparr>halted := b\<rparr>) = queue K" "placed (K\<lparr>halted := b\<rparr>) = placed K" "asleep (K\<lparr>halted := b\<rparr>) = asleep K"
  "queue (K\<lparr>level := lv\<rparr>) = queue K" "placed (K\<lparr>level := lv\<rparr>) = placed K" "asleep (K\<lparr>level := lv\<rparr>) = asleep K"
  "queue (K\<lparr>lockHolder := h\<rparr>) = queue K" "placed (K\<lparr>lockHolder := h\<rparr>) = placed K" "asleep (K\<lparr>lockHolder := h\<rparr>) = asleep K"
  "queue (K\<lparr>installed := a\<rparr>) = queue K" "placed (K\<lparr>installed := a\<rparr>) = placed K" "asleep (K\<lparr>installed := a\<rparr>) = asleep K"
  "queue (K\<lparr>yieldOnReturn := b\<rparr>) = queue K" "placed (K\<lparr>yieldOnReturn := b\<rparr>) = placed K" "asleep (K\<lparr>yieldOnReturn := b\<rparr>) = asleep K"
  by (rule ext, simp add: queue_def placed_def asleep_def)+

lemma base_misc:
  "base X (K\<lparr>inHandler := b\<rparr>) = base X K" "base X (K\<lparr>status := st\<rparr>) = base X K" "base X (K\<lparr>halted := b\<rparr>) = base X K"
  "base X (K\<lparr>level := lv\<rparr>) = base X K" "base X (K\<lparr>totalTicks := n, systemTicks := i\<rparr>) = base X K"
  "base X (K\<lparr>totalTicks := n, userTicks := i\<rparr>) = base X K" "base X (K\<lparr>idleTicks := i, totalTicks := n\<rparr>) = base X K"
  "base X (K\<lparr>lockHolder := h\<rparr>) = base X K" "base X (K\<lparr>installed := a\<rparr>) = base X K"
  by (simp_all add: base_def places_ok_def others_ok_def env_ok_def pending_ok_def placed_def queue_def)

lemma base_registers: "base X K \<Longrightarrow> load_ok r \<Longrightarrow> base X (K\<lparr>registers := r\<rparr>)"
  by (simp add: base_def places_ok_def others_ok_def env_ok_def pending_ok_def placed_def queue_def)

lemma DelayedLoad_ok:
  assumes "base X K"
  obtains r where "Machine_DelayedLoad 0 0 K = Inr (K\<lparr>registers := r\<rparr>)" "load_ok r"
proof -
  have "load_ok (registers K)"
    using assms by (simp add: base_def env_ok_def)
  then show thesis
    using that by (auto simp: Machine_DelayedLoad_def Let_def load_ok_def set_reg_def)
qed

lemma CheckIfDue_ok:
  assumes "base X K" and "level K = IntOff" and "\<not> inHandler K"
  obtains b K' where "Interrupt_CheckIfDue adv K = Inr (b, K')" "base X K'" "quiet K K'" "totalTicks K \<le> totalTicks K'"
    "\<not> b \<longrightarrow> K' = K" "due K' = []" "status K = IdleMode \<longrightarrow> yieldOnReturn K' = yieldOnReturn K" "\<not> b \<and> adv \<longrightarrow> pending K = []"
proof (cases "pending K = [] \<or> (pi_when (hd (pending K)) > totalTicks K \<and> \<not> adv)")
  case True
  have "pending_ok K"
    using assms(1) by (simp add: base_def env_ok_def)
  then have "due K = []"
    using True due_empty_iff by fastforce
  then show thesis
    using that [of False K] True assms by (cases "pending K") (auto simp: Interrupt_CheckIfDue_def quiet_def)
next
  case False
  then obtain p l where p: "pending K = p # l" "pi_when p \<le> totalTicks K \<or> adv"
    by (cases "pending K") auto
  define K1 where "K1 = (if pi_when p > totalTicks K
      then K\<lparr>idleTicks := idleTicks K + (pi_when p - totalTicks K), totalTicks := pi_when p\<rparr> else K)"
  have K1: "base X K1" "pending K1 = p # l" "pi_when p \<le> totalTicks K1" "totalTicks K \<le> totalTicks K1" "level K1 = IntOff"
    "status K1 = status K" "quiet K K1" "yieldOnReturn K1 = yieldOnReturn K"
    using assms p(1) by (simp_all add: K1_def base_misc quiet_def asleep_def placed_def queue_def)
  obtain r where r: "Machine_DelayedLoad 0 0 K1 = Inr (K1\<lparr>registers := r\<rparr>)" "load_ok r"
    using DelayedLoad_ok [OF K1(1)] .
  let ?K2 = "K1\<lparr>registers := r, inHandler := True\<rparr>"
  have b2: "base X ?K2"
    using base_registers [OF K1(1) r(2)] base_misc(1) [of X True "K1\<lparr>registers := r\<rparr>"] by simp
  have d2: "due ?K2 \<noteq> []" "length (due ?K2) \<le> length (pending K1)"
    using K1(2,3) by (simp_all add: due_def)
  have "\<exists>K3. fire_due (length (pending K1)) ?K2 = Inr K3 \<and> base X K3 \<and> quiet ?K2 K3 \<and> due K3 = [] \<and> totalTicks K3 = totalTicks ?K2
      \<and> (status ?K2 = IdleMode \<longrightarrow> yieldOnReturn K3 = yieldOnReturn ?K2)"
    by (rule fire_due_ok [OF b2 _ _ d2]) (simp_all add: K1(5))
  then obtain K3 where K3: "fire_due (length (pending K1)) ?K2 = Inr K3" "base X K3" "quiet ?K2 K3" "due K3 = []"
    "totalTicks K3 = totalTicks K1" "status K = IdleMode \<longrightarrow> yieldOnReturn K3 = yieldOnReturn K"
    using K1(6,8) by auto
  let ?K = "K3\<lparr>inHandler := False\<rparr>"
  have "quiet K ?K"
    using K3(3) K1(7) assms(3) by (simp add: quiet_def) metis
  moreover have "Interrupt_CheckIfDue adv K = Inr (True, ?K)"
    using assms(2) p K3(1) r(1) by (auto simp: Interrupt_CheckIfDue_def K1_def [symmetric])
  moreover have "due ?K = due K3"
    by (simp add: due_def)
  ultimately show thesis
    using that [of True ?K] K3 K1(4) base_misc(1) by simp
qed

section \<open>Ticks in the range of \<^verbatim>\<open>int\<close>\<close>

text \<open>The model counts ticks without a bound. \<open>ticks_fit n K\<close>: the clock and the times of the pending interrupts are
  \<^verbatim>\<open>int\<close>s, and stay so when \<open>n\<close> is added.\<close>

definition ticks_fit :: "int \<Rightarrow> kernel \<Rightarrow> bool" where
  "ticks_fit n K \<longleftrightarrow> 0 \<le> idleTicks K \<and> idleTicks K \<le> totalTicks K \<and> totalTicks K + n < 2 ^ 31
     \<and> (\<forall>p \<in> set (pending K). 0 \<le> pi_when p \<and> pi_when p + n < 2 ^ 31)"

text \<open>What a handler keeps of the clock, and which times it may add.\<close>

definition clock_kept :: "kernel \<Rightarrow> kernel \<Rightarrow> bool" where
  "clock_kept K K' \<longleftrightarrow> totalTicks K' = totalTicks K \<and> idleTicks K' = idleTicks K \<and> randoms K' = randoms K
     \<and> (\<forall>p \<in> set (pending K'). p \<in> set (pending K) \<or> (totalTicks K < pi_when p \<and> pi_when p \<le> totalTicks K + TimerTicks * 2))"

lemma clock_kept_trans: "clock_kept K K1 \<Longrightarrow> clock_kept K1 K2 \<Longrightarrow> clock_kept K K2"
  unfolding clock_kept_def by auto

lemma V_body_clock: "V_body s K = Inr K' \<Longrightarrow> clock_kept K K'"
  by (auto simp: V_body_def clock_kept_def rbind_eq_Inr_iff Scheduler_ReadyToRun_def upd_thread_def set_sem_def put_thread_def
      split: if_splits prod.splits)

lemma Timer_CallBack_clock:
  assumes "Timer_CallBack K = Inr K'" and "\<forall>n. 0 \<le> randoms K n"
  shows "clock_kept K K'"
proof -
  obtain K1 where K1: "Alarm_CallBack K = Inr K1" "Timer_SetInterrupt K1 = Inr K'"
    using assms(1) by (auto simp: Timer_CallBack_def rbind_eq_Inr_iff)
  have "clock_kept K K1"
    using K1(1) by (auto simp: Alarm_CallBack_def Interrupt_YieldOnReturn_def clock_kept_def rbind_eq_Inr_iff split: if_splits)
  moreover have "clock_kept K1 K'"
  proof -
    have "0 \<le> randoms K1 (next_id K1)"
      using \<open>clock_kept K K1\<close> assms(2) by (simp add: clock_kept_def)
    then have "0 \<le> randoms K1 (next_id K1) smod 200" "randoms K1 (next_id K1) smod 200 < 200"
      by (simp_all add: smod_nonneg)
    then show ?thesis
      using K1(2) by (auto simp: Timer_SetInterrupt_def Interrupt_Schedule_def clock_kept_def rbind_eq_Inr_iff
          absl_Insert_def TimerTicks_def Let_def split: if_splits)
  qed
  ultimately show ?thesis
    by (rule clock_kept_trans)
qed

lemma fire_due_clock:
  assumes "fire_due n K = Inr K'" and "\<forall>n. 0 \<le> randoms K n"
  shows "clock_kept K K'"
  using assms
proof (induction n arbitrary: K)
  case (Suc n)
  then obtain p l K1 where p: "pending K = p # l" and K1: "CallBack (callOnInterrupt p) (K\<lparr>pending := l\<rparr>) = Inr K1"
    "K' = K1 \<or> fire_due n K1 = Inr K'"
    by (auto simp: rbind_eq_Inr_iff absl_RemoveFront_def split: list.splits if_splits)
  have "clock_kept (K\<lparr>pending := l\<rparr>) K1"
    using K1(1) Suc.prems(2) V_body_clock Timer_CallBack_clock by (auto simp: CallBack_def split: device.splits)
  then have "clock_kept K K1"
    using p by (auto simp: clock_kept_def)
  moreover have "clock_kept K1 K'"
  proof (cases "K' = K1")
    case False
    then show ?thesis
      using Suc.IH [of K1] K1(2) Suc.prems(2) \<open>clock_kept K K1\<close> by (simp add: clock_kept_def)
  qed (simp add: clock_kept_def)
  ultimately show ?case
    by (rule clock_kept_trans)
qed simp

lemma CheckIfDue_ticks:
  assumes "Interrupt_CheckIfDue adv K = Inr (b, K')" and "\<forall>n. 0 \<le> randoms K n" and "ticks_fit (TimerTicks * 2) K"
  shows "ticks_fit 0 K'"
proof (cases "b")
  case False
  then have "K' = K"
    using assms(1) by (auto simp: Interrupt_CheckIfDue_def rbind_eq_Inr_iff Let_def split: list.splits if_splits)
  then show ?thesis
    using assms(3) by (auto simp: ticks_fit_def TimerTicks_def)
next
  case True
  then obtain p l where p: "pending K = p # l"
    using assms(1) by (auto simp: Interrupt_CheckIfDue_def rbind_eq_Inr_iff split: list.splits)
  define K1 where "K1 = (if pi_when p > totalTicks K
      then K\<lparr>idleTicks := idleTicks K + (pi_when p - totalTicks K), totalTicks := pi_when p\<rparr> else K)"
  have k1: "ticks_fit (TimerTicks * 2) K1" "randoms K1 = randoms K"
    using assms(3) p by (auto simp: K1_def ticks_fit_def)
  obtain K2 K3 where K2: "Machine_DelayedLoad 0 0 K1 = Inr K2" "fire_due (length (pending K2)) (K2\<lparr>inHandler := True\<rparr>) = Inr K3"
    "K' = K3\<lparr>inHandler := False\<rparr>"
    using assms(1) p True by (auto simp: Interrupt_CheckIfDue_def rbind_eq_Inr_iff Let_def K1_def [symmetric] split: if_splits)
  have "pending K2 = pending K1" "totalTicks K2 = totalTicks K1" "idleTicks K2 = idleTicks K1" "randoms K2 = randoms K1"
    using K2(1) by (auto simp: Machine_DelayedLoad_def Let_def set_reg_def split: if_splits)
  then show ?thesis
    using fire_due_clock [OF K2(2)] K2(3) k1 assms(2) by (fastforce simp: clock_kept_def ticks_fit_def TimerTicks_def)
qed

section \<open>Switching\<close>

lemma FindNextToRun_ok:
  assumes "base X K" and "level K = IntOff" and "readyList K = t # l"
  shows "Scheduler_FindNextToRun K = Inr (Some t, K\<lparr>readyList := l\<rparr>)" "base (insert t X) (K\<lparr>readyList := l\<rparr>)"
    "\<not> placed (K\<lparr>readyList := l\<rparr>) t" "toBeDestroyed K \<noteq> Some t" "\<exists>th. threads K t = Some th"
proof -
  let ?K = "K\<lparr>readyList := l\<rparr>"
  show "Scheduler_FindNextToRun K = Inr (Some t, ?K)"
    using assms(2,3) by (simp add: Scheduler_FindNextToRun_def absl_RemoveFront_def)
  have p: "places_ok K" and o: "others_ok X K" and e: "env_ok K"
    using assms(1) by (simp_all add: base_def)
  have pl: "placed ?K u \<longleftrightarrow> placed K u \<and> u \<noteq> t" for u
    using p assms(3) unfolding places_ok_def placed_ready by (auto simp: placed_def)
  then show "\<not> placed ?K t"
    by simp
  have "placed K t"
    using assms(3) by (simp add: placed_def)
  then show "toBeDestroyed K \<noteq> Some t" "\<exists>th. threads K t = Some th"
    using toBeDestroyed_not_placed [OF assms(1)] by blast+
  have "places_ok ?K"
    using p pl assms(3) unfolding places_ok_def by auto
  moreover have "others_ok (insert t X) ?K"
    using o pl unfolding others_ok_def by auto
  moreover have "env_ok ?K"
    using e by (simp add: env_ok_def pending_ok_def queue_def)
  ultimately show "base (insert t X) ?K"
    using assms(1) by (simp add: base_def)
qed

text \<open>The current thread may give up the processor: it is finished, or in a list and resumes after \<^verbatim>\<open>SWITCH\<close>.\<close>

definition may_leave :: "kernel \<Rightarrow> nat \<Rightarrow> bool \<Rightarrow> bool" where
  "may_leave K t finishing \<longleftrightarrow>
     (if finishing then t \<noteq> currentThread K \<and> \<not> placed K (currentThread K)
      else stack_ok (next_id K) IntOff (cur_frames K) \<and> hd (cur_frames K) = FRunBack
        \<and> (t \<noteq> currentThread K \<longrightarrow> placed K (currentThread K))
        \<and> (\<forall>s. currentThread K \<in> set (queue K s) \<longrightarrow> (\<exists>fs. cur_frames K = FRunBack # FP s IntOn # fs)))"

lemma Run_result:
  assumes "base {t} K" and "level K = IntOff" and "toBeDestroyed K = None" and "threads K (currentThread K) = Some oh"
    and "threads K t = Some th"
  obtains oh' th' K' where "Scheduler_Run t finishing K = Inr K'"
    "K' = (K\<lparr>toBeDestroyed := (if finishing then Some (currentThread K) else None), currentThread := t,
        threads := (threads K)(currentThread K \<mapsto> oh', t \<mapsto> th')\<rparr>)"
    "frames oh' = frames oh" "fence oh' = fence oh" "space oh' = space oh"
    "space oh \<noteq> None \<longrightarrow> (\<forall>i < NumTotalRegs. userRegisters oh' i = registers K i)"
    "frames th' = frames th" "fence th' = fence th" "space th' = space th"
    "t \<noteq> currentThread K \<longrightarrow> userRegisters th' = userRegisters th" "t = currentThread K \<longrightarrow> userRegisters th' = userRegisters oh'"
    "t_status th' = RUNNING"
proof -
  let ?o = "currentThread K"
  define K1 where "K1 = (if finishing then K\<lparr>toBeDestroyed := Some ?o\<rparr> else K)"
  define oh' where "oh' = (if space oh \<noteq> None then Thread_SaveUserState K1 oh else oh)"
  define K2 where "K2 = (if space oh \<noteq> None then put_thread ?o (Thread_SaveUserState K1 oh) K1 else K1)"
  define th' where "th' = (if t = ?o then oh' else th)\<lparr>t_status := RUNNING\<rparr>"
  have "thread_ok oh"
    using assms(1,4) unfolding base_def others_ok_def by blast
  then have chk: "Thread_CheckOverflow oh = Inr ()"
    by (cases "fence oh") (simp_all add: Thread_CheckOverflow_def thread_ok_def)
  have s1: "(if finishing then rbind (ASSERT (toBeDestroyed K = None)) (\<lambda>_. Inr (K\<lparr>toBeDestroyed := Some ?o\<rparr>)) else Inr K) = Inr K1"
    using assms(3) by (simp add: K1_def)
  have s2: "get_thread K1 ?o = Inr oh"
    using assms(4) by (simp add: get_thread_def K1_def)
  have "threads K2 t = Some (if t = ?o then oh' else th)"
    using assms(4,5) by (auto simp: K2_def K1_def oh'_def put_thread_def)
  then have s3: "upd_thread t (\<lambda>th. th\<lparr>t_status := RUNNING\<rparr>) (K2\<lparr>currentThread := t\<rparr>) = Inr (put_thread t th' (K2\<lparr>currentThread := t\<rparr>))"
    by (simp add: upd_thread_def get_thread_def th'_def)
  have run: "Scheduler_Run t finishing K = Inr (put_thread t th' (K2\<lparr>currentThread := t\<rparr>))"
    unfolding Scheduler_Run_def Let_def s1 rbind_Inr s2 K2_def [symmetric] chk s3 using assms(2) by simp
  have shape: "put_thread t th' (K2\<lparr>currentThread := t\<rparr>) =
      K\<lparr>toBeDestroyed := (if finishing then Some ?o else None), currentThread := t, threads := (threads K)(?o \<mapsto> oh', t \<mapsto> th')\<rparr>"
    using assms(3,4) by (auto simp: put_thread_def K2_def K1_def oh'_def fun_upd_idem)
  show thesis
    by (rule that [OF run shape]) (use assms(4,5) in \<open>auto simp: oh'_def th'_def K1_def Thread_SaveUserState_def\<close>)
qed

lemma Run_ok:
  assumes b: "base {t} K" and "level K = IntOff" and "toBeDestroyed K = None" and "threads K t = Some th" and np: "\<not> placed K t"
    and leave: "may_leave K t finishing" and "\<not> inHandler K" "\<not> yieldOnReturn K"
  obtains K' where "Scheduler_Run t finishing K = Inr K'" "kinv K'" "currentThread K' = t" "halted K' = halted K"
proof -
  let ?o = "currentThread K"
  obtain oh where oh: "threads K ?o = Some oh"
    using b by (auto simp: base_def)
  obtain oh' th' K' where run: "Scheduler_Run t finishing K = Inr K'"
    and K': "K' = (K\<lparr>toBeDestroyed := (if finishing then Some ?o else None), currentThread := t,
        threads := (threads K)(?o \<mapsto> oh', t \<mapsto> th')\<rparr>)"
    and f: "frames oh' = frames oh" "fence oh' = fence oh" "space oh' = space oh"
    "space oh \<noteq> None \<longrightarrow> (\<forall>i < NumTotalRegs. userRegisters oh' i = registers K i)"
    "frames th' = frames th" "fence th' = fence th" "space th' = space th" "t \<noteq> ?o \<longrightarrow> userRegisters th' = userRegisters th"
    "t = ?o \<longrightarrow> userRegisters th' = userRegisters oh'"
    using Run_result [OF b assms(2,3) oh assms(4)] by metis
  have same: "queue K' = queue K" "placed K' = placed K" "readyList K' = readyList K" "next_id K' = next_id K" "level K' = level K"
    by (simp_all add: K' queue_def [abs_def] placed_def [abs_def])
  note o = b [unfolded base_def others_ok_def, THEN conjunct2, THEN conjunct1, rule_format]
  have fr: "cur_frames K = frames oh"
    by (simp add: cur_frames_def oh)
  have regs: "space oh' \<noteq> None \<longrightarrow> load_ok (userRegisters oh')"
    using f(3,4) b by (simp add: load_ok_def base_def env_ok_def)
  have "places_ok K'"
    using b leave unfolding base_def places_ok_def same may_leave_def by (auto simp: K')
  moreover have "others_ok {} K'"
    unfolding others_ok_def same
  proof (intro allI impI)
    fix u uh
    assume u: "threads K' u = Some uh"
    have "thread_ok uh \<and> u < next_id K"
      using u f(2,6) o [OF oh] o [OF assms(4)] o [of u uh] by (auto simp: K' thread_ok_def split: if_splits)
    moreover have "stack_ok (next_id K) IntOff (frames uh) \<and> hd (frames uh) \<in> {FRunBack, FBegin}
        \<and> (space uh \<noteq> None \<longrightarrow> load_ok (userRegisters uh)) \<and> (u \<notin> {} \<longrightarrow> placed K u)
        \<and> (\<forall>s. u \<in> set (queue K s) \<longrightarrow> (\<exists>fs. frames uh = FRunBack # FP s IntOn # fs))"
      if ne: "u \<noteq> currentThread K'" "toBeDestroyed K' \<noteq> Some u"
    proof (cases "u = ?o")
      case True
      then have "uh = oh'" "\<not> finishing"
        using u ne by (auto simp: K' split: if_splits)
      then show ?thesis
        using leave True ne(1) f(1) regs fr by (auto simp: may_leave_def K')
    next
      case False
      then have "threads K u = Some uh" "u \<noteq> t"
        using u ne(1) by (auto simp: K')
      then show ?thesis
        using o [of u uh] False assms(3) by auto
    qed
    ultimately show "thread_ok uh \<and> u < next_id K \<and> (u \<noteq> currentThread K' \<longrightarrow> toBeDestroyed K' \<noteq> Some u \<longrightarrow>
        stack_ok (next_id K) IntOff (frames uh) \<and> hd (frames uh) \<in> {FRunBack, FBegin}
        \<and> (space uh \<noteq> None \<longrightarrow> load_ok (userRegisters uh)) \<and> (u \<notin> {} \<longrightarrow> placed K u)
        \<and> (\<forall>s. u \<in> set (queue K s) \<longrightarrow> (\<exists>fs. frames uh = FRunBack # FP s IntOn # fs)))"
      by blast
  qed
  moreover have "env_ok K'"
    using b unfolding base_def env_ok_def pending_ok_def same by (simp add: K')
  ultimately have "base {} K'"
    by (simp add: base_def K')
  moreover have "stack_ok (next_id K) IntOff (frames th) \<and> hd (frames th) \<in> {FRunBack, FBegin}"
  proof (cases "t = ?o")
    case True
    then show ?thesis using leave oh assms(4) fr by (cases finishing) (auto simp: may_leave_def)
  next
    case False
    then show ?thesis using o [OF assms(4)] assms(3) by simp
  qed
  moreover have "cur_frames K' = frames th"
    by (simp add: cur_frames_def K' f(5))
  moreover have "resume_ok K'"
    using o [OF assms(4)] assms(3,4) oh f(3,7,8,9) regs by (cases "t = ?o") (auto simp: resume_ok_def K')
  ultimately have "kinv K'"
    using assms(2,7,8) np by (auto simp: kinv_def cur_ok_def same) (simp_all add: K')
  then show thesis
    using that run by (simp add: K')
qed

text \<open>A thread running kernel code: in no list, nobody to destroy.\<close>

definition calm :: "kernel \<Rightarrow> bool" where
  "calm K \<longleftrightarrow> base {} K \<and> \<not> inHandler K \<and> \<not> yieldOnReturn K \<and> toBeDestroyed K = None \<and> \<not> placed K (currentThread K)"

lemma resume_okI: "hd (cur_frames K) \<noteq> FRunBack \<Longrightarrow> resume_ok K"
  by (auto simp: resume_ok_def cur_frames_def)

lemma kinvI:
  "calm K \<Longrightarrow> stack_ok (next_id K) (level K) (cur_frames K) \<Longrightarrow> hd (cur_frames K) \<notin> {FSleep False, FRunBack} \<Longrightarrow> kinv K"
  by (simp add: kinv_def calm_def cur_ok_def resume_okI)

lemma kinv_IntOn: "calm K \<Longrightarrow> level K = IntOn \<Longrightarrow> stack_ok (next_id K) IntOn (cur_frames K) \<Longrightarrow> kinv K"
  using stack_ok_IntOn by (intro kinvI) auto

lemma calm_push:
  assumes "calm K"
  obtains K' where "push_frames fs K = Inr K'" "calm K'" "cur_frames K' = fs @ cur_frames K" "\<exists>th. K' = put_thread (currentThread K) th K"
proof -
  have "base {} K"
    using assms by (simp add: calm_def)
  then obtain K' where K': "push_frames fs K = Inr K'" "base {} K'" "cur_frames K' = fs @ cur_frames K"
    "\<exists>th. K' = put_thread (currentThread K) th K"
    using push_frames_ok by blast
  then show thesis
    using that assms by (auto simp: calm_def)
qed

lemma calm_simps [simp]: "calm (K\<lparr>level := lv\<rparr>) = calm K" "calm (K\<lparr>status := st\<rparr>) = calm K"
  "calm (K\<lparr>lockHolder := h\<rparr>) = calm K" "calm (K\<lparr>installed := a\<rparr>) = calm K"
  "calm (K\<lparr>halted := b\<rparr>) = calm K"
  by (simp_all add: calm_def base_misc)

lemma cur_frames_simps [simp]: "cur_frames (K\<lparr>level := lv\<rparr>) = cur_frames K" "cur_frames (K\<lparr>status := st\<rparr>) = cur_frames K"
  "cur_frames (K\<lparr>lockHolder := h\<rparr>) = cur_frames K" "cur_frames (K\<lparr>readyList := l\<rparr>) = cur_frames K"
  "cur_frames (K\<lparr>yieldOnReturn := b\<rparr>) = cur_frames K" "cur_frames (K\<lparr>registers := r\<rparr>) = cur_frames K"
  "cur_frames (K\<lparr>installed := a\<rparr>) = cur_frames K" "cur_frames (K\<lparr>halted := b\<rparr>) = cur_frames K"
  by (simp_all add: cur_frames_def)

lemma Yield_ok:
  assumes c: "calm K" and "level K = IntOn" and st: "stack_ok (next_id K) IntOn (cur_frames K)"
  obtains K' where "Thread_Yield K = Inr K'" "kinv K'" "halted K' = halted K"
proof (cases "readyList K")
  case Nil
  have "calm (Interrupt_ChangeLevel IntOff K)"
    using c by (simp add: Interrupt_ChangeLevel_def)
  then obtain K' where K': "push_frames [FSetLevel IntOn] (Interrupt_ChangeLevel IntOff K) = Inr K'" "calm K'"
    "cur_frames K' = FSetLevel IntOn # cur_frames (Interrupt_ChangeLevel IntOff K)"
    "\<exists>th. K' = put_thread (currentThread (Interrupt_ChangeLevel IntOff K)) th (Interrupt_ChangeLevel IntOff K)"
    using calm_push [of "Interrupt_ChangeLevel IntOff K" "[FSetLevel IntOn]"] by auto
  then have "kinv K'"
    using st by (intro kinvI) (auto simp: Interrupt_ChangeLevel_def)
  moreover have "Thread_Yield K = Inr K'"
    using Nil K'(1) assms(2) by (simp add: Thread_Yield_def Scheduler_FindNextToRun_def Interrupt_ChangeLevel_def)
  ultimately show thesis
    using that K'(4) by (auto simp: Interrupt_ChangeLevel_def)
next
  case (Cons t l)
  define K0 where "K0 = Interrupt_ChangeLevel IntOff K"
  let ?o = "currentThread K"
  have c0: "calm K0" "level K0 = IntOff" "readyList K0 = t # l" "cur_frames K0 = cur_frames K" "currentThread K0 = ?o"
    "next_id K0 = next_id K" "halted K0 = halted K"
    using c Cons by (simp_all add: K0_def Interrupt_ChangeLevel_def)
  then have b0: "base {} K0" and np: "\<not> placed K0 ?o" and tb: "toBeDestroyed K0 = None"
    by (auto simp: calm_def)
  define K1 where "K1 = K0\<lparr>readyList := l\<rparr>"
  note fn = FindNextToRun_ok [OF b0 c0(2,3), folded K1_def]
  have "placed K0 t"
    using c0(3) by (simp add: placed_def)
  then have to: "t \<noteq> ?o"
    using np by auto
  have K1: "level K1 = IntOff" "toBeDestroyed K1 = None" "currentThread K1 = ?o" "cur_frames K1 = cur_frames K" "next_id K1 = next_id K"
    "\<not> inHandler K1" "\<not> yieldOnReturn K1" "halted K1 = halted K"
    using c0 tb by (simp_all add: K1_def calm_def)
  have npo: "\<not> placed K1 ?o"
    using np by (auto simp: K1_def placed_def c0(3))
  obtain oh where oh: "threads K1 ?o = Some oh"
    using fn(2) K1(3) by (auto simp: base_def)
  obtain K2 where K2: "Scheduler_ReadyToRun ?o K1 = Inr K2" "base ({t} - {?o}) K2"
    "K2 = (put_thread ?o (oh\<lparr>t_status := READY\<rparr>) K1)\<lparr>readyList := readyList K1 @ [?o]\<rparr>"
    using ReadyToRun_ok [OF fn(2) K1(1) oh npo] K1(2) by auto
  have b2: "base {t} K2"
    using K2(2) by (rule base_mono) auto
  have K2s: "level K2 = IntOff" "toBeDestroyed K2 = None" "currentThread K2 = ?o" "cur_frames K2 = cur_frames K" "next_id K2 = next_id K"
    "\<not> inHandler K2" "\<not> yieldOnReturn K2" "halted K2 = halted K" "queue K2 = queue K1"
    using K1 oh by (simp_all add: K2(3) cur_frames_def queue_def [abs_def])
  obtain K3 where K3: "push_frames [FRunBack, FSetLevel IntOn] K2 = Inr K3" "base {t} K3"
    "cur_frames K3 = [FRunBack, FSetLevel IntOn] @ cur_frames K2" "\<exists>th. K3 = put_thread (currentThread K2) th K2"
    using push_frames_ok [OF b2] by blast
  have K3s: "level K3 = IntOff" "toBeDestroyed K3 = None" "currentThread K3 = ?o" "next_id K3 = next_id K" "\<not> inHandler K3"
    "\<not> yieldOnReturn K3" "halted K3 = halted K" "queue K3 = queue K1" "placed K3 = placed K2"
    using K3(4) K2s by auto
  have np3: "\<not> placed K3 t"
    using fn(3) to unfolding K3s(9) by (simp add: placed_def K2s(9) K2(3))
  obtain th where th: "threads K t = Some th"
    using fn(5) by (auto simp: K0_def Interrupt_ChangeLevel_def)
  then have th3: "\<exists>th. threads K3 t = Some th"
    using K3(4) to by (auto simp: K2(3) K1_def K0_def Interrupt_ChangeLevel_def K2s(3))
  have "may_leave K3 t False"
    using st K3(3) K2s(4) npo unfolding may_leave_def K3s by (auto simp: placed_def K2(3))
  then obtain K' where "Scheduler_Run t False K3 = Inr K'" "kinv K'" "halted K' = halted K3"
    using Run_ok [OF K3(2) K3s(1,2) _ np3 _ K3s(5,6)] th3 by blast
  moreover have "Thread_Yield K = Scheduler_Run t False K3"
    using fn(1) K2(1) K3(1) assms(2) K1(3) by (simp add: Thread_Yield_def Let_def K0_def [symmetric])
  ultimately show thesis
    using that K3s(7) by simp
qed

lemma OneTick_ok:
  assumes c: "calm K" and st: "stack_ok (next_id K) IntOn (cur_frames K)"
  obtains K' where "Interrupt_OneTick K = Inr K'" "kinv K'" "halted K' = halted K"
proof -
  define K1 where "K1 = (if status K = SystemMode
      then K\<lparr>totalTicks := totalTicks K + SystemTick, systemTicks := systemTicks K + SystemTick\<rparr>
      else K\<lparr>totalTicks := totalTicks K + UserTick, userTicks := userTicks K + UserTick\<rparr>)"
  define K2 where "K2 = Interrupt_ChangeLevel IntOff K1"
  have b: "base {} K2" "level K2 = IntOff" "\<not> inHandler K2"
    using c by (auto simp: K2_def K1_def Interrupt_ChangeLevel_def calm_def base_misc)
  have same: "toBeDestroyed K2 = None" "\<not> placed K2 (currentThread K2)" "cur_frames K2 = cur_frames K" "next_id K2 = next_id K"
    "halted K2 = halted K"
    using c by (auto simp: K2_def K1_def Interrupt_ChangeLevel_def calm_def placed_def queue_def cur_frames_def)
  obtain d K3 where K3: "Interrupt_CheckIfDue False K2 = Inr (d, K3)" "base {} K3" "quiet K2 K3"
    using CheckIfDue_ok [OF b] by metis
  have cf: "cur_frames K3 = cur_frames K"
    using quiet_cur_frames [OF K3(3)] b(1) same(3) by (simp add: base_def)
  have K3s: "toBeDestroyed K3 = None" "\<not> placed K3 (currentThread K3)" "\<not> inHandler K3" "next_id K \<le> next_id K3" "halted K3 = halted K"
    using K3(3) same b(3) by (auto simp: quiet_def)
  have st3: "stack_ok (next_id K3) IntOn (cur_frames K3)"
    using st K3s(4) cf by (auto intro: stack_ok_mono)
  define K4 where "K4 = Interrupt_ChangeLevel IntOn K3"
  have tick: "Interrupt_OneTick K = (if yieldOnReturn K4
      then rbind (push_frames [FStatus (status K)] (K4\<lparr>yieldOnReturn := False, status := SystemMode\<rparr>)) Thread_Yield else Inr K4)"
    unfolding Interrupt_OneTick_def Let_def K1_def [symmetric] K2_def [symmetric] K3(1) by (simp add: K4_def)
  show thesis
  proof (cases "yieldOnReturn K4")
    case False
    then have "calm K4"
      using K3(2) K3s by (simp add: calm_def K4_def Interrupt_ChangeLevel_def base_misc)
    then have "kinv K4"
      using st3 by (intro kinv_IntOn) (simp_all add: K4_def Interrupt_ChangeLevel_def)
    then show thesis
      using that tick False K3s(5) by (simp add: K4_def Interrupt_ChangeLevel_def)
  next
    case True
    let ?K5 = "K4\<lparr>yieldOnReturn := False, status := SystemMode\<rparr>"
    have "calm ?K5"
      using K3(2) K3s by (simp add: calm_def K4_def Interrupt_ChangeLevel_def base_misc base_yield)
    then obtain K6 where K6: "push_frames [FStatus (status K)] ?K5 = Inr K6" "calm K6"
      "cur_frames K6 = [FStatus (status K)] @ cur_frames ?K5" "\<exists>th. K6 = put_thread (currentThread ?K5) th ?K5"
      using calm_push by blast
    have "level K6 = IntOn" "stack_ok (next_id K6) IntOn (cur_frames K6)"
      using K6(3,4) st3 by (auto simp: K4_def Interrupt_ChangeLevel_def)
    then obtain K' where "Thread_Yield K6 = Inr K'" "kinv K'" "halted K' = halted K6"
      using Yield_ok [OF K6(2)] by blast
    then show thesis
      using that tick True K6(1,4) K3s(5) by (auto simp: K4_def Interrupt_ChangeLevel_def)
  qed
qed

lemma SetLevel_ok:
  assumes "calm K" and "level K = IntOff" and "stack_ok (next_id K) IntOn (cur_frames K)"
  obtains K' where "Interrupt_SetLevel IntOn K = Inr K'" "kinv K'" "halted K' = halted K"
proof -
  let ?K = "Interrupt_ChangeLevel IntOn K"
  have "calm ?K" "stack_ok (next_id ?K) IntOn (cur_frames ?K)"
    using assms by (simp_all add: Interrupt_ChangeLevel_def)
  then obtain K' where "Interrupt_OneTick ?K = Inr K'" "kinv K'" "halted K' = halted ?K"
    using OneTick_ok by blast
  then show thesis
    using that assms by (simp add: Interrupt_SetLevel_def calm_def) (simp add: Interrupt_ChangeLevel_def)
qed

section \<open>Sleeping\<close>

text \<open>The state in the loop of \<^verbatim>\<open>Sleep\<close>, with the frame of the loop taken off.\<close>

definition in_sleep :: "bool \<Rightarrow> kernel \<Rightarrow> bool" where
  "in_sleep finishing K \<longleftrightarrow> base {} K \<and> \<not> inHandler K \<and> \<not> yieldOnReturn K \<and> toBeDestroyed K = None \<and> level K = IntOff
     \<and> (if finishing then \<not> placed K (currentThread K)
        else \<exists>s fs. cur_frames K = FP s IntOn # fs \<and> stack_ok (next_id K) IntOff (cur_frames K) \<and> asleep K s)"

lemma asleep_placed: "asleep K s \<Longrightarrow> placed K (currentThread K)"
  by (auto simp: asleep_def placed_def)

lemma Sleep_idle:
  assumes "in_sleep finishing K"
  obtains K' where "rbind (push_frames [FSleep finishing] K) Interrupt_Idle = Inr K'" "kinv K'"
proof -
  have b: "base {} K"
    using assms by (simp add: in_sleep_def)
  obtain K1 where K1: "push_frames [FSleep finishing] K = Inr K1" "base {} K1" "cur_frames K1 = [FSleep finishing] @ cur_frames K"
    "\<exists>th. K1 = put_thread (currentThread K) th K"
    using push_frames_ok [OF b] by blast
  define K2 where "K2 = K1\<lparr>status := IdleMode\<rparr>"
  have K2: "base {} K2" "level K2 = IntOff" "\<not> inHandler K2" "\<not> yieldOnReturn K2" "toBeDestroyed K2 = None"
    using K1(2,4) assms by (auto simp: K2_def base_misc in_sleep_def)
  have "cur_ok K2 (cur_frames K2)"
    using assms K1(3,4) by (auto simp: cur_ok_def K2_def in_sleep_def asleep_def)
  obtain d K3 where K3: "Interrupt_CheckIfDue True K2 = Inr (d, K3)" "base {} K3" "quiet K2 K3"
    "status K2 = IdleMode \<longrightarrow> yieldOnReturn K3 = yieldOnReturn K2"
    using CheckIfDue_ok [OF K2(1-3)] by metis
  have cf: "cur_frames K3 = cur_frames K2"
    using quiet_cur_frames [OF K3(3)] K2(1) by (simp add: base_def)
  have "cur_ok K3 (cur_frames K3)"
    using \<open>cur_ok K2 (cur_frames K2)\<close> K3(3) K2(5) unfolding cf cur_ok_def quiet_def
    by (auto intro: stack_ok_mono split: if_splits)
  moreover have "hd (cur_frames K3) \<noteq> FRunBack"
    using K1(3) by (simp add: cf K2_def)
  ultimately have "kinv K3"
    using K3 K2 by (auto simp: kinv_def quiet_def K2_def resume_okI)
  then have "kinv (K3\<lparr>status := SystemMode\<rparr>)" "kinv (K3\<lparr>halted := True\<rparr>)"
    by (auto simp: kinv_def base_misc cur_ok_def resume_ok_def split: if_splits)
  then show thesis
    using that K1(1) K3(1) by (cases d) (auto simp: Interrupt_Idle_def Interrupt_Halt_def K2_def)
qed

lemma Sleep_loop_ok:
  assumes "in_sleep finishing K"
  obtains K' where "Thread_Sleep_loop finishing K = Inr K'" "kinv K'"
proof (cases "readyList K")
  case Nil
  obtain K' where "rbind (push_frames [FSleep finishing] K) Interrupt_Idle = Inr K'" "kinv K'"
    using Sleep_idle [OF assms] .
  then show thesis
    using that Nil assms by (simp add: Thread_Sleep_loop_def Scheduler_FindNextToRun_def in_sleep_def)
next
  case (Cons t l)
  let ?o = "currentThread K"
  have K: "base {} K" "level K = IntOff" "toBeDestroyed K = None" "\<not> inHandler K" "\<not> yieldOnReturn K"
    using assms by (simp_all add: in_sleep_def)
  define K1 where "K1 = K\<lparr>readyList := l\<rparr>"
  note fn = FindNextToRun_ok [OF K(1,2) Cons, folded K1_def]
  obtain K2 where K2: "push_frames [FRunBack] K1 = Inr K2" "base {t} K2" "cur_frames K2 = [FRunBack] @ cur_frames K1"
    "\<exists>th. K2 = put_thread (currentThread K1) th K1"
    using push_frames_ok [OF fn(2)] by blast
  have K2s: "level K2 = IntOff" "toBeDestroyed K2 = None" "currentThread K2 = ?o" "next_id K2 = next_id K" "\<not> inHandler K2"
    "\<not> yieldOnReturn K2" "queue K2 = queue K" "placed K2 = placed K1" "cur_frames K1 = cur_frames K"
    using K2(4) K by (auto simp: K1_def)
  have np: "\<not> placed K2 t"
    using fn(3) by (simp add: K2s(8))
  obtain th where th: "threads K2 t = Some th"
    using fn(5) K2(4) by (cases "t = ?o") (auto simp: K1_def)
  have "may_leave K2 t finishing"
  proof (cases finishing)
    case True
    then have "\<not> placed K ?o"
      using assms by (simp add: in_sleep_def)
    moreover have "placed K t"
      using Cons by (simp add: placed_def)
    ultimately show ?thesis
      using True K2s(3,8) by (auto simp: may_leave_def K1_def placed_ready) (auto simp: placed_def Cons)
  next
    case False
    then obtain s fs where s: "cur_frames K = FP s IntOn # fs" "stack_ok (next_id K) IntOff (cur_frames K)" "asleep K s"
      using assms by (auto simp: in_sleep_def)
    have "placed K2 ?o" if "t \<noteq> ?o"
      using asleep_placed [OF s(3)] that by (auto simp: K2s(8) K1_def placed_def Cons)
    moreover have "s' = s" if "?o \<in> set (queue K s')" for s'
      using s(3) that by (auto simp: asleep_def)
    ultimately show ?thesis
      using False s(1,2) K2(3) unfolding may_leave_def K2s by auto
  qed
  then obtain K' where "Scheduler_Run t finishing K2 = Inr K'" "kinv K'"
    using Run_ok [OF K2(2) K2s(1,2) th np _ K2s(5,6)] by blast
  then show thesis
    using that fn(1) K2(1) by (simp add: Thread_Sleep_loop_def)
qed

section \<open>The frames\<close>

lemma calm_quiet:
  assumes "calm K" and "base {} K'" and "quiet K K'" and "yieldOnReturn K' = yieldOnReturn K"
  shows "calm K'" "cur_frames K' = cur_frames K" "level K' = level K" "next_id K \<le> next_id K'"
  using assms quiet_cur_frames [OF assms(3)] by (auto simp: calm_def quiet_def base_def)

lemma calm_push_kinv:
  assumes "calm K" and "stack_ok (next_id K) (level K) (fs @ cur_frames K)" and "hd (fs @ cur_frames K) \<notin> {FSleep False, FRunBack}"
  obtains K' where "push_frames fs K = Inr K'" "kinv K'"
proof -
  obtain K' where K': "push_frames fs K = Inr K'" "calm K'" "cur_frames K' = fs @ cur_frames K" "\<exists>th. K' = put_thread (currentThread K) th K"
    using calm_push [OF assms(1)] .
  then have "kinv K'"
    using assms(2,3) by (intro kinvI) auto
  then show thesis
    using that K'(1) by blast
qed

lemma CheckToBeDestroyed_ok:
  assumes "base {} K" and "\<not> inHandler K" "\<not> yieldOnReturn K" "\<not> placed K (currentThread K)"
  obtains K' where "Scheduler_CheckToBeDestroyed K = Inr K'" "calm K'" "level K' = level K" "cur_frames K' = cur_frames K"
    "next_id K' = next_id K" "threads K' (currentThread K') = threads K (currentThread K)" "currentThread K' = currentThread K"
proof (cases "toBeDestroyed K")
  case None
  then show thesis
    using that [of K] assms by (simp add: Scheduler_CheckToBeDestroyed_def calm_def)
next
  case (Some d)
  let ?K = "K\<lparr>threads := (threads K)(d := None), toBeDestroyed := None\<rparr>"
  have d: "d \<noteq> currentThread K" "\<not> placed K d"
    using assms(1) Some by (auto simp: base_def places_ok_def)
  have same: "queue ?K = queue K" "placed ?K = placed K"
    by (simp_all add: queue_def [abs_def] placed_def [abs_def])
  have "places_ok ?K"
    using assms(1) d(2) unfolding base_def places_ok_def same by auto
  moreover have "others_ok {} ?K"
    using assms(1) Some unfolding base_def others_ok_def same by auto
  moreover have "env_ok ?K"
    using assms(1) unfolding base_def env_ok_def pending_ok_def same by simp
  ultimately have "calm ?K"
    using assms d(1) by (auto simp: calm_def base_def same)
  then show thesis
    by (rule_tac that [of ?K]) (use Some d(1) in \<open>simp_all add: Scheduler_CheckToBeDestroyed_def Thread_delete_def cur_frames_def\<close>)
qed

lemma Run_back_ok:
  assumes "base {} K" and "\<not> inHandler K" "\<not> yieldOnReturn K" "\<not> placed K (currentThread K)" and "level K = IntOff"
    and "stack_ok (next_id K) IntOff (cur_frames K)" and "hd (cur_frames K) \<notin> {FSleep False, FRunBack}"
    and "\<And>th. threads K (currentThread K) = Some th \<Longrightarrow> space th \<noteq> None \<Longrightarrow> load_ok (userRegisters th)"
  obtains K' where "Scheduler_Run_back K = Inr K'" "kinv K'"
proof -
  obtain K1 where K1: "Scheduler_CheckToBeDestroyed K = Inr K1" "calm K1" "level K1 = level K" "cur_frames K1 = cur_frames K"
    "next_id K1 = next_id K" "threads K1 (currentThread K1) = threads K (currentThread K)"
    using CheckToBeDestroyed_ok [OF assms(1-4)] by metis
  obtain th where th: "threads K1 (currentThread K1) = Some th"
    using K1(2) by (auto simp: calm_def base_def)
  define r where "r = (\<lambda>i. if i < NumTotalRegs then userRegisters th i else registers K1 i)"
  define K2 where "K2 = (if space th \<noteq> None then K1\<lparr>registers := r, installed := space th\<rparr> else K1)"
  have "load_ok r" if "space th \<noteq> None"
    using assms(8) [of th] K1(6) th that by (simp add: load_ok_def r_def)
  then have "calm K2"
    using K1(2) base_registers [of "{}" K1 r] by (auto simp: K2_def calm_def base_misc)
  moreover have "cur_frames K2 = cur_frames K" "level K2 = IntOff" "next_id K2 = next_id K"
    using K1 assms(5) by (simp_all add: K2_def)
  ultimately have "kinv K2"
    using assms(6,7) by (intro kinvI) auto
  moreover have "Scheduler_Run_back K = Inr K2"
    using assms(5) K1(1) th by (simp add: Scheduler_Run_back_def get_thread_def Thread_RestoreUserState_def K2_def r_def)
  ultimately show thesis
    using that by blast
qed

lemma base_enqueue:
  assumes "calm K" and "\<forall>w. s = Waiter w \<longrightarrow> w < next_id K"
  defines "K' \<equiv> set_sem s ((sems K s)\<lparr>sem_queue := queue K s @ [currentThread K]\<rparr>) K"
  shows "base {} K'" "asleep K' s"
proof -
  let ?o = "currentThread K"
  have q: "queue K' s' = (if s' = s then queue K s @ [?o] else queue K s')" for s'
    by (simp add: K'_def queue_def set_sem_def)
  have same: "threads K' = threads K" "currentThread K' = ?o" "readyList K' = readyList K" "toBeDestroyed K' = toBeDestroyed K"
    "next_id K' = next_id K"
    by (simp_all add: K'_def set_sem_def)
  have np: "?o \<notin> set (readyList K)" "\<And>s'. ?o \<notin> set (queue K s')" and b: "base {} K" and tb: "toBeDestroyed K = None"
    using assms(1) by (auto simp: calm_def placed_def)
  have pl: "placed K' u \<longleftrightarrow> placed K u \<or> u = ?o" for u
    by (auto simp: placed_def q same)
  have "places_ok K'"
    using b np tb unfolding base_def places_ok_def pl unfolding q same by auto
  moreover have "others_ok {} K'"
    using b tb unfolding base_def others_ok_def pl unfolding q same by auto
  moreover have "env_ok K'"
    using b assms(2) unfolding base_def env_ok_def pending_ok_def q by (auto simp: K'_def set_sem_def)
  ultimately show "base {} K'"
    using b by (simp add: base_def same)
  show "asleep K' s"
    using np by (auto simp: asleep_def same q)
qed

lemma P_loop_ok:
  assumes "calm K" and "level K = IntOff" and st: "stack_ok (next_id K) IntOn (cur_frames K)" and w: "\<forall>w. s = Waiter w \<longrightarrow> w < next_id K"
  obtains K' where "Semaphore_P_loop s IntOn K = Inr K'" "kinv K'"
proof (cases "sem_value (sems K s) = 0")
  case False
  let ?v = "sem_value (sems K s) - 1"
  have b: "base {} K"
    using assms(1) by (simp add: calm_def)
  then have "0 \<le> sem_value (sems K s)"
    by (simp add: base_def env_ok_def)
  then have "0 \<le> ?v"
    using False by simp
  note bv = base_set_value [OF b this, of s]
  have c: "calm (set_sem s ((sems K s)\<lparr>sem_value := ?v\<rparr>) K)" "cur_frames (set_sem s ((sems K s)\<lparr>sem_value := ?v\<rparr>) K) = cur_frames K"
    using calm_quiet [OF assms(1) bv] by (simp_all add: set_sem_def)
  obtain K' where "push_frames [FSetLevel IntOn] (set_sem s ((sems K s)\<lparr>sem_value := ?v\<rparr>) K) = Inr K'" "kinv K'"
    by (rule calm_push_kinv [OF c(1), of "[FSetLevel IntOn]"]) (use c(2) st assms(2) in \<open>simp_all add: set_sem_def\<close>)
  then show thesis
    using that False by (simp add: Semaphore_P_loop_def)
next
  case True
  define K1 where "K1 = set_sem s ((sems K s)\<lparr>sem_queue := queue K s @ [currentThread K]\<rparr>) K"
  note be = base_enqueue [OF assms(1) w, folded K1_def]
  have K1: "level K1 = IntOff" "cur_frames K1 = cur_frames K" "toBeDestroyed K1 = None" "\<not> inHandler K1" "\<not> yieldOnReturn K1"
    "next_id K1 = next_id K" "currentThread K1 = currentThread K"
    using assms(1,2) by (simp_all add: K1_def set_sem_def cur_frames_def calm_def)
  obtain K2 where K2: "push_frames [FP s IntOn] K1 = Inr K2" "base {} K2" "cur_frames K2 = FP s IntOn # cur_frames K"
    "\<exists>th. K2 = put_thread (currentThread K1) th K1"
    using push_frames_ok [OF be(1), of "[FP s IntOn]"] K1(2) by auto
  obtain th where th: "threads K2 (currentThread K2) = Some th" "thread_ok th"
    using cur_thread [OF K2(2)] .
  define K3 where "K3 = put_thread (currentThread K2) (th\<lparr>t_status := BLOCKED\<rparr>) K2"
  have b3: "base {} K3"
    using base_put_cur [OF K2(2)] th(2) by (simp add: K3_def thread_ok_def)
  have K3: "cur_frames K3 = FP s IntOn # cur_frames K"
    using th(1) K2(3) by (simp add: K3_def cur_frames_def)
  obtain K4 where K4: "push_frames [FSleep False] K3 = Inr K4" "base {} K4" "cur_frames K4 = FSleep False # FP s IntOn # cur_frames K"
    "\<exists>th. K4 = put_thread (currentThread K3) th K3"
    using push_frames_ok [OF b3, of "[FSleep False]"] K3 by auto
  have "asleep K4 s"
    using be(2) K4(4) K2(4) by (auto simp: asleep_def K3_def)
  then have "kinv K4"
    using K4 K2(4) K1 st w by (auto simp: kinv_def cur_ok_def K3_def resume_okI)
  moreover have "currentThread K \<notin> set (sem_queue (sems K s))"
    using assms(1) by (auto simp: calm_def placed_def queue_def)
  then have "Semaphore_P_loop s IntOn K = Inr K4"
    using True K2(1,4) K4(1) th(1) K1(1)
    by (auto simp: Semaphore_P_loop_def absl_Append_def K1_def queue_def Thread_Sleep_def upd_thread_Some K3_def)
  ultimately show thesis
    using that by blast
qed

section \<open>The operations\<close>

lemma restore_level_ok:
  assumes "calm K" and "level K = IntOff" and "stack_ok (next_id K) IntOn (cur_frames K)"
  obtains K' where "push_frames [FSetLevel IntOn] K = Inr K'" "kinv K'"
  by (rule calm_push_kinv [OF assms(1), of "[FSetLevel IntOn]"]) (use assms in simp_all)

lemma calm_cur_ok: "calm K \<Longrightarrow> base {} K \<and> threads K (currentThread K) \<noteq> None"
  by (simp add: calm_def base_def)

lemma Semaphore_V_ok:
  assumes "calm K" and "level K = IntOn" and "stack_ok (next_id K) IntOn (cur_frames K)"
  shows "\<exists>K'. Semaphore_V s K = Inr K' \<and> kinv K'"
proof -
  let ?K0 = "Interrupt_ChangeLevel IntOff K"
  have K0: "calm ?K0" "level ?K0 = IntOff" "cur_frames ?K0 = cur_frames K" "next_id ?K0 = next_id K"
    using assms(1) by (simp_all add: Interrupt_ChangeLevel_def)
  then obtain K1 where K1: "V_body s ?K0 = Inr K1" "base {} K1" "quiet ?K0 K1" "yieldOnReturn K1 = yieldOnReturn ?K0"
    using V_body_ok [of "{}" ?K0 s] by (metis calm_def)
  note q = calm_quiet [OF K0(1) K1(2-4)]
  have "stack_ok (next_id K1) IntOn (cur_frames K1)"
    using assms(3) q(2,4) K0(3,4) by (auto intro: stack_ok_mono)
  then obtain K' where "push_frames [FSetLevel IntOn] K1 = Inr K'" "kinv K'"
    using restore_level_ok [OF q(1)] q(3) K0(2) by auto
  then show ?thesis
    using K1(1) assms(2) by (simp add: Semaphore_V_def)
qed

lemma Semaphore_P_ok:
  assumes "calm K" and "level K = IntOn" and "stack_ok (next_id K) IntOn (cur_frames K)" and "\<forall>w. s = Waiter w \<longrightarrow> w < next_id K"
  shows "\<exists>K'. Semaphore_P s K = Inr K' \<and> kinv K'"
proof -
  let ?K0 = "Interrupt_ChangeLevel IntOff K"
  have K0: "calm ?K0" "level ?K0 = IntOff" "cur_frames ?K0 = cur_frames K" "next_id ?K0 = next_id K"
    using assms(1) by (simp_all add: Interrupt_ChangeLevel_def)
  obtain K' where "push_frames [FP s IntOn] ?K0 = Inr K'" "kinv K'"
    by (rule calm_push_kinv [OF K0(1), of "[FP s IntOn]"]) (use K0 assms in simp_all)
  then show ?thesis
    using assms(2) by (simp add: Semaphore_P_def)
qed

lemma base_new_thread:
  assumes "calm K" and "list_all (op_ok (next_id K)) func"
  defines "t \<equiv> next_id K"
  assumes K1_def: "K1 = put_thread t (Thread_new func junk) (K\<lparr>next_id := Suc t\<rparr>)"
  shows "base {t} K1" "\<not> placed K1 t" "t \<noteq> currentThread K" "cur_frames K1 = cur_frames K"
proof -
  have b: "base {} K" "toBeDestroyed K = None"
    using assms(1) by (simp_all add: calm_def)
  have new: "threads K t = None"
    using b(1) unfolding base_def others_ok_def t_def by (metis not_None_eq less_irrefl)
  show nc: "t \<noteq> currentThread K"
    using new b(1) by (auto simp: base_def)
  show "cur_frames K1 = cur_frames K"
    using nc by (simp add: K1_def cur_frames_def)
  have same: "queue K1 = queue K" "placed K1 = placed K" "readyList K1 = readyList K" "currentThread K1 = currentThread K"
    "toBeDestroyed K1 = None" "next_id K1 = Suc (next_id K)"
    using b(2) by (simp_all add: K1_def t_def put_thread_def queue_def [abs_def] placed_def [abs_def])
  have np: "\<not> placed K t"
    using new b(1) by (auto simp: base_def places_ok_def)
  then show "\<not> placed K1 t"
    by (simp add: same)
  have "places_ok K1"
    using b unfolding base_def places_ok_def same by (auto simp: K1_def)
  moreover have "others_ok {t} K1"
    unfolding others_ok_def same
  proof (intro allI impI)
    fix u uh
    assume u: "threads K1 u = Some uh"
    show "thread_ok uh \<and> u < Suc (next_id K) \<and> (u \<noteq> currentThread K \<longrightarrow> None \<noteq> Some u \<longrightarrow>
        stack_ok (Suc (next_id K)) IntOff (frames uh) \<and> hd (frames uh) \<in> {FRunBack, FBegin}
        \<and> (space uh \<noteq> None \<longrightarrow> load_ok (userRegisters uh)) \<and> (u \<notin> {t} \<longrightarrow> placed K u)
        \<and> (\<forall>s. u \<in> set (queue K s) \<longrightarrow> (\<exists>fs. frames uh = FRunBack # FP s IntOn # fs)))"
    proof (cases "u = t")
      case True
      then have "uh = Thread_new func junk"
        using u by (simp add: K1_def)
      moreover have "\<forall>s. u \<notin> set (queue K s)"
        using np True by (auto simp: placed_def)
      ultimately show ?thesis
        using True ops_ok_mono [OF assms(2), of "Suc (next_id K)"] by (simp add: Thread_new_def thread_ok_def t_def)
    next
      case False
      then have "threads K u = Some uh"
        using u by (simp add: K1_def)
      then show ?thesis
        using b unfolding base_def others_ok_def by (auto simp: less_SucI intro: stack_ok_Suc)
    qed
  qed
  moreover have "env_ok K1"
    using b(1) unfolding base_def env_ok_def pending_ok_def same by (auto simp: K1_def less_SucI)
  ultimately show "base {t} K1"
    using b(1) nc by (auto simp: base_def same) (simp add: K1_def)
qed

lemma Thread_Fork_ok:
  assumes "calm K" and "level K = IntOn" and "stack_ok (next_id K) IntOn (cur_frames K)" and "list_all (op_ok (next_id K)) func"
  shows "\<exists>K'. Thread_Fork func K = Inr K' \<and> kinv K'"
proof -
  let ?t = "next_id K"
  define K1 where "K1 = put_thread ?t (Thread_new func (heap_junk K)) (K\<lparr>next_id := Suc ?t\<rparr>)"
  note n = base_new_thread [OF assms(1,4) K1_def]
  define K2 where "K2 = Interrupt_ChangeLevel IntOff K1"
  have K2: "base {?t} K2" "\<not> placed K2 ?t" "level K2 = IntOff" "toBeDestroyed K2 \<noteq> Some ?t" "cur_frames K2 = cur_frames K"
    "threads K2 ?t = Some (Thread_new func (heap_junk K))"
    using n assms(1) by (simp_all add: K2_def Interrupt_ChangeLevel_def base_misc K1_def calm_def)
  obtain K3 where K3: "Scheduler_ReadyToRun ?t K2 = Inr K3" "base ({?t} - {?t}) K3"
    "K3 = (put_thread ?t ((Thread_new func (heap_junk K))\<lparr>t_status := READY\<rparr>) K2)\<lparr>readyList := readyList K2 @ [?t]\<rparr>"
    using ReadyToRun_ok [OF K2(1,3,6,2,4)] .
  have cur: "currentThread K3 = currentThread K" "next_id K3 = Suc ?t" "level K3 = IntOff" "cur_frames K3 = cur_frames K"
    using n(3) K2(5) by (simp_all add: K3(3) K2_def Interrupt_ChangeLevel_def K1_def cur_frames_def)
  have "\<not> placed K3 (currentThread K3)"
    using assms(1) n(3) unfolding cur(1) by (auto simp: K3(3) K2_def Interrupt_ChangeLevel_def K1_def calm_def placed_def queue_def put_thread_def)
  then have "calm K3"
    using K3(2) assms(1) by (simp add: calm_def) (simp add: K3(3) K2_def Interrupt_ChangeLevel_def K1_def)
  moreover have "stack_ok (next_id K3) IntOn (cur_frames K3)"
    using assms(3) unfolding cur by (rule stack_ok_mono) simp
  ultimately obtain K' where "push_frames [FSetLevel IntOn] K3 = Inr K'" "kinv K'"
    using restore_level_ok cur(3) by blast
  then show ?thesis
    using K3(1) assms(2) by (simp add: Thread_Fork_def K1_def [symmetric] K2_def [symmetric])
qed

lemma calm_new_waiter:
  assumes "calm K"
  defines "w \<equiv> next_id K"
  defines "K1 \<equiv> set_sem (Waiter w) \<lparr>sem_value = 0, sem_queue = []\<rparr> (K\<lparr>next_id := Suc w\<rparr>)"
  shows "calm (K1\<lparr>waitQueue := (waitQueue K)(c := waitQueue K c @ [w])\<rparr>)" "w \<notin> set (waitQueue K c)"
proof -
  let ?K = "K1\<lparr>waitQueue := (waitQueue K)(c := waitQueue K c @ [w])\<rparr>"
  have b: "base {} K" "toBeDestroyed K = None" "\<not> placed K (currentThread K)" "\<not> inHandler K" "\<not> yieldOnReturn K"
    using assms(1) by (simp_all add: calm_def)
  have N: "next_id K = w"
    by (simp add: w_def)
  have e: "env_ok K"
    using b(1) by (simp add: base_def)
  then show "w \<notin> set (waitQueue K c)"
    by (auto simp: env_ok_def w_def)
  have "queue K (Waiter w) = []"
    using e by (simp add: env_ok_def w_def)
  then have q: "queue ?K = queue K"
    by (intro ext) (auto simp: queue_def K1_def set_sem_def)
  have same: "placed ?K = placed K" "readyList ?K = readyList K" "threads ?K = threads K" "currentThread ?K = currentThread K"
    "toBeDestroyed ?K = None" "next_id ?K = Suc w"
    using q b(2) by (simp_all add: placed_def [abs_def] K1_def set_sem_def)
  have "places_ok ?K"
    using b unfolding base_def places_ok_def q same by simp
  moreover have "others_ok {} ?K"
    using b(1,2) unfolding base_def others_ok_def q same N by (auto simp: less_SucI intro: stack_ok_Suc)
  moreover have "env_ok ?K"
    using e unfolding env_ok_def pending_ok_def q same N by (auto simp: K1_def set_sem_def less_SucI)
  ultimately show "calm ?K"
    using b unfolding calm_def base_def same by (simp add: K1_def set_sem_def)
qed

definition misuse :: "op \<Rightarrow> kernel \<Rightarrow> bool" where
  "misuse p K \<longleftrightarrow> (case p of OpRelease n \<Rightarrow> \<not> Lock_IsHeldByCurrentThread n K | OpWait c n \<Rightarrow> \<not> Lock_IsHeldByCurrentThread n K
     | OpSignal c n \<Rightarrow> \<not> Lock_IsHeldByCurrentThread n K | _ \<Rightarrow> False)"

lemma Condition_Wait_ok:
  assumes "calm K" and "level K = IntOn" and "stack_ok (next_id K) IntOn (cur_frames K)" and "Lock_IsHeldByCurrentThread n K"
  shows "\<exists>K'. Condition_Wait c n K = Inr K' \<and> kinv K'"
proof -
  let ?w = "next_id K"
  define K1 where "K1 = set_sem (Waiter ?w) \<lparr>sem_value = 0, sem_queue = []\<rparr> (K\<lparr>next_id := Suc ?w\<rparr>)"
  let ?K2 = "K1\<lparr>waitQueue := (waitQueue K)(c := waitQueue K c @ [?w])\<rparr>"
  note n = calm_new_waiter [OF assms(1), of c, folded K1_def]
  have same: "next_id ?K2 = Suc ?w" "level ?K2 = IntOn" "cur_frames ?K2 = cur_frames K" "waitQueue K1 = waitQueue K"
    using assms(2) by (simp_all add: K1_def set_sem_def cur_frames_def)
  have "stack_ok (next_id ?K2) IntOn (cur_frames K)"
    using assms(3) same(1) by (auto intro: stack_ok_mono)
  then obtain K' where "push_frames [FOps [OpRelease n, OpP (Waiter ?w), OpAcquire n]] ?K2 = Inr K'" "kinv K'"
    by (rule_tac calm_push_kinv [OF n(1), of "[FOps [OpRelease n, OpP (Waiter ?w), OpAcquire n]]"]) (use same in simp_all)
  then show ?thesis
    using assms(4) n(2) same(4) by (simp add: Condition_Wait_def K1_def [symmetric] absl_Append_def)
qed

lemma calm_waitQueue:
  assumes "calm K" and "set q \<subseteq> set (waitQueue K c)"
  shows "calm (K\<lparr>waitQueue := (waitQueue K)(c := q)\<rparr>)"
  using assms unfolding calm_def base_def places_ok_def others_ok_def env_ok_def pending_ok_def placed_def queue_def by auto

lemma Condition_Signal_ok:
  assumes "calm K" and "level K = IntOn" and "stack_ok (next_id K) IntOn (cur_frames K)" and "Lock_IsHeldByCurrentThread n K"
  shows "\<exists>K'. Condition_Signal c n K = Inr K' \<and> kinv K'"
proof (cases "waitQueue K c")
  case Nil
  then show ?thesis
    using assms kinv_IntOn [OF assms(1-3)] by (simp add: Condition_Signal_def)
next
  case (Cons w q)
  let ?K = "K\<lparr>waitQueue := (waitQueue K)(c := q)\<rparr>"
  have "calm ?K"
    by (rule calm_waitQueue [OF assms(1)]) (auto simp: Cons)
  then have "\<exists>K'. Semaphore_V (Waiter w) ?K = Inr K' \<and> kinv K'"
    by (rule Semaphore_V_ok) (use assms(2,3) in \<open>simp_all add: cur_frames_def\<close>)
  then show ?thesis
    using Cons assms(4) by (simp add: Condition_Signal_def absl_RemoveFront_def)
qed

lemma calm_put_cur:
  assumes "calm K" and "thread_ok th"
  shows "calm (put_thread (currentThread K) th K)"
  using assms base_put_cur by (simp add: calm_def)

lemma Schedule_kinv:
  assumes "calm K" and "level K = IntOn" and "stack_ok (next_id K) IntOn (cur_frames K)" and "0 < fromNow"
  shows "\<exists>K'. Interrupt_Schedule dev fromNow ty K = Inr K' \<and> kinv K'"
proof -
  obtain K' where K': "Interrupt_Schedule dev fromNow ty K = Inr K'" "base {} K'" "quiet K K'" "yieldOnReturn K' = yieldOnReturn K"
    using Schedule_ok [of "{}" K fromNow] assms(1,4) by (metis calm_def)
  note q = calm_quiet [OF assms(1) K'(2-4)]
  have "kinv K'"
    by (rule kinv_IntOn) (use q assms(2,3) in \<open>auto intro: stack_ok_mono\<close>)
  then show ?thesis
    using K'(1) by blast
qed

lemma set_space_kinv:
  assumes "calm K" and "level K = IntOn" and "stack_ok (next_id K) IntOn (cur_frames K)"
  shows "\<exists>K'. do_op (OpSpace a) K = Inr K' \<and> kinv K'"
proof -
  obtain th where th: "threads K (currentThread K) = Some th" "thread_ok th"
    using cur_thread assms(1) calm_cur_ok by metis
  let ?K = "put_thread (currentThread K) (th\<lparr>space := Some a\<rparr>) K"
  have "calm ?K"
    by (rule calm_put_cur [OF assms(1)]) (use th(2) in \<open>simp add: thread_ok_def\<close>)
  then have "kinv (?K\<lparr>installed := Some a\<rparr>)"
    using assms(2,3) th(1) by (intro kinv_IntOn) (simp_all add: cur_frames_def)
  then show ?thesis
    using th(1) by (simp add: upd_thread_Some)
qed

lemma do_op_ok:
  assumes c: "calm K" and on: "level K = IntOn" and st: "stack_ok (next_id K) IntOn (cur_frames K)" and "op_ok (next_id K) p"
    and "\<not> misuse p K"
  shows "\<exists>K'. do_op p K = Inr K' \<and> kinv K'"
proof (cases p)
  case (OpP s)
  then show ?thesis using Semaphore_P_ok [OF c on st] assms(4) by simp
next
  case (OpV s)
  then show ?thesis using Semaphore_V_ok [OF c on st] by simp
next
  case OpYield
  then show ?thesis using Yield_ok [OF c on st] by (metis do_op.simps(3))
next
  case (OpFork func)
  then show ?thesis using Thread_Fork_ok [OF c on st] assms(4) by simp
next
  case (OpAcquire n)
  obtain K1 where K1: "push_frames [FAcquired n] K = Inr K1" "calm K1" "cur_frames K1 = [FAcquired n] @ cur_frames K"
    "\<exists>th. K1 = put_thread (currentThread K) th K"
    using calm_push [OF c] .
  have "level K1 = IntOn" "stack_ok (next_id K1) IntOn (cur_frames K1)"
    using K1(3,4) on st by auto
  then have "\<exists>K'. Semaphore_P (LockSem n) K1 = Inr K' \<and> kinv K'"
    using Semaphore_P_ok [OF K1(2)] by simp
  then show ?thesis using OpAcquire K1(1) by (simp add: Lock_Acquire_def)
next
  case (OpRelease n)
  have "\<exists>K'. Semaphore_V (LockSem n) (K\<lparr>lockHolder := (lockHolder K)(n := None)\<rparr>) = Inr K' \<and> kinv K'"
    by (rule Semaphore_V_ok) (use c on st in simp_all)
  then show ?thesis using OpRelease assms(5) by (simp add: Lock_Release_def misuse_def)
next
  case (OpWait cv n)
  then show ?thesis using Condition_Wait_ok [OF c on st] assms(5) by (simp add: misuse_def)
next
  case (OpSignal cv n)
  then show ?thesis using Condition_Signal_ok [OF c on st] assms(5) by (simp add: misuse_def)
next
  case (OpBroadcast cv n)
  have "\<exists>K'. push_frames [FOps [OpSignal cv n, OpBroadcast cv n]] K = Inr K' \<and> kinv K'"
    by (rule calm_push_kinv [OF c, of "[FOps [OpSignal cv n, OpBroadcast cv n]]"]) (use on st in auto)
  then show ?thesis using OpBroadcast kinv_IntOn [OF c on st] by (simp add: Condition_Broadcast_def)
next
  case (OpDevice n fromNow ty)
  then show ?thesis using Schedule_kinv [OF c on st] assms(4) by simp
next
  case OpHalt
  have "kinv (K\<lparr>halted := True\<rparr>)"
    using c on st by (intro kinv_IntOn) simp_all
  then show ?thesis using OpHalt by (simp add: Interrupt_Halt_def)
next
  case (OpSpace a)
  then show ?thesis using set_space_kinv [OF c on st] by simp
next
  case (OpUser regs)
  then have "calm (K\<lparr>registers := regs\<rparr>)"
    using c assms(4) base_registers [of "{}" K regs] by (simp add: calm_def)
  then have "kinv (K\<lparr>registers := regs\<rparr>)"
    using on st by (intro kinv_IntOn) simp_all
  then show ?thesis using OpUser by simp
qed

lemma do_op_misuse: "misuse p K \<Longrightarrow> do_op p K = Inl AssertFail"
  by (cases p) (simp_all add: misuse_def Lock_Release_def Condition_Wait_def Condition_Signal_def)

section \<open>Every step\<close>

lemma kinv_pop:
  assumes "kinv K"
  obtains f fs K0 th where "cur_frames K = f # fs" "kstep K = run_frame f K0" "base {} K0" "cur_frames K0 = fs"
    "threads K (currentThread K) = Some th" "K0 = put_thread (currentThread K) (th\<lparr>frames := fs\<rparr>) K"
proof -
  have b: "base {} K" and co: "cur_ok K (cur_frames K)"
    using assms by (simp_all add: kinv_def)
  obtain th where th: "threads K (currentThread K) = Some th" "thread_ok th"
    using cur_thread [OF b] .
  obtain f fs where f: "cur_frames K = f # fs"
    using co by (cases "cur_frames K") (auto simp: cur_ok_def)
  let ?K = "put_thread (currentThread K) (th\<lparr>frames := fs\<rparr>) K"
  have "base {} ?K"
    by (rule base_put_cur [OF b]) (use th(2) in \<open>simp add: thread_ok_def\<close>)
  then show thesis
    using that [OF f, of ?K th] th(1) f by (simp add: kstep_def get_thread_def upd_thread_Some cur_frames_def)
qed

lemma Thread_Finish_ok:
  assumes "calm K"
  shows "\<exists>K'. Thread_Finish K = Inr K' \<and> kinv K'"
proof -
  let ?K0 = "Interrupt_ChangeLevel IntOff K"
  have K0: "calm ?K0" "level ?K0 = IntOff"
    using assms by (simp_all add: Interrupt_ChangeLevel_def)
  then obtain th where th: "threads ?K0 (currentThread ?K0) = Some th" "thread_ok th"
    using cur_thread calm_cur_ok by metis
  define K1 where "K1 = put_thread (currentThread ?K0) (th\<lparr>t_status := BLOCKED\<rparr>) ?K0"
  have "calm K1"
    unfolding K1_def by (rule calm_put_cur [OF K0(1)]) (use th(2) in \<open>simp add: thread_ok_def\<close>)
  then obtain K' where "push_frames [FSleep True] K1 = Inr K'" "kinv K'"
    by (rule calm_push_kinv [of K1 "[FSleep True]"]) (use K0(2) in \<open>simp_all add: K1_def\<close>)
  then show ?thesis
    using th(1) K0(2) by (simp add: Thread_Finish_def Thread_Sleep_def upd_thread_Some K1_def)
qed

text \<open>The next step of the current thread is a lock operation that its caller may not make.\<close>

definition at_misuse :: "kernel \<Rightarrow> bool" where
  "at_misuse K \<longleftrightarrow> (case cur_frames K of FOps (p # ps) # fs \<Rightarrow> misuse p K | _ \<Rightarrow> False)"

lemma misuse_cong: "lockHolder K' = lockHolder K \<Longrightarrow> currentThread K' = currentThread K \<Longrightarrow> misuse p K' = misuse p K"
  by (simp add: misuse_def Lock_IsHeldByCurrentThread_def split: op.splits)

lemma ops_step:
  assumes "calm K0" and "level K0 = IntOn" and "list_all (op_ok (next_id K0)) ps" and "stack_ok (next_id K0) IntOn (cur_frames K0)"
  shows "case ps of p # _ \<Rightarrow> if misuse p K0 then run_frame (FOps ps) K0 = Inl AssertFail else \<exists>K'. run_frame (FOps ps) K0 = Inr K' \<and> kinv K'
    | [] \<Rightarrow> \<exists>K'. run_frame (FOps ps) K0 = Inr K' \<and> kinv K'"
proof (cases ps)
  case Nil
  then show ?thesis using kinv_IntOn [OF assms(1,2,4)] by simp
next
  case (Cons p qs)
  obtain K1 where K1: "push_frames [FOps qs] K0 = Inr K1" "calm K1" "cur_frames K1 = [FOps qs] @ cur_frames K0"
    "\<exists>th. K1 = put_thread (currentThread K0) th K0"
    using calm_push [OF assms(1)] .
  have same: "level K1 = IntOn" "next_id K1 = next_id K0" "misuse p K1 = misuse p K0"
    using K1(4) assms(2) misuse_cong [of K1 K0 p] by auto
  have "stack_ok (next_id K1) IntOn (cur_frames K1)" "op_ok (next_id K1) p"
    using K1(3) same(2) assms(3,4) Cons by auto
  then show ?thesis
    using do_op_ok [OF K1(2) same(1)] do_op_misuse [of p K1] same(3) K1(1) Cons by auto
qed

lemma kstep_ok:
  assumes "kinv K"
  shows "if at_misuse K then kstep K = Inl AssertFail else \<exists>K'. kstep K = Inr K' \<and> kinv K'"
proof -
  obtain f fs K0 th where f: "cur_frames K = f # fs" "kstep K = run_frame f K0" "base {} K0" "cur_frames K0 = fs"
    "threads K (currentThread K) = Some th" "K0 = put_thread (currentThread K) (th\<lparr>frames := fs\<rparr>) K"
    using kinv_pop [OF assms] .
  have co: "stack_ok (next_id K) (level K) (f # fs)" "toBeDestroyed K \<noteq> None \<Longrightarrow> f \<in> {FRunBack, FBegin}"
    "f \<noteq> FSleep False \<Longrightarrow> \<not> placed K (currentThread K)"
    "f = FSleep False \<Longrightarrow> \<exists>s fs'. fs = FP s IntOn # fs' \<and> asleep K s"
    using assms f(1) by (auto simp: kinv_def cur_ok_def split: if_splits)
  have same: "level K0 = level K" "next_id K0 = next_id K" "\<not> inHandler K0" "\<not> yieldOnReturn K0" "toBeDestroyed K0 = toBeDestroyed K"
    "placed K0 = placed K" "currentThread K0 = currentThread K" "lockHolder K0 = lockHolder K"
    using assms by (simp_all add: f(6) kinv_def fun_eq_iff)
  have calm0: "calm K0" if "f \<notin> {FRunBack, FBegin, FSleep False}"
  proof -
    have "toBeDestroyed K = None"
      using that co(2) by blast
    then show ?thesis
      using that co(3) f(3) same by (simp add: calm_def)
  qed
  have np: "\<not> placed K0 (currentThread K0)" if "f \<noteq> FSleep False"
    using co(3) [OF that] same by simp
  show ?thesis
  proof (cases f)
    case FBegin
    obtain K1 where "Scheduler_CheckToBeDestroyed K0 = Inr K1" "calm K1" "level K1 = IntOff" "stack_ok (next_id K1) IntOn (cur_frames K1)"
      using CheckToBeDestroyed_ok [OF f(3) same(3,4) np] FBegin co(1) same f(4) by (metis frame.distinct(7) stack_ok.simps(2))
    then show ?thesis
      using FBegin f(1,2) SetLevel_ok by (auto simp: Thread_Begin_def at_misuse_def)
  next
    case (FOps ps)
    have "calm K0" "level K0 = IntOn" "list_all (op_ok (next_id K0)) ps" "stack_ok (next_id K0) IntOn (cur_frames K0)"
      using calm0 co(1) FOps same f(4) by simp_all
    note ops = ops_step [OF this]
    show ?thesis
      using ops FOps f(1,2) misuse_cong [OF same(8,7)] by (cases ps) (auto simp: at_misuse_def simp del: run_frame.simps)
  next
    case FFinish
    then show ?thesis
      using f(1,2) Thread_Finish_ok [OF calm0] by (simp add: at_misuse_def)
  next
    case (FSetLevel l)
    then show ?thesis
      using f(1,2,4) co(1) same calm0 by (auto simp: at_misuse_def) (metis SetLevel_ok)
  next
    case (FSleep finishing)
    have "toBeDestroyed K = None"
      using co(2) FSleep by blast
    moreover have "asleep K0 = asleep K"
      by (rule ext) (simp add: f(6) asleep_def)
    ultimately have "in_sleep finishing K0"
      using FSleep co(1,3,4) same f(3,4) by (cases finishing) (auto simp: in_sleep_def)
    then show ?thesis
      using Sleep_loop_ok FSleep f(1,2) by (auto simp: at_misuse_def) metis
  next
    case FRunBack
    have "load_ok (userRegisters uh)" if "threads K0 (currentThread K0) = Some uh" "space uh \<noteq> None" for uh
      using that assms f(1,5,6) FRunBack by (auto simp: kinv_def resume_ok_def cur_frames_def)
    moreover have "level K0 = IntOff" "stack_ok (next_id K0) IntOff (cur_frames K0)" "hd (cur_frames K0) \<notin> {FSleep False, FRunBack}"
      using co(1) FRunBack same f(4) by auto
    ultimately have "\<exists>K'. Scheduler_Run_back K0 = Inr K' \<and> kinv K'"
      using Run_back_ok [OF f(3) same(3,4) np] FRunBack by blast
    then show ?thesis
      using FRunBack f(1,2) by (simp add: at_misuse_def)
  next
    case (FP s l)
    then have "calm K0" "level K0 = IntOff" "stack_ok (next_id K0) IntOn (cur_frames K0)" "\<forall>w. s = Waiter w \<longrightarrow> w < next_id K0"
      using calm0 co(1) same f(4) by simp_all
    then have "\<exists>K'. Semaphore_P_loop s IntOn K0 = Inr K' \<and> kinv K'"
      using P_loop_ok by blast
    then show ?thesis
      using FP f(1,2) co(1) by (simp add: at_misuse_def)
  next
    case (FAcquired n)
    then have "kinv (Lock_Acquired n K0)"
      using calm0 co(1) same f(4) by (intro kinv_IntOn) (simp_all add: Lock_Acquired_def)
    then show ?thesis
      using FAcquired f(1,2) by (simp add: at_misuse_def)
  next
    case (FStatus st)
    then have "kinv (K0\<lparr>status := st\<rparr>)"
      using calm0 co(1) same f(4) by (intro kinv_IntOn) simp_all
    then show ?thesis
      using FStatus f(1,2) by (simp add: at_misuse_def)
  qed
qed

lemma Kernel_Initialize_ok:
  assumes "\<forall>n. 0 \<le> rnd n" and "\<forall>n. 0 \<le> init n" and "list_all (op_ok 1) main_ops"
  shows "\<exists>K. Kernel_Initialize randomSlice rnd junk init main_ops = Inr K \<and> kinv K \<and> \<not> halted K"
proof -
  let ?f = "[FSetLevel IntOn, FOps main_ops, FOps [OpHalt], FFinish]"
  let ?th = "\<lparr>t_status = RUNNING, fence = None, frames = ?f, userRegisters = junk, space = None\<rparr>"
  define K :: kernel where "K = \<lparr>registers = (\<lambda>_. 0), mainMemory = (\<lambda>_. 0), tlb = None, pageTable = None, pageTableSize = 0,
       singleStep = False, runUntilTime = 0, status = SystemMode, level = IntOff, pending = [], inHandler = False,
       yieldOnReturn = False, totalTicks = 0, idleTicks = 0, systemTicks = 0, userTicks = 0, halted = False,
       timer_randomize = randomSlice, timer_disable = False, randoms = rnd, currentThread = 0, readyList = [],
       toBeDestroyed = None, threads = [0 \<mapsto> ?th],
       sems = (\<lambda>s. case s of Sem n \<Rightarrow> Semaphore_new (init n) | LockSem _ \<Rightarrow> Semaphore_new 1 | Waiter _ \<Rightarrow> Semaphore_new 0),
       lockHolder = (\<lambda>_. None), waitQueue = (\<lambda>_. []), installed = None, heap_junk = junk, next_id = 1\<rparr>"
  have q: "queue K s = []" for s
    by (simp add: queue_def K_def Semaphore_new_def split: sid.splits)
  have np: "\<not> placed K t" for t
    by (simp add: placed_def q) (simp add: K_def)
  have "places_ok K" "others_ok {} K"
    by (simp_all add: places_ok_def others_ok_def q np) (simp_all add: K_def thread_ok_def)
  moreover have "env_ok K"
    using assms(1,2) by (simp add: env_ok_def q) (simp add: K_def pending_ok_def load_ok_def Semaphore_new_def split: sid.splits)
  ultimately have c: "calm K"
    by (simp add: calm_def base_def np) (simp add: K_def)
  then obtain K' where K': "Timer_SetInterrupt K = Inr K'" "base {} K'" "quiet K K'" "yieldOnReturn K' = yieldOnReturn K"
    using Timer_SetInterrupt_ok [of "{}" K] by (metis calm_def)
  note q' = calm_quiet [OF c K'(2-4)]
  have "cur_frames K = ?f" "level K = IntOff" "next_id K = 1"
    by (simp_all add: cur_frames_def K_def)
  then have "kinv K'"
    using q' ops_ok_mono [OF assms(3)] by (intro kinvI) simp_all
  moreover have "\<not> halted K'"
    using K'(3) by (simp add: quiet_def K_def)
  ultimately show ?thesis
    using K'(1) by (simp add: Kernel_Initialize_def K_def)
qed

lemma ksteps_kinv: "ksteps K0 K \<Longrightarrow> kinv K0 \<Longrightarrow> kinv K"
proof (induction rule: ksteps.induct)
  case (step K K1 K2)
  then show ?case using kstep_ok [of K1] by (auto split: if_splits)
qed

section \<open>Properties\<close>

text \<open>A program for the witnesses: two threads that use a semaphore, a lock, a condition and a device.\<close>

definition sample_ops :: "op list" where
  "sample_ops = [OpFork [OpAcquire 0, OpSignal 0 0, OpRelease 0, OpV (Sem 0)], OpAcquire 0, OpWait 0 0, OpRelease 0,
     OpP (Sem 0), OpDevice 1 500 DiskInt, OpP (Sem 1)]"

definition sample_start :: kernel where
  "sample_start = (case Kernel_Initialize False (\<lambda>_. 0) (\<lambda>_. 0) (\<lambda>_. 0) sample_ops of Inr K \<Rightarrow> K)"

lemma sample_start_ok: "Kernel_Initialize False (\<lambda>_. 0) (\<lambda>_. 0) (\<lambda>_. 0) sample_ops = Inr sample_start"
  "list_all (op_ok 1) sample_ops" "level sample_start = IntOff" "threads sample_start 0 \<noteq> None"
  "cur_frames sample_start = [FSetLevel IntOn, FOps sample_ops, FOps [OpHalt], FFinish]"
  by (simp_all add: sample_start_def Kernel_Initialize_def Timer_SetInterrupt_def Interrupt_Schedule_def TimerTicks_def
      absl_Insert_def cur_frames_def) (simp add: sample_ops_def)

definition sample_on :: kernel where
  "sample_on = (case kstep sample_start of Inr K \<Rightarrow> K)"

lemma sample_kinv: "kinv sample_start" "\<not> halted sample_start"
  using Kernel_Initialize_ok [of "\<lambda>_. 0" "\<lambda>_. 0" sample_ops False "\<lambda>_. 0"] sample_start_ok by auto

text \<open>C1: safety of the thread system. Whatever threads do with forks, yields, semaphores, locks, conditions, devices and
  user registers, no assertion of the scheduler, of the interrupt simulation, of thread switching and of semaphores
  fails from the start of the kernel to its halt; a step can fail only by the assertion in \<^verbatim>\<open>Lock::Release\<close>,
  \<^verbatim>\<open>Condition::Wait\<close> or \<^verbatim>\<open>Condition::Signal\<close> that the caller holds the lock.\<close>

theorem thread_system_safe:
  assumes "\<forall>n. 0 \<le> rnd n" and "\<forall>n. 0 \<le> init n" and "list_all (op_ok 1) main_ops"
  shows "\<exists>K0. Kernel_Initialize randomSlice rnd junk init main_ops = Inr K0 \<and>
    (\<forall>K. ksteps K0 K \<longrightarrow> (if at_misuse K then kstep K = Inl AssertFail else \<exists>K'. kstep K = Inr K'))"
proof -
  obtain K0 where K0: "Kernel_Initialize randomSlice rnd junk init main_ops = Inr K0" "kinv K0"
    using Kernel_Initialize_ok [OF assms] by blast
  have "if at_misuse K then kstep K = Inl AssertFail else \<exists>K'. kstep K = Inr K'" if "ksteps K0 K" for K
    using kstep_ok [OF ksteps_kinv [OF that K0(2)]] by (auto split: if_splits)
  then show ?thesis
    using K0(1) by blast
qed

theorem thread_system_safe_witness:
  "\<exists>K0. Kernel_Initialize False (\<lambda>_. 0) (\<lambda>_. 0) (\<lambda>_. 0) Kernel_ThreadSelfTest = Inr K0 \<and> (\<exists>K'. kstep K0 = Inr K')"
proof -
  have "list_all (op_ok 1) Kernel_ThreadSelfTest"
    by (simp add: Kernel_ThreadSelfTest_def Thread_SelfTest_def SimpleThread_def Semaphore_SelfTest_def
        Semaphore_SelfTestHelper_def eval_nat_numeral)
  then obtain K0 where K0: "Kernel_Initialize False (\<lambda>_. 0) (\<lambda>_. 0) (\<lambda>_. 0) Kernel_ThreadSelfTest = Inr K0"
    "\<forall>K. ksteps K0 K \<longrightarrow> (if at_misuse K then kstep K = Inl AssertFail else \<exists>K'. kstep K = Inr K')"
    using thread_system_safe [of "\<lambda>_. 0" "\<lambda>_. 0" Kernel_ThreadSelfTest False "\<lambda>_. 0"] by auto
  moreover have "hd (cur_frames K0) = FSetLevel IntOn"
    using K0(1) by (auto simp: Kernel_Initialize_def Timer_SetInterrupt_def Interrupt_Schedule_def TimerTicks_def absl_Insert_def cur_frames_def)
  then have "\<not> at_misuse K0"
    by (auto simp: at_misuse_def split: list.splits frame.splits)
  ultimately show ?thesis
    using ksteps.refl by metis
qed

text \<open>C2: no thread is lost. In every reachable state the thread lists hold existing threads only, each at most once, and
  every thread that is neither running nor finished is in the ready list or in the queue of exactly one semaphore,
  with its stack fence intact.\<close>

theorem no_thread_lost:
  assumes "kinv K0" and "ksteps K0 K" and "threads K t = Some th"
  shows "distinct (readyList K) \<and> (\<forall>s. distinct (queue K s)) \<and> (\<forall>u. placed K u \<longrightarrow> threads K u \<noteq> None)
    \<and> (t = currentThread K \<or> toBeDestroyed K = Some t \<or> (t \<in> set (readyList K) \<and> (\<forall>s. t \<notin> set (queue K s)))
        \<or> (t \<notin> set (readyList K) \<and> (\<exists>!s. t \<in> set (queue K s))))
    \<and> Thread_CheckOverflow th = Inr ()"
proof -
  have k: "base {} K"
    using ksteps_kinv [OF assms(2,1)] by (simp add: kinv_def)
  then have p: "places_ok K" and o: "others_ok {} K"
    by (simp_all add: base_def)
  have "Thread_CheckOverflow th = Inr ()"
    using o assms(3) by (cases "fence th") (auto simp: others_ok_def thread_ok_def Thread_CheckOverflow_def)
  moreover have "placed K t" if "t \<noteq> currentThread K" "toBeDestroyed K \<noteq> Some t"
    using o assms(3) that by (auto simp: others_ok_def)
  moreover have "s = s'" if "t \<in> set (queue K s)" "t \<in> set (queue K s')" for s s'
    using p that unfolding places_ok_def by blast
  moreover have "t \<notin> set (queue K s)" if "t \<in> set (readyList K)" for s
    using p that unfolding places_ok_def by blast
  ultimately show ?thesis
    using p unfolding places_ok_def placed_def by blast
qed

theorem no_thread_lost_witness: "Thread_CheckOverflow (the (threads sample_start 0)) = Inr ()"
proof -
  obtain th where "threads sample_start 0 = Some th"
    using sample_start_ok(4) by blast
  then show ?thesis
    using no_thread_lost [OF sample_kinv(1) ksteps.refl, of 0 th] by simp
qed

text \<open>C3: the interrupt loop ends. When the current thread checks for interrupts with interrupts off, the loop over due
  interrupts ends even though handlers schedule new ones: afterwards none is due, the clock has not gone back, the
  running thread is the same with the same frames; if the clock may advance and something is pending, it is fired. The
  clock and the pending times must be at least 200 ticks, the longest delay of the timer, below \<^verbatim>\<open>INT_MAX\<close>; then no sum of
  the loop overflows: the clock and all pending times, old and new, are \<^verbatim>\<open>int\<close>s afterwards (\<open>ticks_fit\<close>).\<close>

theorem CheckIfDue_terminates:
  assumes "kinv K" and "level K = IntOff" and "ticks_fit (TimerTicks * 2) K"
  shows "\<exists>fired K'. Interrupt_CheckIfDue advanceClock K = Inr (fired, K') \<and> due K' = [] \<and> totalTicks K \<le> totalTicks K'
    \<and> currentThread K' = currentThread K \<and> cur_frames K' = cur_frames K \<and> (advanceClock \<and> pending K \<noteq> [] \<longrightarrow> fired)
    \<and> ticks_fit 0 K'"
proof -
  have k: "base {} K" "\<not> inHandler K"
    using assms(1) by (simp_all add: kinv_def)
  obtain b K' where r: "Interrupt_CheckIfDue advanceClock K = Inr (b, K')" "quiet K K'" "totalTicks K \<le> totalTicks K'" "due K' = []"
    "\<not> b \<and> advanceClock \<longrightarrow> pending K = []"
    using CheckIfDue_ok [OF k(1) assms(2) k(2)] by metis
  moreover have "cur_frames K' = cur_frames K"
    using quiet_cur_frames [OF r(2)] k(1) by (simp add: base_def)
  moreover have "ticks_fit 0 K'"
    using CheckIfDue_ticks [OF r(1) _ assms(3)] k(1) by (simp add: base_def env_ok_def)
  ultimately show ?thesis
    by (auto simp: quiet_def)
qed

lemma sample_ticks: "ticks_fit (TimerTicks * 2) sample_start" "pending sample_start \<noteq> []"
  by (simp_all add: sample_start_def ticks_fit_def Kernel_Initialize_def Timer_SetInterrupt_def Interrupt_Schedule_def TimerTicks_def
      absl_Insert_def)

theorem CheckIfDue_terminates_witness:
  "\<exists>K'. Interrupt_CheckIfDue True sample_start = Inr (True, K') \<and> due K' = [] \<and> ticks_fit 0 K'"
  using CheckIfDue_terminates [OF sample_kinv(1) sample_start_ok(3) sample_ticks(1), of True] sample_ticks(2) by auto

text \<open>yielding is round robin. \<^verbatim>\<open>Yield\<close> gives the processor to the first ready thread and puts the caller, ready, at
  the end of the ready list; with no other ready thread the caller keeps the processor. No semaphore changes.\<close>

theorem Yield_round_robin:
  assumes "kinv K" and "level K = IntOn"
  shows "\<exists>K'. Thread_Yield K = Inr K' \<and> sems K' = sems K \<and> level K' = IntOff \<and>
    (case readyList K of [] \<Rightarrow> currentThread K' = currentThread K \<and> readyList K' = []
     | t # l \<Rightarrow> currentThread K' = t \<and> readyList K' = l @ [currentThread K] \<and> t \<noteq> currentThread K
         \<and> map_option t_status (threads K' t) = Some RUNNING \<and> map_option t_status (threads K' (currentThread K)) = Some READY)"
proof -
  have st: "stack_ok (next_id K) IntOn (cur_frames K)" and k: "base {} K" "\<not> inHandler K" "\<not> yieldOnReturn K"
    using assms by (simp_all add: kinv_def cur_ok_def)
  then have hd: "hd (cur_frames K) \<notin> {FRunBack, FBegin}" "\<And>b. hd (cur_frames K) \<noteq> FSleep b"
    using stack_ok_IntOn by blast+
  then have tb: "toBeDestroyed K = None" and np: "\<not> placed K (currentThread K)"
    using assms(1) by (auto simp: kinv_def cur_ok_def)
  obtain oh where oh: "threads K (currentThread K) = Some oh" "thread_ok oh"
    using cur_thread [OF k(1)] .
  then have chk: "fence oh = None \<or> fence oh = Some STACK_FENCEPOST"
    by (cases "fence oh") (auto simp: thread_ok_def)
  show ?thesis
  proof (cases "readyList K")
    case Nil
    then show ?thesis
      using oh assms(2) by (simp add: Thread_Yield_def Interrupt_ChangeLevel_def Scheduler_FindNextToRun_def push_frames_def
          upd_thread_def get_thread_def put_thread_def)
  next
    case (Cons t l)
    have t: "t \<noteq> currentThread K" "currentThread K \<notin> set l"
      using np Cons by (auto simp: placed_def)
    obtain th where th: "threads K t = Some th"
      using FindNextToRun_ok(5) [of "{}" "K\<lparr>level := IntOff\<rparr>" t l] k(1) Cons by (auto simp: base_misc)
    show ?thesis
      using oh th t tb chk Cons assms(2)
      by (cases "space oh") (auto simp: Let_def Thread_Yield_def Interrupt_ChangeLevel_def Scheduler_FindNextToRun_def push_frames_def absl_RemoveFront_def
          upd_thread_def get_thread_def put_thread_def Scheduler_ReadyToRun_def absl_Append_def Scheduler_Run_def
          Thread_CheckOverflow_def Thread_SaveUserState_def)
  qed
qed

lemma sample_on_ok: "kinv sample_on" "level sample_on = IntOn"
proof -
  have "\<not> at_misuse sample_start"
    by (simp add: at_misuse_def sample_start_ok)
  then show "kinv sample_on"
    using kstep_ok [OF sample_kinv(1)] by (auto simp: sample_on_def)
  show "level sample_on = IntOn"
    by (simp add: sample_on_def sample_start_def Kernel_Initialize_def Timer_SetInterrupt_def Interrupt_Schedule_def TimerTicks_def
        absl_Insert_def kstep_def get_thread_def upd_thread_def put_thread_def Interrupt_SetLevel_def Interrupt_ChangeLevel_def
        Interrupt_OneTick_def SystemTick_def Interrupt_CheckIfDue_def)
qed

theorem Yield_round_robin_witness: "\<exists>K'. Thread_Yield sample_on = Inr K' \<and> sems K' = sems sample_on"
  using Yield_round_robin [OF sample_on_ok] by blast

end
