(* ===== verification/MipsSim.thy ===== *)
theory MipsSim
  imports Machine
begin

text \<open>
  \<^verbatim>\<open>machine/mipssim.h\<close> and \<^verbatim>\<open>machine/mipssim.cc\<close>: decoding and execution of one MIPS R2/3000
  instruction. The cases of the switch of \<^verbatim>\<open>OneInstruction\<close> are grouped as in the source
  (\<open>exec_arith\<close>, \<open>exec_branch\<close>, \<dots>). Each gives \<open>Trapped\<close>, when the code returns after
  \<^verbatim>\<open>RaiseException\<close>, or \<open>Done\<close> with the new next-next PC and the delayed load to set up.
  Registers are 32-bit words; \<^verbatim>\<open>int\<close> comparisons read them as signed.

  The build defines \<^verbatim>\<open>SIM_FIX\<close>, so the unaligned loads and stores are those of the fix.
\<close>

section \<open>Opcodes and the decoding tables\<close>

datatype opcode = OP_ADD | OP_ADDI | OP_ADDIU | OP_ADDU | OP_AND | OP_ANDI | OP_BEQ | OP_BGEZ | OP_BGEZAL
  | OP_BGTZ | OP_BLEZ | OP_BLTZ | OP_BLTZAL | OP_BNE | OP_DIV | OP_DIVU | OP_J | OP_JAL | OP_JALR | OP_JR
  | OP_LB | OP_LBU | OP_LH | OP_LHU | OP_LUI | OP_LW | OP_LWL | OP_LWR | OP_MFHI | OP_MFLO | OP_MTHI | OP_MTLO
  | OP_MULT | OP_MULTU | OP_NOR | OP_OR | OP_ORI | OP_RFE | OP_SB | OP_SH | OP_SLL | OP_SLLV | OP_SLT
  | OP_SLTI | OP_SLTIU | OP_SLTU | OP_SRA | OP_SRAV | OP_SRL | OP_SRLV | OP_SUB | OP_SUBU | OP_SW | OP_SWL
  | OP_SWR | OP_XOR | OP_XORI | OP_SYSCALL | OP_UNIMP | OP_RES | SPECIAL | BCOND

datatype instr_format = IFMT | JFMT | RFMT

definition SIGN_BIT :: "32 word" where "SIGN_BIT = 0x80000000"

definition IndexToAddr :: "32 word \<Rightarrow> 32 word" where "IndexToAddr x = push_bit 2 x"

definition opTable :: "(opcode \<times> instr_format) list" where
  "opTable = [
     (SPECIAL, RFMT), (BCOND, IFMT), (OP_J, JFMT), (OP_JAL, JFMT),
     (OP_BEQ, IFMT), (OP_BNE, IFMT), (OP_BLEZ, IFMT), (OP_BGTZ, IFMT),
     (OP_ADDI, IFMT), (OP_ADDIU, IFMT), (OP_SLTI, IFMT), (OP_SLTIU, IFMT),
     (OP_ANDI, IFMT), (OP_ORI, IFMT), (OP_XORI, IFMT), (OP_LUI, IFMT),
     (OP_UNIMP, IFMT), (OP_UNIMP, IFMT), (OP_UNIMP, IFMT), (OP_UNIMP, IFMT),
     (OP_RES, IFMT), (OP_RES, IFMT), (OP_RES, IFMT), (OP_RES, IFMT),
     (OP_RES, IFMT), (OP_RES, IFMT), (OP_RES, IFMT), (OP_RES, IFMT),
     (OP_RES, IFMT), (OP_RES, IFMT), (OP_RES, IFMT), (OP_RES, IFMT),
     (OP_LB, IFMT), (OP_LH, IFMT), (OP_LWL, IFMT), (OP_LW, IFMT),
     (OP_LBU, IFMT), (OP_LHU, IFMT), (OP_LWR, IFMT), (OP_RES, IFMT),
     (OP_SB, IFMT), (OP_SH, IFMT), (OP_SWL, IFMT), (OP_SW, IFMT),
     (OP_RES, IFMT), (OP_RES, IFMT), (OP_SWR, IFMT), (OP_RES, IFMT),
     (OP_UNIMP, IFMT), (OP_UNIMP, IFMT), (OP_UNIMP, IFMT), (OP_UNIMP, IFMT),
     (OP_RES, IFMT), (OP_RES, IFMT), (OP_RES, IFMT), (OP_RES, IFMT),
     (OP_UNIMP, IFMT), (OP_UNIMP, IFMT), (OP_UNIMP, IFMT), (OP_UNIMP, IFMT),
     (OP_RES, IFMT), (OP_RES, IFMT), (OP_RES, IFMT), (OP_RES, IFMT)]"

definition specialTable :: "opcode list" where
  "specialTable = [
     OP_SLL, OP_RES, OP_SRL, OP_SRA, OP_SLLV, OP_RES, OP_SRLV, OP_SRAV,
     OP_JR, OP_JALR, OP_RES, OP_RES, OP_SYSCALL, OP_UNIMP, OP_RES, OP_RES,
     OP_MFHI, OP_MTHI, OP_MFLO, OP_MTLO, OP_RES, OP_RES, OP_RES, OP_RES,
     OP_MULT, OP_MULTU, OP_DIV, OP_DIVU, OP_RES, OP_RES, OP_RES, OP_RES,
     OP_ADD, OP_ADDU, OP_SUB, OP_SUBU, OP_AND, OP_OR, OP_XOR, OP_NOR,
     OP_RES, OP_RES, OP_SLT, OP_SLTU, OP_RES, OP_RES, OP_RES, OP_RES,
     OP_RES, OP_RES, OP_RES, OP_RES, OP_RES, OP_RES, OP_RES, OP_RES,
     OP_RES, OP_RES, OP_RES, OP_RES, OP_RES, OP_RES, OP_RES, OP_RES]"

record Instruction =
  opCode :: opcode
  rs :: nat
  rt :: nat
  rd :: nat
  extra :: "32 word"

definition field5 :: "32 word \<Rightarrow> nat \<Rightarrow> nat" where
  "field5 v n = unat (drop_bit n v AND 0x1f)"

definition decode_extra :: "32 word \<Rightarrow> instr_format \<Rightarrow> 32 word" where
  "decode_extra v fmt = (case fmt of
     IFMT \<Rightarrow> (let ex = v AND 0xffff in if ex AND 0x8000 \<noteq> 0 then ex OR 0xffff0000 else ex)
   | RFMT \<Rightarrow> drop_bit 6 v AND 0x1f
   | JFMT \<Rightarrow> v AND 0x3ffffff)"

definition Instruction_Decode :: "32 word \<Rightarrow> Instruction result" where
  "Instruction_Decode v =
     rbind (arr_get opTable (uint (drop_bit 26 v AND 0x3f))) (\<lambda>(op, fmt).
     rbind (if op = SPECIAL then arr_get specialTable (uint (v AND 0x3f))
            else if op = BCOND then
              (let i = v AND 0x1f0000 in
               Inr (if i = 0 then OP_BLTZ else if i = 0x10000 then OP_BGEZ
                    else if i = 0x100000 then OP_BLTZAL else if i = 0x110000 then OP_BGEZAL else OP_UNIMP))
            else Inr op) (\<lambda>op1.
     Inr \<lparr>opCode = op1, rs = field5 v 21, rt = field5 v 16, rd = field5 v 11, extra = decode_extra v fmt\<rparr>))"

section \<open>Multiplication\<close>

text \<open>
  The shift-and-add loop: \<^verbatim>\<open>a\<close> is an \<^verbatim>\<open>int\<close>, so \<^verbatim>\<open>a >>= 1\<close> copies its sign. The result is
  \<open>(hi, lo)\<close>.
\<close>

fun mult_loop :: "nat \<Rightarrow> 32 word \<Rightarrow> 32 word \<Rightarrow> 32 word \<Rightarrow> 32 word \<Rightarrow> 32 word \<Rightarrow> 32 word \<times> 32 word" where
  "mult_loop 0 a bLo bHi lo hi = (hi, lo)"
| "mult_loop (Suc n) a bLo bHi lo hi =
     (let odd_a = (a AND 1 \<noteq> 0);
          lo1 = (if odd_a then lo + bLo else lo);
          hi1 = (if odd_a then (if lo1 < bLo then hi + 1 else hi) + bHi else hi) in
      if odd_a \<and> a AND 0xfffffffe = 0 then (hi1, lo1)
      else mult_loop n (signed_drop_bit 1 a) (push_bit 1 bLo)
             (if bLo AND 0x80000000 \<noteq> 0 then push_bit 1 bHi OR 1 else push_bit 1 bHi) lo1 hi1)"

definition Mult :: "32 word \<Rightarrow> 32 word \<Rightarrow> bool \<Rightarrow> 32 word \<times> 32 word" where
  "Mult a b signedArith =
     (if a = 0 \<or> b = 0 then (0, 0)
      else let negative = (signedArith \<and> (sint a < 0 \<longleftrightarrow> \<not> sint b < 0));
               a1 = (if signedArith \<and> sint a < 0 then - a else a);
               b1 = (if signedArith \<and> sint b < 0 then - b else b);
               (hi, lo) = mult_loop 32 a1 b1 0 0 0 in
        if negative then (let lo1 = NOT lo + 1 in (if lo1 = 0 then NOT hi + 1 else NOT hi, lo1))
        else (hi, lo))"

section \<open>Execution\<close>

datatype 'm exec = Trapped 'm | Done "32 word" nat "32 word" 'm

definition trap :: "'a handler \<Rightarrow> ExceptionType \<Rightarrow> 32 word \<Rightarrow> 'a machine_scheme \<Rightarrow> 'a machine_scheme exec result" where
  "trap eh which bad m = rbind (Machine_RaiseException eh which bad m) (\<lambda>m1. Inr (Trapped m1))"

text \<open>\<open>with_read\<close> and \<open>with_write\<close>: \<^verbatim>\<open>if (!ReadMem(...)) return;\<close> and what follows.\<close>

definition with_read :: "'a handler \<Rightarrow> 'a machine_scheme \<Rightarrow> 32 word \<Rightarrow> int
    \<Rightarrow> (32 word \<Rightarrow> 'a machine_scheme \<Rightarrow> 'a machine_scheme exec result) \<Rightarrow> 'a machine_scheme exec result" where
  "with_read eh m a sz f = rbind (Machine_ReadMem eh m a sz) (\<lambda>(v, m1).
     case v of None \<Rightarrow> Inr (Trapped m1) | Some x \<Rightarrow> f x m1)"

definition with_write :: "'a handler \<Rightarrow> 'a machine_scheme \<Rightarrow> 32 word \<Rightarrow> int \<Rightarrow> 32 word \<Rightarrow> 32 word
    \<Rightarrow> 'a machine_scheme exec result" where
  "with_write eh m a sz v pcAfter = rbind (Machine_WriteMem eh m a sz v) (\<lambda>(ok, m1).
     Inr (if ok then Done pcAfter 0 0 m1 else Trapped m1))"

text \<open>An instruction that writes register \<open>r\<close> and does nothing else.\<close>

definition write_reg :: "nat \<Rightarrow> 32 word \<Rightarrow> 32 word \<Rightarrow> 'a machine_scheme \<Rightarrow> 'a machine_scheme exec result" where
  "write_reg r v pcAfter m = Inr (Done pcAfter 0 0 (set_reg r v m))"

definition exec_arith :: "'a handler \<Rightarrow> Instruction \<Rightarrow> 32 word \<Rightarrow> 'a machine_scheme \<Rightarrow> 'a machine_scheme exec result" where
  "exec_arith eh instr pcAfter m =
     (let R = registers m; a = R (rs instr); b = R (rt instr); ex = extra instr in
      case opCode instr of
        OP_ADD \<Rightarrow> (let sum = a + b in
          if (a XOR b) AND SIGN_BIT = 0 \<and> (a XOR sum) AND SIGN_BIT \<noteq> 0 then trap eh OverflowException 0 m
          else write_reg (rd instr) sum pcAfter m)
      | OP_ADDI \<Rightarrow> (let sum = a + ex in
          if (a XOR ex) AND SIGN_BIT = 0 \<and> (ex XOR sum) AND SIGN_BIT \<noteq> 0 then trap eh OverflowException 0 m
          else write_reg (rt instr) sum pcAfter m)
      | OP_ADDIU \<Rightarrow> write_reg (rt instr) (a + ex) pcAfter m
      | OP_ADDU \<Rightarrow> write_reg (rd instr) (a + b) pcAfter m
      | OP_AND \<Rightarrow> write_reg (rd instr) (a AND b) pcAfter m
      | OP_ANDI \<Rightarrow> write_reg (rt instr) (a AND (ex AND 0xffff)) pcAfter m
      | _ \<Rightarrow> Inl AssertFail)"

definition exec_branch :: "Instruction \<Rightarrow> 32 word \<Rightarrow> 'a machine_scheme \<Rightarrow> 'a machine_scheme exec result" where
  "exec_branch instr pcAfter m =
     (let R = registers m; npc = R NextPCReg; target = npc + IndexToAddr (extra instr);
          link = (\<lambda>m. set_reg 31 (npc + 4) m);
          branch = (\<lambda>c m. Inr (Done (if c then target else pcAfter) 0 0 m)) in
      case opCode instr of
        OP_BEQ \<Rightarrow> branch (R (rs instr) = R (rt instr)) m
      | OP_BGEZAL \<Rightarrow> branch (registers (link m) (rs instr) AND SIGN_BIT = 0) (link m)
      | OP_BGEZ \<Rightarrow> branch (R (rs instr) AND SIGN_BIT = 0) m
      | OP_BGTZ \<Rightarrow> branch (sint (R (rs instr)) > 0) m
      | OP_BLEZ \<Rightarrow> branch (sint (R (rs instr)) \<le> 0) m
      | OP_BLTZAL \<Rightarrow> branch (registers (link m) (rs instr) AND SIGN_BIT \<noteq> 0) (link m)
      | OP_BLTZ \<Rightarrow> branch (R (rs instr) AND SIGN_BIT \<noteq> 0) m
      | OP_BNE \<Rightarrow> branch (R (rs instr) \<noteq> R (rt instr)) m
      | _ \<Rightarrow> Inl AssertFail)"

text \<open>
  \<^verbatim>\<open>DIV\<close> uses the host's division: the smallest integer divided by -1 overflows, and the host
  processor traps.
\<close>

definition exec_div :: "Instruction \<Rightarrow> 32 word \<Rightarrow> 'a machine_scheme \<Rightarrow> 'a machine_scheme exec result" where
  "exec_div instr pcAfter m =
     (let a = registers m (rs instr); b = registers m (rt instr);
          result = (\<lambda>lo hi. Inr (Done pcAfter 0 0 (set_reg HiReg hi (set_reg LoReg lo m)))) in
      case opCode instr of
        OP_DIV \<Rightarrow>
          if b = 0 then result 0 0
          else if a = 0x80000000 \<and> b = - 1 then Inl HostTrap
          else result (word_of_int (sint a sdiv sint b)) (word_of_int (sint a smod sint b))
      | OP_DIVU \<Rightarrow> if b = 0 then result 0 0 else result (a div b) (a mod b)
      | _ \<Rightarrow> Inl AssertFail)"

definition exec_jump :: "Instruction \<Rightarrow> 32 word \<Rightarrow> 'a machine_scheme \<Rightarrow> 'a machine_scheme exec result" where
  "exec_jump instr pcAfter m =
     (let npc = registers m NextPCReg;
          target = (pcAfter AND 0xf0000000) OR IndexToAddr (extra instr) in
      case opCode instr of
        OP_JAL \<Rightarrow> Inr (Done target 0 0 (set_reg 31 (npc + 4) m))
      | OP_J \<Rightarrow> Inr (Done target 0 0 m)
      | OP_JALR \<Rightarrow> (let m1 = set_reg (rd instr) (npc + 4) m in Inr (Done (registers m1 (rs instr)) 0 0 m1))
      | OP_JR \<Rightarrow> Inr (Done (registers m (rs instr)) 0 0 m)
      | _ \<Rightarrow> Inl AssertFail)"

definition exec_load :: "'a handler \<Rightarrow> Instruction \<Rightarrow> 32 word \<Rightarrow> 'a machine_scheme \<Rightarrow> 'a machine_scheme exec result" where
  "exec_load eh instr pcAfter m =
     (let tmp = registers m (rs instr) + extra instr;
          load = (\<lambda>v m1. Inr (Done pcAfter (rt instr) v m1)) in
      case opCode instr of
        OP_LB \<Rightarrow> with_read eh m tmp 1 (\<lambda>v. load (if v AND 0x80 \<noteq> 0 then v OR 0xffffff00 else v AND 0xff))
      | OP_LBU \<Rightarrow> with_read eh m tmp 1 (\<lambda>v. load (v AND 0xff))
      | OP_LH \<Rightarrow> if tmp AND 1 \<noteq> 0 then trap eh AddressErrorException tmp m
          else with_read eh m tmp 2 (\<lambda>v. load (if v AND 0x8000 \<noteq> 0 then v OR 0xffff0000 else v AND 0xffff))
      | OP_LHU \<Rightarrow> if tmp AND 1 \<noteq> 0 then trap eh AddressErrorException tmp m
          else with_read eh m tmp 2 (\<lambda>v. load (v AND 0xffff))
      | OP_LUI \<Rightarrow> write_reg (rt instr) (push_bit 16 (extra instr)) pcAfter m
      | OP_LW \<Rightarrow> if tmp AND 3 \<noteq> 0 then trap eh AddressErrorException tmp m
          else with_read eh m tmp 4 load
      | _ \<Rightarrow> Inl AssertFail)"

text \<open>The register as a pending delayed load will leave it.\<close>

definition pending :: "'a machine_scheme \<Rightarrow> nat \<Rightarrow> 32 word" where
  "pending m r = (if registers m LoadReg = of_nat r then registers m LoadValueReg else registers m r)"

definition lwl_merge :: "nat \<Rightarrow> 32 word \<Rightarrow> 32 word \<Rightarrow> 32 word" where
  "lwl_merge k old v = (if k = 0 then v
     else if k = 1 then (old AND 0xff) OR push_bit 8 v
     else if k = 2 then (old AND 0xffff) OR push_bit 16 v
     else (old AND 0xffffff) OR push_bit 24 v)"

definition lwr_merge :: "nat \<Rightarrow> 32 word \<Rightarrow> 32 word \<Rightarrow> 32 word" where
  "lwr_merge k old v = (if k = 0 then (old AND 0xffffff00) OR (signed_drop_bit 24 v AND 0xff)
     else if k = 1 then (old AND 0xffff0000) OR (signed_drop_bit 16 v AND 0xffff)
     else if k = 2 then (old AND 0xff000000) OR (signed_drop_bit 8 v AND 0xffffff)
     else v)"

definition exec_LWL :: "'a handler \<Rightarrow> Instruction \<Rightarrow> 32 word \<Rightarrow> 'a machine_scheme \<Rightarrow> 'a machine_scheme exec result" where
  "exec_LWL eh instr pcAfter m =
     (let tmp = registers m (rs instr) + extra instr; byte = tmp AND 3 in
      with_read eh m (tmp - byte) 4 (\<lambda>v m1.
      Inr (Done pcAfter (rt instr) (lwl_merge (3 - unat byte) (pending m1 (rt instr)) v) m1)))"

definition exec_LWR :: "'a handler \<Rightarrow> Instruction \<Rightarrow> 32 word \<Rightarrow> 'a machine_scheme \<Rightarrow> 'a machine_scheme exec result" where
  "exec_LWR eh instr pcAfter m =
     (let tmp = registers m (rs instr) + extra instr; byte = tmp AND 3 in
      with_read eh m (tmp - byte) 4 (\<lambda>v m1.
      Inr (Done pcAfter (rt instr) (lwr_merge (3 - unat byte) (pending m1 (rt instr)) v) m1)))"

definition exec_hilo :: "Instruction \<Rightarrow> 32 word \<Rightarrow> 'a machine_scheme \<Rightarrow> 'a machine_scheme exec result" where
  "exec_hilo instr pcAfter m =
     (let R = registers m in
      case opCode instr of
        OP_MFHI \<Rightarrow> write_reg (rd instr) (R HiReg) pcAfter m
      | OP_MFLO \<Rightarrow> write_reg (rd instr) (R LoReg) pcAfter m
      | OP_MTHI \<Rightarrow> write_reg HiReg (R (rs instr)) pcAfter m
      | OP_MTLO \<Rightarrow> write_reg LoReg (R (rs instr)) pcAfter m
      | OP_MULT \<Rightarrow> (let (hi, lo) = Mult (R (rs instr)) (R (rt instr)) True in
          Inr (Done pcAfter 0 0 (set_reg LoReg lo (set_reg HiReg hi m))))
      | OP_MULTU \<Rightarrow> (let (hi, lo) = Mult (R (rs instr)) (R (rt instr)) False in
          Inr (Done pcAfter 0 0 (set_reg LoReg lo (set_reg HiReg hi m))))
      | _ \<Rightarrow> Inl AssertFail)"

definition exec_logic :: "Instruction \<Rightarrow> 32 word \<Rightarrow> 'a machine_scheme \<Rightarrow> 'a machine_scheme exec result" where
  "exec_logic instr pcAfter m =
     (let R = registers m; a = R (rs instr); b = R (rt instr) in
      case opCode instr of
        OP_NOR \<Rightarrow> write_reg (rd instr) (NOT (a OR b)) pcAfter m
      | OP_OR \<Rightarrow> write_reg (rd instr) (a OR b) pcAfter m
      | OP_ORI \<Rightarrow> write_reg (rt instr) (a OR (extra instr AND 0xffff)) pcAfter m
      | _ \<Rightarrow> Inl AssertFail)"

definition exec_store :: "'a handler \<Rightarrow> Instruction \<Rightarrow> 32 word \<Rightarrow> 'a machine_scheme \<Rightarrow> 'a machine_scheme exec result" where
  "exec_store eh instr pcAfter m =
     (let a = registers m (rs instr) + extra instr; v = registers m (rt instr) in
      case opCode instr of
        OP_SB \<Rightarrow> with_write eh m a 1 v pcAfter
      | OP_SH \<Rightarrow> with_write eh m a 2 v pcAfter
      | _ \<Rightarrow> Inl AssertFail)"

definition exec_shift :: "Instruction \<Rightarrow> 32 word \<Rightarrow> 'a machine_scheme \<Rightarrow> 'a machine_scheme exec result" where
  "exec_shift instr pcAfter m =
     (let R = registers m; a = R (rs instr); b = R (rt instr); sh = unat (extra instr); shv = unat (a AND 0x1f);
          set1 = (\<lambda>r c. write_reg r (if c then 1 else 0) pcAfter m) in
      case opCode instr of
        OP_SLL \<Rightarrow> write_reg (rd instr) (push_bit sh b) pcAfter m
      | OP_SLLV \<Rightarrow> write_reg (rd instr) (push_bit shv b) pcAfter m
      | OP_SLT \<Rightarrow> set1 (rd instr) (sint a < sint b)
      | OP_SLTI \<Rightarrow> set1 (rt instr) (sint a < sint (extra instr))
      | OP_SLTIU \<Rightarrow> set1 (rt instr) (a < extra instr)
      | OP_SLTU \<Rightarrow> set1 (rd instr) (a < b)
      | OP_SRA \<Rightarrow> write_reg (rd instr) (signed_drop_bit sh b) pcAfter m
      | OP_SRAV \<Rightarrow> write_reg (rd instr) (signed_drop_bit shv b) pcAfter m
      | OP_SRL \<Rightarrow> (let tmp = b in write_reg (rd instr) (signed_drop_bit sh tmp) pcAfter m)
      | OP_SRLV \<Rightarrow> (let tmp = b in write_reg (rd instr) (signed_drop_bit shv tmp) pcAfter m)
      | _ \<Rightarrow> Inl AssertFail)"

definition exec_sub :: "'a handler \<Rightarrow> Instruction \<Rightarrow> 32 word \<Rightarrow> 'a machine_scheme \<Rightarrow> 'a machine_scheme exec result" where
  "exec_sub eh instr pcAfter m =
     (let a = registers m (rs instr); b = registers m (rt instr); diff = a - b in
      case opCode instr of
        OP_SUB \<Rightarrow>
          if (a XOR b) AND SIGN_BIT \<noteq> 0 \<and> (a XOR diff) AND SIGN_BIT \<noteq> 0 then trap eh OverflowException 0 m
          else write_reg (rd instr) diff pcAfter m
      | OP_SUBU \<Rightarrow> write_reg (rd instr) diff pcAfter m
      | _ \<Rightarrow> Inl AssertFail)"

definition exec_SW :: "'a handler \<Rightarrow> Instruction \<Rightarrow> 32 word \<Rightarrow> 'a machine_scheme \<Rightarrow> 'a machine_scheme exec result" where
  "exec_SW eh instr pcAfter m =
     with_write eh m (registers m (rs instr) + extra instr) 4 (registers m (rt instr)) pcAfter"

definition swl_merge :: "nat \<Rightarrow> 32 word \<Rightarrow> 32 word \<Rightarrow> 32 word" where
  "swl_merge k old v = (if k = 0 then v
     else if k = 1 then (old AND 0xff000000) OR (signed_drop_bit 8 v AND 0xffffff)
     else if k = 2 then (old AND 0xffff0000) OR (signed_drop_bit 16 v AND 0xffff)
     else (old AND 0xffffff00) OR (signed_drop_bit 24 v AND 0xff))"

definition swr_merge :: "nat \<Rightarrow> 32 word \<Rightarrow> 32 word \<Rightarrow> 32 word" where
  "swr_merge k old v = (if k = 0 then (old AND 0xffffff) OR push_bit 24 v
     else if k = 1 then (old AND 0xffff) OR push_bit 16 v
     else if k = 2 then (old AND 0xff) OR push_bit 8 v
     else v)"

definition exec_SWL :: "'a handler \<Rightarrow> Instruction \<Rightarrow> 32 word \<Rightarrow> 'a machine_scheme \<Rightarrow> 'a machine_scheme exec result" where
  "exec_SWL eh instr pcAfter m =
     (let tmp = registers m (rs instr) + extra instr; byte = tmp AND 3 in
      with_read eh m (tmp - byte) 4 (\<lambda>v m1.
      with_write eh m1 (tmp - byte) 4 (swl_merge (3 - unat byte) v (registers m1 (rt instr))) pcAfter))"

definition exec_SWR :: "'a handler \<Rightarrow> Instruction \<Rightarrow> 32 word \<Rightarrow> 'a machine_scheme \<Rightarrow> 'a machine_scheme exec result" where
  "exec_SWR eh instr pcAfter m =
     (let tmp = registers m (rs instr) + extra instr; byte = tmp AND 3 in
      with_read eh m (tmp - byte) 4 (\<lambda>v m1.
      with_write eh m1 (tmp - byte) 4 (swr_merge (3 - unat byte) v (registers m1 (rt instr))) pcAfter))"

definition exec_special :: "'a handler \<Rightarrow> Instruction \<Rightarrow> 32 word \<Rightarrow> 'a machine_scheme \<Rightarrow> 'a machine_scheme exec result" where
  "exec_special eh instr pcAfter m =
     (let R = registers m in
      case opCode instr of
        OP_SYSCALL \<Rightarrow> trap eh SyscallException 0 m
      | OP_XOR \<Rightarrow> write_reg (rd instr) (R (rs instr) XOR R (rt instr)) pcAfter m
      | OP_XORI \<Rightarrow> write_reg (rt instr) (R (rs instr) XOR (extra instr AND 0xffff)) pcAfter m
      | OP_RES \<Rightarrow> trap eh IllegalInstrException 0 m
      | OP_UNIMP \<Rightarrow> trap eh IllegalInstrException 0 m
      | _ \<Rightarrow> Inl AssertFail)"

text \<open>The switch.\<close>

definition exec_instr :: "'a handler \<Rightarrow> Instruction \<Rightarrow> 32 word \<Rightarrow> 'a machine_scheme \<Rightarrow> 'a machine_scheme exec result" where
  "exec_instr eh instr pcAfter m =
     (let op = opCode instr in
      if op \<in> {OP_ADD, OP_ADDI, OP_ADDIU, OP_ADDU, OP_AND, OP_ANDI} then exec_arith eh instr pcAfter m
      else if op \<in> {OP_BEQ, OP_BGEZAL, OP_BGEZ, OP_BGTZ, OP_BLEZ, OP_BLTZAL, OP_BLTZ, OP_BNE} then exec_branch instr pcAfter m
      else if op \<in> {OP_DIV, OP_DIVU} then exec_div instr pcAfter m
      else if op \<in> {OP_JAL, OP_J, OP_JALR, OP_JR} then exec_jump instr pcAfter m
      else if op \<in> {OP_LB, OP_LBU, OP_LH, OP_LHU, OP_LUI, OP_LW} then exec_load eh instr pcAfter m
      else if op = OP_LWL then exec_LWL eh instr pcAfter m
      else if op = OP_LWR then exec_LWR eh instr pcAfter m
      else if op \<in> {OP_MFHI, OP_MFLO, OP_MTHI, OP_MTLO, OP_MULT, OP_MULTU} then exec_hilo instr pcAfter m
      else if op \<in> {OP_NOR, OP_OR, OP_ORI} then exec_logic instr pcAfter m
      else if op \<in> {OP_SB, OP_SH} then exec_store eh instr pcAfter m
      else if op \<in> {OP_SLL, OP_SLLV, OP_SLT, OP_SLTI, OP_SLTIU, OP_SLTU, OP_SRA, OP_SRAV, OP_SRL, OP_SRLV}
        then exec_shift instr pcAfter m
      else if op \<in> {OP_SUB, OP_SUBU} then exec_sub eh instr pcAfter m
      else if op = OP_SW then exec_SW eh instr pcAfter m
      else if op = OP_SWL then exec_SWL eh instr pcAfter m
      else if op = OP_SWR then exec_SWR eh instr pcAfter m
      else exec_special eh instr pcAfter m)"

text \<open>After the switch: the delayed load, then the program counters.\<close>

definition finish_instr :: "'a machine_scheme exec \<Rightarrow> 'a machine_scheme result" where
  "finish_instr r = (case r of Trapped m \<Rightarrow> Inr m
     | Done pcAfter nextLoadReg nextLoadValue m \<Rightarrow>
         rbind (Machine_DelayedLoad nextLoadReg nextLoadValue m) (\<lambda>m1.
         let m2 = set_reg PrevPCReg (registers m1 PCReg) m1;
             m3 = set_reg PCReg (registers m2 NextPCReg) m2 in
         Inr (set_reg NextPCReg pcAfter m3)))"

definition Machine_OneInstruction :: "'a handler \<Rightarrow> 'a machine_scheme \<Rightarrow> 'a machine_scheme result" where
  "Machine_OneInstruction eh m =
     rbind (Machine_ReadMem eh m (registers m PCReg) 4) (\<lambda>(raw, m1).
     (case raw of None \<Rightarrow> Inr m1
      | Some v \<Rightarrow>
          rbind (Instruction_Decode v) (\<lambda>instr.
          rbind (exec_instr eh instr (registers m1 NextPCReg + 4) m1) finish_instr)))"

end
