(* ===== verification/MipsProofs.thy ===== *)
theory MipsProofs
  imports MipsSim
begin

text \<open>
  Correctness of the instruction simulation of \<open>MipsSim\<close>: the multiplication loop computes
  the full 64-bit product; decoding is total and yields only opcodes the switch handles; the
  overflow tests are exact; the pairs of unaligned loads and stores move a whole word; one
  instruction keeps the machine's invariant, given the contract of the exception handler
  (locale \<open>exception_handler\<close>).
\<close>

section \<open>Multiplication is exact\<close>

definition dword :: "32 word \<Rightarrow> 32 word \<Rightarrow> 64 word" where
  "dword hi lo = word_of_int (uint hi * 2 ^ 32 + uint lo)"

lemma dword_hi_cong:
  assumes "x mod 2 ^ 32 = y mod (2 ^ 32 :: int)"
  shows "(word_of_int (x * 2 ^ 32 + z) :: 64 word) = word_of_int (y * 2 ^ 32 + z)"
proof -
  have "x * 2 ^ 32 mod 2 ^ 64 = y * 2 ^ 32 mod (2 ^ 64 :: int)"
    using mult_mod_left [of x "2 ^ 32" "2 ^ 32"] mult_mod_left [of y "2 ^ 32" "2 ^ 32"] assms by simp
  then have "(x * 2 ^ 32 + z) mod 2 ^ 64 = (y * 2 ^ 32 + z) mod (2 ^ 64 :: int)"
    by (rule mod_add_cong) simp
  then show ?thesis
    unfolding word_of_int_eq_iff take_bit_eq_mod by simp
qed

lemma uint_add_carry:
  fixes x y :: "32 word"
  shows "uint (x + y) = uint x + uint y - (if x + y < y then 2 ^ 32 else 0)"
proof -
  have b: "0 \<le> uint x" "uint x < 2 ^ 32" "0 \<le> uint y" "uint y < 2 ^ 32"
    using uint_lt2p [of x] uint_lt2p [of y] by simp_all
  show ?thesis
  proof (cases "uint x + uint y < 2 ^ 32")
    case True
    then have "uint (x + y) = uint x + uint y"
      using b by (simp add: uint_word_ariths)
    then show ?thesis
      using b by (simp add: word_less_def)
  next
    case False
    then have "(uint x + uint y) mod 2 ^ 32 = uint x + uint y - 2 ^ 32"
      using b mod_pos_pos_trivial [of "uint x + uint y - 2 ^ 32" "2 ^ 32"] by simp
    then have "uint (x + y) = uint x + uint y - 2 ^ 32"
      by (simp add: uint_word_ariths)
    then show ?thesis
      using b by (simp add: word_less_def)
  qed
qed

lemma dword_add:
  "dword ((if lo + bLo < bLo then hi + 1 else hi) + bHi) (lo + bLo) = dword hi lo + dword bHi bLo"
proof -
  define c where "c = (if lo + bLo < bLo then 1 else 0 :: int)"
  have lo: "uint (lo + bLo) = uint lo + uint bLo - c * 2 ^ 32"
    by (simp add: uint_add_carry c_def)
  have "uint ((if lo + bLo < bLo then hi + 1 else hi) + bHi) mod 2 ^ 32 = (uint hi + c + uint bHi) mod 2 ^ 32"
    by (simp add: c_def uint_word_ariths mod_simps)
  then have "dword ((if lo + bLo < bLo then hi + 1 else hi) + bHi) (lo + bLo) =
      word_of_int ((uint hi + c + uint bHi) * 2 ^ 32 + (uint lo + uint bLo - c * 2 ^ 32))"
    unfolding dword_def lo by (rule dword_hi_cong)
  also have "\<dots> = word_of_int ((uint hi * 2 ^ 32 + uint lo) + (uint bHi * 2 ^ 32 + uint bLo))"
    by (simp add: algebra_simps)
  finally show ?thesis
    unfolding dword_def by (simp only: of_int_add)
qed

lemma top_bit_carry: "(b :: 32 word) AND 0x80000000 \<noteq> 0 \<longleftrightarrow> b + b < b"
proof -
  have "b AND 0x80000000 \<noteq> 0 \<longleftrightarrow> bit b 31"
    using and_exp_eq_0_iff_not_bit [of b 31] by simp
  also have "\<dots> \<longleftrightarrow> 2 ^ 31 \<le> uint b"
  proof -
    have "uint b div 2 ^ 31 < 2"
      using uint_lt2p [of b] by simp
    moreover have "0 \<le> uint b div 2 ^ 31"
      by (simp add: pos_imp_zdiv_nonneg_iff)
    ultimately have "uint b div 2 ^ 31 = 0 \<or> uint b div 2 ^ 31 = 1"
      by linarith
    then have "odd (uint b div 2 ^ 31) \<longleftrightarrow> uint b div 2 ^ 31 = 1"
      by auto
    also have "\<dots> \<longleftrightarrow> 2 ^ 31 \<le> uint b"
      using uint_lt2p [of b] by auto
    finally have "bit (uint b) 31 \<longleftrightarrow> 2 ^ 31 \<le> uint b"
      by (simp only: bit_iff_odd)
    then show ?thesis
      by (simp add: bit_uint_iff)
  qed
  also have "\<dots> \<longleftrightarrow> b + b < b"
    using uint_add_carry [of b b] uint_lt2p [of b] uint_ge_0 [of "b + b"] uint_lt2p [of "b + b"]
    by (auto split: if_splits)
  finally show ?thesis .
qed

lemma push_bit_1_add: "push_bit 1 (b :: 32 word) = b + b" "push_bit 1 b OR 1 = b + 1 + b"
proof -
  show p: "push_bit 1 b = b + b"
    by (simp add: push_bit_eq_mult)
  have "(b + b) AND 1 = 0"
  proof -
    have "even (b + b)" by simp
    then show ?thesis
      by (simp only: and_one_eq even_iff_mod_2_eq_zero)
  qed
  then have "push_bit 1 b OR 1 = push_bit 1 b + 1"
    unfolding p using disjunctive_add_eq_or [of "b + b" 1] by simp
  then show "push_bit 1 b OR 1 = b + 1 + b"
    unfolding p by (simp only: ac_simps)
qed

lemma dword_double:
  "dword (if bLo AND 0x80000000 \<noteq> 0 then push_bit 1 bHi OR 1 else push_bit 1 bHi) (push_bit 1 bLo) =
   2 * dword bHi bLo"
proof -
  have "(if bLo AND 0x80000000 \<noteq> 0 then push_bit 1 bHi OR 1 else push_bit 1 bHi) =
      (if bLo + bLo < bLo then bHi + 1 else bHi) + bHi"
    unfolding top_bit_carry push_bit_1_add(2) unfolding push_bit_1_add(1) by (cases "bLo + bLo < bLo") (simp_all only: if_True if_False)
  then show ?thesis
    unfolding push_bit_1_add(1) using dword_add [of bLo bLo bHi bHi] by simp
qed

lemma take_bit_signed_drop:
  assumes "n < 32"
  shows "take_bit (Suc n) (uint (a :: 32 word)) = (if a AND 1 \<noteq> 0 then 1 else 0) + 2 * take_bit n (uint (signed_drop_bit 1 a))"
proof -
  have "take_bit n (uint a div 2) = take_bit n (uint (signed_drop_bit 1 a))"
    using assms by (intro bit_eqI) (auto simp: bit_simps simp flip: bit_Suc)
  moreover have "a AND 1 \<noteq> 0 \<longleftrightarrow> odd (uint a)"
    by (simp add: and_one_eq odd_iff_mod_2_eq_one uint_mod flip: uint_0_iff)
  ultimately show ?thesis
    by (auto simp: take_bit_Suc odd_iff_mod_2_eq_one even_iff_mod_2_eq_zero)
qed

lemma only_low_bit:
  assumes "a AND 1 \<noteq> 0" and "a AND 0xfffffffe = (0 :: 32 word)"
  shows "a = 1"
proof (rule bit_word_eqI)
  fix n
  assume n: "n < LENGTH(32)"
  have m: "(0xfffffffe :: 32 word) = NOT 1" by simp
  have "\<not> bit (a AND NOT 1) n"
    using assms(2) unfolding m by simp
  moreover have "bit a 0"
    using assms(1) by (auto simp: and_one_eq bit_0 odd_iff_mod_2_eq_one)
  ultimately show "bit a n = bit (1 :: 32 word) n"
    using n by (cases n) (auto simp: bit_simps)
qed

lemma mult_loop_dword:
  "n \<le> 32 \<Longrightarrow> mult_loop n a bLo bHi lo hi = (h, l) \<Longrightarrow>
   dword h l = dword hi lo + word_of_int (take_bit n (uint a)) * dword bHi bLo"
proof (induction n arbitrary: a bLo bHi lo hi)
  case 0
  then show ?case by simp
next
  case (Suc n)
  define o1 where "o1 = (a AND 1 \<noteq> 0)"
  define lo1 where "lo1 = (if o1 then lo + bLo else lo)"
  define hi1 where "hi1 = (if o1 then (if lo1 < bLo then hi + 1 else hi) + bHi else hi)"
  have s: "dword hi1 lo1 = dword hi lo + (if o1 then dword bHi bLo else 0)"
    by (simp add: hi1_def lo1_def dword_add)
  note unfold = mult_loop.simps(2) Let_def
  show ?case
  proof (cases "o1 \<and> a AND 0xfffffffe = 0")
    case True
    then have "a = 1" and hl: "(h, l) = (hi1, lo1)"
      using only_low_bit Suc.prems(2) by (auto simp: unfold o1_def lo1_def hi1_def)
    then have "take_bit (Suc n) (uint a) = 1"
      by simp
    then show ?thesis
      using s True hl by simp
  next
    case False
    define bHi' where "bHi' = (if bLo AND 0x80000000 \<noteq> 0 then push_bit 1 bHi OR 1 else push_bit 1 bHi)"
    have "mult_loop n (signed_drop_bit 1 a) (push_bit 1 bLo) bHi' lo1 hi1 = (h, l)"
      using Suc.prems(2) False unfolding unfold o1_def [symmetric] lo1_def [symmetric] hi1_def [symmetric]
        bHi'_def [symmetric] by simp
    from Suc.IH [OF _ this] Suc.prems(1) have
      "dword h l = dword hi1 lo1 + word_of_int (take_bit n (uint (signed_drop_bit 1 a))) * dword bHi' (push_bit 1 bLo)"
      by simp
    moreover have "dword bHi' (push_bit 1 bLo) = 2 * dword bHi bLo"
      unfolding bHi'_def by (rule dword_double)
    ultimately show ?thesis
      using s Suc.prems(1) take_bit_signed_drop [of n a] by (auto simp: o1_def algebra_simps)
  qed
qed

lemma dword_0: "dword 0 b = word_of_int (uint b)" "dword 0 0 = 0"
  by (simp_all add: dword_def)

text \<open>Two's complement of a double word.\<close>

lemma dword_neg:
  "dword (if NOT lo + 1 = 0 then NOT hi + 1 else NOT hi) (NOT lo + 1) = - dword hi lo"
proof -
  have n: "uint (NOT x) = 2 ^ 32 - 1 - uint x" for x :: "32 word"
  proof -
    have "NOT x = word_of_int (2 ^ 32 - 1 - uint x)"
      by (simp add: not_eq_complement)
    moreover have "0 \<le> 2 ^ 32 - 1 - uint x" "2 ^ 32 - 1 - uint x < 2 ^ 32"
      using uint_lt2p [of x] less_le_trans [OF _ uint_ge_0 [of x], of "- 1"] by simp_all
    ultimately show ?thesis
      by (simp only: uint_word_of_int) (simp add: take_bit_int_eq_self)
  qed
  show ?thesis
  proof (cases "lo = 0")
    case True
    have "dword (NOT hi + 1) 0 = word_of_int ((- uint hi) * 2 ^ 32 + 0)"
      unfolding dword_def uint_0_eq
      by (rule dword_hi_cong) (simp add: n uint_word_ariths mod_simps)
    then show ?thesis
      using True by (simp add: dword_def)
  next
    case False
    then have l: "0 < uint lo" "uint lo < 2 ^ 32"
      using uint_lt2p [of lo] by (simp_all add: word_neq_0_conv word_less_def)
    have "uint (NOT lo + 1) = 2 ^ 32 - uint lo"
      using l by (simp add: uint_word_ariths n zmod_zminus1_eq_if)
    then have "dword (NOT hi) (NOT lo + 1) = word_of_int ((2 ^ 32 - 1 - uint hi) * 2 ^ 32 + (2 ^ 32 - uint lo))"
      by (simp only: dword_def n)
    also have "\<dots> = word_of_int ((2 ^ 32) * 2 ^ 32 + (- (uint hi * 2 ^ 32 + uint lo)))"
      by (simp add: algebra_simps)
    also have "\<dots> = word_of_int (0 * 2 ^ 32 + (- (uint hi * 2 ^ 32 + uint lo)))"
      by (rule dword_hi_cong) simp
    finally have "dword (NOT hi) (NOT lo + 1) = - dword hi lo"
      unfolding dword_def by (simp only: of_int_minus mult_zero_left add_0)
    moreover have "NOT lo + 1 \<noteq> 0"
      using False by (simp add: not_eq_complement)
    ultimately show ?thesis by simp
  qed
qed

lemma uint_abs: "sint (a :: 32 word) < 0 \<Longrightarrow> uint (- a) = - sint a" "\<not> sint a < 0 \<Longrightarrow> uint a = sint a"
proof -
  have r: "- (2 ^ 31) \<le> sint a" "sint a < 2 ^ 31"
    using sint_greater_eq [of a] sint_less [of a] by simp_all
  have w: "uint (word_of_int k :: 32 word) = k" if "0 \<le> k" "k < 2 ^ 32" for k
    using that by (simp add: uint_word_of_int take_bit_int_eq_self)
  show "uint (- a) = - sint a" if "sint a < 0"
  proof -
    have "- a = word_of_int (- sint a)" by simp
    then show ?thesis
      using w [of "- sint a"] r that by simp
  qed
  show "uint a = sint a" if "\<not> sint a < 0"
  proof -
    have "a = word_of_int (sint a)" by simp
    then show ?thesis
      using w [of "sint a"] r that by simp
  qed
qed

lemma Mult_dword:
  "dword (fst (Mult a b sg)) (snd (Mult a b sg)) = word_of_int (if sg then sint a * sint b else uint a * uint b)"
proof (cases "a = 0 \<or> b = 0")
  case True
  then show ?thesis by (auto simp: Mult_def dword_0)
next
  case False
  define a1 where "a1 = (if sg \<and> sint a < 0 then - a else a)"
  define b1 where "b1 = (if sg \<and> sint b < 0 then - b else b)"
  define neg where "neg = (sg \<and> (sint a < 0 \<longleftrightarrow> \<not> sint b < 0))"
  obtain h l where hl: "mult_loop 32 a1 b1 0 0 0 = (h, l)" by fastforce
  have "take_bit 32 (uint a1) = uint a1"
    using take_bit_int_eq_self [of "uint a1" 32] uint_lt2p [of a1] by simp
  then have p: "dword h l = word_of_int (uint a1 * uint b1)"
    using mult_loop_dword [OF _ hl] by (simp add: dword_0)
  have m: "Mult a b sg = (if neg then (if NOT l + 1 = 0 then NOT h + 1 else NOT h, NOT l + 1) else (h, l))"
    using False hl unfolding Mult_def a1_def [symmetric] b1_def [symmetric] neg_def [symmetric]
    by (simp add: Let_def)
  have "dword (fst (Mult a b sg)) (snd (Mult a b sg)) = (if neg then - dword h l else dword h l)"
    unfolding m using dword_neg [of l h] by simp
  also have "\<dots> = word_of_int (if neg then - (uint a1 * uint b1) else uint a1 * uint b1)"
    unfolding p by (cases neg) (simp_all only: if_True if_False of_int_minus)
  also have "(if neg then - (uint a1 * uint b1) else uint a1 * uint b1) = (if sg then sint a * sint b else uint a * uint b)"
    using uint_abs [of a] uint_abs [of b] by (auto simp: a1_def b1_def neg_def)
  finally show ?thesis .
qed

section \<open>Decoding is total\<close>

lemma opTable_length [simp]: "length opTable = 64" and specialTable_length [simp]: "length specialTable = 64"
  by (simp_all add: opTable_def specialTable_def)

lemma opTable_ops: "\<forall>p\<in>set opTable. fst p \<noteq> OP_RFE \<and> (fst p = SPECIAL \<longrightarrow> snd p = RFMT)"
  by (simp add: opTable_def)

lemma specialTable_ops: "\<forall>p\<in>set specialTable. p \<notin> {OP_RFE, SPECIAL, BCOND}"
  by (simp add: specialTable_def)

lemma uint_mask_less:
  "uint (w AND 0x3f :: 32 word) < 64" "unat (w AND 0x1f :: 32 word) < 32"
proof -
  have m: "(0x3f :: 32 word) = mask 6" "(0x1f :: 32 word) = mask 5"
    by (simp_all add: mask_eq_exp_minus_1)
  show "uint (w AND 0x3f) < 64"
    unfolding m using and_mask_lt_2p [of w 6] by simp
  show "unat (w AND 0x1f) < 32"
    unfolding m unat_less_iff_uint using and_mask_lt_2p [of w 5] by simp
qed

lemma field5_less [simp]: "field5 v n < 32"
  by (simp add: field5_def uint_mask_less)

text \<open>An opcode the switch of \<^verbatim>\<open>OneInstruction\<close> has a case for.\<close>

definition executable_op :: "opcode \<Rightarrow> bool" where
  "executable_op op \<longleftrightarrow> op \<notin> {OP_RFE, SPECIAL, BCOND}"

definition instr_wf :: "Instruction \<Rightarrow> bool" where
  "instr_wf i \<longleftrightarrow> executable_op (opCode i) \<and> rs i < 32 \<and> rt i < 32 \<and> rd i < 32
     \<and> (opCode i \<in> {OP_SLL, OP_SRL, OP_SRA} \<longrightarrow> unat (extra i) < 32)"

lemma opTable_shift: "\<forall>p\<in>set opTable. fst p \<notin> {OP_SLL, OP_SRL, OP_SRA}"
  by (simp add: opTable_def)

lemma Decode_wf: "\<exists>i. Instruction_Decode v = Inr i \<and> instr_wf i"
proof -
  let ?k = "unat (drop_bit 26 v AND 0x3f)" and ?l = "unat (v AND 0x3f)"
  have k: "?k < 64" "?l < 64"
    by (simp_all add: unat_less_iff_uint uint_mask_less)
  obtain op fmt where o: "opTable ! ?k = (op, fmt)" by fastforce
  have "(op, fmt) \<in> set opTable"
    using nth_mem [of ?k opTable] k o by simp
  then have op: "op \<noteq> OP_RFE" "op = SPECIAL \<Longrightarrow> fmt = RFMT" "op \<notin> {OP_SLL, OP_SRL, OP_SRA}"
    using opTable_ops opTable_shift by fastforce+
  have get: "arr_get opTable (uint (drop_bit 26 v AND 0x3f)) = Inr (op, fmt)"
    "arr_get specialTable (uint (v AND 0x3f)) = Inr (specialTable ! ?l)"
    using uint_mask_less(1) [of "drop_bit 26 v"] uint_mask_less(1) [of v] o by (simp_all add: arr_get_def)
  have "specialTable ! ?l \<in> set specialTable"
    using nth_mem [of ?l specialTable] k by simp
  then have "specialTable ! ?l \<notin> {OP_RFE, SPECIAL, BCOND}"
    using specialTable_ops by blast
  moreover have "fmt = RFMT \<Longrightarrow> unat (decode_extra v fmt) < 32"
    by (simp add: decode_extra_def uint_mask_less)
  ultimately show ?thesis
    using op by (simp add: Instruction_Decode_def get instr_wf_def executable_op_def Let_def)
qed

section \<open>Overflow tests\<close>

lemma sign_bit_iff: "(w :: 32 word) AND SIGN_BIT \<noteq> 0 \<longleftrightarrow> sint w < 0"
proof -
  have "w AND SIGN_BIT \<noteq> 0 \<longleftrightarrow> bit w 31"
    using and_exp_eq_0_iff_not_bit [of w 31] by (simp add: SIGN_BIT_def)
  then show ?thesis
    using bit_last_iff [of w] by simp
qed

lemma sint_range: "- (2 ^ 31) \<le> sint (w :: 32 word)" "sint w < 2 ^ 31"
  using sint_greater_eq [of w] sint_less [of w] by simp_all

lemma sint_word_of_int_wrap:
  "- (2 ^ 32) \<le> k \<Longrightarrow> k < 2 ^ 32 \<Longrightarrow> sint (word_of_int k :: 32 word) =
     (if k < - (2 ^ 31) then k + 2 ^ 32 else if k < 2 ^ 31 then k else k - 2 ^ 32)"
proof -
  assume k: "- (2 ^ 32) \<le> k" "k < 2 ^ 32"
  have p: "sint (word_of_int j :: 32 word) = j" if "- (2 ^ 31) \<le> j" "j < 2 ^ 31" for j
    using that by (simp add: sint_sbintrunc' signed_take_bit_int_eq_self)
  have "(word_of_int k :: 32 word) = word_of_int (k + 2 ^ 32)" "(word_of_int k :: 32 word) = word_of_int (k - 2 ^ 32)"
    by (simp_all add: word_of_int_eq_iff take_bit_eq_mod)
  then show ?thesis
    using p [of k] p [of "k + 2 ^ 32"] p [of "k - 2 ^ 32"] k by (auto simp del: of_int_add of_int_diff)
qed

definition in_int_range :: "int \<Rightarrow> bool" where
  "in_int_range k \<longleftrightarrow> - (2 ^ 31) \<le> k \<and> k < 2 ^ 31"

lemma xor_sign_iff: "(u XOR v) AND SIGN_BIT \<noteq> 0 \<longleftrightarrow> (sint u < 0 \<longleftrightarrow> \<not> sint v < 0)" for u v :: "32 word"
proof -
  have "(u XOR v) AND SIGN_BIT \<noteq> 0 \<longleftrightarrow> bit (u XOR v) 31"
    using and_exp_eq_0_iff_not_bit [of "u XOR v" 31] by (simp add: SIGN_BIT_def)
  then show ?thesis
    using bit_last_iff [of u] bit_last_iff [of v] by (auto simp: bit_xor_iff)
qed

lemma add_overflow_iff:
  fixes a b :: "32 word"
  shows "(a XOR b) AND SIGN_BIT = 0 \<and> (a XOR (a + b)) AND SIGN_BIT \<noteq> 0 \<longleftrightarrow> \<not> in_int_range (sint a + sint b)"
proof -
  have "a + b = word_of_int (sint a + sint b)" by simp
  then have s: "sint (a + b) = (if sint a + sint b < - (2 ^ 31) then sint a + sint b + 2 ^ 32
      else if sint a + sint b < 2 ^ 31 then sint a + sint b else sint a + sint b - 2 ^ 32)"
    using sint_word_of_int_wrap [of "sint a + sint b"] sint_range [of a] sint_range [of b] by simp
  show ?thesis
    using xor_sign_iff [of a b] xor_sign_iff [of a "a + b"] s sint_range [of a] sint_range [of b]
    by (auto simp: in_int_range_def split: if_splits)
qed

lemma sub_overflow_iff:
  fixes a b :: "32 word"
  shows "(a XOR b) AND SIGN_BIT \<noteq> 0 \<and> (a XOR (a - b)) AND SIGN_BIT \<noteq> 0 \<longleftrightarrow> \<not> in_int_range (sint a - sint b)"
proof -
  have "a - b = word_of_int (sint a - sint b)" by simp
  then have s: "sint (a - b) = (if sint a - sint b < - (2 ^ 31) then sint a - sint b + 2 ^ 32
      else if sint a - sint b < 2 ^ 31 then sint a - sint b else sint a - sint b - 2 ^ 32)"
    using sint_word_of_int_wrap [of "sint a - sint b"] sint_range [of a] sint_range [of b] by simp
  show ?thesis
    using xor_sign_iff [of a b] xor_sign_iff [of a "a - b"] s sint_range [of a] sint_range [of b]
    by (auto simp: in_int_range_def split: if_splits)
qed

section \<open>The machine's invariant\<close>

text \<open>
  Between two instructions register 0 holds zero, the target of the pending delayed load is a
  general purpose register, and the translation tables are as the hardware expects. Inside
  an instruction register 0 may have been overwritten (\<open>running\<close>).
\<close>

definition running :: "'a machine_scheme \<Rightarrow> bool" where
  "running m \<longleftrightarrow> uint (registers m LoadReg) < 32 \<and> mmu_wf m"

definition machine_inv :: "'a machine_scheme \<Rightarrow> bool" where
  "machine_inv m \<longleftrightarrow> running m \<and> registers m 0 = 0"

fun exec_inv :: "'a machine_scheme exec \<Rightarrow> bool" where
  "exec_inv (Trapped m) \<longleftrightarrow> False"
| "exec_inv (Done pc r v m) \<longleftrightarrow> r < 32 \<and> running m"

lemma DelayedLoad_running:
  assumes "running m" and "r < 32"
  shows "\<exists>m'. Machine_DelayedLoad r v m = Inr m' \<and> machine_inv m' \<and> mainMemory m' = mainMemory m
    \<and> registers m' LoadReg = of_nat r \<and> registers m' LoadValueReg = v"
proof -
  have u: "uint (registers m 37) < 32"
    using assms(1) by (simp add: running_def)
  then have i: "sint (registers m 37) = uint (registers m 37)"
    by (intro sint_eq_uint32) simp
  have "unat (of_nat r :: 32 word) = r"
    using assms(2) by (simp add: unat_of_nat take_bit_nat_eq_self)
  then have "uint (of_nat r :: 32 word) < 32"
    using assms(2) by (metis of_nat_less_iff of_nat_numeral uint_nat)
  then show ?thesis
    using assms u by (simp add: Machine_DelayedLoad_def i Let_def machine_inv_def running_def nat_less_iff)
qed

text \<open>
  What an instruction does is described for all exception handlers at once: it ends the same way with every
  handler, or it hands one exception \<open>ex\<close> in one state \<open>m0\<close> to the handler and returns to user mode when that
  returns (\<open>ends_or_raises\<close>; \<open>g\<close> is how the caller sees the state after an exception). So a fault of an
  instruction that is not one of the simulator is the fault of the handler for that exception in that state.
\<close>

definition ends_or_raises ::
    "('b \<Rightarrow> bool) \<Rightarrow> ('a machine_scheme \<Rightarrow> 'b) \<Rightarrow> ('a handler \<Rightarrow> 'b result) \<Rightarrow> bool" where
  "ends_or_raises P g r \<longleftrightarrow> (\<exists>x. P x \<and> (\<forall>eh. r eh = Inr x))
     \<or> (\<exists>ex m0. ex \<noteq> NoException \<and> machine_inv m0 \<and> status m0 = SystemMode
          \<and> (\<forall>eh. r eh = rbind (eh ex m0) (\<lambda>m'. Inr (g (m'\<lparr>status := UserMode\<rparr>)))))"

lemma ends_Inr [simp]: "P x \<Longrightarrow> ends_or_raises P g (\<lambda>eh. Inr x)"
  by (auto simp: ends_or_raises_def)

lemma ends_or_raises_rbind:
  assumes "ends_or_raises P g r" and "\<And>x. P x \<Longrightarrow> ends_or_raises Q h (\<lambda>eh. f eh x)" and "\<And>eh m. f eh (g m) = Inr (h m)"
  shows "ends_or_raises Q h (\<lambda>eh. rbind (r eh) (f eh))"
  using assms(1) unfolding ends_or_raises_def [of P]
proof (elim disjE exE conjE)
  fix x assume "P x" "\<forall>eh. r eh = Inr x"
  then show ?thesis
    using assms(2) by simp
next
  fix ex m0 assume "ex \<noteq> NoException" "machine_inv m0" "status m0 = SystemMode"
    and "\<forall>eh. r eh = rbind (eh ex m0) (\<lambda>m'. Inr (g (m'\<lparr>status := UserMode\<rparr>)))"
  then show ?thesis
    unfolding ends_or_raises_def by (intro disjI2 exI [of _ ex] exI [of _ m0]) (simp add: rbind_assoc assms(3))
qed

lemma ends_or_raises_if:
  "(c \<Longrightarrow> ends_or_raises P g r) \<Longrightarrow> (\<not> c \<Longrightarrow> ends_or_raises P g s) \<Longrightarrow> ends_or_raises P g (\<lambda>eh. if c then r eh else s eh)"
  by (cases c) simp_all

lemma running_status [simp]: "running (m\<lparr>status := s\<rparr>) = running m" "machine_inv (m\<lparr>status := s\<rparr>) = machine_inv m"
  by (auto simp: running_def machine_inv_def mmu_wf_def split: option.splits)

lemma running_set_reg [simp]: "r \<noteq> LoadReg \<Longrightarrow> running (set_reg r v m) = running m"
  by (simp add: running_def)

lemma running_update [simp]: "running (update_entry i e m) = running m" "running (m\<lparr>mainMemory := x\<rparr>) = running m"
  by (simp_all add: running_def)

abbreviation exec_shape :: "('a handler \<Rightarrow> 'a machine_scheme exec result) \<Rightarrow> bool" where
  "exec_shape \<equiv> ends_or_raises exec_inv Trapped"

lemma RaiseException_shape:
  assumes "running m" and "ex \<noteq> NoException"
  shows "ends_or_raises P id (\<lambda>eh. Machine_RaiseException eh ex bad m)"
proof -
  obtain m1 where m1: "Machine_DelayedLoad 0 0 (set_reg 39 bad m) = Inr m1" "machine_inv m1"
    using DelayedLoad_running [of "set_reg 39 bad m" 0 0] assms by auto
  then show ?thesis
    unfolding ends_or_raises_def using assms(2)
    by (intro disjI2 exI [of _ ex] exI [of _ "m1\<lparr>status := SystemMode\<rparr>"]) (simp add: Machine_RaiseException_def)
qed

lemma trap_shape: "running m \<Longrightarrow> ex \<noteq> NoException \<Longrightarrow> exec_shape (\<lambda>eh. trap eh ex bad m)"
  unfolding trap_def by (rule ends_or_raises_rbind [OF RaiseException_shape [where P = "\<lambda>_. False"]]) simp_all

lemma ReadMem_shape:
  assumes "running m" and "sz = 1 \<or> sz = 2 \<or> sz = 4"
  shows "ends_or_raises (\<lambda>(v, m'). v \<noteq> None \<and> running m' \<and> registers m' = registers m) (\<lambda>m'. (None, m'))
    (\<lambda>eh. Machine_ReadMem eh m a sz)"
proof -
  have w: "mmu_wf m"
    using assms(1) by (simp add: running_def)
  consider ex where "ex \<noteq> NoException" "Machine_Translate m a sz False = Inr (Inl ex, m)"
    | i e pa where "translated m a sz False i e pa"
    using Translate_total [OF w assms(2), of a False] by blast
  then show ?thesis
  proof cases
    case 1
    show ?thesis
      unfolding Machine_ReadMem_def 1(2)
      by simp (rule ends_or_raises_rbind [OF RaiseException_shape [OF assms(1) 1(1), where P = "\<lambda>_. False"]]; simp)
  next
    case 2
    then show ?thesis
      using ReadMem_translated [OF w assms(2)] assms(1) by simp
  qed
qed

lemma with_read_shape:
  assumes "running m" and "sz = 1 \<or> sz = 2 \<or> sz = 4"
    and "\<And>v m'. running m' \<Longrightarrow> registers m' = registers m \<Longrightarrow> exec_shape (\<lambda>eh. f eh v m')"
  shows "exec_shape (\<lambda>eh. with_read eh m a sz (f eh))"
  unfolding with_read_def
  by (rule ends_or_raises_rbind [OF ReadMem_shape [OF assms(1,2)]]) (auto simp: assms(3))

lemma with_write_shape:
  assumes "running m" and "sz = 1 \<or> sz = 2 \<or> sz = 4"
  shows "exec_shape (\<lambda>eh. with_write eh m a sz v pc)"
proof -
  have w: "mmu_wf m"
    using assms(1) by (simp add: running_def)
  consider ex where "ex \<noteq> NoException" "Machine_Translate m a sz True = Inr (Inl ex, m)"
    | i e pa where "translated m a sz True i e pa"
    using Translate_total [OF w assms(2), of a True] by blast
  then show ?thesis
  proof cases
    case 1
    show ?thesis
      unfolding with_write_def Machine_WriteMem_def 1(2)
      by (simp add: rbind_assoc) (rule ends_or_raises_rbind [OF RaiseException_shape [OF assms(1) 1(1), where P = "\<lambda>_. False"]]; simp)
  next
    case 2
    then show ?thesis
      using WriteMem_translated [OF w assms(2)] assms(1) by (simp add: with_write_def)
  qed
qed

lemma write_reg_shape: "running m \<Longrightarrow> r \<noteq> 37 \<Longrightarrow> exec_shape (\<lambda>eh. write_reg r v pc m)"
  by (simp add: write_reg_def)

lemma exec_mem_shape:
  assumes "running m" and "instr_wf i"
  shows "opCode i \<in> {OP_LB, OP_LBU, OP_LH, OP_LHU, OP_LUI, OP_LW} \<Longrightarrow> exec_shape (\<lambda>eh. exec_load eh i pc m)"
    "exec_shape (\<lambda>eh. exec_LWL eh i pc m)" "exec_shape (\<lambda>eh. exec_LWR eh i pc m)"
    "opCode i \<in> {OP_SB, OP_SH} \<Longrightarrow> exec_shape (\<lambda>eh. exec_store eh i pc m)"
    "exec_shape (\<lambda>eh. exec_SW eh i pc m)" "exec_shape (\<lambda>eh. exec_SWL eh i pc m)" "exec_shape (\<lambda>eh. exec_SWR eh i pc m)"
proof -
  have r: "rt i < 32" "rt i \<noteq> 37"
    using assms(2) by (auto simp: instr_wf_def)
  show "exec_shape (\<lambda>eh. exec_load eh i pc m)" if "opCode i \<in> {OP_LB, OP_LBU, OP_LH, OP_LHU, OP_LUI, OP_LW}"
    using that assms(1) r
    by (auto simp: exec_load_def Let_def intro!: ends_or_raises_if trap_shape with_read_shape write_reg_shape)
  show "exec_shape (\<lambda>eh. exec_LWL eh i pc m)" "exec_shape (\<lambda>eh. exec_LWR eh i pc m)"
    using assms(1) r by (auto simp: exec_LWL_def exec_LWR_def Let_def intro!: with_read_shape)
  show "exec_shape (\<lambda>eh. exec_store eh i pc m)" if "opCode i \<in> {OP_SB, OP_SH}"
    using that assms(1) by (auto simp: exec_store_def Let_def intro!: with_write_shape)
  show "exec_shape (\<lambda>eh. exec_SW eh i pc m)"
    using assms(1) by (auto simp: exec_SW_def intro!: with_write_shape)
  show "exec_shape (\<lambda>eh. exec_SWL eh i pc m)" "exec_shape (\<lambda>eh. exec_SWR eh i pc m)"
    using assms(1) by (auto simp: exec_SWL_def exec_SWR_def Let_def intro!: with_read_shape with_write_shape)
qed

lemma exec_reg_shape:
  assumes m: "running m" and i: "instr_wf i"
  shows "opCode i \<in> {OP_ADD, OP_ADDI, OP_ADDIU, OP_ADDU, OP_AND, OP_ANDI} \<Longrightarrow> exec_shape (\<lambda>eh. exec_arith eh i pc m)"
    "opCode i \<in> {OP_BEQ, OP_BGEZAL, OP_BGEZ, OP_BGTZ, OP_BLEZ, OP_BLTZAL, OP_BLTZ, OP_BNE} \<Longrightarrow>
       exec_shape (\<lambda>eh. exec_branch i pc m)"
    "opCode i \<in> {OP_JAL, OP_J, OP_JALR, OP_JR} \<Longrightarrow> exec_shape (\<lambda>eh. exec_jump i pc m)"
    "opCode i \<in> {OP_MFHI, OP_MFLO, OP_MTHI, OP_MTLO, OP_MULT, OP_MULTU} \<Longrightarrow> exec_shape (\<lambda>eh. exec_hilo i pc m)"
    "opCode i \<in> {OP_NOR, OP_OR, OP_ORI} \<Longrightarrow> exec_shape (\<lambda>eh. exec_logic i pc m)"
    "opCode i \<in> {OP_SLL, OP_SLLV, OP_SLT, OP_SLTI, OP_SLTIU, OP_SLTU, OP_SRA, OP_SRAV, OP_SRL, OP_SRLV} \<Longrightarrow>
       exec_shape (\<lambda>eh. exec_shift i pc m)"
    "opCode i \<in> {OP_SUB, OP_SUBU} \<Longrightarrow> exec_shape (\<lambda>eh. exec_sub eh i pc m)"
    "opCode i \<in> {OP_SYSCALL, OP_XOR, OP_XORI, OP_RES, OP_UNIMP} \<Longrightarrow> exec_shape (\<lambda>eh. exec_special eh i pc m)"
proof -
  have r: "rt i \<noteq> 37" "rd i \<noteq> 37"
    using i by (auto simp: instr_wf_def)
  note t = trap_shape [OF m] and w = write_reg_shape [OF m r(1)] write_reg_shape [OF m r(2)] write_reg_shape [OF m]
  show "exec_shape (\<lambda>eh. exec_arith eh i pc m)" if "opCode i \<in> {OP_ADD, OP_ADDI, OP_ADDIU, OP_ADDU, OP_AND, OP_ANDI}"
    using that by (auto simp: exec_arith_def Let_def w intro!: ends_or_raises_if t)
  show "exec_shape (\<lambda>eh. exec_branch i pc m)"
    if "opCode i \<in> {OP_BEQ, OP_BGEZAL, OP_BGEZ, OP_BGTZ, OP_BLEZ, OP_BLTZAL, OP_BLTZ, OP_BNE}"
    using that m unfolding insert_iff empty_iff simp_thms by (elim disjE) (simp_all add: exec_branch_def Let_def)
  show "exec_shape (\<lambda>eh. exec_jump i pc m)" if "opCode i \<in> {OP_JAL, OP_J, OP_JALR, OP_JR}"
    using that m r by (auto simp: exec_jump_def Let_def)
  show "exec_shape (\<lambda>eh. exec_hilo i pc m)" if "opCode i \<in> {OP_MFHI, OP_MFLO, OP_MTHI, OP_MTLO, OP_MULT, OP_MULTU}"
    using that m by (auto simp: exec_hilo_def Let_def w split: prod.split)
  show "exec_shape (\<lambda>eh. exec_logic i pc m)" if "opCode i \<in> {OP_NOR, OP_OR, OP_ORI}"
    using that by (auto simp: exec_logic_def Let_def w)
  show "exec_shape (\<lambda>eh. exec_shift i pc m)"
    if "opCode i \<in> {OP_SLL, OP_SLLV, OP_SLT, OP_SLTI, OP_SLTIU, OP_SLTU, OP_SRA, OP_SRAV, OP_SRL, OP_SRLV}"
    using that by (auto simp: exec_shift_def Let_def w)
  show "exec_shape (\<lambda>eh. exec_sub eh i pc m)" if "opCode i \<in> {OP_SUB, OP_SUBU}"
    using that by (auto simp: exec_sub_def Let_def w intro!: ends_or_raises_if t)
  show "exec_shape (\<lambda>eh. exec_special eh i pc m)" if "opCode i \<in> {OP_SYSCALL, OP_XOR, OP_XORI, OP_RES, OP_UNIMP}"
    using that by (auto simp: exec_special_def Let_def t w)
qed

lemma exec_div_shape:
  assumes "running m" and "opCode i \<in> {OP_DIV, OP_DIVU}"
    and "\<not> (opCode i = OP_DIV \<and> registers m (rs i) = 0x80000000 \<and> registers m (rt i) = - 1)"
  shows "exec_shape (\<lambda>eh. exec_div i pc m)"
  using assms by (auto simp: exec_div_def Let_def)

lemma exec_instr_shape:
  assumes m: "running m" and i: "instr_wf i"
    and d: "\<not> (opCode i = OP_DIV \<and> registers m (rs i) = 0x80000000 \<and> registers m (rt i) = - 1)"
  shows "exec_shape (\<lambda>eh. exec_instr eh i pc m)"
  unfolding exec_instr_def Let_def
proof (intro ends_or_raises_if)
  assume "opCode i \<notin> {OP_ADD, OP_ADDI, OP_ADDIU, OP_ADDU, OP_AND, OP_ANDI}"
    "opCode i \<notin> {OP_BEQ, OP_BGEZAL, OP_BGEZ, OP_BGTZ, OP_BLEZ, OP_BLTZAL, OP_BLTZ, OP_BNE}"
    "opCode i \<notin> {OP_DIV, OP_DIVU}" "opCode i \<notin> {OP_JAL, OP_J, OP_JALR, OP_JR}"
    "opCode i \<notin> {OP_LB, OP_LBU, OP_LH, OP_LHU, OP_LUI, OP_LW}" "opCode i \<noteq> OP_LWL" "opCode i \<noteq> OP_LWR"
    "opCode i \<notin> {OP_MFHI, OP_MFLO, OP_MTHI, OP_MTLO, OP_MULT, OP_MULTU}" "opCode i \<notin> {OP_NOR, OP_OR, OP_ORI}"
    "opCode i \<notin> {OP_SB, OP_SH}"
    "opCode i \<notin> {OP_SLL, OP_SLLV, OP_SLT, OP_SLTI, OP_SLTIU, OP_SLTU, OP_SRA, OP_SRAV, OP_SRL, OP_SRLV}"
    "opCode i \<notin> {OP_SUB, OP_SUBU}" "opCode i \<noteq> OP_SW" "opCode i \<noteq> OP_SWL" "opCode i \<noteq> OP_SWR"
  then have "opCode i \<in> {OP_SYSCALL, OP_XOR, OP_XORI, OP_RES, OP_UNIMP}"
    using i by (cases "opCode i") (simp_all add: instr_wf_def executable_op_def)
  then show "exec_shape (\<lambda>eh. exec_special eh i pc m)"
    by (rule exec_reg_shape(8) [OF m i])
qed (assumption | rule exec_mem_shape [OF m i] exec_reg_shape [OF m i] exec_div_shape [OF m _ d])+

lemma finish_instr_done:
  assumes "exec_inv r"
  shows "\<exists>m'. finish_instr r = Inr m' \<and> machine_inv m'"
proof (cases r)
  case (Done pc n v m)
  then obtain m1 where "Machine_DelayedLoad n v m = Inr m1" "machine_inv m1"
    using assms DelayedLoad_running [of m n v] by auto
  then show ?thesis
    using Done by (simp add: finish_instr_def Let_def machine_inv_def)
qed (use assms in simp)

text \<open>The instruction fetched is the signed division of the smallest integer by -1, which traps on the host.\<close>

definition div_overflows :: "'a machine_scheme \<Rightarrow> bool" where
  "div_overflows m \<longleftrightarrow> (\<exists>v m1 i. (\<forall>eh :: 'a handler. Machine_ReadMem eh m (registers m PCReg) 4 = Inr (Some v, m1))
     \<and> Instruction_Decode v = Inr i \<and> opCode i = OP_DIV \<and> registers m (rs i) = 0x80000000 \<and> registers m (rt i) = - 1)"

text \<open>An instruction does one of three things: it traps the host in that division; it ends the same way with every
  handler, in a state with the invariant; or it raises one exception.\<close>

definition raises :: "'a machine_scheme \<Rightarrow> ExceptionType \<Rightarrow> 'a machine_scheme \<Rightarrow> bool" where
  "raises m ex m0 \<longleftrightarrow> (\<forall>eh. Machine_OneInstruction eh m = rbind (eh ex m0) (\<lambda>m'. Inr (m'\<lparr>status := UserMode\<rparr>)))"

lemma OneInstruction_cases:
  fixes m :: "'a machine_scheme"
  assumes "machine_inv m"
  obtains (overflow) "div_overflows m" "\<And>eh :: 'a handler. Machine_OneInstruction eh m = Inl HostTrap"
  | (ends) m' where "\<And>eh :: 'a handler. Machine_OneInstruction eh m = Inr m'" "machine_inv m'"
  | (raises) ex m0 where "ex \<noteq> NoException" "raises m ex m0" "machine_inv m0" "status m0 = SystemMode"
proof -
  have m: "running m"
    using assms by (simp add: machine_inv_def)
  let ?f = "\<lambda>eh :: 'a handler. \<lambda>(raw, m1). (case raw of None \<Rightarrow> Inr m1
      | Some v \<Rightarrow> rbind (Instruction_Decode v) (\<lambda>instr. rbind (exec_instr eh instr (registers m1 NextPCReg + 4) m1) finish_instr))"
  have shape: "div_overflows m \<and> (\<forall>eh :: 'a handler. Machine_OneInstruction eh m = Inl HostTrap)
      \<or> ends_or_raises machine_inv id (\<lambda>eh. Machine_OneInstruction eh m)"
  proof (cases "div_overflows m")
    case True
    then obtain v m1 i where rd: "\<And>eh :: 'a handler. Machine_ReadMem eh m (registers m 34) 4 = Inr (Some v, m1)"
      and i: "Instruction_Decode v = Inr i" "opCode i = OP_DIV" "registers m (rs i) = 0x80000000" "registers m (rt i) = - 1"
      by (auto simp: div_overflows_def)
    have "registers m1 = registers m"
      using ReadMem_shape [OF m, of 4 "registers m 34"] rd by (auto simp: ends_or_raises_def dest: spec [of _ "\<lambda>_ _. Inl AssertFail"])
    then show ?thesis
      using True rd i by (simp add: Machine_OneInstruction_def exec_instr_def exec_div_def)
  next
    case False
    have "ends_or_raises (\<lambda>(v, m1). (\<forall>eh. Machine_ReadMem eh m (registers m PCReg) 4 = Inr (v, m1))
          \<and> v \<noteq> None \<and> running m1 \<and> registers m1 = registers m) (\<lambda>m1. (None, m1))
        (\<lambda>eh. Machine_ReadMem eh m (registers m PCReg) 4)"
      using ReadMem_shape [OF m, of 4 "registers m PCReg"] by (auto simp: ends_or_raises_def)
    then have "ends_or_raises machine_inv id (\<lambda>eh. rbind (Machine_ReadMem eh m (registers m PCReg) 4) (?f eh))"
    proof (rule ends_or_raises_rbind)
      fix x
      assume "case x of (v, m1) \<Rightarrow> (\<forall>eh. Machine_ReadMem eh m (registers m PCReg) 4 = Inr (v, m1))
          \<and> v \<noteq> None \<and> running m1 \<and> registers m1 = registers m"
      then obtain v m1 where x: "x = (Some v, m1)" "running m1" "registers m1 = registers m"
        "\<forall>eh. Machine_ReadMem eh m (registers m PCReg) 4 = Inr (Some v, m1)"
        by auto
      obtain i where i: "Instruction_Decode v = Inr i" "instr_wf i"
        using Decode_wf by blast
      have "\<not> (opCode i = OP_DIV \<and> registers m1 (rs i) = 0x80000000 \<and> registers m1 (rt i) = - 1)"
        using False x(3,4) i(1) unfolding div_overflows_def by metis
      then have "ends_or_raises machine_inv id (\<lambda>eh. rbind (exec_instr eh i (registers m1 NextPCReg + 4) m1) finish_instr)"
        by (intro ends_or_raises_rbind [OF exec_instr_shape [OF x(2) i(2)]])
          (auto simp: finish_instr_def dest!: finish_instr_done)
      then show "ends_or_raises machine_inv id (\<lambda>eh. ?f eh x)"
        using x(1) i(1) by simp
    qed simp
    then show ?thesis
      by (simp add: Machine_OneInstruction_def)
  qed
  from shape show thesis
  proof (elim disjE)
    assume "ends_or_raises machine_inv id (\<lambda>eh. Machine_OneInstruction eh m)"
    then show thesis
      unfolding ends_or_raises_def
    proof (elim disjE exE conjE)
      fix x assume "machine_inv x" "\<forall>eh. Machine_OneInstruction eh m = Inr x"
      then show thesis
        using ends [of x] by blast
    next
      fix ex m0 assume e: "ex \<noteq> NoException" "machine_inv m0" "status m0 = SystemMode"
        and "\<forall>eh. Machine_OneInstruction eh m = rbind (eh ex m0) (\<lambda>m'. Inr (id (m'\<lparr>status := UserMode\<rparr>)))"
      then have "MipsProofs.raises m ex m0"
        by (simp add: raises_def)
      then show thesis
        using raises [of ex m0] e by blast
    qed
  qed (use overflow in blast)
qed

text \<open>The contract of the kernel's exception handler: it keeps the invariant, if it returns.\<close>

locale exception_handler =
  fixes eh :: "'a handler"
  assumes handler_inv: "machine_inv m \<Longrightarrow> eh ex m = Inr m' \<Longrightarrow> machine_inv m'"
begin

text \<open>Then an instruction keeps the invariant too, and every other end of it is accounted for.\<close>

lemma OneInstruction_safe:
  assumes "machine_inv m"
  shows "(div_overflows m \<and> Machine_OneInstruction eh m = Inl HostTrap)
    \<or> (\<exists>m'. Machine_OneInstruction eh m = Inr m' \<and> machine_inv m')
    \<or> (\<exists>ex m0 f. ex \<noteq> NoException \<and> raises m ex m0 \<and> machine_inv m0 \<and> status m0 = SystemMode
         \<and> eh ex m0 = Inl f \<and> Machine_OneInstruction eh m = Inl f)"
  using assms
proof (cases rule: OneInstruction_cases)
  case (raises ex m0)
  have r: "Machine_OneInstruction eh m = rbind (eh ex m0) (\<lambda>m'. Inr (m'\<lparr>status := UserMode\<rparr>))"
    using raises(2) by (simp add: raises_def)
  show ?thesis
  proof (cases "eh ex m0")
    case (Inl f)
    then show ?thesis
      using raises r by auto
  next
    case (Inr m')
    then have "machine_inv (m'\<lparr>status := UserMode\<rparr>)"
      using handler_inv [OF raises(3)] by simp
    then show ?thesis
      using Inr r by simp
  qed
qed auto

end

section \<open>Unaligned words\<close>

text \<open>Words are compared byte by byte.\<close>

definition byte :: "32 word \<Rightarrow> nat \<Rightarrow> 8 word" where
  "byte w b = ucast (drop_bit (8 * b) w)"

lemma bit_byte [simp]: "bit (byte w b) r \<longleftrightarrow> r < 8 \<and> bit w (8 * b + r)"
  by (simp add: byte_def bit_simps)

lemma word_eq_bytes:
  assumes "byte x 0 = byte y 0" "byte x 1 = byte y 1" "byte x 2 = byte y 2" "byte x 3 = byte y 3"
  shows "x = y"
proof (rule bit_word_eqI)
  fix n
  assume "n < LENGTH(32)"
  then have "n div 8 < 4" "n = 8 * (n div 8) + n mod 8" "n mod 8 < 8" by simp_all
  moreover have "byte x (n div 8) = byte y (n div 8)"
  proof -
    consider "n div 8 = 0" | "n div 8 = 1" | "n div 8 = 2" | "n div 8 = 3"
      using \<open>n div 8 < 4\<close> by linarith
    then show ?thesis using assms by cases simp_all
  qed
  then have "bit (byte x (n div 8)) (n mod 8) = bit (byte y (n div 8)) (n mod 8)" by simp
  ultimately show "bit x n = bit y n" by simp
qed

lemma bit_load32_byte:
  assumes "r < 8"
  shows "bit (load32 mem p) r = bit (mem p) r" "bit (load32 mem p) (8 + r) = bit (mem (p + 1)) r"
    "bit (load32 mem p) (16 + r) = bit (mem (p + 2)) r" "bit (load32 mem p) (24 + r) = bit (mem (p + 3)) r"
  using assms by (auto simp: load32_def bit_simps dest: bit_word8)

lemma byte_load32 [simp]: "b < 4 \<Longrightarrow> byte (load32 mem p) b = mem (p + b)"
proof -
  assume "b < 4"
  then have "b = 0 \<or> b = 1 \<or> b = 2 \<or> b = 3" by linarith
  then show ?thesis
    by (elim disjE) (rule bit_word_eqI, simp add: bit_load32_byte)+
qed

lemma store32_byte:
  "store32 mem p v = mem(p := byte v 0, p + 1 := byte v 1, p + 2 := byte v 2, p + 3 := byte v 3)"
  by (simp add: store32_def byte_def)

lemma byte_masks: "(0xff :: 32 word) = mask 8" "(0xffff :: 32 word) = mask 16" "(0xffffff :: 32 word) = mask 24"
  "(0xffffff00 :: 32 word) = NOT (mask 8)" "(0xffff0000 :: 32 word) = NOT (mask 16)" "(0xff000000 :: 32 word) = NOT (mask 24)"
  by (simp_all add: mask_eq_exp_minus_1)

text \<open>The bytes of the four merges: \<open>k\<close> is \<^verbatim>\<open>3 - byte\<close>.\<close>

lemma byte_lwl:
  "k < 4 \<Longrightarrow> b < 4 \<Longrightarrow> byte (lwl_merge k old v) b = (if b < k then byte old b else byte v (b - k))"
proof -
  assume "k < 4" "b < 4"
  then have "k = 0 \<or> k = 1 \<or> k = 2 \<or> k = 3" "b = 0 \<or> b = 1 \<or> b = 2 \<or> b = 3" by linarith+
  then show ?thesis
    by (elim disjE) (rule bit_word_eqI, simp add: lwl_merge_def byte_masks bit_simps, linarith?)+
qed

lemma byte_lwr:
  "k < 4 \<Longrightarrow> b < 4 \<Longrightarrow> byte (lwr_merge k old v) b = (if b < k + 1 then byte v (b + (3 - k)) else byte old b)"
proof -
  assume "k < 4" "b < 4"
  then have "k = 0 \<or> k = 1 \<or> k = 2 \<or> k = 3" "b = 0 \<or> b = 1 \<or> b = 2 \<or> b = 3" by linarith+
  then show ?thesis
    by (elim disjE) (rule bit_word_eqI, simp add: lwr_merge_def byte_masks bit_simps, linarith?)+
qed

lemma byte_swl:
  "k < 4 \<Longrightarrow> b < 4 \<Longrightarrow> byte (swl_merge k old v) b = (if b + k < 4 then byte v (b + k) else byte old b)"
proof -
  assume "k < 4" "b < 4"
  then have "k = 0 \<or> k = 1 \<or> k = 2 \<or> k = 3" "b = 0 \<or> b = 1 \<or> b = 2 \<or> b = 3" by linarith+
  then show ?thesis
    by (elim disjE) (rule bit_word_eqI, simp add: swl_merge_def byte_masks bit_simps, linarith?)+
qed

lemma byte_swr:
  "k < 4 \<Longrightarrow> b < 4 \<Longrightarrow> byte (swr_merge k old v) b = (if b + k < 3 then byte old b else byte v (b + k - 3))"
proof -
  assume "k < 4" "b < 4"
  then have "k = 0 \<or> k = 1 \<or> k = 2 \<or> k = 3" "b = 0 \<or> b = 1 \<or> b = 2 \<or> b = 3" by linarith+
  then show ?thesis
    by (elim disjE) (rule bit_word_eqI, simp add: swr_merge_def byte_masks bit_simps, linarith?)+
qed

lemma unat_and3: "unat (w AND 3 :: 32 word) = unat w mod 4"
proof -
  have m: "(3 :: nat) = mask 2"
    by (simp add: mask_eq_exp_minus_1)
  have "unat (w AND 3) = unat w AND 3"
    by (simp add: unsigned_and_eq)
  then show ?thesis
    unfolding m take_bit_eq_mask [symmetric] by (simp add: take_bit_eq_mod)
qed

lemma unaligned_end:
  fixes a :: "32 word"
  shows "unat ((a + 3) AND 3) = (unat (a AND 3) + 3) mod 4"
    and "a + 3 - ((a + 3) AND 3) = (if unat (a AND 3) = 0 then a - (a AND 3) else a - (a AND 3) + 4)"
proof -
  have "unat (a + 3) = (unat a + 3) mod 2 ^ 32"
    by (simp add: unat_word_ariths)
  moreover have "(unat a + 3) mod 2 ^ 32 mod 4 = (unat a + 3) mod 4"
    by (simp add: mod_mod_cancel)
  ultimately show k: "unat ((a + 3) AND 3) = (unat (a AND 3) + 3) mod 4"
    unfolding unat_and3 by (simp add: mod_add_left_eq)
  have w: "(a + 3) AND 3 = of_nat ((unat (a AND 3) + 3) mod 4)" "a AND 3 = of_nat (unat (a AND 3))"
    unfolding k [symmetric] by simp_all
  have "unat (a AND 3) < 4"
    by (simp add: unat_and3)
  then have "unat (a AND 3) = 0 \<or> unat (a AND 3) = 1 \<or> unat (a AND 3) = 2 \<or> unat (a AND 3) = 3"
    by linarith
  then show "a + 3 - ((a + 3) AND 3) = (if unat (a AND 3) = 0 then a - (a AND 3) else a - (a AND 3) + 4)"
    unfolding w(1) by (elim disjE) (use w(2) in auto)
qed

text \<open>Where byte \<open>j\<close> of an unaligned word is: \<open>p\<close> and \<open>q\<close> are the aligned words it touches, \<open>k\<close> its offset in the first.\<close>

definition unaligned_byte :: "nat \<Rightarrow> nat \<Rightarrow> nat \<Rightarrow> nat \<Rightarrow> nat" where
  "unaligned_byte p q k j = (if k + j < 4 then p + (k + j) else q + (k + j - 4))"

lemma less4: "(k :: nat) < 4 \<longleftrightarrow> k = 0 \<or> k = 1 \<or> k = 2 \<or> k = 3"
  by auto

lemma unaligned_load_bytes:
  assumes "k < 4" and "j < 4" and "k = 0 \<Longrightarrow> q = p"
  shows "byte (lwl_merge (3 - (k + 3) mod 4) (lwr_merge (3 - k) old (load32 mem p)) (load32 mem q)) j
    = mem (unaligned_byte p q k j)"
  using assms unfolding less4 by (elim disjE; simp add: byte_lwl byte_lwr unaligned_byte_def; simp add: eval_nat_numeral)

lemma store32_at: "j < 4 \<Longrightarrow> store32 mem p v (p + j) = byte v j"
  unfolding less4 by (elim disjE) (simp_all add: store32_byte)

lemma unaligned_store_bytes:
  assumes "k < 4" and "k = 0 \<Longrightarrow> q = p" and "k \<noteq> 0 \<Longrightarrow> p + 4 \<le> q \<or> q + 4 \<le> p"
    and mem1: "mem1 = store32 mem p (swr_merge (3 - k) (load32 mem p) v)"
    and mem2: "mem2 = store32 mem1 q (swl_merge (3 - (k + 3) mod 4) (load32 mem1 q) v)"
  shows "\<forall>j < 4. mem2 (unaligned_byte p q k j) = byte v j"
    and "\<forall>x. x \<notin> unaligned_byte p q k ` {..<4} \<longrightarrow> mem2 x = mem x"
proof -
  have sp: "mem1 x = (if p \<le> x \<and> x < p + 4 then byte (swr_merge (3 - k) (load32 mem p) v) (x - p) else mem x)" for x
    using store32_at [of "x - p" mem p] store32_other [of x p mem] by (auto simp: mem1)
  have sq: "mem2 x = (if q \<le> x \<and> x < q + 4 then byte (swl_merge (3 - (k + 3) mod 4) (load32 mem1 q) v) (x - q) else mem1 x)" for x
    using store32_at [of "x - q" mem1 q] store32_other [of x q mem1] by (auto simp: mem2)
  show "\<forall>j < 4. mem2 (unaligned_byte p q k j) = byte v j"
  proof (intro allI impI)
    fix j :: nat assume "j < 4"
    with assms(1) show "mem2 (unaligned_byte p q k j) = byte v j"
      using assms(2,3) unfolding less4
      by (elim disjE; auto simp: unaligned_byte_def sq sp byte_swl byte_swr; simp add: eval_nat_numeral)
  qed
  show "\<forall>x. x \<notin> unaligned_byte p q k ` {..<4} \<longrightarrow> mem2 x = mem x"
  proof (intro allI impI)
    fix x assume x: "x \<notin> unaligned_byte p q k ` {..<4}"
    have n: "x \<noteq> unaligned_byte p q k 0" "x \<noteq> unaligned_byte p q k 1" "x \<noteq> unaligned_byte p q k 2" "x \<noteq> unaligned_byte p q k 3"
      using x by auto
    have b: "byte (load32 mem' y) (z - y) = mem' z" if "y \<le> z" "z < y + 4" for mem' y z
      using byte_load32 [of "z - y" mem' y] that by simp
    show "mem2 x = mem x"
      using assms(1) n assms(2,3) unfolding less4
      by (elim disjE; auto simp: unaligned_byte_def sq sp byte_swl byte_swr b intro!: arg_cong [where f = mem])
  qed
qed

section \<open>Unaligned accesses by pairs of instructions\<close>

text \<open>\<open>word_at m w va p\<close>: the aligned word at virtual address \<open>va\<close> is at \<open>p\<close> in main memory, and can be written when \<open>w\<close>.\<close>

definition word_at :: "'a machine_scheme \<Rightarrow> bool \<Rightarrow> 32 word \<Rightarrow> nat \<Rightarrow> bool" where
  "word_at m w va p \<longleftrightarrow> (\<exists>i e pa. translated m va 4 w i e pa \<and> p = unat pa)"

lemma word_at_touch:
  assumes "mmu_wf m" and "translated m va 4 w i e pa"
  shows "word_at (update_entry i (touch w e) m) = word_at m"
proof (intro ext)
  fix w' va' p
  have "maps m (va div 128) i e"
    using assms(2) by (simp add: translated_def)
  note l = lookup_entry_touch [OF assms(1) this, of w "va' div 128"]
  show "word_at (update_entry i (touch w e) m) w' va' p = word_at m w' va' p"
  proof (cases "\<exists>j e'. lookup_entry m (va' div 128) = Inr (Inr (j, e'))")
    case True
    then obtain j e' where "lookup_entry m (va' div 128) = Inr (Inr (j, e'))"
      by blast
    then show ?thesis
      using l by (auto simp: word_at_def translated_def maps_def)
  next
    case False
    then have "lookup_entry (update_entry i (touch w e) m) (va' div 128) = lookup_entry m (va' div 128)"
      using l by (auto split: sum.splits prod.splits)
    then show ?thesis
      by (simp add: word_at_def translated_def maps_def)
  qed
qed

lemma word_at_registers [simp]: "word_at (m\<lparr>registers := R\<rparr>) = word_at m" "word_at (m\<lparr>mainMemory := x\<rparr>) = word_at m"
  "word_at (set_reg r v m) = word_at m"
  by (simp_all add: fun_eq_iff word_at_def translated_def maps_def lookup_entry_def set_reg_def cong: option.case_cong)

lemma word_at_read: "word_at m True va p \<Longrightarrow> word_at m False va p"
  by (auto simp: word_at_def translated_def)

text \<open>What an access to an aligned word leaves as it was.\<close>

definition same_view :: "'a machine_scheme \<Rightarrow> 'a machine_scheme \<Rightarrow> bool" where
  "same_view m m' \<longleftrightarrow> registers m' = registers m \<and> word_at m' = word_at m \<and> (running m \<longrightarrow> running m')"

lemma read_word:
  assumes "running m" and "word_at m False va p"
  obtains m1 where "\<And>f. with_read eh m va 4 f = f (load32 (mainMemory m) p) m1" "same_view m m1" "mainMemory m1 = mainMemory m"
proof -
  have wf: "mmu_wf m"
    using assms(1) by (simp add: running_def)
  obtain i e pa where t: "translated m va 4 False i e pa" "p = unat pa"
    using assms(2) by (auto simp: word_at_def)
  show thesis
    by (rule that [of "update_entry i (touch False e) m"])
      (use t wf in \<open>simp_all add: with_read_def ReadMem_translated [OF wf _ t(1)] load_value_def same_view_def word_at_touch [OF wf t(1)] WordToHost_def\<close>)
qed

lemma write_word:
  assumes "running m" and "word_at m True va p"
  obtains m1 where "with_write eh m va 4 v pc = Inr (Done pc 0 0 m1)" "same_view m m1" "mainMemory m1 = store32 (mainMemory m) p v"
proof -
  have wf: "mmu_wf m"
    using assms(1) by (simp add: running_def)
  obtain i e pa where t: "translated m va 4 True i e pa" "p = unat pa"
    using assms(2) by (auto simp: word_at_def)
  show thesis
    by (rule that [of "(update_entry i (touch True e) m)\<lparr>mainMemory := store32 (mainMemory m) p v\<rparr>"])
      (use t wf in \<open>simp_all add: with_write_def WriteMem_translated [OF wf _ t(1)] store_value_def same_view_def word_at_touch [OF wf t(1)] WordToMachine_def WordToHost_def\<close>)
qed

text \<open>After an instruction the pending load is done and the new one is pending.\<close>

lemma DelayedLoad_registers:
  assumes "running m" and "r < 32"
  obtains m' where "Machine_DelayedLoad r v m = Inr m'" "machine_inv m'" "mainMemory m' = mainMemory m" "word_at m' = word_at m"
    "registers m' LoadReg = of_nat r" "registers m' LoadValueReg = v" "\<And>x. x < 32 \<Longrightarrow> registers m' x = (if x = 0 then 0 else pending m x)"
proof -
  have u: "uint (registers m 37) < 32"
    using assms(1) by (simp add: running_def)
  then have i: "sint (registers m 37) = uint (registers m 37)"
    by (intro sint_eq_uint32) simp
  have eq: "registers m 37 = of_nat x \<longleftrightarrow> nat (uint (registers m 37)) = x" if "x < 32" for x
    using that by (auto simp: unat_of_nat take_bit_nat_eq_self simp flip: unat_eq_nat_uint)
  obtain m1 where m1: "Machine_DelayedLoad r v m = Inr m1" "machine_inv m1"
    using DelayedLoad_running [OF assms, of v] by blast
  have e: "m1 = set_reg 0 0 (set_reg 38 v (set_reg 37 (of_nat r) (set_reg (nat (uint (registers m 37))) (registers m 38) m)))"
    using m1(1) u by (simp add: Machine_DelayedLoad_def i)
  show thesis
    by (rule that [of m1]) (use m1 u eq in \<open>auto simp: e pending_def nat_less_iff\<close>)
qed

lemma finish_registers:
  assumes "running m" and "r < 32"
  obtains m' where "finish_instr (Done pc r v m) = Inr m'" "machine_inv m'" "mainMemory m' = mainMemory m" "word_at m' = word_at m"
    "registers m' LoadReg = of_nat r" "registers m' LoadValueReg = v" "\<And>x. x < 32 \<Longrightarrow> registers m' x = (if x = 0 then 0 else pending m x)"
proof -
  obtain m1 where m1: "Machine_DelayedLoad r v m = Inr m1" "machine_inv m1" "mainMemory m1 = mainMemory m" "word_at m1 = word_at m"
    "registers m1 LoadReg = of_nat r" "registers m1 LoadValueReg = v" "\<And>x. x < 32 \<Longrightarrow> registers m1 x = (if x = 0 then 0 else pending m x)"
    using DelayedLoad_registers [OF assms] by metis
  show thesis
    by (rule that [of "set_reg 35 pc (set_reg 34 (registers m1 35) (set_reg 36 (registers m1 34) m1))"])
      (use m1 in \<open>simp_all add: finish_instr_def Let_def machine_inv_def\<close>)
qed

text \<open>An instruction after it has been fetched and decoded.\<close>

definition exec_finish :: "'a handler \<Rightarrow> Instruction \<Rightarrow> 'a machine_scheme \<Rightarrow> 'a machine_scheme result" where
  "exec_finish eh i m = rbind (exec_instr eh i (registers m NextPCReg + 4) m) finish_instr"

text \<open>No load into register \<open>r\<close> is pending.\<close>

definition settled :: "'a machine_scheme \<Rightarrow> nat \<Rightarrow> bool" where
  "settled m r \<longleftrightarrow> r = 0 \<or> registers m LoadReg \<noteq> of_nat r"

lemma settled_pending: "machine_inv m \<Longrightarrow> settled m r \<Longrightarrow> (if r = 0 then 0 else pending m r) = registers m r"
  by (auto simp: settled_def pending_def machine_inv_def)

lemma exec_load_word:
  assumes "machine_inv m" and "rt i < 32" and "opCode i = OP_LWR \<and> mrg = lwr_merge \<or> opCode i = OP_LWL \<and> mrg = lwl_merge"
    and "a = registers m (rs i) + extra i"
    and "word_at m False (a - (a AND 3)) p"
  obtains m' where "exec_finish eh i m = Inr m'" "machine_inv m'" "mainMemory m' = mainMemory m" "word_at m' = word_at m"
    "\<And>x. x < 32 \<Longrightarrow> registers m' x = (if x = 0 then 0 else pending m x)"
    "pending m' (rt i) = mrg (3 - unat (a AND 3)) (pending m (rt i)) (load32 (mainMemory m) p)"
proof -
  have r: "running m"
    using assms(1) by (simp add: machine_inv_def)
  obtain m1 where m1: "\<And>f. with_read eh m (a - (a AND 3)) 4 f = f (load32 (mainMemory m) p) m1" "same_view m m1" "mainMemory m1 = mainMemory m"
    using read_word [OF r assms(5)] by blast
  let ?v = "mrg (3 - unat (a AND 3)) (pending m1 (rt i)) (load32 (mainMemory m) p)"
  have pend: "pending m1 = pending m"
    using m1(2) by (simp add: fun_eq_iff pending_def same_view_def)
  have "running m1"
    using m1(2) r by (simp add: same_view_def)
  then obtain m' where m': "finish_instr (Done (registers m NextPCReg + 4) (rt i) ?v m1) = Inr m'" "machine_inv m'"
    "mainMemory m' = mainMemory m1" "word_at m' = word_at m1" "registers m' LoadReg = of_nat (rt i)" "registers m' LoadValueReg = ?v"
    "\<And>x. x < 32 \<Longrightarrow> registers m' x = (if x = 0 then 0 else pending m1 x)"
    using finish_registers [OF _ assms(2)] by metis
  show thesis
    by (rule that [of m']) (use m' m1 assms(3,4) pend in
      \<open>auto simp: exec_finish_def exec_instr_def exec_LWR_def exec_LWL_def Let_def same_view_def pending_def [of m']\<close>)
qed

lemma exec_store_word:
  assumes "machine_inv m" and "opCode i = OP_SWR \<and> mrg = swr_merge \<or> opCode i = OP_SWL \<and> mrg = swl_merge"
    and "a = registers m (rs i) + extra i" and "word_at m True (a - (a AND 3)) p"
  obtains m' where "exec_finish eh i m = Inr m'" "machine_inv m'" "word_at m' = word_at m"
    "mainMemory m' = store32 (mainMemory m) p (mrg (3 - unat (a AND 3)) (load32 (mainMemory m) p) (registers m (rt i)))"
    "\<And>x. x < 32 \<Longrightarrow> registers m' x = (if x = 0 then 0 else pending m x)"
proof -
  have r: "running m"
    using assms(1) by (simp add: machine_inv_def)
  obtain m1 where m1: "\<And>f. with_read eh m (a - (a AND 3)) 4 f = f (load32 (mainMemory m) p) m1" "same_view m m1" "mainMemory m1 = mainMemory m"
    using read_word [OF r word_at_read [OF assms(4)]] by blast
  let ?v = "mrg (3 - unat (a AND 3)) (load32 (mainMemory m) p) (registers m1 (rt i))"
  have r1: "running m1" "word_at m1 True (a - (a AND 3)) p"
    using m1(2) r assms(4) by (simp_all add: same_view_def)
  obtain m2 where m2: "with_write eh m1 (a - (a AND 3)) 4 ?v (registers m NextPCReg + 4) = Inr (Done (registers m NextPCReg + 4) 0 0 m2)"
    "same_view m1 m2" "mainMemory m2 = store32 (mainMemory m1) p ?v"
    using write_word [OF r1] by blast
  have "running m2" "pending m2 = pending m"
    using m1(2) m2(2) r by (simp_all add: fun_eq_iff pending_def same_view_def)
  then obtain m' where m': "finish_instr (Done (registers m NextPCReg + 4) 0 0 m2) = Inr m'" "machine_inv m'"
    "mainMemory m' = mainMemory m2" "word_at m' = word_at m2"
    "\<And>x. x < 32 \<Longrightarrow> registers m' x = (if x = 0 then 0 else pending m2 x)"
    using finish_registers [of m2 0 "registers m NextPCReg + 4" 0] by (metis zero_less_numeral)
  show thesis
    by (rule that [of m']) (use m' m1 m2 assms(2,3) \<open>pending m2 = pending m\<close> in
      \<open>auto simp: exec_finish_def exec_instr_def exec_SWR_def exec_SWL_def Let_def same_view_def\<close>)
qed

lemma word_at_disjoint:
  assumes "word_at m w a p" and "word_at m w (a + 4) q"
  shows "p + 4 \<le> q \<or> q + 4 \<le> p"
proof -
  obtain x y :: "32 word" and f g where t: "uint x = f * 128 + uint a mod 128" "4 dvd uint x" "p = unat x"
      "uint y = g * 128 + uint (a + 4) mod 128" "4 dvd uint y" "q = unat y"
    using assms by (auto simp: word_at_def translated_def)
  have "uint (a + 4) mod 128 = (uint a + 4) mod 128"
    by (simp add: uint_word_ariths mod_mod_cancel)
  then have "uint x mod 128 = uint a mod 128" "uint y mod 128 = (uint a + 4) mod 128"
    using t(1,4) by simp_all
  moreover have "(uint a + 4) mod 128 \<noteq> uint a mod 128"
    by (simp add: mod_eq_dvd_iff)
  ultimately have "uint x \<noteq> uint y"
    by metis
  moreover have "p + 4 \<le> q \<or> q + 4 \<le> p" if "int p \<noteq> int q" "4 dvd int p" "4 dvd int q"
    using that by presburger
  ultimately show ?thesis
    using t(2,3,5,6) by simp
qed


text \<open>The base register, the offset in the first word and the addresses of the two instructions of a pair.\<close>

lemma unaligned_words:
  assumes "word_at m w (a - (a AND 3)) p" and "word_at m w (a + 3 - ((a + 3) AND 3)) q" and "k = unat (a AND 3)"
  shows "k < 4" and "unat ((a + 3) AND 3) = (k + 3) mod 4" and "k = 0 \<Longrightarrow> q = p" and "k \<noteq> 0 \<Longrightarrow> p + 4 \<le> q \<or> q + 4 \<le> p"
  using unaligned_end(1) [of a] assms word_at_disjoint [of m w "a - (a AND 3)" p q]
  unfolding unaligned_end(2) by (auto simp: unat_and3 word_at_def dest: translated_fun)

lemma unaligned_load:
  assumes "machine_inv m" and "0 < r" "r < 32" and "b < 32" and "settled m b" and "a = registers m b + off" and "k = unat (a AND 3)"
    and p: "word_at m False (a - (a AND 3)) p" and q: "word_at m False (a + 3 - ((a + 3) AND 3)) q"
  obtains m1 m2 m3 where "exec_finish eh \<lparr>opCode = OP_LWR, rs = b, rt = r, rd = 0, extra = off\<rparr> m = Inr m1"
    "exec_finish eh \<lparr>opCode = OP_LWL, rs = b, rt = r, rd = 0, extra = off + 3\<rparr> m1 = Inr m2"
    "Machine_DelayedLoad 0 0 m2 = Inr m3" "mainMemory m3 = mainMemory m"
    "\<forall>j < 4. byte (registers m3 r) j = mainMemory m (unaligned_byte p q k j)"
proof -
  let ?i = "\<lparr>opCode = OP_LWR, rs = b, rt = r, rd = 0, extra = off\<rparr>" and ?j = "\<lparr>opCode = OP_LWL, rs = b, rt = r, rd = 0, extra = off + 3\<rparr>"
  note k = unaligned_words [OF p q assms(7)]
  have a: "a = registers m (rs ?i) + extra ?i" and r: "rt ?i < 32" "rt ?j < 32"
    using assms by simp_all
  obtain m1 where m1: "exec_finish eh ?i m = Inr m1" "machine_inv m1" "mainMemory m1 = mainMemory m" "word_at m1 = word_at m"
    "\<And>x. x < 32 \<Longrightarrow> registers m1 x = (if x = 0 then 0 else pending m x)"
    "pending m1 (rt ?i) = lwr_merge (3 - unat (a AND 3)) (pending m (rt ?i)) (load32 (mainMemory m) p)"
    by (rule exec_load_word [OF assms(1) r(1) _ a p, where eh = eh and mrg = lwr_merge]) auto
  have a3: "a + 3 = registers m1 (rs ?j) + extra ?j"
    using m1(5) [OF assms(4)] settled_pending [OF assms(1,5)] assms(6) by simp
  have q1: "word_at m1 False (a + 3 - ((a + 3) AND 3)) q"
    using m1(4) q by simp
  obtain m2 where m2: "exec_finish eh ?j m1 = Inr m2" "machine_inv m2" "mainMemory m2 = mainMemory m1"
    "pending m2 (rt ?j) = lwl_merge (3 - unat ((a + 3) AND 3)) (pending m1 (rt ?j)) (load32 (mainMemory m1) q)"
    by (rule exec_load_word [OF m1(2) r(2) _ a3 q1, where eh = eh and mrg = lwl_merge]) auto
  obtain m3 where m3: "Machine_DelayedLoad 0 0 m2 = Inr m3" "mainMemory m3 = mainMemory m2"
    "\<And>x. x < 32 \<Longrightarrow> registers m3 x = (if x = 0 then 0 else pending m2 x)"
    using DelayedLoad_registers [of m2 0 0] m2(2) by (auto simp: machine_inv_def)
  show thesis
    using m1 m2 m3(1,2) m3(3) [OF assms(3)] assms(2) unaligned_load_bytes [OF k(1) _ k(3)]
    by (intro that [of m1 m2 m3]) (simp_all add: k(2) assms(7) [symmetric])
qed

lemma unaligned_store:
  assumes "machine_inv m" and "r < 32" and "b < 32" and "settled m b" and "settled m r" and "a = registers m b + off" and "k = unat (a AND 3)"
    and p: "word_at m True (a - (a AND 3)) p" and q: "word_at m True (a + 3 - ((a + 3) AND 3)) q"
  obtains m1 m2 where "exec_finish eh \<lparr>opCode = OP_SWR, rs = b, rt = r, rd = 0, extra = off\<rparr> m = Inr m1"
    "exec_finish eh \<lparr>opCode = OP_SWL, rs = b, rt = r, rd = 0, extra = off + 3\<rparr> m1 = Inr m2"
    "\<forall>j < 4. mainMemory m2 (unaligned_byte p q k j) = byte (registers m r) j"
    "\<forall>x. x \<notin> unaligned_byte p q k ` {..<4} \<longrightarrow> mainMemory m2 x = mainMemory m x"
proof -
  let ?i = "\<lparr>opCode = OP_SWR, rs = b, rt = r, rd = 0, extra = off\<rparr>" and ?j = "\<lparr>opCode = OP_SWL, rs = b, rt = r, rd = 0, extra = off + 3\<rparr>"
  note k = unaligned_words [OF p q assms(7)]
  have a: "a = registers m (rs ?i) + extra ?i"
    using assms by simp
  obtain m1 where m1: "exec_finish eh ?i m = Inr m1" "machine_inv m1" "word_at m1 = word_at m"
    "mainMemory m1 = store32 (mainMemory m) p (swr_merge (3 - unat (a AND 3)) (load32 (mainMemory m) p) (registers m (rt ?i)))"
    "\<And>x. x < 32 \<Longrightarrow> registers m1 x = (if x = 0 then 0 else pending m x)"
    by (rule exec_store_word [OF assms(1) _ a p, where eh = eh and mrg = swr_merge]) auto
  have a3: "a + 3 = registers m1 (rs ?j) + extra ?j" and r1: "registers m1 r = registers m r"
    using m1(5) [OF assms(3)] m1(5) [OF assms(2)] settled_pending [OF assms(1,4)] settled_pending [OF assms(1,5)] assms(6) by simp_all
  have q1: "word_at m1 True (a + 3 - ((a + 3) AND 3)) q"
    using m1(3) q by simp
  obtain m2 where m2: "exec_finish eh ?j m1 = Inr m2"
    "mainMemory m2 = store32 (mainMemory m1) q (swl_merge (3 - unat ((a + 3) AND 3)) (load32 (mainMemory m1) q) (registers m1 (rt ?j)))"
    by (rule exec_store_word [OF m1(2) _ a3 q1, where eh = eh and mrg = swl_merge]) auto
  have mem: "mainMemory m1 = store32 (mainMemory m) p (swr_merge (3 - k) (load32 (mainMemory m) p) (registers m r))"
      "mainMemory m2 = store32 (mainMemory m1) q (swl_merge (3 - (k + 3) mod 4) (load32 (mainMemory m1) q) (registers m r))"
    using m1(4) m2(2) r1 by (simp_all add: k(2) assms(7) [symmetric])
  show thesis
    using m1(1) m2(1) unaligned_store_bytes [OF k(1,3,4) mem] that by blast
qed

section \<open>Memory an instruction can change\<close>

text \<open>The bytes of the frames a program may write: those of valid, writable entries.\<close>

definition writable_byte :: "'a machine_scheme \<Rightarrow> nat \<Rightarrow> bool" where
  "writable_byte m q \<longleftrightarrow> (\<exists>vpn i e. maps m vpn i e \<and> valid e \<and> \<not> readOnly e
     \<and> int q div PageSize = uint (physicalPage e) \<and> int q < MemorySize)"

definition mem_confined :: "'a machine_scheme \<Rightarrow> 'a machine_scheme \<Rightarrow> bool" where
  "mem_confined m m' \<longleftrightarrow> (\<forall>q. mainMemory m' q \<noteq> mainMemory m q \<longrightarrow> writable_byte m q)"

lemma mem_confined_same: "mainMemory m' = mainMemory m \<Longrightarrow> mem_confined m m'"
  by (simp add: mem_confined_def)

lemma with_write_confined:
  assumes wf: "mmu_wf m" and sz: "sz = 1 \<or> sz = 2 \<or> sz = 4" and d: "with_write eh m a sz v pc = Inr (Done pc' r x m')"
  shows "mem_confined m m'"
proof -
  have w: "Machine_WriteMem eh m a sz v = Inr (True, m')"
    using d by (auto simp: with_write_def rbind_eq_Inr_iff split: if_splits)
  obtain i e pa where ok: "translated m a sz True i e pa"
    "m' = (update_entry i (touch True e) m)\<lparr>mainMemory := store_value sz (mainMemory m) (unat pa) v\<rparr>"
    using WriteMem_True [OF wf sz w] by blast
  have "writable_byte m q" if q: "mainMemory m' q \<noteq> mainMemory m q" for q
  proof -
    have "uint pa \<le> int q" "int q < uint pa + sz"
      using q ok(2) store_value_other [OF sz, of q "unat pa" "mainMemory m" v] by (force, force)
    moreover have "0 \<le> uint a mod 128" by simp
    ultimately have "int q = uint (physicalPage e) * 128 + (int q - uint (physicalPage e) * 128)"
      "0 \<le> int q - uint (physicalPage e) * 128" "int q - uint (physicalPage e) * 128 < 128" "uint (physicalPage e) < 128"
      using ok(1) by (auto simp: translated_def)
    then have "int q div PageSize = uint (physicalPage e)" "int q < MemorySize"
      unfolding PageSize_def MemorySize_def NumPhysPages_def by linarith+
    then show ?thesis
      using ok(1) unfolding writable_byte_def translated_def by blast
  qed
  then show ?thesis by (simp add: mem_confined_def)
qed

lemma with_read_Done:
  assumes "mmu_wf m" and "sz = 1 \<or> sz = 2 \<or> sz = 4" and "with_read eh m a sz f = Inr (Done pc' r x m')"
  shows "\<exists>i e va v. maps m va i e \<and> f v (update_entry i (touch False e) m) = Inr (Done pc' r x m')"
  using assms(1,2)
proof (cases rule: ReadMem_cases [where eh = eh and va = a])
  case (trap ex)
  then show ?thesis
    using assms(3) by (auto simp: with_read_def rbind_eq_Inr_iff)
next
  case (ok i e pa)
  have "f (load_value sz (mainMemory m) (unat pa)) (update_entry i (touch False e) m) = Inr (Done pc' r x m')"
    using assms(3) ok(2) by (simp add: with_read_def)
  moreover have "maps m (a div 128) i e"
    using ok(1) by (simp add: translated_def)
  ultimately show ?thesis by blast
qed

text \<open>Setting use bits does not change what is writable.\<close>

lemma writable_byte_touch:
  assumes "mmu_wf m" and "maps m va i e" and "writable_byte (update_entry i (touch w e) m) q"
  shows "writable_byte m q"
proof -
  obtain vpn j f where j: "maps (update_entry i (touch w e) m) vpn j f" "valid f" "\<not> readOnly f"
    "int q div PageSize = uint (physicalPage f)" "int q < MemorySize"
    using assms(3) unfolding writable_byte_def by blast
  obtain f' where "maps m vpn j f'" "f = (if j = i then touch w f' else f')"
    using j(1) lookup_entry_touch [OF assms(1,2), of w vpn]
    by (auto simp: maps_def split: sum.splits prod.splits)
  then show ?thesis
    using j unfolding writable_byte_def by (metis touch_simps)
qed

lemma mem_confined_touch:
  "mmu_wf m \<Longrightarrow> maps m va i e \<Longrightarrow> mem_confined (update_entry i (touch w e) m) m' \<Longrightarrow> mem_confined m m'"
  using writable_byte_touch by (fastforce simp: mem_confined_def)

definition confined :: "'a machine_scheme \<Rightarrow> 'a machine_scheme exec result \<Rightarrow> bool" where
  "confined m r \<longleftrightarrow> (\<forall>pc n v m'. r = Inr (Done pc n v m') \<longrightarrow> mem_confined m m')"

lemma confined_if: "(c \<Longrightarrow> confined m r) \<Longrightarrow> (\<not> c \<Longrightarrow> confined m s) \<Longrightarrow> confined m (if c then r else s)"
  by simp

lemma confined_Done: "mainMemory m' = mainMemory m \<Longrightarrow> confined m (Inr (Done pc n v m'))"
  by (auto simp: confined_def intro: mem_confined_same)

lemma confined_Inl: "confined m (Inl f)"
  by (simp add: confined_def)

lemma confined_write_reg: "confined m (write_reg r v pc m)"
  unfolding write_reg_def by (rule confined_Done) simp

lemma confined_trap: "confined m (trap eh ex a m1)"
  by (auto simp: confined_def trap_def rbind_eq_Inr_iff)

lemma confined_with_write: "mmu_wf m \<Longrightarrow> sz = 1 \<or> sz = 2 \<or> sz = 4 \<Longrightarrow> confined m (with_write eh m a sz v pc)"
  using with_write_confined by (fastforce simp: confined_def)

lemma confined_with_read:
  assumes "mmu_wf m" and "sz = 1 \<or> sz = 2 \<or> sz = 4" and f: "\<And>v m1. mmu_wf m1 \<Longrightarrow> confined m1 (f v m1)"
  shows "confined m (with_read eh m a sz f)"
  unfolding confined_def
proof (intro allI impI)
  fix pc n v m'
  assume "with_read eh m a sz f = Inr (Done pc n v m')"
  from with_read_Done [OF assms(1,2) this] obtain i e va w where
    m: "maps m va i e" and d: "f w (update_entry i (touch False e) m) = Inr (Done pc n v m')"
    by blast
  have "mem_confined (update_entry i (touch False e) m) m'"
    using f [of "update_entry i (touch False e) m" w] d assms(1) by (simp add: confined_def)
  then show "mem_confined m m'"
    by (rule mem_confined_touch [OF assms(1) m])
qed

lemmas confined_intros = confined_Done confined_Inl confined_write_reg confined_trap confined_with_write confined_with_read

lemma exec_confined:
  assumes "mmu_wf m"
  shows "confined m (exec_arith eh i pc m)" "confined m (exec_branch i pc m)" "confined m (exec_div i pc m)"
    "confined m (exec_jump i pc m)" "confined m (exec_load eh i pc m)" "confined m (exec_LWL eh i pc m)"
    "confined m (exec_LWR eh i pc m)" "confined m (exec_hilo i pc m)" "confined m (exec_logic i pc m)"
    "confined m (exec_store eh i pc m)" "confined m (exec_shift i pc m)" "confined m (exec_sub eh i pc m)"
    "confined m (exec_SW eh i pc m)" "confined m (exec_SWL eh i pc m)" "confined m (exec_SWR eh i pc m)"
    "confined m (exec_special eh i pc m)"
proof -
  show "confined m (exec_arith eh i pc m)"
    unfolding exec_arith_def Let_def by (cases "opCode i") (simp_all add: confined_intros)
  show "confined m (exec_branch i pc m)"
    unfolding exec_branch_def Let_def by (cases "opCode i") (simp_all add: confined_intros)
  show "confined m (exec_div i pc m)"
    unfolding exec_div_def Let_def by (cases "opCode i") (simp_all add: confined_intros)
  show "confined m (exec_jump i pc m)"
    unfolding exec_jump_def Let_def by (cases "opCode i") (simp_all add: confined_intros)
  show "confined m (exec_load eh i pc m)"
    unfolding exec_load_def Let_def using assms by (cases "opCode i") (simp_all add: confined_intros)
  show "confined m (exec_LWL eh i pc m)" "confined m (exec_LWR eh i pc m)"
    unfolding exec_LWL_def exec_LWR_def Let_def using assms by (simp_all add: confined_intros)
  show "confined m (exec_hilo i pc m)"
    unfolding exec_hilo_def Let_def by (cases "opCode i") (simp_all add: confined_intros split: prod.split)
  show "confined m (exec_logic i pc m)"
    unfolding exec_logic_def Let_def by (cases "opCode i") (simp_all add: confined_intros)
  show "confined m (exec_store eh i pc m)"
    unfolding exec_store_def Let_def using assms by (cases "opCode i") (simp_all add: confined_intros)
  show "confined m (exec_shift i pc m)"
    unfolding exec_shift_def Let_def by (cases "opCode i") (simp_all add: confined_intros)
  show "confined m (exec_sub eh i pc m)"
    unfolding exec_sub_def Let_def by (cases "opCode i") (simp_all add: confined_intros)
  show "confined m (exec_SW eh i pc m)"
    unfolding exec_SW_def using assms by (simp add: confined_intros)
  show "confined m (exec_SWL eh i pc m)" "confined m (exec_SWR eh i pc m)"
    unfolding exec_SWL_def exec_SWR_def Let_def using assms by (simp_all add: confined_intros)
  show "confined m (exec_special eh i pc m)"
    unfolding exec_special_def Let_def by (cases "opCode i") (simp_all add: confined_intros)
qed

lemma exec_instr_confined: "mmu_wf m \<Longrightarrow> confined m (exec_instr eh i pc m)"
  unfolding exec_instr_def Let_def by (intro confined_if exec_confined)

section \<open>Properties\<close>

text \<open>C34: \<^verbatim>\<open>MULT\<close> and \<^verbatim>\<open>MULTU\<close> leave the full 64-bit product in Hi and Lo, signed and unsigned, for
  every pair of operands.\<close>

theorem Mult_exact:
  "uint (fst (Mult a b sg)) * 2 ^ 32 + uint (snd (Mult a b sg)) =
     (if sg then (sint a * sint b) mod 2 ^ 64 else uint a * uint b)"
proof -
  have e: "uint (dword h l) = uint h * 2 ^ 32 + uint l" for h l
  proof -
    have "0 \<le> uint h * 2 ^ 32 + uint l" "uint h * 2 ^ 32 + uint l < 2 ^ 64"
      using uint_lt2p [of h] uint_lt2p [of l] by auto
    then show ?thesis
      unfolding dword_def by (simp only: uint_word_of_int) (simp add: take_bit_int_eq_self)
  qed
  have "uint a * uint b < 2 ^ 32 * 2 ^ 32"
    using uint_lt2p [of a] uint_lt2p [of b] by (intro mult_strict_mono') simp_all
  then have "(uint a * uint b) mod 2 ^ 64 = uint a * uint b"
    by simp
  then show ?thesis
    unfolding e [symmetric] Mult_dword by (simp add: uint_word_of_int take_bit_eq_mod del: of_int_mult)
qed

text \<open>C35: Every 32-bit word decodes, without reading outside the tables, to an instruction that the
  switch of \<^verbatim>\<open>OneInstruction\<close> has a case for, with register numbers below 32 and, for the
  shifts by a constant, a shift amount below 32.\<close>

theorem Decode_total: "\<exists>i. Instruction_Decode v = Inr i \<and> instr_wf i"
  by (rule Decode_wf)

text \<open>\<^verbatim>\<open>ADD\<close>, \<^verbatim>\<open>ADDI\<close> and \<^verbatim>\<open>SUB\<close> trap with an overflow exception exactly when the signed result
  does not fit in 32 bits, and otherwise write that result.\<close>

theorem overflow_traps_exact:
  "exec_instr eh (i\<lparr>opCode := OP_ADD\<rparr>) pc m =
     (let k = sint (registers m (rs i)) + sint (registers m (rt i)) in
      if in_int_range k then Inr (Done pc 0 0 (set_reg (rd i) (word_of_int k) m)) else trap eh OverflowException 0 m)
   \<and> exec_instr eh (i\<lparr>opCode := OP_ADDI\<rparr>) pc m =
     (let k = sint (registers m (rs i)) + sint (extra i) in
      if in_int_range k then Inr (Done pc 0 0 (set_reg (rt i) (word_of_int k) m)) else trap eh OverflowException 0 m)
   \<and> exec_instr eh (i\<lparr>opCode := OP_SUB\<rparr>) pc m =
     (let k = sint (registers m (rs i)) - sint (registers m (rt i)) in
      if in_int_range k then Inr (Done pc 0 0 (set_reg (rd i) (word_of_int k) m)) else trap eh OverflowException 0 m)"
proof -
  have c: "(ex XOR (a + ex)) AND SIGN_BIT \<noteq> 0 \<longleftrightarrow> (a XOR (a + ex)) AND SIGN_BIT \<noteq> 0"
    if "(a XOR ex) AND SIGN_BIT = 0" for a ex :: "32 word"
    using that xor_sign_iff [of a ex] xor_sign_iff [of ex "a + ex"] xor_sign_iff [of a "a + ex"] by auto
  have "exec_instr eh (i\<lparr>opCode := OP_ADD\<rparr>) pc m =
     (if in_int_range (sint (registers m (rs i)) + sint (registers m (rt i)))
      then Inr (Done pc 0 0 (set_reg (rd i) (registers m (rs i) + registers m (rt i)) m)) else trap eh OverflowException 0 m)"
    using add_overflow_iff [of "registers m (rs i)" "registers m (rt i)"]
    by (auto simp: exec_instr_def exec_arith_def Let_def write_reg_def)
  moreover have "exec_instr eh (i\<lparr>opCode := OP_ADDI\<rparr>) pc m =
     (if in_int_range (sint (registers m (rs i)) + sint (extra i))
      then Inr (Done pc 0 0 (set_reg (rt i) (registers m (rs i) + extra i) m)) else trap eh OverflowException 0 m)"
    using add_overflow_iff [of "registers m (rs i)" "extra i"] c [of "registers m (rs i)" "extra i"]
    by (auto simp: exec_instr_def exec_arith_def Let_def write_reg_def)
  moreover have "exec_instr eh (i\<lparr>opCode := OP_SUB\<rparr>) pc m =
     (if in_int_range (sint (registers m (rs i)) - sint (registers m (rt i)))
      then Inr (Done pc 0 0 (set_reg (rd i) (registers m (rs i) - registers m (rt i)) m)) else trap eh OverflowException 0 m)"
    using sub_overflow_iff [of "registers m (rs i)" "registers m (rt i)"]
    by (auto simp: exec_instr_def exec_sub_def Let_def write_reg_def)
  ultimately show ?thesis
    by (simp add: Let_def)
qed

text \<open>C36: unaligned words. From a state with the machine's invariant, with no load pending into the base register \<open>b\<close>, let
  \<open>a\<close> be any address and \<open>p\<close>, \<open>q\<close> where the aligned words that hold its first and its last byte are in memory, in the same page or
  not. Then \<^verbatim>\<open>LWR r,off(b)\<close> followed by \<^verbatim>\<open>LWL r,off+3(b)\<close> complete, and after the delayed load \<open>r\<close> holds the four bytes at
  \<open>a\<close>, whatever load was pending into \<open>r\<close>; and, if the pages are writable and no load into \<open>r\<close> is pending, \<^verbatim>\<open>SWR\<close> followed by
  \<^verbatim>\<open>SWL\<close> store \<open>r\<close> at these four bytes and change no other byte of memory.\<close>

theorem unaligned_pairs:
  assumes "machine_inv m" and "0 < r" and "r < 32" and "b < 32" and "settled m b" and "a = registers m b + off" and "k = unat (a AND 3)"
    and "word_at m w (a - (a AND 3)) p" and "word_at m w (a + 3 - ((a + 3) AND 3)) q"
  shows "(\<exists>m1 m2 m3. exec_finish eh \<lparr>opCode = OP_LWR, rs = b, rt = r, rd = 0, extra = off\<rparr> m = Inr m1
        \<and> exec_finish eh \<lparr>opCode = OP_LWL, rs = b, rt = r, rd = 0, extra = off + 3\<rparr> m1 = Inr m2
        \<and> Machine_DelayedLoad 0 0 m2 = Inr m3 \<and> mainMemory m3 = mainMemory m
        \<and> (\<forall>j < 4. byte (registers m3 r) j = mainMemory m (unaligned_byte p q k j)))
    \<and> (w \<and> settled m r \<longrightarrow> (\<exists>m1 m2. exec_finish eh \<lparr>opCode = OP_SWR, rs = b, rt = r, rd = 0, extra = off\<rparr> m = Inr m1
        \<and> exec_finish eh \<lparr>opCode = OP_SWL, rs = b, rt = r, rd = 0, extra = off + 3\<rparr> m1 = Inr m2
        \<and> (\<forall>j < 4. mainMemory m2 (unaligned_byte p q k j) = byte (registers m r) j)
        \<and> (\<forall>x. x \<notin> unaligned_byte p q k ` {..<4} \<longrightarrow> mainMemory m2 x = mainMemory m x)))"
proof (intro conjI impI)
  have "word_at m False x y" if "word_at m w x y" for x y
    using that word_at_read by (cases w) auto
  note rd = this [OF assms(8)] this [OF assms(9)]
  show "\<exists>m1 m2 m3. exec_finish eh \<lparr>opCode = OP_LWR, rs = b, rt = r, rd = 0, extra = off\<rparr> m = Inr m1
        \<and> exec_finish eh \<lparr>opCode = OP_LWL, rs = b, rt = r, rd = 0, extra = off + 3\<rparr> m1 = Inr m2
        \<and> Machine_DelayedLoad 0 0 m2 = Inr m3 \<and> mainMemory m3 = mainMemory m
        \<and> (\<forall>j < 4. byte (registers m3 r) j = mainMemory m (unaligned_byte p q k j))"
    using unaligned_load [OF assms(1-7) rd, of eh] by metis
  assume s: "w \<and> settled m r"
  then have wr: "word_at m True (a - (a AND 3)) p" "word_at m True (a + 3 - ((a + 3) AND 3)) q"
    using assms(8,9) by simp_all
  show "\<exists>m1 m2. exec_finish eh \<lparr>opCode = OP_SWR, rs = b, rt = r, rd = 0, extra = off\<rparr> m = Inr m1
        \<and> exec_finish eh \<lparr>opCode = OP_SWL, rs = b, rt = r, rd = 0, extra = off + 3\<rparr> m1 = Inr m2
        \<and> (\<forall>j < 4. mainMemory m2 (unaligned_byte p q k j) = byte (registers m r) j)
        \<and> (\<forall>x. x \<notin> unaligned_byte p q k ` {..<4} \<longrightarrow> mainMemory m2 x = mainMemory m x)"
    using unaligned_store [OF assms(1,3-5) conjunct2 [OF s] assms(6,7) wr, of eh] by metis
qed

lemma sample_words: "machine_inv sample_machine" "word_at sample_machine True 8 648" "word_at sample_machine True 12 652"
proof -
  show "machine_inv sample_machine"
    using sample_machine_wf by (simp add: machine_inv_def running_def sample_machine_def Machine_new_def)
  have "translated sample_machine 8 4 True 0 (the (pageTable sample_machine) ! 0) 648"
    "translated sample_machine 12 4 True 0 (the (pageTable sample_machine) ! 0) 652"
    by (auto simp: translated_def maps_def lookup_entry_def arr_get_def misaligned_def sample_machine_def Machine_new_def)
  then show "word_at sample_machine True 8 648" "word_at sample_machine True 12 652"
    unfolding word_at_def by force+
qed

text \<open>Register 7 is stored at address 10, in the third byte of the word at 8.\<close>

theorem unaligned_pairs_witness:
  "\<exists>m1 m2. exec_finish no_handler \<lparr>opCode = OP_SWR, rs = 0, rt = 7, rd = 0, extra = 10\<rparr> (set_reg 7 0x04030201 sample_machine) = Inr m1
    \<and> exec_finish no_handler \<lparr>opCode = OP_SWL, rs = 0, rt = 7, rd = 0, extra = 13\<rparr> m1 = Inr m2
    \<and> map (mainMemory m2) [649..<655] = [0, 1, 2, 3, 4, 0]"
proof -
  let ?m = "set_reg 7 0x04030201 sample_machine"
  have m: "machine_inv ?m" "word_at ?m True (10 - (10 AND 3)) 648" "word_at ?m True (10 + 3 - ((10 + 3) AND 3)) 652" "settled ?m 0"
      "10 = registers ?m 0 + 10" "settled ?m 7" "mainMemory ?m = (\<lambda>_. 0)" "registers ?m 7 = 0x04030201"
    using sample_words by (simp_all add: machine_inv_def settled_def sample_machine_def Machine_new_def)
  have u: "map (unaligned_byte 648 652 2) [0..<4] = [650, 651, 652, 653]"
    by (simp add: unaligned_byte_def upt_rec)
  then have im: "unaligned_byte 648 652 2 ` {..<4} = {650, 651, 652, 653}"
    unfolding atLeast0LessThan [symmetric] set_upt [symmetric] set_map [symmetric] by simp
  obtain m1 m2 where r: "exec_finish no_handler \<lparr>opCode = OP_SWR, rs = 0, rt = 7, rd = 0, extra = 10\<rparr> ?m = Inr m1"
      "exec_finish no_handler \<lparr>opCode = OP_SWL, rs = 0, rt = 7, rd = 0, extra = 10 + 3\<rparr> m1 = Inr m2"
      "\<forall>j < 4. mainMemory m2 (unaligned_byte 648 652 2 j) = byte (registers ?m 7) j"
      "\<forall>x. x \<notin> unaligned_byte 648 652 2 ` {..<4} \<longrightarrow> mainMemory m2 x = mainMemory ?m x"
    using unaligned_pairs [OF m(1) _ _ _ m(4,5) _ m(2,3), of 7 2 no_handler] m(6) by auto
  have "mainMemory m2 650 = 1" "mainMemory m2 651 = 2" "mainMemory m2 652 = 3" "mainMemory m2 653 = 4"
    using r(3) [rule_format, of 0] r(3) [rule_format, of 1] r(3) [rule_format, of 2] r(3) [rule_format, of 3] m(8)
    by (simp_all add: unaligned_byte_def byte_def)
  moreover have "mainMemory m2 649 = 0" "mainMemory m2 654 = 0"
    using r(4) m(7) unfolding im by simp_all
  ultimately show ?thesis
    using r(1,2) by (auto simp: upt_rec)
qed

text \<open>C37: an instruction that completes changes memory only in the frames of valid, writable pages of
  the current translation table.\<close>

theorem instruction_confined:
  assumes "mmu_wf m" and "exec_instr eh i pc m = Inr (Done pc' r x m')"
  shows "mem_confined m m'"
  using exec_instr_confined [OF assms(1), of eh i pc] assms(2) by (simp add: confined_def)

definition sample_SW :: Instruction where
  "sample_SW = \<lparr>opCode = OP_SW, rs = 0, rt = 0, rd = 0, extra = 8\<rparr>"

theorem instruction_confined_witness:
  "\<exists>m'. exec_instr no_handler sample_SW 0 sample_machine = Inr (Done 0 0 0 m') \<and> mem_confined sample_machine m'"
proof -
  have r: "registers sample_machine 0 = 0"
    by (simp add: sample_machine_def Machine_new_def)
  have "\<exists>m'. Machine_WriteMem no_handler sample_machine 8 4 0 = Inr (True, m')"
    using WriteMem_translated [OF sample_machine_wf _ sample_translated, of 4] by auto
  then obtain m' where "exec_instr no_handler sample_SW 0 sample_machine = Inr (Done 0 0 0 m')"
    by (auto simp: exec_instr_def sample_SW_def exec_SW_def with_write_def r)
  with instruction_confined [OF sample_machine_wf this] show ?thesis by blast
qed

text \<open>The logical right shifts are not logical: \<^verbatim>\<open>SRL\<close> and \<^verbatim>\<open>SRLV\<close> do what \<^verbatim>\<open>SRA\<close> and \<^verbatim>\<open>SRAV\<close>
  do, and shifting a word with its top bit set leaves ones, not zeros, in the vacated bits.\<close>

theorem SRL_is_arithmetic:
  "exec_instr eh (i\<lparr>opCode := OP_SRL\<rparr>) pc m = exec_instr eh (i\<lparr>opCode := OP_SRA\<rparr>) pc m
   \<and> exec_instr eh (i\<lparr>opCode := OP_SRLV\<rparr>) pc m = exec_instr eh (i\<lparr>opCode := OP_SRAV\<rparr>) pc m
   \<and> exec_instr eh \<lparr>opCode = OP_SRL, rs = 0, rt = 1, rd = 2, extra = 4\<rparr> pc (set_reg 1 0x80000000 m) =
       Inr (Done pc 0 0 (set_reg 2 0xF8000000 (set_reg 1 0x80000000 m)))"
proof -
  have e: "(0xF8000000 :: 32 word) = - 0x8000000"
    by simp
  show ?thesis
    unfolding e by (simp add: exec_instr_def exec_shift_def write_reg_def Let_def)
qed

text \<open>A program stops the whole simulation by dividing the smallest integer by -1: the host
  processor traps.\<close>

theorem DIV_overflow_traps_host:
  "registers m (rs i) = 0x80000000 \<Longrightarrow> registers m (rt i) = - 1 \<Longrightarrow>
   exec_instr eh (i\<lparr>opCode := OP_DIV\<rparr>) pc m = Inl HostTrap"
  by (simp add: exec_instr_def exec_div_def Let_def)

theorem DIV_overflow_traps_host_witness:
  "exec_instr no_handler \<lparr>opCode = OP_DIV, rs = 1, rt = 2, rd = 0, extra = 0\<rparr> 0
     (set_reg 1 0x80000000 (set_reg 2 (- 1) sample_machine)) = Inl HostTrap"
  using DIV_overflow_traps_host [of "set_reg 1 0x80000000 (set_reg 2 (- 1) sample_machine)"
      "\<lparr>opCode = OP_DIV, rs = 1, rt = 2, rd = 0, extra = 0\<rparr>" no_handler 0] by simp

end
