(* ===== verification/AddrSpace.thy ===== *)
theory AddrSpace
  imports MipsProofs Bitmap Encoding
begin

text \<open>
  \<^verbatim>\<open>userprog/addrspace.cc\<close> and \<^verbatim>\<open>userprog/noff.h\<close>: loading a program into memory and its page table.

  The open executable is its \<^verbatim>\<open>ReadAt\<close>: a function of the number of bytes and the position that returns the
  bytes it delivers. Both file systems provide one. The frames of physical memory are allocated from the bit map
  \<^verbatim>\<open>gPhysPageBitMap\<close>; \<^verbatim>\<open>Load\<close> holds \<^verbatim>\<open>addrLock\<close> from the test for free frames to the copying of the segments and
  releases it on both paths, so that part of it is one step for other threads. Sums of sizes wrap at 32 bits.
\<close>

definition NOFFMAGIC :: "32 word" where "NOFFMAGIC = 0xbadfad"
definition UserStackSize :: "32 word" where "UserStackSize = 1024"

record Segment =
  virtualAddr :: "32 word"
  inFileAddr :: "32 word"
  seg_size :: "32 word"

record NoffHeader =
  noffMagic :: "32 word"
  code :: Segment
  initData :: Segment
  readonlyData :: Segment
  uninitData :: Segment

record AddrSpace =
  as_pageTable :: "TranslationEntry list option"
  numPages :: "32 word"

type_synonym read_at = "int \<Rightarrow> int \<Rightarrow> byte list result"

definition segment_of :: "32 word list \<Rightarrow> nat \<Rightarrow> Segment" where
  "segment_of ws i = \<lparr>virtualAddr = ws ! i, inFileAddr = ws ! (i + 1), seg_size = ws ! (i + 2)\<rparr>"

text \<open>The header as it lies in the file: 13 words.\<close>

definition noff_of_bytes :: "byte list \<Rightarrow> NoffHeader" where
  "noff_of_bytes bs = (let ws = bytes_words bs in
     \<lparr>noffMagic = ws ! 0, code = segment_of ws 1, initData = segment_of ws 4, readonlyData = segment_of ws 7,
      uninitData = segment_of ws 10\<rparr>)"

definition swap_segment :: "Segment \<Rightarrow> Segment" where
  "swap_segment s = \<lparr>virtualAddr = WordToHost (virtualAddr s), inFileAddr = WordToHost (inFileAddr s),
     seg_size = WordToHost (seg_size s)\<rparr>"

definition SwapHeader :: "NoffHeader \<Rightarrow> NoffHeader" where
  "SwapHeader h = \<lparr>noffMagic = WordToHost (noffMagic h), code = swap_segment (code h), initData = swap_segment (initData h),
     readonlyData = swap_segment (readonlyData h), uninitData = swap_segment (uninitData h)\<rparr>"

definition AddrSpace_new :: AddrSpace where
  "AddrSpace_new = \<lparr>as_pageTable = None, numPages = 0\<rparr>"

definition AddrSpace_delete :: "AddrSpace \<Rightarrow> Bitmap \<Rightarrow> Bitmap result" where
  "AddrSpace_delete sp bm =
     iterate_r 0 (unat (numPages sp)) (\<lambda>i b.
       case as_pageTable sp of None \<Rightarrow> Inl NullDeref
       | Some t \<Rightarrow> rbind (arr_get t (int i)) (\<lambda>e. Bitmap_Clear b (sint (physicalPage e)))) bm"

text \<open>A short read leaves the rest of the header as it was on the stack: \<open>junk\<close>, 52 bytes.\<close>

definition read_header :: "read_at \<Rightarrow> byte list \<Rightarrow> NoffHeader result" where
  "read_header readAt junk =
     rbind (readAt 52 0) (\<lambda>bs.
     let h = noff_of_bytes (bs @ drop (length bs) junk);
         h1 = (if noffMagic h \<noteq> NOFFMAGIC \<and> WordToHost (noffMagic h) = NOFFMAGIC then SwapHeader h else h) in
     rbind (ASSERT (noffMagic h1 = NOFFMAGIC)) (\<lambda>_. Inr h1))"

definition space_size :: "NoffHeader \<Rightarrow> 32 word" where
  "space_size h = seg_size (code h) + seg_size (initData h) + seg_size (uninitData h) + seg_size (readonlyData h) + UserStackSize"

definition pages_for :: "32 word \<Rightarrow> 32 word" where
  "pages_for sz = word_of_int (divRoundUp (sint sz) PageSize)"

text \<open>One page: take a frame, enter it in the table and zero it.\<close>

definition zero_frame :: "(nat \<Rightarrow> byte) \<Rightarrow> int \<Rightarrow> (nat \<Rightarrow> byte) result" where
  "zero_frame mem frame =
     (if 0 \<le> frame \<and> frame < NumPhysPages
      then Inr (\<lambda>a. if nat (frame * PageSize) \<le> a \<and> a < nat ((frame + 1) * PageSize) then 0 else mem a)
      else Inl OutOfBounds)"

definition alloc_page :: "nat \<Rightarrow> TranslationEntry list \<times> Bitmap \<times> (nat \<Rightarrow> byte)
    \<Rightarrow> (TranslationEntry list \<times> Bitmap \<times> (nat \<Rightarrow> byte)) result" where
  "alloc_page i = (\<lambda>(t, bm, mem).
     rbind (Bitmap_FindAndSet bm) (\<lambda>(frame, bm1).
     rbind (zero_frame mem frame) (\<lambda>mem1.
     Inr (t @ [\<lparr>virtualPage = of_nat i, physicalPage = word_of_int frame, valid = True, readOnly = False, use = False, dirty = False\<rparr>],
       bm1, mem1))))"

definition load_segment :: "read_at \<Rightarrow> Segment \<Rightarrow> byte list \<Rightarrow> byte list result" where
  "load_segment readAt s buffer =
     (if sint (seg_size s) > 0
      then rbind (readAt (sint (seg_size s)) (sint (inFileAddr s))) (\<lambda>bs. copy_in buffer (sint (virtualAddr s)) bs)
      else Inr buffer)"

text \<open>\<^verbatim>\<open>bcopy\<close> of the \<open>i\<close>-th page of the buffer to its frame.\<close>

definition copy_page :: "TranslationEntry list \<Rightarrow> byte list \<Rightarrow> int \<Rightarrow> nat \<Rightarrow> (nat \<Rightarrow> byte) \<Rightarrow> (nat \<Rightarrow> byte) result" where
  "copy_page t buffer actual i mem =
     (let offset = int i * PageSize; sz = (if offset + PageSize > actual then actual - offset else PageSize) in
      rbind (arr_get t (int i)) (\<lambda>e.
      let paddr = sint (physicalPage e) * PageSize in
      rbind (copy_out buffer offset sz) (\<lambda>bs.
      if 0 \<le> paddr \<and> paddr + sz \<le> MemorySize
      then Inr (\<lambda>a. if nat paddr \<le> a \<and> a < nat paddr + length bs then bs ! (a - nat paddr) else mem a)
      else Inl OutOfBounds)))"

definition AddrSpace_Load :: "read_at option \<Rightarrow> byte list \<Rightarrow> AddrSpace \<Rightarrow> Bitmap \<Rightarrow> 'a machine_scheme
    \<Rightarrow> (bool \<times> AddrSpace \<times> Bitmap \<times> 'a machine_scheme) result" where
  "AddrSpace_Load exe junk sp bm m =
     (case exe of None \<Rightarrow> Inr (False, sp, bm, m)
      | Some readAt \<Rightarrow>
        rbind (read_header readAt junk) (\<lambda>h.
        let n = pages_for (space_size h) in
        rbind (Bitmap_NumClear bm) (\<lambda>free.
        if word_of_int free < n then Inr (False, sp\<lparr>numPages := 0\<rparr>, bm, m)
        else rbind (iterate_r 0 (unat n) alloc_page ([], bm, mainMemory m)) (\<lambda>(t, bm1, mem1).
        let actual = sint (seg_size (code h) + seg_size (initData h) + seg_size (readonlyData h)) in
        if actual < 0 then Inl HostTrap
        else
          rbind (load_segment readAt (code h) (replicate (nat actual) 0)) (\<lambda>b1.
          rbind (load_segment readAt (initData h) b1) (\<lambda>b2.
          rbind (load_segment readAt (readonlyData h) b2) (\<lambda>buffer.
          rbind (iterate_r 0 (nat (divRoundUp actual PageSize)) (copy_page t buffer actual) mem1) (\<lambda>mem2.
          Inr (True, \<lparr>as_pageTable = Some t, numPages = n\<rparr>, bm1, m\<lparr>mainMemory := mem2\<rparr>)))))))))"

definition AddrSpace_InitRegisters :: "AddrSpace \<Rightarrow> 'a machine_scheme \<Rightarrow> 'a machine_scheme" where
  "AddrSpace_InitRegisters sp m =
     (let m1 = m\<lparr>registers := (\<lambda>i. if i < NumTotalRegs then 0 else registers m i)\<rparr>;
          m2 = set_reg PCReg 0 m1;
          m3 = set_reg NextPCReg 4 m2 in
      set_reg StackReg (numPages sp * word_of_int PageSize - 16) m3)"

definition AddrSpace_RestoreState :: "AddrSpace \<Rightarrow> 'a machine_scheme \<Rightarrow> 'a machine_scheme" where
  "AddrSpace_RestoreState sp m = m\<lparr>pageTable := as_pageTable sp, pageTableSize := numPages sp\<rparr>"

text \<open>\<^verbatim>\<open>Execute\<close> up to \<^verbatim>\<open>Machine::Run\<close>.\<close>

definition AddrSpace_Execute :: "AddrSpace \<Rightarrow> 'a machine_scheme \<Rightarrow> 'a machine_scheme" where
  "AddrSpace_Execute sp m = AddrSpace_RestoreState sp (AddrSpace_InitRegisters sp m)"

text \<open>\<^verbatim>\<open>RunProcess\<close> of \<^verbatim>\<open>threads/pcb.cc\<close>, with which the thread of a process begins: the state in which its program starts to run.\<close>

definition RunProcess :: "read_at option \<Rightarrow> byte list \<Rightarrow> Bitmap \<Rightarrow> 'a machine_scheme \<Rightarrow> (AddrSpace \<times> Bitmap \<times> 'a machine_scheme) result" where
  "RunProcess exe junk bm m =
     rbind (AddrSpace_Load exe junk AddrSpace_new bm m) (\<lambda>(ok, space, bm1, m1).
     if ok then Inr (space, bm1, AddrSpace_Execute space m1) else Inl AssertFail)"

definition AddrSpace_Translate :: "AddrSpace \<Rightarrow> 32 word \<Rightarrow> bool \<Rightarrow> ((ExceptionType + 32 word) \<times> AddrSpace) result" where
  "AddrSpace_Translate sp vaddr isReadWrite =
     (let vpn = vaddr div word_of_int PageSize; offset = vaddr mod word_of_int PageSize in
      if vpn \<ge> numPages sp then Inr (Inl AddressErrorException, sp)
      else case as_pageTable sp of None \<Rightarrow> Inl NullDeref
      | Some t \<Rightarrow>
        rbind (arr_get t (uint vpn)) (\<lambda>pte.
        if isReadWrite \<and> readOnly pte then Inr (Inl ReadOnlyException, sp)
        else let pfn = physicalPage pte in
          if sint pfn \<ge> NumPhysPages then Inr (Inl BusErrorException, sp)
          else let pte1 = touch isReadWrite pte; paddr = pfn * word_of_int PageSize + offset in
            rbind (ASSERT (uint paddr < MemorySize)) (\<lambda>_.
            Inr (Inr paddr, sp\<lparr>as_pageTable := Some (t[unat vpn := pte1])\<rparr>))))"

section \<open>Frames\<close>

definition frame_map :: "Bitmap \<Rightarrow> bool" where
  "frame_map b \<longleftrightarrow> bm_wf b \<and> length (bits b) = 128"

definition entry :: "nat \<Rightarrow> nat \<Rightarrow> TranslationEntry" where
  "entry i f = \<lparr>virtualPage = of_nat i, physicalPage = of_nat f, valid = True, readOnly = False, use = False, dirty = False\<rparr>"

definition table_of :: "nat list \<Rightarrow> TranslationEntry list" where
  "table_of fs = map (\<lambda>i. entry i (fs ! i)) [0..<length fs]"

text \<open>The frames of a page table and the byte that a virtual address names.\<close>

definition frames_of :: "AddrSpace \<Rightarrow> nat list" where
  "frames_of sp = (case as_pageTable sp of None \<Rightarrow> [] | Some t \<Rightarrow> map (\<lambda>e. unat (physicalPage e)) t)"

definition vbyte :: "AddrSpace \<Rightarrow> (nat \<Rightarrow> byte) \<Rightarrow> nat \<Rightarrow> byte" where
  "vbyte sp mem va = mem (frames_of sp ! (va div 128) * 128 + va mod 128)"

lemma length_table_of [simp]: "length (table_of fs) = length fs"
  by (simp add: table_of_def)

lemma table_of_snoc: "table_of (fs @ [f]) = table_of fs @ [entry (length fs) f]"
  by (simp add: table_of_def nth_append)

lemma table_of_nth: "i < length fs \<Longrightarrow> table_of fs ! i = entry i (fs ! i)"
  by (simp add: table_of_def)

lemma unat_of_frame: "f < 128 \<Longrightarrow> unat (of_nat f :: 32 word) = f" "f < 128 \<Longrightarrow> sint (of_nat f :: 32 word) = int f"
  using sint_word_of_int32 [of "int f"] by (simp_all add: unat_of_nat int32_def take_bit_nat_eq_self)

lemma frames_of_table:
  assumes "set fs \<subseteq> {..<128}"
  shows "frames_of \<lparr>as_pageTable = Some (table_of fs), numPages = n\<rparr> = fs"
proof (rule nth_equalityI)
  show "length (frames_of \<lparr>as_pageTable = Some (table_of fs), numPages = n\<rparr>) = length fs"
    by (simp add: frames_of_def)
  fix i
  assume "i < length (frames_of \<lparr>as_pageTable = Some (table_of fs), numPages = n\<rparr>)"
  then have i: "i < length fs"
    by (simp add: frames_of_def)
  then have "fs ! i < 128"
    using assms nth_mem by fastforce
  then show "frames_of \<lparr>as_pageTable = Some (table_of fs), numPages = n\<rparr> ! i = fs ! i"
    using i by (simp add: frames_of_def table_of_nth entry_def unat_of_frame)
qed

lemma in_frame: "(f * 128 \<le> a \<and> a < (f + 1) * 128) \<longleftrightarrow> a div 128 = (f :: nat)"
  by auto

definition allocated :: "Bitmap \<Rightarrow> (nat \<Rightarrow> byte) \<Rightarrow> nat \<Rightarrow> TranslationEntry list \<times> Bitmap \<times> (nat \<Rightarrow> byte) \<Rightarrow> bool" where
  "allocated b0 mem0 k = (\<lambda>(t, b, mem). \<exists>fs. t = table_of fs \<and> length fs = k \<and> distinct fs \<and> set fs \<subseteq> {..<128}
     \<and> set fs \<inter> bm.used b0 = {} \<and> frame_map b \<and> bm.used b = bm.used b0 \<union> set fs
     \<and> mem = (\<lambda>a. if a div 128 \<in> set fs then 0 else mem0 a))"

lemma alloc_page_ok:
  assumes "allocated b0 mem0 k x" and "card (bm.used b0) + k < 128"
  shows "\<exists>y. alloc_page k x = Inr y \<and> allocated b0 mem0 (Suc k) y"
proof -
  obtain fs b where x: "x = (table_of fs, b, \<lambda>a. if a div 128 \<in> set fs then 0 else mem0 a)"
    and fs: "length fs = k" "distinct fs" "set fs \<subseteq> {..<128}" "set fs \<inter> bm.used b0 = {}" "frame_map b"
      "bm.used b = bm.used b0 \<union> set fs"
    using assms(1) by (cases x) (auto simp: allocated_def)
  have "card (bm.used b) = card (bm.used b0) + k"
    unfolding fs(6) using fs(1,2,4) by (subst card_Un_disjoint) (auto simp: bm.used_def distinct_card)
  then obtain f b1 where f: "Bitmap_FindAndSet b = Inr (int f, b1)" "f < 128" "f \<notin> bm.used b" "bm_wf b1" "length (bits b1) = 128"
    "bm.used b1 = insert f (bm.used b)"
    using bm.find_used [of b] assms(2) fs(5) unfolding frame_map_def by metis
  let ?m = "\<lambda>a. if a div 128 \<in> set (fs @ [f]) then 0 else mem0 a"
  have "zero_frame (\<lambda>a. if a div 128 \<in> set fs then 0 else mem0 a) (int f) = Inr ?m"
  proof -
    have "nat (int f * 128) = f * 128" "nat ((int f + 1) * 128) = (f + 1) * 128"
      by (simp_all add: nat_mult_distrib nat_add_distrib)
    then show ?thesis
      using f(2) in_frame [of f] by (auto simp: zero_frame_def NumPhysPages_def PageSize_def fun_eq_iff)
  qed
  then have "alloc_page k x = Inr (table_of (fs @ [f]), b1, ?m)"
    using f(1) fs(1) by (simp add: alloc_page_def x table_of_snoc entry_def)
  moreover have "allocated b0 mem0 (Suc k) (table_of (fs @ [f]), b1, ?m)"
    unfolding allocated_def using fs f by (auto intro!: exI [of _ "fs @ [f]"] simp: frame_map_def)
  ultimately show ?thesis
    by blast
qed

lemma alloc_pages_ok:
  assumes "frame_map b0" and "card (bm.used b0) + n \<le> 128"
  obtains fs b where "iterate_r 0 n alloc_page ([], b0, mem0) = Inr (table_of fs, b, \<lambda>a. if a div 128 \<in> set fs then 0 else mem0 a)"
    "length fs = n" "distinct fs" "set fs \<subseteq> {..<128}" "set fs \<inter> bm.used b0 = {}" "frame_map b" "bm.used b = bm.used b0 \<union> set fs"
proof -
  have "\<exists>x. iterate_r 0 n alloc_page ([], b0, mem0) = Inr x \<and> allocated b0 mem0 (0 + n) x"
  proof (rule iterate_r_rule)
    show "allocated b0 mem0 0 ([], b0, mem0)"
      using assms(1) by (auto simp: allocated_def table_of_def)
    show "\<exists>u. alloc_page k t = Inr u \<and> allocated b0 mem0 (Suc k) u" if "k < 0 + n" "allocated b0 mem0 k t" for k t
      using alloc_page_ok [OF that(2)] that(1) assms(2) by simp
  qed
  then show thesis
    using that by (auto simp: allocated_def)
qed

section \<open>Copying the segments\<close>

text \<open>The memory when the first \<open>k\<close> pages of the buffer have been copied.\<close>

definition copied :: "nat list \<Rightarrow> byte list \<Rightarrow> (nat \<Rightarrow> byte) \<Rightarrow> nat \<Rightarrow> (nat \<Rightarrow> byte) \<Rightarrow> bool" where
  "copied fs buf mem0 k mem \<longleftrightarrow> (\<forall>i < length fs. \<forall>q < 128.
       mem (fs ! i * 128 + q) = (if i < k \<and> i * 128 + q < length buf then buf ! (i * 128 + q) else mem0 (fs ! i * 128 + q)))
     \<and> (\<forall>a. a div 128 \<notin> set fs \<longrightarrow> mem a = mem0 a)"

lemma copy_page_ok:
  assumes "copied fs buf mem0 k mem" and "distinct fs" and "set fs \<subseteq> {..<128}" and "k < length fs" and "k * 128 < length buf"
  shows "\<exists>mem'. copy_page (table_of fs) buf (int (length buf)) k mem = Inr mem' \<and> copied fs buf mem0 (Suc k) mem'"
proof -
  define n where "n = min 128 (length buf - k * 128)"
  define bs where "bs = take n (drop (k * 128) buf)"
  define f where "f = fs ! k"
  have f: "f < 128"
    using assms(3,4) nth_mem unfolding f_def by fastforce
  have n: "0 < n" "n \<le> 128" "k * 128 + n \<le> length buf" "length bs = n"
    using assms(5) by (auto simp: n_def bs_def)
  have sz: "(if int k * 128 + 128 > int (length buf) then int (length buf) - int k * 128 else 128) = int n"
    using assms(5) by (simp add: n_def min_def) linarith
  have out: "copy_out buf (int k * 128) (int n) = Inr bs"
    using n(3) by (simp add: copy_out_def bs_def nat_mult_distrib)
  let ?m = "\<lambda>a. if f * 128 \<le> a \<and> a < f * 128 + n then bs ! (a - f * 128) else mem a"
  have paddr: "sint (physicalPage (table_of fs ! k)) = int f"
    using assms(4) f by (simp add: table_of_nth entry_def f_def unat_of_frame)
  have arr: "arr_get (table_of fs) (int k) = Inr (table_of fs ! k)"
    using assms(4) by (simp add: arr_get_def)
  have "copy_page (table_of fs) buf (int (length buf)) k mem = Inr ?m"
    unfolding copy_page_def PageSize_def Let_def sz out arr rbind_Inr paddr
    using f n by (simp add: MemorySize_def NumPhysPages_def PageSize_def nat_mult_distrib cong: if_cong)
  moreover have "copied fs buf mem0 (Suc k) ?m"
    unfolding copied_def
  proof (intro conjI allI impI)
    fix i q :: nat
    assume i: "i < length fs" and q: "q < 128"
    have *: "(f * 128 \<le> fs ! i * 128 + q \<and> fs ! i * 128 + q < f * 128 + n) \<longleftrightarrow> i = k \<and> q < n"
    proof -
      have "fs ! i = f \<longleftrightarrow> i = k"
        using assms(2,4) i nth_eq_iff_index_eq f_def by metis
      moreover have "(f * 128 \<le> fs ! i * 128 + q \<and> fs ! i * 128 + q < f * 128 + n) \<longleftrightarrow> fs ! i = f \<and> q < n"
        using q n(2) by (cases "fs ! i" f rule: linorder_cases) auto
      ultimately show ?thesis by simp
    qed
    have "q < n \<longleftrightarrow> k * 128 + q < length buf"
      using q by (auto simp: n_def)
    then show "?m (fs ! i * 128 + q) = (if i < Suc k \<and> i * 128 + q < length buf then buf ! (i * 128 + q) else mem0 (fs ! i * 128 + q))"
      using assms(1) i q n(3) unfolding * copied_def by (auto simp: bs_def f_def less_Suc_eq)
  next
    fix a
    assume a: "a div 128 \<notin> set fs"
    then have "a div 128 \<noteq> f"
      using assms(4) by (auto simp: f_def)
    then have "\<not> (f * 128 \<le> a \<and> a < f * 128 + n)"
      using n(2) by auto
    then show "?m a = mem0 a"
      using assms(1) a by (auto simp: copied_def)
  qed
  ultimately show ?thesis
    by blast
qed

lemma copy_pages_ok:
  assumes "distinct fs" and "set fs \<subseteq> {..<128}" and "length buf \<le> length fs * 128"
  obtains mem where "iterate_r 0 (nat (divRoundUp (int (length buf)) 128)) (copy_page (table_of fs) buf (int (length buf))) mem0 = Inr mem"
    "\<And>va. va < length fs * 128 \<Longrightarrow> mem (fs ! (va div 128) * 128 + va mod 128)
      = (if va < length buf then buf ! va else mem0 (fs ! (va div 128) * 128 + va mod 128))"
    "\<And>a. a div 128 \<notin> set fs \<Longrightarrow> mem a = mem0 a"
proof -
  define n where "n = nat (divRoundUp (int (length buf)) 128)"
  have n: "n \<le> k \<longleftrightarrow> length buf \<le> k * 128" for k
    using divRoundUp_least [of "int (length buf)" 128 "int k"] by (auto simp: n_def nat_le_iff)
  have "\<exists>mem. iterate_r 0 n (copy_page (table_of fs) buf (int (length buf))) mem0 = Inr mem \<and> copied fs buf mem0 (0 + n) mem"
  proof (rule iterate_r_rule)
    show "copied fs buf mem0 0 mem0"
      by (simp add: copied_def)
    fix k mem
    assume k: "k < 0 + n" and c: "copied fs buf mem0 k mem"
    have "k * 128 < length buf"
      using k n [of k] by simp
    moreover have "k < length fs"
      using k n [of "length fs"] assms(3) by simp
    ultimately show "\<exists>u. copy_page (table_of fs) buf (int (length buf)) k mem = Inr u \<and> copied fs buf mem0 (Suc k) u"
      using copy_page_ok [OF c assms(1,2)] by blast
  qed
  then obtain mem where mem: "iterate_r 0 n (copy_page (table_of fs) buf (int (length buf))) mem0 = Inr mem" "copied fs buf mem0 n mem"
    by auto
  show thesis
  proof (rule that [OF mem(1) [unfolded n_def]])
    fix va
    assume va: "va < length fs * 128"
    have "va div 128 < n" if "va < length buf"
    proof (rule ccontr)
      assume "\<not> va div 128 < n"
      then have "length buf \<le> va div 128 * 128"
        using n [of "va div 128"] by simp
      then show False
        using that div_times_less_eq_dividend [of va 128] by linarith
    qed
    moreover have "va div 128 < length fs" "va mod 128 < 128" "va div 128 * 128 + va mod 128 = va"
      using va by (simp_all add: less_mult_imp_div_less)
    ultimately show "mem (fs ! (va div 128) * 128 + va mod 128)
      = (if va < length buf then buf ! va else mem0 (fs ! (va div 128) * 128 + va mod 128))"
      using mem(2) unfolding copied_def by (metis (no_types, lifting))
  qed (use mem(2) in \<open>simp add: copied_def\<close>)
qed

section \<open>Layout of an executable\<close>

definition segments :: "NoffHeader \<Rightarrow> Segment list" where
  "segments h = [code h, initData h, readonlyData h]"

definition image_size :: "NoffHeader \<Rightarrow> int" where
  "image_size h = sint (seg_size (code h)) + sint (seg_size (initData h)) + sint (seg_size (readonlyData h))"

text \<open>The virtual addresses of a segment.\<close>

definition seg_range :: "Segment \<Rightarrow> nat set" where
  "seg_range s = {nat (sint (virtualAddr s))..<nat (sint (virtualAddr s)) + nat (sint (seg_size s))}"

text \<open>A header as the linker makes it: sizes that add up to less than 1 MB, segments in the image, apart from each other.\<close>

definition sizes_ok :: "NoffHeader \<Rightarrow> bool" where
  "sizes_ok h \<longleftrightarrow> (\<forall>s \<in> set (segments h). 0 \<le> sint (seg_size s)) \<and> 0 \<le> sint (seg_size (uninitData h))
     \<and> image_size h + sint (seg_size (uninitData h)) < 2 ^ 20"

definition layout_ok :: "NoffHeader \<Rightarrow> bool" where
  "layout_ok h \<longleftrightarrow> sizes_ok h \<and> (\<forall>s \<in> set (segments h). 0 \<le> sint (virtualAddr s)
       \<and> (sint (seg_size s) > 0 \<longrightarrow> sint (virtualAddr s) + sint (seg_size s) \<le> image_size h))
     \<and> seg_range (code h) \<inter> seg_range (initData h) = {} \<and> seg_range (code h) \<inter> seg_range (readonlyData h) = {}
     \<and> seg_range (initData h) \<inter> seg_range (readonlyData h) = {}"

lemma layout_sizes_ok: "layout_ok h \<Longrightarrow> sizes_ok h"
  by (simp add: layout_ok_def)

text \<open>The file holds the segments: \<open>seg_bytes s\<close> are the bytes of a segment in it.\<close>

definition holds_segment :: "read_at \<Rightarrow> (Segment \<Rightarrow> byte list) \<Rightarrow> Segment \<Rightarrow> bool" where
  "holds_segment readAt seg_bytes s \<longleftrightarrow> sint (seg_size s) > 0 \<longrightarrow>
     readAt (sint (seg_size s)) (sint (inFileAddr s)) = Inr (seg_bytes s) \<and> int (length (seg_bytes s)) = sint (seg_size s)"

lemma load_segment_ok:
  assumes "holds_segment readAt sb s" and "0 \<le> sint (seg_size s)" "0 \<le> sint (virtualAddr s)"
    and "sint (seg_size s) > 0 \<longrightarrow> sint (virtualAddr s) + sint (seg_size s) \<le> int (length buf)"
  obtains buf' where "load_segment readAt s buf = Inr buf'" "length buf' = length buf"
    "\<And>v. v < length buf \<Longrightarrow> buf' ! v = (if v \<in> seg_range s then sb s ! (v - nat (sint (virtualAddr s))) else buf ! v)"
proof (cases "sint (seg_size s) > 0")
  case False
  then have "seg_range s = {}"
    by (simp add: seg_range_def)
  then show thesis
    using that [of buf] False by (simp add: load_segment_def)
next
  case True
  define i where "i = nat (sint (virtualAddr s))"
  have i: "sint (virtualAddr s) = int i"
    using assms(3) by (simp add: i_def)
  have r: "readAt (sint (seg_size s)) (sint (inFileAddr s)) = Inr (sb s)" "int (length (sb s)) = sint (seg_size s)"
    using assms(1) True by (simp_all add: holds_segment_def)
  then have len: "nat (sint (seg_size s)) = length (sb s)"
    by simp
  have "i + length (sb s) \<le> length buf"
    using assms(4) True r(2) i by linarith
  then obtain buf' where "copy_in buf (int i) (sb s) = Inr buf'" "length buf' = length buf"
    "\<And>j. j < length buf \<Longrightarrow> buf' ! j = (if i \<le> j \<and> j < i + length (sb s) then sb s ! (j - i) else buf ! j)"
    using copy_in_ok by blast
  then show thesis
    using that [of buf'] True r(1) i len by (simp add: load_segment_def seg_range_def i_def [symmetric])
qed

lemma load_segments_ok:
  assumes "layout_ok h" and "\<forall>s \<in> set (segments h). holds_segment readAt sb s" and "int (length buf) = image_size h"
  obtains b1 b2 buf' where "load_segment readAt (code h) buf = Inr b1" "load_segment readAt (initData h) b1 = Inr b2"
    "load_segment readAt (readonlyData h) b2 = Inr buf'" "length buf' = length buf"
    "\<And>s v. s \<in> set (segments h) \<Longrightarrow> v \<in> seg_range s \<Longrightarrow> v < length buf \<and> buf' ! v = sb s ! (v - nat (sint (virtualAddr s)))"
    "\<And>v. v < length buf \<Longrightarrow> \<forall>s \<in> set (segments h). v \<notin> seg_range s \<Longrightarrow> buf' ! v = buf ! v"
proof -
  have l: "0 \<le> sint (seg_size s)" "0 \<le> sint (virtualAddr s)" "holds_segment readAt sb s"
    "sint (seg_size s) > 0 \<longrightarrow> sint (virtualAddr s) + sint (seg_size s) \<le> int (length buf)" if "s \<in> set (segments h)" for s
    using that assms by (auto simp: layout_ok_def sizes_ok_def)
  have mem: "code h \<in> set (segments h)" "initData h \<in> set (segments h)" "readonlyData h \<in> set (segments h)"
    by (simp_all add: segments_def)
  obtain b1 where b1: "load_segment readAt (code h) buf = Inr b1" "length b1 = length buf"
    "\<And>v. v < length buf \<Longrightarrow> b1 ! v = (if v \<in> seg_range (code h) then sb (code h) ! (v - nat (sint (virtualAddr (code h)))) else buf ! v)"
    using load_segment_ok [OF l(3,1,2,4) [OF mem(1)]] by blast
  obtain b2 where b2: "load_segment readAt (initData h) b1 = Inr b2" "length b2 = length buf"
    "\<And>v. v < length buf \<Longrightarrow> b2 ! v = (if v \<in> seg_range (initData h) then sb (initData h) ! (v - nat (sint (virtualAddr (initData h)))) else b1 ! v)"
    using load_segment_ok [of readAt sb "initData h" b1] l [OF mem(2)] b1(2) by metis
  obtain b3 where b3: "load_segment readAt (readonlyData h) b2 = Inr b3" "length b3 = length buf"
    "\<And>v. v < length buf \<Longrightarrow> b3 ! v = (if v \<in> seg_range (readonlyData h) then sb (readonlyData h) ! (v - nat (sint (virtualAddr (readonlyData h)))) else b2 ! v)"
    using load_segment_ok [of readAt sb "readonlyData h" b2] l [OF mem(3)] b2(2) by metis
  have dis: "seg_range (code h) \<inter> seg_range (initData h) = {}" "seg_range (code h) \<inter> seg_range (readonlyData h) = {}"
    "seg_range (initData h) \<inter> seg_range (readonlyData h) = {}"
    using assms(1) by (simp_all add: layout_ok_def)
  have bound: "v < length buf" if "s \<in> set (segments h)" "v \<in> seg_range s" for s v
    using l [OF that(1)] that(2) by (auto simp: seg_range_def)
  show thesis
  proof (rule that [OF b1(1) b2(1) b3(1,2)])
    fix s v
    assume s: "s \<in> set (segments h)" and v: "v \<in> seg_range s"
    have "s = code h \<or> s = initData h \<or> s = readonlyData h"
      using s by (auto simp: segments_def)
    then show "v < length buf \<and> b3 ! v = sb s ! (v - nat (sint (virtualAddr s)))"
      using bound [OF s v] v b1(3) [of v] b2(3) [of v] b3(3) [of v] dis by auto
  next
    fix v
    assume "v < length buf" "\<forall>s \<in> set (segments h). v \<notin> seg_range s"
    then show "b3 ! v = buf ! v"
      using b1(3) [of v] b2(3) [of v] b3(3) [of v] by (simp add: segments_def)
  qed
qed

definition page_count :: "NoffHeader \<Rightarrow> nat" where
  "page_count h = nat (divRoundUp (image_size h + sint (seg_size (uninitData h)) + 1024) 128)"

lemma word_sum_sint:
  assumes "int32 (sint a + sint b)"
  shows "sint (a + b :: 32 word) = sint a + sint b"
  using sint_word_of_int32 [OF assms] by simp

lemma layout_sizes:
  assumes "sizes_ok h"
  shows "sint (seg_size (code h) + seg_size (initData h) + seg_size (readonlyData h)) = image_size h" "0 \<le> image_size h"
    "unat (pages_for (space_size h)) = page_count h" "int (page_count h) < 2 ^ 20" "image_size h \<le> int (page_count h) * 128"
proof -
  let ?c = "sint (seg_size (code h))" and ?i = "sint (seg_size (initData h))" and ?r = "sint (seg_size (readonlyData h))"
  let ?u = "sint (seg_size (uninitData h))"
  have nn: "0 \<le> ?c" "0 \<le> ?i" "0 \<le> ?r" "0 \<le> ?u" "?c + ?i + ?r + ?u < 2 ^ 20"
    using assms by (auto simp: sizes_ok_def segments_def image_size_def)
  have ci: "sint (seg_size (code h) + seg_size (initData h)) = ?c + ?i"
    using nn by (intro word_sum_sint) (simp add: int32_def)
  show "sint (seg_size (code h) + seg_size (initData h) + seg_size (readonlyData h)) = image_size h"
    using nn ci by (subst word_sum_sint) (simp_all add: int32_def image_size_def)
  show "0 \<le> image_size h"
    using nn by (simp add: image_size_def)
  have ciu: "sint (seg_size (code h) + seg_size (initData h) + seg_size (uninitData h)) = ?c + ?i + ?u"
    using nn ci by (subst word_sum_sint) (simp_all add: int32_def)
  have ciur: "sint (seg_size (code h) + seg_size (initData h) + seg_size (uninitData h) + seg_size (readonlyData h)) = ?c + ?i + ?u + ?r"
    using nn ciu by (subst word_sum_sint) (simp_all add: int32_def)
  have "sint UserStackSize = 1024"
    using sint_word_of_int32 [of 1024] by (simp add: UserStackSize_def int32_def)
  then have sz: "sint (space_size h) = image_size h + ?u + 1024"
    unfolding space_size_def using nn ciur by (subst word_sum_sint) (simp_all add: int32_def image_size_def)
  let ?n = "divRoundUp (image_size h + ?u + 1024) 128"
  have n: "?n \<le> k \<longleftrightarrow> image_size h + ?u + 1024 \<le> k * 128" for k
    using nn by (intro divRoundUp_least) (simp_all add: image_size_def)
  have n0: "0 \<le> ?n"
    using n [of "- 1"] nn by (simp add: image_size_def)
  have n1: "?n \<le> 2 ^ 18"
    using n [of "2 ^ 18"] nn by (simp add: image_size_def)
  show "unat (pages_for (space_size h)) = page_count h"
    unfolding pages_for_def sz PageSize_def page_count_def unat_eq_nat_uint
    using uint_word_of_small_int [OF n0] n1 by simp
  show "int (page_count h) < 2 ^ 20"
    using n0 n1 by (simp add: page_count_def)
  show "image_size h \<le> int (page_count h) * 128"
    using n [of ?n] n0 nn by (simp add: page_count_def)
qed

text \<open>A space that \<^verbatim>\<open>Load\<close> filled: its frames, and what they hold.\<close>

definition loaded :: "NoffHeader \<Rightarrow> (Segment \<Rightarrow> byte list) \<Rightarrow> AddrSpace \<Rightarrow> (nat \<Rightarrow> byte) \<Rightarrow> bool" where
  "loaded h sb sp mem \<longleftrightarrow> length (frames_of sp) = page_count h \<and> unat (numPages sp) = page_count h
     \<and> (\<exists>t. as_pageTable sp = Some t \<and> list_all (\<lambda>e. valid e \<and> \<not> readOnly e) t)
     \<and> distinct (frames_of sp) \<and> set (frames_of sp) \<subseteq> {..<128}
     \<and> (\<forall>s \<in> set (segments h). \<forall>v \<in> seg_range s. vbyte sp mem v = sb s ! (v - nat (sint (virtualAddr s))))
     \<and> (\<forall>v < page_count h * 128. (\<forall>s \<in> set (segments h). v \<notin> seg_range s) \<longrightarrow> vbyte sp mem v = 0)"

lemma free_frames:
  assumes "frame_map bm"
  shows "Bitmap_NumClear bm = Inr (int (128 - card (bm.used bm)))" "card (bm.used bm) \<le> 128"
proof -
  show "Bitmap_NumClear bm = Inr (int (128 - card (bm.used bm)))"
    using bm.num_clear_card [of bm] assms by (simp add: frame_map_def)
  show "card (bm.used bm) \<le> 128"
    using assms card_mono [of "{..<128}" "bm.used bm"] true_at_less by (fastforce simp: frame_map_def bm.used_def)
qed

lemma Load_room:
  assumes "sizes_ok h" and "frame_map bm"
  shows "word_of_int (int (128 - card (bm.used bm))) < pages_for (space_size h) \<longleftrightarrow> \<not> card (bm.used bm) + page_count h \<le> 128"
proof -
  have "uint (pages_for (space_size h)) = int (page_count h)"
    using layout_sizes(3) [OF assms(1)] by (metis uint_nat)
  moreover have "uint (word_of_int (int (128 - card (bm.used bm))) :: 32 word) = int (128 - card (bm.used bm))"
    by (rule uint_word_of_small_int) simp_all
  ultimately show ?thesis
    using free_frames(2) [OF assms(2)] unfolding word_less_def by linarith
qed

lemma Load_ok:
  assumes "frame_map bm" and "read_header readAt junk = Inr h" and "layout_ok h" and "\<forall>s \<in> set (segments h). holds_segment readAt sb s"
    and "card (bm.used bm) + page_count h \<le> 128"
  obtains sp' bm' mem where "AddrSpace_Load (Some readAt) junk sp bm m = Inr (True, sp', bm', m\<lparr>mainMemory := mem\<rparr>)"
    "loaded h sb sp' mem" "frame_map bm'" "set (frames_of sp') \<inter> bm.used bm = {}" "bm.used bm' = bm.used bm \<union> set (frames_of sp')"
    "\<And>a. a div 128 \<notin> set (frames_of sp') \<Longrightarrow> mem a = mainMemory m a"
proof -
  have sz: "sizes_ok h"
    using assms(3) by (simp add: layout_ok_def)
  note ls = layout_sizes [OF sz]
  obtain fs bm' where al: "iterate_r 0 (page_count h) alloc_page ([], bm, mainMemory m)
      = Inr (table_of fs, bm', \<lambda>a. if a div 128 \<in> set fs then 0 else mainMemory m a)"
    and fs: "length fs = page_count h" "distinct fs" "set fs \<subseteq> {..<128}" "set fs \<inter> bm.used bm = {}" "frame_map bm'"
      "bm.used bm' = bm.used bm \<union> set fs"
    using alloc_pages_ok [OF assms(1,5)] by blast
  define buf where "buf = replicate (nat (image_size h)) (0 :: byte)"
  have lb: "int (length buf) = image_size h"
    using ls(2) by (simp add: buf_def)
  obtain b1 b2 b3 where b: "load_segment readAt (code h) buf = Inr b1" "load_segment readAt (initData h) b1 = Inr b2"
    "load_segment readAt (readonlyData h) b2 = Inr b3" "length b3 = length buf"
    "\<And>s v. s \<in> set (segments h) \<Longrightarrow> v \<in> seg_range s \<Longrightarrow> v < length buf \<and> b3 ! v = sb s ! (v - nat (sint (virtualAddr s)))"
    "\<And>v. v < length buf \<Longrightarrow> \<forall>s \<in> set (segments h). v \<notin> seg_range s \<Longrightarrow> b3 ! v = buf ! v"
    using load_segments_ok [OF assms(3,4) lb] by blast
  have fit: "length b3 \<le> length fs * 128"
    using ls(5) lb b(4) fs(1) by linarith
  have il: "image_size h = int (length b3)"
    using lb b(4) by simp
  obtain mem where cp: "iterate_r 0 (nat (divRoundUp (image_size h) PageSize)) (copy_page (table_of fs) b3 (image_size h))
        (\<lambda>a. if a div 128 \<in> set fs then 0 else mainMemory m a) = Inr mem"
    and mem: "\<And>va. va < length fs * 128 \<Longrightarrow> mem (fs ! (va div 128) * 128 + va mod 128)
      = (if va < length b3 then b3 ! va else if (fs ! (va div 128) * 128 + va mod 128) div 128 \<in> set fs then 0
         else mainMemory m (fs ! (va div 128) * 128 + va mod 128))"
      "\<And>a. a div 128 \<notin> set fs \<Longrightarrow> mem a = mainMemory m a"
    using copy_pages_ok [OF fs(2,3) fit, of "\<lambda>a. if a div 128 \<in> set fs then 0 else mainMemory m a"]
    unfolding PageSize_def il by (smt (verit, best))
  define sp' where "sp' = \<lparr>as_pageTable = Some (table_of fs), numPages = pages_for (space_size h)\<rparr>"
  have fr: "frames_of sp' = fs"
    unfolding sp'_def by (rule frames_of_table [OF fs(3)])
  have vb: "vbyte sp' mem v = (if v < length b3 then b3 ! v else 0)" if "v < length fs * 128" for v
  proof -
    have "v div 128 < length fs"
      using that by (simp add: less_mult_imp_div_less)
    then have "(fs ! (v div 128) * 128 + v mod 128) div 128 \<in> set fs"
      by simp
    then show ?thesis
      using mem(1) [OF that] by (simp add: vbyte_def fr)
  qed
  have "loaded h sb sp' mem"
    unfolding loaded_def fr
  proof (intro conjI ballI allI impI)
    show "unat (numPages sp') = page_count h"
      using ls(3) by (simp add: sp'_def)
    show "\<exists>t. as_pageTable sp' = Some t \<and> list_all (\<lambda>e. valid e \<and> \<not> readOnly e) t"
      by (simp add: sp'_def list_all_iff table_of_def entry_def)
    show "vbyte sp' mem v = sb s ! (v - nat (sint (virtualAddr s)))" if "s \<in> set (segments h)" "v \<in> seg_range s" for s v
      using b(5) [OF that] b(4) fit vb [of v] by simp
    show "vbyte sp' mem v = 0" if "v < page_count h * 128" "\<forall>s \<in> set (segments h). v \<notin> seg_range s" for v
      using b(4,6) that vb [of v] fs(1) by (simp add: buf_def)
  qed (use fs in simp_all)
  moreover have "AddrSpace_Load (Some readAt) junk sp bm m = Inr (True, sp', bm', m\<lparr>mainMemory := mem\<rparr>)"
    unfolding AddrSpace_Load_def option.case assms(2) rbind_Inr Let_def free_frames(1) [OF assms(1)] Load_room [OF sz assms(1)] ls(1,3) al
      prod.case buf_def [symmetric] b(1-3) cp
    using assms(5) ls(2) by (simp add: sp'_def)
  ultimately show thesis
    using that [of sp' bm' mem] fs mem(2) by (simp add: fr)
qed

lemma Load_no_room:
  assumes "frame_map bm" and "read_header readAt junk = Inr h" and "layout_ok h" and "\<not> card (bm.used bm) + page_count h \<le> 128"
  shows "AddrSpace_Load (Some readAt) junk sp bm m = Inr (False, sp\<lparr>numPages := 0\<rparr>, bm, m)"
  using assms(2,4) free_frames(1) [OF assms(1)] Load_room [OF layout_sizes_ok [OF assms(3)] assms(1)] by (simp add: AddrSpace_Load_def)

section \<open>Running in an address space\<close>

text \<open>The machine uses the page table of \<open>sp\<close>; use and dirty bits may have changed.\<close>

definition runs_in :: "AddrSpace \<Rightarrow> 'a machine_scheme \<Rightarrow> bool" where
  "runs_in sp m \<longleftrightarrow> tlb m = None \<and> pageTableSize m = numPages sp \<and> length (frames_of sp) = unat (numPages sp)
     \<and> (\<exists>t. pageTable m = Some t \<and> map (\<lambda>e. unat (physicalPage e)) t = frames_of sp)"

lemma Execute_runs_in:
  assumes "loaded h sb sp mem" and "tlb m = None"
  shows "runs_in sp (AddrSpace_Execute sp m)"
  using assms by (auto simp: runs_in_def loaded_def AddrSpace_Execute_def AddrSpace_RestoreState_def AddrSpace_InitRegisters_def
      set_reg_def frames_of_def split: option.splits)

text \<open>A process starts in its own address space, at address 0; one that does not fit into memory, or whose file cannot be
  opened, takes the kernel down.\<close>

lemma RunProcess_ok:
  assumes "frame_map bm" and "read_header readAt junk = Inr h" and "layout_ok h" and "\<forall>s \<in> set (segments h). holds_segment readAt sb s"
    and "card (bm.used bm) + page_count h \<le> 128" and "tlb m = None"
  shows "\<exists>sp bm' m'. RunProcess (Some readAt) junk bm m = Inr (sp, bm', m') \<and> runs_in sp m' \<and> registers m' PCReg = 0 \<and> loaded h sb sp (mainMemory m')"
proof -
  obtain sp bm' mem where L: "AddrSpace_Load (Some readAt) junk AddrSpace_new bm m = Inr (True, sp, bm', m\<lparr>mainMemory := mem\<rparr>)" "loaded h sb sp mem"
    using Load_ok [OF assms(1-5)] by metis
  have "runs_in sp (AddrSpace_Execute sp (m\<lparr>mainMemory := mem\<rparr>))" by (rule Execute_runs_in [OF L(2)]) (simp add: assms(6))
  then show ?thesis
    using L by (simp add: RunProcess_def AddrSpace_Execute_def AddrSpace_RestoreState_def AddrSpace_InitRegisters_def set_reg_def Let_def)
qed

lemma RunProcess_aborts:
  shows "RunProcess None junk bm m = Inl AssertFail"
    and "frame_map bm \<Longrightarrow> read_header readAt junk = Inr h \<Longrightarrow> layout_ok h \<Longrightarrow> \<not> card (bm.used bm) + page_count h \<le> 128
      \<Longrightarrow> RunProcess (Some readAt) junk bm m = Inl AssertFail"
  using Load_no_room [of bm readAt junk h AddrSpace_new m] by (simp_all add: RunProcess_def) (simp add: AddrSpace_Load_def)

lemma runs_in_mmu_wf:
  assumes "runs_in sp m"
  shows "mmu_wf m"
proof -
  obtain t where t: "tlb m = None" "pageTable m = Some t" "map (\<lambda>e. unat (physicalPage e)) t = frames_of sp"
    "pageTableSize m = numPages sp" "length (frames_of sp) = unat (numPages sp)"
    using assms by (auto simp: runs_in_def)
  then have "length t = unat (pageTableSize m)"
    by (metis length_map)
  then show ?thesis
    using t(1,2) by (simp add: mmu_wf_def)
qed

lemma runs_in_writable:
  assumes "runs_in sp m" and "writable_byte m q"
  shows "q div 128 \<in> set (frames_of sp)"
proof -
  obtain t where t: "tlb m = None" "pageTable m = Some t" "map (\<lambda>e. unat (physicalPage e)) t = frames_of sp"
    using assms(1) by (auto simp: runs_in_def)
  obtain vpn i e where e: "maps m vpn i e" "int q div 128 = uint (physicalPage e)"
    using assms(2) by (auto simp: writable_byte_def PageSize_def)
  have "e \<in> set t"
    using e(1) t(1,2) by (auto simp: maps_def lookup_entry_def arr_get_def rbind_eq_Inr_iff simp flip: unat_less_iff_uint split: if_splits)
  then have "unat (physicalPage e) \<in> set (frames_of sp)"
    unfolding t(3) [symmetric] by simp
  moreover have "int (unat (physicalPage e)) = int (q div 128)"
    unfolding zdiv_int using e(2) by simp
  then have "unat (physicalPage e) = q div 128"
    by (simp only: of_nat_eq_iff)
  ultimately show ?thesis
    by simp
qed

lemma Load_success:
  assumes "frame_map bm" and "read_header readAt junk = Inr h" and "layout_ok h" and "\<forall>s \<in> set (segments h). holds_segment readAt sb s"
    and "AddrSpace_Load (Some readAt) junk sp bm m = Inr (True, sp', bm', m')"
  shows "loaded h sb sp' (mainMemory m')" "frame_map bm'" "set (frames_of sp') \<inter> bm.used bm = {}"
    "bm.used bm' = bm.used bm \<union> set (frames_of sp')" "\<And>a. a div 128 \<notin> set (frames_of sp') \<Longrightarrow> mainMemory m' a = mainMemory m a"
    "tlb m' = tlb m"
proof -
  have "card (bm.used bm) + page_count h \<le> 128"
  proof (rule ccontr)
    assume "\<not> card (bm.used bm) + page_count h \<le> 128"
    from Load_no_room [OF assms(1-3) this, of sp m] assms(5) show False by simp
  qed
  then obtain sp2 bm2 mem where L: "AddrSpace_Load (Some readAt) junk sp bm m = Inr (True, sp2, bm2, m\<lparr>mainMemory := mem\<rparr>)"
    "loaded h sb sp2 mem" "frame_map bm2" "set (frames_of sp2) \<inter> bm.used bm = {}" "bm.used bm2 = bm.used bm \<union> set (frames_of sp2)"
    "\<And>a. a div 128 \<notin> set (frames_of sp2) \<Longrightarrow> mem a = mainMemory m a"
    using Load_ok [OF assms(1-4)] by metis
  have "sp2 = sp'" "bm2 = bm'" "m' = m\<lparr>mainMemory := mem\<rparr>"
    using L(1) assms(5) by simp_all
  then show "loaded h sb sp' (mainMemory m')" "frame_map bm'" "set (frames_of sp') \<inter> bm.used bm = {}"
    "bm.used bm' = bm.used bm \<union> set (frames_of sp')" "\<And>a. a div 128 \<notin> set (frames_of sp') \<Longrightarrow> mainMemory m' a = mainMemory m a"
    "tlb m' = tlb m"
    using L(2-6) by simp_all
qed

lemma frame_of_vbyte:
  assumes "v < length (frames_of sp) * 128"
  shows "(frames_of sp ! (v div 128) * 128 + v mod 128) div 128 \<in> set (frames_of sp)"
proof -
  have "v div 128 < length (frames_of sp)"
    using assms by (simp add: less_mult_imp_div_less)
  then show ?thesis
    by simp
qed

section \<open>A small executable\<close>

text \<open>A file with a header and one segment of code, the four bytes 1 to 4; no other segments.\<close>

definition sample_file :: "byte list" where
  "sample_file = words_bytes [0xbadfad, 0, 52, 4, 0, 0, 0, 0, 0, 0, 0, 0, 0] @ [1, 2, 3, 4]"

definition sample_read :: read_at where
  "sample_read n pos = (if pos < 0 then Inl AssertFail else Inr (take (nat n) (drop (nat pos) sample_file)))"

definition sample_noff :: NoffHeader where
  "sample_noff = \<lparr>noffMagic = NOFFMAGIC, code = \<lparr>virtualAddr = 0, inFileAddr = 52, seg_size = 4\<rparr>,
     initData = \<lparr>virtualAddr = 0, inFileAddr = 0, seg_size = 0\<rparr>, readonlyData = \<lparr>virtualAddr = 0, inFileAddr = 0, seg_size = 0\<rparr>,
     uninitData = \<lparr>virtualAddr = 0, inFileAddr = 0, seg_size = 0\<rparr>\<rparr>"

lemma sample_read_header: "read_header sample_read junk = Inr sample_noff"
  by (simp add: read_header_def sample_read_def sample_file_def noff_of_bytes_def segment_of_def sample_noff_def
      NOFFMAGIC_def Let_def WordToHost_def words_bytes_def word_bytes_def bytes_word_def)

lemma sample_layout: "layout_ok sample_noff" "\<forall>s \<in> set (segments sample_noff). holds_segment sample_read (\<lambda>_. [1, 2, 3, 4]) s"
  by (simp_all add: layout_ok_def sizes_ok_def segments_def sample_noff_def seg_range_def image_size_def holds_segment_def sample_read_def sample_file_def
      words_bytes_def word_bytes_def)

section \<open>Properties\<close>

text \<open>C12: loading is correct. For an executable whose header is laid out as the linker does, \<^verbatim>\<open>Load\<close> fails exactly when
  there are fewer free frames than pages, and then changes nothing. Otherwise it takes as many frames as pages, all
  different, in range and free before; every byte of a segment is at its virtual address, all other virtual bytes are
  zero, and memory outside the new frames is as before.\<close>

theorem AddrSpace_Load_correct:
  assumes "frame_map bm" and "read_header readAt junk = Inr h" and "layout_ok h" and "\<forall>s \<in> set (segments h). holds_segment readAt sb s"
  shows "if card (bm.used bm) + page_count h \<le> 128
    then \<exists>sp' bm' mem. AddrSpace_Load (Some readAt) junk sp bm m = Inr (True, sp', bm', m\<lparr>mainMemory := mem\<rparr>)
      \<and> length (frames_of sp') = page_count h \<and> distinct (frames_of sp') \<and> set (frames_of sp') \<subseteq> {..<128}
      \<and> set (frames_of sp') \<inter> bm.used bm = {} \<and> bm.used bm' = bm.used bm \<union> set (frames_of sp')
      \<and> (\<forall>s \<in> set (segments h). \<forall>v \<in> seg_range s. vbyte sp' mem v = sb s ! (v - nat (sint (virtualAddr s))))
      \<and> (\<forall>v < page_count h * 128. (\<forall>s \<in> set (segments h). v \<notin> seg_range s) \<longrightarrow> vbyte sp' mem v = 0)
      \<and> (\<forall>a. a div 128 \<notin> set (frames_of sp') \<longrightarrow> mem a = mainMemory m a)
    else AddrSpace_Load (Some readAt) junk sp bm m = Inr (False, sp\<lparr>numPages := 0\<rparr>, bm, m)"
proof (cases "card (bm.used bm) + page_count h \<le> 128")
  case True
  then obtain sp' bm' mem where L: "AddrSpace_Load (Some readAt) junk sp bm m = Inr (True, sp', bm', m\<lparr>mainMemory := mem\<rparr>)"
    "loaded h sb sp' mem" "set (frames_of sp') \<inter> bm.used bm = {}" "bm.used bm' = bm.used bm \<union> set (frames_of sp')"
    "\<And>a. a div 128 \<notin> set (frames_of sp') \<Longrightarrow> mem a = mainMemory m a"
    using Load_ok [OF assms] by metis
  have "length (frames_of sp') = page_count h" "distinct (frames_of sp')" "set (frames_of sp') \<subseteq> {..<128}"
    "\<forall>s \<in> set (segments h). \<forall>v \<in> seg_range s. vbyte sp' mem v = sb s ! (v - nat (sint (virtualAddr s)))"
    "\<forall>v < page_count h * 128. (\<forall>s \<in> set (segments h). v \<notin> seg_range s) \<longrightarrow> vbyte sp' mem v = 0"
    using L(2) by (simp_all add: loaded_def)
  then show ?thesis
    unfolding if_P [OF True] using L(1,3,4,5) by blast
next
  case False
  then show ?thesis
    using Load_no_room [OF assms(1-3) False, of sp m] by simp
qed

lemma free_frame_map: "\<exists>bm. Bitmap_new 128 = Inr bm \<and> frame_map bm \<and> bm.used bm = {}"
  using Bitmap_new_bits [of 128] by (auto simp: frame_map_def bm.used_def)

lemma sample_page_count: "page_count sample_noff = 9"
  by (simp add: page_count_def image_size_def sample_noff_def divRoundUp_nonneg)

theorem AddrSpace_Load_correct_witness:
  "\<exists>bm sp' bm' mem. Bitmap_new 128 = Inr bm
    \<and> AddrSpace_Load (Some sample_read) [] AddrSpace_new bm sample_machine = Inr (True, sp', bm', sample_machine\<lparr>mainMemory := mem\<rparr>)
    \<and> length (frames_of sp') = 9 \<and> vbyte sp' mem 2 = 3 \<and> vbyte sp' mem 100 = 0"
proof -
  obtain bm where bm: "Bitmap_new 128 = Inr bm" "frame_map bm" "bm.used bm = {}"
    using free_frame_map by blast
  have r: "seg_range (code sample_noff) = {0..<4}" "seg_range (initData sample_noff) = {}" "seg_range (readonlyData sample_noff) = {}"
    by (simp_all add: seg_range_def sample_noff_def)
  have v: "virtualAddr (code sample_noff) = 0"
    by (simp add: sample_noff_def)
  obtain sp' bm' mem where L: "AddrSpace_Load (Some sample_read) [] AddrSpace_new bm sample_machine = Inr (True, sp', bm', sample_machine\<lparr>mainMemory := mem\<rparr>)"
    "length (frames_of sp') = 9" "\<forall>v \<in> {0..<4}. vbyte sp' mem v = [1, 2, 3, 4] ! v" "\<forall>v < 9 * 128. \<not> v < 4 \<longrightarrow> vbyte sp' mem v = 0"
    using AddrSpace_Load_correct [OF bm(2) sample_read_header [of "[]"] sample_layout, of AddrSpace_new sample_machine] bm(3)
    by (auto simp: sample_page_count segments_def r v)
  have "vbyte sp' mem 2 = 3" "vbyte sp' mem 100 = 0"
    using L(3,4) by simp_all
  then show ?thesis
    using bm(1) L(1,2) by blast
qed

text \<open>An instruction that completes in one address space does not change another with other frames.\<close>

lemma space_untouched:
  assumes "runs_in sp m1" and "exec_instr eh instr pc m1 = Inr (Done pc' r x m2)"
    and "set (frames_of sp) \<inter> set (frames_of sp') = {}" and "v < length (frames_of sp') * 128"
  shows "vbyte sp' (mainMemory m2) v = vbyte sp' (mainMemory m1) v"
proof -
  let ?a = "frames_of sp' ! (v div 128) * 128 + v mod 128"
  have "?a div 128 \<in> set (frames_of sp')"
    using assms(4) by (rule frame_of_vbyte)
  then have "\<not> writable_byte m1 ?a"
    using runs_in_writable [OF assms(1)] assms(3) by blast
  moreover have "mem_confined m1 m2"
    using exec_instr_confined [OF runs_in_mmu_wf [OF assms(1)], of eh instr pc] assms(2) by (simp add: confined_def)
  ultimately show ?thesis
    by (auto simp: vbyte_def mem_confined_def)
qed

text \<open>C15: programs are isolated. When program A and then program B have been loaded, they have no frame of memory in common, and
  an instruction that completes, whatever it is, changes no byte of the address space of B when the machine runs in that of A, and
  no byte of the address space of A when it runs in that of B.\<close>

theorem process_isolation:
  assumes "frame_map bm" and "read_header rA jA = Inr hA" "layout_ok hA" "\<forall>s \<in> set (segments hA). holds_segment rA sA s"
    and "read_header rB jB = Inr hB" "layout_ok hB" "\<forall>s \<in> set (segments hB). holds_segment rB sB s"
    and "AddrSpace_Load (Some rA) jA AddrSpace_new bm m = Inr (True, spA, bmA, mA)"
    and "AddrSpace_Load (Some rB) jB AddrSpace_new bmA mA = Inr (True, spB, bmB, mB)"
    and "exec_instr eh instr pc m1 = Inr (Done pc' r x m2)"
  shows "set (frames_of spA) \<inter> set (frames_of spB) = {}
    \<and> (runs_in spA m1 \<longrightarrow> (\<forall>v < page_count hB * 128. vbyte spB (mainMemory m2) v = vbyte spB (mainMemory m1) v))
    \<and> (runs_in spB m1 \<longrightarrow> (\<forall>v < page_count hA * 128. vbyte spA (mainMemory m2) v = vbyte spA (mainMemory m1) v))"
proof -
  note A = Load_success [OF assms(1-4,8)]
  note B = Load_success [OF A(2) assms(5-7,9)]
  have disj: "set (frames_of spA) \<inter> set (frames_of spB) = {}" "set (frames_of spB) \<inter> set (frames_of spA) = {}"
    using B(3) A(4) by auto
  have "length (frames_of spA) = page_count hA" "length (frames_of spB) = page_count hB"
    using A(1) B(1) by (simp_all add: loaded_def)
  then show ?thesis
    using disj(1) space_untouched [OF _ assms(10) disj(1)] space_untouched [OF _ assms(10) disj(2)] by simp
qed

lemma sample_load:
  assumes "frame_map bm" and "card (bm.used bm) \<le> 9"
  shows "\<exists>sp bm' m'. AddrSpace_Load (Some sample_read) [] AddrSpace_new bm m = Inr (True, sp, bm', m')"
proof -
  have "card (bm.used bm) + page_count sample_noff \<le> 128"
    using assms(2) by (simp add: sample_page_count)
  then obtain sp bm' mem where "AddrSpace_Load (Some sample_read) [] AddrSpace_new bm m = Inr (True, sp, bm', m\<lparr>mainMemory := mem\<rparr>)"
    using Load_ok [OF assms(1) sample_read_header sample_layout] by metis
  then show ?thesis
    by blast
qed

text \<open>In a loaded program a store to address 8 completes.\<close>

lemma sample_SW_completes:
  assumes "loaded h sb sp mem" and "tlb m = None" and "0 < page_count h"
  shows "\<exists>m2. exec_instr eh sample_SW 0 (AddrSpace_Execute sp m) = Inr (Done 0 0 0 m2)"
proof -
  let ?m = "AddrSpace_Execute sp m"
  obtain t where t: "as_pageTable sp = Some t" "list_all (\<lambda>e. valid e \<and> \<not> readOnly e) t" "set (frames_of sp) \<subseteq> {..<128}"
    "length (frames_of sp) = page_count h" "unat (numPages sp) = page_count h"
    using assms(1) by (auto simp: loaded_def)
  have l: "0 < length t" "unat (physicalPage (t ! 0)) < 128" "valid (t ! 0)" "\<not> readOnly (t ! 0)"
    using t assms(3) by (auto simp: frames_of_def list_all_iff subset_iff)
  have m: "pageTable ?m = Some t" "pageTableSize ?m = numPages sp" "tlb ?m = None" "registers ?m 0 = 0"
    using t(1) assms(2) by (simp_all add: AddrSpace_Execute_def AddrSpace_RestoreState_def AddrSpace_InitRegisters_def set_reg_def)
  have "\<not> numPages sp \<le> 0"
    using t(5) assms(3) by (metis unat_0 word_le_0_iff less_irrefl)
  then have "maps ?m 0 0 (t ! 0)"
    using m l(1,3) by (simp add: maps_def lookup_entry_def arr_get_def)
  moreover have u: "uint (physicalPage (t ! 0)) < 128"
    using l(2) by (simp add: unat_less_iff_uint)
  then have "uint (physicalPage (t ! 0) * 128 + 8) = uint (physicalPage (t ! 0)) * 128 + 8"
    by (simp add: uint_word_ariths)
  ultimately have "translated ?m 8 4 True 0 (t ! 0) (physicalPage (t ! 0) * 128 + 8)"
    using u l(3,4) by (simp add: translated_def misaligned_def)
  moreover have "mmu_wf ?m"
    using runs_in_mmu_wf [OF Execute_runs_in [OF assms(1,2)]] .
  ultimately show ?thesis
    using WriteMem_translated [of ?m 4 8] m(4) by (simp add: exec_instr_def sample_SW_def exec_SW_def with_write_def)
qed

theorem process_isolation_witness:
  "\<exists>bm spA bmA mA spB bmB mB m2. AddrSpace_Load (Some sample_read) [] AddrSpace_new bm sample_machine = Inr (True, spA, bmA, mA)
    \<and> AddrSpace_Load (Some sample_read) [] AddrSpace_new bmA mA = Inr (True, spB, bmB, mB)
    \<and> set (frames_of spA) \<inter> set (frames_of spB) = {}
    \<and> exec_instr no_handler sample_SW 0 (AddrSpace_Execute spB mB) = Inr (Done 0 0 0 m2)
    \<and> vbyte spA (mainMemory m2) 8 = vbyte spA (mainMemory (AddrSpace_Execute spB mB)) 8"
proof -
  obtain bm where bm: "frame_map bm" "bm.used bm = {}"
    using free_frame_map by blast
  obtain spA bmA mA where A: "AddrSpace_Load (Some sample_read) [] AddrSpace_new bm sample_machine = Inr (True, spA, bmA, mA)"
    using sample_load [OF bm(1), of sample_machine] bm(2) by auto
  note AA = Load_success [OF bm(1) sample_read_header sample_layout A]
  have "card (bm.used bmA) \<le> 9"
    using AA(1,4) bm(2) card_length [of "frames_of spA"] by (simp add: loaded_def sample_page_count)
  then obtain spB bmB mB where B: "AddrSpace_Load (Some sample_read) [] AddrSpace_new bmA mA = Inr (True, spB, bmB, mB)"
    using sample_load [OF AA(2), of mA] by blast
  note BB = Load_success [OF AA(2) sample_read_header sample_layout B]
  have t: "tlb mB = None"
    using AA(6) BB(6) by (simp add: sample_machine_def Machine_new_def)
  obtain m2 where run: "exec_instr no_handler sample_SW 0 (AddrSpace_Execute spB mB) = Inr (Done 0 0 0 m2)"
    using sample_SW_completes [OF BB(1) t] by (auto simp: sample_page_count)
  have "set (frames_of spA) \<inter> set (frames_of spB) = {} \<and> vbyte spA (mainMemory m2) 8 = vbyte spA (mainMemory (AddrSpace_Execute spB mB)) 8"
    using process_isolation [OF bm(1) sample_read_header sample_layout sample_read_header sample_layout A B run] Execute_runs_in [OF BB(1) t]
    by (simp add: sample_page_count)
  then show ?thesis
    using A B run by blast
qed

text \<open>The two translations agree. For a page table with valid entries and frame numbers that are not negative,
  \<^verbatim>\<open>AddrSpace::Translate\<close> and the machine's own translation of a byte address, with this table installed, give the
  same physical address or exception and leave the same use and dirty bits.\<close>

theorem AddrSpace_Translate_agrees:
  assumes "as_pageTable sp = Some t" and "length t = unat (numPages sp)" and "\<forall>e \<in> set t. valid e \<and> uint (physicalPage e) < 2 ^ 31"
    and "tlb m = None"
  shows "\<exists>r sp'. AddrSpace_Translate sp va w = Inr (r, sp')
    \<and> Machine_Translate (AddrSpace_RestoreState sp m) va 1 w = Inr (r, AddrSpace_RestoreState sp' m)"
proof (cases "va div 128 \<ge> numPages sp")
  case True
  then show ?thesis
    using assms(1,4) by (simp add: AddrSpace_Translate_def Machine_Translate_def misaligned_def AddrSpace_RestoreState_def
        lookup_entry_def PageSize_def)
next
  case False
  define vpn where "vpn = va div 128"
  have v: "unat vpn < length t"
    using False assms(2) by (simp add: vpn_def word_le_nat_alt)
  then have get: "arr_get t (uint vpn) = Inr (t ! unat vpn)"
    by (simp add: arr_get_def flip: unat_less_iff_uint)
  have e: "valid (t ! unat vpn)" "uint (physicalPage (t ! unat vpn)) < 2 ^ 31"
    using assms(3) v by simp_all
  then have si: "sint (physicalPage (t ! unat vpn)) = uint (physicalPage (t ! unat vpn))"
    by (intro sint_eq_uint32) simp
  have bus: "(sint (physicalPage (t ! unat vpn)) \<ge> 128) = (physicalPage (t ! unat vpn) \<ge> 128)"
    unfolding si word_le_def by simp
  have addr: "uint (physicalPage (t ! unat vpn) * 128 + va mod 128) < 16384
      \<and> 0 \<le> sint (physicalPage (t ! unat vpn) * 128 + va mod 128) \<and> sint (physicalPage (t ! unat vpn) * 128 + va mod 128) < 16384"
    if "\<not> physicalPage (t ! unat vpn) \<ge> 128"
  proof -
    let ?a = "physicalPage (t ! unat vpn) * 128 + va mod 128"
    have p: "uint (physicalPage (t ! unat vpn)) < 128"
      using that by (simp add: word_le_def)
    have o: "uint (va mod 128) < 128"
      by (simp add: uint_mod)
    have "uint ?a = uint (physicalPage (t ! unat vpn)) * 128 + uint (va mod 128)"
      using p o by (simp add: uint_word_ariths(1,3))
    then have "uint ?a < 16384"
      using p o by simp
    moreover have "sint ?a = uint ?a"
      using calculation by (intro sint_eq_uint32) simp
    ultimately show ?thesis
      by simp
  qed
  show ?thesis
    using False assms(1,4) get e(1) bus addr
    by (auto simp: AddrSpace_Translate_def Machine_Translate_def misaligned_def AddrSpace_RestoreState_def lookup_entry_def PageSize_def
        NumPhysPages_def MemorySize_def update_entry_def vpn_def [symmetric] Let_def)
qed

definition sample_space :: AddrSpace where
  "sample_space = \<lparr>as_pageTable = Some [entry 0 5], numPages = 1\<rparr>"

theorem AddrSpace_Translate_agrees_witness:
  "\<exists>r sp'. AddrSpace_Translate sample_space 7 True = Inr (r, sp')
    \<and> Machine_Translate (AddrSpace_RestoreState sample_space sample_machine) 7 1 True = Inr (r, AddrSpace_RestoreState sp' sample_machine)"
  by (rule AddrSpace_Translate_agrees [of _ "[entry 0 5]"])
    (simp_all add: sample_space_def entry_def sample_machine_def Machine_new_def)

text \<open>\<^verbatim>\<open>Load\<close> trusts the addresses in the header. When the sizes are sane and there is room, but the code segment is to go
  beyond the image buffer, \<^verbatim>\<open>Load\<close> writes outside the buffer instead of refusing the file.\<close>

theorem Load_overruns:
  assumes "frame_map bm" and "read_header readAt junk = Inr h" and "sizes_ok h" and "card (bm.used bm) + page_count h \<le> 128"
    and "sint (seg_size (code h)) > 0" and "readAt (sint (seg_size (code h))) (sint (inFileAddr (code h))) = Inr bs"
    and "sint (virtualAddr (code h)) < 0 \<or> sint (virtualAddr (code h)) + int (length bs) > image_size h"
  shows "AddrSpace_Load (Some readAt) junk sp bm m = Inl OutOfBounds"
proof -
  note ls = layout_sizes [OF assms(3)]
  obtain x where al: "iterate_r 0 (page_count h) alloc_page ([], bm, mainMemory m) = Inr x"
    by (rule alloc_pages_ok [OF assms(1,4), of "mainMemory m"]) (erule that)
  have "load_segment readAt (code h) (replicate (nat (image_size h)) 0) = Inl OutOfBounds"
    using assms(5,6,7) ls(2) by (simp add: load_segment_def copy_in_def)
  then show ?thesis
    unfolding AddrSpace_Load_def option.case assms(2) rbind_Inr Let_def free_frames(1) [OF assms(1)] Load_room [OF assms(3,1)] ls(1,3) al
    using assms(4) ls(2) by (simp split: prod.split)
qed

text \<open>The sample file with the code at address 8.\<close>

definition bad_read :: read_at where
  "bad_read n pos = (if pos < 0 then Inl AssertFail
     else Inr (take (nat n) (drop (nat pos) (words_bytes [0xbadfad, 8, 52, 4, 0, 0, 0, 0, 0, 0, 0, 0, 0] @ [1, 2, 3, 4]))))"

definition bad_noff :: NoffHeader where
  "bad_noff = sample_noff\<lparr>code := \<lparr>virtualAddr = 8, inFileAddr = 52, seg_size = 4\<rparr>\<rparr>"

lemma bad_read_header: "read_header bad_read junk = Inr bad_noff"
  by (simp add: read_header_def bad_read_def noff_of_bytes_def segment_of_def sample_noff_def bad_noff_def
      NOFFMAGIC_def Let_def WordToHost_def words_bytes_def word_bytes_def bytes_word_def)

theorem Load_overruns_witness:
  "\<exists>bm. Bitmap_new 128 = Inr bm \<and> AddrSpace_Load (Some bad_read) [] AddrSpace_new bm sample_machine = Inl OutOfBounds"
proof -
  obtain bm where bm: "Bitmap_new 128 = Inr bm" "frame_map bm" "bm.used bm = {}"
    using free_frame_map by blast
  have h: "code bad_noff = \<lparr>virtualAddr = 8, inFileAddr = 52, seg_size = 4\<rparr>" "image_size bad_noff = 4" "sizes_ok bad_noff" "page_count bad_noff = 9"
    by (simp_all add: bad_noff_def sample_noff_def image_size_def sizes_ok_def segments_def page_count_def divRoundUp_nonneg)
  have "bad_read 4 52 = Inr [1, 2, 3, 4]"
    by (simp add: bad_read_def words_bytes_def word_bytes_def)
  then have "AddrSpace_Load (Some bad_read) [] AddrSpace_new bm sample_machine = Inl OutOfBounds"
    by (intro Load_overruns [OF bm(2) bad_read_header h(3), of "[1, 2, 3, 4]"]) (simp_all add: h bm(3))
  then show ?thesis
    using bm(1) by blast
qed

end
