(* ===== verification/FileTable.thy ===== *)
theory FileTable
  imports Machine Encoding
begin

text \<open>
  \<^verbatim>\<open>userprog/FileDescriptors.h\<close> with what it stands on in the build with \<^verbatim>\<open>FILESYS_STUB\<close>: the UNIX calls of
  \<^verbatim>\<open>lib/sysdep.cc\<close>, and the file system and open files of \<^verbatim>\<open>filesys/filesys.h\<close> and \<^verbatim>\<open>filesys/openfile.h\<close> that are
  made of them.

  The host's UNIX is a parameter: a record of functions on the state \<open>'h\<close> of the host. A call returns what it
  returns in C; \<open>u_read\<close> and \<open>u_recv\<close> return the bytes they deliver, or \<open>None\<close> for -1. \<open>posix\<close> states what the
  descriptor table relies on. Names and buffers are lists of bytes without the terminating zero. Closing a file
  keeps the \<^verbatim>\<open>OpenFile\<close> object, to which nothing points any more; descriptors hold theirs by value.
\<close>

record 'h unix =
  u_open :: "byte list \<Rightarrow> bool \<Rightarrow> 'h \<Rightarrow> int \<times> 'h"
  u_read :: "int \<Rightarrow> int \<Rightarrow> 'h \<Rightarrow> byte list option \<times> 'h"
  u_write :: "int \<Rightarrow> byte list \<Rightarrow> 'h \<Rightarrow> int \<times> 'h"
  u_lseek :: "int \<Rightarrow> int \<Rightarrow> int \<Rightarrow> 'h \<Rightarrow> int \<times> 'h"
  u_close :: "int \<Rightarrow> 'h \<Rightarrow> int \<times> 'h"
  u_unlink :: "byte list \<Rightarrow> 'h \<Rightarrow> int \<times> 'h"
  u_poll :: "int \<Rightarrow> 'h \<Rightarrow> int \<times> 'h"
  u_socket :: "'h \<Rightarrow> int \<times> 'h"
  u_connect :: "int \<Rightarrow> byte list \<Rightarrow> int \<Rightarrow> 'h \<Rightarrow> int \<times> 'h"
  u_send :: "int \<Rightarrow> byte list \<Rightarrow> 'h \<Rightarrow> int \<times> 'h"
  u_recv :: "int \<Rightarrow> int \<Rightarrow> 'h \<Rightarrow> byte list option \<times> 'h"

section \<open>System dependent routines\<close>

text \<open>\<open>u_poll\<close> is \<^verbatim>\<open>select\<close> on one descriptor, without waiting.\<close>

definition PollFile :: "'h unix \<Rightarrow> int \<Rightarrow> 'h \<Rightarrow> (bool \<times> 'h) result" where
  "PollFile u fd h = (let (retVal, h1) = u_poll u fd h in rbind (ASSERT (retVal = 0 \<or> retVal = 1)) (\<lambda>_. Inr (retVal \<noteq> 0, h1)))"

definition OpenForWrite :: "'h unix \<Rightarrow> byte list \<Rightarrow> 'h \<Rightarrow> (int \<times> 'h) result" where
  "OpenForWrite u name h = (let (fd, h1) = u_open u name True h in rbind (ASSERT (fd \<ge> 0)) (\<lambda>_. Inr (fd, h1)))"

definition OpenForReadWrite :: "'h unix \<Rightarrow> byte list \<Rightarrow> bool \<Rightarrow> 'h \<Rightarrow> (int \<times> 'h) result" where
  "OpenForReadWrite u name crashOnError h =
     (let (fd, h1) = u_open u name False h in rbind (ASSERT (\<not> crashOnError \<or> fd \<ge> 0)) (\<lambda>_. Inr (fd, h1)))"

definition ReadPartial :: "'h unix \<Rightarrow> int \<Rightarrow> int \<Rightarrow> 'h \<Rightarrow> byte list option \<times> 'h" where
  "ReadPartial u fd nBytes h = u_read u fd nBytes h"

definition WriteFile :: "'h unix \<Rightarrow> int \<Rightarrow> byte list \<Rightarrow> 'h \<Rightarrow> 'h result" where
  "WriteFile u fd buffer h =
     (let (retVal, h1) = u_write u fd buffer h in rbind (ASSERT (retVal = int (length buffer))) (\<lambda>_. Inr h1))"

definition Lseek :: "'h unix \<Rightarrow> int \<Rightarrow> int \<Rightarrow> int \<Rightarrow> 'h \<Rightarrow> 'h result" where
  "Lseek u fd offset whence h =
     (let (retVal, h1) = u_lseek u fd offset whence h in rbind (ASSERT (retVal \<ge> 0)) (\<lambda>_. Inr h1))"

definition Tell :: "'h unix \<Rightarrow> int \<Rightarrow> 'h \<Rightarrow> int \<times> 'h" where
  "Tell u fd h = u_lseek u fd 0 1 h"

definition Close :: "'h unix \<Rightarrow> int \<Rightarrow> 'h \<Rightarrow> 'h result" where
  "Close u fd h = (let (retVal, h1) = u_close u fd h in rbind (ASSERT (retVal \<ge> 0)) (\<lambda>_. Inr h1))"

text \<open>\<^verbatim>\<open>Unlink\<close> returns the result of \<^verbatim>\<open>unlink\<close> as a \<^verbatim>\<open>bool\<close>: true when it failed.\<close>

definition Unlink :: "'h unix \<Rightarrow> byte list \<Rightarrow> 'h \<Rightarrow> bool \<times> 'h" where
  "Unlink u name h = (let (retVal, h1) = u_unlink u name h in (retVal \<noteq> 0, h1))"

section \<open>Stub file system\<close>

text \<open>The constructor with one argument leaves \<^verbatim>\<open>type\<close> unset.\<close>

record StubFile =
  sf_file :: int
  sf_offset :: int
  sf_type :: "int option"

definition StubFile_ReadAt :: "'h unix \<Rightarrow> StubFile \<Rightarrow> int \<Rightarrow> int \<Rightarrow> 'h \<Rightarrow> (byte list option \<times> 'h) result" where
  "StubFile_ReadAt u f numBytes position h =
     rbind (Lseek u (sf_file f) position 0 h) (\<lambda>h1. Inr (ReadPartial u (sf_file f) numBytes h1))"

definition StubFile_WriteAt :: "'h unix \<Rightarrow> StubFile \<Rightarrow> byte list \<Rightarrow> int \<Rightarrow> 'h \<Rightarrow> (int \<times> 'h) result" where
  "StubFile_WriteAt u f buffer position h =
     rbind (Lseek u (sf_file f) position 0 h) (\<lambda>h1.
     rbind (WriteFile u (sf_file f) buffer h1) (\<lambda>h2. Inr (int (length buffer), h2)))"

text \<open>A failed read returns -1, and the offset moves back by one.\<close>

definition read_count :: "byte list option \<Rightarrow> int" where
  "read_count r = (case r of None \<Rightarrow> - 1 | Some bs \<Rightarrow> int (length bs))"

definition StubFile_Read :: "'h unix \<Rightarrow> StubFile \<Rightarrow> int \<Rightarrow> 'h \<Rightarrow> (byte list option \<times> StubFile \<times> 'h) result" where
  "StubFile_Read u f numBytes h =
     rbind (StubFile_ReadAt u f numBytes (sf_offset f) h) (\<lambda>(r, h1). Inr (r, f\<lparr>sf_offset := sf_offset f + read_count r\<rparr>, h1))"

definition StubFile_Write :: "'h unix \<Rightarrow> StubFile \<Rightarrow> byte list \<Rightarrow> 'h \<Rightarrow> (int \<times> StubFile \<times> 'h) result" where
  "StubFile_Write u f buffer h =
     rbind (StubFile_WriteAt u f buffer (sf_offset f) h) (\<lambda>(n, h1). Inr (n, f\<lparr>sf_offset := sf_offset f + n\<rparr>, h1))"

definition StubFile_Seek :: "StubFile \<Rightarrow> int \<Rightarrow> int \<times> StubFile" where
  "StubFile_Seek f pos = (pos, f\<lparr>sf_offset := pos\<rparr>)"

definition StubFile_Length :: "'h unix \<Rightarrow> StubFile \<Rightarrow> 'h \<Rightarrow> (int \<times> 'h) result" where
  "StubFile_Length u f h = rbind (Lseek u (sf_file f) 0 2 h) (\<lambda>h1. Inr (Tell u (sf_file f) h1))"

definition StubFS_Create :: "'h unix \<Rightarrow> byte list \<Rightarrow> 'h \<Rightarrow> (bool \<times> 'h) result" where
  "StubFS_Create u name h =
     rbind (OpenForWrite u name h) (\<lambda>(fd, h1).
     if fd = - 1 then Inr (False, h1) else rbind (Close u fd h1) (\<lambda>h2. Inr (True, h2)))"

definition StubFS_Open :: "'h unix \<Rightarrow> byte list \<Rightarrow> int option \<Rightarrow> 'h \<Rightarrow> (StubFile option \<times> 'h) result" where
  "StubFS_Open u name type h =
     rbind (OpenForReadWrite u name False h) (\<lambda>(fd, h1).
     Inr (if fd = - 1 then None else Some \<lparr>sf_file = fd, sf_offset = 0, sf_type = type\<rparr>, h1))"

definition StubFS_Remove :: "'h unix \<Rightarrow> byte list \<Rightarrow> 'h \<Rightarrow> bool \<times> 'h" where
  "StubFS_Remove u name h = (let (failed, h1) = Unlink u name h in (\<not> failed, h1))"

section \<open>Descriptors\<close>

definition ReadWriteFile :: int where "ReadWriteFile = 0"
definition ReadFile :: int where "ReadFile = 1"
definition Socket_Mode :: int where "Socket_Mode = 2"

record FileDescriptor =
  fd_mode :: int
  fd_id :: int
  fd_file :: "StubFile option"
  fd_name :: "byte list option"

definition FileDescriptor_new :: FileDescriptor where
  "FileDescriptor_new = \<lparr>fd_mode = - 1, fd_id = - 1, fd_file = None, fd_name = None\<rparr>"

definition the_file :: "FileDescriptor \<Rightarrow> StubFile result" where
  "the_file d = (case fd_file d of None \<Rightarrow> Inl NullDeref | Some f \<Rightarrow> Inr f)"

definition FileDescriptor_Seek :: "'h unix \<Rightarrow> int \<Rightarrow> FileDescriptor \<Rightarrow> 'h \<Rightarrow> (int \<times> FileDescriptor \<times> 'h) result" where
  "FileDescriptor_Seek u position d h =
     rbind (the_file d) (\<lambda>f.
     rbind (StubFile_Length u f h) (\<lambda>(len, h1).
     if position \<ge> len then Inr (- 1, d, h1)
     else if position = - 1 then
       rbind (StubFile_Length u f h1) (\<lambda>(len2, h2).
       let (r, f1) = StubFile_Seek f len2 in Inr (r, d\<lparr>fd_file := Some f1\<rparr>, h2))
     else let (r, f1) = StubFile_Seek f position in Inr (r, d\<lparr>fd_file := Some f1\<rparr>, h1)))"

definition FileDescriptor_Open_File :: "'h unix \<Rightarrow> byte list \<Rightarrow> int \<Rightarrow> FileDescriptor \<Rightarrow> 'h \<Rightarrow> (int \<times> FileDescriptor \<times> 'h) result" where
  "FileDescriptor_Open_File u name type d h =
     rbind (StubFS_Open u name (Some type) h) (\<lambda>(r, h1).
     case r of
       None \<Rightarrow> Inr (- 1, d\<lparr>fd_file := None\<rparr>, h1)
     | Some f \<Rightarrow> Inr (sf_file f, \<lparr>fd_mode = (if type = 0 then ReadWriteFile else ReadFile), fd_id = sf_file f,
         fd_file = Some f, fd_name = Some name\<rparr>, h1))"

definition FileDescriptor_Close_File :: "'h unix \<Rightarrow> FileDescriptor \<Rightarrow> 'h \<Rightarrow> (int \<times> FileDescriptor \<times> 'h) result" where
  "FileDescriptor_Close_File u d h =
     (if fd_id d = - 1 then Inr (- 1, d, h)
      else rbind (Close u (fd_id d) h) (\<lambda>h1. Inr (1, FileDescriptor_new, h1)))"

definition FileDescriptor_Read :: "'h unix \<Rightarrow> int \<Rightarrow> FileDescriptor \<Rightarrow> 'h \<Rightarrow> (byte list option \<times> FileDescriptor \<times> 'h) result" where
  "FileDescriptor_Read u sz d h =
     rbind (the_file d) (\<lambda>f. rbind (StubFile_Read u f sz h) (\<lambda>(r, f1, h1). Inr (r, d\<lparr>fd_file := Some f1\<rparr>, h1)))"

definition FileDescriptor_Write :: "'h unix \<Rightarrow> byte list \<Rightarrow> FileDescriptor \<Rightarrow> 'h \<Rightarrow> (int \<times> FileDescriptor \<times> 'h) result" where
  "FileDescriptor_Write u buffer d h =
     (if fd_mode d = ReadWriteFile
      then rbind (the_file d) (\<lambda>f. rbind (StubFile_Write u f buffer h) (\<lambda>(r, f1, h1). Inr (r, d\<lparr>fd_file := Some f1\<rparr>, h1)))
      else Inr (- 1, d, h))"

definition FileDescriptor_SocketTCP :: "'h unix \<Rightarrow> FileDescriptor \<Rightarrow> 'h \<Rightarrow> int \<times> FileDescriptor \<times> 'h" where
  "FileDescriptor_SocketTCP u d h =
     (let (socketid, h1) = u_socket u h in
      if socketid < 0 then (- 1, d, h1)
      else (socketid, \<lparr>fd_mode = Socket_Mode, fd_id = socketid, fd_file = None, fd_name = None\<rparr>, h1))"

definition FileDescriptor_Connect :: "'h unix \<Rightarrow> int \<Rightarrow> byte list \<Rightarrow> int \<Rightarrow> 'h \<Rightarrow> int \<times> 'h" where
  "FileDescriptor_Connect u socketid hostname port h =
     (let (r, h1) = u_connect u socketid hostname port h in (if r < 0 then - 1 else 0, h1))"

text \<open>\<open>c_str\<close>: the bytes of a buffer up to the first zero, which \<^verbatim>\<open>strcmp\<close> compares.\<close>

definition c_str :: "byte list \<Rightarrow> byte list" where
  "c_str bs = takeWhile (\<lambda>b. b \<noteq> 0) bs"

definition exit_word :: "byte list" where
  "exit_word = [101, 120, 105, 116]"

definition FileDescriptor_Send :: "'h unix \<Rightarrow> int \<Rightarrow> byte list \<Rightarrow> int \<Rightarrow> 'h \<Rightarrow> int \<times> 'h" where
  "FileDescriptor_Send u socketid buffer len h =
     (let (sent, h1) = u_send u socketid (take (nat len) buffer) h in
      (if sent < 0 then - 1 else if c_str buffer = exit_word then 0 else sent, h1))"

text \<open>Returns the buffer after the call: what was received over what was there.\<close>

definition FileDescriptor_Receive :: "'h unix \<Rightarrow> int \<Rightarrow> byte list \<Rightarrow> int \<Rightarrow> 'h \<Rightarrow> int \<times> byte list \<times> 'h" where
  "FileDescriptor_Receive u socketid buffer len h =
     (let (r, h1) = u_recv u socketid len h in
      case r of None \<Rightarrow> (- 1, buffer, h1)
      | Some bs \<Rightarrow> let buffer1 = bs @ drop (length bs) buffer in
          (if c_str buffer1 = exit_word then 0 else int (length bs), buffer1, h1))"

definition FileDescriptor_Close_Socket :: "'h unix \<Rightarrow> FileDescriptor \<Rightarrow> 'h \<Rightarrow> int \<times> FileDescriptor \<times> 'h" where
  "FileDescriptor_Close_Socket u d h =
     (if fd_id d = - 1 then (- 1, d, h)
      else let (_, h1) = u_close u (fd_id d) h in (1, d\<lparr>fd_mode := - 1, fd_id := - 1\<rparr>, h1))"

section \<open>The table\<close>

definition capacity :: nat where "capacity = 20"

definition Table_new :: "FileDescriptor list" where
  "Table_new = replicate capacity FileDescriptor_new"

text \<open>The loops run from slot 2: the first slot from \<open>i\<close> on with property \<open>P\<close>, or -1.\<close>

definition scan :: "(FileDescriptor \<Rightarrow> bool) \<Rightarrow> FileDescriptor list \<Rightarrow> int" where
  "scan P t = (case List.find (\<lambda>i. P (t ! i)) [2..<length t] of None \<Rightarrow> - 1 | Some i \<Rightarrow> int i)"

definition Table_FindFreeSlot :: "FileDescriptor list \<Rightarrow> int" where
  "Table_FindFreeSlot t = scan (\<lambda>d. fd_mode d = - 1) t"

definition Table_IsOpening :: "FileDescriptor list \<Rightarrow> int \<Rightarrow> int" where
  "Table_IsOpening t i = scan (\<lambda>d. fd_id d = i) t"

text \<open>\<^verbatim>\<open>strcasecmp\<close> ignores the case of ASCII letters. A socket has mode 2 and no name: \<^verbatim>\<open>strcasecmp\<close> of a null pointer.\<close>

definition to_lower :: "byte \<Rightarrow> byte" where
  "to_lower b = (if 65 \<le> b \<and> b \<le> 90 then b + 32 else b)"

fun name_scan :: "byte list \<Rightarrow> FileDescriptor list \<Rightarrow> int \<Rightarrow> int result" where
  "name_scan name [] i = Inr (- 1)"
| "name_scan name (d # ds) i =
     (if fd_mode d \<noteq> - 1
      then case fd_name d of None \<Rightarrow> Inl NullDeref
           | Some n \<Rightarrow> if map to_lower n = map to_lower name then Inr i else name_scan name ds (i + 1)
      else name_scan name ds (i + 1))"

definition Table_IsOpeningWithName :: "FileDescriptor list \<Rightarrow> byte list \<Rightarrow> int result" where
  "Table_IsOpeningWithName t name = name_scan name (drop 2 t) 2"

definition Table_PrintOpeningFile :: "FileDescriptor list \<Rightarrow> byte list option list" where
  "Table_PrintOpeningFile t = map fd_name (filter (\<lambda>d. fd_mode d \<noteq> - 1) (drop 2 t))"

definition Table_Open :: "'h unix \<Rightarrow> byte list \<Rightarrow> int \<Rightarrow> FileDescriptor list \<Rightarrow> 'h \<Rightarrow> (int \<times> FileDescriptor list \<times> 'h) result" where
  "Table_Open u name type t h =
     (let slot = Table_FindFreeSlot t in
      if slot = - 1 then Inr (- 1, t, h)
      else rbind (FileDescriptor_Open_File u name type (t ! nat slot) h) (\<lambda>(r, d, h1).
           Inr (if r = - 1 then - 1 else fd_id d, t[nat slot := d], h1)))"

definition Table_Close :: "'h unix \<Rightarrow> int \<Rightarrow> FileDescriptor list \<Rightarrow> 'h \<Rightarrow> (int \<times> FileDescriptor list \<times> 'h) result" where
  "Table_Close u i t h =
     (let index = Table_IsOpening t i in
      if index \<noteq> - 1
      then rbind (FileDescriptor_Close_File u (t ! nat index) h) (\<lambda>(r, d, h1). Inr (r, t[nat index := d], h1))
      else Inr (- 1, t, h))"

text \<open>\<^verbatim>\<open>GetFileDescriptor\<close> returns a null pointer when the file is not open: the slot, or \<open>NullDeref\<close> on its use.\<close>

definition Table_GetFileDescriptor :: "FileDescriptor list \<Rightarrow> int \<Rightarrow> nat result" where
  "Table_GetFileDescriptor t i =
     (let index = Table_IsOpening t i in if index \<noteq> - 1 then Inr (nat index) else Inl NullDeref)"

definition Table_SocketTCP :: "'h unix \<Rightarrow> FileDescriptor list \<Rightarrow> 'h \<Rightarrow> int \<times> FileDescriptor list \<times> 'h" where
  "Table_SocketTCP u t h =
     (let slot = Table_FindFreeSlot t in
      if slot = - 1 then (- 1, t, h)
      else let (r, d, h1) = FileDescriptor_SocketTCP u (t ! nat slot) h in (r, t[nat slot := d], h1))"

definition Table_Connect :: "'h unix \<Rightarrow> int \<Rightarrow> byte list \<Rightarrow> int \<Rightarrow> FileDescriptor list \<Rightarrow> 'h \<Rightarrow> int \<times> 'h" where
  "Table_Connect u socketid hostname port t h =
     (if Table_IsOpening t socketid \<noteq> - 1 then FileDescriptor_Connect u socketid hostname port h else (- 1, h))"

definition Table_Send :: "'h unix \<Rightarrow> int \<Rightarrow> byte list \<Rightarrow> int \<Rightarrow> FileDescriptor list \<Rightarrow> 'h \<Rightarrow> int \<times> 'h" where
  "Table_Send u socketid buffer len t h =
     (if Table_IsOpening t socketid \<noteq> - 1 then FileDescriptor_Send u socketid buffer len h else (- 1, h))"

definition Table_Receive :: "'h unix \<Rightarrow> int \<Rightarrow> byte list \<Rightarrow> int \<Rightarrow> FileDescriptor list \<Rightarrow> 'h \<Rightarrow> int \<times> byte list \<times> 'h" where
  "Table_Receive u socketid buffer len t h =
     (if Table_IsOpening t socketid \<noteq> - 1 then FileDescriptor_Receive u socketid buffer len h else (- 1, buffer, h))"

definition Table_Close_Socket :: "'h unix \<Rightarrow> int \<Rightarrow> FileDescriptor list \<Rightarrow> 'h \<Rightarrow> int \<times> FileDescriptor list \<times> 'h" where
  "Table_Close_Socket u socketid t h =
     (let index = Table_IsOpening t socketid in
      if index \<noteq> - 1
      then let (r, d, h1) = FileDescriptor_Close_Socket u (t ! nat index) h in (r, t[nat index := d], h1)
      else (- 1, t, h))"

section \<open>What the host promises\<close>

text \<open>\<open>opened h\<close> are the descriptors open in the host: \<^verbatim>\<open>open\<close> and \<^verbatim>\<open>socket\<close> return a descriptor that was not open, or
  -1, and \<^verbatim>\<open>close\<close> of an open descriptor succeeds.\<close>

definition posix :: "'h unix \<Rightarrow> ('h \<Rightarrow> int set) \<Rightarrow> bool" where
  "posix u opened \<longleftrightarrow>
     (\<forall>name c h fd h'. u_open u name c h = (fd, h') \<longrightarrow>
        fd = - 1 \<and> opened h' = opened h \<or> 0 \<le> fd \<and> fd \<notin> opened h \<and> opened h' = insert fd (opened h))
   \<and> (\<forall>h fd h'. u_socket u h = (fd, h') \<longrightarrow>
        fd = - 1 \<and> opened h' = opened h \<or> 0 \<le> fd \<and> fd \<notin> opened h \<and> opened h' = insert fd (opened h))
   \<and> (\<forall>fd h r h'. fd \<in> opened h \<longrightarrow> u_close u fd h = (r, h') \<longrightarrow> r = 0 \<and> opened h' = opened h - {fd})"

lemma posix_open:
  assumes "posix u opened" and "u_open u name c h = (fd, h')"
  shows "fd = - 1 \<and> opened h' = opened h \<or> 0 \<le> fd \<and> fd \<notin> opened h \<and> opened h' = insert fd (opened h)"
  by (rule assms(1) [unfolded posix_def, THEN conjunct1, rule_format, OF assms(2)])

lemma posix_socket:
  assumes "posix u opened" and "u_socket u h = (fd, h')"
  shows "fd = - 1 \<and> opened h' = opened h \<or> 0 \<le> fd \<and> fd \<notin> opened h \<and> opened h' = insert fd (opened h)"
  by (rule assms(1) [unfolded posix_def, THEN conjunct2, THEN conjunct1, rule_format, OF assms(2)])

lemma posix_close:
  assumes "posix u opened" and "fd \<in> opened h" and "u_close u fd h = (r, h')"
  shows "r = 0 \<and> opened h' = opened h - {fd}"
  by (rule assms(1) [unfolded posix_def, THEN conjunct2, THEN conjunct2, rule_format, OF assms(2,3)])

section \<open>Invariant\<close>

text \<open>Descriptors of the table that are open, by slot; the first two slots stay unused. 0, 1 and 2 are open in every UNIX process.\<close>

definition open_slots :: "FileDescriptor list \<Rightarrow> nat set" where
  "open_slots t = {i. 2 \<le> i \<and> i < length t \<and> fd_mode (t ! i) \<noteq> - 1}"

definition open_ids :: "FileDescriptor list \<Rightarrow> int set" where
  "open_ids t = (\<lambda>i. fd_id (t ! i)) ` open_slots t"

definition slot_ok :: "FileDescriptor \<Rightarrow> bool" where
  "slot_ok d \<longleftrightarrow> (fd_mode d = - 1 \<longleftrightarrow> fd_id d = - 1)
     \<and> (fd_mode d \<in> {0, 1} \<longrightarrow> (\<exists>f. fd_file d = Some f \<and> sf_file f = fd_id d) \<and> fd_name d \<noteq> None)
     \<and> (fd_mode d = 2 \<longrightarrow> fd_name d = None) \<and> fd_mode d \<in> {- 1, 0, 1, 2}"

definition tab_ok :: "('h \<Rightarrow> int set) \<Rightarrow> FileDescriptor list \<Rightarrow> 'h \<Rightarrow> bool" where
  "tab_ok opened t h \<longleftrightarrow> length t = capacity \<and> (\<forall>i. 2 \<le> i \<longrightarrow> i < length t \<longrightarrow> slot_ok (t ! i)) \<and> t ! 0 = FileDescriptor_new \<and> t ! 1 = FileDescriptor_new
     \<and> inj_on (\<lambda>i. fd_id (t ! i)) (open_slots t) \<and> open_ids t \<subseteq> opened h - {0, 1, 2} \<and> {0, 1, 2} \<subseteq> opened h \<and> - 1 \<notin> opened h"

lemma find_Some_in: "List.find P xs = Some x \<Longrightarrow> x \<in> set xs \<and> P x"
  by (auto simp: find_Some_iff in_set_conv_nth)

lemma scan_none: "scan P t = - 1 \<longleftrightarrow> (\<forall>i. 2 \<le> i \<longrightarrow> i < length t \<longrightarrow> \<not> P (t ! i))"
proof (cases "List.find (\<lambda>i. P (t ! i)) [2..<length t]")
  case None
  then have "\<forall>i \<in> set [2..<length t]. \<not> P (t ! i)"
    by (simp add: find_None_iff)
  then show ?thesis using None by (simp add: scan_def)
next
  case (Some i)
  then show ?thesis using find_Some_in [OF Some] by (auto simp: scan_def)
qed

lemma scan_some:
  assumes "scan P t \<noteq> - 1"
  obtains i where "scan P t = int i" "2 \<le> i" "i < length t" "P (t ! i)"
proof (cases "List.find (\<lambda>i. P (t ! i)) [2..<length t]")
  case None
  then show thesis using assms by (simp add: scan_def)
next
  case (Some i)
  then show thesis using that [of i] find_Some_in [OF Some] by (simp add: scan_def)
qed

lemma open_slots_update:
  assumes "2 \<le> k" and "k < length t"
  shows "open_slots (t[k := d]) = (if fd_mode d \<noteq> - 1 then insert k (open_slots t) else open_slots t - {k})"
  using assms by (auto simp: open_slots_def nth_list_update)

lemma open_slots_finite [simp]: "finite (open_slots t)"
  by (rule finite_subset [of _ "{..<length t}"]) (auto simp: open_slots_def)

lemma open_slots_card:
  assumes "length t = capacity"
  shows "card (open_slots t) \<le> 18" "card (open_slots t) = 18 \<longleftrightarrow> Table_FindFreeSlot t = - 1"
proof -
  have sub: "open_slots t \<subseteq> {2..<20}"
    using assms by (auto simp: open_slots_def capacity_def)
  then show "card (open_slots t) \<le> 18"
    using card_mono [OF _ sub] by simp
  have "card (open_slots t) = 18 \<longleftrightarrow> open_slots t = {2..<20}"
    using card_subset_eq [OF _ sub] by auto
  also have "\<dots> \<longleftrightarrow> Table_FindFreeSlot t = - 1"
  proof -
    have "open_slots t = {2..<20} \<longleftrightarrow> (\<forall>i. 2 \<le> i \<longrightarrow> i < 20 \<longrightarrow> i \<in> open_slots t)"
      using sub by (auto dest: subsetD)
    then show ?thesis
      unfolding Table_FindFreeSlot_def scan_none using assms by (simp add: open_slots_def capacity_def)
  qed
  finally show "card (open_slots t) = 18 \<longleftrightarrow> Table_FindFreeSlot t = - 1" .
qed

lemma open_ids_card: "tab_ok opened t h \<Longrightarrow> card (open_ids t) = card (open_slots t)"
  unfolding open_ids_def by (rule card_image) (simp add: tab_ok_def)

lemma IsOpening_iff:
  assumes "tab_ok opened t h" and "i \<noteq> - 1"
  shows "Table_IsOpening t i \<noteq> - 1 \<longleftrightarrow> i \<in> open_ids t"
proof -
  have "fd_id (t ! k) = i \<longleftrightarrow> k \<in> open_slots t \<and> fd_id (t ! k) = i" if "2 \<le> k" "k < length t" for k
    using assms that by (auto simp: open_slots_def tab_ok_def slot_ok_def)
  then show ?thesis
    unfolding Table_IsOpening_def scan_none open_ids_def by (auto simp: open_slots_def)
qed

lemma IsOpening_slot:
  assumes "tab_ok opened t h" and "i \<in> open_ids t"
  obtains k where "Table_IsOpening t i = int k" "k \<in> open_slots t" "fd_id (t ! k) = i" "2 \<le> k" "k < length t"
proof -
  have "i \<noteq> - 1"
    using assms by (auto simp: tab_ok_def)
  then have "scan (\<lambda>d. fd_id d = i) t \<noteq> - 1"
    using IsOpening_iff [OF assms(1), of i] assms(2) by (simp add: Table_IsOpening_def)
  then obtain k where k: "Table_IsOpening t i = int k" "2 \<le> k" "k < length t" "fd_id (t ! k) = i"
    unfolding Table_IsOpening_def by (rule scan_some)
  moreover have "k \<in> open_slots t"
    using k \<open>i \<noteq> - 1\<close> assms(1) by (auto simp: open_slots_def tab_ok_def slot_ok_def)
  ultimately show thesis
    using that by blast
qed

text \<open>Filling a free slot with a descriptor that was not open, and clearing a slot.\<close>

lemma tab_ok_fill:
  assumes "tab_ok opened t h" and "2 \<le> k" "k < length t" "fd_mode (t ! k) = - 1" and "slot_ok d" "fd_mode d \<noteq> - 1" "fd_id d = fd"
    and "0 \<le> fd" "fd \<notin> opened h" "opened h' = insert fd (opened h)"
  shows "tab_ok opened (t[k := d]) h'" "open_ids (t[k := d]) = insert fd (open_ids t)" "fd \<notin> open_ids t" "2 < fd"
proof -
  have k: "k \<notin> open_slots t"
    using assms(4) by (simp add: open_slots_def)
  have s: "open_slots (t[k := d]) = insert k (open_slots t)"
    using assms(2,3,6) by (simp add: open_slots_update)
  have keep: "t[k := d] ! i = t ! i" if "i \<in> open_slots t" for i
    using that k by (metis nth_list_update_neq)
  then have img: "(\<lambda>i. fd_id (t[k := d] ! i)) ` open_slots t = (\<lambda>i. fd_id (t ! i)) ` open_slots t"
    by (intro image_cong) simp_all
  then show ids: "open_ids (t[k := d]) = insert fd (open_ids t)"
    using assms(3,7) by (simp add: open_ids_def s)
  have sub: "open_ids t \<subseteq> opened h - {0, 1, 2}" "{0, 1, 2} \<subseteq> opened h"
    using assms(1) by (simp_all add: tab_ok_def)
  then show new: "fd \<notin> open_ids t"
    using assms(9) by blast
  show "2 < fd"
  proof (rule ccontr)
    assume "\<not> 2 < fd"
    then have "fd \<in> {0, 1, 2}"
      using assms(8) by auto
    then show False
      using sub(2) assms(9) by blast
  qed
  have "inj_on (\<lambda>i. fd_id (t[k := d] ! i)) (open_slots t)"
    using assms(1) keep by (subst inj_on_cong [of _ _ "\<lambda>i. fd_id (t ! i)"]) (auto simp: tab_ok_def)
  then have "inj_on (\<lambda>i. fd_id (t[k := d] ! i)) (open_slots (t[k := d]))"
    unfolding s using new k assms(3,7) img by (simp add: open_ids_def)
  then show "tab_ok opened (t[k := d]) h'"
    using assms sub \<open>2 < fd\<close> unfolding tab_ok_def ids by (auto simp: nth_list_update)
qed

lemma tab_ok_free:
  assumes "tab_ok opened t h" and "k \<in> open_slots t" and "slot_ok d" "fd_mode d = - 1" and "opened h' = opened h - {fd_id (t ! k)}"
  shows "tab_ok opened (t[k := d]) h'" "open_ids (t[k := d]) = open_ids t - {fd_id (t ! k)}"
proof -
  have k: "2 \<le> k" "k < length t"
    using assms(2) by (simp_all add: open_slots_def)
  have s: "open_slots (t[k := d]) = open_slots t - {k}"
    using k assms(4) by (simp add: open_slots_update)
  have inj: "inj_on (\<lambda>i. fd_id (t ! i)) (open_slots t)" and sub: "open_ids t \<subseteq> opened h - {0, 1, 2}" "{0, 1, 2} \<subseteq> opened h"
    using assms(1) by (simp_all add: tab_ok_def)
  have img: "(\<lambda>i. fd_id (t[k := d] ! i)) ` (open_slots t - {k}) = (\<lambda>i. fd_id (t ! i)) ` (open_slots t - {k})"
    by (intro image_cong) auto
  then show ids: "open_ids (t[k := d]) = open_ids t - {fd_id (t ! k)}"
    unfolding open_ids_def s using inj_on_image_set_diff [OF inj, of "open_slots t" "{k}"] assms(2) by simp
  have "inj_on (\<lambda>i. fd_id (t[k := d] ! i)) (open_slots t - {k})"
    using inj by (subst inj_on_cong [of _ _ "\<lambda>i. fd_id (t ! i)"]) (auto intro: inj_on_subset)
  then have inj': "inj_on (\<lambda>i. fd_id (t[k := d] ! i)) (open_slots (t[k := d]))"
    unfolding s .
  have "fd_id (t ! k) \<in> open_ids t"
    using assms(2) by (simp add: open_ids_def)
  then have "fd_id (t ! k) \<notin> {0, 1, 2}"
    using sub(1) by blast
  then show "tab_ok opened (t[k := d]) h'"
    using assms k sub inj' unfolding tab_ok_def ids by (auto simp: nth_list_update)
qed

section \<open>The operations\<close>

lemma tab_ok_host: "tab_ok opened t h \<Longrightarrow> opened h' = opened h \<Longrightarrow> tab_ok opened t h'"
  by (simp add: tab_ok_def)

lemma free_slot:
  assumes "Table_FindFreeSlot t \<noteq> - 1"
  obtains k where "Table_FindFreeSlot t = int k" "2 \<le> k" "k < length t" "fd_mode (t ! k) = - 1"
  using assms unfolding Table_FindFreeSlot_def by (rule scan_some)

text \<open>A descriptor whose opening failed.\<close>

lemma tab_ok_failed_open:
  assumes "tab_ok opened t h" and "2 \<le> k" "k < length t" "fd_mode (t ! k) = - 1"
  shows "tab_ok opened (t[k := (t ! k)\<lparr>fd_file := None\<rparr>]) h" "open_ids (t[k := (t ! k)\<lparr>fd_file := None\<rparr>]) = open_ids t"
proof -
  let ?t = "t[k := (t ! k)\<lparr>fd_file := None\<rparr>]"
  have s: "open_slots ?t = open_slots t"
    using assms(2-4) by (auto simp: open_slots_update) (simp_all add: open_slots_def)
  have ids: "fd_id (?t ! i) = fd_id (t ! i)" for i
    using assms(3) by (cases "i = k") simp_all
  show "open_ids ?t = open_ids t"
    by (simp add: open_ids_def s ids)
  have "slot_ok (t ! k)"
    using assms(1-3) by (simp add: tab_ok_def)
  then have "slot_ok ((t ! k)\<lparr>fd_file := None\<rparr>)"
    using assms(4) by (simp add: slot_ok_def)
  then have "slot_ok (?t ! i)" if "2 \<le> i" "i < length t" for i
    using that assms(1) by (cases "i = k") (simp_all add: tab_ok_def)
  then show "tab_ok opened ?t h"
    using assms(1,2) by (simp add: tab_ok_def open_ids_def s ids)
qed

lemma Table_Open_ok:
  assumes "posix u opened" and "tab_ok opened t h" and "type \<in> {0, 1}"
  shows "\<exists>r t' h'. Table_Open u name type t h = Inr (r, t', h') \<and> tab_ok opened t' h'
    \<and> r = (if card (open_ids t) = 18 then - 1 else fst (u_open u name False h))
    \<and> (if r = - 1 then open_ids t' = open_ids t else r \<notin> open_ids t \<and> 2 < r \<and> open_ids t' = insert r (open_ids t))"
proof (cases "Table_FindFreeSlot t = - 1")
  case True
  then show ?thesis
    using assms(2) open_slots_card(2) [of t] open_ids_card [OF assms(2)] by (simp add: Table_Open_def tab_ok_def)
next
  case False
  then obtain k where k: "Table_FindFreeSlot t = int k" "2 \<le> k" "k < length t" "fd_mode (t ! k) = - 1"
    by (rule free_slot)
  have c: "card (open_ids t) \<noteq> 18"
    using open_slots_card(2) [of t] False open_ids_card [OF assms(2)] assms(2) by (simp add: tab_ok_def)
  obtain fd h1 where o: "u_open u name False h = (fd, h1)"
    by (cases "u_open u name False h")
  then consider "fd = - 1" "opened h1 = opened h" | "0 \<le> fd" "fd \<notin> opened h" "opened h1 = insert fd (opened h)"
    using posix_open [OF assms(1)] by blast
  then show ?thesis
  proof cases
    case 1
    then show ?thesis
      using k c o tab_ok_failed_open [OF tab_ok_host [OF assms(2) 1(2)] k(2-4)]
      by (simp add: Table_Open_def FileDescriptor_Open_File_def StubFS_Open_def OpenForReadWrite_def)
  next
    case 2
    let ?d = "\<lparr>fd_mode = (if type = 0 then ReadWriteFile else ReadFile), fd_id = fd,
      fd_file = Some \<lparr>sf_file = fd, sf_offset = 0, sf_type = Some type\<rparr>, fd_name = Some name\<rparr>"
    have d: "slot_ok ?d" "fd_mode ?d \<noteq> - 1" "fd_id ?d = fd"
      using 2(1) by (simp_all add: slot_ok_def ReadWriteFile_def ReadFile_def)
    note fill = tab_ok_fill [OF assms(2) k(2-4) d 2]
    have "Table_Open u name type t h = Inr (fd, t[k := ?d], h1)"
      using k(1) o 2(1) by (simp add: Table_Open_def FileDescriptor_Open_File_def StubFS_Open_def OpenForReadWrite_def)
    then show ?thesis
      using fill c o 2(1) by auto
  qed
qed

lemma Table_SocketTCP_ok:
  assumes "posix u opened" and "tab_ok opened t h"
  shows "\<exists>r t' h'. Table_SocketTCP u t h = (r, t', h') \<and> tab_ok opened t' h'
    \<and> r = (if card (open_ids t) = 18 then - 1 else fst (u_socket u h))
    \<and> (if r = - 1 then open_ids t' = open_ids t else r \<notin> open_ids t \<and> 2 < r \<and> open_ids t' = insert r (open_ids t))"
proof (cases "Table_FindFreeSlot t = - 1")
  case True
  then show ?thesis
    using assms(2) open_slots_card(2) [of t] open_ids_card [OF assms(2)] by (simp add: Table_SocketTCP_def tab_ok_def)
next
  case False
  then obtain k where k: "Table_FindFreeSlot t = int k" "2 \<le> k" "k < length t" "fd_mode (t ! k) = - 1"
    by (rule free_slot)
  have c: "card (open_ids t) \<noteq> 18"
    using open_slots_card(2) [of t] False open_ids_card [OF assms(2)] assms(2) by (simp add: tab_ok_def)
  obtain fd h1 where o: "u_socket u h = (fd, h1)"
    by (cases "u_socket u h")
  then consider "fd = - 1" "opened h1 = opened h" | "0 \<le> fd" "fd \<notin> opened h" "opened h1 = insert fd (opened h)"
    using posix_socket [OF assms(1)] by blast
  then show ?thesis
  proof cases
    case 1
    then show ?thesis
      using k c o tab_ok_host [OF assms(2) 1(2)] by (simp add: Table_SocketTCP_def FileDescriptor_SocketTCP_def)
  next
    case 2
    let ?d = "\<lparr>fd_mode = Socket_Mode, fd_id = fd, fd_file = None, fd_name = None\<rparr>"
    have d: "slot_ok ?d" "fd_mode ?d \<noteq> - 1" "fd_id ?d = fd"
      using 2(1) by (simp_all add: slot_ok_def Socket_Mode_def)
    note fill = tab_ok_fill [OF assms(2) k(2-4) d 2]
    have "Table_SocketTCP u t h = (fd, t[k := ?d], h1)"
      using k(1) o 2(1) by (simp add: Table_SocketTCP_def FileDescriptor_SocketTCP_def)
    then show ?thesis
      using fill c o 2(1) by auto
  qed
qed

lemma close_slot:
  assumes "posix u opened" and "tab_ok opened t h" and "i \<in> open_ids t"
  obtains h1 where "u_close u i h = (0, h1)" "opened h1 = opened h - {i}"
proof -
  have "i \<in> opened h"
    using assms(2,3) by (auto simp: tab_ok_def)
  then show thesis
    using that posix_close [OF assms(1)] by (cases "u_close u i h") blast
qed

lemma not_open:
  assumes "tab_ok opened t h" and "i \<notin> open_ids t" and "Table_IsOpening t i \<noteq> - 1"
  shows "i = - 1" "fd_id (t ! nat (Table_IsOpening t i)) = - 1"
proof -
  show i: "i = - 1"
    using IsOpening_iff [OF assms(1)] assms(2,3) by blast
  show "fd_id (t ! nat (Table_IsOpening t i)) = - 1"
    using assms(3) unfolding Table_IsOpening_def i by (elim scan_some) simp
qed

lemma Table_Close_ok:
  assumes "posix u opened" and "tab_ok opened t h"
  shows "\<exists>r t' h'. Table_Close u i t h = Inr (r, t', h') \<and> tab_ok opened t' h'
    \<and> (if i \<in> open_ids t then r = 1 \<and> open_ids t' = open_ids t - {i} else r = - 1 \<and> open_ids t' = open_ids t \<and> h' = h)"
proof (cases "i \<in> open_ids t")
  case True
  obtain k where k: "Table_IsOpening t i = int k" "k \<in> open_slots t" "fd_id (t ! k) = i"
    using IsOpening_slot [OF assms(2) True] by blast
  obtain h1 where h1: "u_close u i h = (0, h1)" "opened h1 = opened h - {i}"
    using close_slot [OF assms True] .
  have "slot_ok FileDescriptor_new" "fd_mode FileDescriptor_new = - 1"
    by (simp_all add: slot_ok_def FileDescriptor_new_def)
  note free = tab_ok_free [OF assms(2) k(2) this, of h1]
  have "i \<noteq> - 1"
    using True assms(2) by (auto simp: tab_ok_def)
  then have "Table_Close u i t h = Inr (1, t[k := FileDescriptor_new], h1)"
    using k h1 by (simp add: Table_Close_def FileDescriptor_Close_File_def Close_def)
  then show ?thesis
    using True free h1(2) k(3) by simp
next
  case False
  have "Table_Close u i t h = Inr (- 1, t, h)"
    using not_open [OF assms(2) False] by (cases "Table_IsOpening t i = - 1") (simp_all add: Table_Close_def FileDescriptor_Close_File_def)
  then show ?thesis
    using False assms(2) by simp
qed

lemma Table_Close_Socket_ok:
  assumes "posix u opened" and "tab_ok opened t h"
  shows "\<exists>r t' h'. Table_Close_Socket u i t h = (r, t', h') \<and> tab_ok opened t' h'
    \<and> (if i \<in> open_ids t then r = 1 \<and> open_ids t' = open_ids t - {i} else r = - 1 \<and> open_ids t' = open_ids t \<and> h' = h)"
proof (cases "i \<in> open_ids t")
  case True
  obtain k where k: "Table_IsOpening t i = int k" "k \<in> open_slots t" "fd_id (t ! k) = i"
    using IsOpening_slot [OF assms(2) True] by blast
  obtain h1 where h1: "u_close u i h = (0, h1)" "opened h1 = opened h - {i}"
    using close_slot [OF assms True] .
  let ?d = "(t ! k)\<lparr>fd_mode := - 1, fd_id := - 1\<rparr>"
  have "slot_ok ?d" "fd_mode ?d = - 1"
    by (simp_all add: slot_ok_def)
  note free = tab_ok_free [OF assms(2) k(2) this, of h1]
  have "i \<noteq> - 1"
    using True assms(2) by (auto simp: tab_ok_def)
  then have "Table_Close_Socket u i t h = (1, t[k := ?d], h1)"
    using k h1 by (simp add: Table_Close_Socket_def FileDescriptor_Close_Socket_def)
  then show ?thesis
    using True free h1(2) k(3) by simp
next
  case False
  have "Table_Close_Socket u i t h = (- 1, t, h)"
    using not_open [OF assms(2) False] by (cases "Table_IsOpening t i = - 1") (simp_all add: Table_Close_Socket_def FileDescriptor_Close_Socket_def)
  then show ?thesis
    using False assms(2) by simp
qed

section \<open>A host\<close>

text \<open>A host for the witnesses: the list of its open descriptors. Reads deliver nothing.\<close>

definition toy_open :: "int list \<Rightarrow> int \<times> int list" where
  "toy_open h = (let fd = fold max h 2 + 1 in (fd, fd # h))"

definition toy_unix :: "int list unix" where
  "toy_unix = \<lparr>u_open = (\<lambda>_ _ h. toy_open h), u_read = (\<lambda>_ _ h. (Some [], h)), u_write = (\<lambda>_ bs h. (int (length bs), h)),
     u_lseek = (\<lambda>_ off _ h. (off, h)), u_close = (\<lambda>fd h. if fd \<in> set h then (0, removeAll fd h) else (- 1, h)),
     u_unlink = (\<lambda>_ h. (0, h)), u_poll = (\<lambda>_ h. (0, h)), u_socket = toy_open, u_connect = (\<lambda>_ _ _ h. (- 1, h)), u_send = (\<lambda>_ _ h. (- 1, h)),
     u_recv = (\<lambda>_ _ h. (None, h))\<rparr>"

lemma fold_max_ge: "(x :: int) \<in> set xs \<Longrightarrow> x \<le> fold max xs a" "(a :: int) \<le> fold max xs a"
proof (induction xs arbitrary: a)
  case (Cons y ys)
  {
    case 1
    then show ?case using Cons.IH(1) [of "max y a"] Cons.IH(2) [of "max y a"] by auto
  next
    case 2
    then show ?case using Cons.IH(2) [of "max y a"] by simp
  }
qed simp_all

lemma toy_posix: "posix toy_unix set"
proof -
  have "fold max h 2 + 1 \<notin> set h" "0 \<le> fold max h 2 + (1 :: int)" for h
    using fold_max_ge(1) [of "fold max h 2 + 1" h 2] fold_max_ge(2) [of 2 h] by auto
  then show ?thesis
    by (auto simp: posix_def toy_unix_def toy_open_def Let_def)
qed

text \<open>\<^verbatim>\<open>IsOpeningWithName\<close> stops at the first open slot that has the name or is a socket.\<close>

definition name_hits :: "byte list \<Rightarrow> FileDescriptor list \<Rightarrow> nat set" where
  "name_hits name t = {i \<in> open_slots t. fd_mode (t ! i) = Socket_Mode
     \<or> map_option (map to_lower) (fd_name (t ! i)) = Some (map to_lower name)}"

lemma name_scan_from:
  assumes "tab_ok opened t h" and "2 \<le> j" and "H = {i \<in> name_hits name t. j \<le> i}"
  shows "name_scan name (drop j t) (int j) =
    (if H = {} then Inr (- 1) else if fd_mode (t ! Min H) = Socket_Mode then Inl NullDeref else Inr (int (Min H)))"
  using assms
proof (induction "length t - j" arbitrary: j H)
  case 0
  then have "H = {}"
    by (auto simp: name_hits_def open_slots_def)
  then show ?case
    using 0 by simp
next
  case (Suc n)
  then have j: "j < length t"
    by simp
  have ok: "slot_ok (t ! j)"
    using Suc.prems(1,2) j by (simp add: tab_ok_def)
  have fin: "finite H"
    unfolding Suc.prems(3) name_hits_def by (rule finite_subset [OF _ open_slots_finite [of t]]) auto
  have d: "drop j t = t ! j # drop (Suc j) t"
    using j by (rule Cons_nth_drop_Suc [symmetric])
  show ?case
  proof (cases "j \<in> name_hits name t")
    case True
    then have "j \<in> H"
      using Suc.prems(3) by simp
    moreover have "Min H = j"
      using \<open>j \<in> H\<close> fin Suc.prems(3) by (intro Min_eqI) auto
    ultimately show ?thesis
      using True ok unfolding d by (auto simp: name_hits_def open_slots_def slot_ok_def Socket_Mode_def)
  next
    case False
    then have "H = {i \<in> name_hits name t. Suc j \<le> i}"
      unfolding Suc.prems(3) by (auto simp: Suc_le_eq order.order_iff_strict)
    then have "name_scan name (drop (Suc j) t) (int (Suc j)) =
        (if H = {} then Inr (- 1) else if fd_mode (t ! Min H) = Socket_Mode then Inl NullDeref else Inr (int (Min H)))"
      using Suc.hyps(2) Suc.prems(1,2) by (intro Suc.hyps(1)) auto
    then show ?thesis
      using False ok j Suc.prems(2) unfolding d
      by (auto simp: name_hits_def open_slots_def slot_ok_def Socket_Mode_def add.commute split: option.splits)
  qed
qed

lemma IsOpeningWithName_exact:
  assumes "tab_ok opened t h"
  shows "Table_IsOpeningWithName t name = (if name_hits name t = {} then Inr (- 1)
    else if fd_mode (t ! Min (name_hits name t)) = Socket_Mode then Inl NullDeref else Inr (int (Min (name_hits name t))))"
proof -
  have "name_hits name t = {i \<in> name_hits name t. 2 \<le> i}"
    by (auto simp: name_hits_def open_slots_def)
  from name_scan_from [OF assms order_refl this] show ?thesis
    by (simp add: Table_IsOpeningWithName_def)
qed

section \<open>Properties\<close>

text \<open>C23: the descriptor table is correct. On a UNIX host that hands out descriptors that were not open, \<^verbatim>\<open>Open\<close>, \<^verbatim>\<open>SocketTCP\<close>,
  \<^verbatim>\<open>Close\<close> and \<^verbatim>\<open>Close_Socket\<close> keep the invariant of the table and never fault: \<^verbatim>\<open>Open\<close> and \<^verbatim>\<open>SocketTCP\<close> return -1 exactly when 18
  are open or the host refuses, and otherwise the descriptor of the host, a new identifier greater than 2, never one of the
  console's; \<^verbatim>\<open>Close\<close> and \<^verbatim>\<open>Close_Socket\<close> return 1 exactly for an open identifier and close only it; \<^verbatim>\<open>IsOpening\<close> finds exactly
  the open ones. \<^verbatim>\<open>IsOpeningWithName\<close> returns the first open slot with the name up to case, or -1, unless a socket is open in
  an earlier slot: then, and only then, it uses a null pointer.\<close>

theorem file_table_correct:
  assumes "posix u opened" and "tab_ok opened t h" and "type \<in> {0, 1}"
  shows "(\<exists>r t' h'. Table_Open u name type t h = Inr (r, t', h') \<and> tab_ok opened t' h'
      \<and> r = (if card (open_ids t) = 18 then - 1 else fst (u_open u name False h))
      \<and> (if r = - 1 then open_ids t' = open_ids t else r \<notin> open_ids t \<and> 2 < r \<and> open_ids t' = insert r (open_ids t)))
    \<and> (\<exists>r t' h'. Table_SocketTCP u t h = (r, t', h') \<and> tab_ok opened t' h'
      \<and> r = (if card (open_ids t) = 18 then - 1 else fst (u_socket u h))
      \<and> (if r = - 1 then open_ids t' = open_ids t else r \<notin> open_ids t \<and> 2 < r \<and> open_ids t' = insert r (open_ids t)))
    \<and> (\<exists>r t' h'. Table_Close u i t h = Inr (r, t', h') \<and> tab_ok opened t' h'
      \<and> (if i \<in> open_ids t then r = 1 \<and> open_ids t' = open_ids t - {i} else r = - 1 \<and> open_ids t' = open_ids t \<and> h' = h))
    \<and> (\<exists>r t' h'. Table_Close_Socket u i t h = (r, t', h') \<and> tab_ok opened t' h'
      \<and> (if i \<in> open_ids t then r = 1 \<and> open_ids t' = open_ids t - {i} else r = - 1 \<and> open_ids t' = open_ids t \<and> h' = h))
    \<and> (i \<noteq> - 1 \<longrightarrow> (Table_IsOpening t i \<noteq> - 1 \<longleftrightarrow> i \<in> open_ids t)) \<and> card (open_ids t) \<le> 18
    \<and> Table_IsOpeningWithName t name = (if name_hits name t = {} then Inr (- 1)
        else if fd_mode (t ! Min (name_hits name t)) = Socket_Mode then Inl NullDeref else Inr (int (Min (name_hits name t))))"
proof (intro conjI impI)
  show "card (open_ids t) \<le> 18"
    using open_slots_card(1) [of t] open_ids_card [OF assms(2)] assms(2) by (simp add: tab_ok_def)
qed (rule Table_Open_ok [OF assms] Table_SocketTCP_ok [OF assms(1,2)] Table_Close_ok [OF assms(1,2)]
    Table_Close_Socket_ok [OF assms(1,2)] IsOpening_iff [OF assms(2)] IsOpeningWithName_exact [OF assms(2)], assumption?)+

lemma Table_new_ok: "tab_ok set Table_new [0, 1, 2]" "open_ids Table_new = {}"
proof -
  have s: "open_slots Table_new = {}"
    by (auto simp: open_slots_def Table_new_def FileDescriptor_new_def)
  then show i: "open_ids Table_new = {}"
    by (simp add: open_ids_def)
  show "tab_ok set Table_new [0, 1, 2]"
    using s i by (simp add: tab_ok_def) (simp add: Table_new_def capacity_def slot_ok_def FileDescriptor_new_def)
qed

theorem file_table_correct_witness:
  "\<exists>t' h'. Table_Open toy_unix [97] 0 Table_new [0, 1, 2] = Inr (3, t', h') \<and> tab_ok set t' h' \<and> open_ids t' = {3}"
proof -
  have "fst (u_open toy_unix [97] False [0, 1, 2]) = 3"
    by (simp add: toy_unix_def toy_open_def)
  then show ?thesis
    using file_table_correct [OF toy_posix Table_new_ok(1), of 0 "[97]"] Table_new_ok(2) by auto
qed

end
