(* ===== verification/ProcessTable.thy ===== *)
theory ProcessTable
  imports FileTable Bitmap
begin

text \<open>
  \<^verbatim>\<open>threads/pcb.cc\<close>, \<^verbatim>\<open>threads/ptable.cc\<close>, \<^verbatim>\<open>threads/sem.cc\<close> and \<^verbatim>\<open>threads/stable.cc\<close>: processes, and the semaphores
  of user programs.

  These routines wait on semaphores. A thread can lose the processor right after a \<^verbatim>\<open>P\<close> or \<^verbatim>\<open>V\<close>, when it enables
  interrupts again, and it waits in \<^verbatim>\<open>P\<close> while the value is 0; nowhere else. A routine is therefore a function to
  an \<open>outcome\<close>: it returned, its thread ended, it failed, or it stopped at such a point with the rest of the
  routine as a function of the state in which it goes on. \<open>pstep\<close> runs several threads in any order.
  Semaphores and \<^verbatim>\<open>PCB\<close> objects have addresses; pointers to them are options of addresses.
\<close>

record PCB =
  joinsem :: nat
  exitsem :: nat
  mutex :: nat
  exitcode :: int
  numwait :: int
  pcb_thread :: "nat option"
  pcb_file :: "byte list option"
  pcb_pid :: int
  parentID :: int

record Sem =
  sem_name :: "byte list"
  sem_addr :: nat

text \<open>The state that system calls share: the host, open files, the two tables, the objects they point to, and the threads' names.\<close>

record 'h system = machine +
  host :: 'h
  ftable :: "FileDescriptor list"
  psize :: int
  pbm :: Bitmap
  pcb :: "nat option list"
  bmsem :: nat
  pcbs :: "nat \<Rightarrow> PCB"
  sbm :: Bitmap
  semTab :: "Sem option list"
  semv :: "nat \<Rightarrow> int"
  next_addr :: nat
  cur :: nat
  tnames :: "nat \<Rightarrow> byte list"
  spawned :: "nat list"

datatype 's outcome = Ret int 's | Ended 's | Fault fault
  | Blocked nat "'s \<Rightarrow> 's outcome" 's | Preempt "'s \<Rightarrow> 's outcome" 's

definition ok_or :: "'b result \<Rightarrow> ('b \<Rightarrow> 's outcome) \<Rightarrow> 's outcome" where
  "ok_or r k = (case r of Inl f \<Rightarrow> Fault f | Inr x \<Rightarrow> k x)"

definition set_semv :: "nat \<Rightarrow> int \<Rightarrow> ('h, 'a) system_scheme \<Rightarrow> ('h, 'a) system_scheme" where
  "set_semv a v s = s\<lparr>semv := (semv s)(a := v)\<rparr>"

definition sem_P :: "nat \<Rightarrow> (('h, 'a) system_scheme \<Rightarrow> ('h, 'a) system_scheme outcome) \<Rightarrow> ('h, 'a) system_scheme
    \<Rightarrow> ('h, 'a) system_scheme outcome" where
  "sem_P a k s =
     (if semv s a = 0 then Blocked a (\<lambda>s1. Preempt k (set_semv a (semv s1 a - 1) s1)) s
      else Preempt k (set_semv a (semv s a - 1) s))"

definition sem_V :: "nat \<Rightarrow> (('h, 'a) system_scheme \<Rightarrow> ('h, 'a) system_scheme outcome) \<Rightarrow> ('h, 'a) system_scheme
    \<Rightarrow> ('h, 'a) system_scheme outcome" where
  "sem_V a k s = Preempt k (set_semv a (semv s a + 1) s)"

definition new_sem :: "int \<Rightarrow> ('h, 'a) system_scheme \<Rightarrow> nat \<times> ('h, 'a) system_scheme" where
  "new_sem v s = (next_addr s, (set_semv (next_addr s) v s)\<lparr>next_addr := Suc (next_addr s)\<rparr>)"

section \<open>Process control blocks\<close>

definition new_pcb :: "int \<Rightarrow> byte list option \<Rightarrow> nat option \<Rightarrow> ('h, 'a) system_scheme \<Rightarrow> nat \<times> ('h, 'a) system_scheme" where
  "new_pcb pid file thread s =
     (let (j, s1) = new_sem 0 s; (e, s2) = new_sem 0 s1; (m, s3) = new_sem 1 s2; a = next_addr s3 in
      (a, s3\<lparr>pcbs := (pcbs s3)(a := \<lparr>joinsem = j, exitsem = e, mutex = m, exitcode = 0, numwait = 0, pcb_thread = thread,
        pcb_file = file, pcb_pid = pid, parentID = - 1\<rparr>), next_addr := Suc a\<rparr>))"

definition upd_pcb :: "nat \<Rightarrow> (PCB \<Rightarrow> PCB) \<Rightarrow> ('h, 'a) system_scheme \<Rightarrow> ('h, 'a) system_scheme" where
  "upd_pcb a f s = s\<lparr>pcbs := (pcbs s)(a := f (pcbs s a))\<rparr>"

definition PCB_IncNumWait where
  "PCB_IncNumWait a k s = sem_P (mutex (pcbs s a)) (\<lambda>s1. sem_V (mutex (pcbs s1 a)) k (upd_pcb a (\<lambda>p. p\<lparr>numwait := numwait p + 1\<rparr>) s1)) s"

definition PCB_DecNumWait where
  "PCB_DecNumWait a k s = sem_P (mutex (pcbs s a)) (\<lambda>s1. sem_V (mutex (pcbs s1 a)) k (upd_pcb a (\<lambda>p. p\<lparr>numwait := numwait p - 1\<rparr>) s1)) s"

definition PCB_JoinWait where "PCB_JoinWait a k s = sem_P (joinsem (pcbs s a)) k s"
definition PCB_ExitWait where "PCB_ExitWait a k s = sem_P (exitsem (pcbs s a)) k s"
definition PCB_JoinRelease where "PCB_JoinRelease a k s = sem_V (joinsem (pcbs s a)) k s"
definition PCB_ExitRelease where "PCB_ExitRelease a k s = sem_V (exitsem (pcbs s a)) k s"

text \<open>\<^verbatim>\<open>Exec\<close> starts a thread named after the file that runs \<^verbatim>\<open>RunProcess\<close>. It writes the terminating zero of the name
  one byte past its copy, which the model does not have. \<^verbatim>\<open>Fork\<close> enables interrupts at its end.\<close>

definition PCB_Exec where
  "PCB_Exec a fileName pid k s =
     sem_P (mutex (pcbs s a)) (\<lambda>s1.
       let t = next_addr s1;
           s2 = upd_pcb a (\<lambda>p. p\<lparr>pcb_pid := pid, pcb_file := Some fileName, pcb_thread := Some t\<rparr>) (s1\<lparr>next_addr := Suc t\<rparr>) in
       Preempt (\<lambda>s3. sem_V (mutex (pcbs s3 a)) (k pid) s3)
         (s2\<lparr>tnames := (tnames s2)(t := fileName), spawned := spawned s2 @ [t]\<rparr>)) s"

section \<open>Process table\<close>

definition MAX_PROCESS :: nat where "MAX_PROCESS = 10"

definition main_name :: "byte list" where "main_name = [109, 97, 105, 110]"

definition slot :: "('h, 'a) system_scheme \<Rightarrow> int \<Rightarrow> nat result" where
  "slot s i = rbind (arr_get (pcb s) i) (\<lambda>p. case p of None \<Rightarrow> Inl NullDeref | Some a \<Rightarrow> Inr a)"

definition PTable_IsExist :: "('h, 'a) system_scheme \<Rightarrow> int \<Rightarrow> bool" where
  "PTable_IsExist s pid \<longleftrightarrow> \<not> (pid < 0 \<or> pid \<ge> int MAX_PROCESS) \<and> pcb s ! nat pid \<noteq> None"

text \<open>The comparison of names from slot \<open>i\<close> on, for \<open>n\<close> slots.\<close>

fun id_scan :: "('h, 'a) system_scheme \<Rightarrow> byte list \<Rightarrow> nat \<Rightarrow> nat \<Rightarrow> int result" where
  "id_scan s name i 0 = Inr (- 1)"
| "id_scan s name i (Suc n) =
     (case pcb s ! i of None \<Rightarrow> id_scan s name (Suc i) n
      | Some a \<Rightarrow> (case pcb_file (pcbs s a) of None \<Rightarrow> Inl NullDeref
          | Some f \<Rightarrow> if f = name then Inr (int i) else id_scan s name (Suc i) n))"

definition PTable_GetCurrentThreadId :: "('h, 'a) system_scheme \<Rightarrow> int result" where
  "PTable_GetCurrentThreadId s =
     (if tnames s (cur s) = main_name then Inr 0 else id_scan s (tnames s (cur s)) 1 (MAX_PROCESS - 1))"

text \<open>\<^verbatim>\<open>delete pcb[pid]\<close>: the destructor finishes the thread of the block, which has to be the current one, and then does not return.\<close>

definition PTable_Remove where
  "PTable_Remove pid k s =
     (if PTable_IsExist s pid
      then ok_or (Bitmap_Clear (pbm s) pid) (\<lambda>b.
           ok_or (slot s pid) (\<lambda>a.
           let s1 = s\<lparr>pbm := b\<rparr> in
           case pcb_thread (pcbs s1 a) of
             Some t \<Rightarrow> if t = cur s1 then Ended s1 else Fault AssertFail
           | None \<Rightarrow> k (s1\<lparr>pcb := (pcb s1)[nat pid := None], psize := psize s1 - 1\<rparr>)))
      else k s)"

definition PTable_new :: "int \<Rightarrow> ('h, 'a) system_scheme \<Rightarrow> ('h, 'a) system_scheme result" where
  "PTable_new sz s =
     rbind (Bitmap_new sz) (\<lambda>b.
     let (a, s1) = new_sem 1 s in
     Inr (s1\<lparr>psize := sz, pbm := b, bmsem := a, pcb := replicate MAX_PROCESS None\<rparr>))"

definition PTable_LoadMainThread :: "byte list \<Rightarrow> nat \<Rightarrow> ('h, 'a) system_scheme \<Rightarrow> ('h, 'a) system_scheme result" where
  "PTable_LoadMainThread name thread s =
     (let (a, s1) = new_pcb 0 (Some name) (Some thread) s in
      rbind (Bitmap_Mark (pbm s1) 0) (\<lambda>b. Inr (s1\<lparr>pcb := (pcb s1)[0 := Some a], psize := 1, pbm := b\<rparr>)))"

text \<open>\<open>leave r\<close>: release \<^verbatim>\<open>bmsem\<close> and return \<open>r\<close>.\<close>

definition leave where
  "leave k r s = sem_V (bmsem s) (k r) s"

definition exec_done where
  "exec_done k i result s =
     (if result = - 1 then leave k (- 1) (s\<lparr>pcb := (pcb s)[nat i := None]\<rparr>)
      else leave k result (s\<lparr>psize := psize s + 1\<rparr>))"

definition exec_locked where
  "exec_locked u name k s =
     ok_or (StubFS_Open u name None (host s)) (\<lambda>(f, h1).
     let s1 = s\<lparr>host := h1\<rparr> in
     case f of None \<Rightarrow> leave k (- 1) s1
     | Some ex \<Rightarrow>
       ok_or (Close u (sf_file ex) h1) (\<lambda>h2.
       let s2 = s1\<lparr>host := h2\<rparr> in
       ok_or (PTable_GetCurrentThreadId s2) (\<lambda>c.
       ok_or (slot s2 c) (\<lambda>pc.
       case pcb_file (pcbs s2 pc) of None \<Rightarrow> Fault NullDeref
       | Some f0 \<Rightarrow>
         if f0 = name then leave k (- 1) s2
         else ok_or (Bitmap_FindAndSet (pbm s2)) (\<lambda>(i, b).
           let s3 = s2\<lparr>pbm := b\<rparr> in
           if i = - 1 then leave k (- 1) s3
           else let (a, s4) = new_pcb i None None s3;
                    s5 = upd_pcb a (\<lambda>p. p\<lparr>parentID := c\<rparr>) (s4\<lparr>pcb := (pcb s4)[nat i := Some a]\<rparr>) in
                PCB_Exec a name i (exec_done k i) s5)))))"

definition PTable_ExecUpdate where
  "PTable_ExecUpdate u name k s = sem_P (bmsem s) (exec_locked u name k) s"

text \<open>\<^verbatim>\<open>JoinUpdate\<close>, cut at its waits. \<open>c\<close> is \<^verbatim>\<open>currentThreadId\<close>, which is computed once.\<close>

definition join_result where
  "join_result pid k s = ok_or (slot s pid) (\<lambda>a. k (exitcode (pcbs s a)) s)"

definition join_release where
  "join_release pid k s = ok_or (slot s pid) (\<lambda>a. PCB_ExitRelease a (join_result pid k) s)"

definition join_joined where
  "join_joined c pid k s = ok_or (slot s c) (\<lambda>a. PCB_DecNumWait a (join_release pid k) s)"

definition join_wait where
  "join_wait c pid k s = ok_or (slot s pid) (\<lambda>a. PCB_JoinWait a (join_joined c pid k) s)"

definition PTable_JoinUpdate where
  "PTable_JoinUpdate pid k s =
     ok_or (PTable_GetCurrentThreadId s) (\<lambda>c.
     if \<not> PTable_IsExist s pid then k (- 1) s
     else if pid = c then k (- 1) s
     else ok_or (slot s pid) (\<lambda>a.
       if parentID (pcbs s a) \<noteq> c then k (- 1) s
       else ok_or (slot s c) (\<lambda>pc. PCB_IncNumWait pc (join_wait c pid k) s)))"

definition exit_remove where
  "exit_remove c code k s = PTable_Remove c (k code) s"

definition exit_wait where
  "exit_wait c code k s = ok_or (slot s c) (\<lambda>a. PCB_ExitWait a (exit_remove c code k) s)"

definition PTable_ExitUpdate where
  "PTable_ExitUpdate code k s =
     ok_or (PTable_GetCurrentThreadId s) (\<lambda>c.
     if c = 0 then Fault Shutdown
     else ok_or (slot s c) (\<lambda>a. PCB_JoinRelease a (exit_wait c code k) (upd_pcb a (\<lambda>p. p\<lparr>exitcode := code\<rparr>) s)))"

section \<open>Semaphores of user programs\<close>

definition MAX_SEMAPHORE :: nat where "MAX_SEMAPHORE = 10"

text \<open>\<^verbatim>\<open>Sem\<close> copies its name into 50 bytes with \<^verbatim>\<open>strcpy\<close>.\<close>

definition STable_new :: "('h, 'a) system_scheme \<Rightarrow> ('h, 'a) system_scheme result" where
  "STable_new s = rbind (Bitmap_new (int MAX_SEMAPHORE)) (\<lambda>b. Inr (s\<lparr>sbm := b, semTab := replicate MAX_SEMAPHORE None\<rparr>))"

text \<open>The slot from \<open>i\<close> on that is in use and has this name, or \<open>None\<close>.\<close>

fun sem_scan :: "('h, 'a) system_scheme \<Rightarrow> byte list \<Rightarrow> nat \<Rightarrow> nat \<Rightarrow> (nat option) result" where
  "sem_scan s name i 0 = Inr None"
| "sem_scan s name i (Suc n) =
     rbind (Bitmap_Test (sbm s) (int i)) (\<lambda>used.
     if used then (case semTab s ! i of None \<Rightarrow> Inl NullDeref
       | Some sm \<Rightarrow> if sem_name sm = name then Inr (Some (sem_addr sm)) else sem_scan s name (Suc i) n)
     else sem_scan s name (Suc i) n)"

definition STable_Create :: "byte list \<Rightarrow> int \<Rightarrow> ('h, 'a) system_scheme \<Rightarrow> (int \<times> ('h, 'a) system_scheme) result" where
  "STable_Create name v s =
     rbind (sem_scan s name 0 MAX_SEMAPHORE) (\<lambda>found.
     if found \<noteq> None then Inr (- 1, s)
     else rbind (Bitmap_FindAndSet (sbm s)) (\<lambda>(i, b).
       let s1 = s\<lparr>sbm := b\<rparr> in
       if i < 0 then Inr (- 1, s1)
       else if length name \<ge> 50 then Inl OutOfBounds
       else let (a, s2) = new_sem v s1 in
         Inr (0, s2\<lparr>semTab := (semTab s2)[nat i := Some \<lparr>sem_name = name, sem_addr = a\<rparr>]\<rparr>)))"

definition STable_Wait where
  "STable_Wait name k s =
     ok_or (sem_scan s name 0 MAX_SEMAPHORE) (\<lambda>found. case found of None \<Rightarrow> k (- 1) s | Some a \<Rightarrow> sem_P a (k 0) s)"

definition STable_Signal where
  "STable_Signal name k s =
     ok_or (sem_scan s name 0 MAX_SEMAPHORE) (\<lambda>found. case found of None \<Rightarrow> k (- 1) s | Some a \<Rightarrow> sem_V a (k 0) s)"

definition STable_FindFreeSlot :: "('h, 'a) system_scheme \<Rightarrow> (int \<times> ('h, 'a) system_scheme) result" where
  "STable_FindFreeSlot s = rbind (Bitmap_FindAndSet (sbm s)) (\<lambda>(i, b). Inr (i, s\<lparr>sbm := b\<rparr>))"

section \<open>Interleaving\<close>

text \<open>A thread in a routine: it can go on, it waits for a semaphore, it returned, or it is gone.\<close>

datatype 's task = Runnable "'s \<Rightarrow> 's outcome" | Waiting nat "'s \<Rightarrow> 's outcome" | Returned int | Gone

definition settle :: "'s outcome \<Rightarrow> ('s task \<times> 's) result" where
  "settle r = (case r of Ret v s \<Rightarrow> Inr (Returned v, s) | Ended s \<Rightarrow> Inr (Gone, s) | Fault f \<Rightarrow> Inl f
     | Blocked a k s \<Rightarrow> Inr (Waiting a k, s) | Preempt k s \<Rightarrow> Inr (Runnable k, s))"

text \<open>The rest of the routine of thread \<open>t\<close>, when it can run.\<close>

definition enabled :: "('h, 'a) system_scheme \<Rightarrow> (nat \<Rightarrow> ('h, 'a) system_scheme task option) \<Rightarrow> nat
    \<Rightarrow> (('h, 'a) system_scheme \<Rightarrow> ('h, 'a) system_scheme outcome) option" where
  "enabled s T t = (case T t of Some (Runnable k) \<Rightarrow> Some k
     | Some (Waiting a k) \<Rightarrow> if semv s a \<noteq> 0 then Some k else None | _ \<Rightarrow> None)"

definition prun :: "nat \<Rightarrow> ('h, 'a) system_scheme \<times> (nat \<Rightarrow> ('h, 'a) system_scheme task option)
    \<Rightarrow> (('h, 'a) system_scheme \<times> (nat \<Rightarrow> ('h, 'a) system_scheme task option)) option result" where
  "prun t = (\<lambda>(s, T). case enabled s T t of None \<Rightarrow> Inr None
     | Some k \<Rightarrow> rbind (settle (k (s\<lparr>cur := t\<rparr>))) (\<lambda>(x, s1). Inr (Some (s1, T(t \<mapsto> x)))))"

inductive psteps :: "('h, 'a) system_scheme \<times> (nat \<Rightarrow> ('h, 'a) system_scheme task option)
    \<Rightarrow> ('h, 'a) system_scheme \<times> (nat \<Rightarrow> ('h, 'a) system_scheme task option) \<Rightarrow> bool" where
  psteps_start: "psteps c c"
| psteps_step: "psteps c c1 \<Longrightarrow> prun t c1 = Inr (Some c2) \<Longrightarrow> psteps c c2"

end
