(* ===== verification/ProcessProofs.thy ===== *)
theory ProcessProofs
  imports ProcessTable
begin

text \<open>
  What holds of processes: the meeting of \<^verbatim>\<open>Join\<close> and \<^verbatim>\<open>Exit\<close> in every interleaving, what goes wrong when two
  processes run the same file, and the semaphores of user programs.
\<close>

section \<open>What the routines do not change\<close>

lemma id_scan_cong:
  assumes "pcb s' = pcb s" and "\<And>a. pcb_file (pcbs s' a) = pcb_file (pcbs s a)"
  shows "id_scan s' name i n = id_scan s name i n"
  using assms by (induction n arbitrary: i) (auto split: option.split)

lemma GetCurrentThreadId_cong:
  assumes "pcb s' = pcb s" and "\<And>a. pcb_file (pcbs s' a) = pcb_file (pcbs s a)" and "tnames s' = tnames s" and "cur s' = cur s"
  shows "PTable_GetCurrentThreadId s' = PTable_GetCurrentThreadId s"
  using id_scan_cong [OF assms(1,2)] assms(3,4) by (simp add: PTable_GetCurrentThreadId_def)

lemma set_semv_simps [simp]:
  "pcb (set_semv a v s) = pcb s" "pcbs (set_semv a v s) = pcbs s" "tnames (set_semv a v s) = tnames s" "cur (set_semv a v s) = cur s"
  "pbm (set_semv a v s) = pbm s" "semv (set_semv a v s) = (semv s)(a := v)" "bmsem (set_semv a v s) = bmsem s"
  by (simp_all add: set_semv_def)

lemma upd_pcb_simps [simp]:
  "pcb (upd_pcb a f s) = pcb s" "tnames (upd_pcb a f s) = tnames s" "cur (upd_pcb a f s) = cur s" "pbm (upd_pcb a f s) = pbm s"
  "semv (upd_pcb a f s) = semv s" "pcbs (upd_pcb a f s) = (pcbs s)(a := f (pcbs s a))"
  by (simp_all add: upd_pcb_def)

lemma ok_or_simps [simp]: "ok_or (Inr x) k = k x" "ok_or (Inl f) k = Fault f"
  by (simp_all add: ok_or_def)

section \<open>A parent and its child\<close>

text \<open>Process \<open>p\<close> of thread \<open>tp\<close> is the parent of process \<open>c\<close> of thread \<open>tc\<close>, and the table finds both by their names.\<close>

record family =
  f_p :: int
  f_c :: int
  f_pa :: nat
  f_ca :: nat
  f_tp :: nat
  f_tc :: nat

definition family_ok :: "family \<Rightarrow> ('h, 'a) system_scheme \<Rightarrow> bool" where
  "family_ok F s \<longleftrightarrow> 0 \<le> f_p F \<and> f_p F < 10 \<and> 0 < f_c F \<and> f_c F < 10 \<and> f_p F \<noteq> f_c F \<and> f_tp F \<noteq> f_tc F \<and> length (pcb s) = 10
     \<and> pcb s ! nat (f_p F) = Some (f_pa F) \<and> pcb s ! nat (f_c F) = Some (f_ca F)
     \<and> PTable_GetCurrentThreadId (s\<lparr>cur := f_tp F\<rparr>) = Inr (f_p F) \<and> PTable_GetCurrentThreadId (s\<lparr>cur := f_tc F\<rparr>) = Inr (f_c F)
     \<and> parentID (pcbs s (f_ca F)) = f_p F \<and> pcb_thread (pcbs s (f_ca F)) = Some (f_tc F)
     \<and> distinct [mutex (pcbs s (f_pa F)), joinsem (pcbs s (f_ca F)), exitsem (pcbs s (f_ca F))]
     \<and> bm_wf (pbm s) \<and> length (bits (pbm s)) = 10"

abbreviation M_of where "M_of F s \<equiv> mutex (pcbs s (f_pa F))"
abbreviation J_of where "J_of F s \<equiv> joinsem (pcbs s (f_ca F))"
abbreviation E_of where "E_of F s \<equiv> exitsem (pcbs s (f_ca F))"

lemma family_cong:
  assumes "family_ok F s" and "pcb s' = pcb s" and "tnames s' = tnames s"
    and "\<And>a. pcb_file (pcbs s' a) = pcb_file (pcbs s a) \<and> parentID (pcbs s' a) = parentID (pcbs s a) \<and> pcb_thread (pcbs s' a) = pcb_thread (pcbs s a)
      \<and> mutex (pcbs s' a) = mutex (pcbs s a) \<and> joinsem (pcbs s' a) = joinsem (pcbs s a) \<and> exitsem (pcbs s' a) = exitsem (pcbs s a)"
    and "bm_wf (pbm s')" "length (bits (pbm s')) = 10"
  shows "family_ok F s'"
proof -
  have "PTable_GetCurrentThreadId (s'\<lparr>cur := t\<rparr>) = PTable_GetCurrentThreadId (s\<lparr>cur := t\<rparr>)" for t
    by (rule GetCurrentThreadId_cong) (use assms in simp_all)
  then show ?thesis
    using assms unfolding family_ok_def by simp
qed

lemma family_same:
  assumes "pcb s' = pcb s" and "tnames s' = tnames s" and "pbm s' = pbm s"
    and "\<And>a. pcb_file (pcbs s' a) = pcb_file (pcbs s a) \<and> parentID (pcbs s' a) = parentID (pcbs s a) \<and> pcb_thread (pcbs s' a) = pcb_thread (pcbs s a)
      \<and> mutex (pcbs s' a) = mutex (pcbs s a) \<and> joinsem (pcbs s' a) = joinsem (pcbs s a) \<and> exitsem (pcbs s' a) = exitsem (pcbs s a)"
  shows "family_ok F s' = family_ok F s"
proof
  assume "family_ok F s'"
  then show "family_ok F s"
    by (rule family_cong) (use assms \<open>family_ok F s'\<close> in \<open>simp_all add: family_ok_def\<close>)
next
  assume "family_ok F s"
  then show "family_ok F s'"
    by (rule family_cong) (use assms \<open>family_ok F s\<close> in \<open>simp_all add: family_ok_def\<close>)
qed

lemma family_simps [simp]:
  "family_ok F (set_semv a v s) = family_ok F s" "family_ok F (s\<lparr>cur := t\<rparr>) = family_ok F s"
  "family_ok F (upd_pcb a (\<lambda>p. p\<lparr>exitcode := code\<rparr>) s) = family_ok F s"
  "family_ok F (upd_pcb a (\<lambda>p. p\<lparr>numwait := numwait p + 1\<rparr>) s) = family_ok F s"
  "family_ok F (upd_pcb a (\<lambda>p. p\<lparr>numwait := numwait p - 1\<rparr>) s) = family_ok F s"
  by (rule family_same; simp)+

lemma family_slots:
  assumes "family_ok F s"
  shows "slot s (f_p F) = Inr (f_pa F)" "slot s (f_c F) = Inr (f_ca F)" "PTable_IsExist s (f_c F)"
  using assms by (auto simp: family_ok_def slot_def arr_get_def PTable_IsExist_def MAX_PROCESS_def)

section \<open>Phases\<close>

datatype pphase = P0 | P1 | P2 | P3 | P4 | P5 | P6 | P7 | P8
datatype cphase = C0 | C1 | C2 | C3 | C4

fun ptask :: "family \<Rightarrow> int \<Rightarrow> nat \<Rightarrow> pphase \<Rightarrow> ('h, 'a) system_scheme task" where
  "ptask F code J P0 = Runnable (PTable_JoinUpdate (f_c F) Ret)"
| "ptask F code J P1 = Runnable (\<lambda>s. sem_V (mutex (pcbs s (f_pa F))) (join_wait (f_p F) (f_c F) Ret) (upd_pcb (f_pa F) (\<lambda>p. p\<lparr>numwait := numwait p + 1\<rparr>) s))"
| "ptask F code J P2 = Runnable (join_wait (f_p F) (f_c F) Ret)"
| "ptask F code J P3 = Waiting J (\<lambda>s. Preempt (join_joined (f_p F) (f_c F) Ret) (set_semv J (semv s J - 1) s))"
| "ptask F code J P4 = Runnable (join_joined (f_p F) (f_c F) Ret)"
| "ptask F code J P5 = Runnable (\<lambda>s. sem_V (mutex (pcbs s (f_pa F))) (join_release (f_c F) Ret) (upd_pcb (f_pa F) (\<lambda>p. p\<lparr>numwait := numwait p - 1\<rparr>) s))"
| "ptask F code J P6 = Runnable (join_release (f_c F) Ret)"
| "ptask F code J P7 = Runnable (join_result (f_c F) Ret)"
| "ptask F code J P8 = Returned code"

fun ctask :: "family \<Rightarrow> int \<Rightarrow> nat \<Rightarrow> cphase \<Rightarrow> ('h, 'a) system_scheme task" where
  "ctask F code E C0 = Runnable (PTable_ExitUpdate code Ret)"
| "ctask F code E C1 = Runnable (exit_wait (f_c F) code Ret)"
| "ctask F code E C2 = Waiting E (\<lambda>s. Preempt (exit_remove (f_c F) code Ret) (set_semv E (semv s E - 1) s))"
| "ctask F code E C3 = Runnable (exit_remove (f_c F) code Ret)"
| "ctask F code E C4 = Gone"

text \<open>What the phases say of the semaphores.\<close>

definition vM :: "pphase \<Rightarrow> int" where "vM i = (if i \<in> {P1, P5} then 0 else 1)"
definition vJ :: "pphase \<Rightarrow> cphase \<Rightarrow> int" where "vJ i j = of_bool (j \<noteq> C0) - of_bool (i \<in> {P4, P5, P6, P7, P8})"
definition vE :: "pphase \<Rightarrow> cphase \<Rightarrow> int" where "vE i j = of_bool (i \<in> {P7, P8}) - of_bool (j \<in> {C3, C4})"

definition meet :: "family \<Rightarrow> int \<Rightarrow> pphase \<Rightarrow> cphase \<Rightarrow> ('h, 'a) system_scheme \<times> (nat \<Rightarrow> ('h, 'a) system_scheme task option) \<Rightarrow> bool" where
  "meet F code i j = (\<lambda>(s, T). family_ok F s \<and> T = [f_tp F \<mapsto> ptask F code (J_of F s) i, f_tc F \<mapsto> ctask F code (E_of F s) j]
     \<and> semv s (M_of F s) = vM i \<and> semv s (J_of F s) = vJ i j \<and> semv s (E_of F s) = vE i j \<and> 0 \<le> vJ i j \<and> 0 \<le> vE i j
     \<and> (j \<noteq> C0 \<longrightarrow> exitcode (pcbs s (f_ca F)) = code) \<and> (bits (pbm s) ! nat (f_c F) \<longleftrightarrow> j \<noteq> C4))"

lemma meetD:
  assumes "meet F code i j (s, T)"
  shows "family_ok F s" "T = [f_tp F \<mapsto> ptask F code (J_of F s) i, f_tc F \<mapsto> ctask F code (E_of F s) j]"
    "semv s (M_of F s) = vM i" "semv s (J_of F s) = vJ i j" "semv s (E_of F s) = vE i j" "0 \<le> vJ i j" "0 \<le> vE i j"
    "j \<noteq> C0 \<Longrightarrow> exitcode (pcbs s (f_ca F)) = code" "bits (pbm s) ! nat (f_c F) \<longleftrightarrow> j \<noteq> C4"
  using assms by (simp_all add: meet_def)

lemma family_distinct:
  assumes "family_ok F s"
  shows "f_tp F \<noteq> f_tc F" "M_of F s \<noteq> J_of F s" "M_of F s \<noteq> E_of F s" "J_of F s \<noteq> E_of F s"
  using assms by (simp_all add: family_ok_def)

lemmas routine_defs = PTable_JoinUpdate_def PTable_ExitUpdate_def join_wait_def join_joined_def join_release_def join_result_def
  exit_wait_def exit_remove_def PCB_IncNumWait_def PCB_DecNumWait_def PCB_JoinWait_def PCB_ExitWait_def PCB_JoinRelease_def
  PCB_ExitRelease_def sem_P_def sem_V_def

fun p_next :: "int \<Rightarrow> pphase \<Rightarrow> pphase" where
  "p_next v P0 = P1" | "p_next v P1 = P2" | "p_next v P2 = (if v = 0 then P3 else P4)" | "p_next v P3 = P4" | "p_next v P4 = P5"
| "p_next v P5 = P6" | "p_next v P6 = P7" | "p_next v P7 = P8" | "p_next v P8 = P8"

fun c_next :: "int \<Rightarrow> cphase \<Rightarrow> cphase" where
  "c_next v C0 = C1" | "c_next v C1 = (if v = 0 then C2 else C3)" | "c_next v C2 = C3" | "c_next v C3 = C4" | "c_next v C4 = C4"

lemma parent_moves:
  assumes "meet F code i j (s, T)" and "family_ok F s'" and "pbm s' = pbm s"
    and "M_of F s' = M_of F s" "J_of F s' = J_of F s" "E_of F s' = E_of F s" "exitcode (pcbs s' (f_ca F)) = exitcode (pcbs s (f_ca F))"
    and "semv s' (M_of F s) = vM i'" "semv s' (J_of F s) = vJ i' j" "semv s' (E_of F s) = vE i' j" "0 \<le> vJ i' j" "0 \<le> vE i' j"
  shows "meet F code i' j (s', T(f_tp F \<mapsto> ptask F code (J_of F s) i'))"
  using assms meetD [OF assms(1)] family_distinct(1) [OF assms(2)] by (auto simp: meet_def)

lemma child_moves:
  assumes "meet F code i j (s, T)" and "family_ok F s'"
    and "M_of F s' = M_of F s" "J_of F s' = J_of F s" "E_of F s' = E_of F s" "j' \<noteq> C0 \<Longrightarrow> exitcode (pcbs s' (f_ca F)) = code"
    and "semv s' (M_of F s) = vM i" "semv s' (J_of F s) = vJ i j'" "semv s' (E_of F s) = vE i j'" "0 \<le> vJ i j'" "0 \<le> vE i j'"
    and "bits (pbm s') ! nat (f_c F) \<longleftrightarrow> j' \<noteq> C4"
  shows "meet F code i j' (s', T(f_tc F \<mapsto> ctask F code (E_of F s) j'))"
  using assms meetD [OF assms(1)] family_distinct(1) [OF assms(2)] by (auto simp: meet_def)

text \<open>The step of the parent in each phase.\<close>

definition p_state :: "family \<Rightarrow> pphase \<Rightarrow> ('h, 'a) system_scheme \<Rightarrow> ('h, 'a) system_scheme" where
  "p_state F i s = (case i of
     P0 \<Rightarrow> set_semv (M_of F s) 0 s
   | P1 \<Rightarrow> set_semv (M_of F s) 1 (upd_pcb (f_pa F) (\<lambda>p. p\<lparr>numwait := numwait p + 1\<rparr>) s)
   | P2 \<Rightarrow> if semv s (J_of F s) = 0 then s else set_semv (J_of F s) (semv s (J_of F s) - 1) s
   | P3 \<Rightarrow> set_semv (J_of F s) (semv s (J_of F s) - 1) s
   | P4 \<Rightarrow> set_semv (M_of F s) 0 s
   | P5 \<Rightarrow> set_semv (M_of F s) 1 (upd_pcb (f_pa F) (\<lambda>p. p\<lparr>numwait := numwait p - 1\<rparr>) s)
   | P6 \<Rightarrow> set_semv (E_of F s) (semv s (E_of F s) + 1) s
   | _ \<Rightarrow> s)"

lemma parent_runs:
  assumes "family_ok F s" and "PTable_GetCurrentThreadId s = Inr (f_p F)" and "semv s (M_of F s) = vM i" and "i \<noteq> P8"
    and "i = P7 \<Longrightarrow> exitcode (pcbs s (f_ca F)) = code"
    and "ptask F code (J_of F s) i = Runnable k \<or> (\<exists>a. ptask F code (J_of F s) i = Waiting a k)"
  shows "settle (k s) = Inr (ptask F code (J_of F s) (p_next (semv s (J_of F s)) i), p_state F i s)"
proof -
  note sl = family_slots [OF assms(1)]
  have pid: "f_p F \<noteq> f_c F" "parentID (pcbs s (f_ca F)) = f_p F"
    using assms(1) by (simp_all add: family_ok_def)
  show ?thesis
  proof (cases i)
    case P0
    then have "k = PTable_JoinUpdate (f_c F) Ret" using assms(6) by simp
    then show ?thesis using P0 assms(2,3) sl pid by (simp add: routine_defs settle_def p_state_def vM_def)
  next
    case P1
    then have "k = (\<lambda>s. sem_V (mutex (pcbs s (f_pa F))) (join_wait (f_p F) (f_c F) Ret) (upd_pcb (f_pa F) (\<lambda>p. p\<lparr>numwait := numwait p + 1\<rparr>) s))"
      using assms(6) by simp
    then show ?thesis using P1 assms(3) by (simp add: sem_V_def settle_def p_state_def vM_def)
  next
    case P2
    then have "k = join_wait (f_p F) (f_c F) Ret" using assms(6) by simp
    then show ?thesis using P2 sl by (simp add: join_wait_def PCB_JoinWait_def sem_P_def settle_def p_state_def)
  next
    case P3
    then have "k = (\<lambda>s'. Preempt (join_joined (f_p F) (f_c F) Ret) (set_semv (J_of F s) (semv s' (J_of F s) - 1) s'))" using assms(6) by simp
    then show ?thesis using P3 by (simp add: settle_def p_state_def)
  next
    case P4
    then have "k = join_joined (f_p F) (f_c F) Ret" using assms(6) by simp
    then show ?thesis using P4 assms(3) sl by (simp add: join_joined_def PCB_DecNumWait_def sem_P_def settle_def p_state_def vM_def)
  next
    case P5
    then have "k = (\<lambda>s. sem_V (mutex (pcbs s (f_pa F))) (join_release (f_c F) Ret) (upd_pcb (f_pa F) (\<lambda>p. p\<lparr>numwait := numwait p - 1\<rparr>) s))"
      using assms(6) by simp
    then show ?thesis using P5 assms(3) by (simp add: sem_V_def settle_def p_state_def vM_def)
  next
    case P6
    then have "k = join_release (f_c F) Ret" using assms(6) by simp
    then show ?thesis using P6 sl by (simp add: join_release_def PCB_ExitRelease_def sem_V_def settle_def p_state_def)
  next
    case P7
    then have "k = join_result (f_c F) Ret" using assms(6) by simp
    then show ?thesis using P7 sl assms(5) by (simp add: join_result_def settle_def p_state_def)
  qed (use assms(4) in simp)
qed

lemma parent_state:
  assumes m: "meet F code i j (s, T)" and "i = P3 \<Longrightarrow> semv s (J_of F s) \<noteq> 0"
  shows "meet F code (p_next (semv s (J_of F s)) i) j
    (p_state F i (s\<lparr>cur := t\<rparr>), T(f_tp F \<mapsto> ptask F code (J_of F s) (p_next (semv s (J_of F s)) i)))"
proof -
  note d = meetD [OF m]
  note n = family_distinct [OF d(1)]
  have v: "semv s (J_of F s) = vJ i j" "semv s (E_of F s) = vE i j" "semv s (M_of F s) = vM i"
    using d by simp_all
  show ?thesis
    by (rule parent_moves [OF m]; cases i)
      (use d(1,6,7) v n assms(2) in \<open>auto simp: p_state_def vM_def vJ_def vE_def of_bool_def split: if_splits\<close>)
qed

text \<open>The step of the child in each phase.\<close>

lemma Remove_child:
  assumes "family_ok F s" and "cur s = f_tc F"
  obtains b where "PTable_Remove (f_c F) k s = Ended (s\<lparr>pbm := b\<rparr>)" "family_ok F (s\<lparr>pbm := b\<rparr>)" "\<not> bits b ! nat (f_c F)"
proof -
  have f: "0 < f_c F" "f_c F < 10" "bm_wf (pbm s)" "length (bits (pbm s)) = 10" "pcb_thread (pcbs s (f_ca F)) = Some (f_tc F)"
    using assms(1) by (simp_all add: family_ok_def)
  obtain b where b: "Bitmap_Clear (pbm s) (f_c F) = Inr b" "bm_wf b" "bits b = (bits (pbm s))[nat (f_c F) := False]"
    using bm.clear_law [OF f(3), of "nat (f_c F)", unfolded f(4)] f(1,2) by (auto simp: nat_less_iff)
  have "family_ok F (s\<lparr>pbm := b\<rparr>)"
    by (rule family_cong [OF assms(1)]) (use b(2) arg_cong [OF b(3), of length] f(4) in simp_all)
  then show thesis
    using that [of b] b f assms(2) family_slots [OF assms(1)] by (simp add: PTable_Remove_def)
qed

lemma child_settle:
  assumes m: "meet F code i j (s, T)" and "j \<noteq> C4" and "j = C2 \<Longrightarrow> semv s (E_of F s) \<noteq> 0"
    and k: "ctask F code (E_of F s) j = Runnable k \<or> (\<exists>a. ctask F code (E_of F s) j = Waiting a k)"
  shows "\<exists>s'. settle (k (s\<lparr>cur := f_tc F\<rparr>)) = Inr (ctask F code (E_of F s) (c_next (semv s (E_of F s)) j), s')
    \<and> meet F code i (c_next (semv s (E_of F s)) j) (s', T(f_tc F \<mapsto> ctask F code (E_of F s) (c_next (semv s (E_of F s)) j)))"
proof -
  note d = meetD [OF m]
  note n = family_distinct [OF d(1)]
  let ?s = "s\<lparr>cur := f_tc F\<rparr>"
  have fam: "family_ok F ?s"
    using d(1) by simp
  note sl = family_slots [OF fam]
  have pid: "PTable_GetCurrentThreadId ?s = Inr (f_c F)" "f_c F \<noteq> 0"
    using d(1) by (simp_all add: family_ok_def)
  have v: "semv s (J_of F s) = vJ i j" "semv s (E_of F s) = vE i j" "semv s (M_of F s) = vM i"
    using d by simp_all
  show ?thesis
  proof (cases j)
    case C0
    then have k: "k = PTable_ExitUpdate code Ret" using k by simp
    let ?s' = "set_semv (J_of F s) (semv s (J_of F s) + 1) (upd_pcb (f_ca F) (\<lambda>p. p\<lparr>exitcode := code\<rparr>) ?s)"
    have "meet F code i C1 (?s', T(f_tc F \<mapsto> ctask F code (E_of F s) C1))"
      by (rule child_moves [OF m]) (use C0 d v n in \<open>auto simp: vJ_def vE_def vM_def of_bool_def split: if_splits\<close>)
    then show ?thesis using C0 k sl pid by (simp add: PTable_ExitUpdate_def PCB_JoinRelease_def sem_V_def settle_def)
  next
    case C1
    then have k: "k = exit_wait (f_c F) code Ret" using k by simp
    let ?j = "if semv s (E_of F s) = 0 then C2 else C3"
    let ?s' = "if semv s (E_of F s) = 0 then ?s else set_semv (E_of F s) (semv s (E_of F s) - 1) ?s"
    have "meet F code i ?j (?s', T(f_tc F \<mapsto> ctask F code (E_of F s) ?j))"
      by (rule child_moves [OF m]) (use C1 d v n in \<open>auto simp: vJ_def vE_def vM_def of_bool_def split: if_splits\<close>)
    then show ?thesis using C1 k sl by (auto simp: exit_wait_def PCB_ExitWait_def sem_P_def settle_def)
  next
    case C2
    then have k: "k = (\<lambda>s'. Preempt (exit_remove (f_c F) code Ret) (set_semv (E_of F s) (semv s' (E_of F s) - 1) s'))" using k by simp
    let ?s' = "set_semv (E_of F s) (semv s (E_of F s) - 1) ?s"
    have "meet F code i C3 (?s', T(f_tc F \<mapsto> ctask F code (E_of F s) C3))"
      by (rule child_moves [OF m]) (use C2 d v n assms(3) in \<open>auto simp: vJ_def vE_def vM_def of_bool_def split: if_splits\<close>)
    then show ?thesis using C2 k by (simp add: settle_def)
  next
    case C3
    then have k: "k = exit_remove (f_c F) code Ret" using k by simp
    obtain b where b: "PTable_Remove (f_c F) (Ret code) ?s = Ended (?s\<lparr>pbm := b\<rparr>)" "family_ok F (?s\<lparr>pbm := b\<rparr>)" "\<not> bits b ! nat (f_c F)"
      using Remove_child [OF fam] by auto
    have "meet F code i C4 (?s\<lparr>pbm := b\<rparr>, T(f_tc F \<mapsto> ctask F code (E_of F s) C4))"
      by (rule child_moves [OF m]) (use C3 d v n b in \<open>auto simp: vJ_def vE_def vM_def of_bool_def split: if_splits\<close>)
    then show ?thesis using C3 k b(1) by (simp add: exit_remove_def settle_def)
  qed (use assms(2) in simp)
qed

section \<open>Every interleaving\<close>

lemma enabled_parent:
  assumes "meet F code i j (s, T)"
  shows "enabled s T (f_tp F) = None \<longleftrightarrow> i = P8 \<or> i = P3 \<and> semv s (J_of F s) = 0"
    "enabled s T (f_tp F) = Some k \<Longrightarrow> ptask F code (J_of F s) i = Runnable k \<or> (\<exists>a. ptask F code (J_of F s) i = Waiting a k)"
proof -
  have t: "T (f_tp F) = Some (ptask F code (J_of F s) i)"
    using meetD(2) [OF assms] family_distinct(1) [OF meetD(1) [OF assms]] by simp
  show "enabled s T (f_tp F) = None \<longleftrightarrow> i = P8 \<or> i = P3 \<and> semv s (J_of F s) = 0"
    unfolding enabled_def t by (cases i) simp_all
  show "enabled s T (f_tp F) = Some k \<Longrightarrow> ptask F code (J_of F s) i = Runnable k \<or> (\<exists>a. ptask F code (J_of F s) i = Waiting a k)"
    unfolding enabled_def t by (auto split: task.splits if_splits)
qed

lemma enabled_child:
  assumes "meet F code i j (s, T)"
  shows "enabled s T (f_tc F) = None \<longleftrightarrow> j = C4 \<or> j = C2 \<and> semv s (E_of F s) = 0"
    "enabled s T (f_tc F) = Some k \<Longrightarrow> ctask F code (E_of F s) j = Runnable k \<or> (\<exists>a. ctask F code (E_of F s) j = Waiting a k)"
proof -
  have t: "T (f_tc F) = Some (ctask F code (E_of F s) j)"
    using meetD(1,2) [OF assms] by simp
  show "enabled s T (f_tc F) = None \<longleftrightarrow> j = C4 \<or> j = C2 \<and> semv s (E_of F s) = 0"
    unfolding enabled_def t by (cases j) simp_all
  show "enabled s T (f_tc F) = Some k \<Longrightarrow> ctask F code (E_of F s) j = Runnable k \<or> (\<exists>a. ctask F code (E_of F s) j = Waiting a k)"
    unfolding enabled_def t by (auto split: task.splits if_splits)
qed

text \<open>How far a configuration is from the end.\<close>

fun p_rank :: "pphase \<Rightarrow> nat" where
  "p_rank P0 = 8" | "p_rank P1 = 7" | "p_rank P2 = 6" | "p_rank P3 = 5" | "p_rank P4 = 4" | "p_rank P5 = 3" | "p_rank P6 = 2"
| "p_rank P7 = 1" | "p_rank P8 = 0"

fun c_rank :: "cphase \<Rightarrow> nat" where
  "c_rank C0 = 4" | "c_rank C1 = 3" | "c_rank C2 = 2" | "c_rank C3 = 1" | "c_rank C4 = 0"

lemma meet_step:
  assumes m: "meet F code i j (s, T)"
  shows "prun t (s, T) = Inr None \<or> (\<exists>i' j' c'. prun t (s, T) = Inr (Some c') \<and> meet F code i' j' c' \<and> p_rank i' + c_rank j' < p_rank i + c_rank j)"
proof (cases "enabled s T t")
  case None
  then show ?thesis by (simp add: prun_def)
next
  case (Some k)
  note d = meetD [OF m]
  have "T t \<noteq> None"
    using Some by (cases "T t") (simp_all add: enabled_def)
  then have "t = f_tp F \<or> t = f_tc F"
    using d(2) by (auto split: if_splits)
  then show ?thesis
  proof
    assume t: "t = f_tp F"
    have i: "i \<noteq> P8" "i = P3 \<Longrightarrow> semv s (J_of F s) \<noteq> 0"
      using enabled_parent(1) [OF m] Some t by auto
    let ?i = "p_next (semv s (J_of F s)) i" and ?s = "s\<lparr>cur := f_tp F\<rparr>"
    have "settle (k ?s) = Inr (ptask F code (J_of F ?s) (p_next (semv ?s (J_of F ?s)) i), p_state F i ?s)"
    proof (rule parent_runs)
      show "PTable_GetCurrentThreadId ?s = Inr (f_p F)"
        using d(1) by (simp add: family_ok_def)
      show "exitcode (pcbs ?s (f_ca F)) = code" if "i = P7"
        using d(6,8) that by (cases j) (simp_all add: vJ_def)
      show "ptask F code (J_of F ?s) i = Runnable k \<or> (\<exists>a. ptask F code (J_of F ?s) i = Waiting a k)"
        using enabled_parent(2) [OF m] Some t by simp
    qed (use d i in simp_all)
    then have "prun t (s, T) = Inr (Some (p_state F i ?s, T(f_tp F \<mapsto> ptask F code (J_of F s) ?i)))"
      using Some t by (simp add: prun_def)
    moreover have "meet F code ?i j (p_state F i ?s, T(f_tp F \<mapsto> ptask F code (J_of F s) ?i))"
      using parent_state [OF m i(2)] by blast
    moreover have "p_rank ?i < p_rank i"
      using i by (cases i) auto
    ultimately show ?thesis
      by (metis add_less_cancel_right)
  next
    assume t: "t = f_tc F"
    have j: "j \<noteq> C4" "j = C2 \<Longrightarrow> semv s (E_of F s) \<noteq> 0"
      using enabled_child(1) [OF m] Some t by auto
    let ?j = "c_next (semv s (E_of F s)) j"
    obtain s' where "settle (k (s\<lparr>cur := f_tc F\<rparr>)) = Inr (ctask F code (E_of F s) ?j, s')"
      "meet F code i ?j (s', T(f_tc F \<mapsto> ctask F code (E_of F s) ?j))"
      using child_settle [OF m j, of k] enabled_child(2) [OF m] Some t by blast
    moreover have "c_rank ?j < c_rank j"
      using j by (cases j) auto
    ultimately show ?thesis
      using Some t by (auto simp: prun_def intro!: exI [of _ i] exI [of _ ?j])
  qed
qed

lemma meet_progress:
  assumes "meet F code i j (s, T)" and "enabled s T (f_tp F) = None" and "enabled s T (f_tc F) = None"
  shows "i = P8 \<and> j = C4"
  using assms(2,3) meetD [OF assms(1)] unfolding enabled_parent(1) [OF assms(1)] enabled_child(1) [OF assms(1)]
  by (auto simp: vJ_def vE_def of_bool_def split: if_splits)

definition both :: "family \<Rightarrow> int \<Rightarrow> nat \<Rightarrow> ('h, 'a) system_scheme task option" where
  "both F code = [f_tp F \<mapsto> Runnable (PTable_JoinUpdate (f_c F) Ret), f_tc F \<mapsto> Runnable (PTable_ExitUpdate code Ret)]"

lemma meet_start:
  assumes "family_ok F s" and "semv s (M_of F s) = 1" "semv s (J_of F s) = 0" "semv s (E_of F s) = 0" and "bits (pbm s) ! nat (f_c F)"
  shows "meet F code P0 C0 (s, both F code)"
  using assms by (simp add: meet_def both_def vM_def vJ_def vE_def)

lemma meet_psteps:
  assumes "psteps c0 c" and "meet F code i j c0"
  shows "\<exists>i j. meet F code i j c"
  using assms
proof (induction rule: psteps.induct)
  case (psteps_step c c1 t c2)
  then obtain i' j' where m: "meet F code i' j' c1"
    by blast
  then show ?case
    using meet_step [of F code i' j' "fst c1" "snd c1" t] psteps_step.hyps(2) by auto
qed blast

lemma meet_terminates:
  assumes "\<And>n. prun (t n) (f n) = Inr (Some (f (Suc n)))" and "meet F code i j (f n)"
  shows False
  using assms(2)
proof (induction "p_rank i + c_rank j" arbitrary: i j n rule: less_induct)
  case less
  obtain s T where c: "f n = (s, T)"
    by (cases "f n")
  obtain i' j' where "meet F code i' j' (f (Suc n))" "p_rank i' + c_rank j' < p_rank i + c_rank j"
    using meet_step [OF less.prems [unfolded c], of "t n"] assms(1) [of n] c by auto
  then show ?case
    using less.hyps by blast
qed

section \<open>Properties\<close>

text \<open>C11: \<^verbatim>\<open>Join\<close> and \<^verbatim>\<open>Exit\<close> meet. Let a parent join a child that exits, each under a name that identifies it, with the semaphores of
  the child's block at 0. In every interleaving nothing fails, the run ends, and when nothing can run any more the
  parent's \<^verbatim>\<open>Join\<close> has returned the code that the child exited with, the child's thread is gone and its slot is free.\<close>

theorem join_exit_rendezvous:
  assumes "family_ok F s" and "semv s (M_of F s) = 1" "semv s (J_of F s) = 0" "semv s (E_of F s) = 0" and "bits (pbm s) ! nat (f_c F)"
  shows "(\<forall>s' T'. psteps (s, both F code) (s', T') \<longrightarrow> (\<forall>t. \<exists>x. prun t (s', T') = Inr x)
      \<and> ((\<forall>t. prun t (s', T') = Inr None) \<longrightarrow>
          T' (f_tp F) = Some (Returned code) \<and> T' (f_tc F) = Some Gone \<and> \<not> bits (pbm s') ! nat (f_c F)))
    \<and> \<not> (\<exists>f t. f 0 = (s, both F code) \<and> (\<forall>n. prun (t n) (f n) = Inr (Some (f (Suc n)))))"
proof (intro conjI allI impI)
  note m0 = meet_start [OF assms]
  fix s' T'
  assume ps: "psteps (s, both F code) (s', T')"
  obtain i j where m: "meet F code i j (s', T')"
    using meet_psteps [OF ps m0] by blast
  show "\<exists>x. prun t (s', T') = Inr x" for t
    using meet_step [OF m, of t] by auto
  assume stuck: "\<forall>t. prun t (s', T') = Inr None"
  have "enabled s' T' t = None" for t
    using stuck [rule_format, of t] by (cases "enabled s' T' t") (auto simp: prun_def rbind_eq_Inr_iff)
  then have "i = P8" "j = C4"
    using meet_progress [OF m] by simp_all
  moreover have "f_tp F \<noteq> f_tc F"
    using family_distinct(1) [OF meetD(1) [OF m]] .
  ultimately show "T' (f_tp F) = Some (Returned code)" "T' (f_tc F) = Some Gone" "\<not> bits (pbm s') ! nat (f_c F)"
    using meetD(2,9) [OF m] by simp_all
next
  show "\<not> (\<exists>f t. f 0 = (s, both F code) \<and> (\<forall>n. prun (t n) (f n) = Inr (Some (f (Suc n)))))"
    using meet_start [OF assms] meet_terminates by metis
qed

text \<open>Slot 0 holds the main program and slot 1 its child, \<^verbatim>\<open>a\<close>, in threads 20 and 21; slot 2 is as slot 1 in \<open>twins\<close>.\<close>

definition sample_pcb :: "nat \<Rightarrow> nat \<Rightarrow> byte list \<Rightarrow> int \<Rightarrow> PCB" where
  "sample_pcb base t file i = \<lparr>joinsem = base, exitsem = base + 1, mutex = base + 2, exitcode = 0, numwait = 0, pcb_thread = Some t,
     pcb_file = Some file, pcb_pid = i, parentID = if i = 0 then - 1 else 0\<rparr>"

definition sample_system :: "unit system" where
  "sample_system = \<lparr>registers = (\<lambda>_. 0), mainMemory = (\<lambda>_. 0), tlb = None, pageTable = None, pageTableSize = 0, singleStep = False,
     runUntilTime = 0, status = SystemMode, host = (), ftable = Table_new, psize = 2,
     pbm = \<lparr>numBits = 10, numWords = 1, bm_map = [3]\<rparr>, pcb = [Some 13, Some 17] @ replicate 8 None, bmsem = 9,
     pcbs = (\<lambda>a. if a = 13 then sample_pcb 10 20 main_name 0 else if a = 17 then sample_pcb 14 21 [97] 1 else sample_pcb 24 23 [97] 2),
     sbm = \<lparr>numBits = 10, numWords = 1, bm_map = [0]\<rparr>, semTab = replicate 10 None,
     semv = (\<lambda>a. if a = 9 \<or> a = 12 \<or> a = 16 then 1 else 0), next_addr = 30, cur = 20,
     tnames = (\<lambda>t. if t = 20 then main_name else [97]), spawned = []\<rparr>"

definition sample_family :: family where
  "sample_family = \<lparr>f_p = 0, f_c = 1, f_pa = 13, f_ca = 17, f_tp = 20, f_tc = 21\<rparr>"

lemma id_scan_here:
  assumes "pcb s ! i = Some a" and "pcb_file (pcbs s a) = Some name" and "0 < n"
  shows "id_scan s name i n = Inr (int i)"
  using assms by (cases n) simp_all

lemma sample_system_simps [simp]:
  "pcb sample_system = [Some 13, Some 17] @ replicate 8 None" "pbm sample_system = \<lparr>numBits = 10, numWords = 1, bm_map = [3]\<rparr>"
  "pcbs sample_system 13 = sample_pcb 10 20 main_name 0" "pcbs sample_system 17 = sample_pcb 14 21 [97] 1"
  "pcbs sample_system 27 = sample_pcb 24 23 [97] 2"
  "tnames sample_system 20 = main_name" "tnames sample_system 21 = [97]" "tnames sample_system 23 = [97]"
  "semv sample_system 12 = 1" "semv sample_system 14 = 0" "semv sample_system 15 = 0"
  by (simp_all add: sample_system_def)

lemma sample_scan:
  "PTable_GetCurrentThreadId (sample_system\<lparr>cur := 20\<rparr>) = Inr 0" "PTable_GetCurrentThreadId (sample_system\<lparr>cur := 21\<rparr>) = Inr 1"
  using id_scan_here [of "sample_system\<lparr>cur := 21\<rparr>" 1 17 "[97]"]
  by (simp_all add: PTable_GetCurrentThreadId_def MAX_PROCESS_def sample_pcb_def main_name_def)

lemma sample_bits:
  "bm_wf \<lparr>numBits = 10, numWords = 1, bm_map = [w]\<rparr>" "length (bits \<lparr>numBits = 10, numWords = 1, bm_map = [w]\<rparr>) = 10"
  "bits \<lparr>numBits = 10, numWords = 1, bm_map = [3]\<rparr> ! 1"
  by (simp_all add: bm_wf_def nth_bits bm_bit_def divRoundUp_def bit_numeral_rec)

lemma sample_system_ok:
  "family_ok sample_family sample_system" "semv sample_system (M_of sample_family sample_system) = 1"
  "semv sample_system (J_of sample_family sample_system) = 0" "semv sample_system (E_of sample_family sample_system) = 0"
  "bits (pbm sample_system) ! nat (f_c sample_family)"
proof -
  show "family_ok sample_family sample_system"
    unfolding family_ok_def sample_family_def by (simp add: sample_scan sample_pcb_def sample_bits(1))
qed (simp_all add: sample_family_def sample_pcb_def sample_bits(3) [unfolded One_nat_def])

theorem join_exit_rendezvous_witness:
  "(\<exists>x. prun 20 (sample_system, both sample_family 7) = Inr x) \<and> (\<exists>x. prun 21 (sample_system, both sample_family 7) = Inr x)
    \<and> \<not> (\<exists>f t. f 0 = (sample_system, both sample_family 7) \<and> (\<forall>n. prun (t n) (f n) = Inr (Some (f (Suc n)))))"
  using join_exit_rendezvous [OF sample_system_ok, of 7] psteps_start by blast

text \<open>C40: a second process of the same file is taken for the first. When \<open>i\<close> is the first slot from 1 on with a block of some file, other
  than \<^verbatim>\<open>main\<close>, and a later slot \<open>j\<close> holds a block of the same file, whatever programs the slots before \<open>i\<close> hold, \<^verbatim>\<open>Exit\<close> in the process of slot \<open>j\<close> stores its code in block \<open>i\<close> and leaves its own block as it is; once that block is
  joined, removing it fails the assertion of \<^verbatim>\<open>Thread::Finish\<close>, because its thread is not the current one.\<close>

theorem exit_of_second_instance:
  assumes "length (pcb s) = 10" and "0 < i" "i < j" "j < 10" and "pcb s ! i = Some a" "pcb s ! j = Some b" "a \<noteq> b"
    and "pcb_file (pcbs s a) = Some name" "pcb_file (pcbs s b) = Some name" "name \<noteq> main_name" and "tnames s (cur s) = name"
    and "\<forall>k. 0 < k \<longrightarrow> k < i \<longrightarrow> pcb s ! k = None \<or> (\<exists>c f. pcb s ! k = Some c \<and> pcb_file (pcbs s c) = Some f \<and> f \<noteq> name)"
    and "pcb_thread (pcbs s b) = Some (cur s)" "pcb_thread (pcbs s a) = Some t" "t \<noteq> cur s" and "bm_wf (pbm s)" "length (bits (pbm s)) = 10"
  shows "PTable_GetCurrentThreadId s = Inr (int i)
    \<and> (\<exists>s'. PTable_ExitUpdate code Ret s = Preempt (exit_wait (int i) code Ret) s'
        \<and> exitcode (pcbs s' a) = code \<and> pcbs s' b = pcbs s b)
    \<and> exit_remove (int i) code Ret s = Fault AssertFail"
proof -
  have scan: "id_scan s name k n = Inr (int i)" if "0 < k" "k \<le> i" "i < k + n" for k n
    using that
  proof (induction n arbitrary: k)
    case (Suc n)
    show ?case
    proof (cases "k = i")
      case True
      then show ?thesis using assms(5,8) by simp
    next
      case False
      then have "pcb s ! k = None \<or> (\<exists>c f. pcb s ! k = Some c \<and> pcb_file (pcbs s c) = Some f \<and> f \<noteq> name)" "id_scan s name (Suc k) n = Inr (int i)"
        using Suc assms(12) by auto
      then show ?thesis by auto
    qed
  qed simp
  have gid: "PTable_GetCurrentThreadId s = Inr (int i)"
    using scan [of 1 9] assms(2-4,10,11) by (simp add: PTable_GetCurrentThreadId_def MAX_PROCESS_def)
  have sl: "slot s (int i) = Inr a"
    using assms(1,3,4,5) by (simp add: slot_def arr_get_def)
  have "\<exists>s'. PTable_ExitUpdate code Ret s = Preempt (exit_wait (int i) code Ret) s' \<and> exitcode (pcbs s' a) = code \<and> pcbs s' b = pcbs s b"
    using gid sl assms(2,7) by (simp add: PTable_ExitUpdate_def PCB_JoinRelease_def sem_V_def)
  moreover have "exit_remove (int i) code Ret s = Fault AssertFail"
  proof -
    obtain c where "Bitmap_Clear (pbm s) (int i) = Inr c"
      using bm.clear_law [OF assms(16), of i] assms(3,4,17) by auto
    then show ?thesis
      using sl assms(3,4,5,14,15) by (simp add: exit_remove_def PTable_Remove_def PTable_IsExist_def MAX_PROCESS_def)
  qed
  ultimately show ?thesis
    using gid by blast
qed

text \<open>Slot 1 holds another program, slots 2 and 3 the same one.\<close>

definition twins :: "unit system" where
  "twins = sample_system\<lparr>pcb := [Some 13, Some 19, Some 17, Some 27] @ replicate 6 None, pcbs := (pcbs sample_system)(19 := sample_pcb 40 22 [98] 1),
     pbm := \<lparr>numBits = 10, numWords = 1, bm_map = [15]\<rparr>, cur := 23\<rparr>"

theorem exit_of_second_instance_witness:
  "PTable_GetCurrentThreadId twins = Inr 2 \<and> exit_remove 2 5 Ret twins = Fault AssertFail"
proof -
  have b: "bm_wf (pbm twins)" "length (bits (pbm twins)) = 10"
    using sample_bits(1,2) by (simp_all add: twins_def)
  have "\<forall>k. 0 < k \<longrightarrow> k < 2 \<longrightarrow> pcb twins ! k = None \<or> (\<exists>c f. pcb twins ! k = Some c \<and> pcb_file (pcbs twins c) = Some f \<and> f \<noteq> [97])"
    by (auto simp: twins_def sample_pcb_def less_2_cases_iff)
  then show ?thesis
    using exit_of_second_instance [of twins 2 3 17 27 "[97]" 21 5, OF _ _ _ _ _ _ _ _ _ _ _ _ _ _ _ b]
    by (simp add: twins_def sample_pcb_def main_name_def)
qed

section \<open>The table of semaphores\<close>

text \<open>The table as a map from names to semaphores.\<close>

definition sem_at :: "('h, 'a) system_scheme \<Rightarrow> byte list \<Rightarrow> nat \<Rightarrow> bool" where
  "sem_at s name i \<longleftrightarrow> bits (sbm s) ! i \<and> sem_name (the (semTab s ! i)) = name"

definition sem_map :: "('h, 'a) system_scheme \<Rightarrow> byte list \<Rightarrow> nat option" where
  "sem_map s name = map_option (\<lambda>i. sem_addr (the (semTab s ! i))) (List.find (sem_at s name) [0..<10])"

definition st_ok :: "('h, 'a) system_scheme \<Rightarrow> bool" where
  "st_ok s \<longleftrightarrow> bm_wf (sbm s) \<and> length (bits (sbm s)) = 10 \<and> length (semTab s) = 10 \<and> (\<forall>i < 10. bits (sbm s) ! i \<longrightarrow> semTab s ! i \<noteq> None)
     \<and> (\<forall>i < 10. \<forall>j < 10. \<forall>name. sem_at s name i \<longrightarrow> sem_at s name j \<longrightarrow> i = j)"

lemma sem_scan_find:
  assumes "st_ok s" and "i + n = 10"
  shows "sem_scan s name i n = Inr (map_option (\<lambda>i. sem_addr (the (semTab s ! i))) (List.find (sem_at s name) [i..<10]))"
  using assms(2)
proof (induction n arbitrary: i)
  case (Suc n)
  then have i: "i < 10" "[i..<10] = i # [Suc i..<10]"
    by (simp_all add: upt_conv_Cons)
  have t: "Bitmap_Test (sbm s) (int i) = Inr (bits (sbm s) ! i)"
    using assms(1) i(1) bm.test_law [of "sbm s" i] by (simp add: st_ok_def)
  have "bits (sbm s) ! i \<Longrightarrow> \<exists>sm. semTab s ! i = Some sm"
    using assms(1) i(1) by (auto simp: st_ok_def)
  then show ?case
    using t i Suc.IH [of "Suc i"] Suc.prems by (auto simp: sem_at_def)
qed simp

lemma sem_scan_map: "st_ok s \<Longrightarrow> sem_scan s name 0 MAX_SEMAPHORE = Inr (sem_map s name)"
  by (simp add: sem_scan_find MAX_SEMAPHORE_def sem_map_def)

lemma sem_map_Some:
  assumes "st_ok s" and "i < 10" and "sem_at s name i"
  shows "sem_map s name = Some (sem_addr (the (semTab s ! i)))"
proof (cases "List.find (sem_at s name) [0..<10]")
  case None
  then show ?thesis using assms(2,3) by (auto simp: find_None_iff)
next
  case (Some j)
  then have "j < 10" "sem_at s name j"
    by (auto dest!: find_Some_in)
  then have "j = i"
    using assms unfolding st_ok_def by blast
  then show ?thesis using Some by (simp add: sem_map_def)
qed

lemma sem_map_None: "sem_map s name = None \<longleftrightarrow> (\<forall>i < 10. \<not> sem_at s name i)"
  by (auto simp: sem_map_def find_None_iff)

lemma sem_map_dom_card: "st_ok s \<Longrightarrow> card (dom (sem_map s)) = length (filter id (bits (sbm s)))"
proof -
  assume ok: "st_ok s"
  let ?U = "{i. i < 10 \<and> bits (sbm s) ! i}"
  let ?n = "\<lambda>i. sem_name (the (semTab s ! i))"
  have "dom (sem_map s) = ?n ` ?U"
    by (auto simp: dom_def sem_map_None sem_at_def image_iff)
  moreover have "inj_on ?n ?U"
    using ok unfolding st_ok_def sem_at_def by (intro inj_onI) blast
  moreover have "card ?U = length (filter id (bits (sbm s)))"
    using ok by (simp add: st_ok_def length_filter_conv_card)
  ultimately show ?thesis
    by (simp add: card_image)
qed

lemma STable_Create_known: "st_ok s \<Longrightarrow> sem_map s name \<noteq> None \<Longrightarrow> STable_Create name v s = Inr (- 1, s)"
  by (simp add: STable_Create_def sem_scan_map)

lemma STable_Create_full:
  assumes "st_ok s" and "sem_map s name = None" and "card (dom (sem_map s)) = 10"
  shows "STable_Create name v s = Inr (- 1, s)"
proof -
  have "length (filter id (bits (sbm s))) = length (bits (sbm s))"
    using sem_map_dom_card [OF assms(1)] assms(1,3) by (simp add: st_ok_def)
  then have "False \<notin> set (bits (sbm s))"
    by (metis (mono_tags, lifting) id_apply length_filter_less less_irrefl)
  then have "Bitmap_FindAndSet (sbm s) = Inr (- 1, sbm s)"
    using bm.full_law assms(1) by (simp add: st_ok_def)
  then show ?thesis
    using assms(1,2) by (simp add: STable_Create_def sem_scan_map)
qed

lemma STable_Create_new:
  assumes ok: "st_ok s" and free: "sem_map s name = None" and room: "card (dom (sem_map s)) < 10" and len: "length name < 50"
  shows "\<exists>s'. STable_Create name v s = Inr (0, s') \<and> st_ok s' \<and> sem_map s' = (sem_map s)(name \<mapsto> next_addr s)
    \<and> semv s' = (semv s)(next_addr s := v) \<and> next_addr s' = Suc (next_addr s)"
proof -
  have b: "bm_wf (sbm s)" "length (bits (sbm s)) = 10" "length (semTab s) = 10"
    using ok by (simp_all add: st_ok_def)
  have "False \<in> set (bits (sbm s))"
  proof (rule ccontr)
    assume "False \<notin> set (bits (sbm s))"
    then have "filter id (bits (sbm s)) = bits (sbm s)"
      by (metis (full_types) filter_id_conv id_apply)
    then show False using sem_map_dom_card [OF ok] room b(2) by simp
  qed
  then obtain i m where m: "Bitmap_FindAndSet (sbm s) = Inr (int i, m)" "i < 10" "\<not> bits (sbm s) ! i" "bm_wf m" "bits m = (bits (sbm s))[i := True]"
    using bm.find_law [OF b(1)] b(2) by auto
  define s' where "s' = (set_semv (next_addr s) v (s\<lparr>sbm := m\<rparr>))\<lparr>next_addr := Suc (next_addr s),
      semTab := (semTab s)[i := Some \<lparr>sem_name = name, sem_addr = next_addr s\<rparr>]\<rparr>"
  have at: "sem_at s' n j \<longleftrightarrow> (if j = i then n = name else sem_at s n j)" if "j < 10" for n j
    using that m(2,5) b(2,3) by (auto simp: sem_at_def s'_def set_semv_def)
  have "\<not> sem_at s name j" if "j < 10" for j
    using free that by (simp add: sem_map_None)
  then have ok': "st_ok s'"
    using ok m b at unfolding st_ok_def by (auto simp: s'_def set_semv_def nth_list_update)
  have "sem_map s' n = ((sem_map s)(name \<mapsto> next_addr s)) n" for n
  proof (cases "n = name")
    case True
    then show ?thesis using sem_map_Some [OF ok' m(2), of name] at [OF m(2)] m(2) b(3) by (simp add: s'_def)
  next
    case False
    show ?thesis
    proof (cases "\<exists>j < 10. sem_at s n j")
      case True
      then obtain j where j: "j < 10" "sem_at s n j" by blast
      then have "j \<noteq> i" using m(3) by (auto simp: sem_at_def)
      then show ?thesis
        using sem_map_Some [OF ok' j(1), of n] sem_map_Some [OF ok j] at [OF j(1)] j(2) False by (simp add: s'_def)
    next
      case none: False
      then have "sem_map s n = None" "sem_map s' n = None"
        using at False by (auto simp: sem_map_None)
      then show ?thesis using False by simp
    qed
  qed
  moreover have "STable_Create name v s = Inr (0, s')"
    using ok free m(1) len by (simp add: STable_Create_def sem_scan_map new_sem_def s'_def set_semv_def)
  ultimately show ?thesis
    using ok' by (auto simp: s'_def set_semv_def)
qed

text \<open>C22: the table of semaphores is a map from names to semaphores with room for ten. \<^verbatim>\<open>Create\<close> returns -1 and changes nothing for a name that
  exists and when ten exist, and otherwise adds the name with a new semaphore of the given value and returns 0; \<^verbatim>\<open>Wait\<close> and \<^verbatim>\<open>Signal\<close> are \<^verbatim>\<open>P\<close> and
  \<^verbatim>\<open>V\<close> of the semaphore of that name, or return -1.\<close>

theorem semaphore_table_is_map:
  assumes "st_ok s" and "length name < 50"
  shows "(\<exists>r s'. STable_Create name v s = Inr (r, s') \<and> st_ok s'
      \<and> (if sem_map s name \<noteq> None \<or> card (dom (sem_map s)) = 10 then r = - 1 \<and> s' = s
         else r = 0 \<and> sem_map s' = (sem_map s)(name \<mapsto> next_addr s) \<and> semv s' = (semv s)(next_addr s := v)))
    \<and> STable_Wait name k s = (case sem_map s name of None \<Rightarrow> k (- 1) s | Some a \<Rightarrow> sem_P a (k 0) s)
    \<and> STable_Signal name k s = (case sem_map s name of None \<Rightarrow> k (- 1) s | Some a \<Rightarrow> sem_V a (k 0) s)"
proof (intro conjI)
  have "length (filter id (bits (sbm s))) \<le> 10"
    using assms(1) by (metis length_filter_le st_ok_def)
  then have c: "card (dom (sem_map s)) \<le> 10"
    by (simp add: sem_map_dom_card [OF assms(1)])
  show "\<exists>r s'. STable_Create name v s = Inr (r, s') \<and> st_ok s'
      \<and> (if sem_map s name \<noteq> None \<or> card (dom (sem_map s)) = 10 then r = - 1 \<and> s' = s
         else r = 0 \<and> sem_map s' = (sem_map s)(name \<mapsto> next_addr s) \<and> semv s' = (semv s)(next_addr s := v))"
  proof (cases "sem_map s name \<noteq> None \<or> card (dom (sem_map s)) = 10")
    case True
    then have "STable_Create name v s = Inr (- 1, s)"
      using STable_Create_known [OF assms(1)] STable_Create_full [OF assms(1)] by blast
    then show ?thesis using True assms(1) by simp
  next
    case False
    then show ?thesis
      using STable_Create_new [OF assms(1) _ _ assms(2), of v] c by auto
  qed
qed (simp_all add: STable_Wait_def STable_Signal_def sem_scan_map [OF assms(1)])

lemma sample_st_ok: "st_ok sample_system" "sem_map sample_system name = None" "card (dom (sem_map sample_system)) = 0"
proof -
  have b: "sbm sample_system = \<lparr>numBits = 10, numWords = 1, bm_map = [0]\<rparr>" "length (semTab sample_system) = 10"
    by (simp_all add: sample_system_def)
  have n: "\<not> bits (sbm sample_system) ! i" if "i < 10" for i
    using that by (simp add: b nth_bits bm_bit_def)
  then show "st_ok sample_system"
    using sample_bits(1,2) by (simp add: st_ok_def b sem_at_def)
  show m: "sem_map sample_system name = None" for name
    using n by (simp add: sem_map_None sem_at_def)
  have "sem_map sample_system = (\<lambda>_. None)"
    using m by blast
  then show "card (dom (sem_map sample_system)) = 0" by simp
qed

theorem semaphore_table_is_map_witness:
  "\<exists>s'. STable_Create [109] 3 sample_system = Inr (0, s') \<and> st_ok s' \<and> sem_map s' [109] = Some (next_addr sample_system)"
  using semaphore_table_is_map [OF sample_st_ok(1), of "[109]" 3 Ret] sample_st_ok(2,3) by auto

end
