(* ===== verification/Console.thy ===== *)
theory Console
  imports ProcessTable
begin

text \<open>
  \<^verbatim>\<open>machine/console.cc\<close> and \<^verbatim>\<open>userprog/synchconsole.cc\<close>: the keyboard and the display, and the routines that
  threads call to use them one at a time.

  The devices interrupt the kernel some time after they were started: \<open>reads_due\<close> and \<open>writes_due\<close> count the
  interrupts that are scheduled. An interrupt handler runs with interrupts disabled, so its \<^verbatim>\<open>V\<close> does not give up
  the processor. A character is a byte; \<^verbatim>\<open>EOF\<close>, stored in a \<^verbatim>\<open>char\<close>, is the byte 255.
\<close>

record 'h consoles = "'h system" +
  readFileNo :: int
  incoming :: byte
  reads_due :: nat
  in_lock :: nat
  in_wait :: nat
  writeFileNo :: int
  putBusy :: bool
  writes_due :: nat
  out_lock :: nat
  out_wait :: nat
  lockHolder :: "nat \<Rightarrow> nat option"

definition EOF :: byte where "EOF = 255"

section \<open>Locks\<close>

text \<open>A lock is named by the address of its semaphore.\<close>

definition new_lock :: "('h, 'a) consoles_scheme \<Rightarrow> nat \<times> ('h, 'a) consoles_scheme" where
  "new_lock s = (let (a, s1) = new_sem 1 s in (a, s1\<lparr>lockHolder := (lockHolder s1)(a := None)\<rparr>))"

definition Acquire where
  "Acquire l k s = sem_P l (\<lambda>s1. k (s1\<lparr>lockHolder := (lockHolder s1)(l := Some (cur s1))\<rparr>)) s"

definition Release where
  "Release l k s = (if lockHolder s l = Some (cur s) then sem_V l k (s\<lparr>lockHolder := (lockHolder s)(l := None)\<rparr>) else Fault AssertFail)"

section \<open>Keyboard\<close>

definition ConsoleInput_new :: "'h unix \<Rightarrow> byte list option \<Rightarrow> ('h, 'a) consoles_scheme \<Rightarrow> ('h, 'a) consoles_scheme result" where
  "ConsoleInput_new u readFile s =
     (case readFile of
        None \<Rightarrow> Inr (s\<lparr>readFileNo := 0, incoming := EOF, reads_due := 1\<rparr>)
      | Some name \<Rightarrow> rbind (OpenForReadWrite u name True (host s)) (\<lambda>(fd, h).
          Inr (s\<lparr>host := h, readFileNo := fd, incoming := EOF, reads_due := 1\<rparr>)))"

definition ConsoleInput_delete :: "'h unix \<Rightarrow> ('h, 'a) consoles_scheme \<Rightarrow> ('h, 'a) consoles_scheme result" where
  "ConsoleInput_delete u s =
     (if readFileNo s \<noteq> 0 then rbind (Close u (readFileNo s) (host s)) (\<lambda>h. Inr (s\<lparr>host := h\<rparr>)) else Inr s)"

definition SynchConsoleInput_CallBack :: "('h, 'a) consoles_scheme \<Rightarrow> ('h, 'a) consoles_scheme" where
  "SynchConsoleInput_CallBack s = set_semv (in_wait s) (semv s (in_wait s) + 1) s"

definition ConsoleInput_CallBack :: "'h unix \<Rightarrow> ('h, 'a) consoles_scheme \<Rightarrow> ('h, 'a) consoles_scheme result" where
  "ConsoleInput_CallBack u s =
     rbind (ASSERT (incoming s = EOF)) (\<lambda>_.
     rbind (PollFile u (readFileNo s) (host s)) (\<lambda>(ready, h).
     if \<not> ready then Inr (s\<lparr>host := h, reads_due := reads_due s + 1\<rparr>)
     else let (r, h1) = ReadPartial u (readFileNo s) 1 h; s1 = s\<lparr>host := h1\<rparr> in
       if read_count r = 0 then Inr (SynchConsoleInput_CallBack s1)
       else rbind (ASSERT (read_count r = 1)) (\<lambda>_.
         Inr (SynchConsoleInput_CallBack (s1\<lparr>incoming := hd (the r)\<rparr>)))))"

definition ConsoleInput_GetChar :: "('h, 'a) consoles_scheme \<Rightarrow> byte \<times> ('h, 'a) consoles_scheme" where
  "ConsoleInput_GetChar s =
     (let ch = incoming s; s1 = (if incoming s \<noteq> EOF then s\<lparr>reads_due := reads_due s + 1\<rparr> else s) in (ch, s1\<lparr>incoming := EOF\<rparr>))"

definition SynchConsoleInput_new :: "'h unix \<Rightarrow> byte list option \<Rightarrow> ('h, 'a) consoles_scheme \<Rightarrow> ('h, 'a) consoles_scheme result" where
  "SynchConsoleInput_new u inputFile s =
     rbind (ConsoleInput_new u inputFile s) (\<lambda>s1.
     let (l, s2) = new_lock s1; (w, s3) = new_sem 0 s2 in Inr (s3\<lparr>in_lock := l, in_wait := w\<rparr>))"

definition SynchConsoleInput_GetChar where
  "SynchConsoleInput_GetChar k s =
     Acquire (in_lock s) (\<lambda>s1.
       sem_P (in_wait s1) (\<lambda>s2.
         let (ch, s3) = ConsoleInput_GetChar s2 in Release (in_lock s3) (k ch) s3) s1) s"

section \<open>Display\<close>

definition ConsoleOutput_new :: "'h unix \<Rightarrow> byte list option \<Rightarrow> ('h, 'a) consoles_scheme \<Rightarrow> ('h, 'a) consoles_scheme result" where
  "ConsoleOutput_new u writeFile s =
     (case writeFile of
        None \<Rightarrow> Inr (s\<lparr>writeFileNo := 1, putBusy := False, writes_due := 0\<rparr>)
      | Some name \<Rightarrow> rbind (OpenForWrite u name (host s)) (\<lambda>(fd, h).
          Inr (s\<lparr>host := h, writeFileNo := fd, putBusy := False, writes_due := 0\<rparr>)))"

definition ConsoleOutput_delete :: "'h unix \<Rightarrow> ('h, 'a) consoles_scheme \<Rightarrow> ('h, 'a) consoles_scheme result" where
  "ConsoleOutput_delete u s =
     (if writeFileNo s \<noteq> 1 then rbind (Close u (writeFileNo s) (host s)) (\<lambda>h. Inr (s\<lparr>host := h\<rparr>)) else Inr s)"

definition SynchConsoleOutput_CallBack :: "('h, 'a) consoles_scheme \<Rightarrow> ('h, 'a) consoles_scheme" where
  "SynchConsoleOutput_CallBack s = set_semv (out_wait s) (semv s (out_wait s) + 1) s"

definition ConsoleOutput_CallBack :: "('h, 'a) consoles_scheme \<Rightarrow> ('h, 'a) consoles_scheme" where
  "ConsoleOutput_CallBack s = SynchConsoleOutput_CallBack (s\<lparr>putBusy := False\<rparr>)"

definition ConsoleOutput_PutChar :: "'h unix \<Rightarrow> byte \<Rightarrow> ('h, 'a) consoles_scheme \<Rightarrow> ('h, 'a) consoles_scheme result" where
  "ConsoleOutput_PutChar u ch s =
     rbind (ASSERT (\<not> putBusy s)) (\<lambda>_.
     rbind (WriteFile u (writeFileNo s) [ch] (host s)) (\<lambda>h.
     Inr (s\<lparr>host := h, putBusy := True, writes_due := writes_due s + 1\<rparr>)))"

definition SynchConsoleOutput_new :: "'h unix \<Rightarrow> byte list option \<Rightarrow> ('h, 'a) consoles_scheme \<Rightarrow> ('h, 'a) consoles_scheme result" where
  "SynchConsoleOutput_new u outputFile s =
     rbind (ConsoleOutput_new u outputFile s) (\<lambda>s1.
     let (l, s2) = new_lock s1; (w, s3) = new_sem 0 s2 in Inr (s3\<lparr>out_lock := l, out_wait := w\<rparr>))"

definition SynchConsoleOutput_PutChar where
  "SynchConsoleOutput_PutChar u ch k s =
     Acquire (out_lock s) (\<lambda>s1.
       ok_or (ConsoleOutput_PutChar u ch s1) (\<lambda>s2.
       sem_P (out_wait s2) (\<lambda>s3. Release (out_lock s3) k s3) s2)) s"

section \<open>Interleaving with the devices\<close>

text \<open>The scheduled interrupt of a device leaves the list of pending interrupts and runs the device's handler.\<close>

definition keyboard_interrupt :: "'h unix \<Rightarrow> ('h, 'a) consoles_scheme \<Rightarrow> ('h, 'a) consoles_scheme option result" where
  "keyboard_interrupt u s =
     (if reads_due s = 0 then Inr None else rbind (ConsoleInput_CallBack u (s\<lparr>reads_due := reads_due s - 1\<rparr>)) (\<lambda>s1. Inr (Some s1)))"

definition display_interrupt :: "('h, 'a) consoles_scheme \<Rightarrow> ('h, 'a) consoles_scheme option" where
  "display_interrupt s = (if writes_due s = 0 then None else Some (ConsoleOutput_CallBack (s\<lparr>writes_due := writes_due s - 1\<rparr>)))"

definition getting where "getting = Runnable (SynchConsoleInput_GetChar (\<lambda>ch. Ret (uint ch)))"
definition putting where "putting u ch = Runnable (SynchConsoleOutput_PutChar u ch (Ret 0))"

text \<open>Threads that are in no call start to read or to write a character, threads in a call go on, and the devices interrupt.\<close>

definition idle_task :: "'s task option \<Rightarrow> bool" where
  "idle_task x = (case x of None \<Rightarrow> True | Some (Returned _) \<Rightarrow> True | _ \<Rightarrow> False)"

inductive csteps :: "'h unix \<Rightarrow> ('h, 'a) consoles_scheme \<times> (nat \<Rightarrow> ('h, 'a) consoles_scheme task option)
    \<Rightarrow> ('h, 'a) consoles_scheme \<times> (nat \<Rightarrow> ('h, 'a) consoles_scheme task option) \<Rightarrow> bool" for u where
  csteps_start: "csteps u c c"
| csteps_read_call: "csteps u c (s, T) \<Longrightarrow> idle_task (T t) \<Longrightarrow> csteps u c (s, T(t \<mapsto> getting))"
| csteps_write_call: "csteps u c (s, T) \<Longrightarrow> idle_task (T t) \<Longrightarrow> csteps u c (s, T(t \<mapsto> putting u ch))"
| csteps_thread: "csteps u c c1 \<Longrightarrow> prun t c1 = Inr (Some c2) \<Longrightarrow> csteps u c c2"
| csteps_keyboard: "csteps u c (s, T) \<Longrightarrow> keyboard_interrupt u s = Inr (Some s1) \<Longrightarrow> csteps u c (s1, T)"
| csteps_display: "csteps u c (s, T) \<Longrightarrow> display_interrupt s = Some s1 \<Longrightarrow> csteps u c (s1, T)"

end
