(* ===== verification/ConsoleProofs.thy ===== *)
theory ConsoleProofs
  imports Console
begin

text \<open>
  Any number of threads read and write characters while the keyboard and the display interrupt: in every
  interleaving one thread at a time uses a device, the assertions of the devices and of the locks hold, and no
  character that arrived is overwritten.
\<close>

section \<open>Control points\<close>

datatype cpoint = GStart | GLockWait | GLocked | GCharWait | GTaken | GDone byte
  | PStart byte | PLockWait byte | PLocked byte | PDeviceWait | PTaken | PDone | Back int

fun in_crit :: "cpoint \<Rightarrow> bool" where
  "in_crit GLocked = True" | "in_crit GCharWait = True" | "in_crit GTaken = True" | "in_crit _ = False"

fun out_crit :: "cpoint \<Rightarrow> bool" where
  "out_crit (PLocked ch) = True" | "out_crit PDeviceWait = True" | "out_crit PTaken = True" | "out_crit _ = False"

definition g_take :: "('h, 'a) consoles_scheme \<Rightarrow> ('h, 'a) consoles_scheme outcome" where
  "g_take s = (let (ch, s1) = ConsoleInput_GetChar s in Release (in_lock s1) (Ret (uint ch)) s1)"

definition g_locked :: "nat \<Rightarrow> ('h, 'a) consoles_scheme \<Rightarrow> ('h, 'a) consoles_scheme outcome" where
  "g_locked l s = (let s1 = s\<lparr>lockHolder := (lockHolder s)(l := Some (cur s))\<rparr> in sem_P (in_wait s1) g_take s1)"

definition p_take :: "('h, 'a) consoles_scheme \<Rightarrow> ('h, 'a) consoles_scheme outcome" where
  "p_take s = Release (out_lock s) (Ret 0) s"

definition p_locked :: "'h unix \<Rightarrow> byte \<Rightarrow> nat \<Rightarrow> ('h, 'a) consoles_scheme \<Rightarrow> ('h, 'a) consoles_scheme outcome" where
  "p_locked u ch l s = (let s1 = s\<lparr>lockHolder := (lockHolder s)(l := Some (cur s))\<rparr> in
     ok_or (ConsoleOutput_PutChar u ch s1) (\<lambda>s2. sem_P (out_wait s2) p_take s2))"

lemma GetChar_points: "SynchConsoleInput_GetChar (\<lambda>ch. Ret (uint ch)) = (\<lambda>s. sem_P (in_lock s) (g_locked (in_lock s)) s)"
  by (rule ext) (simp add: SynchConsoleInput_GetChar_def Acquire_def g_locked_def [abs_def] g_take_def [abs_def] Let_def)

lemma PutChar_points: "SynchConsoleOutput_PutChar u ch (Ret 0) = (\<lambda>s. sem_P (out_lock s) (p_locked u ch (out_lock s)) s)"
  by (rule ext) (simp add: SynchConsoleOutput_PutChar_def Acquire_def p_locked_def [abs_def] p_take_def [abs_def] Let_def)

text \<open>The task of a thread at a control point, with the addresses of the two locks and the two semaphores.\<close>

fun point_task :: "'h unix \<Rightarrow> ('h, 'a) consoles_scheme \<Rightarrow> cpoint \<Rightarrow> ('h, 'a) consoles_scheme task" where
  "point_task u s GStart = getting"
| "point_task u s GLockWait = Waiting (in_lock s) (\<lambda>s1. Preempt (g_locked (in_lock s)) (set_semv (in_lock s) (semv s1 (in_lock s) - 1) s1))"
| "point_task u s GLocked = Runnable (g_locked (in_lock s))"
| "point_task u s GCharWait = Waiting (in_wait s) (\<lambda>s1. Preempt g_take (set_semv (in_wait s) (semv s1 (in_wait s) - 1) s1))"
| "point_task u s GTaken = Runnable g_take"
| "point_task u s (GDone ch) = Runnable (Ret (uint ch))"
| "point_task u s (PStart ch) = putting u ch"
| "point_task u s (PLockWait ch) = Waiting (out_lock s) (\<lambda>s1. Preempt (p_locked u ch (out_lock s)) (set_semv (out_lock s) (semv s1 (out_lock s) - 1) s1))"
| "point_task u s (PLocked ch) = Runnable (p_locked u ch (out_lock s))"
| "point_task u s PDeviceWait = Waiting (out_wait s) (\<lambda>s1. Preempt p_take (set_semv (out_wait s) (semv s1 (out_wait s) - 1) s1))"
| "point_task u s PTaken = Runnable p_take"
| "point_task u s PDone = Runnable (Ret 0)"
| "point_task u s (Back v) = Returned v"

definition same_addrs :: "('h, 'a) consoles_scheme \<Rightarrow> ('h, 'a) consoles_scheme \<Rightarrow> bool" where
  "same_addrs s s' \<longleftrightarrow> in_lock s' = in_lock s \<and> in_wait s' = in_wait s \<and> out_lock s' = out_lock s \<and> out_wait s' = out_wait s
     \<and> readFileNo s' = readFileNo s \<and> writeFileNo s' = writeFileNo s"

lemma point_task_cong: "same_addrs s s' \<Longrightarrow> point_task u s' p = point_task u s p"
  by (cases p) (simp_all add: same_addrs_def)

section \<open>Who owns a device\<close>

definition owned_by :: "(cpoint \<Rightarrow> bool) \<Rightarrow> (nat \<Rightarrow> cpoint option) \<Rightarrow> (nat \<times> cpoint) option \<Rightarrow> bool" where
  "owned_by crit ph own \<longleftrightarrow> (\<forall>t p. crit p \<longrightarrow> (ph t = Some p \<longleftrightarrow> own = Some (t, p)))"

lemma owned_by_moves:
  "owned_by crit ph own \<Longrightarrow> (\<forall>p. ph t = Some p \<longrightarrow> \<not> crit p) \<Longrightarrow> \<not> crit p' \<Longrightarrow> owned_by crit (ph(t \<mapsto> p')) own"
  "owned_by crit ph None \<Longrightarrow> crit p' \<Longrightarrow> owned_by crit (ph(t \<mapsto> p')) (Some (t, p'))"
  "owned_by crit ph (Some (t, p)) \<Longrightarrow> crit p \<Longrightarrow> crit p' \<Longrightarrow> owned_by crit (ph(t \<mapsto> p')) (Some (t, p'))"
  "owned_by crit ph (Some (t, p)) \<Longrightarrow> crit p \<Longrightarrow> \<not> crit p' \<Longrightarrow> owned_by crit (ph(t \<mapsto> p')) None"
  unfolding owned_by_def by (auto split: if_splits)

lemma owned_byD: "owned_by crit ph own \<Longrightarrow> ph t = Some p \<Longrightarrow> crit p \<Longrightarrow> own = Some (t, p)"
  by (auto simp: owned_by_def)

text \<open>The keyboard: who holds its lock, and where the next character is: scheduled, announced, or taken.\<close>

definition in_part :: "('h, 'a) consoles_scheme \<Rightarrow> (nat \<Rightarrow> cpoint option) \<Rightarrow> (nat \<times> cpoint) option \<Rightarrow> bool" where
  "in_part s ph own \<longleftrightarrow> owned_by in_crit ph own \<and> semv s (in_lock s) = of_bool (own = None)
     \<and> (\<forall>t p. own = Some (t, p) \<longrightarrow> p = GCharWait \<or> p = GTaken \<longrightarrow> lockHolder s (in_lock s) = Some t)
     \<and> 0 \<le> semv s (in_wait s) \<and> int (reads_due s) + semv s (in_wait s) + of_bool (\<exists>t. own = Some (t, GTaken)) \<le> 1
     \<and> (0 < reads_due s \<longrightarrow> incoming s = EOF)"

text \<open>The display: it is busy from the moment a thread gave it a character until its interrupt.\<close>

definition out_part :: "('h, 'a) consoles_scheme \<Rightarrow> (nat \<Rightarrow> cpoint option) \<Rightarrow> (nat \<times> cpoint) option \<Rightarrow> bool" where
  "out_part s ph own \<longleftrightarrow> owned_by out_crit ph own \<and> semv s (out_lock s) = of_bool (own = None)
     \<and> (\<forall>t p. own = Some (t, p) \<longrightarrow> p = PDeviceWait \<or> p = PTaken \<longrightarrow> lockHolder s (out_lock s) = Some t)
     \<and> 0 \<le> semv s (out_wait s) \<and> int (writes_due s) + semv s (out_wait s) = of_bool (\<exists>t. own = Some (t, PDeviceWait))
     \<and> (putBusy s \<longleftrightarrow> writes_due s = 1)"

definition console_inv :: "'h unix \<Rightarrow> ('h, 'a) consoles_scheme \<times> (nat \<Rightarrow> ('h, 'a) consoles_scheme task option) \<Rightarrow> bool" where
  "console_inv u = (\<lambda>(s, T). \<exists>ph own_in own_out. T = (\<lambda>t. map_option (point_task u s) (ph t))
     \<and> distinct [in_lock s, in_wait s, out_lock s, out_wait s] \<and> in_part s ph own_in \<and> out_part s ph own_out)"

lemma in_part_same:
  assumes "in_part s ph own" and "same_addrs s s'" and "\<forall>p. ph t = Some p \<longrightarrow> \<not> in_crit p" and "\<not> in_crit p'"
    and "semv s' (in_lock s) = semv s (in_lock s)" "semv s' (in_wait s) = semv s (in_wait s)" "lockHolder s' (in_lock s) = lockHolder s (in_lock s)"
    and "reads_due s' = reads_due s" "incoming s' = incoming s"
  shows "in_part s' (ph(t \<mapsto> p')) own"
  using assms owned_by_moves(1) [of in_crit ph own t p'] unfolding in_part_def same_addrs_def by simp

lemma out_part_same:
  assumes "out_part s ph own" and "same_addrs s s'" and "\<forall>p. ph t = Some p \<longrightarrow> \<not> out_crit p" and "\<not> out_crit p'"
    and "semv s' (out_lock s) = semv s (out_lock s)" "semv s' (out_wait s) = semv s (out_wait s)" "lockHolder s' (out_lock s) = lockHolder s (out_lock s)"
    and "writes_due s' = writes_due s" "putBusy s' = putBusy s"
  shows "out_part s' (ph(t \<mapsto> p')) own"
  using assms owned_by_moves(1) [of out_crit ph own t p'] unfolding out_part_def same_addrs_def by simp

section \<open>Steps of threads\<close>

definition advances :: "'h unix \<Rightarrow> ('h, 'a) consoles_scheme \<Rightarrow> (nat \<Rightarrow> cpoint option) \<Rightarrow> nat
    \<Rightarrow> (('h, 'a) consoles_scheme task \<times> ('h, 'a) consoles_scheme) result \<Rightarrow> bool" where
  "advances u s ph t r \<longleftrightarrow> (\<exists>p s' own_in own_out. r = Inr (point_task u s p, s') \<and> same_addrs s s'
     \<and> in_part s' (ph(t \<mapsto> p)) own_in \<and> out_part s' (ph(t \<mapsto> p)) own_out)"

lemma advancesI:
  assumes "r = Inr (point_task u s p, s')" and "same_addrs s s'" and "in_part s' (ph(t \<mapsto> p)) own_in" and "out_part s' (ph(t \<mapsto> p)) own_out"
  shows "advances u s ph t r"
  using assms by (auto simp: advances_def)

lemma semv_simps [simp]:
  "semv (set_semv a v s) = (semv s)(a := v)" "in_lock (set_semv a v s) = in_lock s" "in_wait (set_semv a v s) = in_wait s"
  "out_lock (set_semv a v s) = out_lock s" "out_wait (set_semv a v s) = out_wait s" "lockHolder (set_semv a v s) = lockHolder s"
  "incoming (set_semv a v s) = incoming s" "reads_due (set_semv a v s) = reads_due s" "putBusy (set_semv a v s) = putBusy s"
  "writes_due (set_semv a v s) = writes_due s" "readFileNo (set_semv a v s) = readFileNo s" "writeFileNo (set_semv a v s) = writeFileNo s"
  "cur (set_semv a v s) = cur s" "host (set_semv a v s) = host s"
  by (simp_all add: set_semv_def)

lemmas step_simps = settle_def sem_P_def sem_V_def same_addrs_def

text \<open>The keyboard's lock.\<close>

lemma get_lock_steps:
  assumes D: "distinct [in_lock s, in_wait s, out_lock s, out_wait s]" and I: "in_part s ph oi" and O: "out_part s ph oo"
  shows "ph t = Some GStart \<Longrightarrow> advances u s ph t (settle (SynchConsoleInput_GetChar (\<lambda>ch. Ret (uint ch)) (s\<lparr>cur := t\<rparr>)))"
    and "ph t = Some GLockWait \<Longrightarrow> semv s (in_lock s) \<noteq> 0 \<Longrightarrow>
      advances u s ph t (settle (Preempt (g_locked (in_lock s)) (set_semv (in_lock s) (semv s (in_lock s) - 1) (s\<lparr>cur := t\<rparr>))))"
proof -
  let ?s = "set_semv (in_lock s) (semv s (in_lock s) - 1) (s\<lparr>cur := t\<rparr>)"
  have taken: "advances u s ph t (Inr (Runnable (g_locked (in_lock s)), ?s))"
    if "semv s (in_lock s) \<noteq> 0" "ph t = Some GStart \<or> ph t = Some GLockWait"
  proof -
    have o: "oi = None"
      using I that(1) by (simp add: in_part_def of_bool_def split: if_splits)
    show ?thesis
    proof (rule advancesI [where p = GLocked])
      show "in_part ?s (ph(t \<mapsto> GLocked)) (Some (t, GLocked))"
        using I D unfolding in_part_def o by (simp add: owned_by_moves(2))
      show "out_part ?s (ph(t \<mapsto> GLocked)) oo"
        by (rule out_part_same [OF O]) (use D that in \<open>auto simp: same_addrs_def\<close>)
    qed (simp_all add: same_addrs_def)
  qed
  show "advances u s ph t (settle (SynchConsoleInput_GetChar (\<lambda>ch. Ret (uint ch)) (s\<lparr>cur := t\<rparr>)))" if p: "ph t = Some GStart"
  proof (cases "semv s (in_lock s) = 0")
    case True
    have "advances u s ph t (Inr (point_task u s GLockWait, s\<lparr>cur := t\<rparr>))"
      by (rule advancesI [OF HOL.refl]) (use p in \<open>auto simp: same_addrs_def intro!: in_part_same [OF I] out_part_same [OF O]\<close>)
    then show ?thesis using True by (simp add: GetChar_points step_simps)
  next
    case False
    then show ?thesis using taken p by (simp add: GetChar_points step_simps)
  qed
  show "advances u s ph t (settle (Preempt (g_locked (in_lock s)) ?s))" if "ph t = Some GLockWait" "semv s (in_lock s) \<noteq> 0"
    using taken that by (simp add: settle_def)
qed

text \<open>Waiting for a character, and taking it.\<close>

lemma get_char_steps:
  assumes D: "distinct [in_lock s, in_wait s, out_lock s, out_wait s]" and I: "in_part s ph oi" and O: "out_part s ph oo"
  shows "ph t = Some GLocked \<Longrightarrow> advances u s ph t (settle (g_locked (in_lock s) (s\<lparr>cur := t\<rparr>)))"
    and "ph t = Some GCharWait \<Longrightarrow> semv s (in_wait s) \<noteq> 0 \<Longrightarrow>
      advances u s ph t (settle (Preempt g_take (set_semv (in_wait s) (semv s (in_wait s) - 1) (s\<lparr>cur := t\<rparr>))))"
    and "ph t = Some GTaken \<Longrightarrow> advances u s ph t (settle (g_take (s\<lparr>cur := t\<rparr>)))"
proof -
  note own = owned_byD [OF I [unfolded in_part_def, THEN conjunct1]]
  note D' = D [simplified]
  show "advances u s ph t (settle (g_locked (in_lock s) (s\<lparr>cur := t\<rparr>)))" if p: "ph t = Some GLocked"
  proof -
    let ?s = "s\<lparr>cur := t, lockHolder := (lockHolder s)(in_lock s := Some t)\<rparr>"
    have o: "oi = Some (t, GLocked)"
      using own [OF p] by simp
    have w: "advances u s ph t (Inr (point_task u s GCharWait, ?s))" if "semv s (in_wait s) = 0"
    proof (rule advancesI [OF HOL.refl])
      show "in_part ?s (ph(t \<mapsto> GCharWait)) (Some (t, GCharWait))"
        using I D' unfolding in_part_def o by (simp add: owned_by_moves(3) [where p = GLocked])
      show "out_part ?s (ph(t \<mapsto> GCharWait)) oo"
        by (rule out_part_same [OF O]) (use D' p in \<open>auto simp: same_addrs_def\<close>)
    qed (simp add: same_addrs_def)
    let ?s1 = "set_semv (in_wait s) (semv s (in_wait s) - 1) ?s"
    have v: "advances u s ph t (Inr (point_task u s GTaken, ?s1))" if "semv s (in_wait s) \<noteq> 0"
    proof (rule advancesI [OF HOL.refl])
      show "in_part ?s1 (ph(t \<mapsto> GTaken)) (Some (t, GTaken))"
        using I D' that unfolding in_part_def o by (simp add: owned_by_moves(3) [where p = GLocked])
      show "out_part ?s1 (ph(t \<mapsto> GTaken)) oo"
        by (rule out_part_same [OF O]) (use D' p in \<open>auto simp: same_addrs_def\<close>)
    qed (simp add: same_addrs_def)
    show ?thesis
      using w v by (simp add: g_locked_def Let_def sem_P_def settle_def)
  qed
  show "advances u s ph t (settle (Preempt g_take (set_semv (in_wait s) (semv s (in_wait s) - 1) (s\<lparr>cur := t\<rparr>))))"
    if p: "ph t = Some GCharWait" and "semv s (in_wait s) \<noteq> 0"
  proof -
    let ?s = "set_semv (in_wait s) (semv s (in_wait s) - 1) (s\<lparr>cur := t\<rparr>)"
    have o: "oi = Some (t, GCharWait)"
      using own [OF p] by simp
    have "advances u s ph t (Inr (point_task u s GTaken, ?s))"
    proof (rule advancesI [OF HOL.refl])
      show "in_part ?s (ph(t \<mapsto> GTaken)) (Some (t, GTaken))"
        using I D' that unfolding in_part_def o by (simp add: owned_by_moves(3) [where p = GCharWait])
      show "out_part ?s (ph(t \<mapsto> GTaken)) oo"
        by (rule out_part_same [OF O]) (use D' p in \<open>auto simp: same_addrs_def\<close>)
    qed (simp add: same_addrs_def)
    then show ?thesis by (simp add: settle_def)
  qed
  show "advances u s ph t (settle (g_take (s\<lparr>cur := t\<rparr>)))" if p: "ph t = Some GTaken"
  proof -
    have o: "oi = Some (t, GTaken)"
      using own [OF p] by simp
    have h: "lockHolder s (in_lock s) = Some t" "reads_due s = 0" "semv s (in_lock s) = 0"
      using I unfolding in_part_def o by auto
    let ?s0 = "(if incoming s \<noteq> EOF then s\<lparr>cur := t, reads_due := reads_due s + 1\<rparr> else s\<lparr>cur := t\<rparr>)\<lparr>incoming := EOF, lockHolder := (lockHolder s)(in_lock s := None)\<rparr>"
    let ?s = "set_semv (in_lock s) 1 ?s0"
    have "advances u s ph t (Inr (point_task u s (GDone (incoming s)), ?s))"
    proof (rule advancesI [OF HOL.refl])
      show "in_part ?s (ph(t \<mapsto> GDone (incoming s))) None"
        using I D' h unfolding in_part_def o by (simp add: owned_by_moves(4) [where p = GTaken])
      show "out_part ?s (ph(t \<mapsto> GDone (incoming s))) oo"
        by (rule out_part_same [OF O]) (use D' p in \<open>auto simp: same_addrs_def\<close>)
    qed (simp add: same_addrs_def)
    moreover have "settle (g_take (s\<lparr>cur := t\<rparr>)) = Inr (point_task u s (GDone (incoming s)), ?s)"
      using h by (simp add: g_take_def ConsoleInput_GetChar_def Release_def settle_def sem_V_def)
    ultimately show ?thesis by simp
  qed
qed

text \<open>The display's lock.\<close>

lemma put_lock_steps:
  assumes D: "distinct [in_lock s, in_wait s, out_lock s, out_wait s]" and I: "in_part s ph oi" and O: "out_part s ph oo"
  shows "ph t = Some (PStart ch) \<Longrightarrow> advances u s ph t (settle (SynchConsoleOutput_PutChar u ch (Ret 0) (s\<lparr>cur := t\<rparr>)))"
    and "ph t = Some (PLockWait ch) \<Longrightarrow> semv s (out_lock s) \<noteq> 0 \<Longrightarrow>
      advances u s ph t (settle (Preempt (p_locked u ch (out_lock s)) (set_semv (out_lock s) (semv s (out_lock s) - 1) (s\<lparr>cur := t\<rparr>))))"
proof -
  let ?s = "set_semv (out_lock s) (semv s (out_lock s) - 1) (s\<lparr>cur := t\<rparr>)"
  have taken: "advances u s ph t (Inr (Runnable (p_locked u ch (out_lock s)), ?s))"
    if "semv s (out_lock s) \<noteq> 0" "ph t = Some (PStart ch) \<or> ph t = Some (PLockWait ch)"
  proof -
    have o: "oo = None"
      using O that(1) by (simp add: out_part_def of_bool_def split: if_splits)
    show ?thesis
    proof (rule advancesI [where p = "PLocked ch"])
      show "out_part ?s (ph(t \<mapsto> PLocked ch)) (Some (t, PLocked ch))"
        using O D unfolding out_part_def o by (simp add: owned_by_moves(2))
      show "in_part ?s (ph(t \<mapsto> PLocked ch)) oi"
        by (rule in_part_same [OF I]) (use D that in \<open>auto simp: same_addrs_def\<close>)
    qed (simp_all add: same_addrs_def)
  qed
  show "advances u s ph t (settle (SynchConsoleOutput_PutChar u ch (Ret 0) (s\<lparr>cur := t\<rparr>)))" if p: "ph t = Some (PStart ch)"
  proof (cases "semv s (out_lock s) = 0")
    case True
    have "advances u s ph t (Inr (point_task u s (PLockWait ch), s\<lparr>cur := t\<rparr>))"
      by (rule advancesI [OF HOL.refl]) (use p in \<open>auto simp: same_addrs_def intro!: in_part_same [OF I] out_part_same [OF O]\<close>)
    then show ?thesis using True by (simp add: PutChar_points step_simps)
  next
    case False
    then show ?thesis using taken p by (simp add: PutChar_points step_simps)
  qed
  show "advances u s ph t (settle (Preempt (p_locked u ch (out_lock s)) ?s))" if "ph t = Some (PLockWait ch)" "semv s (out_lock s) \<noteq> 0"
    using taken that by (simp add: settle_def)
qed

text \<open>Giving the display a character, and waiting for it. The host writes the one byte that it is asked to write.\<close>

definition console_host :: "'h unix \<Rightarrow> bool" where
  "console_host u \<longleftrightarrow> (\<forall>fd h. fst (u_poll u fd h) \<in> {0, 1})
     \<and> (\<forall>fd h h1. u_poll u fd h = (1, h1) \<longrightarrow> (\<exists>bs h2. u_read u fd 1 h1 = (Some bs, h2) \<and> length bs \<le> 1))
     \<and> (\<forall>fd c h. fst (u_write u fd [c] h) = 1)"

lemma put_char_steps:
  assumes D: "distinct [in_lock s, in_wait s, out_lock s, out_wait s]" and I: "in_part s ph oi" and O: "out_part s ph oo" and U: "console_host u"
  shows "ph t = Some (PLocked ch) \<Longrightarrow> advances u s ph t (settle (p_locked u ch (out_lock s) (s\<lparr>cur := t\<rparr>)))"
    and "ph t = Some PDeviceWait \<Longrightarrow> semv s (out_wait s) \<noteq> 0 \<Longrightarrow>
      advances u s ph t (settle (Preempt p_take (set_semv (out_wait s) (semv s (out_wait s) - 1) (s\<lparr>cur := t\<rparr>))))"
    and "ph t = Some PTaken \<Longrightarrow> advances u s ph t (settle (p_take (s\<lparr>cur := t\<rparr>)))"
proof -
  note own = owned_byD [OF O [unfolded out_part_def, THEN conjunct1]]
  note D' = D [simplified]
  show "advances u s ph t (settle (p_locked u ch (out_lock s) (s\<lparr>cur := t\<rparr>)))" if p: "ph t = Some (PLocked ch)"
  proof -
    have o: "oo = Some (t, PLocked ch)"
      using own [OF p] by simp
    have v: "writes_due s = 0" "semv s (out_wait s) = 0" "\<not> putBusy s"
      using O unfolding out_part_def o by auto
    obtain h where h: "u_write u (writeFileNo s) [ch] (host s) = (1, h)"
      using U unfolding console_host_def by (metis prod.collapse)
    let ?s = "s\<lparr>cur := t, lockHolder := (lockHolder s)(out_lock s := Some t), host := h, putBusy := True, writes_due := 1\<rparr>"
    have "advances u s ph t (Inr (point_task u s PDeviceWait, ?s))"
    proof (rule advancesI [OF HOL.refl])
      show "out_part ?s (ph(t \<mapsto> PDeviceWait)) (Some (t, PDeviceWait))"
        using O D' v unfolding out_part_def o by (simp add: owned_by_moves(3) [where p = "PLocked ch"])
      show "in_part ?s (ph(t \<mapsto> PDeviceWait)) oi"
        by (rule in_part_same [OF I]) (use D' p in \<open>auto simp: same_addrs_def\<close>)
    qed (simp add: same_addrs_def)
    then show ?thesis
      using v h by (simp add: p_locked_def Let_def ConsoleOutput_PutChar_def WriteFile_def ok_or_def sem_P_def settle_def)
  qed
  show "advances u s ph t (settle (Preempt p_take (set_semv (out_wait s) (semv s (out_wait s) - 1) (s\<lparr>cur := t\<rparr>))))"
    if p: "ph t = Some PDeviceWait" and "semv s (out_wait s) \<noteq> 0"
  proof -
    let ?s = "set_semv (out_wait s) (semv s (out_wait s) - 1) (s\<lparr>cur := t\<rparr>)"
    have o: "oo = Some (t, PDeviceWait)"
      using own [OF p] by simp
    have "advances u s ph t (Inr (point_task u s PTaken, ?s))"
    proof (rule advancesI [OF HOL.refl])
      show "out_part ?s (ph(t \<mapsto> PTaken)) (Some (t, PTaken))"
        using O D' that unfolding out_part_def o by (simp add: owned_by_moves(3) [where p = PDeviceWait])
      show "in_part ?s (ph(t \<mapsto> PTaken)) oi"
        by (rule in_part_same [OF I]) (use D' p in \<open>auto simp: same_addrs_def\<close>)
    qed (simp add: same_addrs_def)
    then show ?thesis by (simp add: settle_def)
  qed
  show "advances u s ph t (settle (p_take (s\<lparr>cur := t\<rparr>)))" if p: "ph t = Some PTaken"
  proof -
    have o: "oo = Some (t, PTaken)"
      using own [OF p] by simp
    have h: "lockHolder s (out_lock s) = Some t" "semv s (out_lock s) = 0"
      using O unfolding out_part_def o by auto
    let ?s = "set_semv (out_lock s) 1 (s\<lparr>cur := t, lockHolder := (lockHolder s)(out_lock s := None)\<rparr>)"
    have "advances u s ph t (Inr (point_task u s PDone, ?s))"
    proof (rule advancesI [OF HOL.refl])
      show "out_part ?s (ph(t \<mapsto> PDone)) None"
        using O D' h unfolding out_part_def o by (simp add: owned_by_moves(4) [where p = PTaken])
      show "in_part ?s (ph(t \<mapsto> PDone)) oi"
        by (rule in_part_same [OF I]) (use D' p in \<open>auto simp: same_addrs_def\<close>)
    qed (simp add: same_addrs_def)
    then show ?thesis using h by (simp add: p_take_def Release_def sem_V_def settle_def)
  qed
qed

section \<open>Every interleaving\<close>

lemma returning_steps:
  assumes "in_part s ph oi" and "out_part s ph oo" and "ph t = Some (GDone ch) \<or> ph t = Some PDone"
  shows "advances u s ph t (settle (Ret v (s\<lparr>cur := t\<rparr>)))"
proof -
  have "advances u s ph t (Inr (point_task u s (Back v), s\<lparr>cur := t\<rparr>))"
    by (rule advancesI [OF HOL.refl])
      (use assms(3) in \<open>auto simp: same_addrs_def intro!: in_part_same [OF assms(1)] out_part_same [OF assms(2)]\<close>)
  then show ?thesis by (simp add: settle_def)
qed

lemma thread_advances:
  assumes D: "distinct [in_lock s, in_wait s, out_lock s, out_wait s]" and I: "in_part s ph oi" and O: "out_part s ph oo" and U: "console_host u"
    and p: "ph t = Some p" and k: "enabled s (\<lambda>t. map_option (point_task u s) (ph t)) t = Some k"
  shows "advances u s ph t (settle (k (s\<lparr>cur := t\<rparr>)))"
proof -
  note g = get_lock_steps [OF D I O] get_char_steps [OF D I O] put_lock_steps [OF D I O] put_char_steps [OF D I O U] returning_steps [OF I O]
  show ?thesis
    using k p by (cases p) (auto simp: enabled_def getting_def putting_def split: if_splits intro: g)
qed

lemma console_thread:
  assumes "console_inv u (s, T)" and "console_host u"
  shows "prun t (s, T) = Inr None \<or> (\<exists>c. prun t (s, T) = Inr (Some c) \<and> console_inv u c)"
proof (cases "enabled s T t")
  case (Some k)
  obtain ph oi oo where T: "T = (\<lambda>t. map_option (point_task u s) (ph t))" and D: "distinct [in_lock s, in_wait s, out_lock s, out_wait s]"
    and I: "in_part s ph oi" and O: "out_part s ph oo"
    using assms(1) by (auto simp: console_inv_def)
  obtain p where p: "ph t = Some p"
    using Some T by (cases "ph t") (simp_all add: enabled_def)
  from thread_advances [OF D I O assms(2) p Some [unfolded T]] obtain p' s' oi' oo' where
    a: "settle (k (s\<lparr>cur := t\<rparr>)) = Inr (point_task u s p', s')" "same_addrs s s'" "in_part s' (ph(t \<mapsto> p')) oi'" "out_part s' (ph(t \<mapsto> p')) oo'"
    by (auto simp: advances_def)
  have "T(t \<mapsto> point_task u s p') = (\<lambda>t'. map_option (point_task u s') ((ph(t \<mapsto> p')) t'))"
    unfolding T using point_task_cong [OF a(2)] by (auto simp: fun_eq_iff option.map_comp intro: option.map_cong)
  moreover have "distinct [in_lock s', in_wait s', out_lock s', out_wait s']"
    using D a(2) by (simp add: same_addrs_def)
  ultimately have "console_inv u (s', T(t \<mapsto> point_task u s p'))"
    using a(3,4) unfolding console_inv_def by blast
  then show ?thesis
    using Some a(1) by (simp add: prun_def)
qed (simp add: prun_def)

lemma console_inv_devices:
  assumes "console_inv u (s, T)" and "same_addrs s s'"
    and "\<And>ph own. in_part s ph own \<Longrightarrow> distinct [in_lock s, in_wait s, out_lock s, out_wait s] \<Longrightarrow> in_part s' ph own"
    and "\<And>ph own. out_part s ph own \<Longrightarrow> distinct [in_lock s, in_wait s, out_lock s, out_wait s] \<Longrightarrow> out_part s' ph own"
  shows "console_inv u (s', T)"
proof -
  obtain ph oi oo where T: "T = (\<lambda>t. map_option (point_task u s) (ph t))" and D: "distinct [in_lock s, in_wait s, out_lock s, out_wait s]"
    and I: "in_part s ph oi" and O: "out_part s ph oo"
    using assms(1) by (auto simp: console_inv_def)
  have "T = (\<lambda>t. map_option (point_task u s') (ph t))"
    unfolding T using point_task_cong [OF assms(2), of u] by presburger
  moreover have "distinct [in_lock s', in_wait s', out_lock s', out_wait s']"
    using D assms(2) by (simp add: same_addrs_def)
  ultimately show ?thesis
    using assms(3) [OF I D] assms(4) [OF O D] unfolding console_inv_def by blast
qed

lemma console_keyboard:
  assumes "console_inv u (s, T)" and U: "console_host u"
  shows "keyboard_interrupt u s = Inr None \<or> (\<exists>s'. keyboard_interrupt u s = Inr (Some s') \<and> console_inv u (s', T))"
proof (cases "reads_due s = 0")
  case False
  obtain ph oi where "in_part s ph oi"
    using assms(1) by (auto simp: console_inv_def)
  then have v: "incoming s = EOF" "reads_due s = 1" "semv s (in_wait s) = 0"
    using False by (auto simp: in_part_def of_bool_def split: if_splits)
  obtain r h where r: "u_poll u (readFileNo s) (host s) = (r, h)" "r = 0 \<or> r = 1"
    using U unfolding console_host_def by (metis insert_iff prod.collapse singletonD)
  show ?thesis
  proof (cases "r = 0")
    case True
    have "console_inv u (s\<lparr>host := h, reads_due := 1\<rparr>, T)"
      by (rule console_inv_devices [OF assms(1)]) (use v in \<open>auto simp: same_addrs_def in_part_def out_part_def\<close>)
    then show ?thesis
      using True False v r by (simp add: keyboard_interrupt_def ConsoleInput_CallBack_def PollFile_def)
  next
    case False
    then have "u_poll u (readFileNo s) (host s) = (1, h)"
      using r by simp
    then obtain bs h2 where bs: "u_read u (readFileNo s) 1 h = (Some bs, h2)" "length bs \<le> 1"
      using U unfolding console_host_def by blast
    let ?s = "\<lambda>c. set_semv (in_wait s) 1 (s\<lparr>reads_due := 0, host := h2, incoming := c\<rparr>)"
    have i: "console_inv u (?s c, T)" for c
      by (rule console_inv_devices [OF assms(1)]) (use v in \<open>auto simp: same_addrs_def in_part_def out_part_def\<close>)
    have "?s EOF = set_semv (in_wait s) 1 (s\<lparr>reads_due := 0, host := h2\<rparr>)"
      using v(1) by (simp add: set_semv_def)
    moreover have "bs = [] \<or> (\<exists>c. bs = [c])"
      using bs(2) by (cases bs) auto
    ultimately show ?thesis
      using False v r bs i [of EOF] i [of "hd bs"]
      by (auto simp: keyboard_interrupt_def ConsoleInput_CallBack_def PollFile_def ReadPartial_def read_count_def SynchConsoleInput_CallBack_def rbind_ASSERT Let_def)
  qed
qed (simp add: keyboard_interrupt_def)

lemma console_display:
  assumes "console_inv u (s, T)" and "display_interrupt s = Some s'"
  shows "console_inv u (s', T)"
proof (rule console_inv_devices [OF assms(1)])
  have w: "writes_due s \<noteq> 0" and s': "s' = set_semv (out_wait s) (semv s (out_wait s) + 1) (s\<lparr>writes_due := writes_due s - 1, putBusy := False\<rparr>)"
    using assms(2) by (auto simp: display_interrupt_def ConsoleOutput_CallBack_def SynchConsoleOutput_CallBack_def split: if_splits)
  show "same_addrs s s'"
    unfolding s' by (simp add: same_addrs_def)
  show "in_part s' ph own" if "in_part s ph own" "distinct [in_lock s, in_wait s, out_lock s, out_wait s]" for ph own
    using that unfolding s' by (simp add: in_part_def)
  show "out_part s' ph own" if "out_part s ph own" "distinct [in_lock s, in_wait s, out_lock s, out_wait s]" for ph own
    using that w unfolding s' by (auto simp: out_part_def of_bool_def split: if_splits)
qed

lemma console_call:
  assumes "console_inv u (s, T)" and "idle_task (T t)" and "p = GStart \<or> p = PStart ch"
  shows "console_inv u (s, T(t \<mapsto> point_task u s p))"
proof -
  obtain ph oi oo where T: "T = (\<lambda>t. map_option (point_task u s) (ph t))" and D: "distinct [in_lock s, in_wait s, out_lock s, out_wait s]"
    and I: "in_part s ph oi" and O: "out_part s ph oo"
    using assms(1) by (auto simp: console_inv_def)
  have c: "\<not> in_crit q \<and> \<not> out_crit q" if "ph t = Some q" for q
    using that assms(2) T by (cases q) (simp_all add: idle_task_def getting_def putting_def)
  have "in_part s (ph(t \<mapsto> p)) oi" "out_part s (ph(t \<mapsto> p)) oo"
    using c assms(3) by (auto simp: same_addrs_def intro!: in_part_same [OF I] out_part_same [OF O])
  moreover have "T(t \<mapsto> point_task u s p) = (\<lambda>t'. map_option (point_task u s) ((ph(t \<mapsto> p)) t'))"
    unfolding T by (simp add: fun_eq_iff)
  ultimately show ?thesis
    using D unfolding console_inv_def by blast
qed

lemma console_inv_reachable:
  assumes "csteps u c0 c" and "console_inv u c0" and "console_host u"
  shows "console_inv u c"
  using assms(1,2)
proof (induction rule: csteps.induct)
  case (csteps_read_call c s T t)
  then show ?case using console_call [of u s T t GStart] by simp
next
  case (csteps_write_call c s T t ch)
  then show ?case using console_call [of u s T t "PStart ch" ch] by simp
next
  case (csteps_thread c c1 t c2)
  then show ?case using console_thread [OF _ assms(3), of "fst c1" "snd c1" t] by auto
next
  case (csteps_keyboard c s T s1)
  then show ?case using console_keyboard [OF _ assms(3), of s T] by auto
next
  case (csteps_display c s T s1)
  then show ?case using console_display by blast
qed

lemma input_start:
  assumes "SynchConsoleInput_new u f s = Inr s1"
  shows "in_lock s1 = next_addr s" "in_wait s1 = next_addr s + 1" "next_addr s1 = next_addr s + 2" "semv s1 (next_addr s) = 1"
    "semv s1 (next_addr s + 1) = 0" "reads_due s1 = 1" "incoming s1 = EOF"
proof -
  obtain s' where "ConsoleInput_new u f s = Inr s'" and s1: "(let (l, s2) = new_lock s'; (w, s3) = new_sem 0 s2 in s3\<lparr>in_lock := l, in_wait := w\<rparr>) = s1"
    using assms by (auto simp: SynchConsoleInput_new_def rbind_eq_Inr_iff Let_def case_prod_beta)
  then have "next_addr s' = next_addr s" "reads_due s' = 1" "incoming s' = EOF"
    by (auto simp: ConsoleInput_new_def rbind_eq_Inr_iff split: option.splits)
  then show "in_lock s1 = next_addr s" "in_wait s1 = next_addr s + 1" "next_addr s1 = next_addr s + 2" "semv s1 (next_addr s) = 1"
    "semv s1 (next_addr s + 1) = 0" "reads_due s1 = 1" "incoming s1 = EOF"
    unfolding s1 [symmetric] by (simp_all add: new_lock_def new_sem_def Let_def set_semv_def)
qed

lemma output_start:
  assumes "SynchConsoleOutput_new u f s = Inr s1"
  shows "out_lock s1 = next_addr s" "out_wait s1 = next_addr s + 1" "semv s1 (next_addr s) = 1" "semv s1 (next_addr s + 1) = 0"
    "writes_due s1 = 0" "\<not> putBusy s1" "a < next_addr s \<Longrightarrow> semv s1 a = semv s a"
    "in_lock s1 = in_lock s" "in_wait s1 = in_wait s" "reads_due s1 = reads_due s" "incoming s1 = incoming s"
proof -
  obtain s' where "ConsoleOutput_new u f s = Inr s'" and s1: "(let (l, s2) = new_lock s'; (w, s3) = new_sem 0 s2 in s3\<lparr>out_lock := l, out_wait := w\<rparr>) = s1"
    using assms by (auto simp: SynchConsoleOutput_new_def rbind_eq_Inr_iff Let_def case_prod_beta)
  then have "next_addr s' = next_addr s" "writes_due s' = 0" "\<not> putBusy s'" "semv s' = semv s" "in_lock s' = in_lock s" "in_wait s' = in_wait s"
    "reads_due s' = reads_due s" "incoming s' = incoming s"
    by (auto simp: ConsoleOutput_new_def rbind_eq_Inr_iff split: option.splits)
  then show "out_lock s1 = next_addr s" "out_wait s1 = next_addr s + 1" "semv s1 (next_addr s) = 1" "semv s1 (next_addr s + 1) = 0"
    "writes_due s1 = 0" "\<not> putBusy s1" "a < next_addr s \<Longrightarrow> semv s1 a = semv s a"
    "in_lock s1 = in_lock s" "in_wait s1 = in_wait s" "reads_due s1 = reads_due s" "incoming s1 = incoming s"
    unfolding s1 [symmetric] by (simp_all add: new_lock_def new_sem_def Let_def set_semv_def)
qed

lemma consoles_start:
  assumes "SynchConsoleInput_new u f s = Inr s1" and "SynchConsoleOutput_new u g s1 = Inr s2"
  shows "console_inv u (s2, \<lambda>_. None)"
proof -
  note i = input_start [OF assms(1)] and o = output_start [OF assms(2)]
  have "in_part s2 (\<lambda>_. None) None"
    using i o(7) [of "in_lock s1"] o(7) [of "in_wait s1"] o(8-11) by (simp add: in_part_def owned_by_def)
  moreover have "out_part s2 (\<lambda>_. None) None"
    using o(1-6) by (simp add: out_part_def owned_by_def)
  moreover have "distinct [in_lock s2, in_wait s2, out_lock s2, out_wait s2]"
    using i o by simp
  ultimately show ?thesis
    unfolding console_inv_def by fastforce
qed

section \<open>Properties\<close>

text \<open>C16: the consoles are safe. From the kernel's start, whatever threads read and write characters and whenever the devices interrupt:
  no thread fails an assertion, neither that the display is free nor that it releases a lock that it holds, and the keyboard's interrupt never
  finds a character that nobody has taken.\<close>

theorem console_safe:
  assumes "SynchConsoleInput_new u f s0 = Inr s1" and "SynchConsoleOutput_new u g s1 = Inr s2" and "console_host u"
    and "csteps u (s2, \<lambda>_. None) (s, T)"
  shows "(\<forall>t. \<exists>x. prun t (s, T) = Inr x) \<and> (\<exists>x. keyboard_interrupt u s = Inr x) \<and> (0 < reads_due s \<longrightarrow> incoming s = EOF)"
proof (intro conjI allI)
  have i: "console_inv u (s, T)"
    by (rule console_inv_reachable [OF assms(4) consoles_start [OF assms(1,2)] assms(3)])
  show "\<exists>x. prun t (s, T) = Inr x" for t
    using console_thread [OF i assms(3), of t] by blast
  show "\<exists>x. keyboard_interrupt u s = Inr x"
    using console_keyboard [OF i assms(3)] by blast
  show "0 < reads_due s \<longrightarrow> incoming s = EOF"
    using i by (auto simp: console_inv_def in_part_def)
qed

text \<open>A host whose state is what will be typed, and a kernel before its consoles are made.\<close>

definition typing_unix :: "byte list unix" where
  "typing_unix = \<lparr>u_open = (\<lambda>_ _ h. (3, h)), u_read = (\<lambda>_ _ h. (Some (take 1 h), drop 1 h)), u_write = (\<lambda>_ bs h. (int (length bs), h)),
     u_lseek = (\<lambda>_ off _ h. (off, h)), u_close = (\<lambda>_ h. (0, h)), u_unlink = (\<lambda>_ h. (0, h)), u_poll = (\<lambda>_ h. (if h = [] then 0 else 1, h)),
     u_socket = (\<lambda>h. (- 1, h)), u_connect = (\<lambda>_ _ _ h. (- 1, h)), u_send = (\<lambda>_ _ h. (- 1, h)), u_recv = (\<lambda>_ _ h. (None, h))\<rparr>"

definition early_kernel :: "byte list consoles" where
  "early_kernel = \<lparr>registers = (\<lambda>_. 0), mainMemory = (\<lambda>_. 0), tlb = None, pageTable = None, pageTableSize = 0, singleStep = False,
     runUntilTime = 0, status = SystemMode, host = [97, 98], ftable = Table_new, psize = 0, pbm = \<lparr>numBits = 10, numWords = 1, bm_map = [0]\<rparr>,
     pcb = replicate 10 None, bmsem = 0, pcbs = (\<lambda>_. \<lparr>joinsem = 0, exitsem = 0, mutex = 0, exitcode = 0, numwait = 0, pcb_thread = None,
       pcb_file = None, pcb_pid = 0, parentID = - 1\<rparr>), sbm = \<lparr>numBits = 10, numWords = 1, bm_map = [0]\<rparr>, semTab = replicate 10 None,
     semv = (\<lambda>_. 0), next_addr = 1, cur = 0, tnames = (\<lambda>_. main_name), spawned = [], readFileNo = 0, incoming = 0, reads_due = 0, in_lock = 0,
     in_wait = 0, writeFileNo = 1, putBusy = True, writes_due = 0, out_lock = 0, out_wait = 0, lockHolder = (\<lambda>_. None)\<rparr>"

lemma typing_host: "console_host typing_unix"
  by (simp add: console_host_def typing_unix_def)

theorem console_safe_witness:
  "\<exists>s1 s2 s. SynchConsoleInput_new typing_unix None early_kernel = Inr s1 \<and> SynchConsoleOutput_new typing_unix None s1 = Inr s2
    \<and> keyboard_interrupt typing_unix s2 = Inr (Some s) \<and> incoming s = 97 \<and> (\<exists>x. prun 7 (s, [7 \<mapsto> getting]) = Inr x)"
proof -
  obtain s1 where s1: "SynchConsoleInput_new typing_unix None early_kernel = Inr s1" "host s1 = [97, 98]" "readFileNo s1 = 0"
    by (simp add: SynchConsoleInput_new_def ConsoleInput_new_def new_lock_def new_sem_def Let_def set_semv_def early_kernel_def)
  obtain s2 where s2: "SynchConsoleOutput_new typing_unix None s1 = Inr s2" "host s2 = [97, 98]" "readFileNo s2 = 0"
    using s1(2,3) by (simp add: SynchConsoleOutput_new_def ConsoleOutput_new_def new_lock_def new_sem_def Let_def set_semv_def)
  have "reads_due s2 = 1" "incoming s2 = EOF"
    using input_start [OF s1(1)] output_start [OF s2(1)] by simp_all
  then obtain s where s: "keyboard_interrupt typing_unix s2 = Inr (Some s)" "incoming s = 97"
    using s2(2,3) by (simp add: keyboard_interrupt_def ConsoleInput_CallBack_def PollFile_def ReadPartial_def read_count_def typing_unix_def
        SynchConsoleInput_CallBack_def)
  have "csteps typing_unix (s2, \<lambda>_. None) (s, [7 \<mapsto> getting])"
    using csteps_read_call [OF csteps_keyboard [OF csteps_start s(1)], of "\<lambda>_. None" 7] by (simp add: idle_task_def)
  from console_safe [OF s1(1) s2(1) typing_host this] show ?thesis
    using s1(1) s2(1) s by blast
qed

end
