(* ===== verification/Syscalls.thy ===== *)
theory Syscalls
  imports Console MipsProofs
begin

text \<open>
  \<^verbatim>\<open>userprog/ksyscall.h\<close> and \<^verbatim>\<open>userprog/exception.cc\<close>: the system calls of user programs and the handler of
  exceptions through which they enter the kernel.

  Arguments come in registers 4 to 6 and the result goes to register 2. A call that cannot wait is a function to a
  result, one that can is a function to an \<open>outcome\<close>, with what is done with its result as an argument \<open>k\<close>.
  A name that was copied into the kernel is the buffer up to its first zero.
\<close>

section \<open>Exceptions other than system calls\<close>

text \<open>All of them end the simulation. Memory accesses raise only these: the handler of a kernel that reads and writes user memory.\<close>

definition fault_handler :: "'a handler" where
  "fault_handler which m = (case which of NoException \<Rightarrow> Inr m | SyscallException \<Rightarrow> Inl AssertFail | _ \<Rightarrow> Inl Shutdown)"

section \<open>Copying between kernel and user memory\<close>

text \<open>The loop has \<open>n\<close> rounds left. The access that fails does not come back.\<close>

fun u2s_loop :: "nat \<Rightarrow> 32 word \<Rightarrow> byte list \<Rightarrow> nat \<Rightarrow> 'a machine_scheme \<Rightarrow> (byte list \<times> 'a machine_scheme) result" where
  "u2s_loop 0 virtAddr kernelBuf i s = Inr (kernelBuf, s)"
| "u2s_loop (Suc n) virtAddr kernelBuf i s =
     rbind (Machine_ReadMem fault_handler s (virtAddr + of_nat i) 1) (\<lambda>(v, s1).
     (case v of None \<Rightarrow> Inl Shutdown
      | Some oneChar \<Rightarrow>
          rbind (arr_set kernelBuf (int i) (ucast oneChar)) (\<lambda>buf.
          if oneChar = 0 then Inr (buf, s1) else u2s_loop n virtAddr buf (Suc i) s1)))"

text \<open>\<^verbatim>\<open>new char[limit + 1]\<close> of a negative size throws an exception that nothing catches.\<close>

definition User2System :: "32 word \<Rightarrow> int \<Rightarrow> 'a machine_scheme \<Rightarrow> (byte list \<times> 'a machine_scheme) result" where
  "User2System virtAddr limit s =
     (if limit < - 1 \<or> limit = 2 ^ 31 - 1 then Inl HostTrap
      else u2s_loop (nat limit) virtAddr (replicate (nat (limit + 1)) 0) 0 s)"

fun s2u_loop :: "nat \<Rightarrow> 32 word \<Rightarrow> byte list \<Rightarrow> nat \<Rightarrow> 'a machine_scheme \<Rightarrow> (int \<times> 'a machine_scheme) result" where
  "s2u_loop 0 virtAddr buffer i s = Inr (int i, s)"
| "s2u_loop (Suc n) virtAddr buffer i s =
     rbind (arr_get buffer (int i)) (\<lambda>oneChar.
     rbind (Machine_WriteMem fault_handler s (virtAddr + of_nat i) 1 (scast oneChar)) (\<lambda>(_, s1).
     if oneChar = 0 then Inr (int (Suc i), s1) else s2u_loop n virtAddr buffer (Suc i) s1))"

definition System2User :: "32 word \<Rightarrow> int \<Rightarrow> byte list \<Rightarrow> 'a machine_scheme \<Rightarrow> (int \<times> 'a machine_scheme) result" where
  "System2User virtAddr len buffer s =
     (if len < 0 then Inr (- 1, s) else if len = 0 then Inr (len, s) else s2u_loop (nat len) virtAddr buffer 0 s)"

definition IncreasePC :: "'a machine_scheme \<Rightarrow> 'a machine_scheme" where
  "IncreasePC s =
     (let s1 = set_reg PrevPCReg (registers s PCReg) s;
          s2 = set_reg PCReg (registers s1 NextPCReg) s1 in
      set_reg NextPCReg (registers s2 PCReg + 4) s2)"

section \<open>Files\<close>

definition MaxFileLength :: int where "MaxFileLength = 32"
definition consoleInputID :: int where "consoleInputID = 0"
definition consoleOutputID :: int where "consoleOutputID = 1"

definition SysCreate :: "'h unix \<Rightarrow> 32 word \<Rightarrow> ('h, 'a) system_scheme \<Rightarrow> (int \<times> ('h, 'a) system_scheme) result" where
  "SysCreate u virtAddr s =
     rbind (User2System virtAddr (MaxFileLength + 1) s) (\<lambda>(buf, s1).
     if c_str buf = [] then Inr (- 1, s1)
     else rbind (StubFS_Create u (c_str buf) (host s1)) (\<lambda>(ok, h). Inr (if ok then 0 else - 1, s1\<lparr>host := h\<rparr>)))"

text \<open>\<^verbatim>\<open>IsOpening\<close> returns a slot or -1, and \<^verbatim>\<open>!table.IsOpening(id)\<close> is true when it returns 0.\<close>

definition SysSeek :: "'h unix \<Rightarrow> int \<Rightarrow> int \<Rightarrow> ('h, 'a) system_scheme \<Rightarrow> (int \<times> ('h, 'a) system_scheme) result" where
  "SysSeek u pos fid s =
     (if fid < 0 then Inr (- 1, s)
      else if fid = consoleOutputID then Inr (- 1, s)
      else if fid = consoleInputID then Inr (- 1, s)
      else if Table_IsOpening (ftable s) fid = 0 then Inr (- 1, s)
      else rbind (Table_GetFileDescriptor (ftable s) fid) (\<lambda>i.
           rbind (FileDescriptor_Seek u pos (ftable s ! i) (host s)) (\<lambda>(r, d, h).
           Inr (r, s\<lparr>ftable := (ftable s)[i := d], host := h\<rparr>))))"

definition SysOpen :: "'h unix \<Rightarrow> 32 word \<Rightarrow> int \<Rightarrow> ('h, 'a) system_scheme \<Rightarrow> (int \<times> ('h, 'a) system_scheme) result" where
  "SysOpen u virtAddr type s =
     (if type \<noteq> 0 \<and> type \<noteq> 1 then Inr (- 1, s)
      else rbind (User2System virtAddr MaxFileLength s) (\<lambda>(buf, s1).
        if c_str buf = [] then Inr (- 1, s1)
        else rbind (Table_Open u (c_str buf) type (ftable s1) (host s1)) (\<lambda>(fid, t, h).
          Inr (if fid = - 1 then - 1 else fid, s1\<lparr>ftable := t, host := h\<rparr>))))"

definition SysClose :: "'h unix \<Rightarrow> int \<Rightarrow> ('h, 'a) system_scheme \<Rightarrow> (int \<times> ('h, 'a) system_scheme) result" where
  "SysClose u fid s =
     rbind (Table_Close u fid (ftable s) (host s)) (\<lambda>(r, t, h). Inr (if r = - 1 then - 1 else 0, s\<lparr>ftable := t, host := h\<rparr>))"

text \<open>An empty name is reported and then used all the same.\<close>

definition SysRemove :: "'h unix \<Rightarrow> 32 word \<Rightarrow> ('h, 'a) system_scheme \<Rightarrow> (int \<times> ('h, 'a) system_scheme) result" where
  "SysRemove u virtAddr s =
     rbind (User2System virtAddr MaxFileLength s) (\<lambda>(buf, s1).
     rbind (Table_IsOpeningWithName (ftable s1) (c_str buf)) (\<lambda>i.
     if i \<noteq> - 1 then Inr (- 1, s1)
     else let (ok, h) = StubFS_Remove u (c_str buf) (host s1) in Inr (if ok then 0 else - 1, s1\<lparr>host := h\<rparr>)))"

text \<open>The loop over the console's characters has \<open>n\<close> rounds left.\<close>

primrec read_console :: "nat \<Rightarrow> byte list \<Rightarrow> nat \<Rightarrow> (int \<Rightarrow> byte list \<Rightarrow> ('h, 'a) consoles_scheme \<Rightarrow> ('h, 'a) consoles_scheme outcome)
    \<Rightarrow> ('h, 'a) consoles_scheme \<Rightarrow> ('h, 'a) consoles_scheme outcome" where
  "read_console 0 buffer i k s = k (int i) buffer s"
| "read_console (Suc n) buffer i k s =
     SynchConsoleInput_GetChar (\<lambda>ch s1.
       ok_or (arr_set buffer (int i) ch) (\<lambda>buf.
       if ch = EOF \<or> ch = 10 then k (int i) (buf[i := 0]) s1 else read_console n buf (Suc i) k s1)) s"

text \<open>A read or write of -1 bytes asks the host for the whole address space: out of the buffer's bounds.\<close>

definition read_from_file where
  "read_from_file u sz fid buffer k s =
     ok_or (Table_GetFileDescriptor (ftable s) fid) (\<lambda>i.
     if sz < 0 then Fault OutOfBounds
     else ok_or (FileDescriptor_Read u sz (ftable s ! i) (host s)) (\<lambda>(r, d, h).
       k (read_count r) (case r of None \<Rightarrow> buffer | Some bs \<Rightarrow> bs @ drop (length bs) buffer)
         (s\<lparr>ftable := (ftable s)[i := d], host := h\<rparr>)))"

definition copy_back where
  "copy_back virtAddr sz k result buffer s = ok_or (System2User virtAddr sz buffer s) (\<lambda>(_, s1). k result s1)"

definition SysRead where
  "SysRead u virtAddr sz fid k s =
     (if fid < 0 then k (- 1) s
      else if fid = consoleOutputID then k (- 1) s
      else if Table_IsOpening (ftable s) fid = 0 then k (- 1) s
      else ok_or (User2System virtAddr sz s) (\<lambda>(buffer, s1).
        if fid = consoleInputID then read_console (nat sz) buffer 0 (copy_back virtAddr sz k) s1
        else read_from_file u sz fid buffer (copy_back virtAddr sz k) s1))"

primrec write_console :: "'h unix \<Rightarrow> nat \<Rightarrow> byte list \<Rightarrow> nat \<Rightarrow> (int \<Rightarrow> byte list \<Rightarrow> ('h, 'a) consoles_scheme \<Rightarrow> ('h, 'a) consoles_scheme outcome)
    \<Rightarrow> ('h, 'a) consoles_scheme \<Rightarrow> ('h, 'a) consoles_scheme outcome" where
  "write_console u 0 buffer i k s = ok_or (arr_get buffer (int i)) (\<lambda>_. k (int i) buffer s)"
| "write_console u (Suc n) buffer i k s =
     ok_or (arr_get buffer (int i)) (\<lambda>ch.
     if ch = 0 then k (int i) buffer s
     else SynchConsoleOutput_PutChar u ch (write_console u n buffer (Suc i) k) s)"

definition write_to_file where
  "write_to_file u sz fid buffer k s =
     ok_or (Table_GetFileDescriptor (ftable s) fid) (\<lambda>i.
     if sz < 0 then Fault OutOfBounds
     else ok_or (FileDescriptor_Write u (take (nat sz) buffer) (ftable s ! i) (host s)) (\<lambda>(r, d, h).
       k r buffer (s\<lparr>ftable := (ftable s)[i := d], host := h\<rparr>)))"

definition SysWrite where
  "SysWrite u virtAddr sz fid k s =
     (if fid < 0 then k (- 1) s
      else if fid = consoleInputID then k (- 1) s
      else if Table_IsOpening (ftable s) fid = 0 then k (- 1) s
      else ok_or (User2System virtAddr sz s) (\<lambda>(buffer, s1).
        if fid = consoleOutputID then write_console u (nat sz) buffer 0 (copy_back virtAddr sz k) s1
        else write_to_file u sz fid buffer (copy_back virtAddr sz k) s1))"

section \<open>Sockets\<close>

definition SysSocketTCP :: "'h unix \<Rightarrow> ('h, 'a) system_scheme \<Rightarrow> (int \<times> ('h, 'a) system_scheme) result" where
  "SysSocketTCP u s =
     (let (i, t, h) = Table_SocketTCP u (ftable s) (host s) in Inr (if i \<noteq> - 1 then i else - 1, s\<lparr>ftable := t, host := h\<rparr>))"

definition SysConnect :: "'h unix \<Rightarrow> int \<Rightarrow> 32 word \<Rightarrow> int \<Rightarrow> ('h, 'a) system_scheme \<Rightarrow> (int \<times> ('h, 'a) system_scheme) result" where
  "SysConnect u socketid ipvirtual port s =
     rbind (User2System ipvirtual MaxFileLength s) (\<lambda>(buf, s1).
     if c_str buf = [] then Inr (- 1, s1)
     else let (r, h) = Table_Connect u socketid (c_str buf) port (ftable s1) (host s1) in Inr (r, s1\<lparr>host := h\<rparr>))"

definition SysSend :: "'h unix \<Rightarrow> int \<Rightarrow> 32 word \<Rightarrow> int \<Rightarrow> ('h, 'a) system_scheme \<Rightarrow> (int \<times> ('h, 'a) system_scheme) result" where
  "SysSend u socketid virtbuffer len s =
     rbind (User2System virtbuffer len s) (\<lambda>(buf, s1).
     if len < 0 \<and> Table_IsOpening (ftable s1) socketid \<noteq> - 1 then Inl OutOfBounds
     else let (r, h) = Table_Send u socketid buf len (ftable s1) (host s1) in Inr (r, s1\<lparr>host := h\<rparr>))"

definition SysReceive :: "'h unix \<Rightarrow> int \<Rightarrow> 32 word \<Rightarrow> int \<Rightarrow> ('h, 'a) system_scheme \<Rightarrow> (int \<times> ('h, 'a) system_scheme) result" where
  "SysReceive u socketid virtbuffer len s =
     rbind (User2System virtbuffer len s) (\<lambda>(buf, s1).
     if len < 0 \<and> Table_IsOpening (ftable s1) socketid \<noteq> - 1 then Inl OutOfBounds
     else let (r, buf1, h) = Table_Receive u socketid buf len (ftable s1) (host s1) in
       rbind (System2User virtbuffer len buf1 (s1\<lparr>host := h\<rparr>)) (\<lambda>(_, s2). Inr (r, s2)))"

definition SysCloseSocket :: "'h unix \<Rightarrow> int \<Rightarrow> ('h, 'a) system_scheme \<Rightarrow> (int \<times> ('h, 'a) system_scheme) result" where
  "SysCloseSocket u socketid s =
     (let (r, t, h) = Table_Close_Socket u socketid (ftable s) (host s) in Inr (r, s\<lparr>ftable := t, host := h\<rparr>))"

section \<open>Processes and semaphores\<close>

definition SysExec where
  "SysExec u virtAddr k s =
     ok_or (User2System virtAddr MaxFileLength s) (\<lambda>(buf, s1).
     if c_str buf = [] then k (- 1) s1 else PTable_ExecUpdate u (c_str buf) k s1)"

definition SysJoin where "SysJoin pid k s = PTable_JoinUpdate pid k s"
definition SysExit where "SysExit exit_status k s = PTable_ExitUpdate exit_status k s"

text \<open>\<^verbatim>\<open>if (result=-1)\<close> assigns.\<close>

definition SysCreateSemaphore :: "32 word \<Rightarrow> int \<Rightarrow> ('h, 'a) system_scheme \<Rightarrow> (int \<times> ('h, 'a) system_scheme) result" where
  "SysCreateSemaphore virtAddr semval s =
     rbind (User2System virtAddr MaxFileLength s) (\<lambda>(buf, s1).
     if c_str buf = [] then Inr (- 1, s1)
     else rbind (STable_Create (c_str buf) semval s1) (\<lambda>(result, s2). Inr (- 1, s2)))"

definition SysWait where
  "SysWait virtAddr k s = ok_or (User2System virtAddr MaxFileLength s) (\<lambda>(buf, s1). STable_Wait (c_str buf) k s1)"

definition SysSignal where
  "SysSignal virtAddr k s = ok_or (User2System virtAddr MaxFileLength s) (\<lambda>(buf, s1). STable_Signal (c_str buf) k s1)"

section \<open>The exception handler\<close>

text \<open>The end of every case of the switch: the result goes to register 2, and the program goes on after the call.\<close>

definition return_to_user :: "int \<Rightarrow> 'a machine_scheme \<Rightarrow> 'a machine_scheme outcome" where
  "return_to_user result s = Ret 0 (IncreasePC (set_reg 2 (word_of_int result) s))"

definition reply :: "(int \<times> 'a machine_scheme) result \<Rightarrow> 'a machine_scheme outcome" where
  "reply r = ok_or r (\<lambda>(result, s). return_to_user result s)"

text \<open>The codes of \<^verbatim>\<open>syscall.h\<close> that the kernel has a case for.\<close>

abbreviation (input) SC_Halt :: int where "SC_Halt \<equiv> 0"
abbreviation (input) SC_Exit :: int where "SC_Exit \<equiv> 1"
abbreviation (input) SC_Exec :: int where "SC_Exec \<equiv> 2"
abbreviation (input) SC_Join :: int where "SC_Join \<equiv> 3"
abbreviation (input) SC_Create :: int where "SC_Create \<equiv> 4"
abbreviation (input) SC_Remove :: int where "SC_Remove \<equiv> 5"
abbreviation (input) SC_Open :: int where "SC_Open \<equiv> 6"
abbreviation (input) SC_Read :: int where "SC_Read \<equiv> 7"
abbreviation (input) SC_Write :: int where "SC_Write \<equiv> 8"
abbreviation (input) SC_Seek :: int where "SC_Seek \<equiv> 9"
abbreviation (input) SC_Close :: int where "SC_Close \<equiv> 10"
abbreviation (input) SC_SocketTCP :: int where "SC_SocketTCP \<equiv> 16"
abbreviation (input) SC_Connect :: int where "SC_Connect \<equiv> 17"
abbreviation (input) SC_Send :: int where "SC_Send \<equiv> 18"
abbreviation (input) SC_Receive :: int where "SC_Receive \<equiv> 19"
abbreviation (input) SC_CloseSocket :: int where "SC_CloseSocket \<equiv> 20"
abbreviation (input) SC_CreateSemaphore :: int where "SC_CreateSemaphore \<equiv> 21"
abbreviation (input) SC_Wait :: int where "SC_Wait \<equiv> 22"
abbreviation (input) SC_Signal :: int where "SC_Signal \<equiv> 23"

text \<open>The switch of the handler, its cases for sockets, processes and semaphores apart. \<open>None\<close>: no case has this code.\<close>

definition process_call :: "'h unix \<Rightarrow> int \<Rightarrow> ('h, 'a) consoles_scheme \<Rightarrow> ('h, 'a) consoles_scheme outcome option" where
  "process_call u code s =
     (let a1 = registers s 4; a2 = registers s 5; a3 = registers s 6 in
      if code = SC_Send then Some (reply (SysSend u (sint a1) a2 (sint a3) s))
      else if code = SC_Receive then Some (reply (SysReceive u (sint a1) a2 (sint a3) s))
      else if code = SC_CloseSocket then Some (reply (SysCloseSocket u (sint a1) s))
      else if code = SC_Exec then Some (SysExec u a1 return_to_user s)
      else if code = SC_Join then Some (SysJoin (sint a1) return_to_user s)
      else if code = SC_Exit then Some (SysExit (sint a1) return_to_user s)
      else if code = SC_CreateSemaphore then Some (reply (SysCreateSemaphore a1 (sint a2) s))
      else if code = SC_Wait then Some (SysWait a1 return_to_user s)
      else if code = SC_Signal then Some (SysSignal a1 return_to_user s)
      else None)"

definition syscall :: "'h unix \<Rightarrow> int \<Rightarrow> ('h, 'a) consoles_scheme \<Rightarrow> ('h, 'a) consoles_scheme outcome option" where
  "syscall u code s =
     (let a1 = registers s 4; a2 = registers s 5; a3 = registers s 6 in
      if code = SC_Halt then Some (SysExit 0 (\<lambda>_ _. Fault AssertFail) s)
      else if code = SC_Create then Some (reply (SysCreate u a1 s))
      else if code = SC_Open then Some (reply (SysOpen u a1 (sint a2) s))
      else if code = SC_Close then Some (reply (SysClose u (sint a1) s))
      else if code = SC_Read then Some (SysRead u a1 (sint a2) (sint a3) return_to_user s)
      else if code = SC_Write then Some (SysWrite u a1 (sint a2) (sint a3) return_to_user s)
      else if code = SC_Remove then Some (reply (SysRemove u a1 s))
      else if code = SC_SocketTCP then Some (reply (SysSocketTCP u s))
      else if code = SC_Connect then Some (reply (SysConnect u (sint a1) a2 (sint a3) s))
      else if code = SC_Seek then Some (reply (SysSeek u (sint a1) (sint a2) s))
      else process_call u code s)"

text \<open>A code without a case prints a message and falls through to the end of the outer switch: the program counter stays.\<close>

definition ExceptionHandler :: "'h unix \<Rightarrow> ExceptionType \<Rightarrow> ('h, 'a) consoles_scheme \<Rightarrow> ('h, 'a) consoles_scheme outcome" where
  "ExceptionHandler u which s =
     (case which of
        NoException \<Rightarrow> Ret 0 s
      | SyscallException \<Rightarrow> (case syscall u (sint (registers s 2)) s of None \<Rightarrow> Ret 0 s | Some r \<Rightarrow> r)
      | _ \<Rightarrow> Fault Shutdown)"

section \<open>Running the handler among other threads\<close>

text \<open>
  While the thread of a user program waits or is preempted in the kernel, others run and change anything, except that
  the thread gets back its registers (\<^verbatim>\<open>Thread::RestoreUserState\<close>) and its page table (\<^verbatim>\<open>AddrSpace::RestoreState\<close>) and is
  the current thread again. The two loops copy the registers to the thread and back; \<open>switch_back_copies\<close> in
  \<^verbatim>\<open>SyscallProofs\<close> shows that \<open>switch_back\<close> has every register as they leave it.
\<close>

primrec user_save_loop :: "nat \<Rightarrow> 'a machine_scheme \<Rightarrow> 32 word list \<Rightarrow> (32 word list) result" where
  "user_save_loop 0 m regs = Inr regs"
| "user_save_loop (Suc i) m regs =
     rbind (user_save_loop i m regs) (\<lambda>r. rbind (Machine_ReadRegister m (int i)) (\<lambda>v. arr_set r (int i) v))"

primrec user_restore_loop :: "nat \<Rightarrow> 32 word list \<Rightarrow> 'a machine_scheme \<Rightarrow> 'a machine_scheme result" where
  "user_restore_loop 0 regs m = Inr m"
| "user_restore_loop (Suc i) regs m =
     rbind (user_restore_loop i regs m) (\<lambda>m'. rbind (arr_get regs (int i)) (\<lambda>v. Machine_WriteRegister m' (int i) v))"

definition switch_back :: "('h, 'a) consoles_scheme \<Rightarrow> ('h, 'a) consoles_scheme \<Rightarrow> ('h, 'a) consoles_scheme" where
  "switch_back s s' = s'\<lparr>registers := registers s, tlb := tlb s, pageTable := pageTable s, pageTableSize := pageTableSize s, cur := cur s\<rparr>"

text \<open>\<open>env n\<close> is what the others do at the \<open>n\<close>-th switch from the end. The handler does not return when its thread ends, when
  it waits for longer than there are switches, and when it fails.\<close>

fun drive :: "nat \<Rightarrow> (nat \<Rightarrow> ('h, 'a) consoles_scheme \<Rightarrow> ('h, 'a) consoles_scheme) \<Rightarrow> ('h, 'a) consoles_scheme outcome
    \<Rightarrow> ('h, 'a) consoles_scheme result" where
  "drive n env (Ret v s) = Inr s"
| "drive n env (Ended s) = Inl Deadlock"
| "drive n env (Fault f) = Inl f"
| "drive 0 env r = Inl Deadlock"
| "drive (Suc n) env (Preempt k s) = drive n env (k (switch_back s (env n s)))"
| "drive (Suc n) env (Blocked a k s) =
     (let s1 = switch_back s (env n s) in
      if semv s1 a \<noteq> 0 then drive n env (k s1) else drive n env (Blocked a k s1))"

definition kernel_handler where
  "kernel_handler u n env = (\<lambda>which s. drive n env (ExceptionHandler u which s))"

end
