(* ===== verification/SyscallProofs.thy ===== *)
theory SyscallProofs
  imports Syscalls
begin

text \<open>
  What holds of the system calls: what a call does to the registers of the program, in any interleaving with other
  threads; that the kernel's handler satisfies the contract that the simulation of instructions relies on; copying
  between the kernel and user memory; the calls that fail on bad arguments.
\<close>

section \<open>Following a routine through its waits\<close>

text \<open>\<open>yields I P r\<close>: at each point where \<open>r\<close> gives up the processor \<open>I\<close> holds, it goes on from any state with \<open>I\<close>, and where it
  returns \<open>P\<close> holds.\<close>

primrec yields :: "('s \<Rightarrow> bool) \<Rightarrow> ('s \<Rightarrow> bool) \<Rightarrow> 's outcome \<Rightarrow> bool" where
  "yields I P (Ret v s) = P s"
| "yields I P (Ended s) = True"
| "yields I P (Fault f) = True"
| "yields I P (Blocked a k s) = (I s \<and> (\<forall>s'. I s' \<longrightarrow> yields I P (k s')))"
| "yields I P (Preempt k s) = (I s \<and> (\<forall>s'. I s' \<longrightarrow> yields I P (k s')))"

named_theorems yields_intros \<open>introduction rules for \<open>yields\<close>\<close>

lemma drive_yields:
  assumes "yields I P r" and "\<And>s s'. I s \<Longrightarrow> I (switch_back s s')" and "drive n env r = Inr s"
  shows "P s"
  using assms(1,3) by (induction n env r rule: drive.induct) (auto simp: assms(2) Let_def split: if_splits)

lemma yields_ok_or [yields_intros]: "(\<And>x. r = Inr x \<Longrightarrow> yields I P (k x)) \<Longrightarrow> yields I P (ok_or r k)"
  by (cases r) (simp_all add: ok_or_def)

text \<open>\<open>at R s\<close>: the registers are \<open>R\<close>, and the translation tables are well formed.\<close>

definition at :: "(nat \<Rightarrow> 32 word) \<Rightarrow> 'a machine_scheme \<Rightarrow> bool" where
  "at R s \<longleftrightarrow> registers s = R \<and> mmu_wf s"

lemma mmu_wf_alt:
  "mmu_wf s \<longleftrightarrow> (tlb s = None \<and> (\<exists>t. pageTable s = Some t \<and> uint (pageTableSize s) \<le> int (length t)))
     \<or> (\<exists>t. tlb s = Some t \<and> pageTable s = None \<and> length t = TLBSize)"
  by (auto simp: mmu_wf_def split: option.splits)

lemma at_switch_back: "at R s \<Longrightarrow> at R (switch_back s s')"
  by (simp add: at_def switch_back_def mmu_wf_alt)

text \<open>The loops that copy the registers out and in never fail, and they leave in the machine what \<open>switch_back\<close> has there.\<close>

lemma user_save_loop_ok:
  assumes "length regs = NumTotalRegs" and "n \<le> NumTotalRegs"
  obtains r where "user_save_loop n m regs = Inr r" and "length r = NumTotalRegs" and "\<forall>i<n. r ! i = registers m i"
proof -
  have "\<exists>r. user_save_loop n m regs = Inr r \<and> length r = NumTotalRegs \<and> (\<forall>i<n. r ! i = registers m i)"
    using assms(2)
  proof (induction n)
    case 0
    then show ?case using assms(1) by simp
  next
    case (Suc n)
    then obtain r where "user_save_loop n m regs = Inr r" "length r = NumTotalRegs" "\<forall>i<n. r ! i = registers m i"
      by auto
    then show ?case
      using Suc.prems by (auto simp: Machine_ReadRegister_def ASSERT_def rbind_def arr_set_def nth_list_update less_Suc_eq)
  qed
  then show ?thesis using that by blast
qed

lemma user_restore_loop_ok:
  assumes "length regs = NumTotalRegs" and "n \<le> NumTotalRegs"
  shows "user_restore_loop n regs m = Inr (m\<lparr>registers := (\<lambda>i. if i < n then regs ! i else registers m i)\<rparr>)"
  using assms(2)
proof (induction n)
  case 0
  then show ?case by simp
next
  case (Suc n)
  then show ?case
    using assms(1) by (auto simp: Machine_WriteRegister_def ASSERT_def rbind_def arr_get_def set_reg_def fun_eq_iff less_Suc_eq)
qed

lemma switch_back_copies:
  assumes "length old = NumTotalRegs"
  obtains regs s1 where "user_save_loop NumTotalRegs s old = Inr regs" and "user_restore_loop NumTotalRegs regs s' = Inr s1"
    and "\<forall>i<NumTotalRegs. registers s1 i = registers (switch_back s s') i"
    and "switch_back s s' = s1\<lparr>registers := registers s, tlb := tlb s, pageTable := pageTable s,
           pageTableSize := pageTableSize s, cur := cur s\<rparr>"
proof -
  obtain regs where "user_save_loop NumTotalRegs s old = Inr regs" "length regs = NumTotalRegs"
      "\<forall>i<NumTotalRegs. regs ! i = registers s i"
    using user_save_loop_ok [OF assms order_refl] by metis
  then show ?thesis
    by (intro that [OF _ user_restore_loop_ok]) (simp_all add: switch_back_def)
qed

lemma at_system [simp]:
  "at R (s\<lparr>host := x1\<rparr>) = at R s" "at R (s\<lparr>ftable := x2\<rparr>) = at R s" "at R (s\<lparr>psize := x3\<rparr>) = at R s" "at R (s\<lparr>pbm := x4\<rparr>) = at R s"
  "at R (s\<lparr>pcb := x5\<rparr>) = at R s" "at R (s\<lparr>pcbs := x6\<rparr>) = at R s" "at R (s\<lparr>sbm := x7\<rparr>) = at R s" "at R (s\<lparr>semTab := x8\<rparr>) = at R s"
  "at R (s\<lparr>semv := x9\<rparr>) = at R s" "at R (s\<lparr>next_addr := x10\<rparr>) = at R s" "at R (s\<lparr>tnames := x11\<rparr>) = at R s" "at R (s\<lparr>spawned := x12\<rparr>) = at R s"
  by (simp_all add: at_def mmu_wf_alt)

lemma at_consoles [simp]:
  "at R (s\<lparr>lockHolder := x1\<rparr>) = at R s" "at R (s\<lparr>incoming := x2\<rparr>) = at R s" "at R (s\<lparr>reads_due := x3\<rparr>) = at R s"
  "at R (s\<lparr>putBusy := x4\<rparr>) = at R s" "at R (s\<lparr>writes_due := x5\<rparr>) = at R s"
  by (simp_all add: at_def mmu_wf_alt)

lemma at_objects [simp]:
  "at R (set_semv a v s) = at R s" "at R (upd_pcb a f s) = at R s" "at R (snd (new_sem v s)) = at R s" "at R (snd (new_pcb i file t s)) = at R s"
  by (simp_all add: set_semv_def upd_pcb_def new_sem_def new_pcb_def Let_def)

lemma yields_sem [yields_intros]:
  assumes "at R s" and "\<And>s'. at R s' \<Longrightarrow> yields (at R) P (k s')"
  shows "yields (at R) P (sem_P a k s)" "yields (at R) P (sem_V a k s)"
  using assms by (simp_all add: sem_P_def sem_V_def)

section \<open>Processes and semaphores\<close>

lemma yields_leave [yields_intros]:
  "at R s \<Longrightarrow> (\<And>r s'. at R s' \<Longrightarrow> yields (at R) P (k r s')) \<Longrightarrow> yields (at R) P (leave k r s)"
  unfolding leave_def by (intro yields_intros)

lemma yields_ExecUpdate [yields_intros]:
  assumes "at R s" and k: "\<And>r s'. at R s' \<Longrightarrow> yields (at R) P (k r s')"
  shows "yields (at R) P (PTable_ExecUpdate u name k s)"
proof -
  have done_: "yields (at R) P (exec_done k i r s')" if "at R s'" for i r s'
    unfolding exec_done_def using that k by (auto intro!: yields_intros)
  have exec: "yields (at R) P (PCB_Exec a name i (exec_done k i) s')" if "at R s'" for a i s'
    unfolding PCB_Exec_def Let_def by (intro yields_sem that) (auto intro!: yields_intros done_)
  have "yields (at R) P (exec_locked u name k s')" if "at R s'" for s'
    unfolding exec_locked_def Let_def using that k
    by (auto intro!: yields_intros exec split: option.split simp: new_pcb_def Let_def new_sem_def)
  then show ?thesis
    unfolding PTable_ExecUpdate_def by (intro yields_sem assms(1))
qed

lemmas pcb_waits = PCB_IncNumWait_def PCB_DecNumWait_def PCB_JoinWait_def PCB_ExitWait_def PCB_JoinRelease_def PCB_ExitRelease_def

lemma yields_JoinUpdate [yields_intros]:
  assumes "at R s" and k: "\<And>r s'. at R s' \<Longrightarrow> yields (at R) P (k r s')"
  shows "yields (at R) P (PTable_JoinUpdate pid k s)"
  unfolding PTable_JoinUpdate_def join_wait_def join_joined_def join_release_def join_result_def pcb_waits
  using assms by (auto intro!: yields_intros)

lemma yields_ExitUpdate [yields_intros]:
  assumes "at R s" and k: "\<And>r s'. at R s' \<Longrightarrow> yields (at R) P (k r s')"
  shows "yields (at R) P (PTable_ExitUpdate code k s)"
  unfolding PTable_ExitUpdate_def exit_wait_def exit_remove_def PTable_Remove_def pcb_waits Let_def
  using assms by (auto intro!: yields_intros split: option.split)

lemma yields_STable [yields_intros]:
  assumes "at R s" and k: "\<And>r s'. at R s' \<Longrightarrow> yields (at R) P (k r s')"
  shows "yields (at R) P (STable_Wait name k s)" "yields (at R) P (STable_Signal name k s)"
  unfolding STable_Wait_def STable_Signal_def using assms by (auto intro!: yields_intros split: option.split)

section \<open>Consoles\<close>

lemma yields_lock [yields_intros]:
  assumes "at R s" and "\<And>s'. at R s' \<Longrightarrow> yields (at R) P (k s')"
  shows "yields (at R) P (Acquire l k s)" "yields (at R) P (Release l k s)"
  unfolding Acquire_def Release_def using assms by (auto intro!: yields_intros)

lemma yields_GetChar [yields_intros]:
  assumes "at R s" and k: "\<And>ch s'. at R s' \<Longrightarrow> yields (at R) P (k ch s')"
  shows "yields (at R) P (SynchConsoleInput_GetChar k s)"
  unfolding SynchConsoleInput_GetChar_def ConsoleInput_GetChar_def Let_def using assms by (auto intro!: yields_intros)

lemma PutChar_at: "ConsoleOutput_PutChar u ch s = Inr s' \<Longrightarrow> at R s \<Longrightarrow> at R s'"
  by (auto simp: ConsoleOutput_PutChar_def rbind_eq_Inr_iff)

lemma yields_PutChar [yields_intros]:
  assumes "at R s" and k: "\<And>s'. at R s' \<Longrightarrow> yields (at R) P (k s')"
  shows "yields (at R) P (SynchConsoleOutput_PutChar u ch k s)"
  unfolding SynchConsoleOutput_PutChar_def using assms by (auto intro!: yields_intros dest: PutChar_at)

section \<open>User memory\<close>

text \<open>With the kernel's handler a memory access succeeds or does not come back.\<close>

lemma RaiseException_fault: "ex \<noteq> NoException \<Longrightarrow> \<exists>f. Machine_RaiseException fault_handler ex a m = Inl f"
  by (cases "Machine_DelayedLoad 0 0 (set_reg 39 a m)"; cases ex) (simp_all add: Machine_RaiseException_def fault_handler_def)

lemma ReadMem_fault_cases:
  assumes "mmu_wf s" and "Machine_ReadMem fault_handler s a 1 = Inr (v, s1)"
  obtains i e pa where "translated s a 1 False i e pa" "v = Some (load_value 1 (mainMemory s) (unat pa))" "s1 = update_entry i (touch False e) s"
proof (cases rule: ReadMem_cases [OF assms(1), of 1 fault_handler a])
  case (2 ex)
  then show ?thesis using assms(2) RaiseException_fault [OF 2(1), of a s] by auto
qed (use that assms(2) in auto)

lemma WriteMem_fault_cases:
  assumes "mmu_wf s" and "Machine_WriteMem fault_handler s a 1 c = Inr (ok, s1)"
  obtains i e pa where "ok" "translated s a 1 True i e pa"
    "s1 = (update_entry i (touch True e) s)\<lparr>mainMemory := store_value 1 (mainMemory s) (unat pa) c\<rparr>"
proof (cases rule: WriteMem_cases [OF assms(1), of 1 fault_handler a c])
  case (2 ex)
  then show ?thesis using assms(2) RaiseException_fault [OF 2(1), of a s] by auto
qed (use that assms(2) in auto)

lemma at_read: "Machine_ReadMem fault_handler s a 1 = Inr (v, s1) \<Longrightarrow> at R s \<Longrightarrow> at R s1 \<and> machine.more s1 = machine.more s"
  by (erule ReadMem_fault_cases [rotated]) (auto simp: at_def)

lemma at_store: "Machine_WriteMem fault_handler s a 1 c = Inr (ok, s1) \<Longrightarrow> at R s \<Longrightarrow> at R s1 \<and> machine.more s1 = machine.more s"
  by (erule WriteMem_fault_cases [rotated]) (auto simp: at_def)

lemma at_u2s_loop: "u2s_loop n va buf i s = Inr (buf', s') \<Longrightarrow> at R s \<Longrightarrow> at R s' \<and> length buf' = length buf"
proof (induction n arbitrary: buf i s)
  case (Suc n)
  from Suc.prems(1) obtain v s1 buf1 where v: "Machine_ReadMem fault_handler s (va + of_nat i) 1 = Inr (Some v, s1)"
      "arr_set buf (int i) (ucast v) = Inr buf1" "(if v = 0 then Inr (buf1, s1) else u2s_loop n va buf1 (Suc i) s1) = Inr (buf', s')"
    by (auto simp: rbind_eq_Inr_iff split: option.splits)
  have "at R s1" "length buf1 = length buf"
    using at_read [OF v(1) Suc.prems(2)] v(2) by (auto simp: arr_set_Inr_iff)
  then show ?case
    using Suc.IH [of buf1 "Suc i" s1] v(3) by (auto split: if_splits)
qed auto

lemma at_s2u_loop: "s2u_loop n va buf i s = Inr (r, s') \<Longrightarrow> at R s \<Longrightarrow> at R s'"
proof (induction n arbitrary: i s)
  case (Suc n)
  from Suc.prems(1) obtain c :: byte and ok s1 where v: "Machine_WriteMem fault_handler s (va + of_nat i) 1 (scast c) = Inr (ok, s1)"
      "(if c = 0 then Inr (int (Suc i), s1) else s2u_loop n va buf (Suc i) s1) = Inr (r, s')"
    by (auto simp: rbind_eq_Inr_iff)
  have "at R s1"
    using at_store [OF v(1) Suc.prems(2)] by simp
  then show ?case
    using Suc.IH [of "Suc i" s1] v(2) by (auto split: if_splits)
qed auto

lemma u2s_loop_more: "u2s_loop n va buf i s = Inr (buf', s') \<Longrightarrow> mmu_wf s \<Longrightarrow> machine.more s' = machine.more s"
proof (induction n arbitrary: buf i s)
  case (Suc n)
  from Suc.prems(1) obtain v s1 buf1 where v: "Machine_ReadMem fault_handler s (va + of_nat i) 1 = Inr (v, s1)"
      "u2s_loop n va buf1 (Suc i) s1 = Inr (buf', s') \<or> s1 = s'"
    by (auto simp: rbind_eq_Inr_iff split: option.splits if_splits)
  have "mmu_wf s1 \<and> machine.more s1 = machine.more s"
    using at_read [OF v(1), of "registers s"] Suc.prems(2) by (simp add: at_def)
  then show ?case
    using Suc.IH [of buf1 "Suc i" s1] v(2) by auto
qed auto

lemma User2System_ftable:
  assumes "User2System va limit (s :: ('h, 'a) system_scheme) = Inr (buf, s')" and "mmu_wf s"
  shows "ftable s' = ftable s"
proof -
  have "machine.more s' = machine.more s"
    using assms u2s_loop_more by (auto simp: User2System_def split: if_splits)
  then show ?thesis
    by (cases s; cases s') simp
qed

lemma at_User2System: "User2System va limit s = Inr (buf, s') \<Longrightarrow> at R s \<Longrightarrow> at R s'"
  by (auto simp: User2System_def dest: at_u2s_loop split: if_splits)

lemma at_System2User: "System2User va len buf s = Inr (r, s') \<Longrightarrow> at R s \<Longrightarrow> at R s'"
  by (auto simp: System2User_def dest: at_s2u_loop split: if_splits)

section \<open>System calls\<close>

text \<open>\<open>stays R r\<close>: if \<open>r\<close> is not a fault, its state has the registers \<open>R\<close>.\<close>

definition stays :: "(nat \<Rightarrow> 32 word) \<Rightarrow> ('b \<times> 'a machine_scheme) result \<Rightarrow> bool" where
  "stays R r \<longleftrightarrow> (\<forall>x s. r = Inr (x, s) \<longrightarrow> at R s)"

lemma stays_simps [simp]: "stays R (Inr (x, s)) = at R s" "stays R (Inl f)"
  by (auto simp: stays_def)

lemma stays_rbind: "(\<And>x. r = Inr x \<Longrightarrow> stays R (f x)) \<Longrightarrow> stays R (rbind r f)"
  by (cases r) simp_all

lemma stays_copies:
  "at R s \<Longrightarrow> (\<And>buf s'. at R s' \<Longrightarrow> stays R (f (buf, s'))) \<Longrightarrow> stays R (rbind (User2System va n s) f)"
  "at R s \<Longrightarrow> (\<And>r s'. at R s' \<Longrightarrow> stays R (g (r, s'))) \<Longrightarrow> stays R (rbind (System2User va n buf s) g)"
  by (auto intro!: stays_rbind dest!: at_User2System)
    (auto intro!: stays_rbind dest!: at_System2User)

lemma stays_STable_Create: "at R s \<Longrightarrow> stays R (STable_Create name v s)"
  unfolding STable_Create_def Let_def new_sem_def by (auto intro!: stays_rbind split: prod.splits)

lemma stays_sem:
  "at R s \<Longrightarrow> (\<And>r s'. at R s' \<Longrightarrow> stays R (f (r, s'))) \<Longrightarrow> stays R (rbind (STable_Create name v s) f)"
  using stays_STable_Create [of R s name v] by (auto intro!: stays_rbind simp: stays_def)

lemma stays_Create: "at R s \<Longrightarrow> stays R (SysCreate u va s)"
  unfolding SysCreate_def by (erule stays_copies(1)) (auto intro!: stays_rbind)

lemma stays_Remove: "at R s \<Longrightarrow> stays R (SysRemove u va s)"
  unfolding SysRemove_def by (erule stays_copies(1)) (auto intro!: stays_rbind split: prod.splits)

lemma stays_Open: "at R s \<Longrightarrow> stays R (SysOpen u va type s)"
proof (cases "type \<noteq> 0 \<and> type \<noteq> 1")
  case False
  assume "at R s"
  then show ?thesis
    unfolding SysOpen_def if_not_P [OF False] by (rule stays_copies(1)) (auto intro!: stays_rbind)
qed (simp add: SysOpen_def)

lemma stays_Connect: "at R s \<Longrightarrow> stays R (SysConnect u fid va port s)"
  unfolding SysConnect_def by (erule stays_copies(1)) (auto split: prod.splits)

lemma stays_Send: "at R s \<Longrightarrow> stays R (SysSend u fid va len s)"
  unfolding SysSend_def by (erule stays_copies(1)) (auto split: prod.splits)

lemma stays_Receive: "at R s \<Longrightarrow> stays R (SysReceive u fid va len s)"
  unfolding SysReceive_def by (erule stays_copies(1)) (auto intro!: stays_copies(2) split: prod.splits)

lemma stays_CreateSemaphore: "at R s \<Longrightarrow> stays R (SysCreateSemaphore va v s)"
  unfolding SysCreateSemaphore_def by (erule stays_copies(1)) (auto intro!: stays_sem)

lemma stays_others:
  assumes "at R s"
  shows "stays R (SysSeek u pos fid s)" "stays R (SysClose u fid s)" "stays R (SysSocketTCP u s)" "stays R (SysCloseSocket u fid s)"
  by (auto simp: SysSeek_def SysClose_def SysSocketTCP_def SysCloseSocket_def Let_def assms intro!: stays_rbind split: prod.splits)

lemmas stays_Sys = stays_Create stays_Remove stays_Open stays_Connect stays_Send stays_Receive stays_CreateSemaphore stays_others

lemma yields_read_console [yields_intros]:
  assumes "at R s" and k: "\<And>r b s'. at R s' \<Longrightarrow> yields (at R) P (k r b s')"
  shows "yields (at R) P (read_console n buf i k s)"
  using assms(1) by (induction n arbitrary: buf i s) (auto intro!: yields_intros k)

lemma yields_write_console [yields_intros]:
  assumes "at R s" and k: "\<And>r b s'. at R s' \<Longrightarrow> yields (at R) P (k r b s')"
  shows "yields (at R) P (write_console u n buf i k s)"
  using assms(1) by (induction n arbitrary: i s) (auto intro!: yields_intros k)

lemma yields_files [yields_intros]:
  assumes "at R s" and k: "\<And>r b s'. at R s' \<Longrightarrow> yields (at R) P (k r b s')"
  shows "yields (at R) P (read_from_file u sz fid buf k s)" "yields (at R) P (write_to_file u sz fid buf k s)"
  unfolding read_from_file_def write_to_file_def using assms by (auto intro!: yields_intros)

lemma yields_copy_back [yields_intros]:
  assumes "at R s" and k: "\<And>r s'. at R s' \<Longrightarrow> yields (at R) P (k r s')"
  shows "yields (at R) P (copy_back va sz k r buf s)"
  unfolding copy_back_def using assms by (auto intro!: yields_intros dest: at_System2User)

lemma yields_Sys [yields_intros]:
  assumes "at R s" and k: "\<And>r s'. at R s' \<Longrightarrow> yields (at R) P (k r s')"
  shows "yields (at R) P (SysRead u va sz fid k s)" "yields (at R) P (SysWrite u va sz fid k s)" "yields (at R) P (SysExec u va k s)"
    "yields (at R) P (SysJoin pid k s)" "yields (at R) P (SysExit code k s)" "yields (at R) P (SysWait va k s)" "yields (at R) P (SysSignal va k s)"
  unfolding SysRead_def SysWrite_def SysExec_def SysJoin_def SysExit_def SysWait_def SysSignal_def
  using assms by (auto intro!: yields_intros dest!: at_User2System)

section \<open>The handler\<close>

definition after_call :: "(nat \<Rightarrow> 32 word) \<Rightarrow> int \<Rightarrow> nat \<Rightarrow> 32 word" where
  "after_call R result = R(2 := word_of_int result, PrevPCReg := R PCReg, PCReg := R NextPCReg, NextPCReg := R NextPCReg + 4)"

lemma yields_return [yields_intros]: "at R s \<Longrightarrow> yields (at R) (\<lambda>s. \<exists>r. at (after_call R r) s) (return_to_user r s)"
  by (auto simp: return_to_user_def IncreasePC_def Let_def at_def after_call_def fun_eq_iff intro!: exI [of _ r])

lemma yields_reply: "stays R x \<Longrightarrow> yields (at R) (\<lambda>s. \<exists>r. at (after_call R r) s) (reply x)"
  by (auto simp: reply_def stays_def intro!: yields_intros)

definition implemented :: "int \<Rightarrow> bool" where
  "implemented code \<longleftrightarrow> code \<in> {0..10} \<union> {16..23}"

lemma syscall_implemented: "(syscall u code s = None) = (\<not> implemented code)"
  unfolding syscall_def process_call_def Let_def implemented_def by (simp, presburger)

lemma yields_syscall:
  assumes "at R s" and "syscall u code s = Some r"
  shows "yields (at R) (\<lambda>s. \<exists>r. at (after_call R r) s) r"
proof -
  note y = yields_reply [OF stays_Create [OF assms(1)]] yields_reply [OF stays_Remove [OF assms(1)]] yields_reply [OF stays_Open [OF assms(1)]]
    yields_reply [OF stays_Connect [OF assms(1)]] yields_reply [OF stays_Send [OF assms(1)]] yields_reply [OF stays_Receive [OF assms(1)]]
    yields_reply [OF stays_CreateSemaphore [OF assms(1)]] stays_others [OF assms(1), THEN yields_reply]
  have z: "yields (at R) (\<lambda>s. \<exists>r. at (after_call R r) s) (SysExit 0 (\<lambda>_ _. Fault AssertFail) s)"
    by (intro yields_Sys assms(1)) simp
  show ?thesis
    using assms(2) unfolding syscall_def process_call_def Let_def
    by (auto split: if_splits intro!: y z yields_Sys assms(1) yields_return)
qed

lemma handler_at:
  assumes "at R s" and "kernel_handler u n env ex s = Inr s'"
  shows "at R s' \<or> (\<exists>r. at (after_call R r) s')"
proof -
  note d = drive_yields [where I = "at R" and n = n and env = env and s = s', OF _ at_switch_back]
  consider (returns) "ExceptionHandler u ex s = Ret 0 s" | (stops) "ExceptionHandler u ex s = Fault Shutdown"
    | (call) r where "syscall u (sint (registers s 2)) s = Some r" "ExceptionHandler u ex s = r"
    by (cases ex; cases "syscall u (sint (registers s 2)) s") (simp_all add: ExceptionHandler_def)
  then show ?thesis
  proof cases
    case call
    then show ?thesis
      using d [OF yields_syscall [OF assms(1) call(1)]] assms(2) by (simp add: kernel_handler_def)
  qed (use assms in \<open>simp_all add: kernel_handler_def\<close>)
qed

text \<open>The kernel's handler keeps the contract that the simulation of an instruction relies on.\<close>

interpretation kh: exception_handler "kernel_handler u n env" for u n env
proof unfold_locales
  fix m m' :: "('a, 'b) consoles_scheme" and ex
  assume m: "machine_inv m" and r: "kernel_handler u n env ex m = Inr m'"
  have "at (registers m) m"
    using m by (simp add: machine_inv_def running_def at_def)
  from handler_at [OF this r] show "machine_inv m'"
    using m by (auto simp: machine_inv_def running_def at_def after_call_def)
qed

section \<open>Strings in user memory\<close>

text \<open>\<open>reaches s w va p\<close>: the byte at virtual address \<open>va\<close> is at \<open>p\<close> in main memory, and can be written when \<open>w\<close>.\<close>

definition reaches :: "'a machine_scheme \<Rightarrow> bool \<Rightarrow> 32 word \<Rightarrow> nat \<Rightarrow> bool" where
  "reaches s w va p \<longleftrightarrow> (\<exists>i e pa. translated s va 1 w i e pa \<and> p = unat pa)"

lemma reaches_touch:
  assumes "mmu_wf s" and "translated s va 1 w i e pa"
  shows "reaches (update_entry i (touch w e) s) w' va' p = reaches s w' va' p"
proof -
  have "maps s (va div 128) i e"
    using assms(2) by (simp add: translated_def)
  note l = lookup_entry_touch [OF assms(1) this, of w "va' div 128"]
  show ?thesis
  proof (cases "\<exists>j e'. lookup_entry s (va' div 128) = Inr (Inr (j, e'))")
    case True
    then obtain j e' where "lookup_entry s (va' div 128) = Inr (Inr (j, e'))"
      by blast
    then show ?thesis
      using l by (auto simp: reaches_def translated_def maps_def)
  next
    case False
    then have "lookup_entry (update_entry i (touch w e) s) (va' div 128) = lookup_entry s (va' div 128)"
      using l by (auto split: sum.splits prod.splits)
    then show ?thesis
      by (simp add: reaches_def translated_def maps_def)
  qed
qed

lemma reaches_mainMemory [simp]: "reaches (s\<lparr>mainMemory := x\<rparr>) = reaches s"
  by (simp add: fun_eq_iff reaches_def)

lemma reaches_readable: "reaches s True va p \<Longrightarrow> reaches s False va p"
  by (auto simp: reaches_def translated_def)

lemma scast_byte [simp]: "(ucast (scast c :: 32 word) :: 8 word) = c" "((scast (c :: 8 word) :: 32 word) = 0) = (c = 0)"
proof -
  show u: "(ucast (scast c :: 32 word) :: 8 word) = c" for c :: "8 word"
    by (rule bit_word_eqI) (simp add: bit_simps)
  show "((scast (c :: 8 word) :: 32 word) = 0) = (c = 0)"
  proof
    assume "(scast c :: 32 word) = 0"
    then show "c = 0" using u [of c] by simp
  qed simp
qed

lemma read_reaches:
  assumes "mmu_wf s" and "reaches s False va p"
  shows "\<exists>s'. Machine_ReadMem eh s va 1 = Inr (Some (scast (mainMemory s p)), s') \<and> mmu_wf s' \<and> reaches s' = reaches s \<and> mainMemory s' = mainMemory s"
proof -
  obtain i e pa where t: "translated s va 1 False i e pa" "p = unat pa"
    using assms(2) by (auto simp: reaches_def)
  have "reaches (update_entry i (touch False e) s) = reaches s"
    using reaches_touch [OF assms(1) t(1)] by (simp add: fun_eq_iff)
  then show ?thesis
    using ReadMem_translated [OF assms(1) _ t(1), of eh] assms(1) t(2) by (simp add: load_value_def)
qed

lemma store_reaches:
  assumes "mmu_wf s" and "reaches s True va p"
  shows "\<exists>s'. Machine_WriteMem eh s va 1 (scast (c :: byte)) = Inr (True, s') \<and> mmu_wf s' \<and> reaches s' = reaches s \<and> mainMemory s' = (mainMemory s)(p := c)"
proof -
  obtain i e pa where t: "translated s va 1 True i e pa" "p = unat pa"
    using assms(2) by (auto simp: reaches_def)
  have "reaches (update_entry i (touch True e) s) = reaches s"
    using reaches_touch [OF assms(1) t(1)] by (simp add: fun_eq_iff)
  then show ?thesis
    using WriteMem_translated [OF assms(1) _ t(1), of eh "scast c"] assms(1) t(2) by (simp add: store_value_def)
qed

text \<open>Storing \<open>str\<close> and its terminating zero, from index \<open>i\<close> on.\<close>

lemma s2u_string:
  assumes "mmu_wf s" and "\<forall>j \<le> length str. reaches s True (va + of_nat j) (p j)" and "inj_on p {..length str}" and "0 \<notin> set str"
    and "i \<le> length str" and "length str < i + n"
  shows "\<exists>s'. s2u_loop n va (str @ [0]) i s = Inr (int (length str) + 1, s') \<and> mmu_wf s' \<and> reaches s' = reaches s
    \<and> (\<forall>j \<le> length str. mainMemory s' (p j) = (if i \<le> j then (str @ [0]) ! j else mainMemory s (p j)))"
  using assms(1,2,5,6)
proof (induction n arbitrary: i s)
  case (Suc n)
  let ?c = "(str @ [0]) ! i"
  obtain s1 where s1: "Machine_WriteMem fault_handler s (va + of_nat i) 1 (scast ?c) = Inr (True, s1)" "mmu_wf s1" "reaches s1 = reaches s"
      "mainMemory s1 = (mainMemory s)(p i := ?c)"
    using store_reaches [OF Suc.prems(1), of "va + of_nat i" "p i" fault_handler ?c] Suc.prems(2,3) by blast
  have z: "?c = 0 \<longleftrightarrow> i = length str"
    using assms(4) Suc.prems(3) by (auto simp: nth_append in_set_conv_nth)
  have eq: "p j = p i \<longleftrightarrow> j = i" if "j \<le> length str" for j
    using assms(3) that Suc.prems(3) by (auto simp: inj_on_def)
  show ?case
  proof (cases "i = length str")
    case True
    then show ?thesis using s1 z eq by (auto simp: arr_get_def)
  next
    case False
    then have i: "Suc i \<le> length str"
      using Suc.prems(3) by simp
    obtain s' where s': "s2u_loop n va (str @ [0]) (Suc i) s1 = Inr (int (length str) + 1, s')" "mmu_wf s'" "reaches s' = reaches s1"
        "\<forall>j \<le> length str. mainMemory s' (p j) = (if Suc i \<le> j then (str @ [0]) ! j else mainMemory s1 (p j))"
      using Suc.IH [OF s1(2) _ i] Suc.prems(2,4) s1(3) by auto
    have "mainMemory s' (p j) = (if i \<le> j then (str @ [0]) ! j else mainMemory s (p j))" if "j \<le> length str" for j
      using s'(4) that s1(4) eq [OF that] by (cases "j = i") auto
    then show ?thesis
      using s' s1 z False Suc.prems(3) by (simp add: arr_get_def)
  qed
qed simp

lemma c_str_zero: "0 \<notin> set str \<Longrightarrow> c_str (str @ 0 # xs) = str"
  by (induction str) (simp_all add: c_str_def)

text \<open>Loading a string that ends before the limit.\<close>

lemma u2s_string:
  assumes "mmu_wf s" and "\<forall>j \<le> length str. reaches s False (va + of_nat j) (p j) \<and> mainMemory s (p j) = (str @ [0]) ! j" and "0 \<notin> set str"
    and "i \<le> length str" and "length str < i + n" and "i + n \<le> length buf" and "take i buf = take i str"
  shows "\<exists>buf' s'. u2s_loop n va buf i s = Inr (buf', s') \<and> c_str buf' = str \<and> mainMemory s' = mainMemory s"
  using assms(1,2,4-7)
proof (induction n arbitrary: i s buf)
  case (Suc n)
  let ?c = "(str @ [0]) ! i"
  obtain s1 where s1: "Machine_ReadMem fault_handler s (va + of_nat i) 1 = Inr (Some (scast ?c), s1)" "mmu_wf s1" "reaches s1 = reaches s"
      "mainMemory s1 = mainMemory s"
    using read_reaches [OF Suc.prems(1), of "va + of_nat i" "p i" fault_handler] Suc.prems(2,3) by auto
  have z: "?c = 0 \<longleftrightarrow> i = length str"
    using assms(3) Suc.prems(3) by (auto simp: nth_append in_set_conv_nth)
  have c: "(scast ?c :: 32 word) = 0 \<longleftrightarrow> ?c = 0" "ucast (scast ?c :: 32 word) = ?c"
    by simp_all
  have b: "arr_set buf (int i) ?c = Inr (buf[i := ?c])"
    using Suc.prems(5) by simp
  show ?case
  proof (cases "i = length str")
    case True
    have "buf[i := 0] = str @ 0 # drop (Suc i) buf"
      using True Suc.prems(5,6) by (simp add: upd_conv_take_nth_drop)
    then have "c_str (buf[i := 0]) = str"
      using c_str_zero [OF assms(3)] by simp
    then show ?thesis using s1 z c b True by simp
  next
    case False
    then have i: "Suc i \<le> length str" "?c = str ! i"
      using Suc.prems(3) by (simp_all add: nth_append)
    have t: "take (Suc i) (buf[i := ?c]) = take (Suc i) str"
      using Suc.prems(5,6) i by (simp add: take_Suc_conv_app_nth)
    obtain buf' s' where "u2s_loop n va (buf[i := ?c]) (Suc i) s1 = Inr (buf', s')" "c_str buf' = str" "mainMemory s' = mainMemory s1"
      using Suc.IH [OF s1(2) _ i(1) _ _ t] Suc.prems(2,4,5) s1(3,4) by auto
    then show ?thesis
      using s1 z c b False by simp
  qed
qed simp

section \<open>Properties\<close>

text \<open>A kernel with one writable page in frame 5 and one read-only page in frame 3, on the host of \<open>toy_unix\<close>, in a program that calls
  with the code and the arguments given.\<close>

definition sample_kernel :: "32 word \<Rightarrow> 32 word \<Rightarrow> 32 word \<Rightarrow> 32 word \<Rightarrow> int list consoles" where
  "sample_kernel code a1 a2 a3 = \<lparr>registers = (\<lambda>_. 0)(2 := code, 4 := a1, 5 := a2, 6 := a3, 34 := 100, 35 := 104), mainMemory = (\<lambda>_. 0),
     tlb = None, pageTable = pageTable sample_machine, pageTableSize = 2, singleStep = False, runUntilTime = 0, status = SystemMode,
     host = [0, 1, 2], ftable = Table_new, psize = 1, pbm = \<lparr>numBits = 10, numWords = 1, bm_map = [1]\<rparr>, pcb = Some 13 # replicate 9 None,
     bmsem = 9, pcbs = (\<lambda>_. \<lparr>joinsem = 10, exitsem = 11, mutex = 12, exitcode = 0, numwait = 0, pcb_thread = Some 20,
       pcb_file = Some main_name, pcb_pid = 0, parentID = - 1\<rparr>),
     sbm = \<lparr>numBits = 10, numWords = 1, bm_map = [0]\<rparr>, semTab = replicate 10 None, semv = (\<lambda>a. if a = 9 \<or> a = 12 \<or> a = 21 \<or> a = 23 then 1 else 0),
     next_addr = 30, cur = 20, tnames = (\<lambda>_. main_name), spawned = [],
     readFileNo = 0, incoming = EOF, reads_due = 1, in_lock = 21, in_wait = 22, writeFileNo = 1, putBusy = False, writes_due = 0,
     out_lock = 23, out_wait = 24, lockHolder = (\<lambda>_. None)\<rparr>"

lemma sample_kernel_registers [simp]:
  "registers (sample_kernel code a1 a2 a3) = (\<lambda>_. 0)(2 := code, 4 := a1, 5 := a2, 6 := a3, 34 := 100, 35 := 104)"
  by (simp add: sample_kernel_def)

lemma sample_kernel_wf: "mmu_wf (sample_kernel code a1 a2 a3)" "machine_inv (sample_kernel code a1 a2 a3)"
proof -
  show "mmu_wf (sample_kernel code a1 a2 a3)"
    by (simp add: mmu_wf_def sample_kernel_def sample_machine_def)
  then show "machine_inv (sample_kernel code a1 a2 a3)"
    by (simp add: machine_inv_def running_def sample_kernel_def)
qed

text \<open>C10: the calling convention. Whatever other threads do while the kernel waits, when a system call returns to the program then
  register 2 holds the result, the program goes on with the next instruction, and all other registers are as they were; a code without
  a case in the kernel leaves the whole state as it was, the program counter too, so the program makes the same call again.\<close>

theorem syscall_convention:
  assumes "mmu_wf s" and "kernel_handler u n env SyscallException s = Inr s'"
  shows "if implemented (sint (registers s 2))
    then mmu_wf s' \<and> (\<exists>r. registers s' = (registers s)(2 := word_of_int r, PrevPCReg := registers s PCReg, PCReg := registers s NextPCReg,
      NextPCReg := registers s NextPCReg + 4))
    else s' = s"
proof (cases "syscall u (sint (registers s 2)) s")
  case None
  then have "s' = s"
    using assms(2) by (simp add: kernel_handler_def ExceptionHandler_def)
  then show ?thesis
    using None syscall_implemented [of u "sint (registers s 2)" s] by simp
next
  case (Some r)
  have a: "at (registers s) s"
    using assms(1) by (simp add: at_def)
  have "drive n env r = Inr s'"
    using Some assms(2) by (simp add: kernel_handler_def ExceptionHandler_def)
  then have "\<exists>x. at (after_call (registers s) x) s'"
    using drive_yields [OF yields_syscall [OF a Some], OF at_switch_back] by blast
  then show ?thesis
    using Some syscall_implemented [of u "sint (registers s 2)" s] by (auto simp: at_def after_call_def)
qed

theorem syscall_convention_witness:
  "\<exists>s'. kernel_handler toy_unix 5 (\<lambda>_ s. s) SyscallException (sample_kernel 9 0 (- 1) 0) = Inr s' \<and> registers s' 34 = 104"
proof -
  let ?s = "sample_kernel 9 0 (- 1) 0"
  have "syscall toy_unix 9 ?s = Some (return_to_user (- 1) ?s)"
    by (simp add: syscall_def SysSeek_def reply_def ok_or_def)
  then obtain s' where s': "kernel_handler toy_unix 5 (\<lambda>_ s. s) SyscallException ?s = Inr s'"
    by (simp add: kernel_handler_def ExceptionHandler_def return_to_user_def)
  then show ?thesis
    using syscall_convention [OF sample_kernel_wf(1) s'] by (auto simp: implemented_def)
qed

text \<open>C9: a user program cannot break the simulator. With this kernel, from a state with the machine's invariant, one instruction
  ends in one of three ways: the instruction fetched is the signed division of the smallest integer by -1, and the host traps; or it ends
  in a state with the invariant; or it raises one exception \<open>ex\<close>, determined by the instruction and the state alone (\<open>raises\<close>: every
  handler is given it), and the simulation stops with the fault of the kernel's handler for this exception in this state. The simulator
  itself never fails: no assertion, no access outside its tables, the registers or main memory.\<close>

theorem user_instruction_safe:
  assumes "machine_inv m"
  shows "(div_overflows m \<and> Machine_OneInstruction (kernel_handler u n env) m = Inl HostTrap)
    \<or> (\<exists>m'. Machine_OneInstruction (kernel_handler u n env) m = Inr m' \<and> machine_inv m')
    \<or> (\<exists>ex m0 f. ex \<noteq> NoException \<and> raises m ex m0 \<and> machine_inv m0 \<and> status m0 = SystemMode
         \<and> kernel_handler u n env ex m0 = Inl f \<and> Machine_OneInstruction (kernel_handler u n env) m = Inl f)"
  by (rule kh.OneInstruction_safe [OF assms])

text \<open>The word 0 is \<^verbatim>\<open>SLL r0,r0,0\<close>, which does nothing.\<close>

theorem user_instruction_safe_witness:
  "\<exists>m'. Machine_OneInstruction (kernel_handler toy_unix 5 (\<lambda>_ s. s)) (sample_kernel 0 0 0 0) = Inr m' \<and> machine_inv m' \<and> registers m' 34 = 104"
proof -
  let ?s = "sample_kernel 0 0 0 0" and ?h = "kernel_handler toy_unix 5 (\<lambda>_ s. s)"
  have "translated ?s 100 4 False 0 (the (pageTable ?s) ! 0) 740"
    by (auto simp: translated_def maps_def lookup_entry_def arr_get_def misaligned_def sample_kernel_def sample_machine_def Machine_new_def)
  from ReadMem_translated [OF sample_kernel_wf(1) _ this, of ?h] obtain m1 where
    m1: "Machine_ReadMem ?h ?s 100 4 = Inr (Some 0, m1)" "registers m1 = registers ?s"
    by (auto simp: load_value_def WordToHost_def load32_def sample_kernel_def)
  have "Instruction_Decode 0 = Inr \<lparr>opCode = OP_SLL, rs = 0, rt = 0, rd = 0, extra = 0\<rparr>"
    by code_simp
  then obtain m' where m': "Machine_OneInstruction ?h ?s = Inr m'" "registers m' 34 = 104"
    using m1 by (simp add: Machine_OneInstruction_def exec_instr_def exec_shift_def write_reg_def finish_instr_def Machine_DelayedLoad_def Let_def)
  then show ?thesis
    using user_instruction_safe [of ?s toy_unix 5 "\<lambda>_ s. s"] sample_kernel_wf(2) [of 0 0 0 0] by auto
qed

text \<open>C24: a string survives the way to user memory and back: after \<^verbatim>\<open>System2User\<close> of a string with its zero to writable addresses that
  translate to different bytes, \<^verbatim>\<open>User2System\<close> with a limit beyond its length returns the string.\<close>

theorem user_string_roundtrip:
  assumes "mmu_wf s" and "\<forall>j \<le> length str. reaches s True (va + of_nat j) (p j)" and "inj_on p {..length str}" and "0 \<notin> set str"
    and "int (length str) < limit" and "limit < 2 ^ 31 - 1"
  shows "\<exists>s1 buf s2. System2User va (int (length str) + 1) (str @ [0]) s = Inr (int (length str) + 1, s1)
    \<and> User2System va limit s1 = Inr (buf, s2) \<and> c_str buf = str"
proof -
  obtain s1 where s1: "s2u_loop (Suc (length str)) va (str @ [0]) 0 s = Inr (int (length str) + 1, s1)" "mmu_wf s1" "reaches s1 = reaches s"
      "\<forall>j \<le> length str. mainMemory s1 (p j) = (str @ [0]) ! j"
    using s2u_string [OF assms(1-4), of 0 "Suc (length str)"] by auto
  have "reaches s1 False (va + of_nat j) (p j) \<and> mainMemory s1 (p j) = (str @ [0]) ! j" if "j \<le> length str" for j
    using that assms(2) s1(3,4) reaches_readable [of s1] by simp
  moreover have len: "length str < nat limit" "nat limit \<le> nat (limit + 1)"
    using assms(5) by linarith+
  ultimately obtain buf s2 where "u2s_loop (nat limit) va (replicate (nat (limit + 1)) 0) 0 s1 = Inr (buf, s2)" "c_str buf = str"
    using u2s_string [OF s1(2) _ assms(4), of va p 0 "nat limit" "replicate (nat (limit + 1)) 0"] len by auto
  moreover have "System2User va (int (length str) + 1) (str @ [0]) s = Inr (int (length str) + 1, s1)"
    using s1(1) by (simp add: System2User_def nat_add_distrib)
  ultimately show ?thesis
    using assms(5,6) by (simp add: User2System_def)
qed

lemma sample_reaches: "reaches (sample_kernel 0 0 0 0) True (of_nat j) (640 + j)" if "j \<le> 2"
proof -
  have t: "pageTable (sample_kernel 0 0 0 0) = pageTable sample_machine" "tlb (sample_kernel 0 0 0 0) = None" "pageTableSize (sample_kernel 0 0 0 0) = 2"
    by (simp_all add: sample_kernel_def)
  have "j = 0 \<or> j = 1 \<or> j = 2"
    using that by auto
  then show ?thesis
    by (auto simp: reaches_def translated_def maps_def lookup_entry_def arr_get_def misaligned_def t sample_machine_def Machine_new_def
        intro!: exI [of _ "word_of_nat (640 + j) :: 32 word"])
qed

theorem user_string_roundtrip_witness:
  "\<exists>s1 buf s2. System2User 0 3 [97, 98, 0] (sample_kernel 0 0 0 0) = Inr (3, s1) \<and> User2System 0 32 s1 = Inr (buf, s2) \<and> c_str buf = [97, 98]"
  using user_string_roundtrip [of "sample_kernel 0 0 0 0" "[97, 98]" 0 "\<lambda>j. 640 + j" 32] sample_kernel_wf(1) sample_reaches
  by (simp add: inj_on_def)

lemma IsOpening_not_zero: "Table_IsOpening t fid \<noteq> 0"
  by (auto simp: Table_IsOpening_def scan_def split: option.splits dest: find_Some_in)

text \<open>C38: \<^verbatim>\<open>Read\<close>, \<^verbatim>\<open>Write\<close> and \<^verbatim>\<open>Seek\<close> of an identifier that is not open crash the kernel: \<^verbatim>\<open>!table.IsOpening(id)\<close>, meant as the test for
  this, is never true, and the null pointer that \<^verbatim>\<open>GetFileDescriptor\<close> returns is used.\<close>

theorem unopened_id_crashes:
  assumes "Table_IsOpening (ftable s) fid = - 1" and "1 < fid" and "mmu_wf s" and "User2System va sz s = Inr (buf, s1)"
  shows "SysSeek u pos fid s = Inl NullDeref \<and> SysRead u va sz fid k s = Fault NullDeref \<and> SysWrite u va sz fid k s = Fault NullDeref"
proof -
  have t: "ftable s1 = ftable s"
    by (rule User2System_ftable [OF assms(4,3)])
  show ?thesis
    using assms(1,2,4) t
    by (simp add: SysSeek_def SysRead_def SysWrite_def read_from_file_def write_to_file_def ok_or_def Table_GetFileDescriptor_def
        consoleInputID_def consoleOutputID_def)
qed

lemma Table_new_closed: "fid \<noteq> - 1 \<Longrightarrow> Table_IsOpening Table_new fid = - 1"
  by (auto simp: Table_IsOpening_def scan_none Table_new_def FileDescriptor_new_def)

theorem unopened_id_crashes_witness:
  "SysRead toy_unix 0 0 5 (\<lambda>r s. Ret r s) (sample_kernel 7 0 0 5) = Fault NullDeref"
proof -
  have "Table_IsOpening (ftable (sample_kernel 7 0 0 5)) 5 = - 1"
    by (simp add: sample_kernel_def Table_new_closed)
  moreover have "User2System 0 0 (sample_kernel 7 0 0 5) = Inr ([0], sample_kernel 7 0 0 5)"
    by (simp add: User2System_def)
  ultimately show ?thesis
    using unopened_id_crashes sample_kernel_wf(1) by fastforce
qed

text \<open>\<^verbatim>\<open>CreateSemaphore\<close> returns -1 always, and the semaphore is there all the same.\<close>

lemma CreateSemaphore_returns_error:
  "SysCreateSemaphore va v s = Inr (r, s') \<Longrightarrow> r = - 1"
  "User2System va MaxFileLength s = Inr (buf, s1) \<Longrightarrow> c_str buf \<noteq> [] \<Longrightarrow> STable_Create (c_str buf) v s1 = Inr (0, s2) \<Longrightarrow>
   SysCreateSemaphore va v s = Inr (- 1, s2)"
  by (auto simp: SysCreateSemaphore_def rbind_eq_Inr_iff split: if_splits)

text \<open>\<^verbatim>\<open>Create\<close> of a name that the host refuses stops the simulation; the test of the result in \<^verbatim>\<open>FileSystem::Create\<close> comes too late.\<close>

lemma SysCreate_refused_aborts:
  assumes "User2System va (MaxFileLength + 1) s = Inr (buf, s1)" and "c_str buf \<noteq> []" and "fst (u_open u (c_str buf) True (host s1)) < 0"
  shows "SysCreate u va s = Inl AssertFail"
  using assms by (cases "u_open u (c_str buf) True (host s1)") (simp add: SysCreate_def StubFS_Create_def OpenForWrite_def rbind_ASSERT)

end
