(* ===== verification/SynchList.thy ===== *)
theory SynchList
  imports NachosList
begin

text \<open>
  \<^verbatim>\<open>threads/synchlist.cc\<close> with the lock and the condition variable of \<^verbatim>\<open>threads/synch.cc\<close> that it uses: a list that
  threads share, in which \<^verbatim>\<open>RemoveFront\<close> waits while the list is empty.

  A thread is at a control point: a place where it can lose the processor, right after a \<^verbatim>\<open>P\<close> or \<^verbatim>\<open>V\<close>, or where it
  waits in a \<^verbatim>\<open>P\<close>. What a thread does from one control point to the next is one step (\<open>sl_step\<close>): it moves on, it has to
  wait (\<open>None\<close>), or an assertion fails. The list itself is the abstract list of \<^verbatim>\<open>lib/list.cc\<close>. Which of the threads
  waiting in one \<^verbatim>\<open>P\<close> continues first is left open; the queue of a semaphore is the subject of \<^verbatim>\<open>ThreadsProofs\<close>.
\<close>

record 'm SynchList =
  items :: "'m list"
  lock_value :: int
  holder :: "nat option"
  waitQueue :: "nat list"
  waiter_value :: "nat \<Rightarrow> int"
  next_waiter :: nat

text \<open>
  \<^item> \<open>AppendEnter x\<close>, \<open>RemoveEnter\<close>, \<open>ApplyEnter\<close>: in \<^verbatim>\<open>lock->Acquire()\<close>, before its \<^verbatim>\<open>P\<close>;
  \<^item> \<open>AppendIn x\<close>, \<open>RemoveIn\<close>, \<open>ApplyIn\<close>: after that \<^verbatim>\<open>P\<close>;
  \<^item> \<open>AppendSignalled\<close>: after the \<^verbatim>\<open>V\<close> of \<^verbatim>\<open>Signal\<close>;
  \<^item> \<open>RemoveWait a\<close>: in \<^verbatim>\<open>Condition::Wait\<close>, the lock released, before the \<^verbatim>\<open>P\<close> of the waiter \<open>a\<close>;
  \<^item> \<open>RemoveAgain\<close>: in \<^verbatim>\<open>Condition::Wait\<close>, after that \<^verbatim>\<open>P\<close>, before the lock is acquired again;
  \<^item> \<open>Outside r\<close>: in no call; \<open>r\<close> is what the last call produced: the item that \<^verbatim>\<open>RemoveFront\<close> returned, or the items
    that \<^verbatim>\<open>Apply\<close> called its function on.
\<close>

datatype 'm outcome = Nothing | Item 'm | Applied "'m list"

datatype 'm point = Outside "'m outcome" | AppendEnter 'm | AppendIn 'm | AppendSignalled | RemoveEnter | RemoveIn
  | RemoveWait nat | RemoveAgain | ApplyEnter | ApplyIn

definition SynchList_new :: "'m SynchList" where
  "SynchList_new = \<lparr>items = [], lock_value = 1, holder = None, waitQueue = [], waiter_value = (\<lambda>_. 0), next_waiter = 0\<rparr>"

definition lock_P :: "'m point \<Rightarrow> 'm SynchList \<Rightarrow> ('m point \<times> 'm SynchList) option" where
  "lock_P q l = (if lock_value l = 0 then None else Some (q, l\<lparr>lock_value := lock_value l - 1\<rparr>))"

definition lock_Release :: "nat \<Rightarrow> 'm SynchList \<Rightarrow> 'm SynchList result" where
  "lock_Release t l =
     rbind (ASSERT (holder l = Some t)) (\<lambda>_. Inr (l\<lparr>holder := None, lock_value := lock_value l + 1\<rparr>))"

text \<open>\<^verbatim>\<open>Condition::Signal\<close>: the first waiter is released; the thread can lose the processor only when there is one.\<close>

definition Signal :: "nat \<Rightarrow> 'm SynchList \<Rightarrow> (bool \<times> 'm SynchList) result" where
  "Signal t l =
     rbind (ASSERT (holder l = Some t)) (\<lambda>_.
     if waitQueue l \<noteq> []
     then rbind (absl_RemoveFront (waitQueue l)) (\<lambda>(a, q).
          Inr (True, l\<lparr>waitQueue := q, waiter_value := (waiter_value l)(a := waiter_value l a + 1)\<rparr>))
     else Inr (False, l))"

definition Condition_Wait_begin :: "nat \<Rightarrow> 'm SynchList \<Rightarrow> ('m point \<times> 'm SynchList) result" where
  "Condition_Wait_begin t l =
     rbind (ASSERT (holder l = Some t)) (\<lambda>_.
     let a = next_waiter l;
         l1 = l\<lparr>next_waiter := Suc a, waiter_value := (waiter_value l)(a := 0)\<rparr> in
     rbind (absl_Append (waitQueue l1) a) (\<lambda>q.
     rbind (lock_Release t (l1\<lparr>waitQueue := q\<rparr>)) (\<lambda>l2. Inr (RemoveWait a, l2))))"

definition SynchList_Append :: "nat \<Rightarrow> 'm \<Rightarrow> 'm SynchList \<Rightarrow> ('m point \<times> 'm SynchList) result" where
  "SynchList_Append t x l =
     (let l1 = l\<lparr>holder := Some t\<rparr> in
      rbind (absl_Append (items l1) x) (\<lambda>xs.
      rbind (Signal t (l1\<lparr>items := xs\<rparr>)) (\<lambda>(woke, l2).
      if woke then Inr (AppendSignalled, l2)
      else rbind (lock_Release t l2) (\<lambda>l3. Inr (Outside Nothing, l3)))))"

definition SynchList_RemoveFront :: "nat \<Rightarrow> 'm SynchList \<Rightarrow> ('m point \<times> 'm SynchList) result" where
  "SynchList_RemoveFront t l =
     (let l1 = l\<lparr>holder := Some t\<rparr> in
      if items l1 = [] then Condition_Wait_begin t l1
      else rbind (absl_RemoveFront (items l1)) (\<lambda>(x, xs).
           rbind (lock_Release t (l1\<lparr>items := xs\<rparr>)) (\<lambda>l2. Inr (Outside (Item x), l2))))"

definition SynchList_Apply :: "nat \<Rightarrow> 'm SynchList \<Rightarrow> ('m point \<times> 'm SynchList) result" where
  "SynchList_Apply t l = rbind (lock_Release t (l\<lparr>holder := Some t\<rparr>)) (\<lambda>l1. Inr (Outside (Applied (items l)), l1))"

fun sl_step :: "nat \<Rightarrow> 'm point \<Rightarrow> 'm SynchList \<Rightarrow> ('m point \<times> 'm SynchList) option result" where
  "sl_step t (Outside r) l = Inr None"
| "sl_step t (AppendEnter x) l = Inr (lock_P (AppendIn x) l)"
| "sl_step t (AppendIn x) l = rbind (SynchList_Append t x l) (\<lambda>r. Inr (Some r))"
| "sl_step t AppendSignalled l = rbind (lock_Release t l) (\<lambda>l1. Inr (Some (Outside Nothing, l1)))"
| "sl_step t RemoveEnter l = Inr (lock_P RemoveIn l)"
| "sl_step t RemoveIn l = rbind (SynchList_RemoveFront t l) (\<lambda>r. Inr (Some r))"
| "sl_step t (RemoveWait a) l =
     Inr (if waiter_value l a = 0 then None else Some (RemoveAgain, l\<lparr>waiter_value := (waiter_value l)(a := waiter_value l a - 1)\<rparr>))"
| "sl_step t RemoveAgain l = Inr (lock_P RemoveIn l)"
| "sl_step t ApplyEnter l = Inr (lock_P ApplyIn l)"
| "sl_step t ApplyIn l = rbind (SynchList_Apply t l) (\<lambda>r. Inr (Some r))"

text \<open>A configuration: the list, the control points of the threads, and the items that were appended and removed so far.\<close>

type_synonym 'm sl_config = "'m SynchList \<times> (nat \<Rightarrow> 'm point) \<times> 'm list \<times> 'm list"

fun appended :: "'m point \<Rightarrow> 'm list" where
  "appended (AppendIn x) = [x]" | "appended _ = []"

fun removed :: "'m point \<Rightarrow> 'm list" where
  "removed (Outside (Item x)) = [x]" | "removed _ = []"

inductive sl_reach :: "'m sl_config \<Rightarrow> bool" where
  sl_init: "sl_reach (SynchList_new, \<lambda>_. Outside Nothing, [], [])"
| sl_append: "sl_reach (l, P, ins, outs) \<Longrightarrow> P t = Outside r \<Longrightarrow> sl_reach (l, P(t := AppendEnter x), ins, outs)"
| sl_remove: "sl_reach (l, P, ins, outs) \<Longrightarrow> P t = Outside r \<Longrightarrow> sl_reach (l, P(t := RemoveEnter), ins, outs)"
| sl_apply: "sl_reach (l, P, ins, outs) \<Longrightarrow> P t = Outside r \<Longrightarrow> sl_reach (l, P(t := ApplyEnter), ins, outs)"
| sl_thread: "sl_reach (l, P, ins, outs) \<Longrightarrow> sl_step t (P t) l = Inr (Some (q, l')) \<Longrightarrow>
    sl_reach (l', P(t := q), ins @ appended (P t), outs @ removed q)"

text \<open>A schedule: a thread makes a call, or takes its next step.\<close>

fun call_point :: "'m point \<Rightarrow> bool" where
  "call_point (AppendEnter x) = True" | "call_point RemoveEnter = True" | "call_point ApplyEnter = True" | "call_point _ = False"

fun is_outside :: "'m point \<Rightarrow> bool" where
  "is_outside (Outside r) = True" | "is_outside _ = False"

fun sl_exec :: "(nat \<times> 'm point option) list \<Rightarrow> 'm sl_config \<Rightarrow> 'm sl_config option" where
  "sl_exec [] c = Some c"
| "sl_exec ((t, Some p) # es) (l, P, ins, outs) =
     (if is_outside (P t) \<and> call_point p then sl_exec es (l, P(t := p), ins, outs) else None)"
| "sl_exec ((t, None) # es) (l, P, ins, outs) =
     (case sl_step t (P t) l of
        Inr (Some (q, l')) \<Rightarrow> sl_exec es (l', P(t := q), ins @ appended (P t), outs @ removed q)
      | _ \<Rightarrow> None)"

lemma sl_exec_reach: "sl_exec es c = Some c' \<Longrightarrow> sl_reach c \<Longrightarrow> sl_reach c'"
proof (induction es c rule: sl_exec.induct)
  case (2 t p es l P ins outs)
  then have c: "is_outside (P t)" "call_point p" "sl_exec es (l, P(t := p), ins, outs) = Some c'" by (auto split: if_splits)
  then obtain r where "P t = Outside r" by (cases "P t") auto
  then have "sl_reach (l, P(t := p), ins, outs)" using 2(3) c(2) by (cases p) (auto intro: sl_reach.intros)
  then show ?case using 2(1) c by simp
next
  case (3 t es l P ins outs)
  then obtain q l' where s: "sl_step t (P t) l = Inr (Some (q, l'))" by (auto split: sum.splits option.splits)
  show ?case using 3(1) [OF s HOL.refl HOL.refl] 3(2) s sl_reach.sl_thread [OF 3(3) s] by simp
qed auto

section \<open>Invariant\<close>

fun inside :: "'m point \<Rightarrow> bool" where
  "inside (AppendIn x) = True" | "inside AppendSignalled = True" | "inside RemoveIn = True" | "inside ApplyIn = True" | "inside _ = False"

text \<open>Threads that are going to look at the list on behalf of \<^verbatim>\<open>RemoveFront\<close> without waiting for another signal.\<close>

definition looking :: "'m SynchList \<Rightarrow> 'm point \<Rightarrow> bool" where
  "looking l p \<longleftrightarrow> p = RemoveIn \<or> p = RemoveAgain \<or> (\<exists>a. p = RemoveWait a \<and> waiter_value l a \<noteq> 0)"

text \<open>The lock is held by at most one thread; the queue holds exactly the waiters that nobody has signalled; and while
  a thread waits unsignalled, there are as many threads looking as there are items.\<close>

definition lock_inv :: "'m SynchList \<Rightarrow> (nat \<Rightarrow> 'm point) \<Rightarrow> bool" where
  "lock_inv l P \<longleftrightarrow> (\<exists>own. (\<forall>t. inside (P t) \<longleftrightarrow> own = Some t) \<and> lock_value l = of_bool (own = None)
     \<and> (\<forall>t. P t = AppendSignalled \<longrightarrow> holder l = Some t))"

definition wait_inv :: "'m SynchList \<Rightarrow> (nat \<Rightarrow> 'm point) \<Rightarrow> bool" where
  "wait_inv l P \<longleftrightarrow> distinct (waitQueue l) \<and> (\<forall>a \<in> set (waitQueue l). \<exists>t. P t = RemoveWait a)
     \<and> (\<forall>t a. P t = RemoveWait a \<longrightarrow> a < next_waiter l \<and> waiter_value l a = of_bool (a \<notin> set (waitQueue l)))
     \<and> (\<forall>t t' a. P t = RemoveWait a \<longrightarrow> P t' = RemoveWait a \<longrightarrow> t' = t)"

definition wake_inv :: "'m SynchList \<Rightarrow> (nat \<Rightarrow> 'm point) \<Rightarrow> bool" where
  "wake_inv l P \<longleftrightarrow> finite {t. looking l (P t)} \<and> (waitQueue l \<noteq> [] \<longrightarrow> length (items l) \<le> card {t. looking l (P t)})"

lemma lock_invD: "lock_inv l P \<Longrightarrow> inside (P t) \<Longrightarrow> lock_value l = 0"
  by (auto simp: lock_inv_def)

text \<open>Entering and leaving the monitor.\<close>

lemma lock_inv_enter:
  assumes "lock_inv l P" and "lock_value l \<noteq> 0" and "inside q" and "q \<noteq> AppendSignalled" and "\<not> inside (P t)"
  shows "lock_inv (l\<lparr>lock_value := lock_value l - 1\<rparr>) (P(t := q))"
proof -
  obtain own where own: "\<forall>t. inside (P t) \<longleftrightarrow> own = Some t" "lock_value l = of_bool (own = None)"
    using assms(1) by (auto simp: lock_inv_def)
  then have n: "own = None" using assms(2) by (simp split: if_splits)
  then have "P t' \<noteq> AppendSignalled" for t'
    using own(1) by (metis inside.simps(2) option.distinct(1))
  then show ?thesis
    using n own assms(3,4) by (auto simp: lock_inv_def intro!: exI [of _ "Some t"])
qed

lemma lock_inv_leave:
  assumes "lock_inv l P" and "inside (P t)" and "\<not> inside q" and "lock_value l' = lock_value l + 1"
  shows "lock_inv l' (P(t := q))"
proof -
  obtain own where "\<forall>t. inside (P t) \<longleftrightarrow> own = Some t" "lock_value l = of_bool (own = None)"
    using assms(1) by (auto simp: lock_inv_def)
  then show ?thesis
    using assms(2-4) by (auto simp: lock_inv_def intro!: exI [of _ None])
qed

lemma lock_inv_stay:
  assumes "lock_inv l P" and "inside (P t) = inside q" and "lock_value l' = lock_value l"
    and "\<forall>t'. (P(t := q)) t' = AppendSignalled \<longrightarrow> holder l' = Some t'"
  shows "lock_inv l' (P(t := q))"
  using assms by (auto simp: lock_inv_def)

lemma lock_inv_move:
  assumes "lock_inv l P" and "\<not> inside (P t)" "\<not> inside q" and "lock_value l' = lock_value l" "holder l' = holder l"
  shows "lock_inv l' (P(t := q))"
proof -
  have "(P(t := q)) t' = AppendSignalled \<longleftrightarrow> P t' = AppendSignalled" for t'
    using assms(2,3) by auto
  then show ?thesis
    using assms by (intro lock_inv_stay) (auto simp: lock_inv_def)
qed

text \<open>A step that leaves the waiters as they are.\<close>

lemma wait_inv_same:
  assumes "wait_inv l P" and "\<forall>a. P t \<noteq> RemoveWait a" "\<forall>a. q \<noteq> RemoveWait a"
    and "waitQueue l' = waitQueue l" "waiter_value l' = waiter_value l" "next_waiter l' = next_waiter l"
  shows "wait_inv l' (P(t := q))"
proof -
  have "(P(t := q)) t' = RemoveWait a \<longleftrightarrow> P t' = RemoveWait a" for t' a
    using assms(2,3) by auto
  then show ?thesis
    using assms(1) unfolding wait_inv_def assms(4-6) by presburger
qed

lemma looking_same:
  assumes "waiter_value l' = waiter_value l"
  shows "{t'. looking l' ((P(t := q)) t')} = (if looking l q then insert t {t. looking l (P t)} else {t. looking l (P t)} - {t})"
  using assms by (auto simp: looking_def)

lemma wake_inv_same:
  assumes "wake_inv l P" and "looking l (P t) \<longrightarrow> looking l q" and "waiter_value l' = waiter_value l" "waitQueue l' = waitQueue l"
    and "waitQueue l = [] \<or> items l' = items l"
  shows "wake_inv l' (P(t := q))"
proof -
  have "{t. looking l (P t)} \<subseteq> {t'. looking l' ((P(t := q)) t')}" "finite {t'. looking l' ((P(t := q)) t')}"
    using assms(1,2) unfolding looking_same [OF assms(3), of P t q] wake_inv_def by auto
  moreover from this have "card {t. looking l (P t)} \<le> card {t'. looking l' ((P(t := q)) t')}"
    using card_mono by blast
  ultimately show ?thesis
    using assms(1,4,5) unfolding wake_inv_def by (metis le_trans)
qed

definition monitor_inv :: "'m SynchList \<Rightarrow> (nat \<Rightarrow> 'm point) \<Rightarrow> bool" where
  "monitor_inv l P \<longleftrightarrow> lock_inv l P \<and> wait_inv l P \<and> wake_inv l P"

section \<open>Steps\<close>

text \<open>Entering the monitor, from a call or after a wait.\<close>

lemma enter_step:
  assumes "monitor_inv l P" and "lock_P q l = Some (q', l')" and "inside q" "q \<noteq> AppendSignalled" and "\<not> inside (P t)"
    and "\<forall>a. P t \<noteq> RemoveWait a" and "P t = RemoveAgain \<longrightarrow> q = RemoveIn"
  shows "monitor_inv l' (P(t := q')) \<and> items l' = items l"
proof -
  have q: "q' = q" "l' = l\<lparr>lock_value := lock_value l - 1\<rparr>" "lock_value l \<noteq> 0"
    using assms(2) by (auto simp: lock_P_def split: if_splits)
  have "looking l (P t) \<longrightarrow> looking l q"
    using assms(5-7) by (auto simp: looking_def)
  moreover have "\<forall>a. q \<noteq> RemoveWait a"
    using assms(3) by (cases q) auto
  ultimately show ?thesis
    using assms q lock_inv_enter [of l P q t] wait_inv_same [of l P t q l'] wake_inv_same [of l P t q l'] by (auto simp: monitor_inv_def)
qed

text \<open>Leaving the monitor with the waiters as they are.\<close>

lemma leave_step:
  assumes "monitor_inv l P" and "inside (P t)" "P t \<noteq> RemoveIn" and "lock_value l' = lock_value l + 1"
    and "waiter_value l' = waiter_value l" "waitQueue l' = waitQueue l" "next_waiter l' = next_waiter l" and "waitQueue l = [] \<or> items l' = items l"
  shows "monitor_inv l' (P(t := Outside r))"
proof -
  have "\<forall>a. P t \<noteq> RemoveWait a" "\<not> looking l (P t)"
    using assms(2,3) by (auto simp: looking_def)
  then show ?thesis
    using assms lock_inv_leave [of l P t "Outside r" l'] wait_inv_same [of l P t "Outside r" l'] wake_inv_same [of l P t "Outside r" l']
    by (auto simp: monitor_inv_def)
qed


text \<open>\<^verbatim>\<open>Append\<close> with a waiter: it stays in the monitor, one item and one looking thread more.\<close>

lemma wait_inv_signal:
  assumes "wait_inv l P" and "waitQueue l = a # q" and "\<forall>a. P t \<noteq> RemoveWait a" "\<forall>a. p \<noteq> RemoveWait a"
    and "waitQueue l' = q" "waiter_value l' = (waiter_value l)(a := waiter_value l a + 1)" "next_waiter l' = next_waiter l"
  shows "wait_inv l' (P(t := p))"
proof -
  have "(P(t := p)) t' = RemoveWait b \<longleftrightarrow> P t' = RemoveWait b" for t' b
    using assms(3,4) by auto
  then show ?thesis
    using assms(1) unfolding wait_inv_def assms(2,5-7) by auto
qed

lemma looking_signal:
  assumes "wait_inv l P" and "waitQueue l = a # q" and "P w = RemoveWait a"
    and "waiter_value l' = (waiter_value l)(a := waiter_value l a + 1)"
  shows "{t. looking l' (P t)} = insert w {t. looking l (P t)}" and "\<not> looking l (P w)"
proof -
  have u: "P t = RemoveWait a \<longleftrightarrow> t = w" "waiter_value l a = 0" for t
    using assms(1-3) by (auto simp: wait_inv_def)
  have "looking l' (P t) \<longleftrightarrow> t = w \<or> looking l (P t)" for t
    using u(1) [of t] u(2) assms(3) by (cases "P t") (auto simp: looking_def assms(4))
  then show "{t. looking l' (P t)} = insert w {t. looking l (P t)}" by auto
  show "\<not> looking l (P w)" using assms(3) u(2) by (simp add: looking_def)
qed

lemma signal_step:
  assumes inv: "monitor_inv l P" and "P t = AppendIn x" and "waitQueue l = a # q"
    and l': "l' = l\<lparr>holder := Some t, items := xs, waitQueue := q, waiter_value := (waiter_value l)(a := waiter_value l a + 1)\<rparr>"
    and "length xs = Suc (length (items l))"
  shows "monitor_inv l' (P(t := AppendSignalled))"
proof -
  let ?P = "P(t := AppendSignalled)"
  obtain w where w: "P w = RemoveWait a" using inv assms(3) by (auto simp: monitor_inv_def wait_inv_def)
  have "P t' \<noteq> AppendSignalled" for t'
    using inv assms(2) unfolding monitor_inv_def lock_inv_def by (metis inside.simps(1,2) option.inject point.distinct)
  then have "lock_inv l' ?P"
    using inv assms(2) l' lock_inv_stay [of l P t AppendSignalled l'] by (simp add: monitor_inv_def)
  moreover have "wait_inv l' ?P"
    using wait_inv_signal [of l P a q t AppendSignalled l'] inv assms(2,3) l' by (simp add: monitor_inv_def)
  moreover have "{t'. looking l' (?P t')} = {t. looking l' (P t)}"
    using assms(2) by (auto simp: looking_def)
  then have "card {t'. looking l' (?P t')} = Suc (card {t. looking l (P t)})" "finite {t'. looking l' (?P t')}"
    using looking_signal [of l P a q w l'] inv assms(3) w l' by (simp_all add: monitor_inv_def wake_inv_def)
  then have "wake_inv l' ?P"
    using inv assms(3,5) l' by (simp add: monitor_inv_def wake_inv_def)
  ultimately show ?thesis by (simp add: monitor_inv_def)
qed

text \<open>\<^verbatim>\<open>RemoveFront\<close> on an empty list: a new waiter joins the queue.\<close>

lemma wait_step:
  assumes inv: "monitor_inv l P" and "P t = RemoveIn" and "items l = []" and a: "a = next_waiter l"
    and l': "l' = l\<lparr>next_waiter := Suc a, waiter_value := (waiter_value l)(a := 0), waitQueue := waitQueue l @ [a],
      holder := None, lock_value := lock_value l + 1\<rparr>"
  shows "monitor_inv l' (P(t := RemoveWait a))"
proof -
  have old: "P t' \<noteq> RemoveWait a" "a \<notin> set (waitQueue l)" for t'
    using inv a by (auto simp: monitor_inv_def wait_inv_def)
  have "lock_inv l' (P(t := RemoveWait a))"
    using lock_inv_leave [of l P t "RemoveWait a" l'] inv assms(2) l' by (simp add: monitor_inv_def)
  moreover have "wait_inv l' (P(t := RemoveWait a))"
    using inv old a l' assms(2) unfolding monitor_inv_def wait_inv_def by (auto, metis point.distinct, metis less_SucI)
  moreover have "{t'. looking l' ((P(t := RemoveWait a)) t')} \<subseteq> {t. looking l (P t)}"
    using l' by (auto simp: looking_def split: if_splits)
  then have "wake_inv l' (P(t := RemoveWait a))"
    using inv assms(3) l' unfolding monitor_inv_def wake_inv_def by (simp add: finite_subset)
  ultimately show ?thesis by (simp add: monitor_inv_def)
qed

text \<open>\<^verbatim>\<open>RemoveFront\<close> on a list with an item: one item and one looking thread less.\<close>

lemma take_step:
  assumes inv: "monitor_inv l P" and "P t = RemoveIn" and "items l = x # xs"
    and l': "l' = l\<lparr>items := xs, holder := None, lock_value := lock_value l + 1\<rparr>"
  shows "monitor_inv l' (P(t := Outside r))"
proof -
  have "lock_inv l' (P(t := Outside r))"
    using lock_inv_leave [of l P t "Outside r" l'] inv assms(2) l' by (simp add: monitor_inv_def)
  moreover have "wait_inv l' (P(t := Outside r))"
    using wait_inv_same [of l P t "Outside r" l'] inv assms(2) l' by (simp add: monitor_inv_def)
  moreover have "{t'. looking l' ((P(t := Outside r)) t')} = {t. looking l (P t)} - {t}" "t \<in> {t. looking l (P t)}"
    using looking_same [of l' l P t "Outside r"] l' assms(2) by (auto simp: looking_def)
  then have "finite {t'. looking l' ((P(t := Outside r)) t')}"
    and "waitQueue l \<noteq> [] \<Longrightarrow> length (items l) - 1 \<le> card {t'. looking l' ((P(t := Outside r)) t')}"
    using inv diff_le_mono [of "length (items l)" "card {t. looking l (P t)}" 1]
    by (simp_all add: monitor_inv_def wake_inv_def)
  then have "wake_inv l' (P(t := Outside r))"
    using assms(3) l' by (simp add: wake_inv_def)
  ultimately show ?thesis by (simp add: monitor_inv_def)
qed

text \<open>A signalled waiter goes on to acquire the lock again.\<close>

lemma wakeup_step:
  assumes inv: "monitor_inv l P" and "P t = RemoveWait a" and "waiter_value l a \<noteq> 0"
    and l': "l' = l\<lparr>waiter_value := (waiter_value l)(a := waiter_value l a - 1)\<rparr>"
  shows "monitor_inv l' (P(t := RemoveAgain))"
proof -
  have a: "a \<notin> set (waitQueue l)" and u: "P t' = RemoveWait a \<Longrightarrow> t' = t" for t'
    using inv assms(2,3) by (auto simp: monitor_inv_def wait_inv_def)
  have "lock_inv l' (P(t := RemoveAgain))"
    using inv assms(2) l' lock_inv_move [of l P t RemoveAgain l'] by (simp add: monitor_inv_def)
  moreover have "wait_inv l' (P(t := RemoveAgain))"
    using inv a u l' assms(2) unfolding monitor_inv_def wait_inv_def by (auto split: if_splits) (metis point.inject)
  moreover have "looking l' (P t') \<longleftrightarrow> looking l (P t')" if "t' \<noteq> t" for t'
    using u [of t'] that by (cases "P t'") (auto simp: looking_def l')
  then have "looking l' ((P(t := RemoveAgain)) t') \<longleftrightarrow> looking l (P t')" for t'
    using assms(2,3) by (cases "t' = t") (simp_all add: looking_def)
  then have "wake_inv l' (P(t := RemoveAgain))"
    using inv l' by (simp add: monitor_inv_def wake_inv_def)
  ultimately show ?thesis by (simp add: monitor_inv_def)
qed

text \<open>What a step can be, and that every one of them keeps the invariant.\<close>

lemma thread_step:
  assumes inv: "monitor_inv l P" and st: "sl_step t (P t) l = Inr (Some (q, l'))"
  shows "monitor_inv l' (P(t := q)) \<and> items l @ appended (P t) = removed q @ items l'"
proof (cases "P t")
  case (AppendEnter x)
  then show ?thesis using st enter_step [of l P "AppendIn x" q l' t] inv by (auto simp: lock_P_def split: if_splits)
next
  case (AppendIn x)
  show ?thesis
  proof (cases "waitQueue l")
    case Nil
    then show ?thesis
      using st AppendIn leave_step [of l P t l' Nothing] inv
      by (auto simp: SynchList_Append_def Signal_def lock_Release_def absl_Append_def Let_def split: if_splits)
  next
    case (Cons a w)
    then show ?thesis
      using st AppendIn signal_step [of l P t x a w l' "items l @ [x]"] inv
      by (auto simp: SynchList_Append_def Signal_def absl_Append_def absl_RemoveFront_def Let_def split: if_splits)
  qed
next
  case AppendSignalled
  then have "holder l = Some t" using inv by (auto simp: monitor_inv_def lock_inv_def)
  then show ?thesis using AppendSignalled st leave_step [of l P t l' Nothing] inv by (auto simp: lock_Release_def)
next
  case RemoveEnter
  then show ?thesis using st enter_step [of l P RemoveIn q l' t] inv by (auto simp: lock_P_def split: if_splits)
next
  case RemoveIn
  show ?thesis
  proof (cases "items l")
    case Nil
    then show ?thesis
      using st RemoveIn wait_step [of l P t _ l'] inv
      by (auto simp: SynchList_RemoveFront_def Condition_Wait_begin_def lock_Release_def absl_Append_def Let_def split: if_splits)
  next
    case (Cons x xs)
    then show ?thesis
      using st RemoveIn take_step [of l P t x xs l' "Item x"] inv
      by (auto simp: SynchList_RemoveFront_def lock_Release_def absl_RemoveFront_def Let_def)
  qed
next
  case (RemoveWait a)
  then show ?thesis using st wakeup_step [of l P t a l'] inv by (auto split: if_splits)
next
  case RemoveAgain
  then show ?thesis using st enter_step [of l P RemoveIn q l' t] inv by (auto simp: lock_P_def split: if_splits)
next
  case ApplyEnter
  then show ?thesis using st enter_step [of l P ApplyIn q l' t] inv by (auto simp: lock_P_def split: if_splits)
next
  case ApplyIn
  then show ?thesis
    using st leave_step [of l P t l' "Applied (items l)"] inv by (auto simp: SynchList_Apply_def lock_Release_def)
qed (use st in simp)

lemma call_step:
  assumes inv: "monitor_inv l P" and "P t = Outside r" and "q = AppendEnter x \<or> q = RemoveEnter \<or> q = ApplyEnter"
  shows "monitor_inv l (P(t := q))"
proof -
  have "lock_inv l (P(t := q))"
    using inv assms(2,3) lock_inv_move [of l P t q l] by (auto simp: monitor_inv_def)
  moreover have "wait_inv l (P(t := q))" "wake_inv l (P(t := q))"
    using wait_inv_same [of l P t q l] wake_inv_same [of l P t q l] inv assms(2,3) by (auto simp: monitor_inv_def looking_def)
  ultimately show ?thesis by (simp add: monitor_inv_def)
qed

lemma monitor_inv_init: "monitor_inv SynchList_new (\<lambda>_. Outside r)"
  by (auto simp: monitor_inv_def lock_inv_def wait_inv_def wake_inv_def looking_def SynchList_new_def intro!: exI [of _ None])

lemma sl_reach_inv: "sl_reach (l, P, ins, outs) \<Longrightarrow> monitor_inv l P \<and> ins = outs @ items l"
proof (induction "(l, P, ins, outs)" arbitrary: l P ins outs rule: sl_reach.induct)
  case sl_init
  then show ?case using monitor_inv_init [of Nothing] by (simp add: SynchList_new_def)
next
  case (sl_thread l P ins outs t q l')
  then show ?case using thread_step [of l P t q l'] by simp
qed (auto intro: call_step)

lemma step_failure:
  assumes inv: "monitor_inv l P"
  shows "sl_step t (P t) l = Inl e \<longleftrightarrow> e = AssertFail \<and> (\<exists>x. P t = AppendIn x \<and> x \<in> set (items l))"
proof (cases "P t")
  case (AppendIn x)
  then show ?thesis
    by (cases "waitQueue l") (auto simp: SynchList_Append_def Signal_def lock_Release_def absl_Append_def absl_RemoveFront_def Let_def)
next
  case AppendSignalled
  then show ?thesis using inv by (auto simp: monitor_inv_def lock_inv_def lock_Release_def)
next
  case RemoveIn
  have "next_waiter l \<notin> set (waitQueue l)" using inv by (auto simp: monitor_inv_def wait_inv_def)
  then show ?thesis
    using RemoveIn by (cases "items l") (auto simp: SynchList_RemoveFront_def Condition_Wait_begin_def lock_Release_def
        absl_Append_def absl_RemoveFront_def Let_def)
next
  case ApplyIn
  then show ?thesis by (auto simp: SynchList_Apply_def lock_Release_def)
qed (auto simp: lock_P_def)

text \<open>When nobody can go on, nobody is in the monitor, nobody was signalled, and every waiting thread waits for an item.\<close>

lemma stuck_waiting:
  assumes inv: "monitor_inv l P" and stuck: "\<forall>t. sl_step t (P t) l = Inr None"
  shows "(\<exists>r. P t = Outside r) \<or> (\<exists>a. P t = RemoveWait a \<and> a \<in> set (waitQueue l) \<and> items l = [])"
proof -
  have "\<not> inside (P t')" for t'
    using stuck [rule_format, of t'] by (cases "P t'") (auto simp: rbind_def split: sum.splits)
  then have lv: "lock_value l = 1"
    using inv by (auto simp: monitor_inv_def lock_inv_def)
  have nl: "\<not> looking l (P t')" for t'
    using stuck [rule_format, of t'] lv by (cases "P t'") (auto simp: looking_def lock_P_def rbind_def split: sum.splits if_splits)
  show ?thesis
  proof (cases "P t")
    case (RemoveWait a)
    then have "waiter_value l a = 0" using nl [of t] by (auto simp: looking_def)
    then have "a \<in> set (waitQueue l)" using RemoveWait inv by (auto simp: monitor_inv_def wait_inv_def)
    then show ?thesis using RemoveWait inv nl by (auto simp: monitor_inv_def wake_inv_def)
  qed (use stuck [rule_format, of t] lv in \<open>auto simp: lock_P_def rbind_def split: sum.splits if_splits\<close>)
qed

section \<open>Progress\<close>

text \<open>The steps that a thread has before it returns or waits for a signal; an \<^verbatim>\<open>Append\<close> also pays for the steps of the
  waiter it releases.\<close>

fun weight :: "'m SynchList \<Rightarrow> 'm point \<Rightarrow> nat" where
  "weight l (Outside r) = 0" | "weight l (AppendEnter x) = 6" | "weight l (AppendIn x) = 5" | "weight l AppendSignalled = 1"
| "weight l RemoveEnter = 2" | "weight l RemoveIn = 1" | "weight l (RemoveWait a) = (if waiter_value l a = 0 then 0 else 3)"
| "weight l RemoveAgain = 2" | "weight l ApplyEnter = 2" | "weight l ApplyIn = 1"

definition work :: "'m SynchList \<Rightarrow> (nat \<Rightarrow> 'm point) \<Rightarrow> nat" where
  "work l P = (\<Sum>t | weight l (P t) \<noteq> 0. weight l (P t))"

inductive sl_run :: "'m SynchList \<Rightarrow> (nat \<Rightarrow> 'm point) \<Rightarrow> nat \<Rightarrow> 'm SynchList \<Rightarrow> (nat \<Rightarrow> 'm point) \<Rightarrow> bool" where
  run_done: "sl_run l P 0 l P"
| run_more: "sl_run l P n l1 P1 \<Longrightarrow> sl_step t (P1 t) l1 = Inr (Some (q, l2)) \<Longrightarrow> sl_run l P (Suc n) l2 (P1(t := q))"

lemma weight_same: "waiter_value l' = waiter_value l \<Longrightarrow> weight l' p = weight l p"
  by (cases p) auto

lemma work_over:
  assumes "finite S" and "{t. weight l (P t) \<noteq> 0} \<subseteq> S"
  shows "work l P = (\<Sum>t\<in>S. weight l (P t))"
  unfolding work_def using assms by (intro sum.mono_neutral_left) auto

text \<open>A step changes the weight of its own thread, and of one waiter at most.\<close>

definition pays :: "'m SynchList \<Rightarrow> (nat \<Rightarrow> 'm point) \<Rightarrow> 'm SynchList \<Rightarrow> (nat \<Rightarrow> 'm point) \<Rightarrow> nat \<Rightarrow> nat \<Rightarrow> bool" where
  "pays l P l' P' t w \<longleftrightarrow> w \<noteq> t \<and> (\<forall>t'. t' \<noteq> t \<longrightarrow> t' \<noteq> w \<longrightarrow> weight l' (P' t') = weight l (P t'))
     \<and> weight l' (P' t) + weight l' (P' w) < weight l (P t) + weight l (P w)"

lemma pays_same:
  assumes "waiter_value l' = waiter_value l" and "weight l q < weight l (P t)"
  shows "pays l P l' (P(t := q)) t (Suc t)"
  using assms(2) by (simp add: pays_def weight_same [OF assms(1)])

lemma pays_wait:
  assumes "\<And>t'. P t' = RemoveWait a \<Longrightarrow> t' = t" and "waiter_value l' = (waiter_value l)(a := v)" and "weight l' q < weight l (P t)"
  shows "pays l P l' (P(t := q)) t (Suc t)"
proof -
  have "weight l' (P t') = weight l (P t')" if "t' \<noteq> t" for t'
    using assms(1) [of t'] assms(2) that by (cases "P t'") auto
  then show ?thesis using assms(3) by (simp add: pays_def)
qed

lemma pays_signal:
  assumes "wait_inv l P" and "waitQueue l = a # q" and "P t = AppendIn x"
    and "waiter_value l' = (waiter_value l)(a := waiter_value l a + 1)"
  shows "\<exists>w. pays l P l' (P(t := AppendSignalled)) t w"
proof -
  obtain w where w: "P w = RemoveWait a" "waiter_value l a = 0"
    using assms(1,2) by (auto simp: wait_inv_def)
  have "weight l' (P t') = weight l (P t')" if "t' \<noteq> w" for t'
    using assms(1,4) w that by (cases "P t'") (auto simp: wait_inv_def)
  then have "pays l P l' (P(t := AppendSignalled)) t w"
    using w assms(3,4) by (auto simp: pays_def)
  then show ?thesis ..
qed

lemma pays_work:
  assumes "pays l P l' P' t w" and "finite {t. weight l (P t) \<noteq> 0}"
  shows "work l' P' < work l P" and "finite {t. weight l' (P' t) \<noteq> 0}"
proof -
  let ?S = "{t. weight l (P t) \<noteq> 0} - {t, w}" and ?T = "insert t (insert w {t. weight l (P t) \<noteq> 0})"
  have sub: "{t. weight l' (P' t) \<noteq> 0} \<subseteq> ?T" "{t. weight l (P t) \<noteq> 0} \<subseteq> ?T" and T: "?T = insert t (insert w ?S)"
    and fin: "finite ?T" "finite ?S"
    using assms by (auto simp: pays_def)
  have "t \<notin> insert w ?S" "w \<notin> ?S" "(\<Sum>u\<in>?S. weight l' (P' u)) = (\<Sum>u\<in>?S. weight l (P u))"
    using assms(1) by (auto simp: pays_def intro!: sum.cong)
  then show "work l' P' < work l P"
    using assms(1) fin(2) unfolding work_over [OF fin(1) sub(1)] work_over [OF fin(1) sub(2)] T pays_def by simp
  show "finite {t. weight l' (P' t) \<noteq> 0}"
    using sub(1) fin(1) by (rule finite_subset)
qed

lemma step_pays:
  assumes inv: "monitor_inv l P" and st: "sl_step t (P t) l = Inr (Some (q, l'))"
  shows "\<exists>w. pays l P l' (P(t := q)) t w"
proof (cases "P t")
  case (AppendIn x)
  show ?thesis
  proof (cases "waitQueue l")
    case Nil
    then have "waiter_value l' = waiter_value l \<and> weight l q < weight l (P t)"
      using st AppendIn by (auto simp: SynchList_Append_def Signal_def lock_Release_def absl_Append_def Let_def split: if_splits)
    then show ?thesis using pays_same by blast
  next
    case (Cons a w)
    then have "q = AppendSignalled \<and> waiter_value l' = (waiter_value l)(a := waiter_value l a + 1)"
      using st AppendIn by (auto simp: SynchList_Append_def Signal_def absl_Append_def absl_RemoveFront_def Let_def split: if_splits)
    then show ?thesis using pays_signal [of l P a w t x l'] inv AppendIn Cons by (simp add: monitor_inv_def)
  qed
next
  case RemoveIn
  show ?thesis
  proof (cases "items l")
    case Nil
    then have "waiter_value l' = (waiter_value l)(next_waiter l := 0)" "weight l' q < weight l (P t)"
      using st RemoveIn
      by (auto simp: SynchList_RemoveFront_def Condition_Wait_begin_def lock_Release_def absl_Append_def Let_def split: if_splits)
    moreover have "P t' \<noteq> RemoveWait (next_waiter l)" for t'
      using inv by (auto simp: monitor_inv_def wait_inv_def)
    ultimately show ?thesis using pays_wait [of P "next_waiter l" t l' l 0 q] by blast
  next
    case (Cons x xs)
    then have "waiter_value l' = waiter_value l \<and> weight l q < weight l (P t)"
      using st RemoveIn by (auto simp: SynchList_RemoveFront_def lock_Release_def absl_RemoveFront_def Let_def)
    then show ?thesis using pays_same by blast
  qed
next
  case (RemoveWait a)
  then have "waiter_value l' = (waiter_value l)(a := waiter_value l a - 1)" "weight l' q < weight l (P t)"
    using st by (auto split: if_splits)
  moreover have "t' = t" if "P t' = RemoveWait a" for t'
    using inv RemoveWait that by (auto simp: monitor_inv_def wait_inv_def)
  ultimately show ?thesis using pays_wait [of P a t l' l "waiter_value l a - 1" q] by blast
next
  case AppendSignalled
  then have "waiter_value l' = waiter_value l \<and> weight l q < weight l (P t)"
    using st by (auto simp: lock_Release_def rbind_eq_Inr_iff)
  then show ?thesis using pays_same by blast
next
  case ApplyIn
  then have "waiter_value l' = waiter_value l \<and> weight l q < weight l (P t)"
    using st by (auto simp: SynchList_Apply_def lock_Release_def)
  then show ?thesis using pays_same by blast
qed (use st pays_same [of l' l q P t] in \<open>auto simp: lock_P_def split: if_splits\<close>)

lemma sl_reach_finite: "sl_reach (l, P, ins, outs) \<Longrightarrow> finite {t. weight l (P t) \<noteq> 0}"
proof (induction "(l, P, ins, outs)" arbitrary: l P ins outs rule: sl_reach.induct)
  case (sl_thread l P ins outs t q l')
  obtain w where "pays l P l' (P(t := q)) t w"
    using step_pays [of l P t q l'] sl_thread(3) sl_reach_inv [OF sl_thread(1)] by blast
  then show ?case using pays_work(2) sl_thread(2) by blast
next
  case (sl_append l P ins outs t r x)
  show ?case by (rule finite_subset [OF _ finite.insertI [OF sl_append(2), of t]]) auto
next
  case (sl_remove l P ins outs t r)
  show ?case by (rule finite_subset [OF _ finite.insertI [OF sl_remove(2), of t]]) auto
next
  case (sl_apply l P ins outs t r)
  show ?case by (rule finite_subset [OF _ finite.insertI [OF sl_apply(2), of t]]) auto
qed simp

lemma sl_run_reach:
  assumes "sl_run l P n l' P'" and "sl_reach (l, P, ins, outs)"
  shows "(\<exists>ins' outs'. sl_reach (l', P', ins', outs')) \<and> n + work l' P' \<le> work l P"
  using assms
proof (induction rule: sl_run.induct)
  case (run_more l P n l1 P1 t q l2)
  then obtain ins1 outs1 where r: "sl_reach (l1, P1, ins1, outs1)" "n + work l1 P1 \<le> work l P" by blast
  obtain w where "pays l1 P1 l2 (P1(t := q)) t w"
    using step_pays [of l1 P1 t q l2] run_more(2) sl_reach_inv [OF r(1)] by blast
  then have "work l2 (P1(t := q)) < work l1 P1" using pays_work(1) sl_reach_finite [OF r(1)] by blast
  then show ?case using r(2) sl_reach.sl_thread [OF r(1) run_more(2)] by (metis add_Suc leI le_trans less_le_trans nat_add_left_cancel_less not_less_eq)
qed auto

lemma sl_run_trans: "sl_run l1 P1 n l2 P2 \<Longrightarrow> sl_run l P m l1 P1 \<Longrightarrow> sl_run l P (m + n) l2 P2"
  by (induction rule: sl_run.induct) (auto intro: sl_run.run_more)

lemma sl_exec_run:
  "sl_exec (map (\<lambda>t. (t, None)) ts) (l, P, ins, outs) = Some (l', P', ins', outs') \<Longrightarrow> sl_run l P (length ts) l' P'"
proof (induction ts arbitrary: l P ins outs)
  case (Cons t ts)
  then obtain q l1 where s: "sl_step t (P t) l = Inr (Some (q, l1))"
    and "sl_exec (map (\<lambda>t. (t, None)) ts) (l1, P(t := q), ins @ appended (P t), outs @ removed q) = Some (l', P', ins', outs')"
    by (auto split: sum.splits option.splits)
  then show ?case
    using sl_run_trans [OF Cons.IH] sl_run.run_more [of l P 0 l P t q l1] sl_run.run_done s by fastforce
qed (auto intro: sl_run.run_done)

lemmas sl_example_simps = lock_P_def lock_Release_def Signal_def Condition_Wait_begin_def SynchList_Append_def SynchList_RemoveFront_def
  absl_Append_def absl_RemoveFront_def Let_def

section \<open>Correctness\<close>

text \<open>C17: Threads that call \<^verbatim>\<open>Append\<close>, \<^verbatim>\<open>RemoveFront\<close> and \<^verbatim>\<open>Apply\<close> in any interleaving take the items out in the order in
  which they were put in, and no assertion fails, unless an item is appended that is in the list already.\<close>

theorem synchlist_fifo:
  assumes "sl_reach (l, P, ins, outs)"
  shows "ins = outs @ items l \<and> (sl_step t (P t) l = Inl e \<longleftrightarrow> e = AssertFail \<and> (\<exists>x. P t = AppendIn x \<and> x \<in> set (items l)))"
  using sl_reach_inv [OF assms] step_failure by blast

theorem synchlist_fifo_witness:
  "\<exists>l P. sl_exec [(0, Some RemoveEnter), (0, None), (0, None), (1, Some (AppendEnter (7::nat))), (1, None), (1, None), (1, None),
      (0, None), (0, None), (0, None)] (SynchList_new, \<lambda>_. Outside Nothing, [], []) = Some (l, P, [7], [7])
    \<and> [7] = [7] @ items l \<and> sl_step 0 (P 0) l \<noteq> Inl AssertFail"
proof -
  obtain l P where e: "sl_exec [(0, Some RemoveEnter), (0, None), (0, None), (1, Some (AppendEnter (7::nat))), (1, None), (1, None),
      (1, None), (0, None), (0, None), (0, None)] (SynchList_new, \<lambda>_. Outside Nothing, [], []) = Some (l, P, [7], [7])"
    and P: "P 0 = Outside (Item 7)"
    by (simp add: SynchList_new_def sl_example_simps)
  from sl_exec_reach [OF e sl_reach.sl_init] show ?thesis
    using e P synchlist_fifo [of l P "[7]" "[7]" 0 AssertFail] by auto
qed

text \<open>C18: When no further calls are made, the threads come to rest after at most \<^const>\<open>work\<close> steps, whatever the
  interleaving; and when no thread can take a step, each one is out of the monitor or waits, unsignalled, for an item
  of a list that is empty: no wakeup is lost.\<close>

theorem synchlist_progress:
  assumes "sl_reach (l, P, ins, outs)" and "sl_run l P n l' P'"
  shows "n \<le> work l P \<and> (\<forall>t. \<exists>u. sl_step u (P' u) l' \<noteq> Inr None \<or> (\<exists>r. P' t = Outside r)
    \<or> (\<exists>a. P' t = RemoveWait a \<and> a \<in> set (waitQueue l') \<and> items l' = []))"
proof -
  obtain ins' outs' where "sl_reach (l', P', ins', outs')" and n: "n + work l' P' \<le> work l P"
    using sl_run_reach [OF assms(2,1)] by blast
  then have "monitor_inv l' P'" using sl_reach_inv by blast
  then show ?thesis using n stuck_waiting [of l' P'] by auto
qed

theorem synchlist_progress_witness:
  "\<exists>l P l' P'. sl_exec [(0, Some RemoveEnter), (1, Some (AppendEnter (7::nat)))] (SynchList_new, \<lambda>_. Outside Nothing, [], []) = Some (l, P, [], [])
    \<and> sl_exec (map (\<lambda>t. (t, None)) [0, 0, 1, 1, 1, 0, 0, 0]) (l, P, [], []) = Some (l', P', [7], [7]) \<and> 8 \<le> work l P"
proof -
  obtain l P l' P' where e: "sl_exec [(0, Some RemoveEnter), (1, Some (AppendEnter (7::nat)))] (SynchList_new, \<lambda>_. Outside Nothing, [], [])
      = Some (l, P, [], [])"
    and r: "sl_exec (map (\<lambda>t. (t, None)) [0, 0, 1, 1, 1, 0, 0, 0]) (l, P, [], []) = Some (l', P', [7], [7])"
    by (simp add: SynchList_new_def sl_example_simps)
  have "sl_run l P 8 l' P'" using sl_exec_run [OF r] by (simp add: eval_nat_numeral)
  then show ?thesis
    using e r synchlist_progress [OF sl_exec_reach [OF e sl_reach.sl_init]] by blast
qed

end
