(* ===== verification/Network.thy ===== *)
theory Network
  imports Complex_Main FileTable NachosList
begin

text \<open>
  \<^verbatim>\<open>machine/network.cc\<close>, \<^verbatim>\<open>network/post.cc\<close> and the socket routines of \<^verbatim>\<open>lib/sysdep.cc\<close>: machines, each a UNIX process,
  that send datagrams to one another, and the post office that delivers them to mailboxes.

  \<^item> The UNIX calls are a parameter, per process: \<open>u a\<close> are the calls as the process of machine \<open>a\<close> makes them, on the
    state \<open>'h\<close> of the host they share. \<open>datagrams\<close> states what the network relies on.
  \<^item> \<open>fresh\<close> are the bytes that \<^verbatim>\<open>new\<close> finds in memory: buffers are sent and kept beyond what was written into them.
  \<^item> A mailbox is a \<^verbatim>\<open>SynchList\<close> of pointers to mails. Its operations are used here as what \<^verbatim>\<open>SynchList\<close> shows them to
    be: an \<^verbatim>\<open>Append\<close>, and a \<^verbatim>\<open>RemoveFront\<close> that waits while the list is empty. A pointer comes with the mail it points to.
  \<^item> Scheduled interrupts are counted (\<open>recv_due\<close>, \<open>send_due\<close>); handlers run with interrupts disabled.
\<close>

section \<open>Headers\<close>

definition MaxWireSize :: nat where "MaxWireSize = 64"
definition MaxPacketSize :: nat where "MaxPacketSize = MaxWireSize - 12"
definition MaxMailSize :: nat where "MaxMailSize = MaxPacketSize - 12"

record PacketHeader =
  pkt_to :: "32 word"
  pkt_from :: "32 word"
  pkt_length :: "32 word"

record MailHeader =
  mail_to :: "32 word"
  mail_from :: "32 word"
  mail_length :: "32 word"

record Mail =
  pktHdr :: PacketHeader
  mailHdr :: MailHeader
  mail_data :: "byte list"

text \<open>An object of three words in memory, and \<^verbatim>\<open>*(PacketHeader *)buffer\<close>.\<close>

definition PacketHeader_bytes :: "PacketHeader \<Rightarrow> byte list" where
  "PacketHeader_bytes h = words_bytes [pkt_to h, pkt_from h, pkt_length h]"

definition bytes_PacketHeader :: "byte list \<Rightarrow> PacketHeader" where
  "bytes_PacketHeader bs =
     (let ws = bytes_words (take 12 bs) in \<lparr>pkt_to = ws ! 0, pkt_from = ws ! 1, pkt_length = ws ! 2\<rparr>)"

definition MailHeader_bytes :: "MailHeader \<Rightarrow> byte list" where
  "MailHeader_bytes h = words_bytes [mail_to h, mail_from h, mail_length h]"

definition bytes_MailHeader :: "byte list \<Rightarrow> MailHeader" where
  "bytes_MailHeader bs =
     (let ws = bytes_words (take 12 bs) in \<lparr>mail_to = ws ! 0, mail_from = ws ! 1, mail_length = ws ! 2\<rparr>)"

definition new_chars :: "(nat \<Rightarrow> byte) \<Rightarrow> nat \<Rightarrow> byte list" where
  "new_chars fresh n = map fresh [0..<n]"

section \<open>Sockets\<close>

record 'h net_unix = "'h unix" +
  u_dgram :: "'h \<Rightarrow> int \<times> 'h"
  u_bind :: "int \<Rightarrow> byte list \<Rightarrow> 'h \<Rightarrow> int \<times> 'h"
  u_sendto :: "int \<Rightarrow> byte list \<Rightarrow> byte list \<Rightarrow> 'h \<Rightarrow> int \<times> 'h"
  u_recvfrom :: "int \<Rightarrow> int \<Rightarrow> 'h \<Rightarrow> byte list option \<times> 'h"

definition OpenSocket :: "'h net_unix \<Rightarrow> 'h \<Rightarrow> (int \<times> 'h) result" where
  "OpenSocket u h = (let (sockID, h1) = u_dgram u h in rbind (ASSERT (sockID \<ge> 0)) (\<lambda>_. Inr (sockID, h1)))"

definition CloseSocket :: "'h net_unix \<Rightarrow> int \<Rightarrow> 'h \<Rightarrow> 'h" where
  "CloseSocket u sockID h = snd (u_close u sockID h)"

definition AssignNameToSocket :: "'h net_unix \<Rightarrow> byte list \<Rightarrow> int \<Rightarrow> 'h \<Rightarrow> 'h result" where
  "AssignNameToSocket u socketName sockID h =
     (let h1 = snd (u_unlink u socketName h); (retVal, h2) = u_bind u sockID socketName h1 in
      rbind (ASSERT (retVal \<ge> 0)) (\<lambda>_. Inr h2))"

definition DeAssignNameToSocket :: "'h net_unix \<Rightarrow> byte list \<Rightarrow> 'h \<Rightarrow> 'h" where
  "DeAssignNameToSocket u socketName h = snd (u_unlink u socketName h)"

definition PollSocket :: "'h net_unix \<Rightarrow> int \<Rightarrow> 'h \<Rightarrow> (bool \<times> 'h) result" where
  "PollSocket u sockID h = PollFile (unix.truncate u) sockID h"

definition ReadFromSocket :: "'h net_unix \<Rightarrow> int \<Rightarrow> nat \<Rightarrow> 'h \<Rightarrow> (byte list \<times> 'h) result" where
  "ReadFromSocket u sockID packetSize h =
     (let (r, h1) = u_recvfrom u sockID (int packetSize) h in
      rbind (ASSERT (read_count r = int packetSize)) (\<lambda>_. Inr (the r, h1)))"

text \<open>
  One round of the loop of \<^verbatim>\<open>SendToSocket\<close>: \<open>True\<close> when the packet was sent, \<open>False\<close> when the loop goes on after a
  second of sleep, in which other machines can run.
\<close>

definition SendToSocket_try :: "'h net_unix \<Rightarrow> int \<Rightarrow> byte list \<Rightarrow> byte list \<Rightarrow> 'h \<Rightarrow> (bool \<times> 'h) result" where
  "SendToSocket_try u sockID buffer toName h =
     (let (retVal, h1) = u_sendto u sockID buffer toName h in
      if retVal = int (length buffer) then Inr (True, h1)
      else rbind (ASSERT (retVal < 0)) (\<lambda>_. Inr (False, h1)))"

definition max_tries :: nat where "max_tries = 10"

text \<open>\<^verbatim>\<open>sprintf(sockName, "SOCKET_%d", n)\<close>.\<close>

fun decimal :: "nat \<Rightarrow> byte list" where
  "decimal n = (if n < 10 then [of_nat (48 + n)] else decimal (n div 10) @ [of_nat (48 + n mod 10)])"

declare decimal.simps [simp del]

definition print_int :: "int \<Rightarrow> byte list" where
  "print_int i = (if i < 0 then 45 # decimal (nat (- i)) else decimal (nat i))"

definition socket_name :: "32 word \<Rightarrow> byte list" where
  "socket_name a = [83, 79, 67, 75, 69, 84, 95] @ print_int (sint a)"

section \<open>A machine\<close>

record node =
  hostName :: "32 word"
  in_sock :: int
  inHdr :: PacketHeader
  inbox :: "byte list"
  recv_due :: nat
  numPacketsRecvd :: int
  messageAvailable :: int
  numBoxes :: int
  boxes :: "(nat \<times> Mail) list list"
  next_mail :: nat
  worker_buffer :: "byte list"
  out_sock :: int
  chanceToWork :: real
  sendBusy :: bool
  send_due :: nat
  numPacketsSent :: int
  messageSent :: int
  sendLock :: int
  sendHolder :: "nat option"

subsection \<open>Network input\<close>

definition PostOfficeInput_CallBack :: "node \<Rightarrow> node" where
  "PostOfficeInput_CallBack n = n\<lparr>messageAvailable := messageAvailable n + 1\<rparr>"

definition NetworkInput_new :: "'h net_unix \<Rightarrow> node \<Rightarrow> 'h \<Rightarrow> (node \<times> 'h) result" where
  "NetworkInput_new u n h =
     rbind (OpenSocket u h) (\<lambda>(sock, h1).
     rbind (AssignNameToSocket u (socket_name (hostName n)) sock h1) (\<lambda>h2.
     Inr (n\<lparr>inHdr := (inHdr n)\<lparr>pkt_length := 0\<rparr>, in_sock := sock, recv_due := 1\<rparr>, h2)))"

definition NetworkInput_delete :: "'h net_unix \<Rightarrow> node \<Rightarrow> 'h \<Rightarrow> 'h" where
  "NetworkInput_delete u n h = DeAssignNameToSocket u (socket_name (hostName n)) (CloseSocket u (in_sock n) h)"

definition NetworkInput_CallBack :: "'h net_unix \<Rightarrow> node \<Rightarrow> 'h \<Rightarrow> (node \<times> 'h) result" where
  "NetworkInput_CallBack u n0 h =
     (let n = n0\<lparr>recv_due := recv_due n0 + 1\<rparr> in
      if pkt_length (inHdr n) \<noteq> 0 then Inr (n, h)
      else rbind (PollSocket u (in_sock n) h) (\<lambda>(ready, h1).
      if \<not> ready then Inr (n, h1)
      else rbind (ReadFromSocket u (in_sock n) MaxWireSize h1) (\<lambda>(buffer, h2).
      let hdr = bytes_PacketHeader buffer in
      rbind (ASSERT (pkt_to hdr = hostName n \<and> unat (pkt_length hdr) \<le> MaxPacketSize)) (\<lambda>_.
      rbind (copy_out buffer 12 (uint (pkt_length hdr))) (\<lambda>bs.
      rbind (copy_in (inbox n) 0 bs) (\<lambda>inbox'.
      Inr (PostOfficeInput_CallBack (n\<lparr>inHdr := hdr, inbox := inbox', numPacketsRecvd := numPacketsRecvd n + 1\<rparr>), h2)))))))"

text \<open>\<^verbatim>\<open>Receive(data)\<close>, with the buffer that \<open>data\<close> points to.\<close>

definition NetworkInput_Receive :: "node \<Rightarrow> byte list \<Rightarrow> (PacketHeader \<times> byte list \<times> node) result" where
  "NetworkInput_Receive n data =
     (let hdr = inHdr n; n1 = n\<lparr>inHdr := (inHdr n)\<lparr>pkt_length := 0\<rparr>\<rparr> in
      if pkt_length hdr \<noteq> 0
      then rbind (copy_out (inbox n1) 0 (uint (pkt_length hdr))) (\<lambda>bs.
           rbind (copy_in data 0 bs) (\<lambda>data'. Inr (hdr, data', n1)))
      else Inr (hdr, data, n1))"

subsection \<open>Network output\<close>

definition PostOfficeOutput_CallBack :: "node \<Rightarrow> node" where
  "PostOfficeOutput_CallBack n = n\<lparr>messageSent := messageSent n + 1\<rparr>"

definition NetworkOutput_new :: "'h net_unix \<Rightarrow> real \<Rightarrow> node \<Rightarrow> 'h \<Rightarrow> (node \<times> 'h) result" where
  "NetworkOutput_new u reliability n h =
     (let chance = (if reliability < 0 then 0 else if reliability > 1 then 1 else reliability) in
      rbind (OpenSocket u h) (\<lambda>(sock, h1).
      Inr (n\<lparr>chanceToWork := chance, sendBusy := False, send_due := 0, out_sock := sock\<rparr>, h1)))"

definition NetworkOutput_delete :: "'h net_unix \<Rightarrow> node \<Rightarrow> 'h \<Rightarrow> 'h" where
  "NetworkOutput_delete u n h = CloseSocket u (out_sock n) h"

definition NetworkOutput_CallBack :: "node \<Rightarrow> node" where
  "NetworkOutput_CallBack n = PostOfficeOutput_CallBack (n\<lparr>sendBusy := False, numPacketsSent := numPacketsSent n + 1\<rparr>)"

text \<open>
  \<^verbatim>\<open>Send\<close> up to the loop of \<^verbatim>\<open>SendToSocket\<close>, with the number that \<^verbatim>\<open>RandomNumber()\<close> returned: \<open>None\<close> when the packet is
  lost, or what goes out on the wire, and the name to send it to. Packets are padded with what the buffer happens to hold.
\<close>

definition packet_lost :: "32 word \<Rightarrow> real \<Rightarrow> bool" where
  "packet_lost r chance \<longleftrightarrow> real (unat r mod 100) \<ge> chance * 100"

definition NetworkOutput_Send ::
  "(nat \<Rightarrow> byte) \<Rightarrow> 32 word \<Rightarrow> PacketHeader \<Rightarrow> byte list \<Rightarrow> node \<Rightarrow> ((byte list \<times> byte list) option \<times> node) result" where
  "NetworkOutput_Send fresh r hdr data n =
     rbind (ASSERT (\<not> sendBusy n \<and> pkt_length hdr > 0 \<and> unat (pkt_length hdr) \<le> MaxPacketSize \<and> pkt_from hdr = hostName n)) (\<lambda>_.
     let n1 = n\<lparr>send_due := send_due n + 1\<rparr> in
     if packet_lost r (chanceToWork n1) then Inr (None, n1)
     else rbind (copy_in (new_chars fresh MaxWireSize) 0 (PacketHeader_bytes hdr)) (\<lambda>buffer.
          rbind (copy_out data 0 (uint (pkt_length hdr))) (\<lambda>bs.
          rbind (copy_in buffer 12 bs) (\<lambda>buffer'.
          Inr (Some (buffer', socket_name (pkt_to hdr)), n1)))))"

section \<open>Post office\<close>

definition Mail_new :: "(nat \<Rightarrow> byte) \<Rightarrow> PacketHeader \<Rightarrow> MailHeader \<Rightarrow> byte list \<Rightarrow> Mail result" where
  "Mail_new fresh pktH mailH msgData =
     rbind (ASSERT (unat (mail_length mailH) \<le> MaxMailSize)) (\<lambda>_.
     rbind (copy_out msgData 0 (uint (mail_length mailH))) (\<lambda>bs.
     rbind (copy_in (new_chars fresh MaxMailSize) 0 bs) (\<lambda>d.
     Inr \<lparr>pktHdr = pktH, mailHdr = mailH, mail_data = d\<rparr>)))"

definition MailBox_new :: "(nat \<times> Mail) list" where "MailBox_new = []"

text \<open>\<^verbatim>\<open>MailBox::Put\<close> on box \<open>i\<close>, and \<^verbatim>\<open>MailBox::Get\<close> with the caller's buffer; \<open>None\<close> when it has to wait.\<close>

definition MailBox_Put :: "(nat \<Rightarrow> byte) \<Rightarrow> int \<Rightarrow> PacketHeader \<Rightarrow> MailHeader \<Rightarrow> byte list \<Rightarrow> node \<Rightarrow> node result" where
  "MailBox_Put fresh i pktH mailH data n =
     rbind (Mail_new fresh pktH mailH data) (\<lambda>mail.
     rbind (arr_get (boxes n) i) (\<lambda>messages.
     rbind (absl_Append messages (next_mail n, mail)) (\<lambda>messages'.
     rbind (arr_set (boxes n) i messages') (\<lambda>bs.
     Inr (n\<lparr>boxes := bs, next_mail := Suc (next_mail n)\<rparr>)))))"

definition MailBox_Get :: "int \<Rightarrow> byte list \<Rightarrow> node \<Rightarrow> ((PacketHeader \<times> MailHeader \<times> byte list) \<times> node) option result" where
  "MailBox_Get i data n =
     rbind (arr_get (boxes n) i) (\<lambda>messages.
     if messages = [] then Inr None
     else rbind (absl_RemoveFront messages) (\<lambda>((_, mail), messages').
          rbind (arr_set (boxes n) i messages') (\<lambda>bs.
          rbind (copy_out (mail_data mail) 0 (uint (mail_length (mailHdr mail)))) (\<lambda>d.
          rbind (copy_in data 0 d) (\<lambda>data'.
          Inr (Some ((pktHdr mail, mailHdr mail, data'), n\<lparr>boxes := bs\<rparr>)))))))"

definition PostOfficeInput_new :: "'h net_unix \<Rightarrow> (nat \<Rightarrow> byte) \<Rightarrow> nat \<Rightarrow> node \<Rightarrow> 'h \<Rightarrow> (node \<times> 'h) result" where
  "PostOfficeInput_new u fresh nBoxes n h =
     (let n1 = n\<lparr>messageAvailable := 0, numBoxes := int nBoxes, boxes := replicate nBoxes MailBox_new\<rparr> in
      rbind (NetworkInput_new u n1 h) (\<lambda>(n2, h1). Inr (n2\<lparr>worker_buffer := new_chars fresh MaxPacketSize\<rparr>, h1)))"

definition PostOfficeInput_delete :: "'h net_unix \<Rightarrow> node \<Rightarrow> 'h \<Rightarrow> node \<times> 'h" where
  "PostOfficeInput_delete u n h = (let h1 = NetworkInput_delete u n h in (n\<lparr>boxes := []\<rparr>, h1))"

text \<open>What the postal worker does with one message, after the \<^verbatim>\<open>P\<close>.\<close>

definition PostalDelivery_body :: "(nat \<Rightarrow> byte) \<Rightarrow> node \<Rightarrow> node result" where
  "PostalDelivery_body fresh n =
     rbind (NetworkInput_Receive n (worker_buffer n)) (\<lambda>(pktH, buffer, n1).
     let mailH = bytes_MailHeader buffer; n2 = n1\<lparr>worker_buffer := buffer\<rparr> in
     rbind (ASSERT (0 \<le> sint (mail_to mailH) \<and> sint (mail_to mailH) < numBoxes n2)) (\<lambda>_.
     rbind (ASSERT (unat (mail_length mailH) \<le> MaxMailSize)) (\<lambda>_.
     MailBox_Put fresh (sint (mail_to mailH)) pktH mailH (drop 12 buffer) n2)))"

definition PostOfficeInput_Receive ::
  "int \<Rightarrow> byte list \<Rightarrow> node \<Rightarrow> ((PacketHeader \<times> MailHeader \<times> byte list) \<times> node) option result" where
  "PostOfficeInput_Receive box data n =
     rbind (ASSERT (box \<ge> 0 \<and> box < numBoxes n)) (\<lambda>_.
     rbind (MailBox_Get box data n) (\<lambda>r.
     case r of None \<Rightarrow> Inr None
     | Some ((pktH, mailH, d), n1) \<Rightarrow>
         rbind (ASSERT (unat (mail_length mailH) \<le> MaxMailSize)) (\<lambda>_. Inr (Some ((pktH, mailH, d), n1)))))"

definition PostOfficeOutput_new :: "'h net_unix \<Rightarrow> real \<Rightarrow> node \<Rightarrow> 'h \<Rightarrow> (node \<times> 'h) result" where
  "PostOfficeOutput_new u reliability n h =
     NetworkOutput_new u reliability (n\<lparr>messageSent := 0, sendLock := 1, sendHolder := None\<rparr>) h"

definition PostOfficeOutput_delete :: "'h net_unix \<Rightarrow> node \<Rightarrow> 'h \<Rightarrow> 'h" where
  "PostOfficeOutput_delete u n h = NetworkOutput_delete u n h"

text \<open>\<^verbatim>\<open>PostOfficeOutput::Send\<close> before it acquires the lock: the packet for the network.\<close>

definition PostOfficeOutput_pack ::
  "(nat \<Rightarrow> byte) \<Rightarrow> PacketHeader \<Rightarrow> MailHeader \<Rightarrow> byte list \<Rightarrow> node \<Rightarrow> (PacketHeader \<times> byte list) result" where
  "PostOfficeOutput_pack fresh pktH mailH data n =
     rbind (ASSERT (unat (mail_length mailH) \<le> MaxMailSize)) (\<lambda>_.
     rbind (ASSERT (0 \<le> sint (mail_to mailH))) (\<lambda>_.
     let pktH' = pktH\<lparr>pkt_from := hostName n, pkt_length := mail_length mailH + 12\<rparr> in
     rbind (copy_in (new_chars fresh MaxPacketSize) 0 (MailHeader_bytes mailH)) (\<lambda>buffer.
     rbind (copy_out data 0 (uint (mail_length mailH))) (\<lambda>bs.
     rbind (copy_in buffer 12 bs) (\<lambda>buffer'. Inr (pktH', buffer'))))))"

section \<open>Machines that run together\<close>

text \<open>
  A thread of a machine is at a control point:
  \<^item> \<open>SendEnter\<close>: in \<^verbatim>\<open>PostOfficeOutput::Send\<close>, waiting for \<^verbatim>\<open>sendLock\<close>, with the packet it made; \<open>SendIn\<close>: after that \<^verbatim>\<open>P\<close>;
  \<^item> \<open>SendTry k\<close>: in the loop of \<^verbatim>\<open>SendToSocket\<close>, after \<open>k\<close> rounds;
  \<^item> \<open>SendWait\<close>: waiting for \<^verbatim>\<open>messageSent\<close>; \<open>SendOut\<close>: after that \<^verbatim>\<open>P\<close>;
  \<^item> \<open>WorkerWait\<close>, \<open>WorkerIn\<close>: the postal worker, before and after the \<^verbatim>\<open>P\<close> of \<^verbatim>\<open>PostalDelivery\<close>;
  \<^item> \<open>GetWait b d\<close>: in \<^verbatim>\<open>PostOfficeInput::Receive\<close> for box \<open>b\<close>, with the buffer \<open>d\<close>;
  \<^item> \<open>Idle\<close>: in no call, with what the last \<^verbatim>\<open>Receive\<close> returned.
\<close>

type_synonym letter = "PacketHeader \<times> MailHeader \<times> byte list"

datatype npoint = Idle "letter option" | SendEnter PacketHeader "byte list" | SendIn PacketHeader "byte list"
  | SendTry nat "byte list" "byte list" | SendWait | SendOut | WorkerWait | WorkerIn | GetWait int "byte list"

fun node_step ::
  "'h net_unix \<Rightarrow> (nat \<Rightarrow> byte) \<Rightarrow> 32 word \<Rightarrow> nat \<Rightarrow> npoint \<Rightarrow> node \<Rightarrow> 'h \<Rightarrow> (npoint \<times> node \<times> 'h) option result" where
  "node_step u fresh r t (Idle l) n h = Inr None"
| "node_step u fresh r t (SendEnter p b) n h =
     Inr (if sendLock n = 0 then None else Some (SendIn p b, n\<lparr>sendLock := sendLock n - 1\<rparr>, h))"
| "node_step u fresh r t (SendIn p b) n h =
     rbind (NetworkOutput_Send fresh r p b (n\<lparr>sendHolder := Some t\<rparr>)) (\<lambda>(w, n1).
     Inr (Some (case w of None \<Rightarrow> SendWait | Some (wire, name) \<Rightarrow> SendTry 0 wire name, n1, h)))"
| "node_step u fresh r t (SendTry k wire name) n h =
     (if k \<ge> max_tries then Inr (Some (SendWait, n, h))
      else rbind (SendToSocket_try u (out_sock n) wire name h) (\<lambda>(sent, h1).
           Inr (Some (if sent then SendWait else SendTry (Suc k) wire name, n, h1))))"
| "node_step u fresh r t SendWait n h =
     Inr (if messageSent n = 0 then None else Some (SendOut, n\<lparr>messageSent := messageSent n - 1\<rparr>, h))"
| "node_step u fresh r t SendOut n h =
     rbind (ASSERT (sendHolder n = Some t)) (\<lambda>_. Inr (Some (Idle None, n\<lparr>sendHolder := None, sendLock := sendLock n + 1\<rparr>, h)))"
| "node_step u fresh r t WorkerWait n h =
     Inr (if messageAvailable n = 0 then None else Some (WorkerIn, n\<lparr>messageAvailable := messageAvailable n - 1\<rparr>, h))"
| "node_step u fresh r t WorkerIn n h = rbind (PostalDelivery_body fresh n) (\<lambda>n1. Inr (Some (WorkerWait, n1, h)))"
| "node_step u fresh r t (GetWait b d) n h =
     rbind (PostOfficeInput_Receive b d n) (\<lambda>x.
     Inr (case x of None \<Rightarrow> None | Some (l, n1) \<Rightarrow> Some (Idle (Some l), n1, h)))"

text \<open>The part of \<^verbatim>\<open>Kernel::Initialize\<close> that starts the post office; the fields of \<open>raw\<close> are what \<^verbatim>\<open>new\<close> finds in memory.\<close>

definition node_boot ::
  "'h net_unix \<Rightarrow> (nat \<Rightarrow> byte) \<Rightarrow> real \<Rightarrow> 32 word \<Rightarrow> node \<Rightarrow> 'h \<Rightarrow> (node \<times> 'h) result" where
  "node_boot u fresh reliability a raw h =
     rbind (PostOfficeInput_new u fresh 10 (raw\<lparr>hostName := a, numPacketsRecvd := 0, numPacketsSent := 0\<rparr>) h) (\<lambda>(n1, h1).
     PostOfficeOutput_new u reliability n1 h1)"

definition receive_interrupt :: "'h net_unix \<Rightarrow> node \<Rightarrow> 'h \<Rightarrow> (node \<times> 'h) result" where
  "receive_interrupt u n h = NetworkInput_CallBack u (n\<lparr>recv_due := recv_due n - 1\<rparr>) h"

definition send_interrupt :: "node \<Rightarrow> node" where
  "send_interrupt n = NetworkOutput_CallBack (n\<lparr>send_due := send_due n - 1\<rparr>)"

text \<open>The letter in a packet: its headers, and the bytes of its data.\<close>

definition packet_letter :: "PacketHeader \<Rightarrow> byte list \<Rightarrow> letter" where
  "packet_letter p bs = (let m = bytes_MailHeader bs in (p, m, take (unat (mail_length m)) (drop 12 bs)))"

definition wire_letter :: "byte list \<Rightarrow> letter" where
  "wire_letter w = packet_letter (bytes_PacketHeader w) (drop 12 w)"

definition mail_letter :: "Mail \<Rightarrow> letter" where
  "mail_letter m = (pktHdr m, mailHdr m, take (unat (mail_length (mailHdr m))) (mail_data m))"

definition letter_box :: "letter \<Rightarrow> int" where
  "letter_box l = sint (mail_to (fst (snd l)))"

section \<open>Buffers and headers\<close>

lemmas size_defs = MaxWireSize_def MaxPacketSize_def MaxMailSize_def

lemma length_new_chars [simp]: "length (new_chars fresh n) = n"
  by (simp add: new_chars_def)

lemma copy_out_Inr_iff: "copy_out buf i n = Inr bs \<longleftrightarrow> 0 \<le> i \<and> 0 \<le> n \<and> i + n \<le> int (length buf) \<and> bs = take (nat n) (drop (nat i) buf)"
  by (auto simp: copy_out_def)

lemma copy_in_Inr_iff:
  "copy_in buf i bs = Inr buf' \<longleftrightarrow> 0 \<le> i \<and> i + int (length bs) \<le> int (length buf)
     \<and> buf' = take (nat i) buf @ bs @ drop (nat i + length bs) buf"
  by (auto simp: copy_in_def)

interpretation ph: flat_object "\<lambda>_. True" PacketHeader_bytes bytes_PacketHeader 12
  by unfold_locales (simp_all add: PacketHeader_bytes_def bytes_PacketHeader_def Let_def del: words_bytes_Cons)

interpretation mh: flat_object "\<lambda>_. True" MailHeader_bytes bytes_MailHeader 12
  by unfold_locales (simp_all add: MailHeader_bytes_def bytes_MailHeader_def Let_def del: words_bytes_Cons)

lemma bytes_PacketHeader_take: "bytes_PacketHeader (take 12 bs) = bytes_PacketHeader bs"
  by (simp add: bytes_PacketHeader_def)

lemma bytes_MailHeader_take: "bytes_MailHeader (take 12 bs) = bytes_MailHeader bs"
  by (simp add: bytes_MailHeader_def)

lemma bytes_MailHeader_append: "bytes_MailHeader (MailHeader_bytes m @ bs) = m"
  using bytes_MailHeader_take [of "MailHeader_bytes m @ bs"] mh.enc_length [of m] mh.dec_enc [of m] by simp

lemma bytes_PacketHeader_append: "bytes_PacketHeader (PacketHeader_bytes p @ bs) = p"
  using bytes_PacketHeader_take [of "PacketHeader_bytes p @ bs"] ph.enc_length [of p] ph.dec_enc [of p] by simp

text \<open>A packet to machine \<open>a\<close> as the post office makes them, in a buffer that may be longer.\<close>

definition packet_ok :: "32 word \<Rightarrow> PacketHeader \<Rightarrow> byte list \<Rightarrow> bool" where
  "packet_ok a p bs \<longleftrightarrow> (let m = bytes_MailHeader bs in
     pkt_to p = a \<and> unat (pkt_length p) = 12 + unat (mail_length m) \<and> unat (mail_length m) \<le> MaxMailSize
     \<and> unat (pkt_length p) \<le> length bs \<and> 0 \<le> sint (mail_to m))"

lemma packet_cong:
  assumes "packet_ok a p bs" and "take (unat (pkt_length p)) bs' = take (unat (pkt_length p)) bs"
  shows "packet_ok a p bs'" and "packet_letter p bs' = packet_letter p bs"
proof -
  let ?k = "unat (pkt_length p)" and ?m = "bytes_MailHeader bs"
  have k: "?k = 12 + unat (mail_length ?m)" "?k \<le> length bs" using assms(1) by (simp_all add: packet_ok_def Let_def)
  have "min ?k (length bs') = ?k" using arg_cong [OF assms(2), of length] k(2) by simp
  then have l: "?k \<le> length bs'" by simp
  have "take 12 (take ?k bs') = take 12 (take ?k bs)" using assms(2) by simp
  then have "take 12 bs' = take 12 bs" using k(1) by (simp add: min_def)
  then have m: "bytes_MailHeader bs' = ?m" by (metis bytes_MailHeader_take)
  show "packet_ok a p bs'" using assms(1) l m by (simp add: packet_ok_def Let_def)
  have "drop 12 (take ?k bs') = drop 12 (take ?k bs)" using assms(2) by simp
  then show "packet_letter p bs' = packet_letter p bs"
    using k(1) by (simp add: packet_letter_def m Let_def drop_take)
qed

lemma packet_ok_sizes:
  assumes "packet_ok a p bs"
  shows "0 < pkt_length p" "unat (pkt_length p) \<le> MaxPacketSize"
  using assms by (auto simp: packet_ok_def Let_def size_defs word_gt_0 unat_eq_zero)

text \<open>What \<^verbatim>\<open>Send\<close> makes of a message.\<close>

lemma pack_ok:
  assumes "PostOfficeOutput_pack fresh p0 m d n = Inr (p, b)"
  shows "packet_ok (pkt_to p0) p b" and "pkt_from p = hostName n" and "pkt_to p = pkt_to p0"
    and "packet_letter p b = (p, m, take (unat (mail_length m)) d)"
proof -
  define k where "k = unat (mail_length m)"
  then have u: "unat (mail_length m) = k" "uint (mail_length m) = int k" by simp_all
  have k: "k \<le> 40" "0 \<le> sint (mail_to m)" "k \<le> length d"
    and p: "p = p0\<lparr>pkt_from := hostName n, pkt_length := mail_length m + 12\<rparr>"
    and b: "b = MailHeader_bytes m @ take k d @ drop (k + 12) (new_chars fresh 52)"
    using assms mh.enc_length [of m] unfolding PostOfficeOutput_pack_def u
    by (auto simp: rbind_eq_Inr_iff copy_out_Inr_iff copy_in_Inr_iff Let_def size_defs min_def)
  have l: "unat (mail_length m + 12) = 12 + k"
    using k(1) u(1) by (subst unat_add_lem [THEN iffD1]) simp_all
  show "packet_ok (pkt_to p0) p b"
    using k l mh.enc_length [of m] unfolding packet_ok_def b bytes_MailHeader_append by (simp add: p Let_def size_defs u)
  show "pkt_from p = hostName n" "pkt_to p = pkt_to p0" by (simp_all add: p)
  show "packet_letter p b = (p, m, take (unat (mail_length m)) d)"
    using k(3) mh.enc_length [of m] unfolding packet_letter_def b bytes_MailHeader_append by (simp add: Let_def u)
qed

definition wire_ok :: "32 word \<Rightarrow> byte list \<Rightarrow> bool" where
  "wire_ok a w \<longleftrightarrow> length w = MaxWireSize \<and> packet_ok a (bytes_PacketHeader w) (drop 12 w)"

lemma NetworkOutput_Send_ok:
  assumes "packet_ok a p b" and "pkt_from p = hostName n" and "\<not> sendBusy n"
  obtains "NetworkOutput_Send fresh r p b n = Inr (None, n\<lparr>send_due := send_due n + 1\<rparr>)"
  | w where "NetworkOutput_Send fresh r p b n = Inr (Some (w, socket_name a), n\<lparr>send_due := send_due n + 1\<rparr>)"
    and "wire_ok a w" and "wire_letter w = packet_letter p b"
proof -
  define k where "k = unat (pkt_length p)"
  then have u: "unat (pkt_length p) = k" "uint (pkt_length p) = int k" by simp_all
  define w where "w = PacketHeader_bytes p @ take k b @ drop (k + 12) (new_chars fresh 64)"
  have k: "k \<le> 52" "k \<le> length b" "0 < pkt_length p" "pkt_to p = a"
    using packet_ok_sizes [OF assms(1)] assms(1) by (auto simp: packet_ok_def Let_def size_defs u(1))
  have hdr: "bytes_PacketHeader w = p" by (simp add: w_def bytes_PacketHeader_append)
  have d: "drop 12 w = take k b @ drop (k + 12) (new_chars fresh 64)"
    using ph.enc_length [of p] by (simp add: w_def)
  have "take k (drop 12 w) = take k b" using k(2) by (simp add: d)
  then have "packet_ok a p (drop 12 w)" "packet_letter p (drop 12 w) = packet_letter p b"
    using packet_cong [OF assms(1)] u(1) by blast+
  moreover have "length w = 64" using k ph.enc_length [of p] by (simp add: w_def)
  ultimately have w: "wire_ok a w" "wire_letter w = packet_letter p b"
    by (simp_all add: wire_ok_def wire_letter_def hdr size_defs)
  have "NetworkOutput_Send fresh r p b n =
      Inr (if packet_lost r (chanceToWork n) then None else Some (w, socket_name a), n\<lparr>send_due := send_due n + 1\<rparr>)"
    using k assms(2,3) ph.enc_length [of p] unfolding NetworkOutput_Send_def u
    by (simp add: copy_in_def copy_out_def Let_def size_defs w_def)
  then show thesis using that w by (cases "packet_lost r (chanceToWork n)") auto
qed

end
