(* ===== verification/NetworkProofs.thy ===== *)
theory NetworkProofs
  imports Network
begin

text \<open>
  Correctness of the network and the post office: whatever the interleaving of the machines, their threads and their
  interrupts, the letters that arrive are letters that were sent, unchanged and in the order in which they were sent;
  and nothing but a letter to a mailbox that the receiver does not have stops a machine.
\<close>

section \<open>The host\<close>

text \<open>
  What is assumed of the datagram sockets of UNIX. \<open>q h name\<close> are the datagrams that wait at the socket bound to a
  name, \<open>nm h a fd\<close> is the name that descriptor \<open>fd\<close> of process \<open>a\<close> is bound to.
  \<^item> \<^verbatim>\<open>sendto\<close> puts the whole datagram at the end of the queue of the name, or fails with a negative result;
  \<^item> \<^verbatim>\<open>select\<close> says that there is something to read only when there is;
  \<^item> \<^verbatim>\<open>recvfrom\<close> takes the first datagram;
  \<^item> \<^verbatim>\<open>socket\<close>, \<^verbatim>\<open>unlink\<close> and \<^verbatim>\<open>bind\<close> leave the other names and descriptors alone; a name just bound has no datagrams.
\<close>

definition keeps :: "('h \<Rightarrow> byte list \<Rightarrow> byte list list) \<Rightarrow> ('h \<Rightarrow> 32 word \<Rightarrow> int \<Rightarrow> byte list option) \<Rightarrow> (byte list \<Rightarrow> bool) \<Rightarrow> (32 word \<Rightarrow> bool)
    \<Rightarrow> 'h \<Rightarrow> 'h \<Rightarrow> bool" where
  "keeps q nm names procs h h' \<longleftrightarrow> (\<forall>name. names name \<longrightarrow> q h' name = q h name)
     \<and> (\<forall>a fd name. procs a \<longrightarrow> names name \<longrightarrow> nm h a fd = Some name \<longrightarrow> nm h' a fd = Some name)"

definition datagrams ::
  "(32 word \<Rightarrow> 'h net_unix) \<Rightarrow> ('h \<Rightarrow> byte list \<Rightarrow> byte list list) \<Rightarrow> ('h \<Rightarrow> 32 word \<Rightarrow> int \<Rightarrow> byte list option) \<Rightarrow> bool" where
  "datagrams u q nm \<longleftrightarrow>
     (\<forall>a fd d name h r h'. u_sendto (u a) fd d name h = (r, h') \<longrightarrow> nm h' = nm h
        \<and> (r = int (length d) \<and> q h' = (q h)(name := q h name @ [d]) \<or> r < 0 \<and> q h' = q h))
   \<and> (\<forall>a fd name h r h'. nm h a fd = Some name \<longrightarrow> u_poll (u a) fd h = (r, h') \<longrightarrow>
        nm h' = nm h \<and> q h' = q h \<and> (r = 0 \<or> r = 1 \<and> q h name \<noteq> []))
   \<and> (\<forall>a fd name d ds k h r h'. nm h a fd = Some name \<longrightarrow> q h name = d # ds \<longrightarrow> u_recvfrom (u a) fd k h = (r, h') \<longrightarrow>
        r = Some (take (nat k) d) \<and> nm h' = nm h \<and> q h' = (q h)(name := ds))
   \<and> (\<forall>a h r h'. u_dgram (u a) h = (r, h') \<longrightarrow> keeps q nm (\<lambda>_. True) (\<lambda>_. True) h h')
   \<and> (\<forall>a name h r h'. u_unlink (u a) name h = (r, h') \<longrightarrow> keeps q nm (\<lambda>m. m \<noteq> name) (\<lambda>_. True) h h')
   \<and> (\<forall>a fd name h r h'. u_bind (u a) fd name h = (r, h') \<longrightarrow> keeps q nm (\<lambda>m. m \<noteq> name) (\<lambda>b. b \<noteq> a) h h'
        \<and> (r \<ge> 0 \<longrightarrow> nm h' a fd = Some name \<and> q h' name = []))"

lemmas datagrams_laws = datagrams_def [THEN iffD1]

lemmas sendto_law = datagrams_laws [THEN conjunct1, rule_format]
  and poll_law = datagrams_laws [THEN conjunct2, THEN conjunct1, rule_format]
  and recvfrom_law = datagrams_laws [THEN conjunct2, THEN conjunct2, THEN conjunct1, rule_format]
  and dgram_law = datagrams_laws [THEN conjunct2, THEN conjunct2, THEN conjunct2, THEN conjunct1, rule_format]
  and unlink_law = datagrams_laws [THEN conjunct2, THEN conjunct2, THEN conjunct2, THEN conjunct2, THEN conjunct1, rule_format]
  and bind_law = datagrams_laws [THEN conjunct2, THEN conjunct2, THEN conjunct2, THEN conjunct2, THEN conjunct2, rule_format]

section \<open>Names of sockets\<close>

text \<open>Different machines have different names.\<close>

fun decimal_value :: "byte list \<Rightarrow> nat" where
  "decimal_value bs = foldl (\<lambda>v b. 10 * v + (unat b - 48)) 0 bs"

lemma digit_value: "n < 10 \<Longrightarrow> unat (of_nat (48 + n) :: byte) - 48 = n"
  by (simp add: unat_of_nat del: of_nat_add)

lemma decimal_value_decimal: "decimal_value (decimal n) = n"
proof (induction n rule: decimal.induct)
  case (1 n)
  show ?case
  proof (cases "n < 10")
    case True
    then show ?thesis using digit_value [of n] by (simp add: decimal.simps [of n] del: of_nat_add)
  next
    case False
    have "decimal_value (decimal n) = 10 * decimal_value (decimal (n div 10)) + (unat (of_nat (48 + n mod 10) :: byte) - 48)"
      using False by (simp add: decimal.simps [of n] del: of_nat_add)
    also have "\<dots> = 10 * (n div 10) + n mod 10"
      using 1 [OF False] digit_value [of "n mod 10"] by (simp del: of_nat_add)
    finally show ?thesis by simp
  qed
qed

lemma decimal_digits: "b \<in> set (decimal n) \<Longrightarrow> 48 \<le> unat b"
proof (induction n rule: decimal.induct)
  case (1 n)
  have d: "48 \<le> unat (of_nat (48 + m) :: byte)" if "m < 10" for m
    using that by (simp add: unat_of_nat del: of_nat_add)
  show ?case
  proof (cases "n < 10")
    case True
    then show ?thesis using 1(2) d [of n] by (simp add: decimal.simps [of n] del: of_nat_add)
  next
    case False
    then show ?thesis using 1 d [of "n mod 10"] by (auto simp: decimal.simps [of n] simp del: of_nat_add)
  qed
qed

lemma decimal_inject: "decimal m = decimal n \<Longrightarrow> m = n"
  by (metis decimal_value_decimal)

lemma print_int_inject: "print_int i = print_int j \<Longrightarrow> i = j"
proof -
  have "45 # xs \<noteq> decimal n" for xs n
  proof
    assume "45 # xs = decimal n"
    then have "45 \<in> set (decimal n)" by (metis list.set_intros(1))
    from decimal_digits [OF this] show False by simp
  qed
  then have "decimal n \<noteq> 45 # xs" "45 # xs \<noteq> decimal n" for xs n by metis+
  then show "print_int i = print_int j \<Longrightarrow> i = j"
    by (auto simp: print_int_def dest!: decimal_inject split: if_splits)
qed

lemma socket_name_inject: "socket_name a = socket_name b \<longleftrightarrow> a = b"
proof
  assume "socket_name a = socket_name b"
  then have "sint a = sint b" using print_int_inject by (simp add: socket_name_def)
  then have "uint a = uint b" by (simp add: uint_sint)
  then show "a = b" by (rule unsigned_word_eqI)
qed simp

section \<open>Operations\<close>

text \<open>The receive interrupt: nothing happens, or the first datagram moves into the buffer of the network.\<close>

lemma receive_ok:
  assumes law: "datagrams u q nm" and nm: "nm h a (in_sock n) = Some (socket_name a)" and "hostName n = a"
    and box: "length (inbox n) = MaxPacketSize" and qs: "list_all (wire_ok a) (q h (socket_name a))"
  obtains h' where "NetworkInput_CallBack (u a) n h = Inr (n\<lparr>recv_due := recv_due n + 1\<rparr>, h')" and "nm h' = nm h" and "q h' = q h"
  | h' w ws bs where "NetworkInput_CallBack (u a) n h = Inr (n\<lparr>recv_due := recv_due n + 1, inHdr := bytes_PacketHeader w, inbox := bs,
        numPacketsRecvd := numPacketsRecvd n + 1, messageAvailable := messageAvailable n + 1\<rparr>, h')"
      and "nm h' = nm h" and "q h (socket_name a) = w # ws" and "q h' = (q h)(socket_name a := ws)" and "pkt_length (inHdr n) = 0"
      and "length bs = MaxPacketSize" and "packet_ok a (bytes_PacketHeader w) bs" and "packet_letter (bytes_PacketHeader w) bs = wire_letter w"
proof (cases "pkt_length (inHdr n) = 0")
  case False
  then show thesis using that(1) [of h] by (simp add: NetworkInput_CallBack_def Let_def)
next
  case True
  obtain r h1 where poll: "u_poll (u a) (in_sock n) h = (r, h1)" by fastforce
  have p: "nm h1 = nm h" "q h1 = q h" "r = 0 \<or> r = 1 \<and> q h (socket_name a) \<noteq> []"
    using poll_law [OF law nm poll] by auto
  have ps: "PollSocket (u a) (in_sock n) h = Inr (r \<noteq> 0, h1)"
    using p(3) poll by (auto simp: PollSocket_def PollFile_def unix.truncate_def unix.defs)
  show thesis
  proof (cases "r = 0")
    case r0: True
    then show thesis using that(1) [of h1] True ps p by (simp add: NetworkInput_CallBack_def Let_def)
  next
    case False
    then obtain w ws where w: "q h1 (socket_name a) = w # ws" using p by (cases "q h (socket_name a)") auto
    obtain x h2 where rv: "u_recvfrom (u a) (in_sock n) 64 h1 = (x, h2)" by fastforce
    have ok: "wire_ok a w" using qs w p(2) by simp
    then have lw: "length w = 64" by (simp add: wire_ok_def size_defs)
    have x: "x = Some w" "nm h2 = nm h1" "q h2 = (q h1)(socket_name a := ws)"
      using recvfrom_law [OF law _ w rv] nm p(1) lw by auto
    let ?p = "bytes_PacketHeader w"
    define k where "k = unat (pkt_length ?p)"
    then have u: "unat (pkt_length ?p) = k" "uint (pkt_length ?p) = int k" by simp_all
    define bs where "bs = take k (drop 12 w) @ drop k (inbox n)"
    have po: "packet_ok a ?p (drop 12 w)" using ok by (simp add: wire_ok_def)
    have k: "k \<le> 52" "pkt_to ?p = a" using packet_ok_sizes [OF po] po by (auto simp: packet_ok_def Let_def size_defs u(1))
    have "take k bs = take k (drop 12 w)" using k(1) lw by (simp add: bs_def)
    then have "packet_ok a ?p bs" "packet_letter ?p bs = wire_letter w"
      using packet_cong [OF po, of bs] u(1) by (simp_all add: wire_letter_def)
    moreover have "length bs = MaxPacketSize" using k(1) lw box by (simp add: bs_def size_defs)
    moreover have "NetworkInput_CallBack (u a) n h = Inr (n\<lparr>recv_due := recv_due n + 1, inHdr := ?p, inbox := bs,
        numPacketsRecvd := numPacketsRecvd n + 1, messageAvailable := messageAvailable n + 1\<rparr>, h2)"
      using True False ps rv x(1) lw k box assms(3)
      by (simp add: NetworkInput_CallBack_def ReadFromSocket_def PostOfficeInput_CallBack_def read_count_def size_defs Let_def u
          copy_out_def copy_in_def bs_def min_def)
    ultimately show thesis using that(2) [of bs w h2 ws] x p w True by simp
  qed
qed

text \<open>The postal worker puts the letter that waits in the network into its mailbox, when there is such a mailbox.\<close>

definition mail_ok :: "Mail \<Rightarrow> bool" where
  "mail_ok m \<longleftrightarrow> unat (mail_length (mailHdr m)) \<le> MaxMailSize \<and> length (mail_data m) = MaxMailSize"

lemma Mail_new_ok:
  assumes "unat (mail_length m) \<le> MaxMailSize" and "unat (mail_length m) \<le> length d"
  obtains mail where "Mail_new fresh p m d = Inr mail" and "mail_ok mail" and "mail_letter mail = (p, m, take (unat (mail_length m)) d)"
proof -
  define k where "k = unat (mail_length m)"
  then have u: "unat (mail_length m) = k" "uint (mail_length m) = int k" by simp_all
  let ?mail = "\<lparr>pktHdr = p, mailHdr = m, mail_data = take k d @ drop k (new_chars fresh MaxMailSize)\<rparr>"
  have "Mail_new fresh p m d = Inr ?mail"
    using assms by (simp add: Mail_new_def copy_in_def copy_out_def u min_def)
  then show thesis
    using that [of ?mail] assms by (simp add: mail_ok_def mail_letter_def u)
qed

lemma NetworkInput_Receive_ok:
  assumes "packet_ok a (inHdr n) (inbox n)" and "length d = MaxPacketSize"
  obtains d' where "NetworkInput_Receive n d = Inr (inHdr n, d', n\<lparr>inHdr := (inHdr n)\<lparr>pkt_length := 0\<rparr>\<rparr>)"
    and "length d' = MaxPacketSize" and "packet_ok a (inHdr n) d'" and "packet_letter (inHdr n) d' = packet_letter (inHdr n) (inbox n)"
proof -
  define k where "k = unat (pkt_length (inHdr n))"
  then have u: "unat (pkt_length (inHdr n)) = k" "uint (pkt_length (inHdr n)) = int k" by simp_all
  have k: "k \<le> MaxPacketSize" "k \<le> length (inbox n)" "pkt_length (inHdr n) \<noteq> 0"
    using packet_ok_sizes [OF assms(1)] assms(1) by (auto simp: packet_ok_def Let_def u(1))
  let ?d = "take k (inbox n) @ drop k d"
  have "take k ?d = take k (inbox n)" using k(2) by simp
  then have "packet_ok a (inHdr n) ?d" "packet_letter (inHdr n) ?d = packet_letter (inHdr n) (inbox n)"
    using packet_cong [OF assms(1), of ?d] u(1) by simp_all
  moreover have "NetworkInput_Receive n d = Inr (inHdr n, ?d, n\<lparr>inHdr := (inHdr n)\<lparr>pkt_length := 0\<rparr>\<rparr>)"
    using k assms(2) by (simp add: NetworkInput_Receive_def copy_in_def copy_out_def Let_def u min_def)
  ultimately show thesis using that [of ?d] k assms(2) by simp
qed

lemma deliver_ok:
  assumes po: "packet_ok a (inHdr n) (inbox n)" and "length (worker_buffer n) = MaxPacketSize" and "numBoxes n = int (length (boxes n))"
    and fresh_mail: "list_all (\<lambda>b. list_all (\<lambda>x. fst x < next_mail n) b) (boxes n)"
    and l: "l = packet_letter (inHdr n) (inbox n)" and i: "i = nat (letter_box l)"
  obtains "numBoxes n \<le> letter_box l" and "PostalDelivery_body fresh n = Inl AssertFail"
  | mail d where "letter_box l = int i" and "i < length (boxes n)" and "mail_ok mail" and "mail_letter mail = l" and "length d = MaxPacketSize"
    and "PostalDelivery_body fresh n = Inr (n\<lparr>inHdr := (inHdr n)\<lparr>pkt_length := 0\<rparr>, worker_buffer := d,
        boxes := (boxes n)[i := boxes n ! i @ [(next_mail n, mail)]], next_mail := Suc (next_mail n)\<rparr>)"
proof -
  obtain d where d: "NetworkInput_Receive n (worker_buffer n) = Inr (inHdr n, d, n\<lparr>inHdr := (inHdr n)\<lparr>pkt_length := 0\<rparr>\<rparr>)"
      "length d = MaxPacketSize" "packet_ok a (inHdr n) d" "packet_letter (inHdr n) d = l"
    using NetworkInput_Receive_ok [OF po assms(2)] l by metis
  define m where "m = bytes_MailHeader d"
  have m: "unat (mail_length m) \<le> MaxMailSize" "0 \<le> sint (mail_to m)" "letter_box l = sint (mail_to m)"
      "l = (inHdr n, m, take (unat (mail_length m)) (drop 12 d))"
    using d(3,4) by (auto simp: packet_ok_def packet_letter_def letter_box_def m_def Let_def)
  show thesis
  proof (cases "letter_box l < numBoxes n")
    case False
    then have "PostalDelivery_body fresh n = Inl AssertFail"
      using m(3) by (simp add: PostalDelivery_body_def d(1) Let_def m_def [symmetric])
    then show thesis using that(1) False by simp
  next
    case True
    then have ib: "letter_box l = int i" "i < length (boxes n)" using i m assms(3) by auto
    have s: "sint (mail_to m) = int i" using m(3) ib(1) by simp
    have len: "unat (mail_length m) \<le> length (drop 12 d)" using m(1) d(2) by (simp add: size_defs)
    obtain mail where mail: "Mail_new fresh (inHdr n) m (drop 12 d) = Inr mail" "mail_ok mail" "mail_letter mail = l"
      using Mail_new_ok [OF m(1) len] m(4) by metis
    have "list_all (\<lambda>x. fst x < next_mail n) (boxes n ! i)"
      using fresh_mail ib(2) by (simp add: list_all_length)
    then have "(next_mail n, mail) \<notin> set (boxes n ! i)"
      by (auto simp: list_all_iff)
    then have "PostalDelivery_body fresh n = Inr (n\<lparr>inHdr := (inHdr n)\<lparr>pkt_length := 0\<rparr>, worker_buffer := d,
        boxes := (boxes n)[i := boxes n ! i @ [(next_mail n, mail)]], next_mail := Suc (next_mail n)\<rparr>)"
      using ib(2) m(1) mail(1) assms(3) s
      by (simp add: PostalDelivery_body_def d(1) MailBox_Put_def absl_Append_def Let_def m_def [symmetric])
    then show thesis using that(2) [of mail d] ib mail d(2) by simp
  qed
qed

text \<open>\<^verbatim>\<open>Receive\<close> takes the first letter out of the box, or waits.\<close>

lemma get_ok:
  assumes "i < length (boxes n)" and "numBoxes n = int (length (boxes n))" and "MaxMailSize \<le> length d" and "list_all (\<lambda>x. mail_ok (snd x)) (boxes n ! i)"
  obtains "boxes n ! i = []" and "PostOfficeInput_Receive (int i) d n = Inr None"
  | x mail rest d' where "boxes n ! i = (x, mail) # rest"
    and "PostOfficeInput_Receive (int i) d n = Inr (Some ((pktHdr mail, mailHdr mail, d'), n\<lparr>boxes := (boxes n)[i := rest]\<rparr>))"
    and "(pktHdr mail, mailHdr mail, take (unat (mail_length (mailHdr mail))) d') = mail_letter mail"
proof (cases "boxes n ! i")
  case Nil
  then have "PostOfficeInput_Receive (int i) d n = Inr None"
    using assms by (simp add: PostOfficeInput_Receive_def MailBox_Get_def)
  then show thesis using that(1) Nil by simp
next
  case (Cons y rest)
  obtain x mail where y: "y = (x, mail)" by fastforce
  define k where "k = unat (mail_length (mailHdr mail))"
  then have u: "unat (mail_length (mailHdr mail)) = k" "uint (mail_length (mailHdr mail)) = int k" by simp_all
  have ok: "k \<le> MaxMailSize" "length (mail_data mail) = MaxMailSize"
    using assms(4) Cons y by (auto simp: mail_ok_def u(1))
  let ?d = "take k (mail_data mail) @ drop k d"
  have "PostOfficeInput_Receive (int i) d n = Inr (Some ((pktHdr mail, mailHdr mail, ?d), n\<lparr>boxes := (boxes n)[i := rest]\<rparr>))"
    using assms(1-3) ok Cons y
    by (simp add: PostOfficeInput_Receive_def MailBox_Get_def absl_RemoveFront_def copy_in_def copy_out_def u min_def)
  then show thesis using that(2) [of x mail rest ?d] Cons y ok by (simp add: mail_letter_def u)
qed

section \<open>Runs\<close>

text \<open>
  A configuration: the host, the machines, the control points of their threads, and a log of the letters: those that
  went into the socket of a machine, those that its postal worker delivered, and those that its threads got out of a box.
\<close>

record post_log =
  accepted :: "32 word \<Rightarrow> letter list"
  delivered :: "32 word \<Rightarrow> letter list"
  got :: "32 word \<Rightarrow> int \<Rightarrow> letter list"

definition empty_log :: post_log where
  "empty_log = \<lparr>accepted = (\<lambda>_. []), delivered = (\<lambda>_. []), got = (\<lambda>_ _. [])\<rparr>"

definition clear_log :: "32 word \<Rightarrow> post_log \<Rightarrow> post_log" where
  "clear_log a L = \<lparr>accepted = (accepted L)(a := []), delivered = (delivered L)(a := []), got = (got L)(a := \<lambda>_. [])\<rparr>"

fun log_step :: "32 word \<Rightarrow> node \<Rightarrow> npoint \<Rightarrow> npoint \<Rightarrow> post_log \<Rightarrow> post_log" where
  "log_step a n (SendTry k w name) SendWait L =
     (if k < max_tries
      then let c = pkt_to (bytes_PacketHeader w) in L\<lparr>accepted := (accepted L)(c := accepted L c @ [wire_letter w])\<rparr> else L)"
| "log_step a n WorkerIn _ L = L\<lparr>delivered := (delivered L)(a := delivered L a @ [packet_letter (inHdr n) (inbox n)])\<rparr>"
| "log_step a n (GetWait b _) (Idle (Some (p, m, d))) L =
     L\<lparr>got := (got L)(a := (got L a)(b := got L a b @ [(p, m, take (unat (mail_length m)) d)]))\<rparr>"
| "log_step a n _ _ L = L"

type_synonym 'h net_config = "'h \<times> (32 word \<Rightarrow> node option) \<times> (32 word \<Rightarrow> nat \<Rightarrow> npoint) \<times> post_log"

inductive net_reach :: "(32 word \<Rightarrow> 'h net_unix) \<Rightarrow> (nat \<Rightarrow> byte) \<Rightarrow> 'h net_config \<Rightarrow> bool" for u fresh where
  net_start: "net_reach u fresh (h, \<lambda>_. None, \<lambda>_ _. Idle None, empty_log)"
| net_boot: "net_reach u fresh (h, N, P, L) \<Longrightarrow> N a = None \<Longrightarrow> length (inbox raw) = MaxPacketSize \<Longrightarrow>
    node_boot (u a) fresh reliability a raw h = Inr (n, h') \<Longrightarrow>
    net_reach u fresh (h', N(a \<mapsto> n), P(a := (\<lambda>_. Idle None)(0 := WorkerWait)), clear_log a L)"
| net_send: "net_reach u fresh (h, N, P, L) \<Longrightarrow> N a = Some n \<Longrightarrow> P a t = Idle x \<Longrightarrow> PostOfficeOutput_pack fresh p m d n = Inr (p', b) \<Longrightarrow>
    net_reach u fresh (h, N, P(a := (P a)(t := SendEnter p' b)), L)"
| net_get: "net_reach u fresh (h, N, P, L) \<Longrightarrow> N a = Some n \<Longrightarrow> P a t = Idle x \<Longrightarrow> i < length (boxes n) \<Longrightarrow> MaxMailSize \<le> length d \<Longrightarrow>
    net_reach u fresh (h, N, P(a := (P a)(t := GetWait (int i) d)), L)"
| net_thread: "net_reach u fresh (h, N, P, L) \<Longrightarrow> N a = Some n \<Longrightarrow> node_step (u a) fresh r t (P a t) n h = Inr (Some (p, n', h')) \<Longrightarrow>
    net_reach u fresh (h', N(a \<mapsto> n'), P(a := (P a)(t := p)), log_step a n (P a t) p L)"
| net_recv: "net_reach u fresh (h, N, P, L) \<Longrightarrow> N a = Some n \<Longrightarrow> recv_due n > 0 \<Longrightarrow> receive_interrupt (u a) n h = Inr (n', h') \<Longrightarrow>
    net_reach u fresh (h', N(a \<mapsto> n'), P, L)"
| net_sent: "net_reach u fresh (h, N, P, L) \<Longrightarrow> N a = Some n \<Longrightarrow> send_due n > 0 \<Longrightarrow>
    net_reach u fresh (h, N(a \<mapsto> send_interrupt n), P, L)"

section \<open>Invariant\<close>

fun sending :: "npoint \<Rightarrow> bool" where
  "sending (SendIn p b) = True" | "sending (SendTry k w name) = True" | "sending SendWait = True" | "sending SendOut = True" | "sending _ = False"

fun holding :: "npoint \<Rightarrow> bool" where
  "holding (SendTry k w name) = True" | "holding SendWait = True" | "holding SendOut = True" | "holding _ = False"

fun working :: "npoint \<Rightarrow> bool" where
  "working WorkerWait = True" | "working WorkerIn = True" | "working _ = False"

fun point_ok :: "32 word \<Rightarrow> nat \<Rightarrow> npoint \<Rightarrow> bool" where
  "point_ok a k (SendEnter p b) = (packet_ok (pkt_to p) p b \<and> pkt_from p = a)"
| "point_ok a k (SendIn p b) = (packet_ok (pkt_to p) p b \<and> pkt_from p = a)"
| "point_ok a k (SendTry i w name) = (\<exists>c. name = socket_name c \<and> wire_ok c w)"
| "point_ok a k (GetWait b d) = (0 \<le> b \<and> b < int k \<and> MaxMailSize \<le> length d)"
| "point_ok a k _ = True"

text \<open>The thread that holds the lock of the output; the points of the threads.\<close>

definition send_inv :: "32 word \<Rightarrow> node \<Rightarrow> (nat \<Rightarrow> npoint) \<Rightarrow> bool" where
  "send_inv a n Pa \<longleftrightarrow> (\<exists>own. (\<forall>t. sending (Pa t) \<longleftrightarrow> own = Some t) \<and> sendLock n = of_bool (own = None))
     \<and> (\<forall>t. holding (Pa t) \<longrightarrow> sendHolder n = Some t) \<and> \<not> sendBusy n
     \<and> (\<forall>t. point_ok a (length (boxes n)) (Pa t)) \<and> (\<forall>t. working (Pa t) \<longleftrightarrow> t = 0)"

text \<open>The letters accepted for a machine are those it delivered, the one in its network buffer, and those in its socket.\<close>

definition pending :: "node \<Rightarrow> letter list" where
  "pending n = (if pkt_length (inHdr n) = 0 then [] else [packet_letter (inHdr n) (inbox n)])"

definition in_inv :: "32 word \<Rightarrow> node \<Rightarrow> byte list list \<Rightarrow> letter list \<Rightarrow> letter list \<Rightarrow> npoint \<Rightarrow> bool" where
  "in_inv a n qs acc del p0 \<longleftrightarrow> hostName n = a \<and> length (inbox n) = MaxPacketSize \<and> length (worker_buffer n) = MaxPacketSize
     \<and> list_all (wire_ok a) qs \<and> (pkt_length (inHdr n) \<noteq> 0 \<longrightarrow> packet_ok a (inHdr n) (inbox n))
     \<and> 0 \<le> messageAvailable n \<and> messageAvailable n + of_bool (p0 = WorkerIn) = of_bool (pkt_length (inHdr n) \<noteq> 0)
     \<and> acc = del @ pending n @ map wire_letter qs"

text \<open>The letters delivered to a box are those that were taken out of it and those in it.\<close>

definition box_inv :: "node \<Rightarrow> letter list \<Rightarrow> (int \<Rightarrow> letter list) \<Rightarrow> bool" where
  "box_inv n del gt \<longleftrightarrow> numBoxes n = int (length (boxes n))
     \<and> (\<forall>i < length (boxes n). list_all (\<lambda>x. fst x < next_mail n \<and> mail_ok (snd x)) (boxes n ! i)
          \<and> gt (int i) @ map (\<lambda>x. mail_letter (snd x)) (boxes n ! i) = filter (\<lambda>l. letter_box l = int i) del)"

definition node_inv :: "32 word \<Rightarrow> node \<Rightarrow> (int \<Rightarrow> byte list option) \<Rightarrow> byte list list \<Rightarrow> letter list \<Rightarrow> letter list \<Rightarrow> (int \<Rightarrow> letter list)
    \<Rightarrow> (nat \<Rightarrow> npoint) \<Rightarrow> bool" where
  "node_inv a n names qs acc del gt Pa \<longleftrightarrow> names (in_sock n) = Some (socket_name a)
     \<and> in_inv a n qs acc del (Pa 0) \<and> box_inv n del gt \<and> send_inv a n Pa"

definition net_inv :: "('h \<Rightarrow> byte list \<Rightarrow> byte list list) \<Rightarrow> ('h \<Rightarrow> 32 word \<Rightarrow> int \<Rightarrow> byte list option) \<Rightarrow> 'h net_config \<Rightarrow> bool" where
  "net_inv q nm c = (case c of (h, N, P, L) \<Rightarrow> \<forall>a n. N a = Some n \<longrightarrow>
     node_inv a n (nm h a) (q h (socket_name a)) (accepted L a) (delivered L a) (got L a) (P a))"

text \<open>The parts of the invariant that a step leaves alone.\<close>

lemma in_inv_frame:
  assumes "in_inv a n qs acc del p0" and "p0' = WorkerIn \<longleftrightarrow> p0 = WorkerIn"
    and "hostName n' = hostName n" "inbox n' = inbox n" "worker_buffer n' = worker_buffer n" "inHdr n' = inHdr n" "messageAvailable n' = messageAvailable n"
  shows "in_inv a n' qs acc del p0'"
  using assms by (simp add: in_inv_def pending_def)

lemma box_inv_frame:
  assumes "box_inv n del gt" and "numBoxes n' = numBoxes n" "boxes n' = boxes n" "next_mail n' = next_mail n"
  shows "box_inv n' del gt"
  using assms by (simp add: box_inv_def)

lemma send_inv_frame:
  assumes "send_inv a n Pa" and "sendLock n' = sendLock n" "sendHolder n' = sendHolder n" "sendBusy n' = sendBusy n" "length (boxes n') = length (boxes n)"
  shows "send_inv a n' Pa"
  using assms by (simp add: send_inv_def)

lemma in_inv_arrive:
  assumes "in_inv a n qs acc del p0" and "wire_ok a w"
  shows "in_inv a n (qs @ [w]) (acc @ [wire_letter w]) del p0"
  using assms by (simp add: in_inv_def)

lemma holding_sending: "holding p \<Longrightarrow> sending p"
  by (cases p) auto

text \<open>A thread moves to another point, with the lock as it is, or acquired, or released.\<close>

lemma send_inv_move:
  assumes "send_inv a n Pa" and "sending p \<longleftrightarrow> sending (Pa t)" and "holding p \<Longrightarrow> sendHolder n' = Some t" and "sending p \<or> sendHolder n' = sendHolder n"
    and "working p \<longleftrightarrow> working (Pa t)" and "point_ok a (length (boxes n)) p"
    and "sendLock n' = sendLock n" "\<not> sendBusy n'" "length (boxes n') = length (boxes n)"
  shows "send_inv a n' (Pa(t := p))"
proof -
  obtain own where own: "\<forall>t. sending (Pa t) \<longleftrightarrow> own = Some t" "sendLock n = of_bool (own = None)"
    using assms(1) by (auto simp: send_inv_def)
  have "sendHolder n' = Some t'" if "holding ((Pa(t := p)) t')" for t'
  proof (cases "t' = t")
    case False
    then have "sending (Pa t')" "sendHolder n = Some t'" using that assms(1) holding_sending by (auto simp: send_inv_def)
    then show ?thesis using own(1) assms(2,4) False by (metis option.inject)
  qed (use that assms(3) in simp)
  moreover have "\<exists>own. (\<forall>t'. sending ((Pa(t := p)) t') \<longleftrightarrow> own = Some t') \<and> sendLock n' = of_bool (own = None)"
    using own assms(2,7) by (intro exI [of _ own]) auto
  ultimately show ?thesis
    using assms(1,5,6,8,9) by (auto simp: send_inv_def)
qed

lemma send_inv_worker: "send_inv a n Pa \<Longrightarrow> working (Pa t) \<longleftrightarrow> t = 0"
  unfolding send_inv_def by blast

lemma send_inv_enter:
  assumes "send_inv a n Pa" and "sendLock n \<noteq> 0" and "Pa t = SendEnter p b"
  shows "send_inv a (n\<lparr>sendLock := sendLock n - 1\<rparr>) (Pa(t := SendIn p b))"
proof -
  have free: "\<not> sending (Pa t')" and lock: "sendLock n = 1" for t'
    using assms(1,2) by (auto simp: send_inv_def split: if_splits)
  then have "\<not> holding (Pa t')" for t' using holding_sending by blast
  moreover have "point_ok a (length (boxes n)) (SendIn p b)"
    using assms(1,3) unfolding send_inv_def by (metis point_ok.simps(1,2))
  moreover have "\<not> working (Pa t)" using assms(3) by simp
  ultimately show ?thesis
    using free lock assms(1) unfolding send_inv_def by (auto intro!: exI [of _ "Some t"])
qed

lemma send_inv_leave:
  assumes "send_inv a n Pa" and "Pa t = SendOut"
  shows "sendHolder n = Some t" and "send_inv a (n\<lparr>sendHolder := None, sendLock := sendLock n + 1\<rparr>) (Pa(t := Idle None))"
proof -
  show "sendHolder n = Some t" using assms by (auto simp: send_inv_def)
  obtain own where own: "\<forall>t. sending (Pa t) \<longleftrightarrow> own = Some t" "sendLock n = of_bool (own = None)"
    using assms(1) by (auto simp: send_inv_def)
  then have o: "own = Some t" using assms(2) by (metis sending.simps(4))
  then have free: "\<not> sending (Pa t')" if "t' \<noteq> t" for t' using own that by simp
  then have "\<not> holding (Pa t')" if "t' \<noteq> t" for t' using holding_sending that by blast
  moreover have "t \<noteq> 0" using assms send_inv_worker [of a n Pa t] by simp
  ultimately show "send_inv a (n\<lparr>sendHolder := None, sendLock := sendLock n + 1\<rparr>) (Pa(t := Idle None))"
    using free o own assms unfolding send_inv_def by (auto intro!: exI [of _ None])
qed

text \<open>The worker's message: taken up, and delivered.\<close>

lemma in_inv_deliver:
  assumes "in_inv a n qs acc del WorkerIn" and "length d = MaxPacketSize"
    and "n' = n\<lparr>inHdr := (inHdr n)\<lparr>pkt_length := 0\<rparr>, worker_buffer := d, boxes := bs, next_mail := k\<rparr>"
  shows "in_inv a n' qs acc (del @ [packet_letter (inHdr n) (inbox n)]) WorkerWait"
proof -
  have "pkt_length (inHdr n) \<noteq> 0 \<and> messageAvailable n = 0"
    using assms(1) by (auto simp: in_inv_def of_bool_def split: if_splits)
  then show ?thesis using assms by (auto simp: in_inv_def pending_def)
qed

lemma box_inv_put:
  assumes "box_inv n del gt" and "i < length (boxes n)" and "mail_ok mail" and "letter_box (mail_letter mail) = int i"
    and "boxes n' = (boxes n)[i := boxes n ! i @ [(next_mail n, mail)]]" "next_mail n' = Suc (next_mail n)" "numBoxes n' = numBoxes n"
  shows "box_inv n' (del @ [mail_letter mail]) gt"
  unfolding box_inv_def
proof (intro conjI allI impI)
  show "numBoxes n' = int (length (boxes n'))" using assms by (simp add: box_inv_def)
  fix j assume "j < length (boxes n')"
  then have j: "j < length (boxes n)" using assms(5) by simp
  have old: "list_all (\<lambda>x. fst x < next_mail n \<and> mail_ok (snd x)) (boxes n ! j)"
    "gt (int j) @ map (\<lambda>x. mail_letter (snd x)) (boxes n ! j) = filter (\<lambda>l. letter_box l = int j) del"
    using assms(1) j by (auto simp: box_inv_def)
  have "list_all (\<lambda>x. fst x < Suc (next_mail n) \<and> mail_ok (snd x)) (boxes n ! j)"
    using old(1) by (auto simp: list_all_iff intro: less_SucI)
  then show "list_all (\<lambda>x. fst x < next_mail n' \<and> mail_ok (snd x)) (boxes n' ! j)"
    using assms(2,3,5,6) j by (cases "j = i") simp_all
  show "gt (int j) @ map (\<lambda>x. mail_letter (snd x)) (boxes n' ! j) = filter (\<lambda>l. letter_box l = int j) (del @ [mail_letter mail])"
    using old(2) assms(2,4,5) j by (cases "j = i") (simp_all flip: append_assoc)
qed

lemma box_inv_get:
  assumes "box_inv n del gt" and "i < length (boxes n)" and "boxes n ! i = (x, mail) # rest"
  shows "box_inv (n\<lparr>boxes := (boxes n)[i := rest]\<rparr>) del (gt(int i := gt (int i) @ [mail_letter mail]))"
  unfolding box_inv_def
proof (intro conjI allI impI)
  show "numBoxes (n\<lparr>boxes := (boxes n)[i := rest]\<rparr>) = int (length (boxes (n\<lparr>boxes := (boxes n)[i := rest]\<rparr>)))"
    using assms by (simp add: box_inv_def)
  fix j assume "j < length (boxes (n\<lparr>boxes := (boxes n)[i := rest]\<rparr>))"
  then have j: "j < length (boxes n)" by simp
  have old: "list_all (\<lambda>x. fst x < next_mail n \<and> mail_ok (snd x)) (boxes n ! j)"
    "gt (int j) @ map (\<lambda>x. mail_letter (snd x)) (boxes n ! j) = filter (\<lambda>l. letter_box l = int j) del"
    using assms(1) j by (auto simp: box_inv_def)
  show "list_all (\<lambda>x. fst x < next_mail (n\<lparr>boxes := (boxes n)[i := rest]\<rparr>) \<and> mail_ok (snd x)) (boxes (n\<lparr>boxes := (boxes n)[i := rest]\<rparr>) ! j)"
    using old(1) assms(2,3) j by (cases "j = i") simp_all
  show "(gt(int i := gt (int i) @ [mail_letter mail])) (int j) @ map (\<lambda>x. mail_letter (snd x)) (boxes (n\<lparr>boxes := (boxes n)[i := rest]\<rparr>) ! j)
      = filter (\<lambda>l. letter_box l = int j) del"
    using old(2) assms(2,3) j by (cases "j = i") simp_all
qed

section \<open>Steps\<close>

text \<open>A step of a thread other than an attempt to send: it happens on its own machine.\<close>

lemma point_stays:
  assumes "node_inv a n names qs acc del gt Pa" and "Pa t = p" and "\<not> working p" "\<not> working q" and "sending q \<longleftrightarrow> sending p" and "\<not> holding q \<or> holding p"
    and "point_ok a (length (boxes n)) q"
    and "in_sock n' = in_sock n" "hostName n' = hostName n" "inbox n' = inbox n" "worker_buffer n' = worker_buffer n" "inHdr n' = inHdr n"
      "messageAvailable n' = messageAvailable n" "sendLock n' = sendLock n" "sendHolder n' = sendHolder n" "sendBusy n' = sendBusy n"
    and "length (boxes n') = length (boxes n)" and "box_inv n' del gt'"
  shows "node_inv a n' names qs acc del gt' (Pa(t := q))"
proof -
  have "t \<noteq> 0" using assms(1-3) send_inv_worker [of a n Pa t] by (simp add: node_inv_def)
  then have "in_inv a n' qs acc del ((Pa(t := q)) 0)"
    using assms(1,8-13) in_inv_frame [of a n qs acc del "Pa 0" "Pa 0" n'] by (simp add: node_inv_def)
  moreover have "holding q \<Longrightarrow> sendHolder n = Some t" "\<not> sendBusy n"
    using assms(1,2,6) by (auto simp: node_inv_def send_inv_def)
  then have "send_inv a n' (Pa(t := q))"
    using assms(1-7,14-17) by (intro send_inv_move [of a n]) (auto simp: node_inv_def)
  ultimately show ?thesis using assms(1,8,18) by (simp add: node_inv_def)
qed

lemma node_thread:
  assumes inv: "node_inv a n names qs acc del gt Pa" and st: "node_step ua fresh r t (Pa t) n h = Inr (Some (p, n', h'))"
    and "\<not> (\<exists>k w name. Pa t = SendTry k w name \<and> k < max_tries)"
    and L: "L' = log_step a n (Pa t) p L" "accepted L a = acc" "delivered L a = del" "got L a = gt"
  shows "h' = h \<and> accepted L' = accepted L \<and> (\<forall>b. b \<noteq> a \<longrightarrow> delivered L' b = delivered L b \<and> got L' b = got L b)
    \<and> node_inv a n' names qs acc (delivered L' a) (got L' a) (Pa(t := p))"
proof (cases "Pa t")
  case (SendEnter p1 b)
  then have n': "p = SendIn p1 b" "n' = n\<lparr>sendLock := sendLock n - 1\<rparr>" "h' = h" "sendLock n \<noteq> 0"
    using st by (auto split: if_splits)
  have "t \<noteq> 0" using inv SendEnter send_inv_worker [of a n Pa t] by (simp add: node_inv_def)
  then have "in_inv a n' qs acc del ((Pa(t := p)) 0)" "box_inv n' del gt"
    using inv n'(2) in_inv_frame [of a n qs acc del "Pa 0" "Pa 0" n'] box_inv_frame [of n del gt n'] by (simp_all add: node_inv_def)
  then show ?thesis
    using inv n' L SendEnter send_inv_enter [of a n Pa t p1 b] by (simp add: node_inv_def)
next
  case (SendTry k w name)
  then have n': "p = SendWait" "n' = n" "h' = h" "\<not> k < max_tries" using st assms(3) by auto
  have "node_inv a n' names qs acc del gt (Pa(t := p))"
    using inv n' SendTry by (intro point_stays [of a n names qs acc del gt]) (auto simp: node_inv_def)
  then show ?thesis using n' L SendTry by simp
next
  case SendWait
  then have n': "p = SendOut" "n' = n\<lparr>messageSent := messageSent n - 1\<rparr>" "h' = h" using st by (auto split: if_splits)
  have "box_inv n' del gt" using inv n'(2) box_inv_frame [of n del gt n'] by (simp add: node_inv_def)
  then have "node_inv a n' names qs acc del gt (Pa(t := p))"
    using inv n' SendWait by (intro point_stays [of a n names qs acc del gt]) (auto simp: node_inv_def)
  then show ?thesis using n' L SendWait by simp
next
  case SendOut
  have lv: "sendHolder n = Some t" "send_inv a (n\<lparr>sendHolder := None, sendLock := sendLock n + 1\<rparr>) (Pa(t := Idle None))"
    using send_inv_leave [of a n Pa t] inv SendOut by (simp_all add: node_inv_def)
  then have n': "p = Idle None" "n' = n\<lparr>sendHolder := None, sendLock := sendLock n + 1\<rparr>" "h' = h" using st SendOut by auto
  have "t \<noteq> 0" using inv SendOut send_inv_worker [of a n Pa t] by (simp add: node_inv_def)
  then have "in_inv a n' qs acc del ((Pa(t := p)) 0)" "box_inv n' del gt"
    using inv n'(2) in_inv_frame [of a n qs acc del "Pa 0" "Pa 0" n'] box_inv_frame [of n del gt n'] by (simp_all add: node_inv_def)
  then show ?thesis
    using inv n' L SendOut lv(2) by (simp add: node_inv_def)
next
  case WorkerWait
  then have n': "p = WorkerIn" "n' = n\<lparr>messageAvailable := messageAvailable n - 1\<rparr>" "h' = h" "messageAvailable n \<noteq> 0"
    using st by (auto split: if_splits)
  have t: "t = 0" using inv WorkerWait send_inv_worker [of a n Pa t] by (simp add: node_inv_def)
  have "in_inv a n' qs acc del p" using inv n' t WorkerWait by (simp add: node_inv_def in_inv_def pending_def)
  moreover have "box_inv n' del gt" using inv n'(2) box_inv_frame [of n del gt n'] by (simp add: node_inv_def)
  moreover have "send_inv a n' (Pa(t := p))"
    using inv n'(1,2) WorkerWait by (intro send_inv_move [of a n]) (auto simp: node_inv_def send_inv_def)
  ultimately show ?thesis using inv n' L WorkerWait t by (simp add: node_inv_def)
next
  case (SendIn p1 b)
  let ?n = "n\<lparr>sendHolder := Some t\<rparr>"
  have ok: "packet_ok (pkt_to p1) p1 b" "pkt_from p1 = hostName ?n" "\<not> sendBusy ?n" "hostName n = a"
    using inv SendIn unfolding node_inv_def send_inv_def in_inv_def by (simp_all, metis point_ok.simps(2), metis point_ok.simps(2))
  have "n' = ?n\<lparr>send_due := send_due n + 1\<rparr> \<and> h' = h \<and> (p = SendWait \<or> (\<exists>w. p = SendTry 0 w (socket_name (pkt_to p1)) \<and> wire_ok (pkt_to p1) w))"
    using st SendIn by (rule_tac NetworkOutput_Send_ok [OF ok(1-3), of fresh r]) auto
  then have n': "n' = ?n\<lparr>send_due := send_due n + 1\<rparr>" "h' = h" and p: "sending p" "\<not> working p" "point_ok a (length (boxes n)) p"
      "log_step a n (Pa t) p L = L"
    using SendIn by auto
  have "t \<noteq> 0" using inv SendIn send_inv_worker [of a n Pa t] by (simp add: node_inv_def)
  then have "in_inv a n' qs acc del ((Pa(t := p)) 0)" "box_inv n' del gt"
    using inv n'(1) in_inv_frame [of a n qs acc del "Pa 0" "Pa 0" n'] box_inv_frame [of n del gt n'] by (simp_all add: node_inv_def)
  moreover have "send_inv a n' (Pa(t := p))"
    using inv n'(1) p SendIn ok(3) by (intro send_inv_move [of a n]) (auto simp: node_inv_def)
  ultimately show ?thesis using inv n' L p by (simp add: node_inv_def)
next
  case WorkerIn
  have t: "t = 0" using inv WorkerIn send_inv_worker [of a n Pa t] by (simp add: node_inv_def)
  let ?l = "packet_letter (inHdr n) (inbox n)"
  have i: "in_inv a n qs acc del WorkerIn" "box_inv n del gt" "send_inv a n Pa" using inv t WorkerIn by (simp_all add: node_inv_def)
  then have pre: "packet_ok a (inHdr n) (inbox n)" "length (worker_buffer n) = MaxPacketSize" "numBoxes n = int (length (boxes n))"
      "list_all (\<lambda>b. list_all (\<lambda>x. fst x < next_mail n) b) (boxes n)"
    by (auto simp: in_inv_def box_inv_def list_all_length)
  obtain n1 where n1: "PostalDelivery_body fresh n = Inr n1" "p = WorkerWait" "n' = n1" "h' = h" using st WorkerIn by auto
  define j where "j = nat (letter_box ?l)"
  obtain mail d where b: "letter_box ?l = int j" "j < length (boxes n)" "mail_ok mail" "mail_letter mail = ?l" "length d = MaxPacketSize"
      "n' = n\<lparr>inHdr := (inHdr n)\<lparr>pkt_length := 0\<rparr>, worker_buffer := d,
        boxes := (boxes n)[j := boxes n ! j @ [(next_mail n, mail)]], next_mail := Suc (next_mail n)\<rparr>"
    using n1(1,3) by (rule_tac deliver_ok [OF pre HOL.refl j_def, of fresh]) auto
  have "in_inv a n' qs acc (del @ [?l]) WorkerWait" using in_inv_deliver [OF i(1) b(5,6)] .
  moreover have "box_inv n' (del @ [?l]) gt" using box_inv_put [OF i(2) b(2,3), of n'] b(1,4,6) by simp
  moreover have "send_inv a n' (Pa(t := p))"
    using i(3) n1(2) b(6) WorkerIn by (intro send_inv_move [of a n]) (auto simp: send_inv_def)
  moreover have "in_sock n' = in_sock n" using b(6) by simp
  ultimately show ?thesis using inv n1(2-4) L WorkerIn t by (simp add: node_inv_def)
next
  case (GetWait b d)
  have i: "box_inv n del gt" "send_inv a n Pa" using inv by (simp_all add: node_inv_def)
  then have bd: "0 \<le> b" "b < int (length (boxes n))" "MaxMailSize \<le> length d"
    using GetWait unfolding send_inv_def by (metis point_ok.simps(4))+
  define j where "j = nat b"
  then have j: "b = int j" "j < length (boxes n)" using bd by auto
  have pre: "numBoxes n = int (length (boxes n))" "list_all (\<lambda>x. mail_ok (snd x)) (boxes n ! j)"
    using i(1) j(2) by (auto simp: box_inv_def list_all_iff)
  obtain x mail rest d' where g: "boxes n ! j = (x, mail) # rest" "p = Idle (Some (pktHdr mail, mailHdr mail, d'))" "h' = h"
      "n' = n\<lparr>boxes := (boxes n)[j := rest]\<rparr>" "(pktHdr mail, mailHdr mail, take (unat (mail_length (mailHdr mail))) d') = mail_letter mail"
    using st GetWait j(1) by (rule_tac get_ok [OF j(2) pre(1) bd(3) pre(2)]) auto
  have "box_inv n' del (gt(b := gt b @ [mail_letter mail]))"
    using box_inv_get [OF i(1) j(2) g(1)] g(4) j(1) by simp
  then have "node_inv a n' names qs acc del (gt(b := gt b @ [mail_letter mail])) (Pa(t := p))"
    using inv g GetWait by (intro point_stays [of a n names qs acc del gt]) auto
  then show ?thesis using L GetWait g by simp
qed (use st in simp)

text \<open>An attempt to send: the letter arrives in the socket of the machine it is for, or nothing happens.\<close>

lemma try_step:
  assumes law: "datagrams u q nm" and "SendToSocket_try (u a) fd w (socket_name c) h = Inr (sent, h')"
  shows "nm h' = nm h \<and> q h' = (if sent then (q h)(socket_name c := q h (socket_name c) @ [w]) else q h)"
proof -
  obtain r h1 where r: "u_sendto (u a) fd w (socket_name c) h = (r, h1)" by fastforce
  then have "h' = h1" "sent \<longleftrightarrow> r = int (length w)"
    using assms(2) by (auto simp: SendToSocket_try_def rbind_ASSERT split: if_splits)
  then show ?thesis using sendto_law [OF law r] by auto
qed

lemma try_ok:
  assumes law: "datagrams u q nm"
  shows "\<exists>sent h'. SendToSocket_try (u a) fd w name h = Inr (sent, h')"
proof -
  obtain r h1 where r: "u_sendto (u a) fd w name h = (r, h1)" by fastforce
  then show ?thesis using sendto_law [OF law r] by (auto simp: SendToSocket_try_def)
qed

lemma node_inv_arrive:
  "node_inv a n names qs acc del gt Pa \<Longrightarrow> wire_ok a w \<Longrightarrow> node_inv a n names (qs @ [w]) (acc @ [wire_letter w]) del gt Pa"
  by (simp add: node_inv_def in_inv_arrive)

lemma net_inv_thread:
  assumes law: "datagrams u q nm" and inv: "net_inv q nm (h, N, P, L)" and N: "N a = Some n"
    and st: "node_step (u a) fresh r t (P a t) n h = Inr (Some (p, n', h'))"
  shows "net_inv q nm (h', N(a \<mapsto> n'), P(a := (P a)(t := p)), log_step a n (P a t) p L)"
proof (cases "\<exists>k w name. P a t = SendTry k w name \<and> k < max_tries")
  case False
  have ni: "node_inv a n (nm h a) (q h (socket_name a)) (accepted L a) (delivered L a) (got L a) (P a)"
    using inv N by (simp add: net_inv_def)
  show ?thesis
    using node_thread [OF ni st False HOL.refl HOL.refl HOL.refl HOL.refl] inv by (auto simp: net_inv_def)
next
  case True
  then obtain k w name where k: "P a t = SendTry k w name" "k < max_tries" by blast
  have ni: "node_inv b m (nm h b) (q h (socket_name b)) (accepted L b) (delivered L b) (got L b) (P b)" if "N b = Some m" for b m
    using inv that by (simp add: net_inv_def)
  have "point_ok a (length (boxes n)) (P a t)" using ni [OF N] by (auto simp: node_inv_def send_inv_def)
  then obtain c where c: "name = socket_name c" "wire_ok c w" using k(1) by auto
  obtain sent where se: "SendToSocket_try (u a) (out_sock n) w (socket_name c) h = Inr (sent, h')" "n' = n"
      "p = (if sent then SendWait else SendTry (Suc k) w name)"
    using st k c(1) by (auto simp: rbind_eq_Inr_iff)
  have e: "nm h' = nm h" "q h' = (if sent then (q h)(socket_name c := q h (socket_name c) @ [w]) else q h)"
    using try_step [OF law se(1)] by auto
  have "pkt_to (bytes_PacketHeader w) = c" using c(2) by (simp add: wire_ok_def packet_ok_def Let_def)
  then have L: "log_step a n (P a t) p L = (if sent then L\<lparr>accepted := (accepted L)(c := accepted L c @ [wire_letter w])\<rparr> else L)"
    using k se(3) by (simp add: Let_def)
  have moved: "node_inv a n (nm h a) (q h (socket_name a)) (accepted L a) (delivered L a) (got L a) ((P a)(t := p))"
    using ni [OF N] k(1) se(3) c by (intro point_stays [OF ni [OF N] k(1)]) (auto simp: node_inv_def)
  have "node_inv b m (nm h b) (q h (socket_name b)) (accepted L b) (delivered L b) (got L b) ((P(a := (P a)(t := p))) b)"
    if "(N(a \<mapsto> n')) b = Some m" for b m
    using that moved ni [of b m] se(2) by (cases "b = a") auto
  note base = this
  show ?thesis
    unfolding net_inv_def prod.case L e
  proof (intro allI impI)
    fix b m assume "(N(a \<mapsto> n')) b = Some m"
    from base [OF this] show "node_inv b m (nm h b) ((if sent then (q h)(socket_name c := q h (socket_name c) @ [w]) else q h) (socket_name b))
      (accepted (if sent then L\<lparr>accepted := (accepted L)(c := accepted L c @ [wire_letter w])\<rparr> else L) b)
      (delivered (if sent then L\<lparr>accepted := (accepted L)(c := accepted L c @ [wire_letter w])\<rparr> else L) b)
      (got (if sent then L\<lparr>accepted := (accepted L)(c := accepted L c @ [wire_letter w])\<rparr> else L) b) ((P(a := (P a)(t := p))) b)"
      using node_inv_arrive [OF _ c(2)] by (cases "b = c"; cases sent) (simp_all add: socket_name_inject)
  qed
qed

text \<open>Interrupts.\<close>

lemma net_inv_recv:
  assumes law: "datagrams u q nm" and inv: "net_inv q nm (h, N, P, L)" and N: "N a = Some n"
    and st: "receive_interrupt (u a) n h = Inr (n', h')"
  shows "net_inv q nm (h', N(a \<mapsto> n'), P, L)"
proof -
  have ni: "node_inv a n (nm h a) (q h (socket_name a)) (accepted L a) (delivered L a) (got L a) (P a)"
    using inv N by (simp add: net_inv_def)
  let ?n = "n\<lparr>recv_due := recv_due n - 1\<rparr>"
  have pre: "nm h a (in_sock ?n) = Some (socket_name a)" "hostName ?n = a" "length (inbox ?n) = MaxPacketSize"
      "list_all (wire_ok a) (q h (socket_name a))"
    using ni by (simp_all add: node_inv_def in_inv_def)
  show ?thesis
  proof (rule receive_ok [OF law pre])
    fix h2 assume r: "NetworkInput_CallBack (u a) ?n h = Inr (?n\<lparr>recv_due := recv_due ?n + 1\<rparr>, h2)" "nm h2 = nm h" "q h2 = q h"
    then have n': "n' = ?n\<lparr>recv_due := recv_due ?n + 1\<rparr>" "h' = h2" using st by (simp_all add: receive_interrupt_def)
    have "node_inv a n' (nm h a) (q h (socket_name a)) (accepted L a) (delivered L a) (got L a) (P a)"
      using ni n'(1) in_inv_frame [of a n _ _ _ "P a 0" "P a 0" n'] box_inv_frame [of n _ _ n'] send_inv_frame [of a n "P a" n']
      by (simp add: node_inv_def)
    then show ?thesis using inv r n'(2) by (simp add: net_inv_def)
  next
    fix h2 w ws bs
    assume r: "NetworkInput_CallBack (u a) ?n h = Inr (?n\<lparr>recv_due := recv_due ?n + 1, inHdr := bytes_PacketHeader w, inbox := bs,
        numPacketsRecvd := numPacketsRecvd ?n + 1, messageAvailable := messageAvailable ?n + 1\<rparr>, h2)" "nm h2 = nm h"
      and qs: "q h (socket_name a) = w # ws" "q h2 = (q h)(socket_name a := ws)" and e: "pkt_length (inHdr ?n) = 0"
      and bs: "length bs = MaxPacketSize" "packet_ok a (bytes_PacketHeader w) bs" "packet_letter (bytes_PacketHeader w) bs = wire_letter w"
    then have n': "n' = ?n\<lparr>recv_due := recv_due ?n + 1, inHdr := bytes_PacketHeader w, inbox := bs,
        numPacketsRecvd := numPacketsRecvd ?n + 1, messageAvailable := messageAvailable ?n + 1\<rparr>" "h' = h2"
      using st by (simp_all add: receive_interrupt_def)
    have i: "in_inv a n (w # ws) (accepted L a) (delivered L a) (P a 0)" using ni qs(1) by (simp add: node_inv_def)
    have "pkt_length (bytes_PacketHeader w) \<noteq> 0" using packet_ok_sizes(1) [OF bs(2)] by auto
    then have "in_inv a n' ws (accepted L a) (delivered L a) (P a 0)"
      using i e bs n'(1) by (auto simp: in_inv_def pending_def)
    then have "node_inv a n' (nm h a) ws (accepted L a) (delivered L a) (got L a) (P a)"
      using ni n'(1) box_inv_frame [of n _ _ n'] send_inv_frame [of a n "P a" n'] by (simp add: node_inv_def)
    then show ?thesis using inv r(2) qs(2) n'(2) by (simp add: net_inv_def socket_name_inject)
  qed
qed

lemma net_inv_sent:
  assumes inv: "net_inv q nm (h, N, P, L)" and N: "N a = Some n"
  shows "net_inv q nm (h, N(a \<mapsto> send_interrupt n), P, L)"
proof -
  let ?n = "send_interrupt n"
  have "node_inv a n (nm h a) (q h (socket_name a)) (accepted L a) (delivered L a) (got L a) (P a)"
    using inv N by (simp add: net_inv_def)
  then have "node_inv a ?n (nm h a) (q h (socket_name a)) (accepted L a) (delivered L a) (got L a) (P a)"
    using in_inv_frame [of a n _ _ _ "P a 0" "P a 0" ?n] box_inv_frame [of n _ _ ?n] send_inv_frame [of a n "P a" ?n]
    by (simp add: node_inv_def send_inv_def send_interrupt_def NetworkOutput_CallBack_def PostOfficeOutput_CallBack_def)
  then show ?thesis using inv by (simp add: net_inv_def)
qed

text \<open>Calls.\<close>

lemma net_inv_call:
  assumes inv: "net_inv q nm (h, N, P, L)" and N: "N a = Some n" and "P a t = Idle x"
    and "\<not> sending p" "\<not> working p" "point_ok a (length (boxes n)) p"
  shows "net_inv q nm (h, N, P(a := (P a)(t := p)), L)"
proof -
  have ni: "node_inv a n (nm h a) (q h (socket_name a)) (accepted L a) (delivered L a) (got L a) (P a)"
    using inv N by (simp add: net_inv_def)
  then have "node_inv a n (nm h a) (q h (socket_name a)) (accepted L a) (delivered L a) (got L a) ((P a)(t := p))"
    using assms(3-6) holding_sending [of p] by (intro point_stays [OF ni assms(3)]) (auto simp: node_inv_def)
  then show ?thesis using inv N by (simp add: net_inv_def)
qed

text \<open>A machine that starts.\<close>

lemma keeps_trans:
  assumes "keeps q nm names1 procs1 h h1" and "keeps q nm names2 procs2 h1 h2"
  shows "keeps q nm (\<lambda>m. names1 m \<and> names2 m) (\<lambda>b. procs1 b \<and> procs2 b) h h2"
  using assms by (simp add: keeps_def)

lemma boot_ok:
  assumes law: "datagrams u q nm" and bt: "node_boot (u a) fresh rel a raw h = Inr (n, h')" and raw: "length (inbox raw) = MaxPacketSize"
  shows "keeps q nm (\<lambda>m. m \<noteq> socket_name a) (\<lambda>b. b \<noteq> a) h h'"
    and "node_inv a n (nm h' a) (q h' (socket_name a)) [] [] (\<lambda>_. []) ((\<lambda>_. Idle None)(0 := WorkerWait))"
proof -
  obtain s1 h1 where d1: "u_dgram (u a) h = (s1, h1)" by fastforce
  obtain x h2 where ul: "u_unlink (u a) (socket_name a) h1 = (x, h2)" by fastforce
  obtain b h3 where bd: "u_bind (u a) s1 (socket_name a) h2 = (b, h3)" by fastforce
  obtain s2 h4 where d2: "u_dgram (u a) h3 = (s2, h4)" by fastforce
  have ok: "b \<ge> 0" and h': "h' = h4" and n: "in_sock n = s1" "hostName n = a" "inbox n = inbox raw" "worker_buffer n = new_chars fresh MaxPacketSize"
      "pkt_length (inHdr n) = 0" "messageAvailable n = 0" "boxes n = replicate 10 []" "numBoxes n = 10" "sendLock n = 1" "sendHolder n = None"
      "\<not> sendBusy n"
    using bt by (auto simp: node_boot_def PostOfficeInput_new_def NetworkInput_new_def OpenSocket_def AssignNameToSocket_def PostOfficeOutput_new_def
        NetworkOutput_new_def MailBox_new_def Let_def rbind_ASSERT d1 ul bd d2 split: if_splits)
  have k: "keeps q nm (\<lambda>_. True) (\<lambda>_. True) h h1" "keeps q nm (\<lambda>m. m \<noteq> socket_name a) (\<lambda>_. True) h1 h2"
      "keeps q nm (\<lambda>m. m \<noteq> socket_name a) (\<lambda>b. b \<noteq> a) h2 h3" "keeps q nm (\<lambda>_. True) (\<lambda>_. True) h3 h4"
    using dgram_law [OF law d1] unlink_law [OF law ul] bind_law [OF law bd] dgram_law [OF law d2] by auto
  show "keeps q nm (\<lambda>m. m \<noteq> socket_name a) (\<lambda>b. b \<noteq> a) h h'"
    using keeps_trans [OF keeps_trans [OF keeps_trans [OF k(1,2)] k(3)] k(4)] h' by simp
  have "nm h' a s1 = Some (socket_name a)" "q h' (socket_name a) = []"
    using bind_law [OF law bd] ok k(4) h' by (auto simp: keeps_def)
  then show "node_inv a n (nm h' a) (q h' (socket_name a)) [] [] (\<lambda>_. []) ((\<lambda>_. Idle None)(0 := WorkerWait))"
    using n raw by (auto simp: node_inv_def in_inv_def box_inv_def send_inv_def pending_def intro!: exI [of _ None])
qed

lemma net_inv_boot:
  assumes law: "datagrams u q nm" and inv: "net_inv q nm (h, N, P, L)" and "N a = None"
    and "node_boot (u a) fresh rel a raw h = Inr (n, h')" and "length (inbox raw) = MaxPacketSize"
  shows "net_inv q nm (h', N(a \<mapsto> n), P(a := (\<lambda>_. Idle None)(0 := WorkerWait)), clear_log a L)"
proof -
  note b = boot_ok [OF law assms(4,5)]
  have "node_inv c m (nm h' c) (q h' (socket_name c)) (accepted L c) (delivered L c) (got L c) (P c)" if "N c = Some m" "c \<noteq> a" for c m
  proof -
    have ni: "node_inv c m (nm h c) (q h (socket_name c)) (accepted L c) (delivered L c) (got L c) (P c)"
      using inv that(1) by (simp add: net_inv_def)
    then have "nm h' c (in_sock m) = Some (socket_name c)" "q h' (socket_name c) = q h (socket_name c)"
      using b(1) that(2) by (auto simp: keeps_def node_inv_def socket_name_inject)
    then show ?thesis using ni by (simp add: node_inv_def)
  qed
  then show ?thesis using b(2) by (simp add: net_inv_def clear_log_def)
qed

lemma net_reach_inv:
  assumes law: "datagrams u q nm"
  shows "net_reach u fresh (h, N, P, L) \<Longrightarrow> net_inv q nm (h, N, P, L)"
proof (induction "(h, N, P, L)" arbitrary: h N P L rule: net_reach.induct)
  case (net_start h)
  then show ?case by (simp add: net_inv_def)
next
  case (net_boot h N P L a raw rel n h')
  then show ?case using net_inv_boot [OF law] by blast
next
  case (net_send h N P L a n t x p m d p' b)
  have "hostName n = a" using net_send(2,3) by (simp add: net_inv_def node_inv_def in_inv_def)
  then have "point_ok a (length (boxes n)) (SendEnter p' b)" using pack_ok [OF net_send(5)] by simp
  then show ?case using net_inv_call [OF net_send(2-4), of "SendEnter p' b"] by simp
next
  case (net_get h N P L a n t x i d)
  then show ?case using net_inv_call [OF net_get(2-4), of "GetWait (int i) d"] by simp
next
  case (net_thread h N P L a n r t p n' h')
  then show ?case using net_inv_thread [OF law] by blast
next
  case (net_recv h N P L a n n' h')
  then show ?case using net_inv_recv [OF law] by blast
next
  case (net_sent h N P L a n)
  show ?case by (rule net_inv_sent [OF net_sent(2,3)])
qed

text \<open>What can stop a machine.\<close>

lemma node_failure:
  assumes law: "datagrams u q nm" and inv: "net_inv q nm (h, N, P, L)" and N: "N a = Some n"
  shows "node_step (u a) fresh r t (P a t) n h = Inl e \<longleftrightarrow>
    e = AssertFail \<and> P a t = WorkerIn \<and> numBoxes n \<le> letter_box (packet_letter (inHdr n) (inbox n))"
proof -
  have ni: "node_inv a n (nm h a) (q h (socket_name a)) (accepted L a) (delivered L a) (got L a) (P a)"
    using inv N by (simp add: net_inv_def)
  have pt: "point_ok a (length (boxes n)) (P a t)" using ni by (auto simp: node_inv_def send_inv_def)
  show ?thesis
  proof (cases "P a t")
    case (SendIn p b)
    have ok: "packet_ok (pkt_to p) p b" "pkt_from p = hostName (n\<lparr>sendHolder := Some t\<rparr>)" "\<not> sendBusy (n\<lparr>sendHolder := Some t\<rparr>)"
      using pt SendIn ni by (auto simp: node_inv_def in_inv_def send_inv_def)
    show ?thesis using SendIn by (rule_tac NetworkOutput_Send_ok [OF ok, of fresh r]) auto
  next
    case (SendTry k w name)
    then show ?thesis using try_ok [OF law, of a "out_sock n" w name h] by auto
  next
    case SendOut
    then show ?thesis using send_inv_leave(1) [of a n "P a" t] ni by (auto simp: node_inv_def)
  next
    case WorkerIn
    then have "t = 0" using ni send_inv_worker [of a n "P a" t] by (simp add: node_inv_def)
    then have pre: "packet_ok a (inHdr n) (inbox n)" "length (worker_buffer n) = MaxPacketSize" "numBoxes n = int (length (boxes n))"
        "list_all (\<lambda>b. list_all (\<lambda>x. fst x < next_mail n) b) (boxes n)"
      using ni WorkerIn by (auto simp: node_inv_def in_inv_def box_inv_def list_all_length)
    have "PostalDelivery_body fresh n = Inl AssertFail \<and> numBoxes n \<le> letter_box (packet_letter (inHdr n) (inbox n))
        \<or> (\<exists>n'. PostalDelivery_body fresh n = Inr n') \<and> \<not> numBoxes n \<le> letter_box (packet_letter (inHdr n) (inbox n))"
      by (rule deliver_ok [OF pre HOL.refl HOL.refl, of fresh]) (simp_all add: pre(3))
    then show ?thesis using WorkerIn by auto
  next
    case (GetWait b d)
    define j where "j = nat b"
    have j: "b = int j" "j < length (boxes n)" "MaxMailSize \<le> length d" using pt GetWait j_def by auto
    have pre: "numBoxes n = int (length (boxes n))" "list_all (\<lambda>x. mail_ok (snd x)) (boxes n ! j)"
      using ni j(2) by (auto simp: node_inv_def box_inv_def list_all_iff)
    have "\<exists>x. PostOfficeInput_Receive b d n = Inr x"
      unfolding j(1) by (rule get_ok [OF j(2) pre(1) j(3) pre(2)]) auto
    then show ?thesis using GetWait by auto
  qed auto
qed

lemma receive_interrupt_ok:
  assumes law: "datagrams u q nm" and inv: "net_inv q nm (h, N, P, L)" and N: "N a = Some n"
  shows "receive_interrupt (u a) n h \<noteq> Inl e"
proof -
  let ?n = "n\<lparr>recv_due := recv_due n - 1\<rparr>"
  have pre: "nm h a (in_sock ?n) = Some (socket_name a)" "hostName ?n = a" "length (inbox ?n) = MaxPacketSize"
      "list_all (wire_ok a) (q h (socket_name a))"
    using inv N by (simp_all add: net_inv_def node_inv_def in_inv_def)
  show ?thesis unfolding receive_interrupt_def by (rule receive_ok [OF law pre]) simp_all
qed

section \<open>Schedules\<close>

text \<open>A run as a list of events, to try the model on examples.\<close>

datatype event = Boot "32 word" real node | Send "32 word" nat PacketHeader MailHeader "byte list" | Get "32 word" nat nat "byte list"
  | Step "32 word" nat "32 word" | Recv "32 word" | Sent "32 word"

definition is_idle :: "npoint \<Rightarrow> bool" where
  "is_idle p = (case p of Idle x \<Rightarrow> True | _ \<Rightarrow> False)"

fun net_event :: "(32 word \<Rightarrow> 'h net_unix) \<Rightarrow> (nat \<Rightarrow> byte) \<Rightarrow> event \<Rightarrow> 'h net_config \<Rightarrow> 'h net_config option" where
  "net_event u fresh (Boot a reliability raw) (h, N, P, L) =
     (if N a = None \<and> length (inbox raw) = MaxPacketSize
      then case node_boot (u a) fresh reliability a raw h of Inl e \<Rightarrow> None
        | Inr (n, h') \<Rightarrow> Some (h', N(a \<mapsto> n), P(a := (\<lambda>_. Idle None)(0 := WorkerWait)), clear_log a L)
      else None)"
| "net_event u fresh (Send a t p m d) (h, N, P, L) =
     (case N a of None \<Rightarrow> None | Some n \<Rightarrow>
        if is_idle (P a t) then case PostOfficeOutput_pack fresh p m d n of Inl e \<Rightarrow> None
          | Inr (p', b) \<Rightarrow> Some (h, N, P(a := (P a)(t := SendEnter p' b)), L)
        else None)"
| "net_event u fresh (Get a t i d) (h, N, P, L) =
     (case N a of None \<Rightarrow> None | Some n \<Rightarrow>
        if is_idle (P a t) \<and> i < length (boxes n) \<and> MaxMailSize \<le> length d
        then Some (h, N, P(a := (P a)(t := GetWait (int i) d)), L) else None)"
| "net_event u fresh (Step a t r) (h, N, P, L) =
     (case N a of None \<Rightarrow> None | Some n \<Rightarrow>
        case node_step (u a) fresh r t (P a t) n h of
          Inr (Some (p, n', h')) \<Rightarrow> Some (h', N(a \<mapsto> n'), P(a := (P a)(t := p)), log_step a n (P a t) p L)
        | _ \<Rightarrow> None)"
| "net_event u fresh (Recv a) (h, N, P, L) =
     (case N a of None \<Rightarrow> None | Some n \<Rightarrow>
        if recv_due n > 0 then case receive_interrupt (u a) n h of Inl e \<Rightarrow> None | Inr (n', h') \<Rightarrow> Some (h', N(a \<mapsto> n'), P, L) else None)"
| "net_event u fresh (Sent a) (h, N, P, L) =
     (case N a of None \<Rightarrow> None | Some n \<Rightarrow> if send_due n > 0 then Some (h, N(a \<mapsto> send_interrupt n), P, L) else None)"

fun net_exec :: "(32 word \<Rightarrow> 'h net_unix) \<Rightarrow> (nat \<Rightarrow> byte) \<Rightarrow> event list \<Rightarrow> 'h net_config \<Rightarrow> 'h net_config option" where
  "net_exec u fresh [] c = Some c"
| "net_exec u fresh (e # es) c = (case net_event u fresh e c of None \<Rightarrow> None | Some c' \<Rightarrow> net_exec u fresh es c')"

lemma net_event_reach: "net_event u fresh e c = Some c' \<Longrightarrow> net_reach u fresh c \<Longrightarrow> net_reach u fresh c'"
proof (induction u fresh e c rule: net_event.induct)
  case (1 u fresh a rel raw h N P L)
  then show ?case by (auto split: if_splits sum.splits intro: net_reach.net_boot)
next
  case (2 u fresh a t p m d h N P L)
  then show ?case by (auto simp: is_idle_def split: if_splits sum.splits option.splits npoint.splits intro: net_reach.net_send)
next
  case (3 u fresh a t i d h N P L)
  then show ?case by (auto simp: is_idle_def split: if_splits option.splits npoint.splits intro: net_reach.net_get)
next
  case (4 u fresh a t r h N P L)
  then show ?case by (auto split: sum.splits option.splits intro: net_reach.net_thread)
next
  case (5 u fresh a h N P L)
  then show ?case by (auto split: if_splits sum.splits option.splits intro: net_reach.net_recv)
next
  case (6 u fresh a h N P L)
  then show ?case by (auto split: if_splits option.splits intro: net_reach.net_sent)
qed

lemma net_exec_reach: "net_exec u fresh es c = Some c' \<Longrightarrow> net_reach u fresh c \<Longrightarrow> net_reach u fresh c'"
  by (induction es arbitrary: c) (auto split: option.splits dest: net_event_reach)

text \<open>A host whose datagram sockets keep the assumptions.\<close>

type_synonym small_host = "(byte list \<Rightarrow> byte list list) \<times> (32 word \<Rightarrow> int \<Rightarrow> byte list option) \<times> (byte list \<Rightarrow> bool) \<times> int"

definition small_unix :: "32 word \<Rightarrow> small_host net_unix" where
  "small_unix a =
     \<lparr>u_open = (\<lambda>_ _ h. (- 1, h)), u_read = (\<lambda>_ _ h. (None, h)), u_write = (\<lambda>_ _ h. (- 1, h)), u_lseek = (\<lambda>_ _ _ h. (- 1, h)),
      u_close = (\<lambda>_ h. (0, h)),
      u_unlink = (\<lambda>name (Q, B, X, k). (0, (Q, B, X(name := False), k))),
      u_poll = (\<lambda>fd (Q, B, X, k). (case B a fd of None \<Rightarrow> - 1 | Some name \<Rightarrow> if Q name = [] then 0 else 1, (Q, B, X, k))),
      u_socket = (\<lambda>h. (- 1, h)), u_connect = (\<lambda>_ _ _ h. (- 1, h)), u_send = (\<lambda>_ _ h. (- 1, h)), u_recv = (\<lambda>_ _ h. (None, h)),
      u_dgram = (\<lambda>(Q, B, X, k). (k, (Q, B, X, k + 1))),
      u_bind = (\<lambda>fd name (Q, B, X, k). (0, (Q(name := []), B(a := (B a)(fd := Some name)), X(name := True), k))),
      u_sendto = (\<lambda>fd d name (Q, B, X, k). if X name then (int (length d), (Q(name := Q name @ [d]), B, X, k)) else (- 1, (Q, B, X, k))),
      u_recvfrom = (\<lambda>fd len (Q, B, X, k). (case B a fd of None \<Rightarrow> (None, (Q, B, X, k)) | Some name \<Rightarrow>
         (case Q name of [] \<Rightarrow> (None, (Q, B, X, k)) | d # ds \<Rightarrow> (Some (take (nat len) d), (Q(name := ds), B, X, k)))))\<rparr>"

definition small_start :: "small_host net_config" where
  "small_start = ((\<lambda>_. [], \<lambda>_ _. None, \<lambda>_. False, 3), \<lambda>_. None, \<lambda>_ _. Idle None, empty_log)"

lemma small_datagrams: "datagrams small_unix fst (\<lambda>h. fst (snd h))"
  by (auto simp: datagrams_def small_unix_def keeps_def split: option.splits list.splits if_splits)

text \<open>Machines 0 and 1 start; a thread of machine 0 sends five bytes, of which four are the message, to box \<open>b\<close> of
  machine 1, whose postal worker wakes up.\<close>

definition raw_memory :: node where
  "raw_memory = \<lparr>hostName = 0, in_sock = 0, inHdr = \<lparr>pkt_to = 0, pkt_from = 0, pkt_length = 7\<rparr>, inbox = replicate 52 1, recv_due = 0,
     numPacketsRecvd = 0, messageAvailable = 0, numBoxes = 0, boxes = [], next_mail = 0, worker_buffer = [], out_sock = 0, chanceToWork = 0,
     sendBusy = False, send_due = 0, numPacketsSent = 0, messageSent = 0, sendLock = 0, sendHolder = None\<rparr>"

definition run_to_worker :: "32 word \<Rightarrow> event list" where
  "run_to_worker b = [Boot 0 1 raw_memory, Boot 1 1 raw_memory,
     Send 0 1 \<lparr>pkt_to = 1, pkt_from = 0, pkt_length = 0\<rparr> \<lparr>mail_to = b, mail_from = 3, mail_length = 4\<rparr> [10, 20, 30, 40, 50],
     Step 0 1 7, Step 0 1 7, Step 0 1 7, Recv 1, Step 1 0 0]"

definition run_to_end :: "event list" where
  "run_to_end = run_to_worker 2 @ [Step 1 0 0, Get 1 1 2 (replicate 40 0), Step 1 1 0, Sent 0, Step 0 1 0, Step 0 1 0]"

definition example_letter :: "32 word \<Rightarrow> letter" where
  "example_letter b = (\<lparr>pkt_to = 1, pkt_from = 0, pkt_length = 16\<rparr>, \<lparr>mail_to = b, mail_from = 3, mail_length = 4\<rparr>, [10, 20, 30, 40])"

definition seen :: "small_host net_config \<Rightarrow> letter list \<times> letter list \<times> bool \<times> npoint" where
  "seen c = (case c of (h, N, P, L) \<Rightarrow> (accepted L 1, got L 1 2, N 1 = None, P 1 0))"

lemma small_reach: "net_exec small_unix fresh es small_start = Some c \<Longrightarrow> net_reach small_unix fresh c"
  by (erule net_exec_reach) (simp add: small_start_def net_reach.net_start)

lemma seen_ex:
  assumes "map_option seen (net_exec small_unix fresh es small_start) = Some (acc, gt, False, p)"
  obtains h N P L n where "net_exec small_unix fresh es small_start = Some (h, N, P, L)" and "net_reach small_unix fresh (h, N, P, L)"
    and "N 1 = Some n" and "accepted L 1 = acc" and "got L 1 2 = gt" and "P 1 0 = p"
proof -
  obtain h N P L where e: "net_exec small_unix fresh es small_start = Some (h, N, P, L)" and s: "seen (h, N, P, L) = (acc, gt, False, p)"
    using assms by auto
  obtain n where "N 1 = Some n" using s by (auto simp: seen_def)
  then show thesis using that [OF e small_reach [OF e]] s by (simp add: seen_def)
qed

section \<open>Correctness\<close>

text \<open>C21: What \<^verbatim>\<open>PostOfficeOutput::Send\<close> and \<^verbatim>\<open>NetworkOutput::Send\<close> put on the wire for a message is a packet of 64 bytes,
  addressed to the socket of the machine it is for, that contains exactly the headers, with the sender filled in, and
  exactly the data.\<close>

theorem packet_on_wire:
  assumes "PostOfficeOutput_pack fresh p m d n = Inr (p', b)" and "\<not> sendBusy n" and "NetworkOutput_Send fresh' r p' b n = Inr (Some (w, name), n')"
  shows "length w = MaxWireSize \<and> name = socket_name (pkt_to p) \<and> pkt_from p' = hostName n
    \<and> wire_letter w = (p', m, take (unat (mail_length m)) d)"
proof -
  note k = pack_ok [OF assms(1)]
  show ?thesis
    by (rule NetworkOutput_Send_ok [OF k(1,2) assms(2), of fresh' r]) (use assms(3) k in \<open>auto simp: wire_ok_def\<close>)
qed

definition example_packet :: "((PacketHeader \<times> byte list) \<times> (byte list \<times> byte list) option) option" where
  "example_packet = (case PostOfficeOutput_pack (\<lambda>_. 9) \<lparr>pkt_to = 1, pkt_from = 0, pkt_length = 0\<rparr> \<lparr>mail_to = 2, mail_from = 3, mail_length = 4\<rparr>
       [10, 20, 30, 40, 50] (raw_memory\<lparr>chanceToWork := 1\<rparr>) of Inl e \<Rightarrow> None
     | Inr (p, b) \<Rightarrow> (case NetworkOutput_Send (\<lambda>_. 8) 42 p b (raw_memory\<lparr>chanceToWork := 1\<rparr>) of Inl e \<Rightarrow> None | Inr (x, n) \<Rightarrow> Some ((p, b), x)))"

theorem packet_on_wire_witness:
  "\<exists>p b w name. example_packet = Some ((p, b), Some (w, name)) \<and> length w = MaxWireSize \<and> name = socket_name 1
    \<and> wire_letter w = (p, \<lparr>mail_to = 2, mail_from = 3, mail_length = 4\<rparr>, [10, 20, 30, 40])"
proof -
  let ?n = "raw_memory\<lparr>chanceToWork := 1\<rparr>"
  have "map_option (\<lambda>(_, x). x = None) example_packet = Some False" by code_simp
  then obtain p b w name where e: "example_packet = Some ((p, b), Some (w, name))" by auto
  then obtain n' where "PostOfficeOutput_pack (\<lambda>_. 9) \<lparr>pkt_to = 1, pkt_from = 0, pkt_length = 0\<rparr> \<lparr>mail_to = 2, mail_from = 3, mail_length = 4\<rparr>
       [10, 20, 30, 40, 50] ?n = Inr (p, b)" "NetworkOutput_Send (\<lambda>_. 8) 42 p b ?n = Inr (Some (w, name), n')"
    by (auto simp: example_packet_def split: sum.splits)
  moreover have "\<not> sendBusy ?n" by (simp add: raw_memory_def)
  ultimately show ?thesis using packet_on_wire e by fastforce
qed

text \<open>C20: Letters that arrive are letters that were sent: in every run of machines, threads and interrupts, the letters
  that went into the socket of a machine are, in this order and unchanged, those that its postal worker delivered, the
  one that waits in the network, and those still in the socket; and the letters that threads got out of a box, followed
  by those in the box, are exactly the delivered letters for that box, in order. Nothing is duplicated, reordered or
  changed, and once a letter is in the socket nothing is lost.\<close>

theorem mail_in_order:
  assumes "datagrams u q nm" and "net_reach u fresh (h, N, P, L)" and "N a = Some n"
  shows "accepted L a = delivered L a @ pending n @ map wire_letter (q h (socket_name a))
    \<and> (\<forall>i < length (boxes n). got L a (int i) @ map (\<lambda>x. mail_letter (snd x)) (boxes n ! i) = filter (\<lambda>l. letter_box l = int i) (delivered L a))"
  using net_reach_inv [OF assms(1,2)] assms(3) by (simp add: net_inv_def node_inv_def in_inv_def box_inv_def)

theorem mail_in_order_witness:
  "\<exists>h N P L n. net_exec small_unix (\<lambda>_. 9) run_to_end small_start = Some (h, N, P, L) \<and> N 1 = Some n
    \<and> got L 1 2 = [example_letter 2] \<and> [example_letter 2] = delivered L 1 @ pending n @ map wire_letter (fst h (socket_name 1))"
proof -
  have "map_option seen (net_exec small_unix (\<lambda>_. 9) run_to_end small_start) = Some ([example_letter 2], [example_letter 2], False, WorkerWait)"
    by code_simp
  then obtain h N P L n where "net_exec small_unix (\<lambda>_. 9) run_to_end small_start = Some (h, N, P, L)"
      "net_reach small_unix (\<lambda>_. 9) (h, N, P, L)" "N 1 = Some n" "accepted L 1 = [example_letter 2]" "got L 1 2 = [example_letter 2]"
    by (rule seen_ex)
  then show ?thesis using mail_in_order [OF small_datagrams, of "\<lambda>_. 9" h N P L 1 n] by auto
qed

text \<open>A call of \<^verbatim>\<open>Send\<close> that fails, before anything has been sent.\<close>

lemma pack_failure:
  "PostOfficeOutput_pack fresh p m d n = Inl e \<longleftrightarrow>
     (if unat (mail_length m) \<le> MaxMailSize \<and> 0 \<le> sint (mail_to m)
      then e = OutOfBounds \<and> length d < unat (mail_length m) else e = AssertFail)"
proof -
  define k where "k = unat (mail_length m)"
  then have u: "unat (mail_length m) = k" "uint (mail_length m) = int k" by simp_all
  show ?thesis
    unfolding PostOfficeOutput_pack_def u
    by (auto simp: rbind_ASSERT Let_def copy_in_def copy_out_def size_defs mh.enc_length)
qed

text \<open>A call of \<^verbatim>\<open>Receive\<close> with a buffer for any message fails only for a box that the machine does not have.\<close>

lemma receive_failure:
  assumes inv: "net_inv q nm (h, N, P, L)" and N: "N a = Some n" and d: "MaxMailSize \<le> length d"
  shows "PostOfficeInput_Receive b d n = Inl e \<longleftrightarrow> e = AssertFail \<and> \<not> (0 \<le> b \<and> b < numBoxes n)"
proof (cases "0 \<le> b \<and> b < numBoxes n")
  case True
  have ni: "node_inv a n (nm h a) (q h (socket_name a)) (accepted L a) (delivered L a) (got L a) (P a)"
    using inv N by (simp add: net_inv_def)
  define i where "i = nat b"
  have i: "b = int i" "i < length (boxes n)" "numBoxes n = int (length (boxes n))" "list_all (\<lambda>x. mail_ok (snd x)) (boxes n ! i)"
    using True ni by (auto simp: i_def node_inv_def in_inv_def box_inv_def list_all_length)
  show ?thesis
    using True unfolding i(1) by (rule_tac get_ok [OF i(2,3) d i(4)]) auto
next
  case False
  then show ?thesis by (auto simp: PostOfficeInput_Receive_def rbind_ASSERT)
qed

text \<open>C39: How a machine of the network that has started can stop. In every run of well-formed calls no interrupt for a packet that arrives fails, and a
  step of a thread fails only in one way: the postal worker aborts its machine on a letter to a box that the machine does not have, which
  any other machine can send. Beside this a machine stops only by a call of its own threads: \<^verbatim>\<open>Send\<close> fails its assertions exactly if the
  length is above \<^verbatim>\<open>MaxMailSize\<close> or the box is negative, and reads outside its data exactly if the length is above that of the data;
  \<^verbatim>\<open>Receive\<close> with a buffer of \<^verbatim>\<open>MaxMailSize\<close> bytes or more fails its assertion exactly for a box that the machine does not have.\<close>

theorem network_failures:
  assumes "datagrams u q nm" and "net_reach u fresh (h, N, P, L)" and "N a = Some n"
  shows "receive_interrupt (u a) n h \<noteq> Inl e
    \<and> (node_step (u a) fresh r t (P a t) n h = Inl e \<longleftrightarrow>
        e = AssertFail \<and> P a t = WorkerIn \<and> numBoxes n \<le> letter_box (packet_letter (inHdr n) (inbox n)))
    \<and> (PostOfficeOutput_pack fresh p m d n = Inl e \<longleftrightarrow>
        (if unat (mail_length m) \<le> MaxMailSize \<and> 0 \<le> sint (mail_to m)
         then e = OutOfBounds \<and> length d < unat (mail_length m) else e = AssertFail))
    \<and> (MaxMailSize \<le> length d \<longrightarrow>
        (PostOfficeInput_Receive b d n = Inl e \<longleftrightarrow> e = AssertFail \<and> \<not> (0 \<le> b \<and> b < numBoxes n)))"
  using receive_interrupt_ok [OF assms(1) net_reach_inv [OF assms(1,2)] assms(3)]
    node_failure [OF assms(1) net_reach_inv [OF assms(1,2)] assms(3)] pack_failure
    receive_failure [OF net_reach_inv [OF assms(1,2)] assms(3)] by blast

theorem network_failures_witness:
  "\<exists>h N P L n. net_exec small_unix (\<lambda>_. 9) (run_to_worker 10) small_start = Some (h, N, P, L) \<and> N 1 = Some n
    \<and> receive_interrupt (small_unix 1) n h \<noteq> Inl AssertFail \<and> node_step (small_unix 1) (\<lambda>_. 9) 0 0 (P 1 0) n h = Inl AssertFail"
proof -
  have "map_option (\<lambda>(h, N, P, L). case N 1 of None \<Rightarrow> False | Some n \<Rightarrow>
      P 1 0 = WorkerIn \<and> numBoxes n \<le> letter_box (packet_letter (inHdr n) (inbox n)))
    (net_exec small_unix (\<lambda>_. 9) (run_to_worker 10) small_start) = Some True"
    by code_simp
  then obtain h N P L n where c: "net_exec small_unix (\<lambda>_. 9) (run_to_worker 10) small_start = Some (h, N, P, L)" "N 1 = Some n" "P 1 0 = WorkerIn"
      "numBoxes n \<le> letter_box (packet_letter (inHdr n) (inbox n))"
    by (auto split: option.splits)
  then show ?thesis
    using network_failures [OF small_datagrams small_reach [OF c(1)] c(2), where e = AssertFail and t = 0 and r = 0] by auto
qed

end
