(* ===== verification/KernelMain.thy ===== *)
theory KernelMain
  imports Complex_Main LibTest FileSystemSpec FileTable
begin

text \<open>
  \<^verbatim>\<open>threads/main.cc\<close> and the constructor of \<^verbatim>\<open>threads/kernel.cc\<close>: the command line, which both of them read, and the
  routines that copy a file of the host into the Nachos file system and print a Nachos file. This is the code compiled
  without \<^verbatim>\<open>FILESYS_STUB\<close>. \<^verbatim>\<open>atof\<close> is an argument; what is printed about the usage is left out.
\<close>

section \<open>Command line\<close>

record kernel_options =
  randomSeed :: "int option"
  randomSlice :: bool
  debugUserProg :: bool
  consoleIn :: "string option"
  consoleOut :: "string option"
  formatFlag :: bool
  reliability :: real
  hostName :: int

definition kernel_defaults :: kernel_options where
  "kernel_defaults = \<lparr>randomSeed = None, randomSlice = False, debugUserProg = False, consoleIn = None, consoleOut = None,
     formatFlag = False, reliability = 1, hostName = 0\<rparr>"

text \<open>\<open>with_value\<close>: \<^verbatim>\<open>ASSERT(i + 1 < argc)\<close>, then \<^verbatim>\<open>argv[i + 1]\<close>, which is skipped.\<close>

definition with_value :: "string list \<Rightarrow> (string \<Rightarrow> string list \<Rightarrow> 'b result) \<Rightarrow> 'b result" where
  "with_value rest k = (case rest of [] \<Rightarrow> Inl AssertFail | v # rest' \<Rightarrow> k v rest')"

lemma with_value_cong [fundef_cong]:
  "rest = rest' \<Longrightarrow> (\<And>v r. rest' = v # r \<Longrightarrow> k v r = k' v r) \<Longrightarrow> with_value rest k = with_value rest' k'"
  by (auto simp: with_value_def split: list.splits)

fun kernel_args :: "(string \<Rightarrow> real) \<Rightarrow> string list \<Rightarrow> kernel_options \<Rightarrow> kernel_options result" where
  "kernel_args atof [] k = Inr k"
| "kernel_args atof (a # rest) k =
     (if a = ''-rs'' then with_value rest (\<lambda>v r. kernel_args atof r (k\<lparr>randomSeed := Some (atoi v), randomSlice := True\<rparr>))
      else if a = ''-s'' then kernel_args atof rest (k\<lparr>debugUserProg := True\<rparr>)
      else if a = ''-ci'' then with_value rest (\<lambda>v r. kernel_args atof r (k\<lparr>consoleIn := Some v\<rparr>))
      else if a = ''-co'' then with_value rest (\<lambda>v r. kernel_args atof r (k\<lparr>consoleOut := Some v\<rparr>))
      else if a = ''-f'' then kernel_args atof rest (k\<lparr>formatFlag := True\<rparr>)
      else if a = ''-n'' then with_value rest (\<lambda>v r. kernel_args atof r (k\<lparr>reliability := atof v\<rparr>))
      else if a = ''-m'' then with_value rest (\<lambda>v r. kernel_args atof r (k\<lparr>hostName := atoi v\<rparr>))
      else kernel_args atof rest k)"

definition Kernel_new :: "(string \<Rightarrow> real) \<Rightarrow> string list \<Rightarrow> kernel_options result" where
  "Kernel_new atof argv = kernel_args atof (tl argv) kernel_defaults"

record main_options =
  debugArg :: string
  userProgName :: "string option"
  threadTestFlag :: bool
  consoleTestFlag :: bool
  networkTestFlag :: bool
  copyFileNames :: "(string \<times> string) option"
  printFileName :: "string option"
  removeFileName :: "string option"
  dirListFlag :: bool
  dumpFlag :: bool

definition main_defaults :: main_options where
  "main_defaults = \<lparr>debugArg = [], userProgName = None, threadTestFlag = False, consoleTestFlag = False, networkTestFlag = False,
     copyFileNames = None, printFileName = None, removeFileName = None, dirListFlag = False, dumpFlag = False\<rparr>"

fun main_args :: "string list \<Rightarrow> main_options \<Rightarrow> main_options result" where
  "main_args [] m = Inr m"
| "main_args (a # rest) m =
     (if a = ''-d'' then with_value rest (\<lambda>v r. main_args r (m\<lparr>debugArg := v\<rparr>))
      else if a = ''-x'' then with_value rest (\<lambda>v r. main_args r (m\<lparr>userProgName := Some v\<rparr>))
      else if a = ''-K'' then main_args rest (m\<lparr>threadTestFlag := True\<rparr>)
      else if a = ''-C'' then main_args rest (m\<lparr>consoleTestFlag := True\<rparr>)
      else if a = ''-N'' then main_args rest (m\<lparr>networkTestFlag := True\<rparr>)
      else if a = ''-cp'' then with_value rest (\<lambda>v r. with_value r (\<lambda>w s. main_args s (m\<lparr>copyFileNames := Some (v, w)\<rparr>)))
      else if a = ''-p'' then with_value rest (\<lambda>v r. main_args r (m\<lparr>printFileName := Some v\<rparr>))
      else if a = ''-r'' then with_value rest (\<lambda>v r. main_args r (m\<lparr>removeFileName := Some v\<rparr>))
      else if a = ''-l'' then main_args rest (m\<lparr>dirListFlag := True\<rparr>)
      else if a = ''-D'' then main_args rest (m\<lparr>dumpFlag := True\<rparr>)
      else main_args rest m)"

section \<open>Copying and printing files\<close>

definition TransferSize :: int where "TransferSize = 128"

text \<open>
  The loops of \<^verbatim>\<open>Copy\<close> and \<^verbatim>\<open>Print\<close> end when a read returns nothing; \<open>None\<close> is a loop that does not end. \<open>junk i\<close> is what
  the buffer that \<^verbatim>\<open>Write\<close> allocates in round \<open>i\<close> holds.
\<close>

partial_function (option) copy_loop ::
  "'h unix \<Rightarrow> int \<Rightarrow> (nat \<Rightarrow> nat \<Rightarrow> byte) \<Rightarrow> nat \<Rightarrow> OpenFile \<Rightarrow> SynchDisk \<Rightarrow> 'h \<Rightarrow> (OpenFile \<times> SynchDisk \<times> 'h) result option" where
  "copy_loop u fd junk i f sd h =
     (let (r, h1) = ReadPartial u fd TransferSize h in
      if read_count r > 0
      then (case OpenFile_Write (junk i) f sd (the r) (read_count r) of
              Inl e \<Rightarrow> Some (Inl e)
            | Inr (_, f1, sd1) \<Rightarrow> copy_loop u fd junk (Suc i) f1 sd1 h1)
      else Some (Inr (f, sd, h1)))"

definition Copy :: "'h unix \<Rightarrow> (nat \<Rightarrow> nat \<Rightarrow> byte) \<Rightarrow> (nat \<Rightarrow> nat \<Rightarrow> byte) \<Rightarrow> (nat \<Rightarrow> nat \<Rightarrow> byte) \<Rightarrow> byte list \<Rightarrow> byte list
    \<Rightarrow> FileSystem \<Rightarrow> SynchDisk \<Rightarrow> 'h \<Rightarrow> (SynchDisk \<times> 'h) result option" where
  "Copy u mem mem2 junk source to fs sd h =
     (case rbind (OpenForReadWrite u source False h) (\<lambda>(fd, h1).
        if fd < 0 then Inr (None, sd, h1)
        else rbind (Lseek u fd 0 2 h1) (\<lambda>h2.
        let (fileLength, h3) = Tell u fd h2 in
        rbind (Lseek u fd 0 0 h3) (\<lambda>h4.
        rbind (FileSystem_Create mem fs sd to fileLength) (\<lambda>(created, sd1).
        if \<not> created then rbind (Close u fd h4) (\<lambda>h5. Inr (None, sd1, h5))
        else rbind (FileSystem_Open mem2 fs sd1 to) (\<lambda>(openFile, sd2).
        case openFile of None \<Rightarrow> Inl AssertFail | Some f \<Rightarrow> Inr (Some (fd, f), sd2, h4)))))) of
       Inl e \<Rightarrow> Some (Inl e)
     | Inr (None, sd1, h1) \<Rightarrow> Some (Inr (sd1, h1))
     | Inr (Some (fd, f), sd1, h1) \<Rightarrow>
         map_option (\<lambda>r. rbind r (\<lambda>(_, sd2, h2). rbind (Close u fd h2) (\<lambda>h3. Inr (sd2, h3)))) (copy_loop u fd junk 0 f sd1 h1))"

partial_function (option) print_loop :: "OpenFile \<Rightarrow> SynchDisk \<Rightarrow> byte list \<Rightarrow> (byte list \<times> SynchDisk) result option" where
  "print_loop f sd out =
     (case OpenFile_Read f sd TransferSize of
        Inl e \<Rightarrow> Some (Inl e)
      | Inr (buffer, f1, sd1) \<Rightarrow> if buffer \<noteq> [] then print_loop f1 sd1 (out @ buffer) else Some (Inr (out, sd1)))"

text \<open>The bytes printed, or \<open>None\<close> inside the result when the file cannot be opened.\<close>

definition Print :: "(nat \<Rightarrow> nat \<Rightarrow> byte) \<Rightarrow> FileSystem \<Rightarrow> SynchDisk \<Rightarrow> byte list \<Rightarrow> (byte list option \<times> SynchDisk) result option" where
  "Print mem fs sd name =
     (case FileSystem_Open mem fs sd name of
        Inl e \<Rightarrow> Some (Inl e)
      | Inr (None, sd1) \<Rightarrow> Some (Inr (None, sd1))
      | Inr (Some f, sd1) \<Rightarrow> map_option (\<lambda>r. rbind r (\<lambda>(out, sd2). Inr (Some out, sd2))) (print_loop f sd1 []))"

section \<open>Correctness\<close>

text \<open>
  What is assumed of a file of the host that is open as \<open>fd\<close>, with the contents \<open>c\<close> and the offset \<open>pos h\<close>: a read returns
  some of the bytes from the offset on, at least one unless the offset is at the end, and moves the offset behind them;
  \<^verbatim>\<open>lseek\<close> sets and tells the offset; closing succeeds.
\<close>

definition unix_file :: "'h unix \<Rightarrow> int \<Rightarrow> byte list \<Rightarrow> ('h \<Rightarrow> nat) \<Rightarrow> bool" where
  "unix_file u fd c pos \<longleftrightarrow>
     (\<forall>n h r h'. 0 < n \<longrightarrow> u_read u fd n h = (r, h') \<longrightarrow> (\<exists>k. r = Some (take k (drop (pos h) c)) \<and> k \<le> nat n
        \<and> (pos h < length c \<longrightarrow> 0 < k) \<and> pos h' = pos h + length (take k (drop (pos h) c))))
   \<and> (\<forall>off h r h'. 0 \<le> off \<longrightarrow> u_lseek u fd off 0 h = (r, h') \<longrightarrow> r = off \<and> pos h' = nat off)
   \<and> (\<forall>h r h'. u_lseek u fd 0 2 h = (r, h') \<longrightarrow> r = int (length c) \<and> pos h' = length c)
   \<and> (\<forall>h r h'. u_lseek u fd 0 1 h = (r, h') \<longrightarrow> r = int (pos h) \<and> pos h' = pos h)
   \<and> (\<forall>h r h'. u_close u fd h = (r, h') \<longrightarrow> 0 \<le> r)"

lemmas unix_file_laws = unix_file_def [THEN iffD1]

lemmas unix_file_read = unix_file_laws [THEN conjunct1, rule_format]
  and unix_file_seek = unix_file_laws [THEN conjunct2, THEN conjunct1, rule_format]
  and unix_file_end = unix_file_laws [THEN conjunct2, THEN conjunct2, THEN conjunct1, rule_format]
  and unix_file_tell = unix_file_laws [THEN conjunct2, THEN conjunct2, THEN conjunct2, THEN conjunct1, rule_format]
  and unix_file_close = unix_file_laws [THEN conjunct2, THEN conjunct2, THEN conjunct2, THEN conjunct2, rule_format]

lemma overwrite_next:
  assumes "length c0 = length c"
  shows "overwrite (take p c @ drop p c0) p (take k (drop p c))
    = take (p + length (take k (drop p c))) c @ drop (p + length (take k (drop p c))) c0"
proof (cases "p \<le> length c")
  case True
  define m where "m = length (take k (drop p c))"
  have le: "p + m \<le> length c" using True by (simp add: m_def)
  have chunk: "take k (drop p c) = take m (drop p c)"
    by (cases "k \<le> length (drop p c)") (simp_all add: m_def)
  have len: "length (take p c @ drop p c0) = length c" "take p (take p c @ drop p c0) = take p c"
      "drop (p + m) (take p c @ drop p c0) = drop (p + m) c0"
    using True assms by (simp_all add: add.commute)
  have "take (length c - p) (take m (drop p c)) = take m (drop p c)"
    using le by simp
  then have "overwrite (take p c @ drop p c0) p (take m (drop p c)) = take p c @ take m (drop p c) @ drop (p + m) c0"
    using len le by (simp add: overwrite_def)
  then show ?thesis
    unfolding m_def [symmetric] unfolding chunk by (simp add: take_add)
qed (simp add: overwrite_def assms)

text \<open>A round of the loop: the open file stays the file of the directory.\<close>

lemma open_write:
  assumes ok: "fs_ok fs sd b d" and k: "dir_map d key = Some s" and f: "hdr f = hdr_at (sector sd) (nat s)" and "0 \<le> seekPosition f"
    and "range_fits f (seekPosition f) (int (length data))"
  obtains sd' where "OpenFile_Write junk f sd data (int (length data))
      = Inr (int (min (length data) (nat (numBytes (hdr f)) - nat (seekPosition f))),
             f\<lparr>seekPosition := seekPosition f + int (min (length data) (nat (numBytes (hdr f)) - nat (seekPosition f)))\<rparr>, sd')"
    and "fs_ok fs sd' b d" and "hdr f = hdr_at (sector sd') (nat s)"
    and "fs_files sd' d = (fs_files sd d)(key \<mapsto> overwrite (file_content (sector sd) (hdr f)) (nat (seekPosition f)) data)"
proof -
  obtain sd1 where w: "OpenFile_WriteAt junk f sd data (int (length data)) (seekPosition f)
      = Inr (int (min (length data) (nat (numBytes (hdr f)) - nat (seekPosition f))), sd1)" "fs_ok fs sd1 b d"
      "fs_files sd1 d = (fs_files sd d)(key \<mapsto> overwrite (file_content (sector sd) (hdr f)) (nat (seekPosition f)) data)"
    using fs_write [OF ok k f assms(4,5), of data junk] by auto
  obtain n where n: "s = int n" "hdr_ok (hdr f)" "n \<notin> set (data_sectors (hdr f))"
    using fs_file_header [OF ok k] f by (metis nat_int)
  have "idle sd" using ok by (simp add: fs_ok_def)
  then obtain sd2 where "OpenFile_WriteAt junk f sd data (int (length data)) (seekPosition f)
      = Inr (int (min (length data) (nat (numBytes (hdr f)) - nat (seekPosition f))), sd2)"
      "\<And>s. s \<notin> set (data_sectors (hdr f)) \<Longrightarrow> sector sd2 s = sector sd s"
    using WriteAt_ok [OF n(2) _ assms(4,5), of sd data junk] by auto
  then have "sector sd1 n = sector sd n" using w(1) n(3) by simp
  then have "hdr f = hdr_at (sector sd1) (nat s)" using f n(1) by (simp add: hdr_at_def)
  then show thesis using that [of sd1] w by (simp add: OpenFile_Write_def)
qed

lemma copy_loop_ok:
  assumes law: "unix_file u fd c pos"
  shows "fs_ok fs sd b d \<Longrightarrow> dir_map d key = Some s \<Longrightarrow> hdr f = hdr_at (sector sd) (nat s) \<Longrightarrow> seekPosition f = int (pos h)
    \<Longrightarrow> pos h \<le> length c \<Longrightarrow> length c0 = length c \<Longrightarrow> fs_files sd d = F(key \<mapsto> take (pos h) c @ drop (pos h) c0)
    \<Longrightarrow> \<exists>f' sd' h'. copy_loop u fd junk i f sd h = Some (Inr (f', sd', h')) \<and> fs_ok fs sd' b d \<and> fs_files sd' d = F(key \<mapsto> c)"
proof (induction "length c - pos h" arbitrary: f sd h i rule: less_induct)
  case less
  obtain r h1 where rd: "u_read u fd 128 h = (r, h1)" by fastforce
  obtain k where r: "r = Some (take k (drop (pos h) c))" "pos h < length c \<Longrightarrow> 0 < k" "pos h1 = pos h + length (take k (drop (pos h) c))"
    using unix_file_read [OF law _ rd] by auto
  define chunk where "chunk = take k (drop (pos h) c)"
  have rc: "r = Some chunk" "pos h1 = pos h + length chunk" and cnt: "read_count r = int (length chunk)"
    by (simp_all add: r chunk_def read_count_def)
  show ?case
  proof (cases "pos h < length c")
    case False
    then have "pos h = length c" using less.prems(5) by simp
    then show ?thesis
      using less.prems rd r(1) by (subst copy_loop.simps) (simp add: ReadPartial_def TransferSize_def read_count_def)
  next
    case True
    then have pos: "length chunk > 0" and m: "min (length chunk) (length c - pos h) = length chunk"
      using r(2) by (simp_all add: chunk_def)
    have key: "file_content (sector sd) (hdr f) = take (pos h) c @ drop (pos h) c0"
      using less.prems(2,3) arg_cong [OF less.prems(7), of "\<lambda>g. g key"] by (simp add: fs_files_def)
    then have "length (file_content (sector sd) (hdr f)) = length c" using less.prems(5,6) by simp
    then have nb: "nat (numBytes (hdr f)) = length c" by simp
    have sp: "0 \<le> seekPosition f" "nat (seekPosition f) = pos h" using less.prems(4) by simp_all
    have "hdr_ok (hdr f)"
      using fs_file_header [OF less.prems(1,2)] less.prems(3) by (metis nat_int)
    then have fits: "range_fits f (seekPosition f) (int (length chunk))"
      using nb hdr_ok_length [of "hdr f"] by (intro range_fits_small) (simp_all add: chunk_def)
    obtain sd1 where w: "OpenFile_Write (junk i) f sd chunk (int (length chunk))
        = Inr (int (length chunk), f\<lparr>seekPosition := seekPosition f + int (length chunk)\<rparr>, sd1)"
        "fs_ok fs sd1 b d" "hdr f = hdr_at (sector sd1) (nat s)"
        "fs_files sd1 d = (fs_files sd d)(key \<mapsto> overwrite (file_content (sector sd) (hdr f)) (pos h) chunk)"
      by (rule open_write [OF less.prems(1-3) sp(1) fits, where junk = "junk i", unfolded nb sp(2) m])
    let ?f = "f\<lparr>seekPosition := int (pos h1)\<rparr>"
    have "f\<lparr>seekPosition := seekPosition f + int (length chunk)\<rparr> = ?f" using less.prems(4) rc(2) by simp
    then have "copy_loop u fd junk i f sd h = copy_loop u fd junk (Suc i) ?f sd1 h1"
      using w(1) rd pos rc(1) cnt by (subst copy_loop.simps) (simp add: ReadPartial_def TransferSize_def)
    moreover have "fs_files sd1 d = F(key \<mapsto> take (pos h1) c @ drop (pos h1) c0)"
      using overwrite_next [OF less.prems(6), of "pos h" k] unfolding w(4) less.prems(7) key rc(2) chunk_def by simp
    moreover have "length c - pos h1 < length c - pos h" "pos h1 \<le> length c" using True pos m rc(2) by linarith+
    ultimately show ?thesis
      using less.hyps [of h1 sd1 ?f "Suc i"] w(2,3) less.prems(2,6) by simp
  qed
qed

lemma print_loop_ok:
  "fs_ok fs sd b d \<Longrightarrow> hdr_ok (hdr f) \<Longrightarrow> file_content (sector sd) (hdr f) = c \<Longrightarrow> seekPosition f = int p \<Longrightarrow> p \<le> length c
    \<Longrightarrow> \<exists>sd'. print_loop f sd out = Some (Inr (out @ drop p c, sd')) \<and> fs_ok fs sd' b d \<and> sector sd' = sector sd"
proof (induction "length c - p" arbitrary: f sd p out rule: less_induct)
  case less
  have "idle sd" using less.prems(1) by (simp add: fs_ok_def)
  then obtain sd1 where rd: "OpenFile_ReadAt f sd 128 (int p) = Inr (take 128 (drop p c), sd1)" "idle sd1" "sector sd1 = sector sd"
    using ReadAt_ok [OF less.prems(2), of sd "int p" 128] range_fits_small [OF less.prems(2), of 128] less.prems(3) by auto
  have ok: "fs_ok fs sd1 b d" using fs_ok_sectors [OF less.prems(1) rd(2,3)] by simp
  let ?f = "f\<lparr>seekPosition := int (p + length (take 128 (drop p c)))\<rparr>"
  have "OpenFile_Read f sd TransferSize = Inr (take 128 (drop p c), ?f, sd1)"
    using rd(1) less.prems(4) by (simp add: OpenFile_Read_def TransferSize_def)
  then have st: "print_loop f sd out = (if drop p c \<noteq> [] then print_loop ?f sd1 (out @ take 128 (drop p c)) else Some (Inr (out, sd1)))"
    by (subst print_loop.simps) simp
  show ?case
  proof (cases "p < length c")
    case False
    then show ?thesis using st ok rd(3) by simp
  next
    case True
    let ?p = "p + length (take 128 (drop p c))"
    have "out @ drop p c = (out @ take 128 (drop p c)) @ drop ?p c"
      using append_take_drop_id [of 128 "drop p c"] by (simp add: min_def add.commute)
    moreover have "length c - ?p < length c - p" "?p \<le> length c" using True by auto
    ultimately show ?thesis
      using less.hyps [of ?p sd1 ?f "out @ take 128 (drop p c)"] ok less.prems(2,3) rd(3) st True by simp
  qed
qed

lemma open_at_start: "FileSystem_Open mem fs sd x = Inr (Some f, sd') \<Longrightarrow> seekPosition f = 0"
  by (auto simp: FileSystem_Open_def OpenFile_new_def Let_def rbind_eq_Inr_iff split: if_splits)

lemma copy_start:
  assumes law: "unix_file u fd c pos" and "u_open u source False h = (fd, h1)" and "0 \<le> fd"
    and "FileSystem_Create mem fs sd to (int (length c)) = Inr (True, sd1)" and "FileSystem_Open mem2 fs sd1 to = Inr (Some f, sd2)"
  obtains h4 where "pos h4 = 0" and "Copy u mem mem2 junk source to fs sd h =
      map_option (\<lambda>r. rbind r (\<lambda>(_, sd3, h5). rbind (Close u fd h5) (\<lambda>h6. Inr (sd3, h6)))) (copy_loop u fd junk 0 f sd2 h4)"
proof -
  obtain r2 h2 where s2: "u_lseek u fd 0 2 h1 = (r2, h2)" by fastforce
  obtain r3 h3 where s3: "u_lseek u fd 0 1 h2 = (r3, h3)" by fastforce
  obtain r4 h4 where s4: "u_lseek u fd 0 0 h3 = (r4, h4)" by fastforce
  have "r2 = int (length c)" "pos h2 = length c" "r3 = int (pos h2)" "r4 = 0" "pos h4 = 0"
    using unix_file_end [OF law s2] unix_file_tell [OF law s3] unix_file_seek [OF law _ s4] by auto
  then show thesis
    using that [of h4] assms(2-5) s2 s3 s4
    by (simp add: Copy_def OpenForReadWrite_def Lseek_def Tell_def)
qed

lemma close_ok:
  assumes "unix_file u fd c pos"
  shows "\<exists>h'. Close u fd h = Inr h'"
proof -
  obtain r h' where "u_close u fd h = (r, h')" by fastforce
  then show ?thesis using unix_file_close [OF assms] by (simp add: Close_def)
qed

lemma Copy_ok:
  assumes "fs_ok fs sd b d" and "name_ok to" and "can_create b d (take 9 to) (int (length c))" and "int (length c) \<le> MaxFileSize"
    and "unix_file u fd c pos" and "u_open u source False h = (fd, h1)" and "0 \<le> fd"
  obtains sd' h' b' d' s where "Copy u mem mem2 junk source to fs sd h = Some (Inr (sd', h'))" and "fs_ok fs sd' b' d'"
    and "fs_files sd' d' = (fs_files sd d)(take 9 to \<mapsto> c)" and "dir_map d' (dkey to) = Some s"
proof -
  obtain sd1 b' d' c0 where cr: "FileSystem_Create mem fs sd to (int (length c)) = Inr (True, sd1)" "fs_ok fs sd1 b' d'"
      "fs_files sd1 d' = (fs_files sd d)(dkey to \<mapsto> c0)" "int (length c0) = int (length c)"
    by (rule Create_ok [OF assms(1,2) _ assms(4) assms(3), of mem]) simp_all
  then obtain s where s: "dir_map d' (dkey to) = Some s" by (metis fs_files_None fun_upd_same not_Some_eq)
  obtain f sd2 where op: "FileSystem_Open mem2 fs sd1 to = Inr (Some f, sd2)" "fs_ok fs sd2 b' d'" "fs_files sd2 d' = fs_files sd1 d'"
      "hdr f = hdr_at (sector sd2) (nat s)"
    using fs_open_file [OF cr(2) assms(2) s, of mem2] by metis
  have "seekPosition f = 0" using op(1) by (rule open_at_start)
  moreover obtain h4 where cp: "pos h4 = 0" "Copy u mem mem2 junk source to fs sd h =
      map_option (\<lambda>r. rbind r (\<lambda>(_, sd3, h5). rbind (Close u fd h5) (\<lambda>h6. Inr (sd3, h6)))) (copy_loop u fd junk 0 f sd2 h4)"
    using copy_start [OF assms(5-7) cr(1) op(1)] .
  ultimately obtain f' sd3 h5 where lp: "copy_loop u fd junk 0 f sd2 h4 = Some (Inr (f', sd3, h5))" "fs_ok fs sd3 b' d'"
      "fs_files sd3 d' = (fs_files sd d)(dkey to \<mapsto> c)"
    using copy_loop_ok [OF assms(5) op(2) s op(4), of h4 c0 "fs_files sd d" junk 0] cr(3,4) op(3) by auto
  obtain h6 where cl: "Close u fd h5 = Inr h6" using close_ok [OF assms(5)] by blast
  have "Copy u mem mem2 junk source to fs sd h = Some (Inr (sd3, h6))" using cp(2) lp(1) cl by simp
  then show thesis using that lp(2,3) s by simp
qed

text \<open>C8: \<^verbatim>\<open>Copy\<close> and \<^verbatim>\<open>Print\<close> are inverse: copying a file of the host, of at most \<^verbatim>\<open>MaxFileSize\<close> bytes and read in pieces of
  any size, to a name for which \<^verbatim>\<open>Create\<close> has room ends, leaves exactly one file more, with the contents of the host's file,
  and \<^verbatim>\<open>Print\<close> of that name ends and prints exactly these contents.\<close>

theorem copy_print_roundtrip:
  assumes "fs_ok fs sd b d" and "name_ok to" and "can_create b d (take 9 to) (int (length c))" and "int (length c) \<le> MaxFileSize"
    and "unix_file u fd c pos" and "u_open u source False h = (fd, h1)" and "0 \<le> fd"
  shows "\<exists>sd' h' b' d' sd''. Copy u mem mem2 junk source to fs sd h = Some (Inr (sd', h')) \<and> fs_ok fs sd' b' d'
    \<and> fs_files sd' d' = (fs_files sd d)(take 9 to \<mapsto> c) \<and> Print mem3 fs sd' to = Some (Inr (Some c, sd''))"
proof -
  obtain sd3 h6 b' d' s where cp: "Copy u mem mem2 junk source to fs sd h = Some (Inr (sd3, h6))" "fs_ok fs sd3 b' d'"
      "fs_files sd3 d' = (fs_files sd d)(take 9 to \<mapsto> c)" "dir_map d' (dkey to) = Some s"
    by (rule Copy_ok [OF assms])
  obtain g sd4 where pr: "FileSystem_Open mem3 fs sd3 to = Inr (Some g, sd4)" "fs_ok fs sd4 b' d'" "hdr_ok (hdr g)"
      "fs_files sd3 d' (dkey to) = Some (file_content (sector sd4) (hdr g))"
    using fs_open_file [OF cp(2) assms(2) cp(4), of mem3] by metis
  have "seekPosition g = int 0" using open_at_start [OF pr(1)] by simp
  then obtain sd5 where "print_loop g sd4 [] = Some (Inr ([] @ drop 0 c, sd5))"
    using print_loop_ok [OF pr(2,3), of c 0 "[]"] pr(4) cp(3) by auto
  then have "Print mem3 fs sd3 to = Some (Inr (Some c, sd5))" using pr(1) by (simp add: Print_def)
  then show ?thesis using cp by auto
qed

text \<open>A host with one file, open as descriptor 3; its state is the offset. Reads return at most 100 bytes.\<close>

definition small_file :: "byte list" where "small_file = map of_nat [0..<250]"

definition file_unix :: "byte list \<Rightarrow> nat unix" where
  "file_unix c = \<lparr>u_open = (\<lambda>_ _ h. (3, 0)), u_read = (\<lambda>_ n h. let bs = take (min 100 (nat n)) (drop h c) in (Some bs, h + length bs)),
     u_write = (\<lambda>_ _ h. (- 1, h)), u_lseek = (\<lambda>_ off w h. if w = 0 then (off, nat off) else if w = 1 then (int h, h) else (int (length c), length c)),
     u_close = (\<lambda>_ h. (0, h)), u_unlink = (\<lambda>_ h. (0, h)), u_poll = (\<lambda>_ h. (0, h)), u_socket = (\<lambda>h. (- 1, h)), u_connect = (\<lambda>_ _ _ h. (- 1, h)),
     u_send = (\<lambda>_ _ h. (- 1, h)), u_recv = (\<lambda>_ _ h. (None, h))\<rparr>"

lemma file_unix_file: "unix_file (file_unix c) 3 c (\<lambda>h. h)"
  unfolding unix_file_def
proof (intro conjI allI impI)
  fix n :: int and h r h' assume "0 < n" "u_read (file_unix c) 3 n h = (r, h')"
  then show "\<exists>k. r = Some (take k (drop h c)) \<and> k \<le> nat n \<and> (h < length c \<longrightarrow> 0 < k)
      \<and> h' = h + length (take k (drop h c))"
    by (intro exI [of _ "min 100 (nat n)"]) (auto simp: file_unix_def Let_def)
qed (auto simp: file_unix_def)

theorem copy_print_roundtrip_witness:
  "\<exists>fs sd b d sd' h' sd''. FileSystem_new (\<lambda>i k. 7) True blank_disk = Inr (fs, sd) \<and> fs_ok fs sd b d
    \<and> Copy (file_unix small_file) (\<lambda>i k. 7) (\<lambda>i k. 8) (\<lambda>i k. 9) [98] [97] fs sd 0 = Some (Inr (sd', h'))
    \<and> Print (\<lambda>i k. 6) fs sd' [97] = Some (Inr (Some small_file, sd''))"
proof -
  obtain fs sd b d where f: "FileSystem_new (\<lambda>i k. 7) True blank_disk = Inr (fs, sd)" "fs_ok fs sd b d" "dir_map d = Map.empty"
    "\<not> dir_full d" "card (used_bits b) \<le> 5"
    using format_ok [OF blank_disk_idle] .
  have "name_ok [97]" "int (length small_file) \<le> MaxFileSize" "can_create b d (take 9 [97]) (int (length small_file))"
    using f(3-5) by (simp_all add: small_file_def name_ok_def MaxFileSize_def NumDirect_eq SectorSize_def can_create_def disk_consts divRoundUp_nonneg)
  moreover have "u_open (file_unix small_file) [98] False 0 = (3, 0)" by (simp add: file_unix_def)
  ultimately show ?thesis
    using copy_print_roundtrip [OF f(2) _ _ _ file_unix_file [of small_file], of "[97]" "[98]" 0 0 "\<lambda>i k. 7" "\<lambda>i k. 8" "\<lambda>i k. 9" "\<lambda>i k. 6"] f(1,2)
    by fastforce
qed

text \<open>The two loops over the command line do not know one another's options: the argument of an option of one is an option
  for the other when it looks like one.\<close>

lemma value_is_an_option:
  "main_args [''-x'', ''-s''] main_defaults = Inr (main_defaults\<lparr>userProgName := Some ''-s''\<rparr>)"
  "kernel_args atof [''-x'', ''-s''] kernel_defaults = Inr (kernel_defaults\<lparr>debugUserProg := True\<rparr>)"
  by (simp_all add: with_value_def)

text \<open>Options that neither loop knows are ignored; the constructor of the kernel aborts exactly when the value of its last
  option is missing.\<close>

fun kernel_takes :: "string \<Rightarrow> nat" where
  "kernel_takes a = (if a \<in> {''-rs'', ''-ci'', ''-co'', ''-n'', ''-m''} then 1 else 0)"

fun value_missing :: "string list \<Rightarrow> bool" where
  "value_missing [] = False"
| "value_missing (a # rest) = (if kernel_takes a = 1 then (case rest of [] \<Rightarrow> True | _ # r \<Rightarrow> value_missing r) else value_missing rest)"

lemma kernel_args_fails: "kernel_args atof args k = Inl e \<longleftrightarrow> e = AssertFail \<and> value_missing args"
  by (induction atof args k rule: kernel_args.induct) (auto simp: with_value_def split: list.splits)

end
