(* ===== verification/Coff2Noff.thy ===== *)
theory Coff2Noff
  imports AddrSpace KernelMain
begin

text \<open>
  \<^verbatim>\<open>coff2noff/coff2noff.c\<close>: the program that turns an object file of the MIPS linker (COFF) into the format that
  \<^verbatim>\<open>AddrSpace::Load\<close> reads (NOFF). The host is little-endian and 32 bits wide.

  The input is the bytes of the file and the offset of its descriptor. \<open>wok i\<close> says whether the \<open>i\<close>-th call of \<^verbatim>\<open>write\<close>
  writes all its bytes; when the output could not be opened none does, and the code does not notice before that.
  \<^verbatim>\<open>raw\<close> is what the header on the stack holds before it is filled in. \<^verbatim>\<open>read\<close> and \<^verbatim>\<open>write\<close> with a negative count return -1, as
  Linux does. An exit with status 1 is a \<open>coff_error\<close>; the output file is then removed.
\<close>

datatype coff_error = Usage | NoInput | TooShort | NoOutput | NotMipsel | NotOmagic | BothBss | UnknownSegment

definition ebind :: "coff_error + 'a \<Rightarrow> ('a \<Rightarrow> coff_error + 'b) \<Rightarrow> coff_error + 'b" where
  "ebind r f = (case r of Inl e \<Rightarrow> Inl e | Inr x \<Rightarrow> f x)"

lemma ebind_simps [simp]: "ebind (Inr x) f = f x" "ebind (Inl e) f = Inl e"
  by (simp_all add: ebind_def)

lemma ebind_Inr_iff: "ebind r f = Inr y \<longleftrightarrow> (\<exists>x. r = Inr x \<and> f x = Inr y)"
  by (cases r) simp_all

section \<open>COFF headers\<close>

definition MIPSELMAGIC :: "16 word" where "MIPSELMAGIC = 0x0162"
definition OMAGIC :: "16 word" where "OMAGIC = 0x0107"

definition short_at :: "byte list \<Rightarrow> nat \<Rightarrow> 16 word" where
  "short_at bs i = ucast (bs ! i) OR push_bit 8 (ucast (bs ! Suc i))"

record filehdr =
  f_magic :: "16 word"
  f_nscns :: "16 word"
  f_timdat :: "32 word"
  f_symptr :: "32 word"
  f_nsyms :: "32 word"
  f_opthdr :: "16 word"
  f_flags :: "16 word"

definition filehdr_of :: "byte list \<Rightarrow> filehdr" where
  "filehdr_of bs = (let ws = bytes_words (drop 4 bs) in
     \<lparr>f_magic = short_at bs 0, f_nscns = short_at bs 2, f_timdat = ws ! 0, f_symptr = ws ! 1, f_nsyms = ws ! 2,
      f_opthdr = short_at bs 16, f_flags = short_at bs 18\<rparr>)"

record aouthdr =
  magic :: "16 word"
  vstamp :: "16 word"
  tsize :: "32 word"
  dsize :: "32 word"
  bsize :: "32 word"
  entry_pt :: "32 word"
  text_start :: "32 word"
  data_start :: "32 word"
  bss_start :: "32 word"
  gprmask :: "32 word"
  cprmask :: "32 word list"
  gp_value :: "32 word"

definition aouthdr_of :: "byte list \<Rightarrow> aouthdr" where
  "aouthdr_of bs = (let ws = bytes_words (drop 4 bs) in
     \<lparr>magic = short_at bs 0, vstamp = short_at bs 2, tsize = ws ! 0, dsize = ws ! 1, bsize = ws ! 2, entry_pt = ws ! 3, text_start = ws ! 4,
      data_start = ws ! 5, bss_start = ws ! 6, gprmask = ws ! 7, cprmask = take 4 (drop 8 ws), gp_value = ws ! 12\<rparr>)"

record scnhdr =
  s_name :: "byte list"
  s_paddr :: "32 word"
  s_vaddr :: "32 word"
  s_size :: "32 word"
  s_scnptr :: "32 word"
  s_relptr :: "32 word"
  s_lnnoptr :: "32 word"
  s_nreloc :: "16 word"
  s_nlnno :: "16 word"
  s_flags :: "32 word"

definition scnhdr_of :: "byte list \<Rightarrow> scnhdr" where
  "scnhdr_of bs = (let ws = bytes_words (drop 8 bs) in
     \<lparr>s_name = take 8 bs, s_paddr = ws ! 0, s_vaddr = ws ! 1, s_size = ws ! 2, s_scnptr = ws ! 3, s_relptr = ws ! 4, s_lnnoptr = ws ! 5,
      s_nreloc = short_at bs 32, s_nlnno = short_at bs 34, s_flags = ws ! 7\<rparr>)"

fun scnhdrs_of :: "nat \<Rightarrow> byte list \<Rightarrow> scnhdr list" where
  "scnhdrs_of 0 bs = []"
| "scnhdrs_of (Suc n) bs = scnhdr_of (take 40 bs) # scnhdrs_of n (drop 40 bs)"

definition swap_section :: "scnhdr \<Rightarrow> scnhdr" where
  "swap_section s = s\<lparr>s_paddr := WordToHost (s_paddr s), s_size := WordToHost (s_size s), s_scnptr := WordToHost (s_scnptr s)\<rparr>"

text \<open>\<^verbatim>\<open>!strcmp(s_name, lit)\<close> for a literal of at most six characters: the name is decided within its eight bytes.\<close>

definition section_is :: "byte list \<Rightarrow> scnhdr \<Rightarrow> bool" where
  "section_is lit s \<longleftrightarrow> take (Suc (length lit)) (s_name s) = lit @ [0]"

definition dot_text :: "byte list" where "dot_text = [46, 116, 101, 120, 116]"
definition dot_data :: "byte list" where "dot_data = [46, 100, 97, 116, 97]"
definition dot_rdata :: "byte list" where "dot_rdata = [46, 114, 100, 97, 116, 97]"
definition dot_bss :: "byte list" where "dot_bss = [46, 98, 115, 115]"

section \<open>Files\<close>

text \<open>\<open>Read\<close> and \<open>Write\<close>: the bytes and the new offset; the new contents of the output.\<close>

definition Read :: "byte list \<Rightarrow> int \<Rightarrow> nat \<Rightarrow> coff_error + (byte list \<times> nat)" where
  "Read input n pos =
     (if n = - 1 \<or> n = 0 then Inr ([], pos)
      else if n < 0 \<or> pos + nat n > length input then Inl TooShort
      else Inr (take (nat n) (drop pos input), pos + nat n))"

record noff_out =
  out_bytes :: "byte list"
  out_pos :: nat
  out_calls :: nat

definition put_at :: "byte list \<Rightarrow> nat \<Rightarrow> byte list \<Rightarrow> byte list" where
  "put_at f p bs = (if bs = [] then f else take p f @ replicate (p - length f) 0 @ bs @ drop (p + length bs) f)"

definition Write :: "(nat \<Rightarrow> bool) \<Rightarrow> byte list \<Rightarrow> int \<Rightarrow> noff_out \<Rightarrow> coff_error + noff_out" where
  "Write wok bs n out =
     (if n = - 1 then Inr (out\<lparr>out_calls := Suc (out_calls out)\<rparr>)
      else if n < 0 \<or> \<not> wok (out_calls out) then Inl NoOutput
      else Inr \<lparr>out_bytes = put_at (out_bytes out) (out_pos out) bs, out_pos = out_pos out + length bs, out_calls = Suc (out_calls out)\<rparr>)"

definition lseek_in :: "32 word \<Rightarrow> nat \<Rightarrow> nat" where
  "lseek_in off pos = (if sint off < 0 then pos else nat (sint off))"

section \<open>Conversion\<close>

record conv =
  noffH :: NoffHeader
  inNoffFile :: "32 word"
  in_pos :: nat
  noff_file :: noff_out

text \<open>The part that the cases of \<^verbatim>\<open>.text\<close>, \<^verbatim>\<open>.data\<close> and \<^verbatim>\<open>.rdata\<close> have in common, after the header was set.\<close>

definition copy_segment :: "byte list \<Rightarrow> (nat \<Rightarrow> bool) \<Rightarrow> scnhdr \<Rightarrow> conv \<Rightarrow> coff_error + conv" where
  "copy_segment input wok s st =
     ebind (Read input (sint (s_size s)) (lseek_in (s_scnptr s) (in_pos st))) (\<lambda>(buffer, pos).
     ebind (Write wok buffer (sint (s_size s)) (noff_file st)) (\<lambda>out.
     Inr (st\<lparr>in_pos := pos, noff_file := out, inNoffFile := inNoffFile st + s_size s\<rparr>)))"

definition seg_of :: "scnhdr \<Rightarrow> 32 word \<Rightarrow> Segment" where
  "seg_of s addr = \<lparr>virtualAddr = s_paddr s, inFileAddr = addr, seg_size = s_size s\<rparr>"

definition add_bss :: "scnhdr \<Rightarrow> NoffHeader \<Rightarrow> coff_error + NoffHeader" where
  "add_bss s h =
     (if seg_size (uninitData h) \<noteq> 0
      then if s_paddr s = virtualAddr (uninitData h) + seg_size (uninitData h) then Inl BothBss
           else Inr (h\<lparr>uninitData := (uninitData h)\<lparr>seg_size := seg_size (uninitData h) + s_size s\<rparr>\<rparr>)
      else Inr (h\<lparr>uninitData := (uninitData h)\<lparr>virtualAddr := s_paddr s, seg_size := s_size s\<rparr>\<rparr>))"

definition convert_section :: "byte list \<Rightarrow> (nat \<Rightarrow> bool) \<Rightarrow> scnhdr \<Rightarrow> conv \<Rightarrow> coff_error + conv" where
  "convert_section input wok s st =
     (let here = inNoffFile st in
      if s_size s = 0 then Inr st
      else if section_is dot_text s then copy_segment input wok s (st\<lparr>noffH := (noffH st)\<lparr>code := seg_of s here\<rparr>\<rparr>)
      else if section_is dot_data s then copy_segment input wok s (st\<lparr>noffH := (noffH st)\<lparr>initData := seg_of s here\<rparr>\<rparr>)
      else if section_is dot_rdata s then copy_segment input wok s (st\<lparr>noffH := (noffH st)\<lparr>readonlyData := seg_of s here\<rparr>\<rparr>)
      else if section_is dot_bss s then ebind (add_bss s (noffH st)) (\<lambda>h. Inr (st\<lparr>noffH := h\<rparr>))
      else Inl UnknownSegment)"

fun convert_sections :: "byte list \<Rightarrow> (nat \<Rightarrow> bool) \<Rightarrow> scnhdr list \<Rightarrow> conv \<Rightarrow> coff_error + conv" where
  "convert_sections input wok [] st = Inr st"
| "convert_sections input wok (s # ss) st = ebind (convert_section input wok s st) (convert_sections input wok ss)"

definition zero_sizes :: "NoffHeader \<Rightarrow> NoffHeader" where
  "zero_sizes raw = \<lparr>noffMagic = NOFFMAGIC, code = (code raw)\<lparr>seg_size := 0\<rparr>, initData = (initData raw)\<lparr>seg_size := 0\<rparr>,
     readonlyData = (readonlyData raw)\<lparr>seg_size := 0\<rparr>, uninitData = (uninitData raw)\<lparr>seg_size := 0\<rparr>\<rparr>"

definition segment_words :: "Segment \<Rightarrow> 32 word list" where
  "segment_words s = [virtualAddr s, inFileAddr s, seg_size s]"

text \<open>\<^verbatim>\<open>(char *)&noffH\<close>.\<close>

definition noff_bytes :: "NoffHeader \<Rightarrow> byte list" where
  "noff_bytes h = words_bytes (noffMagic h # segment_words (code h) @ segment_words (initData h) @ segment_words (readonlyData h)
     @ segment_words (uninitData h))"

definition read_sections :: "byte list \<Rightarrow> coff_error + (scnhdr list \<times> nat)" where
  "read_sections input =
     ebind (Read input 20 0) (\<lambda>(fh, p1).
     let fileh = filehdr_of fh in
     if ShortToHost (f_magic fileh) \<noteq> MIPSELMAGIC then Inl NotMipsel
     else ebind (Read input 56 p1) (\<lambda>(sysh, p2).
     if ShortToHost (magic (aouthdr_of sysh)) \<noteq> OMAGIC then Inl NotOmagic
     else let numsections = unat (ShortToHost (f_nscns fileh)) in
     ebind (Read input (int (numsections * 40)) p2) (\<lambda>(bs, p3).
     Inr (map swap_section (scnhdrs_of numsections bs), p3))))"

definition coff2noff :: "nat \<Rightarrow> byte list option \<Rightarrow> (nat \<Rightarrow> bool) \<Rightarrow> NoffHeader \<Rightarrow> coff_error + byte list" where
  "coff2noff argc file wok raw =
     (if argc < 2 then Inl Usage
      else case file of None \<Rightarrow> Inl NoInput
      | Some input \<Rightarrow>
          ebind (read_sections input) (\<lambda>(sections, p).
          ebind (convert_sections input wok sections
              \<lparr>noffH = zero_sizes raw, inNoffFile = 52, in_pos = p, noff_file = \<lparr>out_bytes = [], out_pos = 52, out_calls = 0\<rparr>\<rparr>) (\<lambda>st.
          ebind (Write wok (noff_bytes (SwapHeader (noffH st))) 52 ((noff_file st)\<lparr>out_pos := 0\<rparr>)) (\<lambda>out.
          Inr (out_bytes out)))))"

section \<open>Correctness of the conversion\<close>

datatype seg_kind = Text | Data | RData | Bss | Unknown

definition kind :: "scnhdr \<Rightarrow> seg_kind" where
  "kind s = (if section_is dot_text s then Text else if section_is dot_data s then Data else if section_is dot_rdata s then RData
     else if section_is dot_bss s then Bss else Unknown)"

text \<open>Sections as a linker makes them: at most one that is not empty of each kind, of a known kind, inside the file, of a
  total size below 1 MB.\<close>

definition copied_section :: "byte list \<Rightarrow> scnhdr \<Rightarrow> bool" where
  "copied_section input s \<longleftrightarrow> 0 \<le> sint (s_scnptr s) \<and> sint (s_scnptr s) + sint (s_size s) \<le> int (length input)"

definition coff_ok :: "byte list \<Rightarrow> scnhdr list \<Rightarrow> bool" where
  "coff_ok input ss \<longleftrightarrow> distinct (map kind (filter (\<lambda>s. s_size s \<noteq> 0) ss)) \<and> (\<Sum>s\<leftarrow>ss. sint (s_size s)) < 2 ^ 20
     \<and> list_all (\<lambda>s. 0 \<le> sint (s_size s) \<and> (s_size s \<noteq> 0 \<longrightarrow> kind s \<noteq> Unknown \<and> (kind s \<noteq> Bss \<longrightarrow> copied_section input s))) ss"

definition section_bytes :: "byte list \<Rightarrow> scnhdr \<Rightarrow> byte list" where
  "section_bytes input s = take (nat (sint (s_size s))) (drop (nat (sint (s_scnptr s))) input)"

fun segment_for :: "NoffHeader \<Rightarrow> seg_kind \<Rightarrow> Segment" where
  "segment_for h Text = code h" | "segment_for h Data = initData h" | "segment_for h RData = readonlyData h" | "segment_for h _ = uninitData h"

text \<open>\<open>placed\<close>: the header tells where the section goes in memory and where it is in the file, behind the header.\<close>

definition placed :: "byte list \<Rightarrow> NoffHeader \<Rightarrow> byte list \<Rightarrow> scnhdr \<Rightarrow> bool" where
  "placed input h f s \<longleftrightarrow> (let g = segment_for h (kind s); a = nat (sint (inFileAddr g)) in
     virtualAddr g = s_paddr s \<and> seg_size g = s_size s \<and>
     (kind s \<noteq> Bss \<longrightarrow> 52 \<le> sint (inFileAddr g) \<and> a + nat (sint (s_size s)) \<le> length f \<and> take (nat (sint (s_size s))) (drop a f) = section_bytes input s))"

text \<open>The output is behind its header space, and so far \<open>n\<close> bytes long.\<close>

definition st_ok :: "conv \<Rightarrow> bool" where
  "st_ok st \<longleftrightarrow> (let out = noff_file st in sint (inNoffFile st) = int (out_pos out) \<and> 52 \<le> out_pos out
     \<and> (length (out_bytes out) = out_pos out \<or> out_bytes out = [] \<and> out_pos out = 52))"

definition extends :: "conv \<Rightarrow> conv \<Rightarrow> bool" where
  "extends st st' \<longleftrightarrow> take (length (out_bytes (noff_file st))) (out_bytes (noff_file st')) = out_bytes (noff_file st)
     \<and> length (out_bytes (noff_file st)) \<le> length (out_bytes (noff_file st'))"

lemma placed_extends:
  assumes "placed input (noffH st) (out_bytes (noff_file st)) s" and "extends st st'" and "segment_for (noffH st') (kind s) = segment_for (noffH st) (kind s)"
  shows "placed input (noffH st') (out_bytes (noff_file st')) s"
proof -
  let ?f = "out_bytes (noff_file st)" and ?f' = "out_bytes (noff_file st')"
  have "take n (drop a ?f') = take n (drop a ?f)" if "a + n \<le> length ?f" for a n
  proof -
    have "take n (drop a ?f) = take n (drop a (take (length ?f) ?f'))" using assms(2) by (simp add: extends_def)
    also have "\<dots> = take n (drop a ?f')" using that by (simp add: drop_take)
    finally show ?thesis by simp
  qed
  then show ?thesis
    using assms by (auto simp: placed_def extends_def Let_def)
qed

lemma extends_trans: "extends st1 st2 \<Longrightarrow> extends st2 st3 \<Longrightarrow> extends st1 st3"
  unfolding extends_def by (metis min.absorb1 order_trans take_take)

lemma copy_segment_ok:
  assumes st: "st_ok st" and sz: "0 < sint (s_size s)" and cp: "copied_section input s" and wok: "\<And>i. wok i"
    and room: "sint (inNoffFile st) + sint (s_size s) < 2 ^ 21"
  obtains st' where "copy_segment input wok s st = Inr st'" and "st_ok st'" and "extends st st'" and "noffH st' = noffH st"
    and "sint (inNoffFile st') = sint (inNoffFile st) + sint (s_size s)"
    and "out_pos (noff_file st) + nat (sint (s_size s)) \<le> length (out_bytes (noff_file st'))"
    and "take (nat (sint (s_size s))) (drop (out_pos (noff_file st)) (out_bytes (noff_file st'))) = section_bytes input s"
proof -
  define n where "n = nat (sint (s_size s))"
  define bs where "bs = section_bytes input s"
  let ?out = "noff_file st"
  let ?f = "out_bytes ?out" and ?p = "out_pos ?out"
  have n: "sint (s_size s) = int n" "0 < n" using sz by (simp_all add: n_def)
  have rd: "Read input (sint (s_size s)) (lseek_in (s_scnptr s) (in_pos st)) = Inr (bs, nat (sint (s_scnptr s)) + n)"
    and len: "length bs = n"
    using cp n by (auto simp: Read_def lseek_in_def copied_section_def bs_def section_bytes_def nat_add_distrib)
  let ?out' = "\<lparr>out_bytes = put_at ?f ?p bs, out_pos = ?p + n, out_calls = Suc (out_calls ?out)\<rparr>"
  let ?st = "st\<lparr>in_pos := nat (sint (s_scnptr s)) + n, noff_file := ?out', inNoffFile := inNoffFile st + s_size s\<rparr>"
  have st1: "copy_segment input wok s st = Inr ?st"
    using rd n len wok by (simp add: copy_segment_def Write_def)
  have sum: "sint (inNoffFile st + s_size s) = sint (inNoffFile st) + sint (s_size s)"
    using room st sz by (intro word_sum_sint) (auto simp: int32_def st_ok_def Let_def)
  have put: "put_at ?f ?p bs = take ?p (?f @ replicate (?p - length ?f) 0) @ bs" "length ?f \<le> ?p"
    using st len n(2) by (auto simp: put_at_def st_ok_def Let_def)
  then have lp: "length (put_at ?f ?p bs) = ?p + n" using len by simp
  show thesis
  proof (rule that [OF st1])
    show "st_ok ?st" using st sum n(1) lp by (simp add: st_ok_def Let_def)
    show "extends st ?st" using put by (simp add: extends_def lp)
    show "sint (inNoffFile ?st) = sint (inNoffFile st) + sint (s_size s)" using sum by simp
    show "take (nat (sint (s_size s))) (drop ?p (out_bytes (noff_file ?st))) = section_bytes input s"
      using put len n(1) by (simp add: bs_def)
  qed (use lp n_def in simp_all)
qed

text \<open>One section that is not empty.\<close>

definition set_segment :: "seg_kind \<Rightarrow> Segment \<Rightarrow> NoffHeader \<Rightarrow> NoffHeader" where
  "set_segment k g h = (case k of Text \<Rightarrow> h\<lparr>code := g\<rparr> | Data \<Rightarrow> h\<lparr>initData := g\<rparr> | RData \<Rightarrow> h\<lparr>readonlyData := g\<rparr> | _ \<Rightarrow> h)"

lemma convert_copied:
  assumes "s_size s \<noteq> 0" and "kind s \<in> {Text, Data, RData}"
  shows "convert_section input wok s st = copy_segment input wok s (st\<lparr>noffH := set_segment (kind s) (seg_of s (inNoffFile st)) (noffH st)\<rparr>)"
  using assms by (auto simp: convert_section_def kind_def set_segment_def Let_def split: if_splits)

lemma segment_for_set:
  assumes "k \<in> {Text, Data, RData}"
  shows "segment_for (set_segment k g h) k = g" and "k' \<noteq> k \<Longrightarrow> segment_for (set_segment k g h) k' = segment_for h k'"
    and "noffMagic (set_segment k g h) = noffMagic h"
  using assms by (auto simp: set_segment_def) (cases k'; simp)+

lemma convert_section_ok:
  assumes st: "st_ok st" and s: "s_size s \<noteq> 0" "0 \<le> sint (s_size s)" "kind s \<noteq> Unknown" "kind s \<noteq> Bss \<Longrightarrow> copied_section input s"
    and bss: "kind s = Bss \<Longrightarrow> seg_size (uninitData (noffH st)) = 0" and wok: "\<And>i. wok i" and room: "sint (inNoffFile st) + sint (s_size s) < 2 ^ 21"
  obtains st' where "convert_section input wok s st = Inr st'" and "st_ok st'" and "extends st st'"
    and "sint (inNoffFile st') \<le> sint (inNoffFile st) + sint (s_size s)" and "placed input (noffH st') (out_bytes (noff_file st')) s"
    and "\<And>k. k \<noteq> kind s \<Longrightarrow> k \<noteq> Unknown \<Longrightarrow> segment_for (noffH st') k = segment_for (noffH st) k" and "noffMagic (noffH st') = noffMagic (noffH st)"
proof (cases "kind s = Bss")
  case True
  let ?u = "(uninitData (noffH st))\<lparr>virtualAddr := s_paddr s, seg_size := s_size s\<rparr>"
  let ?st = "st\<lparr>noffH := (noffH st)\<lparr>uninitData := ?u\<rparr>\<rparr>"
  have "convert_section input wok s st = Inr ?st"
    using True s(1) bss by (auto simp: convert_section_def add_bss_def kind_def Let_def split: if_splits)
  moreover have "segment_for (noffH ?st) k = segment_for (noffH st) k" if "k \<noteq> kind s" "k \<noteq> Unknown" for k
    using that True by (cases k) simp_all
  moreover have "placed input (noffH ?st) (out_bytes (noff_file ?st)) s" using True by (simp add: placed_def)
  ultimately show thesis
    using that [of ?st] st s(2) by (simp add: st_ok_def extends_def Let_def)
next
  case False
  then have k: "kind s \<in> {Text, Data, RData}" using s(3) by (cases "kind s") auto
  have sz: "0 < sint (s_size s)" using s(1,2) by (metis le_less signed_eq_0_iff)
  let ?st = "st\<lparr>noffH := set_segment (kind s) (seg_of s (inNoffFile st)) (noffH st)\<rparr>"
  have "st_ok ?st" "sint (inNoffFile ?st) + sint (s_size s) < 2 ^ 21" using st room by (simp_all add: st_ok_def)
  then obtain st' where c: "copy_segment input wok s ?st = Inr st'" "st_ok st'" "extends ?st st'" "noffH st' = noffH ?st"
      "sint (inNoffFile st') = sint (inNoffFile ?st) + sint (s_size s)"
      "out_pos (noff_file ?st) + nat (sint (s_size s)) \<le> length (out_bytes (noff_file st'))"
      "take (nat (sint (s_size s))) (drop (out_pos (noff_file ?st)) (out_bytes (noff_file st'))) = section_bytes input s"
    using copy_segment_ok [of ?st s input wok] sz s(4) [OF False] wok by metis
  have p: "sint (inNoffFile st) = int (out_pos (noff_file st))" "52 \<le> out_pos (noff_file st)" using st by (simp_all add: st_ok_def Let_def)
  have g: "segment_for (noffH st') (kind s) = seg_of s (inNoffFile st)" using c(4) segment_for_set(1) [OF k] by simp
  have "placed input (noffH st') (out_bytes (noff_file st')) s"
    unfolding placed_def g using c(6,7) p by (simp add: seg_of_def Let_def)
  moreover have "convert_section input wok s st = Inr st'" using convert_copied [OF s(1) k] c(1) by simp
  moreover have "extends st st'" using c(3) by (simp add: extends_def)
  ultimately show thesis
    using that [of st'] c(2,4,5) segment_for_set [OF k] by simp
qed

lemma convert_empty: "s_size s = 0 \<Longrightarrow> convert_section input wok s st = Inr st"
  by (simp add: convert_section_def Let_def)

text \<open>All sections: each one is placed, and the segments of kinds that do not occur stay as they were.\<close>

lemma coff_ok_Cons:
  assumes "coff_ok input (s # ss)"
  shows "coff_ok input ss" and "0 \<le> sint (s_size s)" and "s_size s \<noteq> 0 \<Longrightarrow> kind s \<noteq> Unknown \<and> (kind s \<noteq> Bss \<longrightarrow> copied_section input s)"
    and "s_size s \<noteq> 0 \<Longrightarrow> \<forall>s' \<in> set ss. s_size s' \<noteq> 0 \<longrightarrow> kind s' \<noteq> kind s"
  using assms by (auto simp: coff_ok_def image_iff split: if_splits)

lemma sections_size: "coff_ok input ss \<Longrightarrow> 0 \<le> (\<Sum>s\<leftarrow>ss. sint (s_size s))"
  by (intro sum_list_nonneg) (auto simp: coff_ok_def list_all_iff)

lemma convert_sections_ok:
  assumes "coff_ok input ss" and "st_ok st" and "\<And>i. wok i" and "sint (inNoffFile st) + (\<Sum>s\<leftarrow>ss. sint (s_size s)) < 2 ^ 21"
    and "\<forall>s \<in> set ss. s_size s \<noteq> 0 \<longrightarrow> kind s = Bss \<longrightarrow> seg_size (uninitData (noffH st)) = 0"
  shows "\<exists>st'. convert_sections input wok ss st = Inr st' \<and> st_ok st' \<and> extends st st'
    \<and> (\<forall>s \<in> set ss. s_size s \<noteq> 0 \<longrightarrow> placed input (noffH st') (out_bytes (noff_file st')) s)
    \<and> (\<forall>k. k \<noteq> Unknown \<longrightarrow> (\<forall>s \<in> set ss. s_size s \<noteq> 0 \<longrightarrow> kind s \<noteq> k) \<longrightarrow> segment_for (noffH st') k = segment_for (noffH st) k)
    \<and> noffMagic (noffH st') = noffMagic (noffH st)"
  using assms
proof (induction ss arbitrary: st)
  case Nil
  then show ?case by (simp add: extends_def)
next
  case (Cons s ss)
  note ok = coff_ok_Cons [OF Cons.prems(1)]
  show ?case
  proof (cases "s_size s = 0")
    case True
    then show ?thesis using Cons.IH [OF ok(1) Cons.prems(2,3)] Cons.prems(4,5) convert_empty [OF True] by simp
  next
    case False
    have "sint (inNoffFile st) + sint (s_size s) < 2 ^ 21" using Cons.prems(4) sections_size [OF ok(1)] by simp
    then obtain st1 where c: "convert_section input wok s st = Inr st1" "st_ok st1" "extends st st1"
        "sint (inNoffFile st1) \<le> sint (inNoffFile st) + sint (s_size s)" "placed input (noffH st1) (out_bytes (noff_file st1)) s"
        "\<And>k. k \<noteq> kind s \<Longrightarrow> k \<noteq> Unknown \<Longrightarrow> segment_for (noffH st1) k = segment_for (noffH st) k" "noffMagic (noffH st1) = noffMagic (noffH st)"
      using convert_section_ok [OF Cons.prems(2) False ok(2), of input wok] ok(3) [OF False] Cons.prems(3,5) False by auto
    have bss: "\<forall>s' \<in> set ss. s_size s' \<noteq> 0 \<longrightarrow> kind s' = Bss \<longrightarrow> seg_size (uninitData (noffH st1)) = 0"
      using ok(4) [OF False] c(6) [of Bss] Cons.prems(5) by (metis list.set_intros(2) seg_kind.distinct(19) segment_for.simps(4))
    obtain st2 where d: "convert_sections input wok ss st1 = Inr st2" "st_ok st2" "extends st1 st2"
        "\<forall>s \<in> set ss. s_size s \<noteq> 0 \<longrightarrow> placed input (noffH st2) (out_bytes (noff_file st2)) s"
        "\<forall>k. k \<noteq> Unknown \<longrightarrow> (\<forall>s \<in> set ss. s_size s \<noteq> 0 \<longrightarrow> kind s \<noteq> k) \<longrightarrow> segment_for (noffH st2) k = segment_for (noffH st1) k"
        "noffMagic (noffH st2) = noffMagic (noffH st1)"
      using Cons.IH [OF ok(1) c(2) Cons.prems(3) _ bss] c(4) Cons.prems(4) by auto
    have "segment_for (noffH st2) (kind s) = segment_for (noffH st1) (kind s)"
      using d(5) ok(3,4) [OF False] by auto
    then have "placed input (noffH st2) (out_bytes (noff_file st2)) s" using placed_extends [OF c(5) d(3)] by simp
    then show ?thesis
      using c(1,6,7) d extends_trans [OF c(3) d(3)] False by auto
  qed
qed

lemma SwapHeader_id: "SwapHeader h = h"
  by (simp add: SwapHeader_def swap_segment_def WordToHost_def)

lemma length_noff_bytes: "length (noff_bytes h) = 52"
  by (simp add: noff_bytes_def segment_words_def)

lemma noff_bytes_roundtrip: "noff_of_bytes (noff_bytes h) = h"
  by (simp add: noff_of_bytes_def noff_bytes_def segment_words_def segment_of_def Let_def del: words_bytes_Cons)

interpretation nh: flat_object "\<lambda>_. True" noff_bytes noff_of_bytes 52
  by unfold_locales (simp_all add: length_noff_bytes noff_bytes_roundtrip)

definition start_conv :: "NoffHeader \<Rightarrow> nat \<Rightarrow> conv" where
  "start_conv raw p = \<lparr>noffH = zero_sizes raw, inNoffFile = 52, in_pos = p, noff_file = \<lparr>out_bytes = [], out_pos = 52, out_calls = 0\<rparr>\<rparr>"

lemma placed_header:
  assumes "placed input h f s" and "f' = noff_bytes h @ drop 52 f"
  shows "placed input h f' s"
proof -
  have "take n (drop a f') = take n (drop a f)" "length f \<le> length f'" if "52 \<le> a" for a n
    using that by (auto simp: assms(2) length_noff_bytes)
  then show ?thesis
    using assms(1) by (fastforce simp: placed_def Let_def)
qed

text \<open>The header and the sections of the output agree.\<close>

definition converted :: "byte list \<Rightarrow> scnhdr list \<Rightarrow> byte list \<Rightarrow> bool" where
  "converted input ss f \<longleftrightarrow> (let h = noff_of_bytes (take 52 f) in 52 \<le> length f \<and> noffMagic h = NOFFMAGIC
     \<and> (\<forall>s \<in> set ss. s_size s \<noteq> 0 \<longrightarrow> placed input h f s)
     \<and> (\<forall>k. k \<noteq> Unknown \<longrightarrow> (\<forall>s \<in> set ss. s_size s \<noteq> 0 \<longrightarrow> kind s \<noteq> k) \<longrightarrow> seg_size (segment_for h k) = 0))"

lemma coff2noff_ok:
  assumes "2 \<le> argc" and "read_sections input = Inr (ss, p)" and "coff_ok input ss" and "\<forall>i. wok i"
  obtains f where "coff2noff argc (Some input) wok raw = Inr f" and "converted input ss f"
proof -
  let ?st = "start_conv raw p"
  have "st_ok ?st" "sint (inNoffFile ?st) + (\<Sum>s\<leftarrow>ss. sint (s_size s)) < 2 ^ 21"
    using assms(3) by (simp_all add: st_ok_def start_conv_def coff_ok_def)
  then obtain st where c: "convert_sections input wok ss ?st = Inr st" "st_ok st"
      "\<forall>s \<in> set ss. s_size s \<noteq> 0 \<longrightarrow> placed input (noffH st) (out_bytes (noff_file st)) s"
      "\<forall>k. k \<noteq> Unknown \<longrightarrow> (\<forall>s \<in> set ss. s_size s \<noteq> 0 \<longrightarrow> kind s \<noteq> k) \<longrightarrow> segment_for (noffH st) k = segment_for (noffH ?st) k"
      "noffMagic (noffH st) = noffMagic (noffH ?st)"
    using convert_sections_ok [OF assms(3), of ?st wok] assms(4) by (auto simp: start_conv_def zero_sizes_def)
  let ?h = "noffH st" and ?f = "out_bytes (noff_file st)"
  define f where "f = noff_bytes ?h @ drop 52 ?f"
  have "noff_bytes ?h \<noteq> []" using length_noff_bytes [of ?h] by auto
  then have "put_at ?f 0 (noff_bytes ?h) = f"
    by (simp add: put_at_def f_def length_noff_bytes)
  then have res: "coff2noff argc (Some input) wok raw = Inr f"
    using assms(1,2,4) c(1) by (simp add: coff2noff_def start_conv_def [symmetric] Write_def SwapHeader_id)
  have hd: "noff_of_bytes (take 52 f) = ?h" by (simp add: f_def length_noff_bytes noff_bytes_roundtrip)
  have "seg_size (segment_for (noffH ?st) k) = 0" for k by (cases k) (simp_all add: start_conv_def zero_sizes_def)
  moreover have "\<forall>s \<in> set ss. s_size s \<noteq> 0 \<longrightarrow> placed input ?h f s" using c(3) placed_header f_def by blast
  moreover have "52 \<le> length f" "noffMagic ?h = NOFFMAGIC"
    using c(5) by (simp_all add: f_def length_noff_bytes start_conv_def zero_sizes_def)
  ultimately have "converted input ss f" using c(4) by (simp add: converted_def hd)
  then show thesis using that res by blast
qed

text \<open>C14: For an object file with sections as a linker makes them and an output that can be written, \<^verbatim>\<open>coff2noff\<close> succeeds. The
  output begins with a NOFF header; every section that is not empty has its address in memory and its size in the header, and
  all but \<^verbatim>\<open>.bss\<close> have their bytes in the output where the header says; the sizes of kinds of sections that do not occur are 0.\<close>

theorem coff2noff_correct:
  assumes "2 \<le> argc" and "read_sections input = Inr (ss, p)" and "coff_ok input ss" and "\<forall>i. wok i"
  shows "\<exists>f. coff2noff argc (Some input) wok raw = Inr f \<and> 52 \<le> length f
    \<and> noffMagic (noff_of_bytes (take 52 f)) = NOFFMAGIC
    \<and> (\<forall>s \<in> set ss. s_size s \<noteq> 0 \<longrightarrow> placed input (noff_of_bytes (take 52 f)) f s)
    \<and> (\<forall>k. k \<noteq> Unknown \<longrightarrow> (\<forall>s \<in> set ss. s_size s \<noteq> 0 \<longrightarrow> kind s \<noteq> k) \<longrightarrow> seg_size (segment_for (noff_of_bytes (take 52 f)) k) = 0)"
  using coff2noff_ok [OF assms, of raw] unfolding converted_def Let_def by metis

text \<open>The check for two \<^verbatim>\<open>.bss\<close> sections is the wrong way round: it refuses a second one that follows the first, and joins one
  that does not, so that the header no longer tells where it goes.\<close>

lemma bss_check_inverted:
  assumes "seg_size (uninitData h) \<noteq> 0"
  shows "s_paddr s = virtualAddr (uninitData h) + seg_size (uninitData h) \<Longrightarrow> add_bss s h = Inl BothBss"
    and "s_paddr s \<noteq> virtualAddr (uninitData h) + seg_size (uninitData h) \<Longrightarrow> \<exists>h'. add_bss s h = Inr h' \<and> virtualAddr (uninitData h') = virtualAddr (uninitData h)"
  using assms by (auto simp: add_bss_def)

text \<open>The comment at the top of the file names \<^verbatim>\<open>.sbss\<close>, but a section of that name that is not empty stops the conversion.\<close>

lemma sbss_unknown:
  assumes "s_name s = [46, 115, 98, 115, 115, 0, 0, 0]" and "s_size s \<noteq> 0"
  shows "convert_section input wok s st = Inl UnknownSegment"
  using assms by (simp add: convert_section_def section_is_def dot_text_def dot_data_def dot_rdata_def dot_bss_def)

text \<open>Two arguments are needed, one is accepted: without a name for the output no write succeeds and the conversion fails at
  its first write, or because of the input.\<close>

lemma Write_refused: "(\<And>i. \<not> wok i) \<Longrightarrow> n \<noteq> - 1 \<Longrightarrow> Write wok bs n out = Inl NoOutput"
  by (simp add: Write_def)

lemma no_output_fails:
  assumes "\<And>i. \<not> wok i"
  shows "\<exists>e. coff2noff 2 file wok raw = Inl e"
proof -
  have "coff2noff 2 file wok raw \<noteq> Inr f" for f
    by (auto simp: coff2noff_def ebind_Inr_iff Write_refused [OF assms] split: option.splits)
  then show ?thesis by (metis sum.exhaust)
qed

section \<open>From the linker to memory\<close>

text \<open>\<^verbatim>\<open>ReadAt\<close> of an open Nachos file; reading does not change what is on the disk.\<close>

definition open_read :: "OpenFile \<Rightarrow> SynchDisk \<Rightarrow> read_at" where
  "open_read g sd n pos = rbind (OpenFile_ReadAt g sd n pos) (\<lambda>(bs, _). Inr bs)"

text \<open>The bytes of a segment in the file.\<close>

definition seg_bytes :: "byte list \<Rightarrow> Segment \<Rightarrow> byte list" where
  "seg_bytes f g = take (nat (sint (seg_size g))) (drop (nat (sint (inFileAddr g))) f)"

lemma segment_section:
  assumes "converted input ss f" and "g \<in> set (segments (noff_of_bytes (take 52 f)))" and "seg_size g \<noteq> 0"
  obtains s where "s \<in> set ss" and "s_size s \<noteq> 0" and "kind s \<noteq> Bss" and "segment_for (noff_of_bytes (take 52 f)) (kind s) = g"
    and "placed input (noff_of_bytes (take 52 f)) f s"
proof -
  let ?h = "noff_of_bytes (take 52 f)"
  obtain k where k: "g = segment_for ?h k" "k \<noteq> Unknown" "k \<noteq> Bss"
    using assms(2) by (auto simp: segments_def intro: that [of Text] that [of Data] that [of RData])
  then obtain s where "s \<in> set ss" "s_size s \<noteq> 0" "kind s = k"
    using assms(1,3) by (auto simp: converted_def Let_def)
  then show thesis
    using that [of s] k assms(1) by (simp add: converted_def Let_def)
qed

lemma section_in_segments: "kind s \<noteq> Bss \<Longrightarrow> kind s \<noteq> Unknown \<Longrightarrow> segment_for h (kind s) \<in> set (segments h)"
  by (cases "kind s") (simp_all add: segments_def)

lemma bytes_words_append: "bytes_words (words_bytes ws @ bs) = ws @ bytes_words bs"
  by (induction ws) (simp_all add: word_bytes_def)

lemma converted_readable:
  assumes cv: "converted input ss f" and rd: "\<And>n pos. 0 \<le> pos \<Longrightarrow> n \<le> int (length f) \<Longrightarrow> readAt n pos = Inr (take (nat n) (drop (nat pos) f))"
  shows "read_header readAt junk = Inr (noff_of_bytes (take 52 f))"
    and "\<forall>g \<in> set (segments (noff_of_bytes (take 52 f))). holds_segment readAt (seg_bytes f) g"
proof -
  show "read_header readAt junk = Inr (noff_of_bytes (take 52 f))"
  proof -
    have l: "length (take 52 f) = 52" using cv by (simp add: converted_def Let_def)
    have "bytes_words (take 52 f @ x) ! i = bytes_words (take 52 f) ! i" if "i < 13" for x i
    proof -
      have "take 52 f = words_bytes (bytes_words (take 52 f))" using l by (simp add: words_bytes_words)
      then have "bytes_words (take 52 f @ x) = bytes_words (take 52 f) @ bytes_words x"
        using bytes_words_append [of "bytes_words (take 52 f)" x] by simp
      then show ?thesis using that l by (simp add: nth_append)
    qed
    then have "noff_of_bytes (take 52 f @ x) = noff_of_bytes (take 52 f)" for x
      by (simp add: noff_of_bytes_def segment_of_def Let_def)
    then show ?thesis
      using cv rd [of 0 52] by (simp add: read_header_def converted_def Let_def)
  qed
  show "\<forall>g \<in> set (segments (noff_of_bytes (take 52 f))). holds_segment readAt (seg_bytes f) g"
  proof
    fix g assume g: "g \<in> set (segments (noff_of_bytes (take 52 f)))"
    show "holds_segment readAt (seg_bytes f) g"
      unfolding holds_segment_def
    proof
      assume pos: "0 < sint (seg_size g)"
      then have "seg_size g \<noteq> 0" by auto
      from segment_section [OF cv g this] obtain s where s: "kind s \<noteq> Bss" "segment_for (noff_of_bytes (take 52 f)) (kind s) = g"
        "placed input (noff_of_bytes (take 52 f)) f s" by metis
      then have "52 \<le> sint (inFileAddr g)" "nat (sint (inFileAddr g)) + nat (sint (seg_size g)) \<le> length f"
        by (simp_all add: placed_def Let_def)
      then show "readAt (sint (seg_size g)) (sint (inFileAddr g)) = Inr (seg_bytes f g)
          \<and> int (length (seg_bytes f g)) = sint (seg_size g)"
        using rd [of "sint (inFileAddr g)" "sint (seg_size g)"] pos by (simp add: seg_bytes_def)
    qed
  qed
qed

text \<open>The addresses of a section in memory.\<close>

definition section_range :: "scnhdr \<Rightarrow> nat set" where
  "section_range s = {nat (sint (s_paddr s))..<nat (sint (s_paddr s)) + nat (sint (s_size s))}"

lemma placed_range: "placed input h f s \<Longrightarrow> seg_range (segment_for h (kind s)) = section_range s"
  by (simp add: placed_def seg_range_def section_range_def Let_def)

lemma placed_bytes:
  assumes "placed input h f s" and "kind s \<noteq> Bss"
  shows "seg_bytes f (segment_for h (kind s)) = section_bytes input s"
  using assms by (simp add: placed_def seg_bytes_def Let_def)

lemma loaded_sections:
  assumes cv: "converted input ss f" and ld: "loaded (noff_of_bytes (take 52 f)) (seg_bytes f) sp mem" and ok: "coff_ok input ss"
  shows "\<forall>s \<in> set ss. s_size s \<noteq> 0 \<and> kind s \<noteq> Bss \<longrightarrow>
      (\<forall>v \<in> section_range s. vbyte sp mem v = input ! (nat (sint (s_scnptr s)) + (v - nat (sint (s_paddr s)))))"
    and "\<forall>v < page_count (noff_of_bytes (take 52 f)) * 128. (\<forall>s \<in> set ss. kind s \<noteq> Bss \<longrightarrow> v \<notin> section_range s) \<longrightarrow> vbyte sp mem v = 0"
proof -
  let ?h = "noff_of_bytes (take 52 f)"
  show "\<forall>s \<in> set ss. s_size s \<noteq> 0 \<and> kind s \<noteq> Bss \<longrightarrow>
      (\<forall>v \<in> section_range s. vbyte sp mem v = input ! (nat (sint (s_scnptr s)) + (v - nat (sint (s_paddr s)))))"
  proof (intro ballI impI)
    fix s v assume s: "s \<in> set ss" "s_size s \<noteq> 0 \<and> kind s \<noteq> Bss" and v: "v \<in> section_range s"
    have p: "placed input ?h f s" using cv s by (simp add: converted_def Let_def)
    have k: "kind s \<noteq> Unknown" "copied_section input s" using ok s by (auto simp: coff_ok_def list_all_iff)
    have "vbyte sp mem v = section_bytes input s ! (v - nat (sint (s_paddr s)))"
      using ld section_in_segments [of s ?h] k(1) s(2) v p placed_range [OF p] placed_bytes [OF p] by (simp add: loaded_def placed_def Let_def)
    then show "vbyte sp mem v = input ! (nat (sint (s_scnptr s)) + (v - nat (sint (s_paddr s))))"
      using v k(2) by (auto simp: section_bytes_def section_range_def copied_section_def)
  qed
  show "\<forall>v < page_count ?h * 128. (\<forall>s \<in> set ss. kind s \<noteq> Bss \<longrightarrow> v \<notin> section_range s) \<longrightarrow> vbyte sp mem v = 0"
  proof (intro allI impI)
    fix v assume v: "v < page_count ?h * 128" "\<forall>s \<in> set ss. kind s \<noteq> Bss \<longrightarrow> v \<notin> section_range s"
    have "v \<notin> seg_range g" if g: "g \<in> set (segments ?h)" for g
    proof (cases "seg_size g = 0")
      case True
      then show ?thesis by (simp add: seg_range_def)
    next
      case False
      with segment_section [OF cv g] obtain s where "s \<in> set ss" "kind s \<noteq> Bss" "segment_for ?h (kind s) = g" "placed input ?h f s" by metis
      then show ?thesis using v(2) placed_range by metis
    qed
    then show "vbyte sp mem v = 0" using ld v(1) by (simp add: loaded_def)
  qed
qed

text \<open>C13: A program reaches memory. An object file of the linker goes through \<^verbatim>\<open>coff2noff\<close>, is copied to the Nachos disk with
  \<^verbatim>\<open>nachos -cp\<close>, opened there and loaded: every byte of every section that is not \<^verbatim>\<open>.bss\<close> is then at its virtual address, and
  all other bytes of the address space are 0.\<close>

theorem program_reaches_memory:
  assumes "2 \<le> argc" and "read_sections input = Inr (ss, p)" and "coff_ok input ss" and "\<forall>i. wok i"
    and "coff2noff argc (Some input) wok raw = Inr f" and "layout_ok (noff_of_bytes (take 52 f))"
    and "unix_file u fd f pos" and "u_open u source False h = (fd, h1)" and "0 \<le> fd"
    and "fs_ok fs sd b d" and "name_ok to" and "can_create b d (take 9 to) (int (length f))" and "int (length f) \<le> MaxFileSize"
    and "frame_map bm" and "card (bm.used bm) + page_count (noff_of_bytes (take 52 f)) \<le> 128"
  shows "\<exists>sd1 h' g sd2 sp bm' mem. Copy u mem1 mem2 junk source to fs sd h = Some (Inr (sd1, h'))
    \<and> FileSystem_Open mem3 fs sd1 to = Inr (Some g, sd2)
    \<and> AddrSpace_Load (Some (open_read g sd2)) stack AddrSpace_new bm m = Inr (True, sp, bm', m\<lparr>mainMemory := mem\<rparr>)
    \<and> (\<forall>s \<in> set ss. s_size s \<noteq> 0 \<and> kind s \<noteq> Bss \<longrightarrow>
        (\<forall>v \<in> section_range s. vbyte sp mem v = input ! (nat (sint (s_scnptr s)) + (v - nat (sint (s_paddr s))))))
    \<and> (\<forall>v < page_count (noff_of_bytes (take 52 f)) * 128. (\<forall>s \<in> set ss. kind s \<noteq> Bss \<longrightarrow> v \<notin> section_range s) \<longrightarrow> vbyte sp mem v = 0)"
proof -
  have cv: "converted input ss f" using coff2noff_ok [OF assms(1-4), of raw] assms(5) by (metis sum.inject(2))
  obtain sd1 h' b' d' s where cp: "Copy u mem1 mem2 junk source to fs sd h = Some (Inr (sd1, h'))" "fs_ok fs sd1 b' d'"
      "fs_files sd1 d' = (fs_files sd d)(take 9 to \<mapsto> f)" "dir_map d' (dkey to) = Some s"
    by (rule Copy_ok [OF assms(10-13,7-9)])
  obtain g sd2 where g: "FileSystem_Open mem3 fs sd1 to = Inr (Some g, sd2)" "fs_ok fs sd2 b' d'" "hdr_ok (hdr g)"
      "fs_files sd1 d' (dkey to) = Some (file_content (sector sd2) (hdr g))"
    using fs_open_file [OF cp(2) assms(11) cp(4), of mem3] by metis
  have "idle sd2" "file_content (sector sd2) (hdr g) = f" using g(2,4) cp(3) by (simp_all add: fs_ok_def)
  then have rA: "open_read g sd2 n q = Inr (take (nat n) (drop (nat q) f))" if q: "0 \<le> q" "n \<le> int (length f)" for n q
  proof -
    have "n \<le> 2 ^ 30" using q(2) assms(13) by (simp add: MaxFileSize_def NumDirect_eq SectorSize_def)
    then obtain sd3 where "OpenFile_ReadAt g sd2 n q = Inr (take (nat n) (drop (nat q) (file_content (sector sd2) (hdr g))), sd3)"
      using ReadAt_ok [OF g(3) \<open>idle sd2\<close> q(1) range_fits_small [OF g(3)]] by blast
    then show ?thesis using \<open>file_content (sector sd2) (hdr g) = f\<close> by (simp add: open_read_def)
  qed
  note rd = converted_readable [OF cv rA]
  obtain sp bm' mem where ld: "AddrSpace_Load (Some (open_read g sd2)) stack AddrSpace_new bm m = Inr (True, sp, bm', m\<lparr>mainMemory := mem\<rparr>)"
      "loaded (noff_of_bytes (take 52 f)) (seg_bytes f) sp mem"
    using Load_ok [OF assms(14) rd(1) assms(6) rd(2) assms(15)] by metis
  show ?thesis
    using cp(1) g(1) ld(1) loaded_sections [OF cv ld(2) assms(3)] by blast
qed

section \<open>An object file\<close>

text \<open>Two sections: \<^verbatim>\<open>.text\<close>, eight bytes at address 0, and \<^verbatim>\<open>.bss\<close>, sixteen bytes behind it.\<close>

definition sample_coff :: "byte list" where
  "sample_coff = [0x62, 1, 2, 0] @ replicate 16 0 @ [7, 1] @ replicate 54 0
     @ dot_text @ [0, 0, 0] @ words_bytes [0, 0, 8, 156] @ replicate 16 0
     @ dot_bss @ [0, 0, 0, 0] @ words_bytes [8, 8, 16, 0] @ replicate 16 0 @ [1, 2, 3, 4, 5, 6, 7, 8]"

definition sample_sections :: "scnhdr list" where
  "sample_sections = [\<lparr>s_name = dot_text @ [0, 0, 0], s_paddr = 0, s_vaddr = 0, s_size = 8, s_scnptr = 156,
       s_relptr = 0, s_lnnoptr = 0, s_nreloc = 0, s_nlnno = 0, s_flags = 0\<rparr>,
     \<lparr>s_name = dot_bss @ [0, 0, 0, 0], s_paddr = 8, s_vaddr = 8, s_size = 16, s_scnptr = 0,
       s_relptr = 0, s_lnnoptr = 0, s_nreloc = 0, s_nlnno = 0, s_flags = 0\<rparr>]"

definition blank_header :: NoffHeader where
  "blank_header = noff_of_bytes (replicate 52 0)"

definition sample_noff_file :: "byte list" where
  "sample_noff_file = words_bytes [NOFFMAGIC, 0, 52, 8, 0, 0, 0, 0, 0, 0, 8, 0, 16] @ [1, 2, 3, 4, 5, 6, 7, 8]"

lemma sample_coff_sections: "read_sections sample_coff = Inr (sample_sections, 156)"
  by code_simp

lemma sample_coff_ok: "coff_ok sample_coff sample_sections"
  by code_simp

lemma sample_coff_converted: "coff2noff 3 (Some sample_coff) (\<lambda>i. True) blank_header = Inr sample_noff_file"
  by code_simp

theorem coff2noff_correct_witness:
  "\<exists>f. coff2noff 3 (Some sample_coff) (\<lambda>i. True) blank_header = Inr f \<and> noffMagic (noff_of_bytes (take 52 f)) = NOFFMAGIC
    \<and> placed sample_coff (noff_of_bytes (take 52 f)) f (hd sample_sections) \<and> seg_size (initData (noff_of_bytes (take 52 f))) = 0"
proof -
  obtain f where f: "coff2noff 3 (Some sample_coff) (\<lambda>i. True) blank_header = Inr f" "noffMagic (noff_of_bytes (take 52 f)) = NOFFMAGIC"
      "\<forall>s \<in> set sample_sections. s_size s \<noteq> 0 \<longrightarrow> placed sample_coff (noff_of_bytes (take 52 f)) f s"
      "\<forall>k. k \<noteq> Unknown \<longrightarrow> (\<forall>s \<in> set sample_sections. s_size s \<noteq> 0 \<longrightarrow> kind s \<noteq> k) \<longrightarrow> seg_size (segment_for (noff_of_bytes (take 52 f)) k) = 0"
    using coff2noff_correct [OF _ sample_coff_sections sample_coff_ok, of 3 "\<lambda>i. True" blank_header] by auto
  have "list_all (\<lambda>s. kind s \<noteq> Data) sample_sections" by code_simp
  then have "seg_size (initData (noff_of_bytes (take 52 f))) = 0" using f(4) [rule_format, of Data] by (simp add: list_all_iff)
  moreover have "placed sample_coff (noff_of_bytes (take 52 f)) f (hd sample_sections)" using f(3) by (simp add: sample_sections_def)
  ultimately show ?thesis using f(1,2) by blast
qed

text \<open>Adding its sixteen bytes of \<^verbatim>\<open>.bss\<close> and the stack, the program of the sample has nine pages.\<close>

lemma sample_noff_header: "noff_of_bytes (take 52 sample_noff_file) = \<lparr>noffMagic = NOFFMAGIC, code = \<lparr>virtualAddr = 0, inFileAddr = 52, seg_size = 8\<rparr>,
    initData = \<lparr>virtualAddr = 0, inFileAddr = 0, seg_size = 0\<rparr>, readonlyData = \<lparr>virtualAddr = 0, inFileAddr = 0, seg_size = 0\<rparr>,
    uninitData = \<lparr>virtualAddr = 8, inFileAddr = 0, seg_size = 16\<rparr>\<rparr>"
  by code_simp

lemma sample_layout_ok: "layout_ok (noff_of_bytes (take 52 sample_noff_file))" "page_count (noff_of_bytes (take 52 sample_noff_file)) = 9"
  by (simp_all add: sample_noff_header layout_ok_def sizes_ok_def segments_def image_size_def seg_range_def page_count_def divRoundUp_nonneg)

theorem program_reaches_memory_witness:
  "\<exists>fs sd bm sd1 h' g sd2 sp bm' mem. FileSystem_new (\<lambda>i k. 7) True blank_disk = Inr (fs, sd) \<and> Bitmap_new 128 = Inr bm
    \<and> Copy (file_unix sample_noff_file) (\<lambda>i k. 7) (\<lambda>i k. 8) (\<lambda>i k. 9) [98] [97] fs sd 0 = Some (Inr (sd1, h'))
    \<and> FileSystem_Open (\<lambda>i k. 6) fs sd1 [97] = Inr (Some g, sd2)
    \<and> AddrSpace_Load (Some (open_read g sd2)) [] AddrSpace_new bm sample_machine = Inr (True, sp, bm', sample_machine\<lparr>mainMemory := mem\<rparr>)
    \<and> vbyte sp mem 3 = 4 \<and> vbyte sp mem 8 = 0"
proof -
  obtain fs sd b d where f: "FileSystem_new (\<lambda>i k. 7) True blank_disk = Inr (fs, sd)" "fs_ok fs sd b d" "dir_map d = Map.empty"
    "\<not> dir_full d" "card (used_bits b) \<le> 5"
    using format_ok [OF blank_disk_idle] .
  obtain bm where bm: "Bitmap_new 128 = Inr bm" "frame_map bm" "bm.used bm = {}" using free_frame_map by blast
  have "length sample_noff_file = 60" by code_simp
  then have c: "name_ok [97]" "can_create b d (take 9 [97]) (int (length sample_noff_file))" "int (length sample_noff_file) \<le> MaxFileSize"
    using f(3-5) by (simp_all add: name_ok_def MaxFileSize_def NumDirect_eq SectorSize_def can_create_def disk_consts divRoundUp_nonneg)
  have u: "u_open (file_unix sample_noff_file) [98] False 0 = (3, 0)" by (simp add: file_unix_def)
  have r: "card (bm.used bm) + page_count (noff_of_bytes (take 52 sample_noff_file)) \<le> 128" using bm(3) by (simp add: sample_layout_ok)
  obtain sd1 h' g sd2 sp bm' mem where P: "Copy (file_unix sample_noff_file) (\<lambda>i k. 7) (\<lambda>i k. 8) (\<lambda>i k. 9) [98] [97] fs sd 0 = Some (Inr (sd1, h'))"
      "FileSystem_Open (\<lambda>i k. 6) fs sd1 [97] = Inr (Some g, sd2)"
      "AddrSpace_Load (Some (open_read g sd2)) [] AddrSpace_new bm sample_machine = Inr (True, sp, bm', sample_machine\<lparr>mainMemory := mem\<rparr>)"
      "\<forall>s \<in> set sample_sections. s_size s \<noteq> 0 \<and> kind s \<noteq> Bss \<longrightarrow>
        (\<forall>v \<in> section_range s. vbyte sp mem v = sample_coff ! (nat (sint (s_scnptr s)) + (v - nat (sint (s_paddr s)))))"
      "\<forall>v < 9 * 128. (\<forall>s \<in> set sample_sections. kind s \<noteq> Bss \<longrightarrow> v \<notin> section_range s) \<longrightarrow> vbyte sp mem v = 0"
    using program_reaches_memory [OF _ sample_coff_sections sample_coff_ok _ sample_coff_converted sample_layout_ok(1)
        file_unix_file u _ f(2) c bm(2) r, of "\<lambda>i k. 7" "\<lambda>i k. 8" "\<lambda>i k. 9" "\<lambda>i k. 6" "[]" sample_machine]
    unfolding sample_layout_ok(2) by auto
  let ?s = "hd sample_sections"
  have k: "map kind sample_sections = [Text, Bss]" "sample_coff ! 159 = 4" by code_simp+
  have s: "?s \<in> set sample_sections" "s_size ?s = 8" "s_paddr ?s = 0" "s_scnptr ?s = 156" "section_range ?s = {0..<8}" "kind ?s = Text"
    using k(1) by (simp_all add: sample_sections_def section_range_def)
  then have "vbyte sp mem 3 = 4" using P(4) [rule_format, OF s(1), of 3] k(2) by simp
  moreover have "8 \<notin> section_range s" if "s \<in> set sample_sections" "kind s \<noteq> Bss" for s
  proof -
    have "s = ?s" using that k(1) by (auto simp: sample_sections_def)
    then show ?thesis using s(5) by simp
  qed
  then have "vbyte sp mem 8 = 0" using P(5) by simp
  ultimately show ?thesis using f(1) bm(1) P(1-3) by blast
qed

end
