(* ===== verification/SynchListTest.thy ===== *)
theory SynchListTest
  imports SynchList
begin

text \<open>
  \<^verbatim>\<open>SynchList::SelfTest\<close> of \<^verbatim>\<open>threads/synchlist.cc\<close>: the thread that runs the test (thread 0) and the thread that it forks
  (thread 1, \<^verbatim>\<open>SelfTestHelper\<close>) send a value to and fro over two lists, ten times. The state begins after \<^verbatim>\<open>Fork\<close>; each thread is
  in a round, in a call of one of the lists, at one of the control points of \<^verbatim>\<open>SynchList\<close>.
\<close>

datatype main_pos = Pinging nat | Getting nat | MainDone

datatype help_pos = Taking nat | Returning nat | HelpDone

record 'm self_test =
  this_list :: "'m SynchList"
  this_at :: "nat \<Rightarrow> 'm point"
  ping_list :: "'m SynchList"
  ping_at :: "nat \<Rightarrow> 'm point"
  main_at :: main_pos
  help_at :: help_pos

definition st_start :: "'m \<Rightarrow> 'm self_test" where
  "st_start val = \<lparr>this_list = SynchList_new, this_at = \<lambda>_. Outside Nothing, ping_list = SynchList_new,
     ping_at = (\<lambda>_. Outside Nothing)(0 := AppendEnter val, 1 := RemoveEnter), main_at = Pinging 0, help_at = Taking 0\<rparr>"

text \<open>A step inside a call.\<close>

definition this_step :: "nat \<Rightarrow> 'm self_test \<Rightarrow> 'm self_test option result" where
  "this_step t s = rbind (sl_step t (this_at s t) (this_list s)) (\<lambda>r.
     Inr (map_option (\<lambda>(q, l). s\<lparr>this_list := l, this_at := (this_at s)(t := q)\<rparr>) r))"

definition ping_step :: "nat \<Rightarrow> 'm self_test \<Rightarrow> 'm self_test option result" where
  "ping_step t s = rbind (sl_step t (ping_at s t) (ping_list s)) (\<lambda>r.
     Inr (map_option (\<lambda>(q, l). s\<lparr>ping_list := l, ping_at := (ping_at s)(t := q)\<rparr>) r))"

text \<open>The loop of the test: \<^verbatim>\<open>selfTestPing->Append(val)\<close>, then \<^verbatim>\<open>ASSERT(val == this->RemoveFront())\<close>.\<close>

definition SelfTest_next :: "'m \<Rightarrow> 'm self_test \<Rightarrow> 'm self_test option result" where
  "SelfTest_next val s =
     (case main_at s of
        Pinging i \<Rightarrow>
          (case ping_at s 0 of
             Outside _ \<Rightarrow> Inr (Some (s\<lparr>this_at := (this_at s)(0 := RemoveEnter), main_at := Getting i\<rparr>))
           | _ \<Rightarrow> ping_step 0 s)
      | Getting i \<Rightarrow>
          (case this_at s 0 of
             Outside (Item x) \<Rightarrow> rbind (ASSERT (val = x)) (\<lambda>_. Inr (Some
               (if Suc i < 10 then s\<lparr>ping_at := (ping_at s)(0 := AppendEnter val), main_at := Pinging (Suc i)\<rparr>
                else s\<lparr>main_at := MainDone\<rparr>)))
           | _ \<Rightarrow> this_step 0 s)
      | MainDone \<Rightarrow> Inr None)"

text \<open>The loop of the helper: \<^verbatim>\<open>_this->Append(_this->selfTestPing->RemoveFront())\<close>.\<close>

definition SelfTestHelper_next :: "'m self_test \<Rightarrow> 'm self_test option result" where
  "SelfTestHelper_next s =
     (case help_at s of
        Taking i \<Rightarrow>
          (case ping_at s 1 of
             Outside (Item x) \<Rightarrow> Inr (Some (s\<lparr>this_at := (this_at s)(1 := AppendEnter x), help_at := Returning i\<rparr>))
           | _ \<Rightarrow> ping_step 1 s)
      | Returning i \<Rightarrow>
          (case this_at s 1 of
             Outside _ \<Rightarrow> Inr (Some
               (if Suc i < 10 then s\<lparr>ping_at := (ping_at s)(1 := RemoveEnter), help_at := Taking (Suc i)\<rparr>
                else s\<lparr>help_at := HelpDone\<rparr>))
           | _ \<Rightarrow> this_step 1 s)
      | HelpDone \<Rightarrow> Inr None)"

text \<open>The states after \<open>n\<close> steps, in any interleaving.\<close>

inductive st_run :: "'m \<Rightarrow> nat \<Rightarrow> 'm self_test \<Rightarrow> bool" for val where
  st_begin: "st_run val 0 (st_start val)"
| st_main: "st_run val n s \<Longrightarrow> SelfTest_next val s = Inr (Some s') \<Longrightarrow> st_run val (Suc n) s'"
| st_help: "st_run val n s \<Longrightarrow> SelfTestHelper_next s = Inr (Some s') \<Longrightarrow> st_run val (Suc n) s'"

section \<open>Invariant\<close>

text \<open>A call of \<^verbatim>\<open>Append\<close> or \<^verbatim>\<open>RemoveFront\<close> in round \<open>k\<close>, when \<open>n\<close> items have been appended or removed.\<close>

definition appending :: "'m \<Rightarrow> 'm point \<Rightarrow> nat \<Rightarrow> nat \<Rightarrow> bool" where
  "appending val p n k \<longleftrightarrow> p \<in> {AppendEnter val, AppendIn val} \<and> n = k \<or> p \<in> {AppendSignalled, Outside Nothing} \<and> n = Suc k"

definition removing :: "'m \<Rightarrow> 'm point \<Rightarrow> nat \<Rightarrow> nat \<Rightarrow> bool" where
  "removing val p n k \<longleftrightarrow> p \<in> {RemoveEnter, RemoveIn, RemoveAgain} \<union> range RemoveWait \<and> n = k \<or> p = Outside (Item val) \<and> n = Suc k"

text \<open>A list that has taken in \<open>a\<close> times the value and given it out \<open>b\<close> times.\<close>

definition carries :: "'m \<Rightarrow> 'm SynchList \<Rightarrow> (nat \<Rightarrow> 'm point) \<Rightarrow> nat \<Rightarrow> nat \<Rightarrow> bool" where
  "carries val l P a b \<longleftrightarrow> sl_reach (l, P, replicate a val, replicate b val) \<and> (\<forall>t \<ge> 2. P t = Outside Nothing)"

fun main_ok :: "'m \<Rightarrow> main_pos \<Rightarrow> 'm point \<Rightarrow> 'm point \<Rightarrow> nat \<Rightarrow> nat \<Rightarrow> bool" where
  "main_ok val (Pinging i) pp tp a d \<longleftrightarrow> i < 10 \<and> d = i \<and> is_outside tp \<and> appending val pp a i"
| "main_ok val (Getting i) pp tp a d \<longleftrightarrow> i < 10 \<and> a = Suc i \<and> is_outside pp \<and> removing val tp d i"
| "main_ok val MainDone pp tp a d \<longleftrightarrow> a = 10 \<and> d = 10 \<and> is_outside pp \<and> is_outside tp"

fun help_ok :: "'m \<Rightarrow> help_pos \<Rightarrow> 'm point \<Rightarrow> 'm point \<Rightarrow> nat \<Rightarrow> nat \<Rightarrow> bool" where
  "help_ok val (Taking j) pp tp b c \<longleftrightarrow> j < 10 \<and> c = j \<and> is_outside tp \<and> removing val pp b j"
| "help_ok val (Returning j) pp tp b c \<longleftrightarrow> j < 10 \<and> b = Suc j \<and> is_outside pp \<and> appending val tp c j"
| "help_ok val HelpDone pp tp b c \<longleftrightarrow> b = 10 \<and> c = 10 \<and> is_outside pp \<and> is_outside tp"

definition st_inv :: "'m \<Rightarrow> 'm self_test \<Rightarrow> nat \<Rightarrow> nat \<Rightarrow> nat \<Rightarrow> nat \<Rightarrow> bool" where
  "st_inv val s a b c d \<longleftrightarrow> carries val (ping_list s) (ping_at s) a b \<and> carries val (this_list s) (this_at s) c d
     \<and> main_ok val (main_at s) (ping_at s 0) (this_at s 0) a d \<and> help_ok val (help_at s) (ping_at s 1) (this_at s 1) b c"

lemma carries_items: "carries val l P a b \<Longrightarrow> b \<le> a \<and> items l = replicate (a - b) val"
proof -
  assume "carries val l P a b"
  then have "replicate a val = replicate b val @ items l" using sl_reach_inv by (auto simp: carries_def)
  then have "length (replicate a val) = b + length (items l)" "drop b (replicate a val) = items l" by simp_all
  then show ?thesis by (simp add: drop_replicate)
qed

lemma outside_step: "is_outside p \<Longrightarrow> sl_step t p l = Inr None"
  by (cases p) simp_all

lemma append_step:
  assumes c: "carries val l P a b" and ap: "appending val (P t) a k" and t: "t < 2" and st: "sl_step t (P t) l = Inr (Some (q, l'))"
  shows "\<exists>a'. carries val l' (P(t := q)) a' b \<and> appending val q a' k"
proof -
  have r: "sl_reach (l', P(t := q), replicate a val @ appended (P t), replicate b val @ removed q)"
    using c st sl_thread by (auto simp: carries_def)
  have o: "\<forall>u \<ge> 2. (P(t := q)) u = Outside Nothing" using c t by (simp add: carries_def)
  have q: "P t = AppendEnter val \<and> q = AppendIn val \<or> P t = AppendIn val \<and> (q = AppendSignalled \<or> q = Outside Nothing) \<or> P t = AppendSignalled \<and> q = Outside Nothing"
    using ap st by (auto simp: appending_def lock_P_def SynchList_Append_def Signal_def Let_def rbind_eq_Inr_iff split: if_splits)
  have "carries val l' (P(t := q)) (if P t = AppendIn val then Suc a else a) b"
    using r o q by (auto simp: carries_def replicate_append_same)
  moreover have "appending val q (if P t = AppendIn val then Suc a else a) k" using q ap by (auto simp: appending_def)
  ultimately show ?thesis by blast
qed

lemma remove_step:
  assumes c: "carries val l P a b" and rm: "removing val (P t) b k" and t: "t < 2" and st: "sl_step t (P t) l = Inr (Some (q, l'))"
  shows "\<exists>b'. carries val l' (P(t := q)) a b' \<and> removing val q b' k"
proof -
  have r: "sl_reach (l', P(t := q), replicate a val @ appended (P t), replicate b val @ removed q)"
    using c st sl_thread by (auto simp: carries_def)
  have o: "\<forall>u \<ge> 2. (P(t := q)) u = Outside Nothing" using c t by (simp add: carries_def)
  have it: "set (items l) \<subseteq> {val}" using carries_items [OF c] by auto
  have q: "appended (P t) = []" "b = k" "q = Outside (Item val) \<or> q \<in> {RemoveIn, RemoveAgain} \<union> range RemoveWait"
    using rm st it by (auto simp: removing_def lock_P_def SynchList_RemoveFront_def Condition_Wait_begin_def absl_RemoveFront_def Let_def
        rbind_eq_Inr_iff split: if_splits list.splits)
  have "removed q = (if q = Outside (Item val) then [val] else [])" using q(3) by auto
  then have "carries val l' (P(t := q)) a (if q = Outside (Item val) then Suc b else b)"
    using r o q(1) by (auto simp: carries_def replicate_append_same)
  moreover have "removing val q (if q = Outside (Item val) then Suc b else b) k" using q(2,3) by (auto simp: removing_def)
  ultimately show ?thesis by blast
qed

lemma carries_call:
  assumes "carries val l P a b" and "is_outside (P t)" and "t < 2" and "call_point p"
  shows "carries val l (P(t := p)) a b"
proof -
  obtain r where "P t = Outside r" using assms(2) by (cases "P t") auto
  then show ?thesis using assms by (cases p) (auto simp: carries_def intro: sl_reach.intros)
qed

lemma ping_step_Some: "ping_step t s = Inr (Some s') \<longleftrightarrow> (\<exists>q l. sl_step t (ping_at s t) (ping_list s) = Inr (Some (q, l))
    \<and> s' = s\<lparr>ping_list := l, ping_at := (ping_at s)(t := q)\<rparr>)"
  by (auto simp: ping_step_def rbind_eq_Inr_iff)

lemma this_step_Some: "this_step t s = Inr (Some s') \<longleftrightarrow> (\<exists>q l. sl_step t (this_at s t) (this_list s) = Inr (Some (q, l))
    \<and> s' = s\<lparr>this_list := l, this_at := (this_at s)(t := q)\<rparr>)"
  by (auto simp: this_step_def rbind_eq_Inr_iff)

text \<open>A step of a thread is a step in one of the lists, or the return from one call and the begin of the next.\<close>

lemma SelfTest_next_cases:
  assumes "SelfTest_next val s = Inr (Some s')"
  obtains (ping) i where "main_at s = Pinging i" and "ping_step 0 s = Inr (Some s')"
  | (get) i where "main_at s = Pinging i" and "is_outside (ping_at s 0)" and "s' = s\<lparr>this_at := (this_at s)(0 := RemoveEnter), main_at := Getting i\<rparr>"
  | (inner) i where "main_at s = Getting i" and "this_step 0 s = Inr (Some s')"
  | (again) i where "main_at s = Getting i" and "this_at s 0 = Outside (Item val)" and "Suc i < 10"
      and "s' = s\<lparr>ping_at := (ping_at s)(0 := AppendEnter val), main_at := Pinging (Suc i)\<rparr>"
  | (stop) i where "main_at s = Getting i" and "this_at s 0 = Outside (Item val)" and "\<not> Suc i < 10" and "s' = s\<lparr>main_at := MainDone\<rparr>"
  using assms by (cases "main_at s"; cases "ping_at s 0"; cases "this_at s 0")
    (auto simp: SelfTest_next_def rbind_eq_Inr_iff split: outcome.splits if_splits)

lemma SelfTestHelper_next_cases:
  assumes "SelfTestHelper_next s = Inr (Some s')"
  obtains (ping) i where "help_at s = Taking i" and "ping_step 1 s = Inr (Some s')"
  | (give) i x where "help_at s = Taking i" and "ping_at s 1 = Outside (Item x)" and "s' = s\<lparr>this_at := (this_at s)(1 := AppendEnter x), help_at := Returning i\<rparr>"
  | (inner) i where "help_at s = Returning i" and "this_step 1 s = Inr (Some s')"
  | (again) i where "help_at s = Returning i" and "is_outside (this_at s 1)" and "Suc i < 10"
      and "s' = s\<lparr>ping_at := (ping_at s)(1 := RemoveEnter), help_at := Taking (Suc i)\<rparr>"
  | (stop) i where "help_at s = Returning i" and "is_outside (this_at s 1)" and "\<not> Suc i < 10" and "s' = s\<lparr>help_at := HelpDone\<rparr>"
  using assms by (cases "help_at s"; cases "ping_at s 1"; cases "this_at s 1")
    (auto simp: SelfTestHelper_next_def split: outcome.splits if_splits)

lemmas st_inv_parts = st_inv_def [THEN iffD1, THEN conjunct1] st_inv_def [THEN iffD1, THEN conjunct2, THEN conjunct1]
  st_inv_def [THEN iffD1, THEN conjunct2, THEN conjunct2, THEN conjunct1] st_inv_def [THEN iffD1, THEN conjunct2, THEN conjunct2, THEN conjunct2]

lemma main_keeps:
  assumes inv: "st_inv val s a b c d" and st: "SelfTest_next val s = Inr (Some s')"
  shows "\<exists>a b c d. st_inv val s' a b c d"
  using st
proof (cases rule: SelfTest_next_cases)
  case (ping i)
  obtain q l where q: "sl_step 0 (ping_at s 0) (ping_list s) = Inr (Some (q, l))" "s' = s\<lparr>ping_list := l, ping_at := (ping_at s)(0 := q)\<rparr>"
    using ping(2) by (auto simp: ping_step_Some)
  have "appending val (ping_at s 0) a i" using st_inv_parts(3) [OF inv] ping(1) by simp
  from append_step [OF st_inv_parts(1) [OF inv] this _ q(1)] obtain a' where "carries val l ((ping_at s)(0 := q)) a' b" "appending val q a' i" by auto
  then show ?thesis using inv ping(1) by (auto simp: st_inv_def q(2))
next
  case (inner i)
  obtain q l where q: "sl_step 0 (this_at s 0) (this_list s) = Inr (Some (q, l))" "s' = s\<lparr>this_list := l, this_at := (this_at s)(0 := q)\<rparr>"
    using inner(2) by (auto simp: this_step_Some)
  have "removing val (this_at s 0) d i" using st_inv_parts(3) [OF inv] inner(1) by simp
  from remove_step [OF st_inv_parts(2) [OF inv] this _ q(1)] obtain d' where "carries val l ((this_at s)(0 := q)) c d'" "removing val q d' i" by auto
  then show ?thesis using inv inner(1) by (auto simp: st_inv_def q(2))
next
  case (get i)
  then have "carries val (this_list s) ((this_at s)(0 := RemoveEnter)) c d" "a = Suc i"
    using inv carries_call [of val "this_list s" "this_at s" c d 0 RemoveEnter] by (auto simp: st_inv_def appending_def)
  then show ?thesis using inv get by (auto simp: st_inv_def removing_def)
next
  case (again i)
  then have "carries val (ping_list s) ((ping_at s)(0 := AppendEnter val)) a b" "d = Suc i"
    using inv carries_call [of val "ping_list s" "ping_at s" a b 0 "AppendEnter val"] by (auto simp: st_inv_def removing_def)
  then show ?thesis using inv again by (auto simp: st_inv_def appending_def)
next
  case (stop i)
  then have "i = 9" using inv by (simp add: st_inv_def)
  then have "st_inv val s' a b c d" using stop inv by (auto simp: st_inv_def removing_def)
  then show ?thesis by blast
qed

lemma help_keeps:
  assumes inv: "st_inv val s a b c d" and st: "SelfTestHelper_next s = Inr (Some s')"
  shows "\<exists>a b c d. st_inv val s' a b c d"
  using st
proof (cases rule: SelfTestHelper_next_cases)
  case (ping i)
  obtain q l where q: "sl_step 1 (ping_at s 1) (ping_list s) = Inr (Some (q, l))" "s' = s\<lparr>ping_list := l, ping_at := (ping_at s)(1 := q)\<rparr>"
    using ping(2) by (auto simp: ping_step_Some)
  have "removing val (ping_at s 1) b i" using st_inv_parts(4) [OF inv] ping(1) by simp
  from remove_step [OF st_inv_parts(1) [OF inv] this _ q(1)] obtain b' where "carries val l ((ping_at s)(1 := q)) a b'" "removing val q b' i" by auto
  then show ?thesis using inv ping(1) by (auto simp: st_inv_def q(2))
next
  case (inner i)
  obtain q l where q: "sl_step 1 (this_at s 1) (this_list s) = Inr (Some (q, l))" "s' = s\<lparr>this_list := l, this_at := (this_at s)(1 := q)\<rparr>"
    using inner(2) by (auto simp: this_step_Some)
  have "appending val (this_at s 1) c i" using st_inv_parts(4) [OF inv] inner(1) by simp
  from append_step [OF st_inv_parts(2) [OF inv] this _ q(1)] obtain c' where "carries val l ((this_at s)(1 := q)) c' d" "appending val q c' i" by auto
  then show ?thesis using inv inner(1) by (auto simp: st_inv_def q(2))
next
  case (give i x)
  then have "x = val" "b = Suc i" using inv by (auto simp: st_inv_def removing_def)
  moreover from this have "carries val (this_list s) ((this_at s)(1 := AppendEnter val)) c d"
    using inv give(1) carries_call [of val "this_list s" "this_at s" c d 1 "AppendEnter val"] by (auto simp: st_inv_def)
  ultimately show ?thesis using inv give by (auto simp: st_inv_def appending_def)
next
  case (again i)
  then have "carries val (ping_list s) ((ping_at s)(1 := RemoveEnter)) a b" "c = Suc i"
    using inv carries_call [of val "ping_list s" "ping_at s" a b 1 RemoveEnter] by (auto simp: st_inv_def appending_def)
  then show ?thesis using inv again by (auto simp: st_inv_def removing_def)
next
  case (stop i)
  then have "i = 9" using inv by (simp add: st_inv_def)
  then have "st_inv val s' a b c d" using stop inv by (auto simp: st_inv_def appending_def)
  then show ?thesis by blast
qed

lemma counts:
  assumes "st_inv val s a b c d"
  shows "d \<le> c" "c \<le> b" "b \<le> a" "a \<le> Suc d"
  using carries_items [OF st_inv_parts(1) [OF assms]] carries_items [OF st_inv_parts(2) [OF assms]] st_inv_parts(3,4) [OF assms]
  by (auto simp: appending_def removing_def elim!: main_ok.elims help_ok.elims)

text \<open>No assertion of the lists or of the test fails.\<close>

lemma list_step_fails:
  assumes "carries val l P a b" and "sl_step t (P t) l = Inl e"
  shows "b < a \<and> (\<exists>x. P t = AppendIn x)"
proof -
  have "monitor_inv l P" using assms(1) sl_reach_inv by (auto simp: carries_def)
  then obtain x where "P t = AppendIn x" "x \<in> set (items l)" using step_failure assms(2) by blast
  then show ?thesis using carries_items [OF assms(1)] by auto
qed

lemma ping_never_fails: "st_inv val s a b c d \<Longrightarrow> appending val (ping_at s 0) a i \<Longrightarrow> d = i \<Longrightarrow> ping_step 0 s \<noteq> Inl e"
  using counts [of val s a b c d] list_step_fails [OF st_inv_parts(1), of val s a b c d 0 e]
  by (auto simp: ping_step_def rbind_eq_Inl_iff appending_def)

lemma take_never_fails: "st_inv val s a b c d \<Longrightarrow> removing val (ping_at s 1) b i \<Longrightarrow> ping_step 1 s \<noteq> Inl e"
  using list_step_fails [OF st_inv_parts(1), of val s a b c d 1 e] by (auto simp: ping_step_def rbind_eq_Inl_iff removing_def)

lemma get_never_fails: "st_inv val s a b c d \<Longrightarrow> removing val (this_at s 0) d i \<Longrightarrow> this_step 0 s \<noteq> Inl e"
  using list_step_fails [OF st_inv_parts(2), of val s a b c d 0 e] by (auto simp: this_step_def rbind_eq_Inl_iff removing_def)

lemma return_never_fails: "st_inv val s a b c d \<Longrightarrow> appending val (this_at s 1) c i \<Longrightarrow> b = Suc i \<Longrightarrow> this_step 1 s \<noteq> Inl e"
  using counts [of val s a b c d] list_step_fails [OF st_inv_parts(2), of val s a b c d 1 e]
  by (auto simp: this_step_def rbind_eq_Inl_iff appending_def)

lemma no_failure:
  assumes inv: "st_inv val s a b c d"
  shows "SelfTest_next val s \<noteq> Inl e" and "SelfTestHelper_next s \<noteq> Inl e"
proof -
  show "SelfTest_next val s \<noteq> Inl e"
  proof (cases "main_at s")
    case (Pinging i)
    then show ?thesis using st_inv_parts(3) [OF inv] ping_never_fails [OF inv, of i e]
      by (auto simp: SelfTest_next_def split: point.splits)
  next
    case (Getting i)
    then show ?thesis using st_inv_parts(3) [OF inv] get_never_fails [OF inv, of i e]
      by (auto simp: SelfTest_next_def removing_def split: point.splits outcome.splits)
  qed (simp add: SelfTest_next_def)
  show "SelfTestHelper_next s \<noteq> Inl e"
  proof (cases "help_at s")
    case (Taking i)
    then show ?thesis using st_inv_parts(4) [OF inv] take_never_fails [OF inv, of i e]
      by (auto simp: SelfTestHelper_next_def split: point.splits outcome.splits)
  next
    case (Returning i)
    then show ?thesis using st_inv_parts(4) [OF inv] return_never_fails [OF inv, of i e]
      by (auto simp: SelfTestHelper_next_def split: point.splits)
  qed (simp add: SelfTestHelper_next_def)
qed

text \<open>When neither thread can go on, both are done.\<close>

lemma carries_rest:
  assumes c: "carries val l P a b" and "sl_step 0 (P 0) l = Inr None" and "sl_step 1 (P 1) l = Inr None" and t: "\<not> is_outside (P t)"
  shows "a = b \<and> P t \<in> range RemoveWait"
proof -
  have "monitor_inv l P" using c sl_reach_inv by (auto simp: carries_def)
  moreover have "sl_step u (P u) l = Inr None" for u
    using assms(2,3) c by (cases "u = 0"; cases "u = 1") (simp_all add: carries_def)
  ultimately obtain w where w: "P t = RemoveWait w" "items l = []"
    using stuck_waiting [of l P t] t by (metis is_outside.simps(1))
  then have "a = b" using carries_items [OF c] by simp
  then show ?thesis using w(1) by simp
qed

lemma rest_main:
  assumes inv: "st_inv val s a b c d" and "SelfTest_next val s = Inr None"
  shows "sl_step 0 (ping_at s 0) (ping_list s) = Inr None" "sl_step 0 (this_at s 0) (this_list s) = Inr None"
    and "\<And>i. main_at s = Pinging i \<Longrightarrow> \<not> is_outside (ping_at s 0)" "\<And>i. main_at s = Getting i \<Longrightarrow> \<not> is_outside (this_at s 0)"
  using assms by (cases "main_at s"; auto simp: st_inv_def SelfTest_next_def ping_step_def this_step_def outside_step rbind_eq_Inr_iff appending_def
      removing_def split: point.splits outcome.splits)+

lemma rest_help:
  assumes inv: "st_inv val s a b c d" and "SelfTestHelper_next s = Inr None"
  shows "sl_step 1 (ping_at s 1) (ping_list s) = Inr None" "sl_step 1 (this_at s 1) (this_list s) = Inr None"
    and "\<And>i. help_at s = Taking i \<Longrightarrow> \<not> is_outside (ping_at s 1)" "\<And>i. help_at s = Returning i \<Longrightarrow> \<not> is_outside (this_at s 1)"
  using assms by (cases "help_at s"; auto simp: st_inv_def SelfTestHelper_next_def ping_step_def this_step_def outside_step rbind_eq_Inr_iff appending_def
      removing_def split: point.splits outcome.splits)+

lemma rest_done:
  assumes inv: "st_inv val s a b c d" and m: "SelfTest_next val s = Inr None" and h: "SelfTestHelper_next s = Inr None"
  shows "main_at s = MainDone \<and> help_at s = HelpDone"
proof -
  note ping = carries_rest [OF st_inv_parts(1) [OF inv] rest_main(1) [OF inv m] rest_help(1) [OF inv h]]
  note this_rest = carries_rest [OF st_inv_parts(2) [OF inv] rest_main(2) [OF inv m] rest_help(2) [OF inv h]]
  note n = counts [OF inv] st_inv_parts(3,4) [OF inv]
  have "\<exists>i. main_at s = Getting i \<and> c = d \<and> d = i \<and> a = Suc i \<and> i < 10" if "main_at s \<noteq> MainDone"
    using that n(5) ping [of 0] this_rest [of 0] rest_main(3,4) [OF inv m] by (cases "main_at s") (auto simp: appending_def removing_def)
  moreover have "\<exists>j. help_at s = Taking j \<and> a = b \<and> b = j \<and> c = j \<and> j < 10" if "help_at s \<noteq> HelpDone"
    using that n(6) ping [of 1] this_rest [of 1] rest_help(3,4) [OF inv h] by (cases "help_at s") (auto simp: appending_def removing_def)
  moreover have "main_at s = MainDone \<Longrightarrow> d = 10" "help_at s = HelpDone \<Longrightarrow> c = 10" using n(5,6) by simp_all
  ultimately show ?thesis using n(1-4) by fastforce
qed

section \<open>Termination\<close>

fun main_rank :: "main_pos \<Rightarrow> nat" where
  "main_rank (Pinging i) = 20 * (10 - i) + 10" | "main_rank (Getting i) = 20 * (10 - i)" | "main_rank MainDone = 0"

fun help_rank :: "help_pos \<Rightarrow> nat" where
  "help_rank (Taking i) = 20 * (10 - i) + 10" | "help_rank (Returning i) = 20 * (10 - i)" | "help_rank HelpDone = 0"

definition st_work :: "'m self_test \<Rightarrow> nat" where
  "st_work s = main_rank (main_at s) + help_rank (help_at s) + work (ping_list s) (ping_at s) + work (this_list s) (this_at s)"

lemma carries_pays:
  assumes "carries val l P a b" and "sl_step t (P t) l = Inr (Some (q, l'))"
  shows "work l' (P(t := q)) < work l P"
proof -
  have r: "sl_reach (l, P, replicate a val, replicate b val)" using assms(1) by (simp add: carries_def)
  then have "monitor_inv l P" using sl_reach_inv by blast
  from step_pays [OF this assms(2)] obtain w where "pays l P l' (P(t := q)) t w" by blast
  then show ?thesis using pays_work(1) sl_reach_finite [OF r] by blast
qed

lemma carries_call_work:
  assumes "carries val l P a b"
  shows "work l (P(t := p)) \<le> work l P + weight l p"
proof -
  have fin: "finite {u. weight l (P u) \<noteq> 0}" using assms sl_reach_finite by (auto simp: carries_def)
  let ?S = "insert t {u. weight l (P u) \<noteq> 0}"
  have "work l (P(t := p)) = (\<Sum>u \<in> ?S. weight l ((P(t := p)) u))" using fin by (intro work_over) auto
  also have "\<dots> = weight l p + (\<Sum>u \<in> ?S - {t}. weight l (P u))"
    using fin by (subst sum.remove [where x = t]) (auto intro!: sum.cong)
  also have "\<dots> \<le> weight l p + (\<Sum>u \<in> ?S. weight l (P u))" using fin by (intro add_left_mono sum_mono2) auto
  also have "(\<Sum>u \<in> ?S. weight l (P u)) = work l P" using fin by (intro work_over [symmetric]) auto
  finally show ?thesis by (simp add: fun_upd_def add.commute)
qed

lemma main_pays:
  assumes inv: "st_inv val s a b c d" and st: "SelfTest_next val s = Inr (Some s')"
  shows "st_work s' < st_work s"
proof -
  note c1 = st_inv_parts(1) [OF inv] and c2 = st_inv_parts(2) [OF inv] and ok = st_inv_parts(3) [OF inv]
  from st show ?thesis
  proof (cases rule: SelfTest_next_cases)
    case (ping i)
    then show ?thesis using carries_pays [OF c1] by (auto simp: ping_step_Some st_work_def)
  next
    case (inner i)
    then show ?thesis using carries_pays [OF c2] by (auto simp: this_step_Some st_work_def)
  next
    case (get i)
    then show ?thesis using carries_call_work [OF c2, of 0 RemoveEnter] by (simp add: st_work_def)
  next
    case (again i)
    then show ?thesis using carries_call_work [OF c1, of 0 "AppendEnter val"] by (simp add: st_work_def)
  next
    case (stop i)
    then show ?thesis using ok by (simp add: st_work_def)
  qed
qed

lemma help_pays:
  assumes inv: "st_inv val s a b c d" and st: "SelfTestHelper_next s = Inr (Some s')"
  shows "st_work s' < st_work s"
proof -
  note c1 = st_inv_parts(1) [OF inv] and c2 = st_inv_parts(2) [OF inv] and ok = st_inv_parts(4) [OF inv]
  from st show ?thesis
  proof (cases rule: SelfTestHelper_next_cases)
    case (ping i)
    then show ?thesis using carries_pays [OF c1] by (auto simp: ping_step_Some st_work_def)
  next
    case (inner i)
    then show ?thesis using carries_pays [OF c2] by (auto simp: this_step_Some st_work_def)
  next
    case (give i x)
    then show ?thesis using carries_call_work [OF c2, of 1 "AppendEnter x"] by (simp add: st_work_def)
  next
    case (again i)
    then show ?thesis using carries_call_work [OF c1, of 1 RemoveEnter] by (simp add: st_work_def)
  next
    case (stop i)
    then show ?thesis using ok by (simp add: st_work_def)
  qed
qed

lemma st_start_inv: "st_inv val (st_start val) 0 0 0 0" and st_start_work: "st_work (st_start val) \<le> 428"
proof -
  have c: "carries val SynchList_new (\<lambda>_. Outside Nothing) 0 0" using sl_init by (simp add: carries_def)
  have c1: "carries val SynchList_new ((\<lambda>_. Outside Nothing)(0 := AppendEnter val)) 0 0" by (rule carries_call [OF c]) simp_all
  have "carries val SynchList_new ((\<lambda>_. Outside Nothing)(0 := AppendEnter val, 1 := RemoveEnter)) 0 0" by (rule carries_call [OF c1]) simp_all
  then show "st_inv val (st_start val) 0 0 0 0" using c by (simp add: st_inv_def st_start_def appending_def removing_def)
  have "work (this_list (st_start val)) (this_at (st_start val)) = 0" by (simp add: work_def st_start_def)
  then show "st_work (st_start val) \<le> 428"
    using carries_call_work [OF c1, of 1 RemoveEnter] carries_call_work [OF c, of 0 "AppendEnter val"] by (simp add: st_work_def st_start_def)
qed

lemma st_run_inv: "st_run val n s \<Longrightarrow> (\<exists>a b c d. st_inv val s a b c d) \<and> n + st_work s \<le> 428"
proof (induction rule: st_run.induct)
  case st_begin
  then show ?case using st_start_inv st_start_work by fastforce
next
  case (st_main n s s')
  then obtain a b c d where inv: "st_inv val s a b c d" by blast
  then show ?case using main_keeps [OF inv st_main(2)] main_pays [OF inv st_main(2)] st_main(3) by auto
next
  case (st_help n s s')
  then obtain a b c d where inv: "st_inv val s a b c d" by blast
  then show ?case using help_keeps [OF inv st_help(2)] help_pays [OF inv st_help(2)] st_help(3) by auto
qed

text \<open>C19: The self test of synchronised lists passes in every interleaving of its two threads: no assertion of the test or of
  the lists fails, the threads take at most 428 steps, and they stop only when both have done their ten rounds.\<close>

theorem synchlist_self_test_passes:
  assumes "st_run val n s"
  shows "n \<le> 428 \<and> SelfTest_next val s \<noteq> Inl e \<and> SelfTestHelper_next s \<noteq> Inl e
    \<and> ((\<exists>s'. SelfTest_next val s = Inr (Some s') \<or> SelfTestHelper_next s = Inr (Some s')) \<or> main_at s = MainDone \<and> help_at s = HelpDone)"
proof -
  obtain a b c d where inv: "st_inv val s a b c d" and n: "n + st_work s \<le> 428" using st_run_inv [OF assms] by blast
  have "SelfTest_next val s = Inr None \<or> (\<exists>s'. SelfTest_next val s = Inr (Some s'))"
    "SelfTestHelper_next s = Inr None \<or> (\<exists>s'. SelfTestHelper_next s = Inr (Some s'))"
    using no_failure [OF inv] by (metis not_None_eq sum.exhaust)+
  then show ?thesis using no_failure [OF inv, of e] rest_done [OF inv] n by auto
qed

text \<open>One interleaving: the helper runs when the test cannot.\<close>

fun st_auto :: "'m \<Rightarrow> nat \<Rightarrow> nat \<Rightarrow> 'm self_test \<Rightarrow> nat \<times> 'm self_test" where
  "st_auto val 0 n s = (n, s)"
| "st_auto val (Suc k) n s =
     (case SelfTest_next val s of
        Inr (Some s') \<Rightarrow> st_auto val k (Suc n) s'
      | _ \<Rightarrow> (case SelfTestHelper_next s of Inr (Some s') \<Rightarrow> st_auto val k (Suc n) s' | _ \<Rightarrow> (n, s)))"

lemma st_auto_run: "st_run val n s \<Longrightarrow> st_run val (fst (st_auto val k n s)) (snd (st_auto val k n s))"
proof (induction k arbitrary: n s)
  case (Suc k)
  then show ?case using st_main [OF Suc.prems] st_help [OF Suc.prems] by (auto split: sum.splits option.splits)
qed simp

theorem synchlist_self_test_passes_witness:
  "\<exists>n s. st_auto (9 :: nat) 428 0 (st_start 9) = (n, s) \<and> 100 \<le> n \<and> n \<le> 428 \<and> main_at s = MainDone \<and> help_at s = HelpDone"
proof -
  let ?r = "st_auto (9 :: nat) 428 0 (st_start 9)"
  have "100 \<le> fst ?r \<and> main_at (snd ?r) = MainDone \<and> help_at (snd ?r) = HelpDone" by code_simp
  moreover have "st_run 9 (fst ?r) (snd ?r)" by (rule st_auto_run [OF st_begin])
  ultimately show ?thesis using synchlist_self_test_passes [of 9 "fst ?r" "snd ?r" AssertFail] by (intro exI [of _ "fst ?r"] exI [of _ "snd ?r"]) simp
qed

end
