(* ===== verification/Stacks.thy ===== *)
theory Stacks
  imports ListRefinement
begin

text \<open>
  \<^verbatim>\<open>c++example/\<close>: the stacks with which the C++ of Nachos is explained. \<^verbatim>\<open>stack.cc\<close> and \<^verbatim>\<open>templatestack.cc\<close> have one class over an
  array; \<^verbatim>\<open>inheritstack.cc\<close> has an abstract class with a test routine, and two classes that implement it, over an array and
  over the list of \<^verbatim>\<open>list.cc\<close>. A virtual call goes through the record of the methods of the object's class. The cells of the
  list are in the store of \<^verbatim>\<open>NachosList\<close>. What a test prints is the list of values pushed and the list of values popped.
\<close>

section \<open>Stacks in an array\<close>

record 'v array_stack =
  st_size :: int
  st_top :: int
  st_stack :: "'v list"

text \<open>\<open>raw i\<close> is what \<^verbatim>\<open>new\<close> finds at position \<open>i\<close>.\<close>

definition ArrayStack_new :: "(nat \<Rightarrow> 'v) \<Rightarrow> int \<Rightarrow> 'v array_stack result" where
  "ArrayStack_new raw sz = rbind (ASSERT (sz \<ge> 1)) (\<lambda>_. Inr \<lparr>st_size = sz, st_top = 0, st_stack = map raw [0..<nat sz]\<rparr>)"

definition ArrayStack_Full :: "'v array_stack \<Rightarrow> bool" where
  "ArrayStack_Full s \<longleftrightarrow> st_top s = st_size s"

definition ArrayStack_Empty :: "'v array_stack \<Rightarrow> bool" where
  "ArrayStack_Empty s \<longleftrightarrow> st_top s = 0"

definition ArrayStack_Push :: "'v \<Rightarrow> 'v array_stack \<Rightarrow> 'v array_stack result" where
  "ArrayStack_Push v s =
     rbind (ASSERT (\<not> ArrayStack_Full s)) (\<lambda>_.
     rbind (arr_set (st_stack s) (st_top s) v) (\<lambda>xs. Inr (s\<lparr>st_stack := xs, st_top := st_top s + 1\<rparr>)))"

definition ArrayStack_Pop :: "'v array_stack \<Rightarrow> ('v \<times> 'v array_stack) result" where
  "ArrayStack_Pop s =
     rbind (ASSERT (\<not> ArrayStack_Empty s)) (\<lambda>_.
     let s1 = s\<lparr>st_top := st_top s - 1\<rparr> in
     rbind (arr_get (st_stack s1) (st_top s1)) (\<lambda>v. Inr (v, s1)))"

section \<open>The list\<close>

record ex_list =
  ex_first :: "addr option"
  ex_last :: "addr option"

definition ExList_new :: ex_list where
  "ExList_new = \<lparr>ex_first = None, ex_last = None\<rparr>"

definition ExList_Empty :: "ex_list \<Rightarrow> bool" where
  "ExList_Empty l \<longleftrightarrow> ex_first l = None"

definition ExList_Prepend :: "'v \<Rightarrow> 'v store \<Rightarrow> ex_list \<Rightarrow> ('v store \<times> ex_list) result" where
  "ExList_Prepend v h l =
     (let (element, h1) = ListElement_new h v in
      if ExList_Empty l then Inr (h1, \<lparr>ex_first = Some element, ex_last = Some element\<rparr>)
      else rbind (set_next h1 (Some element) (ex_first l)) (\<lambda>h2. Inr (h2, l\<lparr>ex_first := Some element\<rparr>)))"

definition ExList_Remove :: "'v store \<Rightarrow> ex_list \<Rightarrow> ('v \<times> 'v store \<times> ex_list) result" where
  "ExList_Remove h l =
     rbind (ASSERT (\<not> ExList_Empty l)) (\<lambda>_.
     rbind (deref h (ex_first l)) (\<lambda>e.
     let l1 = (if ex_first l = ex_last l then \<lparr>ex_first = None, ex_last = None\<rparr> else l\<lparr>ex_first := le_next e\<rparr>) in
     rbind (free_cell h (ex_first l)) (\<lambda>h1. Inr (le_item e, h1, l1))))"

text \<open>The destructor; \<open>None\<close>: the loop does not end.\<close>

partial_function (option) ExList_delete :: "'v store \<Rightarrow> ex_list \<Rightarrow> 'v store result option" where
  "ExList_delete h l =
     (if ExList_Empty l then Some (Inr h)
      else case ExList_Remove h l of Inl e \<Rightarrow> Some (Inl e) | Inr (_, h1, l1) \<Rightarrow> ExList_delete h1 l1)"

section \<open>Stacks in a list\<close>

definition ListStack_Push :: "'v \<Rightarrow> 'v store \<times> ex_list \<Rightarrow> ('v store \<times> ex_list) result" where
  "ListStack_Push v = (\<lambda>(h, l). ExList_Prepend v h l)"

definition ListStack_Empty :: "'v store \<times> ex_list \<Rightarrow> bool" where
  "ListStack_Empty = (\<lambda>(h, l). ExList_Empty l)"

definition ListStack_Full :: "'v store \<times> ex_list \<Rightarrow> bool" where
  "ListStack_Full s \<longleftrightarrow> False"

definition ListStack_Pop :: "'v store \<times> ex_list \<Rightarrow> ('v \<times> 'v store \<times> ex_list) result" where
  "ListStack_Pop = (\<lambda>(h, l). rbind (ASSERT (\<not> ListStack_Empty (h, l))) (\<lambda>_. ExList_Remove h l))"

section \<open>The abstract class and the tests\<close>

record ('v, 's) stack_methods =
  Push :: "'v \<Rightarrow> 's \<Rightarrow> 's result"
  Pop :: "'s \<Rightarrow> ('v \<times> 's) result"
  Full :: "'s \<Rightarrow> bool"
  Empty :: "'s \<Rightarrow> bool"

definition ArrayStack :: "('v, 'v array_stack) stack_methods" where
  "ArrayStack = \<lparr>Push = ArrayStack_Push, Pop = ArrayStack_Pop, Full = ArrayStack_Full, Empty = ArrayStack_Empty\<rparr>"

definition ListStack :: "('v, 'v store \<times> ex_list) stack_methods" where
  "ListStack = \<lparr>Push = ListStack_Push, Pop = ListStack_Pop, Full = ListStack_Full, Empty = ListStack_Empty\<rparr>"

text \<open>The loops of the tests, with the value after \<open>c\<close> as \<open>inc c\<close>: push \<open>n\<close> values, push until the stack is full, pop until it is empty.\<close>

fun push_loop :: "('v, 's) stack_methods \<Rightarrow> ('v \<Rightarrow> 'v) \<Rightarrow> nat \<Rightarrow> 'v \<Rightarrow> 's \<Rightarrow> ('v list \<times> 's) result" where
  "push_loop cls inc 0 c s = Inr ([], s)"
| "push_loop cls inc (Suc n) c s =
     rbind (ASSERT (\<not> Full cls s)) (\<lambda>_.
     rbind (Push cls c s) (\<lambda>s1.
     rbind (push_loop cls inc n (inc c) s1) (\<lambda>(out, s2). Inr (c # out, s2))))"

partial_function (option) fill_loop :: "('v, 's) stack_methods \<Rightarrow> ('v \<Rightarrow> 'v) \<Rightarrow> 'v \<Rightarrow> 's \<Rightarrow> 'v list \<Rightarrow> ('v list \<times> 's) result option" where
  "fill_loop cls inc c s out =
     (if Full cls s then Some (Inr (out, s))
      else case Push cls c s of Inl e \<Rightarrow> Some (Inl e) | Inr s1 \<Rightarrow> fill_loop cls inc (inc c) s1 (out @ [c]))"

partial_function (option) pop_loop :: "('v, 's) stack_methods \<Rightarrow> 's \<Rightarrow> 'v list \<Rightarrow> ('v list \<times> 's) result option" where
  "pop_loop cls s out =
     (if Empty cls s then Some (Inr (out, s))
      else case Pop cls s of Inl e \<Rightarrow> Some (Inl e) | Inr (v, s1) \<Rightarrow> pop_loop cls s1 (out @ [v]))"

definition with_pops :: "('v, 's) stack_methods \<Rightarrow> ('v list \<times> 's) result \<Rightarrow> ('v list \<times> 'v list \<times> 's) result option" where
  "with_pops cls r = (case r of Inl e \<Rightarrow> Some (Inl e)
     | Inr (pushed, s1) \<Rightarrow> map_option (\<lambda>q. rbind q (\<lambda>(popped, s2). Inr (pushed, popped, s2))) (pop_loop cls s1 []))"

text \<open>\<^verbatim>\<open>Stack::SelfTest\<close> of \<^verbatim>\<open>inheritstack.cc\<close>, and of \<^verbatim>\<open>stack.cc\<close> and \<^verbatim>\<open>templatestack.cc\<close>.\<close>

definition Stack_SelfTest :: "('v, 's) stack_methods \<Rightarrow> ('v \<Rightarrow> 'v) \<Rightarrow> 'v \<Rightarrow> nat \<Rightarrow> 's \<Rightarrow> ('v list \<times> 'v list \<times> 's) result option" where
  "Stack_SelfTest cls inc c n s = with_pops cls (push_loop cls inc n c s)"

definition TStack_SelfTest :: "('v \<Rightarrow> 'v) \<Rightarrow> 'v \<Rightarrow> 'v array_stack \<Rightarrow> ('v list \<times> 'v list \<times> 'v array_stack) result option" where
  "TStack_SelfTest inc start s = (case fill_loop ArrayStack inc start s [] of None \<Rightarrow> None | Some r \<Rightarrow> with_pops ArrayStack r)"

definition stack_SelfTest :: "int array_stack \<Rightarrow> (int list \<times> int list \<times> int array_stack) result option" where
  "stack_SelfTest s = TStack_SelfTest (\<lambda>c. c + 1) 17 s"

text \<open>The main programs, up to what they print; \<open>int\<close> counts to at most 27 here.\<close>

definition stack_main :: "(nat \<Rightarrow> int) \<Rightarrow> (int list \<times> int list \<times> int array_stack) result option" where
  "stack_main raw = (case ArrayStack_new raw 10 of Inl e \<Rightarrow> Some (Inl e) | Inr s \<Rightarrow> stack_SelfTest s)"

definition templatestack_main :: "(nat \<Rightarrow> int) \<Rightarrow> (nat \<Rightarrow> 8 word)
    \<Rightarrow> (int list \<times> int list \<times> int array_stack) result option \<times> (8 word list \<times> 8 word list \<times> 8 word array_stack) result option" where
  "templatestack_main raw1 raw2 =
     (case ArrayStack_new raw1 10 of Inl e \<Rightarrow> Some (Inl e) | Inr s \<Rightarrow> TStack_SelfTest (\<lambda>c. c + 1) 17 s,
      case ArrayStack_new raw2 10 of Inl e \<Rightarrow> Some (Inl e) | Inr s \<Rightarrow> TStack_SelfTest (\<lambda>c. c + 1) 97 s)"

definition inheritstack_main :: "(nat \<Rightarrow> int)
    \<Rightarrow> (int list \<times> int list \<times> int array_stack) result option \<times> (int list \<times> int list \<times> int store \<times> ex_list) result option" where
  "inheritstack_main raw =
     (case ArrayStack_new raw 10 of Inl e \<Rightarrow> Some (Inl e) | Inr s \<Rightarrow> Stack_SelfTest ArrayStack (\<lambda>c. c + 1) 17 10 s,
      Stack_SelfTest ListStack (\<lambda>c. c + 1) 17 10 (empty_store, ExList_new))"

section \<open>What a stack promises\<close>

text \<open>The values \<^verbatim>\<open>count++\<close> goes through.\<close>

definition count_up :: "('v \<Rightarrow> 'v) \<Rightarrow> 'v \<Rightarrow> nat \<Rightarrow> 'v list" where
  "count_up inc c n = map (\<lambda>i. (inc ^^ i) c) [0..<n]"

lemma count_up_0 [simp]: "count_up inc c 0 = []"
  by (simp add: count_up_def)

lemma count_up_Suc: "count_up inc c (Suc n) = c # count_up inc (inc c) n"
  unfolding count_up_def by (simp only: upt_conv_Cons [OF zero_less_Suc] map_Suc_upt [symmetric] list.map map_map) (simp add: funpow_swap1)

text \<open>\<open>rep cap s xs\<close>: the object \<open>s\<close> holds \<open>xs\<close>, the top first, and has room for \<open>cap\<close> values (\<open>None\<close>: for any number).\<close>

locale stack_class =
  fixes cls :: "('v, 's) stack_methods" and rep :: "nat option \<Rightarrow> 's \<Rightarrow> 'v list \<Rightarrow> bool"
  assumes full: "rep cap s xs \<Longrightarrow> Full cls s \<longleftrightarrow> cap = Some (length xs)"
    and empty: "rep cap s xs \<Longrightarrow> Empty cls s \<longleftrightarrow> xs = []"
    and push: "rep cap s xs \<Longrightarrow> cap \<noteq> Some (length xs) \<Longrightarrow> \<exists>s'. Push cls v s = Inr s' \<and> rep cap s' (v # xs)"
    and pop: "rep cap s (x # xs) \<Longrightarrow> \<exists>s'. Pop cls s = Inr (x, s') \<and> rep cap s' xs"
begin

lemma pop_all: "rep cap s xs \<Longrightarrow> \<exists>s'. pop_loop cls s out = Some (Inr (out @ xs, s')) \<and> rep cap s' []"
proof (induction xs arbitrary: s out)
  case Nil
  then show ?case using empty by (subst pop_loop.simps) auto
next
  case (Cons x xs)
  obtain s1 where "Pop cls s = Inr (x, s1)" "rep cap s1 xs" using pop [OF Cons.prems] by blast
  then show ?case
    using Cons.IH [of s1 "out @ [x]"] empty [OF Cons.prems] by (subst pop_loop.simps) simp
qed

lemma push_all:
  "rep cap s xs \<Longrightarrow> (case cap of None \<Rightarrow> True | Some k \<Rightarrow> length xs + n \<le> k)
    \<Longrightarrow> \<exists>s'. push_loop cls inc n c s = Inr (count_up inc c n, s') \<and> rep cap s' (rev (count_up inc c n) @ xs)"
proof (induction n arbitrary: s xs c)
  case (Suc n)
  have room: "cap \<noteq> Some (length xs)" using Suc.prems(2) by auto
  obtain s1 where s1: "Push cls c s = Inr s1" "rep cap s1 (c # xs)" using push [OF Suc.prems(1) room] by blast
  have "case cap of None \<Rightarrow> True | Some k \<Rightarrow> length (c # xs) + n \<le> k" using Suc.prems(2) by (auto split: option.splits)
  then obtain s2 where s2: "push_loop cls inc n (inc c) s1 = Inr (count_up inc (inc c) n, s2)"
      "rep cap s2 (rev (count_up inc (inc c) n) @ c # xs)" using Suc.IH [OF s1(2), of "inc c"] by blast
  have "\<not> Full cls s" using full [OF Suc.prems(1)] room by simp
  then show ?case unfolding count_up_Suc using s1(1) s2 by simp
qed simp

lemma push_too_many:
  "rep (Some k) s xs \<Longrightarrow> length xs \<le> k \<Longrightarrow> k < length xs + n \<Longrightarrow> push_loop cls inc n c s = Inl AssertFail"
proof (induction n arbitrary: s xs c)
  case (Suc n)
  show ?case
  proof (cases "k = length xs")
    case True
    then show ?thesis using full [OF Suc.prems(1)] by simp
  next
    case False
    then obtain s1 where "Push cls c s = Inr s1" "rep (Some k) s1 (c # xs)" using push [OF Suc.prems(1)] by blast
    then show ?thesis
      using Suc.IH [of s1 "c # xs" "inc c"] Suc.prems False full [OF Suc.prems(1)] by simp
  qed
qed simp

lemma fill: "rep (Some k) s xs \<Longrightarrow> k = length xs + n
    \<Longrightarrow> \<exists>s'. fill_loop cls inc c s out = Some (Inr (out @ count_up inc c n, s')) \<and> rep (Some k) s' (rev (count_up inc c n) @ xs)"
proof (induction n arbitrary: s xs c out)
  case 0
  then show ?case using full [OF 0(1)] by (subst fill_loop.simps) simp
next
  case (Suc n)
  obtain s1 where s1: "Push cls c s = Inr s1" "rep (Some k) s1 (c # xs)" using push [OF Suc.prems(1)] Suc.prems(2) by auto
  have "\<not> Full cls s" using full [OF Suc.prems(1)] Suc.prems(2) by simp
  then have "fill_loop cls inc c s out = fill_loop cls inc (inc c) s1 (out @ [c])" using s1(1) by (subst fill_loop.simps) simp
  then show ?case unfolding count_up_Suc using Suc.IH [OF s1(2), of "inc c" "out @ [c]"] Suc.prems(2) by simp
qed

lemma SelfTest_ok:
  assumes "rep cap s []" and "case cap of None \<Rightarrow> True | Some k \<Rightarrow> n \<le> k"
  shows "\<exists>s'. Stack_SelfTest cls inc c n s = Some (Inr (count_up inc c n, rev (count_up inc c n), s')) \<and> rep cap s' []"
proof -
  obtain s1 where s1: "push_loop cls inc n c s = Inr (count_up inc c n, s1)" "rep cap s1 (rev (count_up inc c n))"
    using push_all [OF assms(1), of n inc c] assms(2) by (auto split: option.splits)
  then show ?thesis using pop_all [OF s1(2), of "[]"] by (auto simp: Stack_SelfTest_def with_pops_def)
qed

lemma SelfTest_fails: "rep (Some k) s [] \<Longrightarrow> k < n \<Longrightarrow> Stack_SelfTest cls inc c n s = Some (Inl AssertFail)"
  using push_too_many [of k s "[]" n inc c] by (simp add: Stack_SelfTest_def with_pops_def)

end

section \<open>Both classes keep the promise\<close>

definition array_rep :: "nat option \<Rightarrow> 'v array_stack \<Rightarrow> 'v list \<Rightarrow> bool" where
  "array_rep cap s xs \<longleftrightarrow> cap = Some (length (st_stack s)) \<and> st_size s = int (length (st_stack s)) \<and> st_top s = int (length xs)
     \<and> length xs \<le> length (st_stack s) \<and> take (length xs) (st_stack s) = rev xs"

interpretation as: stack_class "ArrayStack :: ('v, 'v array_stack) stack_methods" array_rep
proof unfold_locales
  fix cap and s :: "'v array_stack" and xs v
  assume r: "array_rep cap s xs"
  show "Full ArrayStack s \<longleftrightarrow> cap = Some (length xs)" "Empty ArrayStack s \<longleftrightarrow> xs = []"
    using r by (auto simp: ArrayStack_def ArrayStack_Full_def ArrayStack_Empty_def array_rep_def)
  assume c: "cap \<noteq> Some (length xs)"
  then have l: "length xs < length (st_stack s)" using r by (simp add: array_rep_def le_less)
  then have "array_rep cap (s\<lparr>st_stack := (st_stack s)[length xs := v], st_top := st_top s + 1\<rparr>) (v # xs)"
    using r by (simp add: array_rep_def take_Suc_conv_app_nth)
  then show "\<exists>s'. Push ArrayStack v s = Inr s' \<and> array_rep cap s' (v # xs)"
    using r c l by (auto simp: ArrayStack_def ArrayStack_Push_def ArrayStack_Full_def array_rep_def)
next
  fix cap and s :: "'v array_stack" and x xs
  assume r: "array_rep cap s (x # xs)"
  then have l: "length xs < length (st_stack s)" "take (Suc (length xs)) (st_stack s) = rev xs @ [x]" by (simp_all add: array_rep_def)
  then have "st_stack s ! length xs = x" "take (length xs) (st_stack s) = rev xs"
    by (simp_all add: take_Suc_conv_app_nth)
  then show "\<exists>s'. Pop ArrayStack s = Inr (x, s') \<and> array_rep cap s' xs"
    using r l(1) by (auto simp: ArrayStack_def ArrayStack_Pop_def ArrayStack_Empty_def array_rep_def Let_def arr_get_def)
qed

text \<open>The list is one of \<^verbatim>\<open>lib/list.cc\<close> without its counter.\<close>

definition counted :: "ex_list \<Rightarrow> int \<Rightarrow> NList" where
  "counted l n = \<lparr>l_first = ex_first l, l_last = ex_last l, numInList = n\<rparr>"

definition ex_rep :: "nat option \<Rightarrow> 'v store \<times> ex_list \<Rightarrow> 'v list \<Rightarrow> bool" where
  "ex_rep cap s xs \<longleftrightarrow> cap = None \<and> (\<exists>ns. lrep (fst s) (counted (snd s) (int (length ns))) ns \<and> map snd ns = xs)"

lemma ex_rep_Empty: "ex_rep cap (h, l) xs \<Longrightarrow> ExList_Empty l \<longleftrightarrow> xs = []"
  using path_first by (fastforce simp: ex_rep_def ExList_Empty_def counted_def lrep_def)

lemma Remove_counted:
  "ExList_Empty l \<longleftrightarrow> List_IsEmpty (counted l n) \<Longrightarrow> List_RemoveFront h (counted l n) = Inr (x, h', l')
    \<Longrightarrow> \<exists>m. ExList_Remove h l = Inr (x, h', m) \<and> l' = counted m (n - 1)"
  by (cases "ex_first l") (auto simp: List_RemoveFront_def ExList_Remove_def counted_def Let_def rbind_eq_Inr_iff deref_def split: if_splits)

lemma ex_rep_Remove:
  assumes "ex_rep cap (h, l) (x # xs)"
  shows "\<exists>h' l'. ExList_Remove h l = Inr (x, h', l') \<and> ex_rep cap (h', l') xs"
proof -
  obtain a ns where ns: "lrep h (counted l (int (length ((a, x) # ns)))) ((a, x) # ns)" "map snd ns = xs" "cap = None"
    using assms by (auto simp: ex_rep_def)
  obtain h' l1 where rm: "List_RemoveFront h (counted l (int (length ((a, x) # ns)))) = Inr (x, h', l1)" "lrep h' l1 ns"
    using RemoveFront_rep [OF ns(1)] by (auto simp: lstep_def)
  have "ExList_Empty l \<longleftrightarrow> List_IsEmpty (counted l (int (length ((a, x) # ns))))"
    using ex_rep_Empty [OF assms] by (simp add: List_IsEmpty_def counted_def)
  from Remove_counted [OF this rm(1)] obtain m where "ExList_Remove h l = Inr (x, h', m)" "l1 = counted m (int (length ns))" by auto
  then show ?thesis using rm(2) ns(2,3) by (auto simp: ex_rep_def)
qed

lemma ex_rep_Prepend:
  assumes r: "ex_rep cap (h, l) xs"
  shows "\<exists>s'. ExList_Prepend v h l = Inr s' \<and> ex_rep cap s' (v # xs)"
proof -
  obtain ns where ns: "lrep h (counted l (int (length ns))) ns" "map snd ns = xs" "cap = None"
    using r by (auto simp: ex_rep_def)
  obtain a h1 where nw: "ListElement_new h v = (a, h1)" by fastforce
  note n = ListElement_new_rep [OF ns(1) nw]
  have c: "cells h1 a = Some \<lparr>le_item = v, le_next = None\<rparr>" using n(2,4) by simp
  show ?thesis
  proof (cases "ns = []")
    case True
    have "lrep h1 (counted \<lparr>ex_first = Some a, ex_last = Some a\<rparr> 1) [(a, v)]"
      using link_first [OF n(1) [unfolded True] c] by (simp add: linked_def counted_def)
    then have "ex_rep cap (h1, \<lparr>ex_first = Some a, ex_last = Some a\<rparr>) (v # xs)"
      unfolding ex_rep_def using True ns(2,3) by (intro conjI exI [of _ "[(a, v)]"]) simp_all
    then show ?thesis using nw ex_rep_Empty [OF r] True ns(2) by (simp add: ExList_Prepend_def)
  next
    case False
    then obtain h2 where "set_next h1 (Some a) (ex_first l) = Inr h2" "lrep h2 (counted (l\<lparr>ex_first := Some a\<rparr>) (int (length ((a, v) # ns)))) ((a, v) # ns)"
      using link_front [OF n(1) False c n(5)] by (auto simp: linked_def counted_def add.commute)
    moreover from this have "ex_rep cap (h2, l\<lparr>ex_first := Some a\<rparr>) (v # xs)"
      unfolding ex_rep_def using ns(2,3) by (intro conjI exI [of _ "(a, v) # ns"]) simp_all
    ultimately show ?thesis using nw ex_rep_Empty [OF r] False ns(2) by (auto simp: ExList_Prepend_def)
  qed
qed

interpretation ls: stack_class "ListStack :: ('v, 'v store \<times> ex_list) stack_methods" ex_rep
proof unfold_locales
  fix cap and s :: "'v store \<times> ex_list" and xs v
  assume r: "ex_rep cap s xs"
  obtain h l where s: "s = (h, l)" by fastforce
  show "Full ListStack s \<longleftrightarrow> cap = Some (length xs)" "Empty ListStack s \<longleftrightarrow> xs = []"
    using r ex_rep_Empty by (auto simp: ListStack_def ListStack_Full_def ListStack_Empty_def ex_rep_def s)
  show "\<exists>s'. Push ListStack v s = Inr s' \<and> ex_rep cap s' (v # xs)"
    using ex_rep_Prepend [of cap h l xs v] r by (simp add: ListStack_def ListStack_Push_def s)
next
  fix cap and s :: "'v store \<times> ex_list" and x xs
  assume r: "ex_rep cap s (x # xs)"
  obtain h l where s: "s = (h, l)" by fastforce
  show "\<exists>s'. Pop ListStack s = Inr (x, s') \<and> ex_rep cap s' xs"
    using ex_rep_Remove [of cap h l x xs] ex_rep_Empty [of cap h l "x # xs"] r
    by (auto simp: ListStack_def ListStack_Pop_def ListStack_Empty_def s)
qed

lemma array_rep_new: "1 \<le> sz \<Longrightarrow> \<exists>s. ArrayStack_new raw sz = Inr s \<and> array_rep (Some (nat sz)) s []"
  by (auto simp: ArrayStack_new_def array_rep_def)

lemma ex_rep_new: "ex_rep None (empty_store, ExList_new) []"
  by (simp add: ex_rep_def ExList_new_def counted_def lrep_def empty_store_def)

text \<open>The two classes cannot be told apart by the test, as long as the array has room: both print the values pushed and then
  the same values in the opposite order, and are empty at the end. An array that is too small fails the assertion of the test.\<close>

theorem stack_classes_agree:
  assumes "1 \<le> sz"
  shows "\<exists>s. ArrayStack_new raw sz = Inr s \<and> (if int n \<le> sz
    then (\<exists>s' t'. Stack_SelfTest ArrayStack inc c n s = Some (Inr (count_up inc c n, rev (count_up inc c n), s'))
        \<and> Stack_SelfTest ListStack inc c n (empty_store, ExList_new) = Some (Inr (count_up inc c n, rev (count_up inc c n), t'))
        \<and> ArrayStack_Empty s' \<and> ListStack_Empty t')
    else Stack_SelfTest ArrayStack inc c n s = Some (Inl AssertFail))"
proof -
  obtain s where s: "ArrayStack_new raw sz = Inr s" "array_rep (Some (nat sz)) s []" using array_rep_new [OF assms] by blast
  obtain t' where t: "Stack_SelfTest ListStack inc c n (empty_store, ExList_new) = Some (Inr (count_up inc c n, rev (count_up inc c n), t'))" "ex_rep None t' []"
    using ls.SelfTest_ok [OF ex_rep_new, of n inc c] by auto
  have te: "ListStack_Empty t'" using ls.empty [OF t(2)] by (simp add: ListStack_def)
  show ?thesis
  proof (cases "int n \<le> sz")
    case True
    then have "n \<le> nat sz" by linarith
    then obtain s' where "Stack_SelfTest ArrayStack inc c n s = Some (Inr (count_up inc c n, rev (count_up inc c n), s'))" "array_rep (Some (nat sz)) s' []"
      using as.SelfTest_ok [OF s(2), of n inc c] by auto
    moreover from this have "ArrayStack_Empty s'" using as.empty [of "Some (nat sz)" s' "[]"] by (simp add: ArrayStack_def)
    ultimately show ?thesis using s(1) t(1) te True by auto
  next
    case False
    then have "nat sz < n" using assms by linarith
    then show ?thesis using as.SelfTest_fails [OF s(2), of n inc c] s(1) False by auto
  qed
qed

text \<open>The test of \<^verbatim>\<open>stack.cc\<close> and \<^verbatim>\<open>templatestack.cc\<close> ends: it fills the stack and empties it.\<close>

lemma TStack_SelfTest_ok:
  assumes "1 \<le> sz"
  shows "\<exists>s s'. ArrayStack_new raw sz = Inr s
    \<and> TStack_SelfTest inc c s = Some (Inr (count_up inc c (nat sz), rev (count_up inc c (nat sz)), s')) \<and> ArrayStack_Empty s'"
proof -
  obtain s where s: "ArrayStack_new raw sz = Inr s" "array_rep (Some (nat sz)) s []" using array_rep_new [OF assms] by blast
  obtain s1 where s1: "fill_loop ArrayStack inc c s [] = Some (Inr (count_up inc c (nat sz), s1))" "array_rep (Some (nat sz)) s1 (rev (count_up inc c (nat sz)))"
    using as.fill [OF s(2), of "nat sz" inc c "[]"] by auto
  obtain s2 where "pop_loop ArrayStack s1 [] = Some (Inr (rev (count_up inc c (nat sz)), s2))" "array_rep (Some (nat sz)) s2 []"
    using as.pop_all [OF s1(2), of "[]"] by auto
  moreover from this have "ArrayStack_Empty s2" using as.empty [of "Some (nat sz)" s2 "[]"] by (simp add: ArrayStack_def)
  ultimately show ?thesis using s(1) s1(1) by (auto simp: TStack_SelfTest_def with_pops_def)
qed

lemma count_up_int: "count_up (\<lambda>c. c + 1) c n = map (\<lambda>i. c + int i) [0..<n]"
  by (induction n arbitrary: c) (simp_all add: count_up_Suc upt_conv_Cons map_Suc_upt [symmetric] del: upt_Suc)

lemma inheritstack_main_prints:
  "\<exists>s t. inheritstack_main raw = (Some (Inr ([17..26], rev [17..26], s)), Some (Inr ([17..26], rev [17..26], t)))"
proof -
  have c: "count_up (\<lambda>c. c + 1) (17 :: int) 10 = [17..26]" unfolding count_up_int by code_simp
  show ?thesis
    using stack_classes_agree [of 10 raw 10 "\<lambda>c. c + 1" 17] by (auto simp: inheritstack_main_def c)
qed

lemma stack_main_prints: "\<exists>s. stack_main raw = Some (Inr ([17..26], rev [17..26], s))"
proof -
  have c: "count_up (\<lambda>c. c + 1) (17 :: int) 10 = [17..26]" unfolding count_up_int by code_simp
  show ?thesis
    using TStack_SelfTest_ok [of 10 raw "\<lambda>c. c + 1" 17] by (auto simp: stack_main_def stack_SelfTest_def c)
qed

text \<open>Deleting a list ends.\<close>

lemma delete_ok: "ex_rep cap (h, l) xs \<Longrightarrow> \<exists>h'. ExList_delete h l = Some (Inr h')"
proof (induction xs arbitrary: h l)
  case Nil
  then show ?case using ex_rep_Empty [OF Nil] by (subst ExList_delete.simps) simp
next
  case (Cons x xs)
  from ex_rep_Remove [OF Cons.prems] obtain h1 l1 where "ExList_Remove h l = Inr (x, h1, l1)" "ex_rep cap (h1, l1) xs" by blast
  then show ?case
    using Cons.IH [of h1 l1] ex_rep_Empty [OF Cons.prems] by (subst ExList_delete.simps) auto
qed

end
