(* ===== verification/UserPrograms.thy ===== *)
theory UserPrograms
  imports Nachos_Prelude "HOL-Library.Multiset"
begin

text \<open>
  Two of the user programs of \<^verbatim>\<open>test/\<close>, those that compute: \<^verbatim>\<open>sort.c\<close> and \<^verbatim>\<open>matmult.c\<close>. A program is modelled at the level of its C
  text, with the 32-bit integers of the simulated machine, and its result is the argument of its call of \<^verbatim>\<open>Exit\<close>.
\<close>

section \<open>sort.c\<close>

definition SORT_SIZE :: nat where "SORT_SIZE = 1024"

definition sort_init :: "nat \<Rightarrow> 32 word list \<Rightarrow> 32 word list result" where
  "sort_init n A = iterate_r 0 n (\<lambda>i A. arr_set A (int i) (of_nat (n - 1) - of_nat i)) A"

definition sort_swap :: "nat \<Rightarrow> 32 word list \<Rightarrow> 32 word list result" where
  "sort_swap j A =
     rbind (arr_get A (int j)) (\<lambda>x.
     rbind (arr_get A (int j + 1)) (\<lambda>y.
     if sint x > sint y then rbind (arr_set A (int j) y) (\<lambda>A1. arr_set A1 (int j + 1) x) else Inr A))"

definition sort_passes :: "nat \<Rightarrow> 32 word list \<Rightarrow> 32 word list result" where
  "sort_passes n A = iterate_r 0 n (\<lambda>i. iterate_r 0 (n - 1) sort_swap) A"

text \<open>The last loop: \<open>Exit(1)\<close> at the first element that is not its index, else \<open>Exit(0)\<close>.\<close>

fun sort_check :: "nat \<Rightarrow> nat \<Rightarrow> 32 word list \<Rightarrow> 32 word result" where
  "sort_check i 0 A = Inr 0"
| "sort_check i (Suc n) A = rbind (arr_get A (int i)) (\<lambda>x. if x \<noteq> of_nat i then Inr 1 else sort_check (Suc i) n A)"

definition sort_main :: "32 word list \<Rightarrow> 32 word result" where
  "sort_main A =
     rbind (sort_init SORT_SIZE A) (\<lambda>A1.
     rbind (sort_passes SORT_SIZE A1) (\<lambda>A2.
     sort_check 0 SORT_SIZE A2))"

section \<open>matmult.c\<close>

definition Dim :: nat where "Dim = 20"

type_synonym matrix = "32 word list list"

definition mat_get :: "matrix \<Rightarrow> nat \<Rightarrow> nat \<Rightarrow> 32 word result" where
  "mat_get M i j = rbind (arr_get M (int i)) (\<lambda>r. arr_get r (int j))"

definition mat_set :: "matrix \<Rightarrow> nat \<Rightarrow> nat \<Rightarrow> 32 word \<Rightarrow> matrix result" where
  "mat_set M i j v = rbind (arr_get M (int i)) (\<lambda>r. rbind (arr_set r (int j) v) (\<lambda>r1. arr_set M (int i) r1))"

definition mat_init :: "nat \<Rightarrow> matrix \<times> matrix \<times> matrix \<Rightarrow> (matrix \<times> matrix \<times> matrix) result" where
  "mat_init n = iterate_r 0 n (\<lambda>i. iterate_r 0 n (\<lambda>j (A, B, C).
     rbind (mat_set A i j (of_nat i)) (\<lambda>A1.
     rbind (mat_set B i j (of_nat j)) (\<lambda>B1.
     rbind (mat_set C i j 0) (\<lambda>C1. Inr (A1, B1, C1))))))"

definition mat_accumulate :: "matrix \<Rightarrow> matrix \<Rightarrow> nat \<Rightarrow> nat \<Rightarrow> nat \<Rightarrow> matrix \<Rightarrow> matrix result" where
  "mat_accumulate A B i j k C =
     rbind (mat_get C i j) (\<lambda>c. rbind (mat_get A i k) (\<lambda>a. rbind (mat_get B k j) (\<lambda>b. mat_set C i j (c + a * b))))"

definition mat_multiply :: "nat \<Rightarrow> matrix \<Rightarrow> matrix \<Rightarrow> matrix \<Rightarrow> matrix result" where
  "mat_multiply n A B = iterate_r 0 n (\<lambda>i. iterate_r 0 n (\<lambda>j. iterate_r 0 n (mat_accumulate A B i j)))"

definition matmult_main :: "matrix \<times> matrix \<times> matrix \<Rightarrow> 32 word result" where
  "matmult_main M =
     rbind (mat_init Dim M) (\<lambda>(A, B, C).
     rbind (mat_multiply Dim A B C) (\<lambda>C1. mat_get C1 (Dim - 1) (Dim - 1)))"

section \<open>Bubble sort\<close>

definition swapped :: "32 word list \<Rightarrow> nat \<Rightarrow> 32 word list" where
  "swapped A j = (if sint (A ! j) > sint (A ! Suc j) then A[j := A ! Suc j, Suc j := A ! j] else A)"

lemma sort_swap_ok: "Suc j < length A \<Longrightarrow> sort_swap j A = Inr (swapped A j)"
  by (simp add: sort_swap_def swapped_def arr_get_def arr_set_def nat_add_distrib)

lemma swapped_mset [simp]: "Suc j < length A \<Longrightarrow> mset (swapped A j) = mset A" "length (swapped A j) = length A"
  by (simp_all add: swapped_def mset_swap)

text \<open>
  After \<open>i\<close> passes the last \<open>i\<close> elements are in order and none before them is larger; in the middle of a pass, the element
  at \<open>j\<close> is the largest of those up to it.
\<close>

definition tail_sorted :: "nat \<Rightarrow> 32 word list \<Rightarrow> bool" where
  "tail_sorted i A \<longleftrightarrow> (\<forall>p q. p < q \<longrightarrow> q < length A \<longrightarrow> length A \<le> q + i \<longrightarrow> sint (A ! p) \<le> sint (A ! q))"

definition in_pass :: "nat \<Rightarrow> nat \<Rightarrow> 32 word list \<Rightarrow> bool" where
  "in_pass i j A \<longleftrightarrow> tail_sorted i A \<and> (\<forall>p \<le> j. p < length A \<longrightarrow> sint (A ! p) \<le> sint (A ! j))
     \<and> (\<forall>p q. p < q \<longrightarrow> q \<le> j \<longrightarrow> q < length A \<longrightarrow> length A \<le> q + Suc i \<longrightarrow> sint (A ! p) \<le> sint (A ! q))"

lemma in_pass_step:
  assumes "in_pass i j A" and "Suc j < length A"
  shows "in_pass i (Suc j) (swapped A j)"
proof -
  have le: "sint (A ! p) \<le> sint (A ! j)" if "p \<le> j" for p using assms that by (simp add: in_pass_def)
  have ts: "sint (A ! p) \<le> sint (A ! q)" if "p < q" "q < length A" "length A \<le> q + i" for p q
    using assms(1) that by (simp add: in_pass_def tail_sorted_def)
  show ?thesis
  proof (cases "sint (A ! j) > sint (A ! Suc j)")
    case True
    have far: "\<not> length A \<le> Suc j + i" using ts [of j "Suc j"] True assms(2) by auto
    have "sint (swapped A j ! p) \<le> sint (swapped A j ! q)" if "p < q" "q < length A" "length A \<le> q + i" for p q
    proof -
      have "q > Suc j" using that(3) far by linarith
      then show ?thesis using ts [of p q] ts [of j q] ts [of "Suc j" q] that assms(2) True
        by (cases "p = j"; cases "p = Suc j") (simp_all add: swapped_def nth_list_update)
    qed
    moreover have "sint (swapped A j ! p) \<le> sint (swapped A j ! Suc j)" if "p \<le> Suc j" for p
      using le [of p] that assms(2) True by (cases "p = j"; cases "p = Suc j") (simp_all add: swapped_def nth_list_update)
    ultimately show ?thesis using far by (auto simp: in_pass_def tail_sorted_def le_Suc_eq)
  next
    case False
    then have "sint (A ! p) \<le> sint (A ! Suc j)" if "p \<le> j" for p using le [OF that] by linarith
    then show ?thesis
      using assms(1) False by (auto simp: in_pass_def swapped_def le_Suc_eq)
  qed
qed

lemma pass_ok:
  assumes "tail_sorted i A" and "A \<noteq> []"
  shows "\<exists>B. iterate_r 0 (length A - 1) sort_swap A = Inr B \<and> tail_sorted (Suc i) B \<and> mset B = mset A"
proof -
  let ?P = "\<lambda>j B. in_pass i j B \<and> mset B = mset A"
  have "\<exists>B. iterate_r 0 (length A - 1) sort_swap A = Inr B \<and> ?P (0 + (length A - 1)) B"
  proof (rule iterate_r_rule)
    show "?P 0 A" using assms(1) by (simp add: in_pass_def)
    fix k B assume k: "k < 0 + (length A - 1)" "?P k B"
    then have "Suc k < length B" by (metis add_0 less_diff_conv mset_eq_length add.commute plus_1_eq_Suc)
    then show "\<exists>C. sort_swap k B = Inr C \<and> ?P (Suc k) C"
      using sort_swap_ok [of k B] in_pass_step [of i k B] k(2) by simp
  qed
  then obtain B where B: "iterate_r 0 (length A - 1) sort_swap A = Inr B" "in_pass i (length A - 1) B" "mset B = mset A" by auto
  have l: "length B = length A" using B(3) by (rule mset_eq_length)
  have "tail_sorted (Suc i) B"
    unfolding tail_sorted_def
  proof (intro allI impI)
    fix p q assume "p < q" "q < length B" "length B \<le> q + Suc i"
    moreover from this have "q \<le> length A - 1" using l by linarith
    ultimately show "sint (B ! p) \<le> sint (B ! q)" using B(2) by (simp add: in_pass_def)
  qed
  then show ?thesis using B(1,3) by blast
qed

lemma sort_passes_ok:
  assumes "A \<noteq> []"
  shows "\<exists>B. sort_passes (length A) A = Inr B \<and> sorted (map sint B) \<and> mset B = mset A"
proof -
  let ?P = "\<lambda>i B. tail_sorted i B \<and> mset B = mset A"
  have "\<exists>B. sort_passes (length A) A = Inr B \<and> ?P (0 + length A) B"
    unfolding sort_passes_def
  proof (rule iterate_r_rule)
    show "?P 0 A" by (simp add: tail_sorted_def)
    fix k B assume k: "?P k B"
    then have "length B = length A" "B \<noteq> []" using assms mset_eq_length by (blast, auto)
    then show "\<exists>C. iterate_r 0 (length A - 1) sort_swap B = Inr C \<and> ?P (Suc k) C"
      using pass_ok [of k B] k by metis
  qed
  then obtain B where B: "sort_passes (length A) A = Inr B" "tail_sorted (length A) B" "mset B = mset A" by auto
  have "length B = length A" using B(3) by (rule mset_eq_length)
  then have "sorted (map sint B)" using B(2) by (simp add: tail_sorted_def sorted_iff_nth_mono_less)
  then show ?thesis using B(1,3) by blast
qed

lemma sort_init_ok:
  assumes "length A = n"
  shows "sort_init n A = Inr (map (\<lambda>i. of_nat (n - 1) - of_nat i) [0..<n])"
proof -
  let ?v = "\<lambda>i. of_nat (n - 1) - of_nat i :: 32 word"
  have "\<exists>B. sort_init n A = Inr B \<and> (length B = n \<and> (\<forall>i < 0 + n. B ! i = ?v i))"
    unfolding sort_init_def by (rule iterate_r_rule) (use assms in \<open>auto simp: nth_list_update less_Suc_eq\<close>)
  then obtain B where "sort_init n A = Inr B" "length B = n" "\<forall>i < n. B ! i = ?v i" by auto
  moreover from this have "B = map ?v [0..<n]" by (intro nth_equalityI) simp_all
  ultimately show ?thesis by simp
qed

lemma sort_check_ok: "length A = i + n \<Longrightarrow> (\<forall>k < i + n. A ! k = of_nat k) \<Longrightarrow> sort_check i n A = Inr 0"
  by (induction n arbitrary: i) simp_all

lemma sint_small: "i < 2 ^ 31 \<Longrightarrow> sint (of_nat i :: 32 word) = int i"
  by (simp add: signed_of_nat signed_take_bit_int_eq_self)

lemma init_values: "map (\<lambda>i. of_nat (n - 1) - of_nat i :: 32 word) [0..<n] = rev (map of_nat [0..<n])"
  by (intro nth_equalityI) (simp_all add: rev_nth of_nat_diff [symmetric] del: of_nat_diff)

text \<open>\<^verbatim>\<open>sort.c\<close>: the passes sort any array, and the program finds its own result in order: it exits with 0.\<close>

theorem sort_main_succeeds:
  assumes "length A = SORT_SIZE"
  shows "sort_main A = Inr 0"
    and "\<exists>B. sort_passes SORT_SIZE A = Inr B \<and> sorted (map sint B) \<and> mset B = mset A"
proof -
  have "A \<noteq> []" using assms by (auto simp: SORT_SIZE_def)
  then show "\<exists>B. sort_passes SORT_SIZE A = Inr B \<and> sorted (map sint B) \<and> mset B = mset A"
    using sort_passes_ok [of A] assms by simp
  let ?R = "rev (map of_nat [0..<SORT_SIZE]) :: 32 word list"
  have init: "sort_init SORT_SIZE A = Inr ?R" using sort_init_ok [OF assms] by (simp only: init_values)
  have "?R \<noteq> []" "length ?R = SORT_SIZE" by (simp_all add: SORT_SIZE_def)
  then obtain B where B: "sort_passes SORT_SIZE ?R = Inr B" "sorted (map sint B)" "mset B = mset ?R"
    using sort_passes_ok [of ?R] by auto
  have ints: "map sint (map of_nat [0..<SORT_SIZE] :: 32 word list) = map int [0..<SORT_SIZE]"
    by (simp add: SORT_SIZE_def sint_small)
  have "mset (map sint B) = mset (map int [0..<SORT_SIZE])"
    using arg_cong [OF B(3), of "image_mset sint"] ints by (metis mset_map mset_rev)
  moreover have "sorted (map int [0..<SORT_SIZE])" by (simp add: sorted_iff_nth_mono)
  ultimately have eq: "map sint B = map int [0..<SORT_SIZE]" using B(2) by (metis properties_for_sort)
  then have l: "length B = SORT_SIZE" using map_eq_imp_length_eq [OF eq] by simp
  have "B ! k = of_nat k" if "k < SORT_SIZE" for k
  proof -
    have "sint (B ! k) = int k" using arg_cong [OF eq, of "\<lambda>xs. xs ! k"] that l by simp
    then have "sint (B ! k) = sint (of_nat k :: 32 word)" using that by (simp add: sint_small SORT_SIZE_def)
    then show ?thesis by (rule signed_word_eqI)
  qed
  then show "sort_main A = Inr 0"
    using init B(1) l sort_check_ok [of B 0 SORT_SIZE] by (simp add: sort_main_def)
qed

section \<open>Matrix multiplication\<close>

definition is_mat :: "nat \<Rightarrow> matrix \<Rightarrow> (nat \<Rightarrow> nat \<Rightarrow> 32 word) \<Rightarrow> bool" where
  "is_mat n M f \<longleftrightarrow> length M = n \<and> (\<forall>i < n. length (M ! i) = n \<and> (\<forall>j < n. M ! i ! j = f i j))"

lemma mat_get_ok: "is_mat n M f \<Longrightarrow> i < n \<Longrightarrow> j < n \<Longrightarrow> mat_get M i j = Inr (f i j)"
  by (simp add: is_mat_def mat_get_def)

lemma mat_set_ok:
  assumes "is_mat n M f" and "i < n" and "j < n"
  shows "\<exists>M'. mat_set M i j v = Inr M' \<and> is_mat n M' (f(i := (f i)(j := v)))"
  using assms by (auto simp: is_mat_def mat_set_def nth_list_update)

text \<open>A rectangle of loops that gives the elements their values one by one.\<close>

definition filled :: "(nat \<Rightarrow> nat \<Rightarrow> 'v) \<Rightarrow> (nat \<Rightarrow> nat \<Rightarrow> 'v) \<Rightarrow> nat \<Rightarrow> nat \<Rightarrow> nat \<Rightarrow> nat \<Rightarrow> 'v" where
  "filled g f i j a b = (if a < i \<or> a = i \<and> b < j then g a b else f a b)"

lemma filled_step: "(filled g f i j)(i := (filled g f i j i)(j := g i j)) = filled g f i (Suc j)"
  by (auto simp: filled_def fun_eq_iff less_Suc_eq)

lemma is_mat_cong: "is_mat n M f \<Longrightarrow> (\<And>i j. i < n \<Longrightarrow> j < n \<Longrightarrow> f i j = g i j) \<Longrightarrow> is_mat n M g"
  by (simp add: is_mat_def)

lemma is_mat_row: "is_mat n M (filled g f i n) \<Longrightarrow> is_mat n M (filled g f (Suc i) 0)"
  by (erule is_mat_cong) (auto simp: filled_def)

lemma is_mat_start: "is_mat n M f \<Longrightarrow> is_mat n M (filled g f 0 0)"
  by (erule is_mat_cong) (simp add: filled_def)

lemma is_mat_end: "is_mat n M (filled g f n 0) \<Longrightarrow> is_mat n M g"
  by (erule is_mat_cong) (simp add: filled_def)

lemma double_loop:
  assumes "Q 0 0 s" and step: "\<And>i j t. i < n \<Longrightarrow> j < n \<Longrightarrow> Q i j t \<Longrightarrow> \<exists>u. f i j t = Inr u \<and> Q i (Suc j) u"
    and row: "\<And>i t. Q i n t \<Longrightarrow> Q (Suc i) 0 t"
  shows "\<exists>t. iterate_r 0 n (\<lambda>i. iterate_r 0 n (f i)) s = Inr t \<and> Q n 0 t"
proof -
  have "\<exists>t. iterate_r 0 n (\<lambda>i. iterate_r 0 n (f i)) s = Inr t \<and> Q (0 + n) 0 t"
  proof (rule iterate_r_rule [where P = "\<lambda>i. Q i 0"])
    fix i t assume i: "i < 0 + n" "Q i 0 t"
    have "\<exists>u. iterate_r 0 n (f i) t = Inr u \<and> Q i (0 + n) u"
      by (rule iterate_r_rule [where P = "Q i"]) (use i step in auto)
    then show "\<exists>u. iterate_r 0 n (f i) t = Inr u \<and> Q (Suc i) 0 u" using row by auto
  qed (rule assms(1))
  then show ?thesis by simp
qed

lemma mat_init_ok:
  assumes "is_mat n A f" and "is_mat n B g" and "is_mat n C h"
  shows "\<exists>A' B' C'. mat_init n (A, B, C) = Inr (A', B', C') \<and> is_mat n A' (\<lambda>i j. of_nat i) \<and> is_mat n B' (\<lambda>i j. of_nat j) \<and> is_mat n C' (\<lambda>i j. 0)"
proof -
  let ?a = "\<lambda>i j. of_nat i :: 32 word" and ?b = "\<lambda>i j. of_nat j :: 32 word" and ?c = "\<lambda>i j :: nat. 0 :: 32 word"
  let ?Q = "\<lambda>i j (A, B, C). is_mat n A (filled ?a f i j) \<and> is_mat n B (filled ?b g i j) \<and> is_mat n C (filled ?c h i j)"
  have "\<exists>t. mat_init n (A, B, C) = Inr t \<and> ?Q n 0 t"
    unfolding mat_init_def
  proof (rule double_loop [where Q = ?Q])
    show "?Q 0 0 (A, B, C)" using assms is_mat_start by simp
    show "?Q i n t \<Longrightarrow> ?Q (Suc i) 0 t" for i t by (auto intro: is_mat_row)
    fix i j t assume ij: "i < n" "j < n" and q: "?Q i j t"
    obtain A1 B1 C1 where t: "t = (A1, B1, C1)" by (cases t)
    obtain A2 where A2: "mat_set A1 i j (of_nat i) = Inr A2" "is_mat n A2 (filled ?a f i (Suc j))"
      using mat_set_ok [of n A1 "filled ?a f i j" i j "of_nat i"] q ij filled_step [of ?a f i j] by (auto simp: t)
    obtain B2 where B2: "mat_set B1 i j (of_nat j) = Inr B2" "is_mat n B2 (filled ?b g i (Suc j))"
      using mat_set_ok [of n B1 "filled ?b g i j" i j "of_nat j"] q ij filled_step [of ?b g i j] by (auto simp: t)
    obtain C2 where C2: "mat_set C1 i j 0 = Inr C2" "is_mat n C2 (filled ?c h i (Suc j))"
      using mat_set_ok [of n C1 "filled ?c h i j" i j 0] q ij filled_step [of ?c h i j] by (auto simp: t)
    show "\<exists>u. (case t of (A, B, C) \<Rightarrow> rbind (mat_set A i j (of_nat i)) (\<lambda>A1. rbind (mat_set B i j (of_nat j)) (\<lambda>B1.
        rbind (mat_set C i j 0) (\<lambda>C1. Inr (A1, B1, C1))))) = Inr u \<and> ?Q i (Suc j) u"
      using A2 B2 C2 by (simp add: t)
  qed
  then show ?thesis by (auto dest: is_mat_end)
qed

definition dot :: "(nat \<Rightarrow> nat \<Rightarrow> 32 word) \<Rightarrow> (nat \<Rightarrow> nat \<Rightarrow> 32 word) \<Rightarrow> nat \<Rightarrow> nat \<Rightarrow> nat \<Rightarrow> 32 word" where
  "dot f g n i j = (\<Sum>k < n. f i k * g k j)"

lemma mat_multiply_ok:
  assumes A: "is_mat n A f" and B: "is_mat n B g" and C: "is_mat n C (\<lambda>i j. 0)"
  shows "\<exists>C'. mat_multiply n A B C = Inr C' \<and> is_mat n C' (dot f g n)"
proof -
  let ?z = "\<lambda>i j :: nat. 0 :: 32 word"
  let ?Q = "\<lambda>i j C. is_mat n C (filled (dot f g n) ?z i j)"
  have "\<exists>C'. mat_multiply n A B C = Inr C' \<and> ?Q n 0 C'"
    unfolding mat_multiply_def
  proof (rule double_loop [where Q = ?Q])
    show "?Q 0 0 C" using C by (rule is_mat_start)
    show "?Q i n D \<Longrightarrow> ?Q (Suc i) 0 D" for i D by (rule is_mat_row)
    fix i j D assume ij: "i < n" "j < n" and q: "?Q i j D"
    let ?F = "\<lambda>k. (filled (dot f g n) ?z i j)(i := (filled (dot f g n) ?z i j i)(j := dot f g k i j))"
    have "\<exists>E. iterate_r 0 n (mat_accumulate A B i j) D = Inr E \<and> is_mat n E (?F (0 + n))"
    proof (rule iterate_r_rule [where P = "\<lambda>k E. is_mat n E (?F k)"])
      show "is_mat n D (?F 0)" using q by (rule is_mat_cong) (simp add: dot_def filled_def)
      fix k E assume k: "k < 0 + n" "is_mat n E (?F k)"
      have s: "(?F k)(i := (?F k i)(j := ?F k i j + f i k * g k j)) = ?F (Suc k)"
        by (simp add: dot_def fun_eq_iff)
      have "mat_accumulate A B i j k E = mat_set E i j (?F k i j + f i k * g k j)"
        using k ij mat_get_ok [OF k(2) ij] mat_get_ok [OF A ij(1)] mat_get_ok [OF B _ ij(2)] by (simp add: mat_accumulate_def)
      then show "\<exists>G. mat_accumulate A B i j k E = Inr G \<and> is_mat n G (?F (Suc k))"
        using mat_set_ok [OF k(2) ij] unfolding s [symmetric] by metis
    qed
    then show "\<exists>E. iterate_r 0 n (mat_accumulate A B i j) D = Inr E \<and> ?Q i (Suc j) E"
      using filled_step [of "dot f g n" ?z i j] by simp
  qed
  then show ?thesis by (auto dest: is_mat_end)
qed

text \<open>\<^verbatim>\<open>matmult.c\<close> multiplies any two matrices; with its own it exits with 19 * 19 * 20 = 7220.\<close>

theorem matmult_main_result:
  assumes "is_mat Dim A f" and "is_mat Dim B g" and "is_mat Dim C h"
  shows "matmult_main (A, B, C) = Inr 7220"
proof -
  obtain A' B' C' where i: "mat_init Dim (A, B, C) = Inr (A', B', C')" "is_mat Dim A' (\<lambda>i j. of_nat i)" "is_mat Dim B' (\<lambda>i j. of_nat j)" "is_mat Dim C' (\<lambda>i j. 0)"
    using mat_init_ok [OF assms] by blast
  obtain D where D: "mat_multiply Dim A' B' C' = Inr D" "is_mat Dim D (dot (\<lambda>i j. of_nat i) (\<lambda>i j. of_nat j) Dim)"
    using mat_multiply_ok [OF i(2-4)] by blast
  have "mat_get D 19 19 = Inr 7220" using mat_get_ok [OF D(2), of 19 19] by (simp add: Dim_def dot_def)
  then show ?thesis using i(1) D(1) by (simp add: matmult_main_def Dim_def)
qed

end
