(* ===== verification/Spec2Isabelle.thy ===== *)
theory Spec2Isabelle
  imports LibTest FileSystemSpec ThreadsProofs AddrSpace ProcessProofs ConsoleProofs SyscallProofs SynchList NetworkProofs KernelMain Coff2Noff
    SynchListTest Stacks UserPrograms
begin

text \<open>
  A verification development of Nachos 4.0, a teaching operating system that runs on a simulated MIPS machine
  (\<^verbatim>\<open>src/Nachos4.0/code\<close>; all paths below are relative to it, except \<^verbatim>\<open>coff2noff/\<close> and \<^verbatim>\<open>c++example/\<close>, which are beside it).

  \<^bold>\<open>The program.\<close> \<^verbatim>\<open>machine/\<close> simulates a processor with paged memory, interrupts, a clock, a disk, a console and a
  network. \<^verbatim>\<open>threads/\<close> is the kernel proper: threads, the scheduler, semaphores, locks and condition variables, processes
  and the semaphores of user programs. \<^verbatim>\<open>filesys/\<close> is a file system on the simulated disk, and a stub over the files of the
  host. \<^verbatim>\<open>userprog/\<close> runs user programs: address spaces, system calls, the table of open files, the console as threads
  use it. \<^verbatim>\<open>network/\<close> is a post office over the network. \<^verbatim>\<open>lib/\<close> holds lists, hash tables, bit maps and the calls to the host.
  The build is the Linux one: 32 bits, little-endian, \<^verbatim>\<open>FILESYS_STUB\<close>, \<^verbatim>\<open>SIM_FIX\<close> and \<^verbatim>\<open>RDATA\<close> defined, a page table and no TLB;
  the file system proper, which that build leaves out, is modelled as its own files state it.

  \<^bold>\<open>How code becomes definitions.\<close> A class is a record and a method a definition with the name \<^verbatim>\<open>Class_Method\<close>. A failed
  assertion, an access outside an array, a null pointer and the like are values (\<open>fault\<close>), so every routine that can fail
  returns a \<open>'a result\<close>. Machine words are \<open>32 word\<close>; counters and indices are \<open>int\<close>. Where a caller can make a C \<^verbatim>\<open>int\<close>
  overflow, as the end of a range of a file can, the overflow is a fault too (\<open>Overflow\<close>), and the theorems name the ranges
  that fit. The clock is an unbounded \<open>int\<close>: the theorems on the interrupt loop and on the disk state how far below
  \<^verbatim>\<open>INT_MAX\<close> it is to be, and that it is an \<^verbatim>\<open>int\<close> afterwards. What \<^verbatim>\<open>new\<close> finds in memory and what the
  host does are arguments. Loops are structural recursion, or recursion with a measure;
  loops that a host could keep going are partial functions (\<open>None\<close> when they do not end), shown to end. The only fuel is that of pointer
  walks (one more than the number of cells ever allocated, after which a walk has met a cell twice), of the loop over due
  interrupts (the number of pending interrupts), and of \<open>drive\<close> in \<^verbatim>\<open>Syscalls\<close>, which runs other threads while a system
  call waits: its number is how often control returns to the caller, and the theorems hold for every number.

  \<^bold>\<open>The theories, in the order of their imports.\<close>

  \<^item> \<^verbatim>\<open>Nachos_Prelude\<close>: faults and results, checked arrays, the macros of \<^verbatim>\<open>lib/utility.h\<close>, shared lemmas and the collections
    \<open>result_simps\<close> and \<open>bitmap_simps\<close>.
  \<^item> \<^verbatim>\<open>Encoding\<close>: objects as bytes (\<open>word_bytes\<close>), buffers (\<open>copy_in\<close>, \<open>copy_out\<close> for \<^verbatim>\<open>bcopy\<close>), C strings. Its locale
    \<open>flat_object\<close>, an object with an image of fixed size, is interpreted for file headers, directory entries, the bit map in
    a file, the headers of packets and of mail, and the header of an executable.
  \<^item> \<^verbatim>\<open>Bitmap\<close>: \<^verbatim>\<open>lib/bitmap.cc\<close> on packed words; every method in terms of the abstract bits. The locale \<open>bit_allocator\<close> is what
    the users of a bit map rely on.
  \<^item> \<^verbatim>\<open>NachosList\<close>, \<^verbatim>\<open>ListRefinement\<close>: \<^verbatim>\<open>lib/list.cc\<close> with cells in a store, and the abstract lists that it implements, for any
    sequence of operations (locale \<open>list_impl\<close>), without disturbing other lists. Other components use the abstract operations.
  \<^item> \<^verbatim>\<open>HashTable\<close>: \<^verbatim>\<open>lib/hash.cc\<close>, growing included, implements a finite map (locale \<open>key_table\<close>); iterators visit every item once.
  \<^item> \<^verbatim>\<open>LibTest\<close>: \<^verbatim>\<open>lib/libtest.cc\<close> runs without a failed assertion.
  \<^item> \<^verbatim>\<open>Disk\<close>: \<^verbatim>\<open>machine/disk.cc\<close> and \<^verbatim>\<open>filesys/synchdisk.cc\<close>: sectors, latency, the track buffer; bounds on the latency.
  \<^item> \<^verbatim>\<open>FileHdr\<close>, \<^verbatim>\<open>OpenFile\<close>, \<^verbatim>\<open>Directory\<close>, \<^verbatim>\<open>FileSystem\<close>: \<^verbatim>\<open>filesys/\<close> from the headers of files up to \<^verbatim>\<open>Create\<close>, \<^verbatim>\<open>Open\<close> and \<^verbatim>\<open>Remove\<close>. A
    write changes exactly its bytes; a directory is a map on the first nine bytes of names (locale \<open>name_table\<close>).
  \<^item> \<^verbatim>\<open>FileSystemSpec\<close>: the abstract file system, a map from names to contents, and the refinement: after a format every
    sequence of requests behaves like it, and mounting again finds the same files.
  \<^item> \<^verbatim>\<open>Machine\<close>: \<^verbatim>\<open>machine/machine.cc\<close> and \<^verbatim>\<open>machine/translate.cc\<close>: registers, memory, translation, exceptions. The handler of
    exceptions is an argument here.
  \<^item> \<^verbatim>\<open>MipsSim\<close>, \<^verbatim>\<open>MipsProofs\<close>: \<^verbatim>\<open>machine/mipssim.cc\<close>, every instruction. The locale \<open>exception_handler\<close> is the contract that the
    simulation asks of a kernel; \<^verbatim>\<open>SyscallProofs\<close> interprets it on this kernel. An instruction fails only by the overflowing
    division, or by the handler's fault for the exception that it raises.
  \<^item> \<^verbatim>\<open>Threads\<close>, \<^verbatim>\<open>ThreadsProofs\<close>: \<^verbatim>\<open>machine/interrupt.cc\<close>, \<^verbatim>\<open>machine/timer.cc\<close>, \<^verbatim>\<open>threads/alarm.cc\<close>, \<^verbatim>\<open>threads/scheduler.cc\<close>,
    \<^verbatim>\<open>threads/thread.cc\<close>, \<^verbatim>\<open>threads/synch.cc\<close>, at the level of stack frames and context switches: no assertion fails, no thread
    is lost, no wakeup is lost, a lock has one holder.
  \<^item> \<^verbatim>\<open>SynchList\<close>: \<^verbatim>\<open>threads/synchlist.cc\<close> as a monitor: first in, first out, in every interleaving; bounded progress; a thread
    is left waiting only when the list is empty.
  \<^item> \<^verbatim>\<open>SynchListTest\<close>: \<^verbatim>\<open>SynchList::SelfTest\<close>, two threads and two lists: in every interleaving it ends and no assertion fails.
  \<^item> \<^verbatim>\<open>AddrSpace\<close>: \<^verbatim>\<open>userprog/addrspace.cc\<close>: loading gives a program fresh frames with its segments and zeros; programs are isolated.
  \<^item> \<^verbatim>\<open>FileTable\<close>: \<^verbatim>\<open>userprog/FileDescriptors.h\<close>, the stub file system and the file routines of \<^verbatim>\<open>lib/sysdep.cc\<close>.
  \<^item> \<^verbatim>\<open>ProcessTable\<close>, \<^verbatim>\<open>ProcessProofs\<close>: \<^verbatim>\<open>threads/pcb.cc\<close>, \<^verbatim>\<open>threads/ptable.cc\<close>, \<^verbatim>\<open>threads/sem.cc\<close>, \<^verbatim>\<open>threads/stable.cc\<close>. Routines that
    wait return an \<open>outcome\<close>, which stops where a thread can lose the processor; \<open>pstep\<close> interleaves. \<^verbatim>\<open>Join\<close> and \<^verbatim>\<open>Exit\<close> meet in
    every interleaving; the table of user semaphores is a map.
  \<^item> \<^verbatim>\<open>Console\<close>, \<^verbatim>\<open>ConsoleProofs\<close>: \<^verbatim>\<open>machine/console.cc\<close> and \<^verbatim>\<open>userprog/synchconsole.cc\<close>: any number of threads and the interrupts of
    both devices, with no failed assertion and no character overwritten.
  \<^item> \<^verbatim>\<open>Syscalls\<close>, \<^verbatim>\<open>SyscallProofs\<close>: \<^verbatim>\<open>userprog/ksyscall.h\<close> and \<^verbatim>\<open>userprog/exception.cc\<close>: what a call does to registers and program
    counter, that the handler keeps the contract of the machine, copying of strings, calls that crash the kernel.
  \<^item> \<^verbatim>\<open>Network\<close>, \<^verbatim>\<open>NetworkProofs\<close>: \<^verbatim>\<open>machine/network.cc\<close>, \<^verbatim>\<open>network/post.cc\<close> and the socket routines of \<^verbatim>\<open>lib/sysdep.cc\<close>: several machines
    with their threads and interrupts; letters arrive unchanged, in order and once; a started machine is stopped only by a
    letter to a box that it does not have, or by a bad call of its own.
  \<^item> \<^verbatim>\<open>KernelMain\<close>: the command line of \<^verbatim>\<open>threads/main.cc\<close> and \<^verbatim>\<open>threads/kernel.cc\<close>, and \<^verbatim>\<open>Copy\<close> and \<^verbatim>\<open>Print\<close>: a file of the host that
    is copied into the Nachos file system is printed as it was.
  \<^item> \<^verbatim>\<open>Coff2Noff\<close>: \<^verbatim>\<open>coff2noff/coff2noff.c\<close>, which makes the executables that \<^verbatim>\<open>AddrSpace::Load\<close> reads from the object files of the
    linker. Together with \<^verbatim>\<open>Copy\<close>, \<^verbatim>\<open>Open\<close> and \<^verbatim>\<open>Load\<close>: every byte of a section ends up at its virtual address.
  \<^item> \<^verbatim>\<open>UserPrograms\<close>: \<^verbatim>\<open>test/sort.c\<close> and \<^verbatim>\<open>test/matmult.c\<close>: the sort sorts any array, and both exit with the values they should.
  \<^item> \<^verbatim>\<open>Stacks\<close>: \<^verbatim>\<open>c++example/\<close>: the locale \<open>stack_class\<close> is what an abstract class promises; the classes over an array and over a list
    both keep it, so its test cannot tell them apart.

  \<^bold>\<open>How the parts rest on one another.\<close> The kernel's lists are the abstract lists of \<^verbatim>\<open>ListRefinement\<close>. Frames, disk sectors,
  process slots and semaphore slots come from \<^verbatim>\<open>Bitmap\<close>. The system calls work on the state of \<^verbatim>\<open>Machine\<close>, extended by the
  tables of processes, semaphores and files and by the consoles. That a thread loses the processor only after a \<^verbatim>\<open>P\<close> or
  \<^verbatim>\<open>V\<close> or while it waits, which the theories from \<^verbatim>\<open>ProcessTable\<close> on use, is how \<^verbatim>\<open>Interrupt::SetLevel\<close> in \<^verbatim>\<open>Threads\<close> works.
  Mailboxes are used as \<^verbatim>\<open>SynchList\<close> shows synchronised lists to be.

  \<^bold>\<open>Assumptions on the host.\<close> \<open>posix\<close> (\<^verbatim>\<open>FileTable\<close>), \<open>unix_file\<close> (\<^verbatim>\<open>KernelMain\<close>) and \<open>datagrams\<close> (\<^verbatim>\<open>NetworkProofs\<close>) state
  what open files and datagram sockets are relied on to do; each theorem that uses them has a witness over a small host that satisfies them.

  \<^bold>\<open>Not modelled.\<close> Most of the construction and destruction of the kernel's parts (\<^verbatim>\<open>threads/main.cc\<close>, \<^verbatim>\<open>threads/kernel.cc\<close>). Printing, debugging and statistics. The context switch itself, which is assembly; the growth
  of thread stacks, so the word at the end of a stack never changes. Memory protection,
  signals and delays of the host. The interactive debugger of the machine. The self test of the network.
  Releasing memory, except where a destructor has another effect. The user programs that only make system calls, and
  the headers of the cross compiler.
\<close>

end
